(* ===== verification/Ufs_Prelude.thy ===== *)
theory Ufs_Prelude
  imports Main "HOL-Library.Word" "HOL-Library.Monad_Syntax" "HOL-Library.Signed_Division"
begin

text \<open>
  Shared vocabulary of the development.

  \<^item> Machine integers: \<open>u8\<close> .. \<open>u64\<close> are words; an \<open>i64\<close> is an \<open>int\<close> whose
    wrap-around is written out with the function \<open>i64\<close>, and an \<open>as usize\<close> cast is the
    function \<open>usize\<close> (the release profile has no overflow checks, so arithmetic wraps).
  \<^item> Panics: a Rust expression that may panic is an \<open>option\<close> whose \<open>None\<close> is the panic (the
    release profile aborts on panic, so nothing runs after it).
  \<^item> Slices: \<open>get_at\<close>, \<open>subslice\<close>, \<open>copy_at\<close> and \<open>fill_at\<close> are \<open>b[i]\<close>,
    \<open>&b[i..j]\<close>, \<open>b[i..].copy_from_slice\<close> and \<open>b[i..j].fill\<close> with their bounds checks.
  \<^item> The write path is a state and error monad: \<open>('s, 'e, 'a) wm\<close> takes the mutable state (the image)
    and returns \<open>Result\<close> (a sum) together with the new state, or \<open>None\<close> for a panic. The state
    survives an \<open>Err\<close>, as mutations made through \<open>&mut [u8]\<close> do.
\<close>

named_theorems slice_simps \<open>bounds-checked slice operations\<close>
named_theorems wm_simps \<open>unfolding of the state and error monad\<close>
named_theorems keeps_intros \<open>invariance of a state predicate under the monad\<close>

type_synonym u8 = "8 word"
type_synonym u16 = "16 word"
type_synonym u32 = "32 word"
type_synonym u64 = "64 word"
type_synonym bytes = "u8 list"
type_synonym image = "u8 list"
type_synonym rstr = "u8 list" \<comment> \<open>a Rust string, by its UTF-8 bytes\<close>

section \<open>Machine integers\<close>

definition i64 :: "int \<Rightarrow> int" where
  "i64 x = signed_take_bit 63 x"

definition usize :: "int \<Rightarrow> nat" where
  "usize x = nat (x mod 2 ^ 64)"

text \<open>A wrapping \<^verbatim>\<open>usize\<close> addition.\<close>

definition uadd :: "nat \<Rightarrow> nat \<Rightarrow> nat" where
  "uadd a b = (a + b) mod 2 ^ 64"

definition in_i64 :: "int \<Rightarrow> bool" where
  "in_i64 x \<longleftrightarrow> - (2 ^ 63) \<le> x \<and> x < 2 ^ 63"

definition shl_i64 :: "int \<Rightarrow> int \<Rightarrow> int" where
  "shl_i64 x k = i64 (push_bit (nat (k mod 64)) x)"

lemma i64_id [simp]: "in_i64 x \<Longrightarrow> i64 x = x"
  by (simp add: i64_def in_i64_def signed_take_bit_int_eq_self)

lemma i64_id_bounds: "- (2 ^ 63) \<le> x \<Longrightarrow> x < 2 ^ 63 \<Longrightarrow> i64 x = x"
  by (simp add: in_i64_def)

lemma i64_in_i64: "in_i64 (i64 x)"
  unfolding in_i64_def i64_def
  by (metis signed_take_bit_int_greater_eq_minus_exp signed_take_bit_int_less_exp)

lemma usize_id: "0 \<le> x \<Longrightarrow> x < 2 ^ 64 \<Longrightarrow> usize x = nat x"
  by (simp add: usize_def)

lemma usize_int [simp]: "n < 2 ^ 64 \<Longrightarrow> usize (int n) = n"
  by (simp add: usize_def zmod_int [symmetric])

lemma uadd_eq: "a + b < 2 ^ 64 \<Longrightarrow> uadd a b = a + b"
  by (simp add: uadd_def)

lemma shl_i64_eq:
  assumes "0 \<le> k" "k < 64" "in_i64 (x * 2 ^ nat k)"
  shows "shl_i64 x k = x * 2 ^ nat k"
  using assms by (simp add: shl_i64_def push_bit_eq_mult)

lemma sdiv_nonneg: "0 \<le> (a::int) \<Longrightarrow> 0 < b \<Longrightarrow> a sdiv b = a div b"
  by (cases "a = 0") (simp_all add: signed_divide_int_def)

lemma smod_nonneg: "0 \<le> (a::int) \<Longrightarrow> 0 < b \<Longrightarrow> a smod b = a mod b"
  by (cases "a = 0") (simp_all add: signed_modulo_int_def)

lemma int_div_less: "0 < (b::int) \<Longrightarrow> a < c * b \<Longrightarrow> a div b < c"
  using zdiv_mono1 [of "c * b" a b] by (cases "a div b < c") (auto simp: not_less, smt (verit) div_mult_mod_eq mult_right_mono pos_mod_sign)

lemma unat_u8_bound: "unat (b::u8) < 256"
  using unsigned_less [of b] by simp

lemma unat_u16_bound: "unat (b::u16) < 65536"
  using unsigned_less [of b] by simp

lemma unat_u32_bound: "unat (b::u32) < 4294967296"
  using unsigned_less [of b] by simp

lemma unat_u64_bound: "unat (b::u64) < 18446744073709551616"
  using unsigned_less [of b] by simp

section \<open>Panicking computations\<close>

primrec mapM :: "('a \<Rightarrow> 'b option) \<Rightarrow> 'a list \<Rightarrow> 'b list option" where
  "mapM f [] = Some []"
| "mapM f (x # xs) = do { y \<leftarrow> f x; ys \<leftarrow> mapM f xs; Some (y # ys) }"

primrec foldM :: "('s \<Rightarrow> 'a \<Rightarrow> 's option) \<Rightarrow> 's \<Rightarrow> 'a list \<Rightarrow> 's option" where
  "foldM f s [] = Some s"
| "foldM f s (x # xs) = do { s' \<leftarrow> f s x; foldM f s' xs }"

text \<open>First element satisfying a panicking test; \<open>Some None\<close> when there is none.\<close>

primrec mfind :: "('a \<Rightarrow> bool option) \<Rightarrow> 'a list \<Rightarrow> 'a option option" where
  "mfind p [] = Some None"
| "mfind p (x # xs) = do { b \<leftarrow> p x; if b then Some (Some x) else mfind p xs }"

text \<open>\<open>iter().all(p)\<close>, which stops at the first failure.\<close>

primrec mall :: "('a \<Rightarrow> bool option) \<Rightarrow> 'a list \<Rightarrow> bool option" where
  "mall p [] = Some True"
| "mall p (x # xs) = do { b \<leftarrow> p x; if b then mall p xs else Some False }"

lemma mapM_length: "mapM f xs = Some ys \<Longrightarrow> length ys = length xs"
  by (induction xs arbitrary: ys) (auto simp: bind_eq_Some_conv)

lemma mapM_nth: "mapM f xs = Some ys \<Longrightarrow> i < length xs \<Longrightarrow> f (xs ! i) = Some (ys ! i)"
  by (induction xs arbitrary: ys i) (auto simp: bind_eq_Some_conv nth_Cons split: nat.splits)

lemma mapM_Some_map: "(\<And>x. x \<in> set xs \<Longrightarrow> f x = Some (g x)) \<Longrightarrow> mapM f xs = Some (map g xs)"
  by (induction xs) auto

lemma mapM_cong_set: "(\<And>x. x \<in> set xs \<Longrightarrow> f x = g x) \<Longrightarrow> mapM f xs = mapM g xs"
  by (induction xs) auto

lemma mall_Some_iff:
  "(\<And>x. x \<in> set xs \<Longrightarrow> p x = Some (q x)) \<Longrightarrow> mall p xs = Some (\<forall>x \<in> set xs. q x)"
  by (induction xs) auto

lemma mall_TrueD: "mall p xs = Some True \<Longrightarrow> x \<in> set xs \<Longrightarrow> p x = Some True"
  by (induction xs) (auto simp: bind_eq_Some_conv split: if_splits)

lemma mall_True_iff: "mall p xs = Some True \<longleftrightarrow> (\<forall>x \<in> set xs. p x = Some True)"
  by (induction xs) (auto simp: bind_eq_Some_conv)

lemma mfind_Some_SomeD:
  "mfind p xs = Some (Some x) \<Longrightarrow> x \<in> set xs \<and> p x = Some True"
  by (induction xs) (auto simp: bind_eq_Some_conv split: if_splits)

lemma mfind_Some_NoneD:
  "mfind p xs = Some None \<Longrightarrow> x \<in> set xs \<Longrightarrow> p x = Some False"
  by (induction xs) (auto simp: bind_eq_Some_conv split: if_splits)

lemma mfind_total:
  "(\<And>x. x \<in> set xs \<Longrightarrow> p x \<noteq> None) \<Longrightarrow> mfind p xs \<noteq> None"
  by (induction xs) (fastforce simp: bind_eq_None_conv)+

lemma foldM_keeps:
  assumes "\<And>s x s'. x \<in> set xs \<Longrightarrow> f s x = Some s' \<Longrightarrow> P s \<Longrightarrow> P s'"
  shows "foldM f s xs = Some s' \<Longrightarrow> P s \<Longrightarrow> P s'"
  using assms by (induction xs arbitrary: s) (fastforce simp: bind_eq_Some_conv)+

lemma foldM_append:
  "foldM f s (xs @ ys) = do { s' \<leftarrow> foldM f s xs; foldM f s' ys }"
  by (induction xs arbitrary: s) (auto intro: Option.bind_cong)

lemma mapM_iff: "mapM f xs = Some ys \<longleftrightarrow> length ys = length xs \<and> (\<forall>i < length xs. f (xs ! i) = Some (ys ! i))"
proof (induction xs arbitrary: ys)
  case (Cons x xs)
  show ?case
    by (cases ys) (auto simp: bind_eq_Some_conv Cons.IH less_Suc_eq_0_disj)
qed auto

lemma foldM_cong_set: "(\<And>s x. x \<in> set xs \<Longrightarrow> f s x = g s x) \<Longrightarrow> foldM f s xs = foldM g s xs"
  by (induction xs arbitrary: s) (auto intro: Option.bind_cong)

lemma bind_ex:
  "\<exists>a. m = Some a \<and> P a \<Longrightarrow> (\<And>a. P a \<Longrightarrow> \<exists>b. f a = Some b \<and> Q b) \<Longrightarrow> \<exists>b. Option.bind m f = Some b \<and> Q b"
  by auto

section \<open>Bounds-checked slices\<close>

definition get_at :: "'a list \<Rightarrow> nat \<Rightarrow> 'a option" where
  "get_at xs i = (if i < length xs then Some (xs ! i) else None)"

definition subslice :: "'a list \<Rightarrow> nat \<Rightarrow> nat \<Rightarrow> 'a list option" where
  "subslice xs i j = (if i \<le> j \<and> j \<le> length xs then Some (take (j - i) (drop i xs)) else None)"

definition copy_at :: "'a list \<Rightarrow> nat \<Rightarrow> 'a list \<Rightarrow> 'a list option" where
  "copy_at xs i src =
     (if i + length src \<le> length xs then Some (take i xs @ src @ drop (i + length src) xs) else None)"

definition fill_at :: "'a list \<Rightarrow> nat \<Rightarrow> nat \<Rightarrow> 'a \<Rightarrow> 'a list option" where
  "fill_at xs i j v = (if i \<le> j then copy_at xs i (replicate (j - i) v) else None)"

lemma copy_at_length [slice_simps]: "copy_at xs i src = Some ys \<Longrightarrow> length ys = length xs"
  by (auto simp: copy_at_def split: if_splits)

lemma copy_at_bound: "copy_at xs i src = Some ys \<Longrightarrow> i + length src \<le> length xs"
  by (auto simp: copy_at_def split: if_splits)

lemma copy_at_total: "i + length src \<le> length xs \<Longrightarrow> \<exists>ys. copy_at xs i src = Some ys"
  by (simp add: copy_at_def)

lemma copy_at_nth:
  assumes "copy_at xs i src = Some ys"
  shows "ys ! k = (if i \<le> k \<and> k < i + length src then src ! (k - i) else xs ! k)"
  using assms by (cases "k < i") (auto simp: copy_at_def nth_append split: if_splits)

lemma fill_at_length: "fill_at xs i j v = Some ys \<Longrightarrow> length ys = length xs"
  by (auto simp: fill_at_def copy_at_length split: if_splits)

lemma fill_at_nth:
  assumes "fill_at xs i j v = Some ys"
  shows "ys ! k = (if i \<le> k \<and> k < j then v else xs ! k)"
  using assms by (auto simp: fill_at_def copy_at_nth split: if_splits)

lemma fill_at_bound: "fill_at xs i j v = Some ys \<Longrightarrow> i \<le> j \<and> j \<le> length xs"
  by (auto simp: fill_at_def dest: copy_at_bound split: if_splits)

lemma subslice_length: "subslice xs i j = Some ys \<Longrightarrow> length ys = j - i"
  by (auto simp: subslice_def split: if_splits)

lemma subslice_nth: "subslice xs i j = Some ys \<Longrightarrow> k < j - i \<Longrightarrow> ys ! k = xs ! (i + k)"
  by (auto simp: subslice_def split: if_splits)

lemma subslice_SomeI: "i \<le> j \<Longrightarrow> j \<le> length xs \<Longrightarrow> subslice xs i j = Some (take (j - i) (drop i xs))"
  by (simp add: subslice_def)

lemma subslice_eqI:
  assumes "length ys = length xs" "\<And>k. i \<le> k \<Longrightarrow> k < j \<Longrightarrow> ys ! k = xs ! k"
  shows "subslice ys i j = subslice xs i j"
proof (cases "i \<le> j \<and> j \<le> length xs")
  case True
  have "take (j - i) (drop i ys) = take (j - i) (drop i xs)"
    using True assms by (intro nth_equalityI) auto
  then show ?thesis using True assms by (simp add: subslice_def)
qed (use assms in \<open>auto simp: subslice_def\<close>)

lemma subslice_sub:
  assumes "subslice xs a b = Some ys" "i \<le> j" "j \<le> b - a"
  shows "subslice xs (a + i) (a + j) = Some (take (j - i) (drop i ys))"
  using assms by (auto simp: subslice_def drop_take min_def add.commute split: if_splits)

lemma subslice_copy_same:
  assumes "copy_at xs i src = Some ys"
  shows "subslice ys i (i + length src) = Some src"
  using assms by (auto simp: copy_at_def subslice_def split: if_splits)

lemma subslice_copy_disjoint:
  assumes "copy_at xs i src = Some ys" "b \<le> i \<or> i + length src \<le> a"
  shows "subslice ys a b = subslice xs a b"
  using assms by (intro subslice_eqI) (auto simp: copy_at_length copy_at_nth)

lemma get_at_copy_disjoint:
  assumes "copy_at xs i src = Some ys" "k < i \<or> i + length src \<le> k"
  shows "get_at ys k = get_at xs k"
  using assms by (auto simp: get_at_def copy_at_length copy_at_nth)

section \<open>The write-path monad\<close>

type_synonym ('s, 'e, 'a) wm = "'s \<Rightarrow> (('e + 'a) \<times> 's) option"

definition wreturn :: "'a \<Rightarrow> ('s, 'e, 'a) wm" where
  "wreturn x s = Some (Inr x, s)"

definition wfail :: "'e \<Rightarrow> ('s, 'e, 'a) wm" where
  "wfail e s = Some (Inl e, s)"

definition wbind :: "('s, 'e, 'a) wm \<Rightarrow> ('a \<Rightarrow> ('s, 'e, 'b) wm) \<Rightarrow> ('s, 'e, 'b) wm" where
  "wbind m f s = (case m s of None \<Rightarrow> None
     | Some (r, s') \<Rightarrow> (case r of Inl e \<Rightarrow> Some (Inl e, s') | Inr x \<Rightarrow> f x s'))"

text \<open>A read through a shared borrow of the state, and an in-place update that cannot fail but may panic.\<close>

definition wread :: "('s \<Rightarrow> 'a option) \<Rightarrow> ('s, 'e, 'a) wm" where
  "wread g s = (case g s of None \<Rightarrow> None | Some x \<Rightarrow> Some (Inr x, s))"

definition wmodify :: "('s \<Rightarrow> 's option) \<Rightarrow> ('s, 'e, unit) wm" where
  "wmodify h s = (case h s of None \<Rightarrow> None | Some s' \<Rightarrow> Some (Inr (), s'))"

text \<open>An expression that reads no state but may panic.\<close>

definition wopt :: "'a option \<Rightarrow> ('s, 'e, 'a) wm" where
  "wopt x = wread (\<lambda>_. x)"

text \<open>\<open>opt.ok_or(e)?\<close> on an already computed option.\<close>

definition wok_or :: "'e \<Rightarrow> 'a option \<Rightarrow> ('s, 'e, 'a) wm" where
  "wok_or e x = (case x of None \<Rightarrow> wfail e | Some y \<Rightarrow> wreturn y)"

text \<open>\<open>result?\<close> on a result that was computed without the state.\<close>

definition wlift :: "('e + 'a) option \<Rightarrow> ('s, 'e, 'a) wm" where
  "wlift r = wbind (wopt r) (\<lambda>x. case x of Inl e \<Rightarrow> wfail e | Inr y \<Rightarrow> wreturn y)"

text \<open>A computation whose errors are wrapped.\<close>

definition wmap_err :: "('e \<Rightarrow> 'f) \<Rightarrow> ('s, 'e, 'a) wm \<Rightarrow> ('s, 'f, 'a) wm" where
  "wmap_err f m s = map_option (\<lambda>(r, s'). (map_sum f id r, s')) (m s)"

text \<open>\<open>for x in xs { f(x)?; }\<close> and the loop that pushes each result.\<close>

primrec wfor :: "'a list \<Rightarrow> ('a \<Rightarrow> ('s, 'e, unit) wm) \<Rightarrow> ('s, 'e, unit) wm" where
  "wfor [] f = wreturn ()"
| "wfor (x # xs) f = wbind (f x) (\<lambda>_. wfor xs f)"

primrec wmapM :: "('a \<Rightarrow> ('s, 'e, 'b) wm) \<Rightarrow> 'a list \<Rightarrow> ('s, 'e, 'b list) wm" where
  "wmapM f [] = wreturn []"
| "wmapM f (x # xs) = wbind (f x) (\<lambda>y. wbind (wmapM f xs) (\<lambda>ys. wreturn (y # ys)))"

text \<open>\<open>for x in xs { ..; continue; ..; return Ok(y) } Err(e)\<close>: the first iteration that returns decides.\<close>

primrec wfirst :: "'a list \<Rightarrow> ('a \<Rightarrow> ('s, 'e, 'b option) wm) \<Rightarrow> 'e \<Rightarrow> ('s, 'e, 'b) wm" where
  "wfirst [] f e = wfail e"
| "wfirst (x # xs) f e = wbind (f x) (\<lambda>r. case r of None \<Rightarrow> wfirst xs f e | Some y \<Rightarrow> wreturn y)"

text \<open>Running a computation by its definition.\<close>

lemmas wm_run = wbind_def wread_def wmodify_def wlift_def wopt_def wmap_err_def wreturn_def wfail_def

lemma wreturn_iff [wm_simps]: "wreturn x s = Some (r, s') \<longleftrightarrow> r = Inr x \<and> s' = s"
  by (auto simp: wreturn_def)

lemma wfail_iff [wm_simps]: "wfail e s = Some (r, s') \<longleftrightarrow> r = Inl e \<and> s' = s"
  by (auto simp: wfail_def)

lemma wread_iff [wm_simps]: "wread g s = Some (r, s') \<longleftrightarrow> (\<exists>x. g s = Some x \<and> r = Inr x \<and> s' = s)"
  by (auto simp: wread_def split: option.splits)

lemma wmodify_iff [wm_simps]: "wmodify h s = Some (r, s') \<longleftrightarrow> h s = Some s' \<and> r = Inr ()"
  by (auto simp: wmodify_def split: option.splits)

lemma wopt_iff [wm_simps]: "wopt x s = Some (r, s') \<longleftrightarrow> (\<exists>y. x = Some y \<and> r = Inr y \<and> s' = s)"
  by (auto simp: wopt_def wm_simps)

lemma wopt_run: "x = Some y \<Longrightarrow> wopt x s = Some (Inr y, s)"
  by (simp add: wopt_def wread_def)

lemma wok_or_iff [wm_simps]:
  "wok_or e x s = Some (r, s') \<longleftrightarrow> s' = s \<and> (case x of None \<Rightarrow> r = Inl e | Some y \<Rightarrow> r = Inr y)"
  by (auto simp: wok_or_def wm_simps split: option.splits)

lemma wbind_Inr_iff [wm_simps]:
  "wbind m f s = Some (Inr y, s'') \<longleftrightarrow> (\<exists>x s'. m s = Some (Inr x, s') \<and> f x s' = Some (Inr y, s''))"
  by (auto simp: wbind_def split: option.splits sum.splits)

lemma wbind_Inl_iff:
  "wbind m f s = Some (Inl e, s'') \<longleftrightarrow>
     m s = Some (Inl e, s'') \<or> (\<exists>x s'. m s = Some (Inr x, s') \<and> f x s' = Some (Inl e, s''))"
  by (auto simp: wbind_def split: option.splits sum.splits)

lemma wbind_run:
  "m s = Some (Inr x, s') \<Longrightarrow> wbind m f s = f x s'"
  by (simp add: wbind_def)

lemma wread_run: "g s = Some x \<Longrightarrow> wread g s = Some (Inr x, s)"
  by (simp add: wread_def)

lemma wmodify_run: "h s = Some s' \<Longrightarrow> wmodify h s = Some (Inr (), s')"
  by (simp add: wmodify_def)

lemma wbind_wreturn_left [simp]: "wbind (wreturn x) f = f x"
  by (rule ext) (simp add: wbind_def wreturn_def)

lemma wbind_assoc: "wbind (wbind m f) g = wbind m (\<lambda>x. wbind (f x) g)"
  by (rule ext) (simp add: wbind_def split: option.splits sum.splits prod.splits)

subsection \<open>Invariance\<close>

text \<open>\<open>keeps P m\<close>: whatever \<open>m\<close> returns, success or error, it keeps \<open>P\<close> of the state.\<close>

definition keeps :: "('s \<Rightarrow> bool) \<Rightarrow> ('s, 'e, 'a) wm \<Rightarrow> bool" where
  "keeps P m \<longleftrightarrow> (\<forall>s r s'. P s \<longrightarrow> m s = Some (r, s') \<longrightarrow> P s')"

lemma keepsD: "keeps P m \<Longrightarrow> P s \<Longrightarrow> m s = Some (r, s') \<Longrightarrow> P s'"
  by (auto simp: keeps_def)

lemma keepsI: "(\<And>s r s'. P s \<Longrightarrow> m s = Some (r, s') \<Longrightarrow> P s') \<Longrightarrow> keeps P m"
  by (auto simp: keeps_def)

lemma keeps_wreturn [keeps_intros]: "keeps P (wreturn x)"
  by (rule keepsI) (simp add: wm_simps)

lemma keeps_wfail [keeps_intros]: "keeps P (wfail e)"
  by (rule keepsI) (simp add: wm_simps)

lemma keeps_wread [keeps_intros]: "keeps P (wread g)"
  by (rule keepsI) (auto simp: wm_simps)

lemma keeps_wopt [keeps_intros]: "keeps P (wopt x)"
  by (rule keepsI) (auto simp: wm_simps)

lemma keeps_wok_or [keeps_intros]: "keeps P (wok_or e x)"
  by (rule keepsI) (simp add: wm_simps)

lemma keeps_wmodify: "(\<And>s s'. P s \<Longrightarrow> h s = Some s' \<Longrightarrow> P s') \<Longrightarrow> keeps P (wmodify h)"
  by (rule keepsI) (simp add: wm_simps)

lemma keeps_wbind [keeps_intros]:
  "keeps P m \<Longrightarrow> (\<And>x. keeps P (f x)) \<Longrightarrow> keeps P (wbind m f)"
proof (rule keepsI)
  fix s r s'
  assume m: "keeps P m" and f: "\<And>x. keeps P (f x)" and s: "P s" "wbind m f s = Some (r, s')"
  from s(2) obtain q t where q: "m s = Some (q, t)"
    and r: "(case q of Inl e \<Rightarrow> Some (Inl e, t) | Inr x \<Rightarrow> f x t) = Some (r, s')"
    by (auto simp: wbind_def split: option.splits)
  have "P t" using m s(1) q by (rule keepsD)
  then show "P s'" using r f by (cases q) (auto dest: keepsD)
qed

lemma keeps_wfor [keeps_intros]: "(\<And>x. keeps P (f x)) \<Longrightarrow> keeps P (wfor xs f)"
  by (induction xs) (auto intro: keeps_intros)

lemma keeps_wmapM [keeps_intros]: "(\<And>x. keeps P (f x)) \<Longrightarrow> keeps P (wmapM f xs)"
  by (induction xs) (auto intro: keeps_intros)

lemma keeps_if [keeps_intros]: "keeps P m \<Longrightarrow> keeps P n \<Longrightarrow> keeps P (if b then m else n)"
  by simp

lemma keeps_case_option [keeps_intros]:
  "keeps P m \<Longrightarrow> (\<And>y. keeps P (f y)) \<Longrightarrow> keeps P (case x of None \<Rightarrow> m | Some y \<Rightarrow> f y)"
  by (cases x) simp_all

lemma keeps_wfirst [keeps_intros]: "(\<And>x. keeps P (f x)) \<Longrightarrow> keeps P (wfirst xs f e)"
  by (induction xs) (auto intro!: keeps_intros)

lemma keeps_case_prod [keeps_intros]:
  "(\<And>a b. keeps P (f a b)) \<Longrightarrow> keeps P (case p of (a, b) \<Rightarrow> f a b)"
  by (cases p) simp

lemma keeps_Let [keeps_intros]: "(\<And>y. keeps P (f y)) \<Longrightarrow> keeps P (let y = x in f y)"
  by (simp add: Let_def)

lemma wmapM_length:
  "wmapM f xs s = Some (Inr ys, s') \<Longrightarrow> length ys = length xs"
  by (induction xs arbitrary: ys s) (auto simp: wm_simps)

lemma wfor_map: "wfor (map g xs) f = wfor xs (\<lambda>x. f (g x))"
  by (induction xs) auto

subsection \<open>Total correctness\<close>

text \<open>
  \<open>wp m Q E s\<close>: run from \<open>s\<close>, \<open>m\<close> returns (it neither panics nor loops); a success satisfies \<open>Q\<close>, an
  error \<open>E\<close>.
\<close>

definition wp :: "('s, 'e, 'a) wm \<Rightarrow> ('a \<Rightarrow> 's \<Rightarrow> bool) \<Rightarrow> ('e \<Rightarrow> 's \<Rightarrow> bool) \<Rightarrow> 's \<Rightarrow> bool" where
  "wp m Q E s \<longleftrightarrow> (\<exists>r s'. m s = Some (r, s') \<and> (case r of Inl e \<Rightarrow> E e s' | Inr x \<Rightarrow> Q x s'))"

lemma wpI:
  assumes "m s \<noteq> None" "\<And>x s'. m s = Some (Inr x, s') \<Longrightarrow> Q x s'" "\<And>e s'. m s = Some (Inl e, s') \<Longrightarrow> E e s'"
  shows "wp m Q E s"
proof -
  obtain r s' where "m s = Some (r, s')" using assms(1) by (cases "m s") auto
  then show ?thesis unfolding wp_def using assms(2,3) by (cases r) auto
qed

lemma wp_wbind [simp]: "wp (wbind m f) Q E = wp m (\<lambda>x. wp (f x) Q E) E"
  by (rule ext) (auto simp: wp_def wbind_def split: option.splits sum.splits)

lemma wp_simps [simp]:
  "wp (wreturn x) Q E = Q x"
  "wp (wfail e) Q E = E e"
  "wp (wread g) Q E = (\<lambda>s. \<exists>x. g s = Some x \<and> Q x s)"
  "wp (wmodify h) Q2 E = (\<lambda>s. \<exists>s'. h s = Some s' \<and> Q2 () s')"
  "wp (wopt v) Q E = (\<lambda>s. \<exists>x. v = Some x \<and> Q x s)"
  "wp (wok_or e v) Q E = (case v of None \<Rightarrow> E e | Some x \<Rightarrow> Q x)"
  by (auto simp: fun_eq_iff wp_def wm_simps wread_def wmodify_def wopt_def wok_or_def wreturn_def wfail_def split: option.splits)

lemma wp_mono:
  assumes "wp m Q E s" "\<And>x s'. Q x s' \<Longrightarrow> Q' x s'" "\<And>e s'. E e s' \<Longrightarrow> E' e s'"
  shows "wp m Q' E' s"
  using assms unfolding wp_def by (force split: sum.splits)

lemma wp_InrD: "wp m Q E s \<Longrightarrow> m s = Some (Inr x, s') \<Longrightarrow> Q x s'"
  by (simp add: wp_def)

lemma wp_InlD: "wp m Q E s \<Longrightarrow> m s = Some (Inl e, s') \<Longrightarrow> E e s'"
  by (simp add: wp_def)

lemma wp_total: "wp m Q E s \<Longrightarrow> m s \<noteq> None"
  by (auto simp: wp_def)

lemma wp_always: "wp m (\<lambda>_. P) (\<lambda>_. P) s \<Longrightarrow> \<exists>r s'. m s = Some (r, s') \<and> P s'"
  unfolding wp_def by (metis sum.case_eq_if)

text \<open>A loop that keeps an invariant indexed by what is left of the list.\<close>

lemma wp_wfor:
  assumes "I xs s" "\<And>x ys s. I (x # ys) s \<Longrightarrow> wp (f x) (\<lambda>_. I ys) E s"
  shows "wp (wfor xs f) (\<lambda>_. I []) E s"
  using assms(1)
proof (induction xs arbitrary: s)
  case (Cons x xs)
  then show ?case using wp_mono [OF assms(2) [OF Cons.prems]] by simp
qed simp

lemma wp_wlift [simp]:
  "wp (wlift r) Q E = (\<lambda>s. \<exists>x. r = Some x \<and> (case x of Inl e \<Rightarrow> E e s | Inr y \<Rightarrow> Q y s))"
  by (auto simp: fun_eq_iff wlift_def split: sum.splits)

lemma wlift_run:
  "wbind (wlift (Some (Inl e))) f = wfail e" "wbind (wlift (Some (Inr x))) f = f x"
  by (rule ext, simp add: wlift_def wbind_def wopt_def wread_def wfail_def wreturn_def)+

end
