(* ===== verification/Consts.thy ===== *)
theory Consts
  imports Ufs_Prelude
begin

unbundle bit_operations_syntax

text \<open>
  The on-disk constants of \<^verbatim>\<open>crates/svr4-fs-core/src/consts.rs\<close>. Offsets, sizes and counts
  (\<^verbatim>\<open>usize\<close> / \<^verbatim>\<open>u64\<close>) are naturals, magic numbers and mode bits are 32-bit words.
  They are abbreviations, so that proofs see the numbers.
\<close>

abbreviation (input) SECTOR_SIZE :: nat where
  "SECTOR_SIZE \<equiv> 512"

abbreviation (input) BFS_MAGIC :: u32 where
  "BFS_MAGIC \<equiv> 464386766"

abbreviation (input) UFS_MAGIC :: u32 where
  "UFS_MAGIC \<equiv> 72020"

abbreviation (input) UFS_CG_MAGIC :: u32 where
  "UFS_CG_MAGIC \<equiv> 590421"

abbreviation (input) UFS_EFT_MAGIC :: u32 where
  "UFS_EFT_MAGIC \<equiv> 2425393296"

abbreviation (input) UFS_FS_OKAY :: u32 where
  "UFS_FS_OKAY \<equiv> 2082905400"

abbreviation (input) UFS_ROOT_INODE :: u32 where
  "UFS_ROOT_INODE \<equiv> 2"

abbreviation (input) UFS_SB_OFFSET :: nat where
  "UFS_SB_OFFSET \<equiv> 8192"

abbreviation (input) UFS_SB_SIZE :: nat where
  "UFS_SB_SIZE \<equiv> 8192"

abbreviation (input) UFS_DIRBLKSIZ :: nat where
  "UFS_DIRBLKSIZ \<equiv> 512"

abbreviation (input) UFS_DINODE_SIZE :: nat where
  "UFS_DINODE_SIZE \<equiv> 128"

abbreviation (input) UFS_NDADDR :: nat where
  "UFS_NDADDR \<equiv> 12"

abbreviation (input) UFS_NIADDR :: nat where
  "UFS_NIADDR \<equiv> 3"

abbreviation (input) UFS_CSUM_SIZE :: nat where
  "UFS_CSUM_SIZE \<equiv> 16"

abbreviation (input) NBBY :: nat where
  "NBBY \<equiv> 8"

abbreviation (input) MAXFRAG :: nat where
  "MAXFRAG \<equiv> 8"

abbreviation (input) MAXCPG :: nat where
  "MAXCPG \<equiv> 32"

abbreviation (input) MAXIPG :: nat where
  "MAXIPG \<equiv> 2048"

abbreviation (input) NRPOS :: nat where
  "NRPOS \<equiv> 8"

abbreviation (input) UFS_FS_SBLKNO_OFFSET :: nat where
  "UFS_FS_SBLKNO_OFFSET \<equiv> 8"

abbreviation (input) UFS_FS_CBLKNO_OFFSET :: nat where
  "UFS_FS_CBLKNO_OFFSET \<equiv> 12"

abbreviation (input) UFS_FS_IBLKNO_OFFSET :: nat where
  "UFS_FS_IBLKNO_OFFSET \<equiv> 16"

abbreviation (input) UFS_FS_DBLKNO_OFFSET :: nat where
  "UFS_FS_DBLKNO_OFFSET \<equiv> 20"

abbreviation (input) UFS_FS_CGOFFSET_OFFSET :: nat where
  "UFS_FS_CGOFFSET_OFFSET \<equiv> 24"

abbreviation (input) UFS_FS_CGMASK_OFFSET :: nat where
  "UFS_FS_CGMASK_OFFSET \<equiv> 28"

abbreviation (input) UFS_FS_TIME_OFFSET :: nat where
  "UFS_FS_TIME_OFFSET \<equiv> 32"

abbreviation (input) UFS_FS_SIZE_OFFSET :: nat where
  "UFS_FS_SIZE_OFFSET \<equiv> 36"

abbreviation (input) UFS_FS_DSIZE_OFFSET :: nat where
  "UFS_FS_DSIZE_OFFSET \<equiv> 40"

abbreviation (input) UFS_FS_NCG_OFFSET :: nat where
  "UFS_FS_NCG_OFFSET \<equiv> 44"

abbreviation (input) UFS_FS_BSIZE_OFFSET :: nat where
  "UFS_FS_BSIZE_OFFSET \<equiv> 48"

abbreviation (input) UFS_FS_FSIZE_OFFSET :: nat where
  "UFS_FS_FSIZE_OFFSET \<equiv> 52"

abbreviation (input) UFS_FS_FRAG_OFFSET :: nat where
  "UFS_FS_FRAG_OFFSET \<equiv> 56"

abbreviation (input) UFS_FS_MINFREE_OFFSET :: nat where
  "UFS_FS_MINFREE_OFFSET \<equiv> 60"

abbreviation (input) UFS_FS_ROTDLY_OFFSET :: nat where
  "UFS_FS_ROTDLY_OFFSET \<equiv> 64"

abbreviation (input) UFS_FS_RPS_OFFSET :: nat where
  "UFS_FS_RPS_OFFSET \<equiv> 68"

abbreviation (input) UFS_FS_BMASK_OFFSET :: nat where
  "UFS_FS_BMASK_OFFSET \<equiv> 72"

abbreviation (input) UFS_FS_FMASK_OFFSET :: nat where
  "UFS_FS_FMASK_OFFSET \<equiv> 76"

abbreviation (input) UFS_FS_BSHIFT_OFFSET :: nat where
  "UFS_FS_BSHIFT_OFFSET \<equiv> 80"

abbreviation (input) UFS_FS_FSHIFT_OFFSET :: nat where
  "UFS_FS_FSHIFT_OFFSET \<equiv> 84"

abbreviation (input) UFS_FS_MAXCONTIG_OFFSET :: nat where
  "UFS_FS_MAXCONTIG_OFFSET \<equiv> 88"

abbreviation (input) UFS_FS_MAXBPG_OFFSET :: nat where
  "UFS_FS_MAXBPG_OFFSET \<equiv> 92"

abbreviation (input) UFS_FS_FRAGSHIFT_OFFSET :: nat where
  "UFS_FS_FRAGSHIFT_OFFSET \<equiv> 96"

abbreviation (input) UFS_FS_FSBTODB_OFFSET :: nat where
  "UFS_FS_FSBTODB_OFFSET \<equiv> 100"

abbreviation (input) UFS_FS_SBSIZE_OFFSET :: nat where
  "UFS_FS_SBSIZE_OFFSET \<equiv> 104"

abbreviation (input) UFS_FS_CSMASK_OFFSET :: nat where
  "UFS_FS_CSMASK_OFFSET \<equiv> 108"

abbreviation (input) UFS_FS_CSSHIFT_OFFSET :: nat where
  "UFS_FS_CSSHIFT_OFFSET \<equiv> 112"

abbreviation (input) UFS_FS_NINDIR_OFFSET :: nat where
  "UFS_FS_NINDIR_OFFSET \<equiv> 116"

abbreviation (input) UFS_FS_INOPB_OFFSET :: nat where
  "UFS_FS_INOPB_OFFSET \<equiv> 120"

abbreviation (input) UFS_FS_NSPF_OFFSET :: nat where
  "UFS_FS_NSPF_OFFSET \<equiv> 124"

abbreviation (input) UFS_FS_OPTIM_OFFSET :: nat where
  "UFS_FS_OPTIM_OFFSET \<equiv> 128"

abbreviation (input) UFS_FS_STATE_OFFSET :: nat where
  "UFS_FS_STATE_OFFSET \<equiv> 132"

abbreviation (input) UFS_FS_CSADDR_OFFSET :: nat where
  "UFS_FS_CSADDR_OFFSET \<equiv> 152"

abbreviation (input) UFS_FS_CSSIZE_OFFSET :: nat where
  "UFS_FS_CSSIZE_OFFSET \<equiv> 156"

abbreviation (input) UFS_FS_CGSIZE_OFFSET :: nat where
  "UFS_FS_CGSIZE_OFFSET \<equiv> 160"

abbreviation (input) UFS_FS_NTRAK_OFFSET :: nat where
  "UFS_FS_NTRAK_OFFSET \<equiv> 164"

abbreviation (input) UFS_FS_NSECT_OFFSET :: nat where
  "UFS_FS_NSECT_OFFSET \<equiv> 168"

abbreviation (input) UFS_FS_SPC_OFFSET :: nat where
  "UFS_FS_SPC_OFFSET \<equiv> 172"

abbreviation (input) UFS_FS_NCYL_OFFSET :: nat where
  "UFS_FS_NCYL_OFFSET \<equiv> 176"

abbreviation (input) UFS_FS_CPG_OFFSET :: nat where
  "UFS_FS_CPG_OFFSET \<equiv> 180"

abbreviation (input) UFS_FS_IPG_OFFSET :: nat where
  "UFS_FS_IPG_OFFSET \<equiv> 184"

abbreviation (input) UFS_FS_FPG_OFFSET :: nat where
  "UFS_FS_FPG_OFFSET \<equiv> 188"

abbreviation (input) UFS_FS_CSTOTAL_NDIR_OFFSET :: nat where
  "UFS_FS_CSTOTAL_NDIR_OFFSET \<equiv> 192"

abbreviation (input) UFS_FS_CSTOTAL_NBFREE_OFFSET :: nat where
  "UFS_FS_CSTOTAL_NBFREE_OFFSET \<equiv> 196"

abbreviation (input) UFS_FS_CSTOTAL_NIFREE_OFFSET :: nat where
  "UFS_FS_CSTOTAL_NIFREE_OFFSET \<equiv> 200"

abbreviation (input) UFS_FS_CSTOTAL_NFFREE_OFFSET :: nat where
  "UFS_FS_CSTOTAL_NFFREE_OFFSET \<equiv> 204"

abbreviation (input) UFS_FS_FMOD_OFFSET :: nat where
  "UFS_FS_FMOD_OFFSET \<equiv> 208"

abbreviation (input) UFS_FS_CLEAN_OFFSET :: nat where
  "UFS_FS_CLEAN_OFFSET \<equiv> 209"

abbreviation (input) UFS_FS_RONLY_OFFSET :: nat where
  "UFS_FS_RONLY_OFFSET \<equiv> 210"

abbreviation (input) UFS_FS_MAGIC_OFFSET :: nat where
  "UFS_FS_MAGIC_OFFSET \<equiv> 1372"

abbreviation (input) UFS_CG_TIME_OFFSET :: nat where
  "UFS_CG_TIME_OFFSET \<equiv> 8"

abbreviation (input) UFS_CG_CGX_OFFSET :: nat where
  "UFS_CG_CGX_OFFSET \<equiv> 12"

abbreviation (input) UFS_CG_NCYL_OFFSET :: nat where
  "UFS_CG_NCYL_OFFSET \<equiv> 16"

abbreviation (input) UFS_CG_NIBLK_OFFSET :: nat where
  "UFS_CG_NIBLK_OFFSET \<equiv> 18"

abbreviation (input) UFS_CG_NDBLK_OFFSET :: nat where
  "UFS_CG_NDBLK_OFFSET \<equiv> 20"

abbreviation (input) UFS_CG_CS_NDIR_OFFSET :: nat where
  "UFS_CG_CS_NDIR_OFFSET \<equiv> 24"

abbreviation (input) UFS_CG_CS_NBFREE_OFFSET :: nat where
  "UFS_CG_CS_NBFREE_OFFSET \<equiv> 28"

abbreviation (input) UFS_CG_CS_NIFREE_OFFSET :: nat where
  "UFS_CG_CS_NIFREE_OFFSET \<equiv> 32"

abbreviation (input) UFS_CG_CS_NFFREE_OFFSET :: nat where
  "UFS_CG_CS_NFFREE_OFFSET \<equiv> 36"

abbreviation (input) UFS_CG_ROTOR_OFFSET :: nat where
  "UFS_CG_ROTOR_OFFSET \<equiv> 40"

abbreviation (input) UFS_CG_FROTOR_OFFSET :: nat where
  "UFS_CG_FROTOR_OFFSET \<equiv> 44"

abbreviation (input) UFS_CG_IROTOR_OFFSET :: nat where
  "UFS_CG_IROTOR_OFFSET \<equiv> 48"

abbreviation (input) UFS_CG_FRSUM_OFFSET :: nat where
  "UFS_CG_FRSUM_OFFSET \<equiv> 52"

abbreviation (input) UFS_CG_BTOT_OFFSET :: nat where
  "UFS_CG_BTOT_OFFSET \<equiv> UFS_CG_FRSUM_OFFSET + MAXFRAG * 4"

abbreviation (input) UFS_CG_B_OFFSET :: nat where
  "UFS_CG_B_OFFSET \<equiv> UFS_CG_BTOT_OFFSET + MAXCPG * 4"

abbreviation (input) UFS_CG_MAGIC_OFFSET :: nat where
  "UFS_CG_MAGIC_OFFSET \<equiv> 980"

abbreviation (input) UFS_CG_IUSED_OFFSET :: nat where
  "UFS_CG_IUSED_OFFSET \<equiv> UFS_CG_MAGIC_OFFSET - MAXIPG div NBBY"

abbreviation (input) UFS_CG_FREE_OFFSET :: nat where
  "UFS_CG_FREE_OFFSET \<equiv> UFS_CG_MAGIC_OFFSET + 4"

abbreviation (input) UFS_DI_SMODE_OFFSET :: nat where
  "UFS_DI_SMODE_OFFSET \<equiv> 0"

abbreviation (input) UFS_DI_NLINK_OFFSET :: nat where
  "UFS_DI_NLINK_OFFSET \<equiv> 2"

abbreviation (input) UFS_DI_SUID_OFFSET :: nat where
  "UFS_DI_SUID_OFFSET \<equiv> 4"

abbreviation (input) UFS_DI_SGID_OFFSET :: nat where
  "UFS_DI_SGID_OFFSET \<equiv> 6"

abbreviation (input) UFS_DI_SIZE_OFFSET :: nat where
  "UFS_DI_SIZE_OFFSET \<equiv> 8"

abbreviation (input) UFS_DI_ATIME_OFFSET :: nat where
  "UFS_DI_ATIME_OFFSET \<equiv> 16"

abbreviation (input) UFS_DI_MTIME_OFFSET :: nat where
  "UFS_DI_MTIME_OFFSET \<equiv> 24"

abbreviation (input) UFS_DI_CTIME_OFFSET :: nat where
  "UFS_DI_CTIME_OFFSET \<equiv> 32"

abbreviation (input) UFS_DI_DB_OFFSET :: nat where
  "UFS_DI_DB_OFFSET \<equiv> 40"

abbreviation (input) UFS_DI_IB_OFFSET :: nat where
  "UFS_DI_IB_OFFSET \<equiv> 88"

abbreviation (input) UFS_DI_FLAGS_OFFSET :: nat where
  "UFS_DI_FLAGS_OFFSET \<equiv> 100"

abbreviation (input) UFS_DI_BLOCKS_OFFSET :: nat where
  "UFS_DI_BLOCKS_OFFSET \<equiv> 104"

abbreviation (input) UFS_DI_GEN_OFFSET :: nat where
  "UFS_DI_GEN_OFFSET \<equiv> 108"

abbreviation (input) UFS_DI_MODE_OFFSET :: nat where
  "UFS_DI_MODE_OFFSET \<equiv> 112"

abbreviation (input) UFS_DI_UID_OFFSET :: nat where
  "UFS_DI_UID_OFFSET \<equiv> 116"

abbreviation (input) UFS_DI_GID_OFFSET :: nat where
  "UFS_DI_GID_OFFSET \<equiv> 120"

abbreviation (input) UFS_DI_EFTFLAG_OFFSET :: nat where
  "UFS_DI_EFTFLAG_OFFSET \<equiv> 124"

abbreviation (input) UFS_DIRENT_INO_OFFSET :: nat where
  "UFS_DIRENT_INO_OFFSET \<equiv> 0"

abbreviation (input) UFS_DIRENT_RECLEN_OFFSET :: nat where
  "UFS_DIRENT_RECLEN_OFFSET \<equiv> 4"

abbreviation (input) UFS_DIRENT_NAMLEN_OFFSET :: nat where
  "UFS_DIRENT_NAMLEN_OFFSET \<equiv> 6"

abbreviation (input) UFS_DIRENT_NAME_OFFSET :: nat where
  "UFS_DIRENT_NAME_OFFSET \<equiv> 8"

abbreviation (input) UFS_DIRENT_HEADER_SIZE :: nat where
  "UFS_DIRENT_HEADER_SIZE \<equiv> 8"

abbreviation (input) UFS_IFMT :: u32 where
  "UFS_IFMT \<equiv> 61440"

abbreviation (input) UFS_IFCHR :: u32 where
  "UFS_IFCHR \<equiv> 8192"

abbreviation (input) UFS_IFDIR :: u32 where
  "UFS_IFDIR \<equiv> 16384"

abbreviation (input) UFS_IFBLK :: u32 where
  "UFS_IFBLK \<equiv> 24576"

abbreviation (input) UFS_IFREG :: u32 where
  "UFS_IFREG \<equiv> 32768"

abbreviation (input) UFS_IFLNK :: u32 where
  "UFS_IFLNK \<equiv> 40960"

section \<open>Directory record sizes\<close>

definition ufs_dirsiz :: "nat \<Rightarrow> nat" where
  "ufs_dirsiz name_len = UFS_DIRENT_HEADER_SIZE + push_bit 2 (drop_bit 2 (name_len + 1 + 3))"

lemma ufs_dirsiz_eq: "ufs_dirsiz n = 8 + (n + 4) div 4 * 4"
  by (simp add: ufs_dirsiz_def push_bit_eq_mult drop_bit_eq_div)

lemma ufs_dirsiz_bounds: "n + 9 \<le> ufs_dirsiz n" "ufs_dirsiz n \<le> n + 12" "4 dvd ufs_dirsiz n"
  by (auto simp: ufs_dirsiz_eq)

lemma ufs_dirsiz_mono: "m \<le> n \<Longrightarrow> ufs_dirsiz m \<le> ufs_dirsiz n"
  by (simp add: ufs_dirsiz_eq div_le_mono)

end
