(* ===== verification/Codec.thy ===== *)
theory Codec
  imports Consts
begin

text \<open>
  The little-endian field accessors of \<^verbatim>\<open>crates/svr4-fs-core/src/codec.rs\<close>. Readers and writers
  panic (\<open>None\<close>) on an offset out of range. The lemmas: reading what was written, frame conditions for
  disjoint fields, and totality inside the buffer.
\<close>

section \<open>Little-endian byte strings\<close>

primrec le_val :: "bytes \<Rightarrow> nat" where
  "le_val [] = 0"
| "le_val (b # bs) = unat b + 256 * le_val bs"

primrec le_bytes :: "nat \<Rightarrow> nat \<Rightarrow> bytes" where
  "le_bytes 0 v = []"
| "le_bytes (Suc n) v = of_nat (v mod 256) # le_bytes n (v div 256)"

lemma le_bytes_length [simp]: "length (le_bytes n v) = n"
  by (induction n arbitrary: v) auto

lemma le_val_le_bytes: "le_val (le_bytes n v) = v mod 256 ^ n"
proof (induction n arbitrary: v)
  case (Suc n)
  have "unat (of_nat (v mod 256) :: u8) = v mod 256"
    by (simp add: unat_of_nat)
  then have "le_val (le_bytes (Suc n) v) = v mod 256 + 256 * (v div 256 mod 256 ^ n)"
    by (simp add: Suc.IH)
  also have "\<dots> = v mod 256 ^ Suc n"
    by (simp add: mod_mult2_eq mult.commute)
  finally show ?case .
qed simp

lemma le_val_bound: "le_val bs < 256 ^ length bs"
proof (induction bs)
  case (Cons b bs)
  have "unat b < 256" by (rule unat_u8_bound)
  moreover have "256 * (le_val bs + 1) \<le> 256 * 256 ^ length bs" using Cons by simp
  ultimately show ?case by simp
qed simp

lemma le_bytes_le_val: "le_bytes (length bs) (le_val bs) = bs"
proof (induction bs)
  case (Cons b bs)
  have "unat b < 256" by (rule unat_u8_bound)
  then show ?case using Cons by simp
qed simp

section \<open>Accessors\<close>

definition u16 :: "bytes \<Rightarrow> nat \<Rightarrow> u16 option" where
  "u16 buf offset = do { raw \<leftarrow> mapM (get_at buf) [offset, offset + 1]; Some (of_nat (le_val raw)) }"

definition u32 :: "bytes \<Rightarrow> nat \<Rightarrow> u32 option" where
  "u32 buf offset =
     do { raw \<leftarrow> mapM (get_at buf) [offset, offset + 1, offset + 2, offset + 3];
          Some (of_nat (le_val raw)) }"

text \<open>A signed read returns the two's-complement value.\<close>

definition i32 :: "bytes \<Rightarrow> nat \<Rightarrow> int option" where
  "i32 buf offset =
     do { raw \<leftarrow> mapM (get_at buf) [offset, offset + 1, offset + 2, offset + 3];
          Some (sint (of_nat (le_val raw) :: u32)) }"

definition u64 :: "bytes \<Rightarrow> nat \<Rightarrow> u64 option" where
  "u64 buf offset = do { raw \<leftarrow> subslice buf offset (offset + 8); Some (of_nat (le_val raw)) }"

definition put_u16 :: "bytes \<Rightarrow> nat \<Rightarrow> u16 \<Rightarrow> bytes option" where
  "put_u16 buf offset value = copy_at buf offset (le_bytes 2 (unat value))"

definition put_u32 :: "bytes \<Rightarrow> nat \<Rightarrow> u32 \<Rightarrow> bytes option" where
  "put_u32 buf offset value = copy_at buf offset (le_bytes 4 (unat value))"

text \<open>The 32-bit two's complement of a signed value.\<close>

definition put_i32 :: "bytes \<Rightarrow> nat \<Rightarrow> int \<Rightarrow> bytes option" where
  "put_i32 buf offset value = copy_at buf offset (le_bytes 4 (unat (of_int value :: u32)))"

definition put_u64 :: "bytes \<Rightarrow> nat \<Rightarrow> u64 \<Rightarrow> bytes option" where
  "put_u64 buf offset value = copy_at buf offset (le_bytes 8 (unat value))"

section \<open>The readers as slices\<close>

lemma mapM_get_at_upt:
  "mapM (get_at buf) [i..<j] = (if j \<le> length buf \<or> j \<le> i then Some (map ((!) buf) [i..<j]) else None)"
proof (induction "j - i" arbitrary: i)
  case (Suc k)
  then have "[i..<j] = i # [Suc i..<j]" by (simp add: upt_conv_Cons)
  then show ?case using Suc by (auto simp: get_at_def)
qed simp

lemma subslice_map_nth:
  "i \<le> j \<Longrightarrow> subslice buf i j = (if j \<le> length buf then Some (map ((!) buf) [i..<j]) else None)"
  by (auto simp: subslice_def intro!: nth_equalityI)

lemma mapM_get_at_subslice:
  "i < j \<Longrightarrow> mapM (get_at buf) [i..<j] = subslice buf i j"
  by (auto simp: mapM_get_at_upt subslice_map_nth)

lemma u16_subslice:
  "u16 buf off = map_option (\<lambda>raw. of_nat (le_val raw)) (subslice buf off (off + 2))"
proof -
  have "[off, off + 1] = [off..<off + 2]" by (simp add: upt_rec)
  then show ?thesis
    using mapM_get_at_subslice [of off "off + 2" buf]
    by (cases "subslice buf off (off + 2)") (simp_all add: u16_def del: mapM.simps)
qed

lemma u32_subslice:
  "u32 buf off = map_option (\<lambda>raw. of_nat (le_val raw)) (subslice buf off (off + 4))"
proof -
  have "[off, off + 1, off + 2, off + 3] = [off..<off + 4]" by (simp add: upt_rec)
  then show ?thesis
    using mapM_get_at_subslice [of off "off + 4" buf]
    by (cases "subslice buf off (off + 4)") (simp_all add: u32_def del: mapM.simps)
qed

lemma i32_u32: "i32 buf off = map_option sint (u32 buf off)"
  by (cases "mapM (get_at buf) [off, off + 1, off + 2, off + 3]")
    (simp_all add: i32_def u32_def del: mapM.simps)

lemma u64_subslice:
  "u64 buf off = map_option (\<lambda>raw. of_nat (le_val raw)) (subslice buf off (off + 8))"
  by (cases "subslice buf off (off + 8)") (simp_all add: u64_def)

lemma u16_total: "off + 2 \<le> length buf \<Longrightarrow> \<exists>v. u16 buf off = Some v"
  by (simp add: u16_subslice subslice_def)

lemma u32_total: "off + 4 \<le> length buf \<Longrightarrow> \<exists>v. u32 buf off = Some v"
  by (simp add: u32_subslice subslice_def)

lemma u64_total: "off + 8 \<le> length buf \<Longrightarrow> \<exists>v. u64 buf off = Some v"
  by (simp add: u64_subslice subslice_def)

lemma u32_bound: "u32 buf off = Some v \<Longrightarrow> off + 4 \<le> length buf"
  by (auto simp: u32_subslice subslice_def split: if_splits)

section \<open>The interface of a field codec\<close>

text \<open>
  A fixed-width field: a reader and a writer at an offset. The laws are what every user of the codec
  relies on; the client lemmas (reading back, independence of disjoint fields, totality) are proved
  once for all widths.
\<close>

locale field_codec =
  fixes rd :: "bytes \<Rightarrow> nat \<Rightarrow> 'v option"
    and wr :: "bytes \<Rightarrow> nat \<Rightarrow> 'v \<Rightarrow> bytes option"
    and width :: nat
    and enc :: "'v \<Rightarrow> bytes"
    and dec :: "bytes \<Rightarrow> 'v"
    and valid :: "'v \<Rightarrow> bool"
  assumes rd_slice: "rd buf off = map_option dec (subslice buf off (off + width))"
    and wr_copy: "wr buf off v = copy_at buf off (enc v)"
    and enc_length: "length (enc v) = width"
    and dec_enc: "valid v \<Longrightarrow> dec (enc v) = v"
    and width_pos: "0 < width"
begin

lemma read_written:
  "wr buf off v = Some buf' \<Longrightarrow> valid v \<Longrightarrow> rd buf' off = Some v"
  using subslice_copy_same [of buf off "enc v" buf'] by (simp add: rd_slice wr_copy enc_length dec_enc)

lemma read_disjoint:
  "wr buf off v = Some buf' \<Longrightarrow> off' + width \<le> off \<or> off + width \<le> off' \<Longrightarrow> rd buf' off' = rd buf off'"
  using subslice_copy_disjoint [of buf off "enc v" buf'] by (simp add: rd_slice wr_copy enc_length)

lemma write_length: "wr buf off v = Some buf' \<Longrightarrow> length buf' = length buf"
  by (simp add: wr_copy copy_at_length)

lemma write_total: "off + width \<le> length buf \<Longrightarrow> \<exists>buf'. wr buf off v = Some buf'"
  by (simp add: wr_copy copy_at_total enc_length)

lemma write_panics: "length buf < off + width \<Longrightarrow> wr buf off v = None \<and> rd buf off = None"
  using width_pos by (simp add: wr_copy copy_at_def enc_length rd_slice subslice_def)

lemma write_bound: "wr buf off v = Some buf' \<Longrightarrow> off + width \<le> length buf"
  using copy_at_bound [of buf off "enc v" buf'] by (simp add: wr_copy enc_length)

lemma write_nth:
  "wr buf off v = Some buf' \<Longrightarrow> k < off \<or> off + width \<le> k \<Longrightarrow> buf' ! k = buf ! k"
  by (auto simp: wr_copy copy_at_nth enc_length)

lemma write_subslice:
  "wr buf off v = Some buf' \<Longrightarrow> b \<le> off \<or> off + width \<le> a \<Longrightarrow> subslice buf' a b = subslice buf a b"
  using subslice_copy_disjoint [of buf off "enc v" buf' b a] by (simp add: wr_copy enc_length)

end

lemma dec_enc_u16: "(of_nat (le_val (le_bytes 2 (unat v))) :: u16) = v"
  by (simp add: le_val_le_bytes unat_u16_bound unat_u32_bound unat_u64_bound)

lemma dec_enc_u32: "(of_nat (le_val (le_bytes 4 (unat v))) :: u32) = v"
  by (simp add: le_val_le_bytes unat_u16_bound unat_u32_bound unat_u64_bound)

lemma dec_enc_u64: "(of_nat (le_val (le_bytes 8 (unat v))) :: u64) = v"
  by (simp add: le_val_le_bytes unat_u16_bound unat_u32_bound unat_u64_bound)

lemma dec_enc_i32:
  "- (2 ^ 31) \<le> v \<Longrightarrow> v < 2 ^ 31 \<Longrightarrow> sint (of_nat (le_val (le_bytes 4 (unat (of_int v :: u32)))) :: u32) = v"
  by (simp only: dec_enc_u32) (simp add: signed_of_int signed_take_bit_int_eq_self)

interpretation c16: field_codec u16 put_u16 2 "\<lambda>v. le_bytes 2 (unat v)" "\<lambda>raw. of_nat (le_val raw)" "\<lambda>_. True"
  by unfold_locales (simp_all add: u16_subslice put_u16_def dec_enc_u16)

interpretation c32: field_codec u32 put_u32 4 "\<lambda>v. le_bytes 4 (unat v)" "\<lambda>raw. of_nat (le_val raw)" "\<lambda>_. True"
  by unfold_locales (simp_all add: u32_subslice put_u32_def dec_enc_u32)

interpretation c64: field_codec u64 put_u64 8 "\<lambda>v. le_bytes 8 (unat v)" "\<lambda>raw. of_nat (le_val raw)" "\<lambda>_. True"
  by unfold_locales (simp_all add: u64_subslice put_u64_def dec_enc_u64)

interpretation ci32: field_codec i32 put_i32 4 "\<lambda>v. le_bytes 4 (unat (of_int v :: u32))"
    "\<lambda>raw. sint (of_nat (le_val raw) :: u32)" "\<lambda>v. - (2 ^ 31) \<le> v \<and> v < 2 ^ 31"
  by unfold_locales
    (simp_all add: i32_u32 u32_subslice put_i32_def dec_enc_i32 option.map_comp o_def)

text \<open>A read of any width after a write of any width elsewhere.\<close>

lemma codec_disjoint:
  "put_u16 a off v = Some b \<Longrightarrow> off' + 2 \<le> off \<or> off + 2 \<le> off' \<Longrightarrow> u16 b off' = u16 a off'"
  "put_u16 a off v = Some b \<Longrightarrow> off' + 4 \<le> off \<or> off + 2 \<le> off' \<Longrightarrow> u32 b off' = u32 a off'"
  "put_u16 a off v = Some b \<Longrightarrow> off' + 8 \<le> off \<or> off + 2 \<le> off' \<Longrightarrow> u64 b off' = u64 a off'"
  "put_u32 a off w = Some b \<Longrightarrow> off' + 2 \<le> off \<or> off + 4 \<le> off' \<Longrightarrow> u16 b off' = u16 a off'"
  "put_u32 a off w = Some b \<Longrightarrow> off' + 4 \<le> off \<or> off + 4 \<le> off' \<Longrightarrow> u32 b off' = u32 a off'"
  "put_u32 a off w = Some b \<Longrightarrow> off' + 8 \<le> off \<or> off + 4 \<le> off' \<Longrightarrow> u64 b off' = u64 a off'"
  "put_u64 a off x = Some b \<Longrightarrow> off' + 2 \<le> off \<or> off + 8 \<le> off' \<Longrightarrow> u16 b off' = u16 a off'"
  "put_u64 a off x = Some b \<Longrightarrow> off' + 4 \<le> off \<or> off + 8 \<le> off' \<Longrightarrow> u32 b off' = u32 a off'"
  "put_u64 a off x = Some b \<Longrightarrow> off' + 8 \<le> off \<or> off + 8 \<le> off' \<Longrightarrow> u64 b off' = u64 a off'"
  by (simp_all add: u16_subslice u32_subslice u64_subslice c16.write_subslice c32.write_subslice c64.write_subslice)

lemmas codec_same = c16.read_written [OF _ TrueI] c32.read_written [OF _ TrueI] c64.read_written [OF _ TrueI]

lemmas codec_nth = c16.write_nth c32.write_nth c64.write_nth

lemmas codec_total = u16_total u32_total u64_total
  c16.write_total c32.write_total c64.write_total ci32.write_total

lemmas codec_length = c16.write_length c32.write_length c64.write_length ci32.write_length

end
