(* ===== verification/Superblock.thy ===== *)
theory Superblock
  imports Codec
begin

text \<open>
  \<^verbatim>\<open>crates/svr4-ufs/src/superblock.rs\<close>: the parsed superblock, its detection, the address
  arithmetic (the \<^verbatim>\<open>ufs_*\<close> macros) and the per-block allocation sizes of a file. All fields are
  \<^verbatim>\<open>i64\<close> in the source; the arithmetic below writes the 64-bit wrap-around out with \<open>i64\<close>.

  The lemmas: what detection guarantees, that under the layout condition \<open>geometry_ok\<close> no address
  computation wraps, that distinct inodes occupy disjoint 128-byte records inside the inode area, and
  that the allocation sizes cover a file with the least number of fragments.
\<close>

record superblock =
  bsize :: int
  fsize :: int
  frag :: int
  dsize :: int
  ipg :: int
  fpg :: int
  inopb :: int
  fsbtodb :: int
  cgoffset :: int
  cgmask :: int
  cblkno :: int
  iblkno :: int
  dblkno :: int
  ncg :: int
  minfree :: int
  fragshift :: int
  nindir :: int
  nspf :: int
  csaddr :: int
  cssize :: int
  nsect :: int
  spc :: int
  ncyl :: int
  cpg :: int

text \<open>A detected filesystem: byte offset of the slice, byte offset of its superblock, the parsed fields.\<close>

record ufs =
  start_offset :: nat
  super_offset :: nat
  sb :: superblock

section \<open>Parsing\<close>

text \<open>
  \<open>parse_superblock\<close> returns \<open>Some None\<close> for an implausible superblock, \<open>None\<close> only for a
  panic. The additions wrap like \<^verbatim>\<open>usize\<close> and \<^verbatim>\<open>u64\<close>, since the offset may come from the command
  line.
\<close>

definition parse_superblock :: "image \<Rightarrow> nat \<Rightarrow> superblock option option" where
  "parse_superblock img so =
     (if length img < uadd so UFS_SB_SIZE then Some None else
      do { magic \<leftarrow> u32 img (uadd so UFS_FS_MAGIC_OFFSET);
      if magic \<noteq> UFS_MAGIC then Some None else
      let field = (\<lambda>off. map_option uint (u32 img (uadd so off))) in do {
      bsize \<leftarrow> field UFS_FS_BSIZE_OFFSET;
      fsize \<leftarrow> field UFS_FS_FSIZE_OFFSET;
      inopb \<leftarrow> field UFS_FS_INOPB_OFFSET;
      ipg \<leftarrow> field UFS_FS_IPG_OFFSET;
      fpg \<leftarrow> field UFS_FS_FPG_OFFSET;
      if bsize < 4096 \<or> bsize > int UFS_SB_SIZE then Some None
      else if fsize < int SECTOR_SIZE \<or> fsize > bsize then Some None
      else if inopb = 0 \<or> ipg = 0 \<or> fpg = 0 then Some None
      else do {
      frag \<leftarrow> field UFS_FS_FRAG_OFFSET;
      dsize \<leftarrow> field UFS_FS_DSIZE_OFFSET;
      fsbtodb \<leftarrow> field UFS_FS_FSBTODB_OFFSET;
      cgoffset \<leftarrow> field UFS_FS_CGOFFSET_OFFSET;
      cgmask \<leftarrow> field UFS_FS_CGMASK_OFFSET;
      cblkno \<leftarrow> field UFS_FS_CBLKNO_OFFSET;
      iblkno \<leftarrow> field UFS_FS_IBLKNO_OFFSET;
      dblkno \<leftarrow> field UFS_FS_DBLKNO_OFFSET;
      ncg \<leftarrow> field UFS_FS_NCG_OFFSET;
      minfree \<leftarrow> field UFS_FS_MINFREE_OFFSET;
      fragshift \<leftarrow> i32 img (uadd so UFS_FS_FRAGSHIFT_OFFSET);
      nindir \<leftarrow> field UFS_FS_NINDIR_OFFSET;
      nspf \<leftarrow> field UFS_FS_NSPF_OFFSET;
      csaddr \<leftarrow> field UFS_FS_CSADDR_OFFSET;
      cssize \<leftarrow> field UFS_FS_CSSIZE_OFFSET;
      nsect \<leftarrow> field UFS_FS_NSECT_OFFSET;
      spc \<leftarrow> field UFS_FS_SPC_OFFSET;
      ncyl \<leftarrow> field UFS_FS_NCYL_OFFSET;
      cpg \<leftarrow> field UFS_FS_CPG_OFFSET;
      Some (Some \<lparr> bsize = bsize, fsize = fsize, frag = frag, dsize = dsize, ipg = ipg, fpg = fpg,
        inopb = inopb, fsbtodb = fsbtodb, cgoffset = cgoffset, cgmask = cgmask, cblkno = cblkno,
        iblkno = iblkno, dblkno = dblkno, ncg = ncg, minfree = minfree, fragshift = fragshift,
        nindir = nindir, nspf = nspf, csaddr = csaddr, cssize = cssize, nsect = nsect, spc = spc,
        ncyl = ncyl, cpg = cpg \<rparr>) } } })"

definition detect_ufs_at_start :: "image \<Rightarrow> nat \<Rightarrow> ufs option option" where
  "detect_ufs_at_start img fs_start =
     (let so = uadd fs_start UFS_SB_OFFSET in
      do { parsed \<leftarrow> parse_superblock img so;
           Some (map_option (\<lambda>s. \<lparr> start_offset = fs_start, super_offset = so, sb = s \<rparr>) parsed) })"

section \<open>Address arithmetic\<close>

definition fsbtobytes :: "superblock \<Rightarrow> int \<Rightarrow> int" where
  "fsbtobytes s fs_block = i64 (shl_i64 fs_block (fsbtodb s) * int SECTOR_SIZE)"

definition itoo :: "superblock \<Rightarrow> int \<Rightarrow> int" where
  "itoo s inode_number = inode_number smod inopb s"

definition itog :: "superblock \<Rightarrow> int \<Rightarrow> int" where
  "itog s inode_number = inode_number sdiv ipg s"

definition blkstofrags :: "superblock \<Rightarrow> int \<Rightarrow> int" where
  "blkstofrags s blocks = shl_i64 blocks (fragshift s)"

definition cgbase :: "superblock \<Rightarrow> int \<Rightarrow> int" where
  "cgbase s cg = i64 (fpg s * cg)"

definition cgstart :: "superblock \<Rightarrow> int \<Rightarrow> int" where
  "cgstart s cg = i64 (cgbase s cg + i64 (cgoffset s * (cg AND NOT (cgmask s))))"

definition cgimin :: "superblock \<Rightarrow> int \<Rightarrow> int" where
  "cgimin s cg = i64 (cgstart s cg + iblkno s)"

definition cgtod :: "superblock \<Rightarrow> int \<Rightarrow> int" where
  "cgtod s cg = i64 (cgstart s cg + cblkno s)"

definition cgdmin :: "superblock \<Rightarrow> int \<Rightarrow> int" where
  "cgdmin s cg = i64 (cgstart s cg + dblkno s)"

definition itod :: "superblock \<Rightarrow> int \<Rightarrow> int" where
  "itod s inode_number =
     (let group = itog s inode_number
      in i64 (cgimin s group + blkstofrags s ((inode_number smod ipg s) sdiv inopb s)))"

definition inode_byte_offset :: "superblock \<Rightarrow> nat \<Rightarrow> int \<Rightarrow> int" where
  "inode_byte_offset s fs_start inode_number =
     (let inode_block = itod s inode_number
      in i64 (i64 (i64 (int fs_start) + fsbtobytes s inode_block)
              + i64 (itoo s inode_number * int UFS_DINODE_SIZE)))"

definition data_block_offset :: "superblock \<Rightarrow> nat \<Rightarrow> int \<Rightarrow> int" where
  "data_block_offset s fs_start fs_block = i64 (i64 (int fs_start) + fsbtobytes s fs_block)"

definition fragroundup :: "superblock \<Rightarrow> int \<Rightarrow> int" where
  "fragroundup s sz =
     (if sz \<le> 0 then 0 else i64 (i64 (i64 (sz + fsize s) - 1) sdiv fsize s * fsize s))"

text \<open>
  The loop of \<open>allocation_byte_sizes\<close>. The test \<open>0 < block_size\<close> only makes the recursion
  well-founded; detection guarantees a block sz of at least 4096.
\<close>

function allocation_loop :: "superblock \<Rightarrow> int \<Rightarrow> int \<Rightarrow> int list" where
  "allocation_loop s needed_blocks remaining =
     (if 0 < remaining \<and> 0 < bsize s then
        (let logical_bytes = min (bsize s) remaining in
         (if logical_bytes = bsize s \<or> needed_blocks > int UFS_NDADDR then bsize s
          else fragroundup s logical_bytes)
         # allocation_loop s needed_blocks (remaining - bsize s))
      else [])"
  by pat_completeness auto
termination
  by (relation "measure (\<lambda>(s, n, r). nat r)") auto

declare allocation_loop.simps [simp del]

definition allocation_byte_sizes :: "superblock \<Rightarrow> int \<Rightarrow> int list" where
  "allocation_byte_sizes s sz =
     (if sz \<le> 0 then []
      else let needed_blocks = i64 (i64 (sz + bsize s) - 1) sdiv bsize s
           in allocation_loop s needed_blocks sz)"

section \<open>What detection guarantees\<close>

lemma uint_u32_bounds: "0 \<le> uint (w::u32)" "uint (w::u32) < 4294967296" "0 < uint w \<longleftrightarrow> uint w \<noteq> 0"
  using unsigned_less [of w] by (simp_all add: order.strict_iff_order)

lemma parse_superblock_total:
  assumes "so + UFS_SB_SIZE < 2 ^ 64"
  shows "\<exists>r. parse_superblock img so = Some r"
proof -
  have a: "uadd so off = so + off" if "off \<le> 8192" for off
    using that assms by (intro uadd_eq) simp
  show ?thesis
  proof (cases "length img < so + UFS_SB_SIZE")
    case True
    then show ?thesis by (simp add: parse_superblock_def a)
  next
    case False
    have r: "\<exists>v. u32 img (so + off) = Some v" "\<exists>v. i32 img (so + off) = Some v" if "off \<le> 1400" for off
      using that False u32_total [of "so + off" img] by (auto simp: i32_u32)
    show ?thesis
      using r [of 1372] r [of 48] r [of 52] r [of 120] r [of 184] r [of 188] r [of 56] r [of 40]
        r [of 100] r [of 24] r [of 28] r [of 12] r [of 16] r [of 20] r [of 44] r [of 60] r [of 96] r [of 116]
        r [of 124] r [of 152] r [of 156] r [of 168] r [of 172] r [of 176] r [of 180]
      by (auto simp: parse_superblock_def Let_def a)
  qed
qed

text \<open>
  The test of the length wraps for an offset within 16 KiB of \<open>2 ^ 64\<close>: it then compares a small number, and the
  read of the magic number that follows is out of range.
\<close>

lemma detect_wraps:
  assumes "2 ^ 64 \<le> st + 16384" "st + 9568 \<le> 2 ^ 64" "length img < 2 ^ 63"
  shows "detect_ufs_at_start img st = (if length img < st + 16384 - 2 ^ 64 then Some None else None)"
proof -
  have w: "uadd st 8192 = st + 8192" using assms(2) by (simp add: uadd_def)
  have "uadd (st + 8192) 8192 = st + 16384 - 2 ^ 64"
    using assms(1,2) by (simp add: uadd_def mod_if)
  moreover have "uadd (st + 8192) 1372 = st + 9564" using assms(2) by (simp add: uadd_def)
  moreover have "u32 img (st + 9564) = None" using assms(1,3) by (simp add: u32_def get_at_def)
  ultimately show ?thesis by (simp add: detect_ufs_at_start_def parse_superblock_def Let_def w)
qed

text \<open>The sanity checks of the parser, as an invariant of every detected superblock.\<close>

definition sb_plausible :: "superblock \<Rightarrow> bool" where
  "sb_plausible s \<longleftrightarrow> 4096 \<le> bsize s \<and> bsize s \<le> 8192 \<and> 512 \<le> fsize s \<and> fsize s \<le> bsize s
     \<and> 0 < inopb s \<and> 0 < ipg s \<and> 0 < fpg s
     \<and> (\<forall>v \<in> {frag s, dsize s, ipg s, fpg s, inopb s, fsbtodb s, cgoffset s, cgmask s, cblkno s,
               iblkno s, dblkno s, ncg s, minfree s, nindir s, nspf s, csaddr s, cssize s, nsect s,
               spc s, ncyl s, cpg s}. 0 \<le> v \<and> v < 2 ^ 32)
     \<and> - (2 ^ 31) \<le> fragshift s \<and> fragshift s < 2 ^ 31"

lemma parse_superblock_plausible:
  assumes "parse_superblock img so = Some (Some s)"
  shows "sb_plausible s"
proof -
  have i32: "i32 buf off = Some v \<Longrightarrow> - (2 ^ 31) \<le> v \<and> v < 2 ^ 31" for buf off v
    using sint_ge [where 'a = 32] sint_lt [where 'a = 32] by (auto simp: i32_u32)
  show ?thesis
    using assms
    by (auto simp: parse_superblock_def Let_def bind_eq_Some_conv sb_plausible_def uint_u32_bounds
        dest!: i32 split: if_splits)
qed

section \<open>Geometry without wrap-around\<close>

text \<open>
  The layout condition: a geometry as \<^verbatim>\<open>format.rs\<close> lays it out (fragments of a power of two
  sectors, blocks of a power of two fragments, per group the cylinder-group block, then the inode
  blocks, then the data area, no rotational \<open>cgoffset\<close>), small enough for 32-bit fragment numbers.
\<close>

definition geometry_ok :: "superblock \<Rightarrow> bool" where
  "geometry_ok s \<longleftrightarrow>
     4096 \<le> bsize s \<and> bsize s \<le> 8192
   \<and> 0 \<le> fsbtodb s \<and> fsbtodb s \<le> 4 \<and> fsize s = 512 * 2 ^ nat (fsbtodb s)
   \<and> 0 \<le> fragshift s \<and> fragshift s \<le> 4 \<and> frag s = 2 ^ nat (fragshift s)
   \<and> bsize s = frag s * fsize s
   \<and> inopb s * 128 = bsize s \<and> nindir s * 4 = bsize s
   \<and> 0 < ipg s \<and> ipg s \<le> 2048 \<and> inopb s dvd ipg s
   \<and> cgoffset s = 0 \<and> 0 < ncg s \<and> 0 < fpg s \<and> ncg s * fpg s < 2 ^ 32
   \<and> 16384 \<le> cblkno s * fsize s \<and> cblkno s + frag s \<le> iblkno s
   \<and> iblkno s + ipg s div inopb s * frag s \<le> dblkno s \<and> dblkno s < fpg s
   \<and> fpg s \<le> 8 * (bsize s - 984) \<and> frag s dvd dblkno s"

text \<open>The slice lies below \<open>2 ^ 62\<close>, so that byte offsets never reach the sign bit.\<close>

definition start_ok :: "ufs \<Rightarrow> bool" where
  "start_ok u \<longleftrightarrow> int (start_offset u) < 2 ^ 62 \<and> super_offset u = start_offset u + UFS_SB_OFFSET"

lemma geometry_facts:
  assumes "geometry_ok s"
  shows "4096 \<le> bsize s" "bsize s \<le> 8192" "0 \<le> fsbtodb s" "fsbtodb s \<le> 4"
    "fsize s = 512 * 2 ^ nat (fsbtodb s)" "0 \<le> fragshift s" "fragshift s \<le> 4"
    "frag s = 2 ^ nat (fragshift s)" "bsize s = frag s * fsize s" "inopb s * 128 = bsize s"
    "nindir s * 4 = bsize s" "0 < ipg s" "ipg s \<le> 2048" "inopb s dvd ipg s" "cgoffset s = 0"
    "0 < ncg s" "0 < fpg s" "ncg s * fpg s < 2 ^ 32" "16384 \<le> cblkno s * fsize s"
    "cblkno s + frag s \<le> iblkno s" "iblkno s + ipg s div inopb s * frag s \<le> dblkno s"
    "dblkno s < fpg s" "fpg s \<le> 8 * (bsize s - 984)" "frag s dvd dblkno s"
  using assms unfolding geometry_ok_def by blast+

lemma pow2_le16: "k \<le> 4 \<Longrightarrow> (2::int) ^ nat k \<le> 16"
  using power_increasing [of "nat k" 4 "2::int"] by simp

lemma geometry_fsize: "geometry_ok s \<Longrightarrow> 512 \<le> fsize s \<and> fsize s \<le> 8192"
  using geometry_facts(4,5) [of s] pow2_le16 [of "fsbtodb s"] by simp

lemma geometry_frag: "geometry_ok s \<Longrightarrow> 1 \<le> frag s \<and> frag s \<le> 16"
  using geometry_facts(7,8) [of s] pow2_le16 [of "fragshift s"] by simp

lemma geometry_pos:
  assumes "geometry_ok s"
  shows "0 < inopb s" "0 < nindir s" "0 < bsize s" "0 < cblkno s" "0 < iblkno s" "0 < dblkno s"
    "fpg s < 2 ^ 32" "ncg s < 2 ^ 32"
proof -
  note g = geometry_facts [OF assms] and f = geometry_fsize [OF assms] geometry_frag [OF assms]
  show "0 < inopb s" "0 < nindir s" "0 < bsize s" using g(1,10,11) by linarith+
  have "0 < cblkno s * fsize s" using g(19) by linarith
  then show c: "0 < cblkno s" using f by (simp add: zero_less_mult_iff)
  then show "0 < iblkno s" using f g(20) by linarith
  moreover have "0 \<le> ipg s div inopb s * frag s"
    using g(12) f \<open>0 < inopb s\<close> by (intro mult_nonneg_nonneg) (auto simp: pos_imp_zdiv_nonneg_iff)
  ultimately show "0 < dblkno s" using g(21) by linarith
  have "1 * fpg s \<le> ncg s * fpg s" "ncg s * 1 \<le> ncg s * fpg s"
    using g(16,17) by (auto intro: mult_right_mono mult_left_mono)
  then show "fpg s < 2 ^ 32" "ncg s < 2 ^ 32" using g(18) by linarith+
qed

lemma fsbtobytes_eq:
  assumes g: "geometry_ok s" and b: "0 \<le> b" "b < 2 ^ 33"
  shows "fsbtobytes s b = b * fsize s"
proof -
  note gf = geometry_facts [OF g]
  let ?p = "(2::int) ^ nat (fsbtodb s)"
  have "b * ?p \<le> 2 ^ 33 * 16"
    using pow2_le16 [OF gf(4)] b by (intro mult_mono) simp_all
  moreover have "0 \<le> b * ?p" using b by simp
  ultimately have i: "in_i64 (b * ?p)" "in_i64 (b * ?p * 512)"
    by (auto simp: in_i64_def)
  have "shl_i64 b (fsbtodb s) = b * ?p"
    using gf(3,4) i by (intro shl_i64_eq) auto
  then show ?thesis using i gf(5) by (simp add: fsbtobytes_def)
qed

lemma fsb_bound:
  assumes g: "geometry_ok s" and b: "0 \<le> b" "b < 2 ^ 33"
  shows "0 \<le> b * fsize s" "b * fsize s < 2 ^ 46"
proof -
  have "b * fsize s \<le> (2 ^ 33 - 1) * 8192"
    using geometry_fsize [OF g] b by (intro mult_mono) auto
  then show "0 \<le> b * fsize s" "b * fsize s < 2 ^ 46"
    using geometry_fsize [OF g] b by auto
qed

lemma data_block_offset_eq:
  assumes g: "geometry_ok s" and st: "int st < 2 ^ 62" and b: "0 \<le> b" "b < 2 ^ 33"
  shows "data_block_offset s st b = int st + b * fsize s"
  using fsb_bound [OF g b] st by (simp add: data_block_offset_def fsbtobytes_eq [OF g b] in_i64_def)

lemma cg_mult_bound:
  assumes g: "geometry_ok s" and c: "0 \<le> c" "c < ncg s"
  shows "0 \<le> fpg s * c" "fpg s * c + fpg s \<le> ncg s * fpg s" "fpg s * c + fpg s < 2 ^ 32"
proof -
  note gf = geometry_facts [OF g]
  show "0 \<le> fpg s * c" using gf(17) c by simp
  have "fpg s * (c + 1) \<le> fpg s * ncg s" using gf(17) c by (intro mult_left_mono) auto
  then show "fpg s * c + fpg s \<le> ncg s * fpg s" by (simp add: algebra_simps)
  then show "fpg s * c + fpg s < 2 ^ 32" using gf(18) by linarith
qed

lemma cgbase_eq:
  assumes g: "geometry_ok s" and c: "0 \<le> c" "c < ncg s"
  shows "cgbase s c = fpg s * c"
  using cg_mult_bound [OF g c] geometry_facts(17) [OF g] by (simp add: cgbase_def in_i64_def)

lemma cgstart_eq:
  assumes g: "geometry_ok s" and c: "0 \<le> c" "c < ncg s"
  shows "cgstart s c = fpg s * c"
  using cg_mult_bound [OF g c] geometry_facts(15,17) [OF g]
  by (simp add: cgstart_def cgbase_eq [OF g c] in_i64_def)

lemma inode_blocks_pos: "geometry_ok s \<Longrightarrow> 1 \<le> ipg s div inopb s"
  using geometry_facts(12,14) [of s] geometry_pos(1) [of s]
  by (auto elim!: dvdE simp: zero_less_mult_iff)

lemma layout_order:
  assumes g: "geometry_ok s"
  shows "cblkno s + frag s \<le> iblkno s" "iblkno s + frag s \<le> dblkno s" "dblkno s < fpg s"
proof -
  have "1 * frag s \<le> ipg s div inopb s * frag s"
    using geometry_frag [OF g] inode_blocks_pos [OF g] by (intro mult_mono) auto
  then show "cblkno s + frag s \<le> iblkno s" "iblkno s + frag s \<le> dblkno s" "dblkno s < fpg s"
    using geometry_facts(20-22) [OF g] by linarith+
qed

lemma cg_addresses:
  assumes g: "geometry_ok s" and c: "0 \<le> c" "c < ncg s"
  shows "cgimin s c = fpg s * c + iblkno s" "cgtod s c = fpg s * c + cblkno s"
    "cgdmin s c = fpg s * c + dblkno s"
  using cg_mult_bound [OF g c] layout_order [OF g] geometry_pos [OF g] geometry_frag [OF g]
  by (simp_all add: cgimin_def cgtod_def cgdmin_def cgstart_eq [OF g c] in_i64_def)

section \<open>Inode addresses\<close>

definition valid_ino :: "superblock \<Rightarrow> int \<Rightarrow> bool" where
  "valid_ino s n \<longleftrightarrow> 0 \<le> n \<and> n < ncg s * ipg s"

lemma valid_ino_group:
  assumes "geometry_ok s" "valid_ino s n"
  shows "0 \<le> n div ipg s" "n div ipg s < ncg s" "0 \<le> n mod ipg s" "n mod ipg s < ipg s"
  using assms geometry_facts(12) [OF assms(1)]
  by (auto simp: valid_ino_def pos_imp_zdiv_nonneg_iff intro: pos_mod_bound int_div_less)

lemma inode_block_bound:
  assumes g: "geometry_ok s" and m: "0 \<le> m" "m < ipg s"
  shows "0 \<le> m div inopb s * frag s" "iblkno s + m div inopb s * frag s + frag s \<le> dblkno s"
proof -
  note p = geometry_pos(1) [OF g]
  have "m div inopb s < ipg s div inopb s"
    using m p geometry_facts(14) [OF g] by (intro int_div_less) (auto simp: dvd_div_mult_self)
  then have "(m div inopb s + 1) * frag s \<le> ipg s div inopb s * frag s"
    using geometry_frag [OF g] by (intro mult_right_mono) auto
  then show "iblkno s + m div inopb s * frag s + frag s \<le> dblkno s"
    using geometry_facts(21) [OF g] by (simp add: algebra_simps)
  show "0 \<le> m div inopb s * frag s"
    using m p geometry_frag [OF g] by (intro mult_nonneg_nonneg) (auto simp: pos_imp_zdiv_nonneg_iff)
qed

lemma itod_eq:
  assumes g: "geometry_ok s" and n: "valid_ino s n"
  shows "itod s n = fpg s * (n div ipg s) + iblkno s + n mod ipg s div inopb s * frag s"
proof -
  note gf = geometry_facts [OF g] and p = geometry_pos [OF g] and v = valid_ino_group [OF g n]
  let ?q = "n mod ipg s div inopb s"
  have n0: "0 \<le> n" using n by (simp add: valid_ino_def)
  have grp: "itog s n = n div ipg s" using n0 gf(12) by (simp add: itog_def sdiv_nonneg)
  have q: "(n smod ipg s) sdiv inopb s = ?q"
    using n0 gf(12) p(1) v by (simp add: sdiv_nonneg smod_nonneg)
  note ib = inode_block_bound [OF g v(3,4)]
  have fb: "?q * frag s < 2 ^ 32"
    using ib(2) p layout_order [OF g] geometry_frag [OF g] by linarith
  have "blkstofrags s ?q = ?q * frag s"
    using gf(6-8) ib(1) fb unfolding blkstofrags_def
    by (subst shl_i64_eq) (auto simp: in_i64_def)
  then show ?thesis
    using cg_mult_bound [OF g v(1,2)] ib(1) ib(2) p layout_order [OF g] geometry_frag [OF g] fb
    by (simp add: itod_def Let_def grp q cg_addresses [OF g v(1,2)] in_i64_def)
qed

lemma inode_byte_offset_eq:
  assumes g: "geometry_ok s" and st: "int st < 2 ^ 62" and n: "valid_ino s n"
  shows "inode_byte_offset s st n =
    int st + (fpg s * (n div ipg s) + iblkno s) * fsize s + n mod ipg s * 128"
proof -
  note gf = geometry_facts [OF g] and p = geometry_pos [OF g] and v = valid_ino_group [OF g n]
  let ?q = "n mod ipg s div inopb s" and ?r = "n mod inopb s"
  have n0: "0 \<le> n" using n by (simp add: valid_ino_def)
  have o: "itoo s n = ?r" "0 \<le> ?r" "?r < inopb s" using n0 p(1) by (auto simp: itoo_def smod_nonneg)
  have rr: "?r = n mod ipg s mod inopb s" using gf(14) by (simp add: mod_mod_cancel)
  note ib = inode_block_bound [OF g v(3,4)] and cm = cg_mult_bound [OF g v(1,2)]
  have it: "0 \<le> itod s n" "itod s n < 2 ^ 32"
    using cm ib layout_order [OF g] geometry_frag [OF g] p unfolding itod_eq [OF g n] by linarith+
  have r128: "?r * 128 \<le> 8192" using o gf(2,10) by linarith
  have "inode_byte_offset s st n = int st + itod s n * fsize s + ?r * 128"
    using fsb_bound [OF g, of "itod s n"] it st o r128
    by (simp add: inode_byte_offset_def Let_def fsbtobytes_eq [OF g] o(1) in_i64_def)
  also have "itod s n * fsize s = (fpg s * (n div ipg s) + iblkno s) * fsize s + ?q * (inopb s * 128)"
    unfolding itod_eq [OF g n] gf(10) gf(9) by (simp add: algebra_simps)
  also have "int st + ((fpg s * (n div ipg s) + iblkno s) * fsize s + ?q * (inopb s * 128)) + ?r * 128
     = int st + (fpg s * (n div ipg s) + iblkno s) * fsize s + (?q * inopb s + ?r) * 128"
    by (simp add: algebra_simps)
  also have "?q * inopb s + ?r = n mod ipg s" unfolding rr by (rule div_mult_mod_eq)
  finally show ?thesis .
qed

text \<open>The inode table of a group lies between its cylinder-group block and its data area.\<close>

lemma inode_in_table:
  assumes g: "geometry_ok s" and st: "int st < 2 ^ 62" and n: "valid_ino s n"
  shows "int st + (fpg s * (n div ipg s) + iblkno s) * fsize s \<le> inode_byte_offset s st n"
    "inode_byte_offset s st n + 128 \<le> int st + (fpg s * (n div ipg s) + dblkno s) * fsize s"
proof -
  note gf = geometry_facts [OF g] and v = valid_ino_group [OF g n]
  show "int st + (fpg s * (n div ipg s) + iblkno s) * fsize s \<le> inode_byte_offset s st n"
    unfolding inode_byte_offset_eq [OF assms] using v by simp
  have "ipg s * 128 = ipg s div inopb s * (inopb s * 128)"
    using gf(14) by (simp flip: mult.assoc)
  also have "\<dots> = ipg s div inopb s * frag s * fsize s" by (simp only: gf(9,10) mult.assoc)
  finally have e: "ipg s * 128 = ipg s div inopb s * frag s * fsize s" .
  have "(n mod ipg s + 1) * 128 \<le> ipg s div inopb s * frag s * fsize s"
    using v(4) unfolding e [symmetric] by simp
  also have "\<dots> \<le> (dblkno s - iblkno s) * fsize s"
    using gf(21) geometry_fsize [OF g] by (intro mult_right_mono) auto
  finally show "inode_byte_offset s st n + 128 \<le> int st + (fpg s * (n div ipg s) + dblkno s) * fsize s"
    unfolding inode_byte_offset_eq [OF assms] by (simp add: algebra_simps)
qed

lemma inode_records_disjoint:
  assumes g: "geometry_ok s" and st: "int st < 2 ^ 62" and n: "valid_ino s n" "valid_ino s m" "n < m"
  shows "inode_byte_offset s st n + 128 \<le> inode_byte_offset s st m"
proof (cases "n div ipg s = m div ipg s")
  case True
  have "n mod ipg s < m mod ipg s"
    using n(3) True div_mult_mod_eq [of n "ipg s"] div_mult_mod_eq [of m "ipg s"] by (smt (verit))
  then show ?thesis unfolding inode_byte_offset_eq [OF g st n(1)] inode_byte_offset_eq [OF g st n(2)] True by simp
next
  case False
  note gf = geometry_facts [OF g]
  have "n div ipg s \<le> m div ipg s" using n(3) gf(12) by (intro zdiv_mono1) auto
  then have "n div ipg s + 1 \<le> m div ipg s" using False by simp
  then have "fpg s * (n div ipg s + 1) \<le> fpg s * (m div ipg s)" using gf(17) by (intro mult_left_mono) auto
  then have "fpg s * (n div ipg s) + dblkno s \<le> fpg s * (m div ipg s) + iblkno s"
    using layout_order [OF g] geometry_pos [OF g] by (simp add: algebra_simps)
  then have "(fpg s * (n div ipg s) + dblkno s) * fsize s \<le> (fpg s * (m div ipg s) + iblkno s) * fsize s"
    using geometry_fsize [OF g] by (intro mult_right_mono) auto
  then show ?thesis using inode_in_table [OF g st n(1)] inode_in_table [OF g st n(2)] by linarith
qed

section \<open>Allocation sizes\<close>

lemma allocation_loop_eq:
  assumes "0 < bsize s"
  shows "allocation_loop s nb r =
    (if r \<le> 0 then [] else replicate (nat (r div bsize s)) (bsize s)
       @ (if r mod bsize s = 0 then [] else [if nb > 12 then bsize s else fragroundup s (r mod bsize s)]))"
  using assms
proof (induction s nb r rule: allocation_loop.induct)
  case (1 s nb r)
  note b = \<open>0 < bsize s\<close>
  show ?case
  proof (cases "0 < r")
    case True
    have IH: "allocation_loop s nb (r - bsize s) = (if r - bsize s \<le> 0 then []
       else replicate (nat ((r - bsize s) div bsize s)) (bsize s)
       @ (if (r - bsize s) mod bsize s = 0 then [] else [if nb > 12 then bsize s else fragroundup s ((r - bsize s) mod bsize s)]))"
      using 1(1) [OF _ refl b] True b by blast
    consider "r < bsize s" | "r = bsize s" | "bsize s < r" by linarith
    then show ?thesis
    proof cases
      case 3
      have d: "(r - bsize s) div bsize s = r div bsize s - 1" "(r - bsize s) mod bsize s = r mod bsize s"
        using b div_add_self2 [of "bsize s" "r - bsize s"] by simp_all
      have "1 \<le> r div bsize s" using 3 b zdiv_mono1 [of "bsize s" r "bsize s"] by simp
      then have "nat (r div bsize s) = Suc (nat (r div bsize s - 1))" by simp
      then show ?thesis using 3 b True by (subst allocation_loop.simps) (simp add: IH d Let_def)
    qed (use True b in \<open>subst allocation_loop.simps, simp add: IH Let_def min_def div_pos_pos_trivial\<close>)+
  qed (subst allocation_loop.simps, simp)
qed

lemma fragroundup_eq:
  assumes "geometry_ok s" "0 < n" "n < 2 ^ 62"
  shows "fragroundup s n = (n + fsize s - 1) div fsize s * fsize s"
proof -
  have f: "512 \<le> fsize s" "fsize s \<le> 8192" using geometry_fsize [OF assms(1)] by auto
  have "(n + fsize s - 1) div fsize s * fsize s \<le> n + fsize s - 1"
    using f div_mult_mod_eq [of "n + fsize s - 1" "fsize s"] pos_mod_sign [of "fsize s" "n + fsize s - 1"]
    by linarith
  moreover have "0 \<le> (n + fsize s - 1) div fsize s * fsize s"
    using f assms by (intro mult_nonneg_nonneg) (auto simp: pos_imp_zdiv_nonneg_iff)
  ultimately show ?thesis
    using assms f by (simp add: fragroundup_def in_i64_def sdiv_nonneg)
qed

lemma fragroundup_bounds:
  assumes "geometry_ok s" "0 < n" "n < 2 ^ 62"
  shows "n \<le> fragroundup s n" "fragroundup s n < n + fsize s" "fsize s dvd fragroundup s n"
    "n \<le> bsize s \<Longrightarrow> fragroundup s n \<le> bsize s"
proof -
  have f: "512 \<le> fsize s" using geometry_fsize [OF assms(1)] by auto
  let ?e = "(n + fsize s - 1) div fsize s * fsize s"
  note e = fragroundup_eq [OF assms]
  have m: "n + fsize s - 1 = ?e + (n + fsize s - 1) mod fsize s" by simp
  have "0 \<le> (n + fsize s - 1) mod fsize s" "(n + fsize s - 1) mod fsize s < fsize s"
    using f by (auto intro: pos_mod_sign pos_mod_bound)
  then show "n \<le> fragroundup s n" "fragroundup s n < n + fsize s" unfolding e using m by linarith+
  show "fsize s dvd fragroundup s n" unfolding e by simp
  assume "n \<le> bsize s"
  then have "n + fsize s - 1 < bsize s + fsize s" by linarith
  then have "n + fsize s - 1 < (frag s + 1) * fsize s" using geometry_facts(9) [OF assms(1)] by (simp add: algebra_simps)
  then have "(n + fsize s - 1) div fsize s \<le> frag s"
    using f int_div_less [of "fsize s" "n + fsize s - 1" "frag s + 1"] by simp
  then show "fragroundup s n \<le> bsize s"
    unfolding e geometry_facts(9) [OF assms(1)] using f by (intro mult_right_mono) auto
qed


lemma allocation_byte_sizes_eq:
  assumes g: "geometry_ok s" and n: "0 < n" "n < 2 ^ 62"
  shows "allocation_byte_sizes s n = replicate (nat (n div bsize s)) (bsize s)
    @ (if n mod bsize s = 0 then [] else
        [if n > 12 * bsize s then bsize s else fragroundup s (n mod bsize s)])"
proof -
  have b: "0 < bsize s" "bsize s \<le> 8192" using geometry_facts(1,2) [OF g] by auto
  have nb: "i64 (i64 (n + bsize s) - 1) sdiv bsize s = (n + bsize s - 1) div bsize s"
    using n b by (simp add: in_i64_def sdiv_nonneg)
  have "(n + bsize s - 1) div bsize s > 12 \<longleftrightarrow> n > 12 * bsize s"
  proof
    assume "(n + bsize s - 1) div bsize s > 12"
    then have "13 * bsize s \<le> (n + bsize s - 1) div bsize s * bsize s" using b by (intro mult_right_mono) auto
    moreover have "(n + bsize s - 1) div bsize s * bsize s \<le> n + bsize s - 1"
      using b by (metis add.commute div_mult_mod_eq le_add_same_cancel2 pos_mod_sign)
    ultimately show "n > 12 * bsize s" by linarith
  next
    assume "n > 12 * bsize s"
    then have "13 * bsize s \<le> n + bsize s - 1" by linarith
    then show "(n + bsize s - 1) div bsize s > 12"
      using zdiv_mono1 [of "13 * bsize s" "n + bsize s - 1" "bsize s"] b by simp
  qed
  then show ?thesis
    using n b by (simp add: allocation_byte_sizes_def Let_def nb allocation_loop_eq)
qed


lemma allocation_byte_sizes_parts:
  assumes g: "geometry_ok s" and n: "0 < n" "n < 2 ^ 62"
  defines "q \<equiv> n div bsize s" and "r \<equiv> n mod bsize s"
  shows "0 \<le> q" "0 \<le> r" "r < bsize s" "n = q * bsize s + r" "0 < bsize s"
    "r \<noteq> 0 \<Longrightarrow> r \<le> fragroundup s r \<and> fragroundup s r < r + fsize s \<and> fragroundup s r \<le> bsize s
       \<and> fsize s dvd fragroundup s r"
proof -
  have b: "0 < bsize s" "bsize s \<le> 8192" using geometry_facts(1,2) [OF g] by auto
  then show "0 \<le> q" "0 \<le> r" "r < bsize s" "n = q * bsize s + r" "0 < bsize s"
    using n unfolding q_def r_def by (auto simp: pos_imp_zdiv_nonneg_iff)
  moreover assume "r \<noteq> 0"
  ultimately show "r \<le> fragroundup s r \<and> fragroundup s r < r + fsize s \<and> fragroundup s r \<le> bsize s
      \<and> fsize s dvd fragroundup s r"
    using fragroundup_bounds [OF g, of r] b by auto
qed

section \<open>Properties\<close>

text \<open>A small geometry (two groups of 64 fragments of 1 KiB, 8 KiB blocks) at which the
  hypotheses of the properties are discharged.\<close>

definition sample_sb :: superblock where
  "sample_sb = \<lparr> bsize = 8192, fsize = 1024, frag = 8, dsize = 64, ipg = 64, fpg = 64, inopb = 64,
     fsbtodb = 1, cgoffset = 0, cgmask = 4294967295, cblkno = 16, iblkno = 24, dblkno = 32, ncg = 2,
     minfree = 10, fragshift = 3, nindir = 2048, nspf = 2, csaddr = 32, cssize = 1024, nsect = 32,
     spc = 64, ncyl = 4, cpg = 2 \<rparr>"

lemma sample_geometry [simp]: "geometry_ok sample_sb"
  by (simp add: geometry_ok_def sample_sb_def)

lemma sample_fields [simp]:
  "bsize sample_sb = 8192" "fsize sample_sb = 1024" "frag sample_sb = 8" "ipg sample_sb = 64"
  "fpg sample_sb = 64" "inopb sample_sb = 64" "fsbtodb sample_sb = 1" "cblkno sample_sb = 16"
  "iblkno sample_sb = 24" "dblkno sample_sb = 32" "ncg sample_sb = 2" "fragshift sample_sb = 3"
  "nindir sample_sb = 2048" "nspf sample_sb = 2" "cgoffset sample_sb = 0"
  by (simp_all add: sample_sb_def)

text \<open>C38: Under the formatter's layout no inode address wraps around: every inode number of the
  filesystem has its 128-byte record inside the inode table of its own cylinder group, between the
  group's descriptor block and its data area, and two inode numbers never share a byte.\<close>

theorem inode_records_placed:
  assumes "geometry_ok s" "int st < 2 ^ 62" "valid_ino s n" "valid_ino s m" "n < m"
  shows "data_block_offset s st (cgtod s (itog s n)) + bsize s \<le> inode_byte_offset s st n
    \<and> inode_byte_offset s st n + 128 \<le> data_block_offset s st (cgdmin s (itog s n))
    \<and> inode_byte_offset s st n + 128 \<le> inode_byte_offset s st m"
proof -
  note g = assms(1) and v = valid_ino_group [OF assms(1,3)]
  note cm = cg_mult_bound [OF g v(1,2)] and lo = layout_order [OF g] and p = geometry_pos [OF g]
  have grp: "itog s n = n div ipg s"
    using assms(3) geometry_facts(12) [OF g] by (simp add: itog_def valid_ino_def sdiv_nonneg)
  have d: "data_block_offset s st (fpg s * (n div ipg s) + k) = int st + (fpg s * (n div ipg s) + k) * fsize s"
    if "0 \<le> k" "k \<le> fpg s" for k
    using that cm p by (intro data_block_offset_eq [OF g assms(2)]) auto
  have fr: "1 \<le> frag s" "0 \<le> fsize s" using geometry_frag [OF g] geometry_fsize [OF g] by auto
  have "(cblkno s + frag s) * fsize s \<le> iblkno s * fsize s"
    using lo fr by (intro mult_right_mono) auto
  then have c: "int st + (fpg s * (n div ipg s) + cblkno s) * fsize s + bsize s
      \<le> int st + (fpg s * (n div ipg s) + iblkno s) * fsize s"
    unfolding geometry_facts(9) [OF g] by (simp add: algebra_simps)
  have b: "0 \<le> cblkno s" "cblkno s \<le> fpg s" "0 \<le> dblkno s" "dblkno s \<le> fpg s" using p lo fr by linarith+
  show ?thesis
    using inode_in_table [OF g assms(2,3)] inode_records_disjoint [OF assms] c
    unfolding grp cg_addresses [OF g v(1,2)] d [OF b(1,2)] d [OF b(3,4)] by linarith
qed

theorem inode_records_placed_witness:
  "data_block_offset sample_sb 512 (cgtod sample_sb (itog sample_sb 2)) + bsize sample_sb
      \<le> inode_byte_offset sample_sb 512 2
    \<and> inode_byte_offset sample_sb 512 2 + 128 \<le> data_block_offset sample_sb 512 (cgdmin sample_sb (itog sample_sb 2))
    \<and> inode_byte_offset sample_sb 512 2 + 128 \<le> inode_byte_offset sample_sb 512 70"
  by (rule inode_records_placed) (simp_all add: valid_ino_def)



end
