(* ===== verification/Write_Error.thy ===== *)
theory Write_Error
  imports Superblock
begin

text \<open>
  The errors of the allocator and of the write path (\<^verbatim>\<open>WResult\<close> in \<^verbatim>\<open>write.rs\<close>, \<^verbatim>\<open>Result<_, String>\<close> in
  \<^verbatim>\<open>alloc.rs\<close>): one constructor per message, with the values the message interpolates.
\<close>

datatype werror =
    NoFreeInodes                                  \<comment> \<open>no free UFS inodes remain for allocation\<close>
  | NoFreeBlocks                                  \<comment> \<open>no free UFS blocks remain for allocation\<close>
  | NoFreeFragments                               \<comment> \<open>no free UFS fragments remain for allocation\<close>
  | InvalidFragmentRequest int                    \<comment> \<open>invalid UFS fragment allocation request\<close>
  | AllocationNotPositive                         \<comment> \<open>UFS allocation size must be positive\<close>
  | InvalidCgFreeingInode int int                 \<comment> \<open>invalid cylinder group while freeing UFS inode\<close>
  | InodeAlreadyFree int                          \<comment> \<open>UFS inode is already free\<close>
  | InvalidCgFreeingBlock int int                 \<comment> \<open>invalid cylinder group while freeing UFS block\<close>
  | InvalidCgFreeingAllocation int int            \<comment> \<open>invalid cylinder group while freeing UFS allocation\<close>
  | InvalidCgNormalizing int                      \<comment> \<open>invalid cylinder group while normalizing UFS metadata\<close>
  | UnreadableForReplacement int                  \<comment> \<open>could not read inode for replacement\<close>
  | UnreadableForWrite int                        \<comment> \<open>could not read inode for write\<close>
  | NoDirectorySlot rstr                          \<comment> \<open>no directory slot available\<close>
  | ParentUnresolved rstr                         \<comment> \<open>could not resolve parent path\<close>
  | ParentPathNotDirectory rstr                   \<comment> \<open>parent path is not a UFS directory\<close>
  | TargetExists rstr                             \<comment> \<open>target path already exists\<close>
  | SourceMissing rstr                            \<comment> \<open>source path does not exist\<close>
  | HardLinkToDirectory rstr                      \<comment> \<open>refusing to create a hard link to directory\<close>
  | EntryNotFound rstr                            \<comment> \<open>could not find directory entry to remove\<close>
  | UnlinkRoot                                    \<comment> \<open>refusing to unlink the UFS root directory\<close>
  | TargetMissing rstr                            \<comment> \<open>target path does not exist\<close>
  | TargetIsDirectory rstr                        \<comment> \<open>target path is a directory; use rmdir instead\<close>
  | RemoveRoot                                    \<comment> \<open>refusing to remove the UFS root directory\<close>
  | TargetNotDirectory rstr                       \<comment> \<open>target path is not a directory\<close>
  | TargetNotEmpty rstr                           \<comment> \<open>target directory is not empty\<close>
  | ParentUnreadable int                          \<comment> \<open>parent inode is unreadable\<close>
  | ParentInodeNotDirectory                       \<comment> \<open>parent inode is not a UFS directory\<close>
  | UnsupportedSpecial u32                        \<comment> \<open>unsupported special file type\<close>
  | LinkTargetUnreadable int                      \<comment> \<open>link target inode is unreadable\<close>
  | HardLinkDirectory                             \<comment> \<open>refusing to hard-link a directory\<close>
  | NameMissing rstr                              \<comment> \<open>(name) does not exist\<close>
  | NameIsDirectory rstr                          \<comment> \<open>(name) is a directory; use rmdir\<close>
  | NameNotDirectory rstr                         \<comment> \<open>(name) is not a directory\<close>
  | NameNotEmpty rstr                             \<comment> \<open>directory (name) is not empty\<close>
  | DotdotMissing                                 \<comment> \<open>could not find '..' to rewrite\<close>
  | SourceParentUnreadable int                    \<comment> \<open>source parent inode is unreadable\<close>
  | SourceNameMissing rstr                        \<comment> \<open>source (name) does not exist\<close>
  | TargetParentUnreadable int                    \<comment> \<open>target parent inode is unreadable\<close>
  | CrossTypeRename                               \<comment> \<open>cannot rename across file and directory types\<close>
  | InodeUnreadable int                           \<comment> \<open>inode is unreadable\<close>

end
