(* ===== verification/Cylinder_Group.thy ===== *)
theory Cylinder_Group
  imports Write_Error
begin

text \<open>
  \<^verbatim>\<open>crates/svr4-ufs/src/alloc.rs\<close>, first half: the fragment and inode bitmaps of a cylinder group,
  the block I/O of its descriptor, its first-touch initialisation and the incremental counters. Both
  bitmaps are instances of one interface, the locale \<open>bitmap\<close>; what an update does to a whole run of
  bits is proved once there. Division by the fragment count, which the parser does not validate,
  panics on zero as the source does.
\<close>

section \<open>Bitmap accessors\<close>

definition is_frag_free :: "bytes \<Rightarrow> int \<Rightarrow> bool option" where
  "is_frag_free cg frag_index =
     do { byte \<leftarrow> get_at cg (usize (int UFS_CG_FREE_OFFSET + frag_index sdiv int NBBY));
          Some (bit byte (nat (frag_index smod int NBBY mod 8))) }"

definition set_frag_state :: "bytes \<Rightarrow> int \<Rightarrow> bool \<Rightarrow> bytes option" where
  "set_frag_state cg frag_index free =
     (let byte_offset = usize (int UFS_CG_FREE_OFFSET + frag_index sdiv int NBBY);
          mask = push_bit (nat (frag_index smod int NBBY mod 8)) (1::u8)
      in do { byte \<leftarrow> get_at cg byte_offset;
              Some (cg[byte_offset := if free then byte OR mask else byte AND NOT mask]) })"

definition is_inode_used :: "bytes \<Rightarrow> int \<Rightarrow> bool option" where
  "is_inode_used cg inode_index =
     do { byte \<leftarrow> get_at cg (usize (int UFS_CG_IUSED_OFFSET + inode_index sdiv int NBBY));
          Some (bit byte (nat (inode_index smod int NBBY mod 8))) }"

definition set_inode_state :: "bytes \<Rightarrow> int \<Rightarrow> bool \<Rightarrow> bytes option" where
  "set_inode_state cg inode_index used =
     (let byte_offset = usize (int UFS_CG_IUSED_OFFSET + inode_index sdiv int NBBY);
          mask = push_bit (nat (inode_index smod int NBBY mod 8)) (1::u8)
      in do { byte \<leftarrow> get_at cg byte_offset;
              Some (cg[byte_offset := if used then byte OR mask else byte AND NOT mask]) })"

text \<open>
  The window of free bits of one block, gathered byte by byte into a \<^verbatim>\<open>u64\<close>; shift amounts are
  masked to the width of the word.
\<close>

definition frag_block_free_bits :: "bytes \<Rightarrow> int \<Rightarrow> int \<Rightarrow> u64 option" where
  "frag_block_free_bits cg frag_index frags_per_block =
     (if frags_per_block \<le> 0 then Some 0 else
      let bit_offset = nat (frag_index smod int NBBY mod 2 ^ 32);
          byte_offset = usize (int UFS_CG_FREE_OFFSET + frag_index sdiv int NBBY);
          bits_to_cover = bit_offset + usize frags_per_block;
          bytes_to_cover = (bits_to_cover + (NBBY - 1)) div NBBY
      in do { window \<leftarrow> foldM (\<lambda>window i. do { b \<leftarrow> get_at cg (byte_offset + i);
                          Some (window OR push_bit (8 * i mod 64) (ucast b)) }) 0 [0..<bytes_to_cover];
              Some (drop_bit (bit_offset mod 64) window
                    AND (push_bit (nat (frags_per_block mod 64)) 1 - 1)) })"

text \<open>The loops over a run of fragments.\<close>

definition all_frags_free :: "bytes \<Rightarrow> int \<Rightarrow> int \<Rightarrow> bool option" where
  "all_frags_free cg base n = mall (\<lambda>off. is_frag_free cg (i64 (base + off))) [0..n - 1]"

definition set_frags :: "bytes \<Rightarrow> int \<Rightarrow> int \<Rightarrow> bool \<Rightarrow> bytes option" where
  "set_frags cg base n free = foldM (\<lambda>c off. set_frag_state c (i64 (base + off)) free) cg [0..n - 1]"

section \<open>Cylinder-group block I/O\<close>

definition cg_block_offset :: "ufs \<Rightarrow> int \<Rightarrow> nat" where
  "cg_block_offset u cg =
     usize (i64 (i64 (int (start_offset u)) + fsbtobytes (sb u) (cgtod (sb u) cg)))"

definition read_cg_block :: "image \<Rightarrow> ufs \<Rightarrow> int \<Rightarrow> bytes option" where
  "read_cg_block img u cg =
     (let offset = cg_block_offset u cg; block_size = usize (bsize (sb u))
      in subslice img offset (offset + block_size))"

definition write_cg_block :: "image \<Rightarrow> ufs \<Rightarrow> int \<Rightarrow> bytes \<Rightarrow> image option" where
  "write_cg_block img u cg cg_bytes = copy_at img (cg_block_offset u cg) cg_bytes"

definition cg_data_frag_count :: "ufs \<Rightarrow> int \<Rightarrow> int" where
  "cg_data_frag_count u cg =
     (let frags_per_group = fpg (sb u);
          total_data_frags = (if dsize (sb u) \<noteq> 0 then dsize (sb u) else i64 (frags_per_group * ncg (sb u)));
          remaining = i64 (total_data_frags - i64 (cg * frags_per_group))
      in if remaining \<le> 0 then 0 else min frags_per_group remaining)"

definition looks_like_pristine_cg :: "bytes \<Rightarrow> bool" where
  "looks_like_pristine_cg cg = list_all (\<lambda>b. b = 0) cg"

section \<open>First-touch initialisation\<close>

definition cg_ncyl_field :: "superblock \<Rightarrow> int \<Rightarrow> int" where
  "cg_ncyl_field s cg =
     (if cpg s > 0 then if cg = i64 (ncg s - 1) then ncyl s smod cpg s else cpg s else 0)"

definition pristine_header :: "ufs \<Rightarrow> int \<Rightarrow> bytes option" where
  "pristine_header u cg =
     (let s = sb u;
          cg_ndblk = cg_data_frag_count u cg;
          data_start_frag = cgdmin s cg smod fpg s;
          free_fragments = max (i64 (cg_ndblk - data_start_frag)) 0
      in if frag s = 0 then None else
      do { c \<leftarrow> put_u32 (replicate (usize (bsize s)) 0) UFS_CG_CGX_OFFSET (of_int cg);
           c \<leftarrow> put_u16 c UFS_CG_NCYL_OFFSET (of_int (cg_ncyl_field s cg));
           c \<leftarrow> put_u16 c UFS_CG_NIBLK_OFFSET (of_int (ipg s));
           c \<leftarrow> put_u32 c UFS_CG_NDBLK_OFFSET (of_int cg_ndblk);
           c \<leftarrow> put_u32 c UFS_CG_CS_NDIR_OFFSET 0;
           c \<leftarrow> put_u32 c UFS_CG_CS_NBFREE_OFFSET (of_int (free_fragments sdiv frag s));
           c \<leftarrow> put_u32 c UFS_CG_CS_NIFREE_OFFSET (of_int (i64 (ipg s - (if cg = 0 then 2 else 0))));
           c \<leftarrow> put_u32 c UFS_CG_CS_NFFREE_OFFSET (of_int (free_fragments smod frag s));
           c \<leftarrow> put_u32 c UFS_CG_IROTOR_OFFSET 0;
           put_u32 c UFS_CG_MAGIC_OFFSET UFS_CG_MAGIC })"

text \<open>Inodes 0 and 1 are reserved in group 0; the fragments from the data area on are free.\<close>

definition pristine_cg_bytes :: "ufs \<Rightarrow> int \<Rightarrow> bytes option" where
  "pristine_cg_bytes u cg =
     do { c \<leftarrow> pristine_header u cg;
          c \<leftarrow> (if cg = 0 then do { c \<leftarrow> set_inode_state c 0 True; set_inode_state c 1 True } else Some c);
          foldM (\<lambda>c frag_index. set_frag_state c frag_index True) c
            [cgdmin (sb u) cg smod fpg (sb u)..cg_data_frag_count u cg - 1] }"

definition initialize_pristine_cg :: "ufs \<Rightarrow> int \<Rightarrow> (image, werror, bytes) wm" where
  "initialize_pristine_cg u cg =
     wbind (wopt (pristine_cg_bytes u cg)) (\<lambda>cg_bytes.
     wbind (wmodify (\<lambda>img. write_cg_block img u cg cg_bytes)) (\<lambda>_.
     wreturn cg_bytes))"

definition read_allocatable_cg_block :: "ufs \<Rightarrow> int \<Rightarrow> (image, werror, bytes) wm" where
  "read_allocatable_cg_block u cg =
     wbind (wread (\<lambda>img. read_cg_block img u cg)) (\<lambda>cg_bytes.
     wbind (wopt (u32 cg_bytes UFS_CG_MAGIC_OFFSET)) (\<lambda>magic.
     if magic = UFS_CG_MAGIC then wreturn cg_bytes
     else if looks_like_pristine_cg cg_bytes then initialize_pristine_cg u cg
     else wreturn cg_bytes))"

section \<open>Incremental count adjustments\<close>

definition adjust_u32_at :: "bytes \<Rightarrow> nat \<Rightarrow> int \<Rightarrow> bytes option" where
  "adjust_u32_at buf offset delta =
     do { current \<leftarrow> u32 buf offset; put_u32 buf offset (of_int (uint current + delta)) }"

definition adjust_superblock_free_blocks :: "image \<Rightarrow> ufs \<Rightarrow> int \<Rightarrow> image option" where
  "adjust_superblock_free_blocks img u delta =
     adjust_u32_at img (super_offset u + UFS_FS_CSTOTAL_NBFREE_OFFSET) delta"

definition adjust_superblock_free_inodes :: "image \<Rightarrow> ufs \<Rightarrow> int \<Rightarrow> image option" where
  "adjust_superblock_free_inodes img u delta =
     adjust_u32_at img (super_offset u + UFS_FS_CSTOTAL_NIFREE_OFFSET) delta"

definition adjust_superblock_directory_count :: "image \<Rightarrow> ufs \<Rightarrow> int \<Rightarrow> image option" where
  "adjust_superblock_directory_count img u delta =
     adjust_u32_at img (super_offset u + UFS_FS_CSTOTAL_NDIR_OFFSET) delta"

definition adjust_cg_free_blocks :: "bytes \<Rightarrow> int \<Rightarrow> bytes option" where
  "adjust_cg_free_blocks cg delta = adjust_u32_at cg UFS_CG_CS_NBFREE_OFFSET delta"

definition adjust_cg_free_inodes :: "bytes \<Rightarrow> int \<Rightarrow> bytes option" where
  "adjust_cg_free_inodes cg delta = adjust_u32_at cg UFS_CG_CS_NIFREE_OFFSET delta"

definition adjust_cg_directory_count :: "bytes \<Rightarrow> int \<Rightarrow> bytes option" where
  "adjust_cg_directory_count cg delta = adjust_u32_at cg UFS_CG_CS_NDIR_OFFSET delta"

section \<open>The bitmap interface\<close>

text \<open>
  A bitmap inside a descriptor block: a test and an update of bit \<open>i\<close>, stored from byte \<open>base\<close> on. The
  client lemmas describe an update of a whole list of bits.
\<close>

locale bitmap =
  fixes tst :: "bytes \<Rightarrow> int \<Rightarrow> bool option"
    and upd :: "bytes \<Rightarrow> int \<Rightarrow> bool \<Rightarrow> bytes option"
    and base :: nat
    and inside :: "nat \<Rightarrow> int \<Rightarrow> bool"
  assumes tst_total: "inside (length cg) i \<Longrightarrow> \<exists>b. tst cg i = Some b"
    and upd_total: "inside (length cg) i \<Longrightarrow> \<exists>cg'. upd cg i v = Some cg'"
    and upd_length: "upd cg i v = Some cg' \<Longrightarrow> length cg' = length cg"
    and tst_upd: "upd cg i v = Some cg' \<Longrightarrow> inside (length cg) i \<Longrightarrow> inside (length cg) j \<Longrightarrow>
       tst cg' j = (if j = i then Some v else tst cg j)"
    and upd_frame: "upd cg i v = Some cg' \<Longrightarrow> inside (length cg) i \<Longrightarrow>
       k < base \<or> base + nat i div 8 < k \<Longrightarrow> cg' ! k = cg ! k"
begin

abbreviation upds :: "bytes \<Rightarrow> int list \<Rightarrow> bool \<Rightarrow> bytes option" where
  "upds cg is v \<equiv> foldM (\<lambda>c i. upd c i v) cg is"

lemma upds_length: "upds cg is v = Some cg' \<Longrightarrow> length cg' = length cg"
  by (induction "is" arbitrary: cg) (auto simp: bind_eq_Some_conv dest: upd_length)

lemma upds_total: "(\<And>i. i \<in> set is \<Longrightarrow> inside (length cg) i) \<Longrightarrow> \<exists>cg'. upds cg is v = Some cg'"
proof (induction "is" arbitrary: cg)
  case (Cons i "is")
  obtain c where c: "upd cg i v = Some c" using upd_total [of cg i v] Cons.prems by auto
  have "\<And>j. j \<in> set is \<Longrightarrow> inside (length c) j" using Cons.prems upd_length [OF c] by auto
  then show ?case using Cons.IH [of c] c by auto
qed simp

lemma tst_upds:
  assumes "upds cg is v = Some cg'" "\<And>i. i \<in> set is \<Longrightarrow> inside (length cg) i" "inside (length cg) j"
  shows "tst cg' j = (if j \<in> set is then Some v else tst cg j)"
  using assms
proof (induction "is" arbitrary: cg)
  case (Cons i "is")
  then obtain c where c: "upd cg i v = Some c" "upds c is v = Some cg'" by (auto simp: bind_eq_Some_conv)
  have l: "length c = length cg" using c(1) by (rule upd_length)
  have "tst cg' j = (if j \<in> set is then Some v else tst c j)" using Cons c l by auto
  then show ?case using tst_upd [OF c(1)] Cons.prems by auto
qed simp

lemma upds_frame:
  assumes "upds cg is v = Some cg'" "\<And>i. i \<in> set is \<Longrightarrow> inside (length cg) i \<and> base + nat i div 8 < m"
    "k < base \<or> m \<le> k"
  shows "cg' ! k = cg ! k"
  using assms
proof (induction "is" arbitrary: cg)
  case (Cons i "is")
  then obtain c where c: "upd cg i v = Some c" "upds c is v = Some cg'" by (auto simp: bind_eq_Some_conv)
  have "cg' ! k = c ! k" using Cons c upd_length [OF c(1)] by auto
  moreover have "inside (length cg) i \<and> base + nat i div 8 < m" using Cons.prems(2) by simp
  then have "c ! k = cg ! k" using Cons.prems(3) by (intro upd_frame [OF c(1)]) auto
  ultimately show ?case by simp
qed simp

end

text \<open>The two bitmaps, as bits of a byte.\<close>

lemma bit_index:
  assumes "0 \<le> i" "i < 2 ^ 40" "b < 2 ^ 20"
  shows "usize (int b + i sdiv 8) = b + nat i div 8" "nat (i smod 8 mod 8) = nat i mod 8"
proof -
  have "i sdiv 8 = int (nat i div 8)" using assms(1) by (simp add: sdiv_nonneg zdiv_int)
  moreover have "int b + int (nat i div 8) = int (b + nat i div 8)" by simp
  moreover have "b + nat i div 8 < 2 ^ 64"
  proof -
    have "nat i < 2 ^ 40" using assms by (simp add: nat_less_iff)
    then show ?thesis using assms(3) by simp
  qed
  ultimately show "usize (int b + i sdiv 8) = b + nat i div 8" by (simp only: usize_int)
  show "nat (i smod 8 mod 8) = nat i mod 8"
    using assms by (simp add: smod_nonneg nat_mod_distrib)
qed

definition bit_inside :: "nat \<Rightarrow> nat \<Rightarrow> int \<Rightarrow> bool" where
  "bit_inside base len i \<longleftrightarrow> 0 \<le> i \<and> i < 2 ^ 40 \<and> base + nat i div 8 < len"

definition put_bit :: "bytes \<Rightarrow> nat \<Rightarrow> nat \<Rightarrow> bool \<Rightarrow> bytes" where
  "put_bit cg base i v = cg[base + i div 8 :=
     if v then (cg ! (base + i div 8)) OR push_bit (i mod 8) 1
     else (cg ! (base + i div 8)) AND NOT (push_bit (i mod 8) 1)]"

lemma bit_upd: "j < 8 \<Longrightarrow> k < 8 \<Longrightarrow>
  bit (if v then (b::u8) OR push_bit k 1 else b AND NOT (push_bit k 1)) j = (if j = k then v else bit b j)"
  by (auto simp: bit_or_iff bit_and_iff bit_not_iff bit_push_bit_iff bit_exp_iff)

lemma put_bit_nth: "base + i div 8 < length cg \<Longrightarrow>
  bit (put_bit cg base i v ! (base + j div 8)) (j mod 8) = (if j = i then v else bit (cg ! (base + j div 8)) (j mod 8))"
proof (cases "j div 8 = i div 8")
  case True
  assume "base + i div 8 < length cg"
  moreover have "j mod 8 = i mod 8 \<longleftrightarrow> j = i" using True by (metis div_mult_mod_eq)
  ultimately show ?thesis
    using True bit_upd [of "j mod 8" "i mod 8" v "cg ! (base + i div 8)"] by (simp add: put_bit_def)
qed (auto simp: put_bit_def)

lemma is_frag_free_eq: "0 \<le> i \<Longrightarrow> i < 2 ^ 40 \<Longrightarrow>
    is_frag_free cg i = (if 984 + nat i div 8 < length cg then Some (bit (cg ! (984 + nat i div 8)) (nat i mod 8)) else None)"
  using bit_index [of i 984] by (simp add: is_frag_free_def get_at_def)

lemma is_inode_used_eq: "0 \<le> i \<Longrightarrow> i < 2 ^ 40 \<Longrightarrow>
    is_inode_used cg i = (if 724 + nat i div 8 < length cg then Some (bit (cg ! (724 + nat i div 8)) (nat i mod 8)) else None)"
  using bit_index [of i 724] by (simp add: is_inode_used_def get_at_def)

lemma set_frag_state_eq: "0 \<le> i \<Longrightarrow> i < 2 ^ 40 \<Longrightarrow>
    set_frag_state cg i v = (if 984 + nat i div 8 < length cg then Some (put_bit cg 984 (nat i) v) else None)"
  using bit_index [of i 984] by (simp add: set_frag_state_def get_at_def Let_def put_bit_def)

lemma set_inode_state_eq: "0 \<le> i \<Longrightarrow> i < 2 ^ 40 \<Longrightarrow>
    set_inode_state cg i v = (if 724 + nat i div 8 < length cg then Some (put_bit cg 724 (nat i) v) else None)"
  using bit_index [of i 724] by (simp add: set_inode_state_def get_at_def Let_def put_bit_def)

lemma put_bit_length [simp]: "length (put_bit cg base i v) = length cg"
  by (simp add: put_bit_def)

lemma put_bit_frame: "k < base \<or> base + i div 8 < k \<Longrightarrow> put_bit cg base i v ! k = cg ! k"
  by (auto simp: put_bit_def)

lemma set_frag_state_length: "set_frag_state cg i v = Some cg' \<Longrightarrow> length cg' = length cg"
  by (auto simp: set_frag_state_def Let_def bind_eq_Some_conv)

lemma set_inode_state_length: "set_inode_state cg i v = Some cg' \<Longrightarrow> length cg' = length cg"
  by (auto simp: set_inode_state_def Let_def bind_eq_Some_conv)

interpretation fmap: bitmap is_frag_free set_frag_state 984 "bit_inside 984"
  by unfold_locales
    (auto simp: bit_inside_def is_frag_free_eq set_frag_state_eq put_bit_nth put_bit_frame eq_nat_nat_iff
      dest: set_frag_state_length)

interpretation imap: bitmap is_inode_used set_inode_state 724 "bit_inside 724"
  by unfold_locales
    (auto simp: bit_inside_def is_inode_used_eq set_inode_state_eq put_bit_nth put_bit_frame eq_nat_nat_iff
      dest: set_inode_state_length)

end
