(* ===== verification/Alloc.thy ===== *)
theory Alloc
  imports Cylinder_Group
begin

text \<open>
  \<^verbatim>\<open>crates/svr4-ufs/src/alloc.rs\<close>: allocation and release of inodes, blocks and fragment runs. The
  state is the image; every operation returns \<^verbatim>\<open>Result\<close> and may have mutated the image before an
  \<^verbatim>\<open>Err\<close>.
\<close>

section \<open>Inodes\<close>

text \<open>The search of the inode bitmap from the rotor on.\<close>

definition find_free_inode :: "superblock \<Rightarrow> bytes \<Rightarrow> int option option" where
  "find_free_inode s cg_bytes =
     do { irotor \<leftarrow> u32 cg_bytes UFS_CG_IROTOR_OFFSET;
          let start_inode = uint irotor smod ipg s in
          mfind (\<lambda>candidate. do { used \<leftarrow> is_inode_used cg_bytes candidate; Some (\<not> used) })
            (map (\<lambda>offset. i64 (start_inode + offset) smod ipg s) [0..ipg s - 1]) }"

definition choose_inode :: "superblock \<Rightarrow> bytes \<Rightarrow> int \<Rightarrow> int option \<Rightarrow> int option option" where
  "choose_inode s cg_bytes attempt preferred_local =
     do { preferred \<leftarrow>
            (case (if attempt = 0 then preferred_local else None) of
               None \<Rightarrow> Some None
             | Some pref \<Rightarrow> do { used \<leftarrow> is_inode_used cg_bytes pref;
                                Some (if used then None else Some pref) });
          (case preferred of None \<Rightarrow> find_free_inode s cg_bytes | Some i \<Rightarrow> Some (Some i)) }"

definition take_inode :: "ufs \<Rightarrow> int \<Rightarrow> int option \<Rightarrow> bool \<Rightarrow> int \<Rightarrow> (image, werror, int option) wm" where
  "take_inode u start_cg preferred_local directory attempt =
     (let s = sb u; cg = i64 (start_cg + attempt) smod ncg s in
      wbind (read_allocatable_cg_block u cg) (\<lambda>cg_bytes.
      wbind (wopt (u32 cg_bytes UFS_CG_MAGIC_OFFSET)) (\<lambda>magic.
      if magic \<noteq> UFS_CG_MAGIC then wreturn None else
      wbind (wopt (u32 cg_bytes UFS_CG_CS_NIFREE_OFFSET)) (\<lambda>nifree.
      if nifree = 0 then wreturn None else
      wbind (wopt (choose_inode s cg_bytes attempt preferred_local)) (\<lambda>chosen.
      case chosen of
        None \<Rightarrow> wreturn None
      | Some local_inode \<Rightarrow>
          wbind (wopt (do { c \<leftarrow> set_inode_state cg_bytes local_inode True;
                            c \<leftarrow> put_u32 c UFS_CG_IROTOR_OFFSET (of_int local_inode);
                            c \<leftarrow> adjust_cg_free_inodes c (- 1);
                            if directory then adjust_cg_directory_count c 1 else Some c })) (\<lambda>cg_bytes.
          wbind (wmodify (\<lambda>img. write_cg_block img u cg cg_bytes)) (\<lambda>_.
          wbind (wmodify (\<lambda>img. adjust_superblock_free_inodes img u (- 1))) (\<lambda>_.
          wbind (if directory then wmodify (\<lambda>img. adjust_superblock_directory_count img u 1)
                 else wreturn ()) (\<lambda>_.
          wreturn (Some (i64 (i64 (cg * ipg s) + local_inode))))))))))))"

definition allocate_inode :: "ufs \<Rightarrow> int option \<Rightarrow> bool \<Rightarrow> (image, werror, int) wm" where
  "allocate_inode u preferred_inode directory =
     (let s = sb u;
          start_cg = (case preferred_inode of None \<Rightarrow> 0 | Some i \<Rightarrow> itog s i);
          preferred_local = map_option (\<lambda>i. i smod ipg s) preferred_inode
      in wfirst [0..ncg s - 1] (take_inode u start_cg preferred_local directory) NoFreeInodes)"

definition free_inode :: "ufs \<Rightarrow> int \<Rightarrow> bool \<Rightarrow> (image, werror, unit) wm" where
  "free_inode u inode_number directory =
     (let s = sb u; cg = itog s inode_number; local_inode = inode_number smod ipg s in
      wbind (wread (\<lambda>img. read_cg_block img u cg)) (\<lambda>cg_bytes.
      wbind (wopt (u32 cg_bytes UFS_CG_MAGIC_OFFSET)) (\<lambda>magic.
      if magic \<noteq> UFS_CG_MAGIC then wfail (InvalidCgFreeingInode cg inode_number) else
      wbind (wopt (is_inode_used cg_bytes local_inode)) (\<lambda>used.
      if \<not> used then wfail (InodeAlreadyFree inode_number) else
      wbind (wopt (do { c \<leftarrow> set_inode_state cg_bytes local_inode False;
                        c \<leftarrow> adjust_cg_free_inodes c 1;
                        if directory then adjust_cg_directory_count c (- 1) else Some c })) (\<lambda>cg_bytes.
      wbind (wmodify (\<lambda>img. write_cg_block img u cg cg_bytes)) (\<lambda>_.
      wbind (wmodify (\<lambda>img. adjust_superblock_free_inodes img u 1)) (\<lambda>_.
      if directory then wmodify (\<lambda>img. adjust_superblock_directory_count img u (- 1))
      else wreturn ())))))))"

section \<open>Blocks and fragments\<close>

text \<open>
  The \<^verbatim>\<open>while\<close> loop over the block positions of a group. With a zero fragment count the loop would
  not advance; it then returns at its first test (no fragment to check), so the value \<open>None\<close> below is
  reached by no run of the source that returns.
\<close>

function find_free_block :: "bytes \<Rightarrow> int \<Rightarrow> int \<Rightarrow> int \<Rightarrow> int option option" where
  "find_free_block cg_bytes frags_per_block limit frag_index =
     (if frag_index < limit then
        do { all_free \<leftarrow> all_frags_free cg_bytes frag_index frags_per_block;
             if all_free then Some (Some frag_index)
             else if frags_per_block \<le> 0 then None
             else find_free_block cg_bytes frags_per_block limit (frag_index + frags_per_block) }
      else Some None)"
  by pat_completeness auto
termination
  by (relation "measure (\<lambda>(c, f, l, i). nat (l - i))") auto

declare find_free_block.simps [simp del]

text \<open>
  One iteration of the loop over the groups, which \<^verbatim>\<open>allocate_block\<close> and \<^verbatim>\<open>allocate_fragments\<close> share but
  for the number of fragments marked and of bytes zeroed.
\<close>

definition take_frags :: "ufs \<Rightarrow> int \<Rightarrow> int \<Rightarrow> nat \<Rightarrow> int \<Rightarrow> (image, werror, int option) wm" where
  "take_frags u start_cg nfrags nbytes attempt =
     (let s = sb u; cg = i64 (start_cg + attempt) smod ncg s; frags_per_block = frag s in
      wbind (read_allocatable_cg_block u cg) (\<lambda>cg_bytes.
      wbind (wopt (u32 cg_bytes UFS_CG_MAGIC_OFFSET)) (\<lambda>magic.
      if magic \<noteq> UFS_CG_MAGIC then wreturn None else
      wbind (wopt (u32 cg_bytes UFS_CG_NDBLK_OFFSET)) (\<lambda>cg_ndblk.
      wbind (wopt (find_free_block cg_bytes frags_per_block (uint cg_ndblk - frags_per_block + 1)
                     (cgdmin s cg smod fpg s))) (\<lambda>found.
      case found of
        None \<Rightarrow> wreturn None
      | Some frag_index \<Rightarrow>
          wbind (wopt (do { c \<leftarrow> set_frags cg_bytes frag_index nfrags False;
                            adjust_cg_free_blocks c (- 1) })) (\<lambda>cg_bytes.
          wbind (wmodify (\<lambda>img. write_cg_block img u cg cg_bytes)) (\<lambda>_.
          wbind (wmodify (\<lambda>img. adjust_superblock_free_blocks img u (- 1))) (\<lambda>_.
          let fs_block = i64 (cgbase s cg + frag_index);
              block_offset = usize (data_block_offset s (start_offset u) fs_block) in
          wbind (wmodify (\<lambda>img. fill_at img block_offset (block_offset + nbytes) 0)) (\<lambda>_.
          wreturn (Some fs_block))))))))))"

definition allocate_block :: "ufs \<Rightarrow> int \<Rightarrow> (image, werror, int) wm" where
  "allocate_block u inode_number =
     (let s = sb u in
      wfirst [0..ncg s - 1] (take_frags u (itog s inode_number) (frag s) (usize (bsize s))) NoFreeBlocks)"

definition allocate_fragments :: "ufs \<Rightarrow> int \<Rightarrow> int \<Rightarrow> (image, werror, int) wm" where
  "allocate_fragments u inode_number allocation_bytes =
     (let s = sb u; frags_needed = allocation_bytes sdiv fsize s in
      if frags_needed \<le> 0 \<or> allocation_bytes \<ge> bsize s
      then wfail (InvalidFragmentRequest allocation_bytes)
      else wfirst [0..ncg s - 1]
             (take_frags u (itog s inode_number) frags_needed (usize allocation_bytes)) NoFreeFragments)"

definition allocate_allocation :: "ufs \<Rightarrow> int \<Rightarrow> int \<Rightarrow> (image, werror, int) wm" where
  "allocate_allocation u inode_number allocation_bytes =
     (if allocation_bytes \<le> 0 then wfail AllocationNotPositive
      else if allocation_bytes = bsize (sb u) then allocate_block u inode_number
      else allocate_fragments u inode_number allocation_bytes)"

definition free_block :: "ufs \<Rightarrow> int \<Rightarrow> (image, werror, unit) wm" where
  "free_block u fs_block =
     (let s = sb u; cg = fs_block sdiv fpg s; frag_index = fs_block smod fpg s in
      wbind (wread (\<lambda>img. read_cg_block img u cg)) (\<lambda>cg_bytes.
      wbind (wopt (u32 cg_bytes UFS_CG_MAGIC_OFFSET)) (\<lambda>magic.
      if magic \<noteq> UFS_CG_MAGIC then wfail (InvalidCgFreeingBlock cg fs_block) else
      wbind (wopt (do { c \<leftarrow> set_frags cg_bytes frag_index (frag s) True;
                        adjust_cg_free_blocks c 1 })) (\<lambda>cg_bytes.
      wbind (wmodify (\<lambda>img. write_cg_block img u cg cg_bytes)) (\<lambda>_.
      wmodify (\<lambda>img. adjust_superblock_free_blocks img u 1))))))"

definition free_allocation :: "ufs \<Rightarrow> int \<Rightarrow> int \<Rightarrow> (image, werror, unit) wm" where
  "free_allocation u fs_block allocation_bytes =
     (if allocation_bytes \<le> 0 then wreturn () else
      let s = sb u in
      if allocation_bytes = bsize s then free_block u fs_block else
      let frags_to_free = allocation_bytes sdiv fsize s; frags_per_block = frag s;
          cg = fs_block sdiv fpg s; frag_index = fs_block smod fpg s in
      wbind (wread (\<lambda>img. read_cg_block img u cg)) (\<lambda>cg_bytes.
      wbind (wopt (u32 cg_bytes UFS_CG_MAGIC_OFFSET)) (\<lambda>magic.
      if magic \<noteq> UFS_CG_MAGIC then wfail (InvalidCgFreeingAllocation cg fs_block) else
      wbind (wopt (set_frags cg_bytes frag_index frags_to_free True)) (\<lambda>cg_bytes.
      wbind (wopt (if frags_per_block = 0 then None else
                   all_frags_free cg_bytes (i64 (frag_index - frag_index smod frags_per_block)) frags_per_block)) (\<lambda>whole.
      wbind (if whole then
               wbind (wopt (adjust_cg_free_blocks cg_bytes 1)) (\<lambda>c.
               wbind (wmodify (\<lambda>img. adjust_superblock_free_blocks img u 1)) (\<lambda>_. wreturn c))
             else wreturn cg_bytes) (\<lambda>cg_bytes.
      wmodify (\<lambda>img. write_cg_block img u cg cg_bytes)))))))"

end
