(* ===== verification/Inode.thy ===== *)
theory Inode
  imports Superblock
begin

text \<open>
  \<^verbatim>\<open>crates/svr4-ufs/src/inode.rs\<close>: decoding of on-disk inodes and resolution of their block lists
  through the three levels of indirect blocks. A reader returns \<open>None\<close> for a panic (a pointer outside
  the image); the \<^verbatim>\<open>Option\<close> of the source is nested inside.
\<close>

record inode =
  di_mode :: u32
  di_nlink :: u16
  di_uid :: u32
  di_gid :: u32
  di_atime :: u32
  di_mtime :: u32
  di_ctime :: u32
  di_size :: u64
  direct_blocks :: "u32 list"
  indirect_blocks :: "u32 list"
  di_blocks :: u32

definition file_type :: "inode \<Rightarrow> u32" where
  "file_type i = di_mode i AND UFS_IFMT"

definition is_directory :: "inode \<Rightarrow> bool" where
  "is_directory i \<longleftrightarrow> file_type i = UFS_IFDIR"

definition is_symlink :: "inode \<Rightarrow> bool" where
  "is_symlink i \<longleftrightarrow> file_type i = UFS_IFLNK"

definition is_regular :: "inode \<Rightarrow> bool" where
  "is_regular i \<longleftrightarrow> file_type i = UFS_IFREG"

section \<open>Decoding\<close>

definition decode_inode :: "bytes \<Rightarrow> inode option" where
  "decode_inode raw =
     do { direct \<leftarrow> mapM (\<lambda>index. u32 raw (UFS_DI_DB_OFFSET + index * 4)) [0..<UFS_NDADDR];
          indirect \<leftarrow> mapM (\<lambda>index. u32 raw (UFS_DI_IB_OFFSET + index * 4)) [0..<UFS_NIADDR];
          mode \<leftarrow> u32 raw UFS_DI_MODE_OFFSET;
          nlink \<leftarrow> u16 raw UFS_DI_NLINK_OFFSET;
          uid \<leftarrow> u32 raw UFS_DI_UID_OFFSET;
          gid \<leftarrow> u32 raw UFS_DI_GID_OFFSET;
          atime \<leftarrow> u32 raw UFS_DI_ATIME_OFFSET;
          mtime \<leftarrow> u32 raw UFS_DI_MTIME_OFFSET;
          ctime \<leftarrow> u32 raw UFS_DI_CTIME_OFFSET;
          sz \<leftarrow> u64 raw UFS_DI_SIZE_OFFSET;
          blocks \<leftarrow> u32 raw UFS_DI_BLOCKS_OFFSET;
          Some \<lparr> di_mode = mode, di_nlink = nlink, di_uid = uid, di_gid = gid, di_atime = atime,
            di_mtime = mtime, di_ctime = ctime, di_size = sz, direct_blocks = direct,
            indirect_blocks = indirect, di_blocks = blocks \<rparr> }"

definition read_inode :: "image \<Rightarrow> ufs \<Rightarrow> int \<Rightarrow> inode option option" where
  "read_inode img u inode_number =
     (let inode_offset = inode_byte_offset (sb u) (start_offset u) inode_number in
      if inode_offset < i64 (int (start_offset u))
         \<or> i64 (inode_offset + int UFS_DINODE_SIZE) > int (length img)
      then Some None
      else let base = usize inode_offset in
           do { raw \<leftarrow> subslice img base (base + UFS_DINODE_SIZE);
                i \<leftarrow> decode_inode raw;
                Some (Some i) })"

section \<open>Indirect blocks\<close>

definition read_pointer_block :: "image \<Rightarrow> ufs \<Rightarrow> u32 \<Rightarrow> u32 list option" where
  "read_pointer_block img u fs_block =
     (let block_offset = usize (data_block_offset (sb u) (start_offset u) (uint fs_block));
          block_size = usize (bsize (sb u))
      in do { raw \<leftarrow> subslice img block_offset (block_offset + block_size);
              mapM (\<lambda>index. u32 raw (index * 4)) [0..<usize (nindir (sb u))] })"

text \<open>The loop over the pointers of one block; \<open>child\<close> is what a non-zero pointer contributes.\<close>

primrec collect_loop ::
    "(u32 \<Rightarrow> nat option \<Rightarrow> u32 list option) \<Rightarrow> nat option \<Rightarrow> u32 list \<Rightarrow> u32 list \<Rightarrow> u32 list option" where
  "collect_loop child max_blocks blocks [] = Some blocks"
| "collect_loop child max_blocks blocks (pointer # pointers) =
     (if pointer = 0 then collect_loop child max_blocks blocks pointers else
      do { more \<leftarrow> child pointer (map_option (\<lambda>m. m - length blocks) max_blocks);
           let blocks = blocks @ more in
           (case max_blocks of
              Some m \<Rightarrow> if length blocks \<ge> m then Some (take m blocks)
                        else collect_loop child max_blocks blocks pointers
            | None \<Rightarrow> collect_loop child max_blocks blocks pointers) })"

primrec collect_indirect_data_blocks ::
    "image \<Rightarrow> ufs \<Rightarrow> nat \<Rightarrow> u32 \<Rightarrow> nat option \<Rightarrow> u32 list option" where
  "collect_indirect_data_blocks img u 0 = (\<lambda>fs_block max_blocks. Some [])"
| "collect_indirect_data_blocks img u (Suc levels) = (\<lambda>fs_block max_blocks.
     if fs_block = 0 \<or> max_blocks = Some 0 then Some [] else
     do { pointers \<leftarrow> read_pointer_block img u fs_block;
          collect_loop (if levels = 0 then (\<lambda>pointer m. Some [pointer])
                        else collect_indirect_data_blocks img u levels)
            max_blocks [] pointers })"

primrec collect_indirect_pointer_blocks :: "image \<Rightarrow> ufs \<Rightarrow> nat \<Rightarrow> u32 \<Rightarrow> u32 list option" where
  "collect_indirect_pointer_blocks img u 0 = (\<lambda>fs_block. Some [])"
| "collect_indirect_pointer_blocks img u (Suc levels) = (\<lambda>fs_block.
     if fs_block = 0 then Some []
     else if levels = 0 then Some [fs_block]
     else do { children \<leftarrow> read_pointer_block img u fs_block;
               foldM (\<lambda>blocks child. if child = 0 then Some blocks else
                        do { more \<leftarrow> collect_indirect_pointer_blocks img u levels child;
                             Some (blocks @ more) }) [fs_block] children })"

definition inode_pointer_blocks :: "image \<Rightarrow> ufs \<Rightarrow> inode \<Rightarrow> u32 list option" where
  "inode_pointer_blocks img u i =
     foldM (\<lambda>blocks (level_index, root_block).
        do { more \<leftarrow> collect_indirect_pointer_blocks img u (level_index + 1) root_block;
             Some (blocks @ more) }) [] (enumerate 0 (indirect_blocks i))"

text \<open>The loops of \<open>inode_data_blocks\<close>; \<open>Inl\<close> is an early return.\<close>

primrec direct_loop :: "nat \<Rightarrow> u32 list \<Rightarrow> u32 list \<Rightarrow> u32 list + u32 list" where
  "direct_loop needed blocks [] = Inr blocks"
| "direct_loop needed blocks (fs_block # rest) =
     (if fs_block = 0 then direct_loop needed blocks rest
      else let blocks = blocks @ [fs_block] in
           if length blocks \<ge> needed then Inl (take needed blocks)
           else direct_loop needed blocks rest)"

primrec indirect_loop :: "image \<Rightarrow> ufs \<Rightarrow> nat \<Rightarrow> u32 list \<Rightarrow> (nat \<times> u32) list \<Rightarrow> u32 list option" where
  "indirect_loop img u needed blocks [] = Some (take needed blocks)"
| "indirect_loop img u needed blocks (r # rest) =
     (let (level_index, root_block) = r; remaining = needed - length blocks in
      do { more \<leftarrow> collect_indirect_data_blocks img u (level_index + 1) root_block (Some remaining);
           let blocks = blocks @ more in
           if length blocks \<ge> needed then Some (take needed blocks)
           else indirect_loop img u needed blocks rest })"

definition needed_blocks :: "superblock \<Rightarrow> u64 \<Rightarrow> nat" where
  "needed_blocks s sz =
     (let block_size = nat (bsize s) in if sz = 0 then 0 else (unat sz + (block_size - 1)) div block_size)"

definition inode_data_blocks :: "image \<Rightarrow> ufs \<Rightarrow> inode \<Rightarrow> u32 list option" where
  "inode_data_blocks img u i =
     (let needed = needed_blocks (sb u) (di_size i) in
      case direct_loop needed [] (direct_blocks i) of
        Inl blocks \<Rightarrow> Some blocks
      | Inr blocks \<Rightarrow> indirect_loop img u needed blocks (enumerate 0 (indirect_blocks i)))"

end
