(* ===== verification/Summary.thy ===== *)
theory Summary
  imports Alloc Inode
begin

text \<open>
  \<^verbatim>\<open>crates/svr4-ufs/src/alloc.rs\<close>, last part: the recomputation of every cylinder-group header, of the
  summary area and of the superblock totals from the bitmaps and the inodes.
\<close>

section \<open>Rotational positions and fragment runs\<close>

definition cbtocylno :: "ufs \<Rightarrow> int \<Rightarrow> int" where
  "cbtocylno u frag_base =
     (if spc (sb u) \<le> 0 \<or> nspf (sb u) \<le> 0 then 0 else i64 (frag_base * nspf (sb u)) sdiv spc (sb u))"

definition cbtorpos :: "ufs \<Rightarrow> int \<Rightarrow> int" where
  "cbtorpos u frag_base =
     (if spc (sb u) \<le> 0 \<or> nsect (sb u) \<le> 0 \<or> nspf (sb u) \<le> 0 then 0
      else i64 (i64 (frag_base * nspf (sb u)) smod spc (sb u) smod nsect (sb u) * int NRPOS) sdiv nsect (sb u))"

primrec fragment_runs :: "nat \<Rightarrow> int list \<Rightarrow> bool list \<Rightarrow> int list" where
  "fragment_runs run_length frsum [] = frsum"
| "fragment_runs run_length frsum (free # rest) =
     (if free then fragment_runs (run_length + 1) frsum rest
      else fragment_runs 0
             (if run_length > 0 \<and> run_length < length frsum
              then frsum[run_length := frsum ! run_length + 1] else frsum) rest)"

definition account_fragment_run :: "bool list \<Rightarrow> int list \<Rightarrow> int list" where
  "account_fragment_run free_flags frsum = fragment_runs 0 frsum (free_flags @ [False])"

definition csum_offset :: "ufs \<Rightarrow> int \<Rightarrow> nat option" where
  "csum_offset u cg =
     (let s = sb u in
      if csaddr s \<le> 0 \<or> cssize s < i64 (i64 (cg + 1) * int UFS_CSUM_SIZE) then None
      else Some (usize (i64 (i64 (i64 (int (start_offset u)) + fsbtobytes s (csaddr s))
                             + i64 (cg * int UFS_CSUM_SIZE)))))"

section \<open>Counting one group\<close>

definition count_inodes :: "image \<Rightarrow> ufs \<Rightarrow> int \<Rightarrow> bytes \<Rightarrow> (int \<times> int) option" where
  "count_inodes img u cg cg_bytes =
     (let s = sb u in
      foldM (\<lambda>(ndir, nifree) inode_index.
        if cg = 0 \<and> inode_index < 2 then Some (ndir, nifree) else
        do { used \<leftarrow> is_inode_used cg_bytes inode_index;
             if \<not> used then Some (ndir, nifree) else
             do { i \<leftarrow> read_inode img u (i64 (i64 (cg * ipg s) + inode_index));
                  Some (ndir + (case i of Some d \<Rightarrow> if is_directory d then 1 else 0 | None \<Rightarrow> 0), nifree - 1) } })
        (0, if cg = 0 then ipg s - 2 else ipg s) [0..ipg s - 1])"

record block_counts =
  bc_nbfree :: int
  bc_nffree :: int
  bc_frsum :: "int list"
  bc_btot :: "int list"
  bc_bpos :: "int list"

definition count_ones :: "u64 \<Rightarrow> int" where
  "count_ones w = int (length (filter (bit w) [0..<64]))"

definition count_block :: "ufs \<Rightarrow> bytes \<Rightarrow> int \<Rightarrow> block_counts \<Rightarrow> block_counts option" where
  "count_block u cg_bytes frag_base c =
     (let frags_per_block = frag (sb u) in
      do { free_bits \<leftarrow> frag_block_free_bits cg_bytes frag_base frags_per_block;
           let free_fragments = count_ones free_bits in
           Some (if free_fragments = frags_per_block then
                   let c = c \<lparr> bc_nbfree := bc_nbfree c + 1 \<rparr>;
                       cyl = cbtocylno u frag_base; pos = cbtorpos u frag_base in
                   if 0 \<le> cyl \<and> cyl < int MAXCPG \<and> 0 \<le> pos \<and> pos < int NRPOS then
                     let k = nat cyl * NRPOS + nat pos in
                     c \<lparr> bc_btot := (bc_btot c)[nat cyl := bc_btot c ! nat cyl + 1],
                        bc_bpos := (bc_bpos c)[k := bc_bpos c ! k + 1] \<rparr>
                   else c
                 else if free_fragments > 0 then
                   c \<lparr> bc_nffree := bc_nffree c + free_fragments,
                      bc_frsum := account_fragment_run
                        (map (\<lambda>off. bit free_bits (nat (off mod 64))) [0..frags_per_block - 1]) (bc_frsum c) \<rparr>
                 else c) })"

text \<open>The loop over the whole blocks; with a zero fragment count it does not return. It ends with the first uncounted fragment.\<close>

function count_blocks :: "ufs \<Rightarrow> bytes \<Rightarrow> int \<Rightarrow> int \<Rightarrow> block_counts \<Rightarrow> (int \<times> block_counts) option" where
  "count_blocks u cg_bytes limit frag_base c =
     (if frag_base < limit then
        (if frag (sb u) \<le> 0 then None else
         do { c \<leftarrow> count_block u cg_bytes frag_base c;
              count_blocks u cg_bytes limit (frag_base + frag (sb u)) c })
      else Some (frag_base, c))"
  by pat_completeness auto
termination
  by (relation "measure (\<lambda>(u, b, l, i, c). nat (l - i))") auto

declare count_blocks.simps [simp del]

definition count_fragments :: "ufs \<Rightarrow> bytes \<Rightarrow> int \<Rightarrow> block_counts option" where
  "count_fragments u cg_bytes cg_ndblk =
     do { (frag_base, c) \<leftarrow> count_blocks u cg_bytes (cg_ndblk - frag (sb u) + 1) 0
            \<lparr> bc_nbfree = 0, bc_nffree = 0, bc_frsum = replicate MAXFRAG 0, bc_btot = replicate MAXCPG 0,
              bc_bpos = replicate (MAXCPG * NRPOS) 0 \<rparr>;
          if frag_base < cg_ndblk then
            do { flags \<leftarrow> mapM (is_frag_free cg_bytes) [frag_base..cg_ndblk - 1];
                 let trailing_free = int (length (filter (\<lambda>f. f) flags)) in
                 Some (if trailing_free > 0 then
                         c \<lparr> bc_nffree := bc_nffree c + trailing_free,
                            bc_frsum := account_fragment_run flags (bc_frsum c) \<rparr>
                       else c) }
          else Some c }"

section \<open>The canonical header\<close>

type_synonym counts = "int \<times> int \<times> int \<times> int" \<comment> \<open>ndir, nbfree, nifree, nffree\<close>

definition put_counts :: "bytes \<Rightarrow> counts \<Rightarrow> bytes option" where
  "put_counts cg_bytes counts =
     (let (ndir, nbfree, nifree, nffree) = counts in
      do { c \<leftarrow> put_u32 cg_bytes UFS_CG_CS_NDIR_OFFSET (of_int ndir);
           c \<leftarrow> put_u32 c UFS_CG_CS_NBFREE_OFFSET (of_int nbfree);
           c \<leftarrow> put_u32 c UFS_CG_CS_NIFREE_OFFSET (of_int nifree);
           put_u32 c UFS_CG_CS_NFFREE_OFFSET (of_int nffree) })"

definition keep_rotor :: "bytes \<Rightarrow> nat \<Rightarrow> int \<Rightarrow> bytes \<Rightarrow> bytes option" where
  "keep_rotor cg_bytes offset limit expected =
     do { r \<leftarrow> u32 cg_bytes offset;
          put_u32 expected offset (of_int (if uint r < limit then uint r else 0)) }"

definition expected_cg_header :: "image \<Rightarrow> ufs \<Rightarrow> int \<Rightarrow> bytes \<Rightarrow> (bytes \<times> counts) option" where
  "expected_cg_header img u cg cg_bytes =
     (let s = sb u in
      do { nd \<leftarrow> u32 cg_bytes UFS_CG_NDBLK_OFFSET;
           let cg_ndblk = uint nd in do {
           current_time \<leftarrow> u32 cg_bytes UFS_CG_TIME_OFFSET;
           e \<leftarrow> put_u32 (replicate (usize (bsize s)) 0) UFS_CG_TIME_OFFSET current_time;
           e \<leftarrow> put_u32 e UFS_CG_CGX_OFFSET (of_int cg);
           e \<leftarrow> put_u16 e UFS_CG_NCYL_OFFSET (of_int (cg_ncyl_field s cg));
           e \<leftarrow> put_u16 e UFS_CG_NIBLK_OFFSET (of_int (ipg s));
           e \<leftarrow> put_u32 e UFS_CG_NDBLK_OFFSET (of_int cg_ndblk);
           (ndir, nifree) \<leftarrow> count_inodes img u cg cg_bytes;
           c \<leftarrow> count_fragments u cg_bytes cg_ndblk;
           e \<leftarrow> put_counts e (ndir, bc_nbfree c, nifree, bc_nffree c);
           e \<leftarrow> keep_rotor cg_bytes UFS_CG_ROTOR_OFFSET cg_ndblk e;
           e \<leftarrow> keep_rotor cg_bytes UFS_CG_FROTOR_OFFSET cg_ndblk e;
           e \<leftarrow> keep_rotor cg_bytes UFS_CG_IROTOR_OFFSET (ipg s) e;
           e \<leftarrow> foldM (\<lambda>e (index, value). put_u32 e (UFS_CG_FRSUM_OFFSET + index * 4) (of_int value))
                  e (enumerate 0 (bc_frsum c));
           e \<leftarrow> foldM (\<lambda>e (index, value). put_u32 e (UFS_CG_BTOT_OFFSET + index * 4) (of_int value))
                  e (enumerate 0 (bc_btot c));
           e \<leftarrow> foldM (\<lambda>e (index, value). put_u16 e (UFS_CG_B_OFFSET + index * 2) (of_int value))
                  e (enumerate 0 (bc_bpos c));
           Some (e, (ndir, bc_nbfree c, nifree, bc_nffree c)) } })"

section \<open>Recomputation\<close>

definition put_csum :: "nat \<Rightarrow> counts \<Rightarrow> image \<Rightarrow> image option" where
  "put_csum offset counts img =
     (let (ndir, nbfree, nifree, nffree) = counts in
      do { img \<leftarrow> put_u32 img offset (of_int ndir);
           img \<leftarrow> put_u32 img (uadd offset 4) (of_int nbfree);
           img \<leftarrow> put_u32 img (uadd offset 8) (of_int nifree);
           put_u32 img (uadd offset 12) (of_int nffree) })"

definition recompute_cg :: "ufs \<Rightarrow> int \<Rightarrow> (image, werror, counts) wm" where
  "recompute_cg u cg =
     wbind (wread (\<lambda>img. read_cg_block img u cg)) (\<lambda>raw.
     wbind (wopt (u32 raw UFS_CG_MAGIC_OFFSET)) (\<lambda>magic.
     wbind (if magic \<noteq> UFS_CG_MAGIC then
              (if \<not> looks_like_pristine_cg raw then wfail (InvalidCgNormalizing cg)
               else initialize_pristine_cg u cg)
            else wreturn raw) (\<lambda>cg_bytes.
     wbind (wread (\<lambda>img. expected_cg_header img u cg cg_bytes)) (\<lambda>(expected, counts).
     wbind (wopt (do { header \<leftarrow> subslice expected 0 UFS_CG_IUSED_OFFSET;
                       c \<leftarrow> copy_at cg_bytes 0 header;
                       put_counts c counts })) (\<lambda>cg_bytes.
     wbind (wmodify (\<lambda>img. write_cg_block img u cg cg_bytes)) (\<lambda>_.
     wbind (case csum_offset u cg of Some offset \<Rightarrow> wmodify (put_csum offset counts) | None \<Rightarrow> wreturn ()) (\<lambda>_.
     wreturn counts)))))))"

definition add_counts :: "counts \<Rightarrow> counts \<Rightarrow> counts" where
  "add_counts a b = (case (a, b) of ((a1, a2, a3, a4), (b1, b2, b3, b4)) \<Rightarrow> (a1 + b1, a2 + b2, a3 + b3, a4 + b4))"

definition recompute_summary_counts :: "ufs \<Rightarrow> (image, werror, unit) wm" where
  "recompute_summary_counts u =
     wbind (wmapM (recompute_cg u) [0..ncg (sb u) - 1]) (\<lambda>cs.
     let (ndir, nbfree, nifree, nffree) = foldl add_counts (0, 0, 0, 0) cs; so = super_offset u in
     wmodify (\<lambda>img.
       do { img \<leftarrow> put_u32 img (so + UFS_FS_CSTOTAL_NDIR_OFFSET) (of_int ndir);
            img \<leftarrow> put_u32 img (so + UFS_FS_CSTOTAL_NBFREE_OFFSET) (of_int nbfree);
            img \<leftarrow> put_u32 img (so + UFS_FS_CSTOTAL_NIFREE_OFFSET) (of_int nifree);
            put_u32 img (so + UFS_FS_CSTOTAL_NFFREE_OFFSET) (of_int nffree) }))"

end
