(* ===== verification/Dir.thy ===== *)
theory Dir
  imports Superblock
begin

text \<open>
  \<^verbatim>\<open>crates/svr4-ufs/src/dir.rs\<close>: decoding of directory records. A record is a header (inode, record
  length, name length) and a name; a malformed one ends the scan of its 512-byte block.
\<close>

record dir_entry_header =
  h_inode :: u32
  h_record_length :: u16
  h_name_length :: u16

record dir_entry =
  e_inode :: u32
  e_record_length :: u16
  e_name_length :: u16
  e_name :: rstr
  e_offset :: nat

definition decode_directory_header :: "bytes \<Rightarrow> nat \<Rightarrow> nat \<Rightarrow> dir_entry_header option option" where
  "decode_directory_header bs offset max_length =
     (if offset + UFS_DIRENT_HEADER_SIZE > max_length then Some None else
      do { ino \<leftarrow> u32 bs offset;
           record_length \<leftarrow> u16 bs (offset + UFS_DIRENT_RECLEN_OFFSET);
           name_length \<leftarrow> u16 bs (offset + UFS_DIRENT_NAMLEN_OFFSET);
           Some (if record_length = 0 \<or> offset + unat record_length > max_length then None
                 else if name_length > 255 \<or> offset + UFS_DIRENT_NAME_OFFSET + unat name_length > max_length
                 then None
                 else Some \<lparr> h_inode = ino, h_record_length = record_length, h_name_length = name_length \<rparr>) })"

text \<open>ASCII bytes as they are, any other byte as the UTF-8 encoding of U+FFFD.\<close>

definition decode_ascii_replace :: "bytes \<Rightarrow> rstr" where
  "decode_ascii_replace raw = concat (map (\<lambda>b. if b < 0x80 then [b] else [0xEF, 0xBF, 0xBD]) raw)"

definition decode_directory_entry :: "bytes \<Rightarrow> nat \<Rightarrow> nat \<Rightarrow> dir_entry option option" where
  "decode_directory_entry bs offset max_length =
     do { header \<leftarrow> decode_directory_header bs offset max_length;
          (case header of
             None \<Rightarrow> Some None
           | Some h \<Rightarrow>
               let name_start = offset + UFS_DIRENT_NAME_OFFSET in
               do { raw \<leftarrow> subslice bs name_start (name_start + unat (h_name_length h));
                    Some (Some \<lparr> e_inode = h_inode h, e_record_length = h_record_length h,
                      e_name_length = h_name_length h, e_name = decode_ascii_replace raw,
                      e_offset = offset \<rparr>) }) }"

lemma decode_header_length:
  "decode_directory_header bs offset m = Some (Some h) \<Longrightarrow>
     0 < unat (h_record_length h) \<and> offset + unat (h_record_length h) \<le> m
   \<and> unat (h_name_length h) \<le> 255 \<and> offset + 8 + unat (h_name_length h) \<le> m \<and> offset + 8 \<le> m"
  by (auto simp: decode_directory_header_def bind_eq_Some_conv word_le_nat_alt word_less_nat_alt
      unat_gt_0 split: if_splits)

lemma decode_entry_length:
  "decode_directory_entry bs offset m = Some (Some e) \<Longrightarrow>
     0 < unat (e_record_length e) \<and> offset + unat (e_record_length e) \<le> m \<and> e_offset e = offset"
  by (auto simp: decode_directory_entry_def bind_eq_Some_conv Let_def dest!: decode_header_length split: option.splits)

function records_from :: "bytes \<Rightarrow> nat \<Rightarrow> nat \<Rightarrow> dir_entry list option" where
  "records_from bs max_length offset =
     (if offset + UFS_DIRENT_HEADER_SIZE \<le> max_length then
        (case decode_directory_entry bs offset max_length of
           None \<Rightarrow> None
         | Some None \<Rightarrow> Some []
         | Some (Some entry) \<Rightarrow>
             do { rest \<leftarrow> records_from bs max_length (offset + unat (e_record_length entry));
                  Some (entry # rest) })
      else Some [])"
  by pat_completeness auto
termination
  by (relation "measure (\<lambda>(bs, m, off). m - off)") (auto dest: decode_entry_length)

declare records_from.simps [simp del]

definition iter_directory_records :: "bytes \<Rightarrow> nat \<Rightarrow> dir_entry list option" where
  "iter_directory_records bs sz = records_from bs (min (length bs) sz) 0"

end
