(* ===== verification/Reader.thy ===== *)
theory Reader
  imports Inode Dir "HOL-Library.List_Lexorder"
begin

text \<open>
  \<^verbatim>\<open>crates/svr4-ufs/src/reader.rs\<close>: file reads, directory listing, name lookup and path resolution.
\<close>

section \<open>File contents\<close>

definition read_data_range :: "image \<Rightarrow> ufs \<Rightarrow> u32 list \<Rightarrow> nat \<Rightarrow> nat \<Rightarrow> bytes option" where
  "read_data_range img u data_blocks offset sz =
     (if sz = 0 then Some [] else
      let block_size = usize (bsize (sb u));
          end_offset = uadd offset sz;
          start_block = offset div block_size;
          end_block = min (length data_blocks) ((end_offset + (block_size - 1)) div block_size)
      in do { parts \<leftarrow> mapM (\<lambda>block_index.
                let fs_block = data_blocks ! block_index;
                    logical_start = block_index * block_size;
                    block_inner_start = offset - logical_start;
                    block_inner_end = min block_size (end_offset - logical_start)
                in if block_inner_start \<ge> block_inner_end then Some [] else
                   let block_offset = usize (data_block_offset (sb u) (start_offset u) (uint fs_block))
                   in subslice img (uadd block_offset block_inner_start) (uadd block_offset block_inner_end))
                [start_block..<end_block];
              Some (concat parts) })"

definition read_inode_bytes :: "image \<Rightarrow> ufs \<Rightarrow> inode \<Rightarrow> bytes option" where
  "read_inode_bytes img u i =
     (let inode_size = unat (di_size i) in
      if inode_size = 0 then Some [] else
      do { blocks \<leftarrow> inode_data_blocks img u i;
           read_data_range img u blocks 0 inode_size })"

definition read_inode_range :: "image \<Rightarrow> ufs \<Rightarrow> inode \<Rightarrow> nat \<Rightarrow> nat \<Rightarrow> bytes option" where
  "read_inode_range img u i offset sz =
     (let inode_size = unat (di_size i) in
      if sz = 0 \<or> offset \<ge> inode_size then Some [] else
      let clamped_size = min sz (inode_size - offset) in
      if clamped_size = 0 then Some [] else
      do { blocks \<leftarrow> inode_data_blocks img u i;
           read_data_range img u blocks offset clamped_size })"

section \<open>Directories\<close>

text \<open>The offsets at which the \<^verbatim>\<open>while block_offset < size\<close> loops visit the 512-byte directory blocks.\<close>

definition dir_block_offsets :: "nat \<Rightarrow> nat list" where
  "dir_block_offsets sz = map (\<lambda>k. k * UFS_DIRBLKSIZ) [0..<(sz + (UFS_DIRBLKSIZ - 1)) div UFS_DIRBLKSIZ]"

definition iter_inode_directory_records :: "image \<Rightarrow> ufs \<Rightarrow> inode \<Rightarrow> dir_entry list option" where
  "iter_inode_directory_records img u i =
     (let sz = unat (di_size i) in
      do { directory_bytes \<leftarrow> read_inode_bytes img u i;
           parts \<leftarrow> mapM (\<lambda>block_offset.
             let block_span = min UFS_DIRBLKSIZ (sz - block_offset) in
             do { block_bytes \<leftarrow> subslice directory_bytes block_offset
                                   (min (block_offset + block_span) (length directory_bytes));
                  records \<leftarrow> iter_directory_records block_bytes block_span;
                  Some (map (\<lambda>r. r \<lparr> e_offset := e_offset r + block_offset \<rparr>) records) })
             (dir_block_offsets sz);
           Some (concat parts) })"

record dir_list_entry =
  l_name :: rstr
  l_inode :: u32
  l_size :: "u64 option"

definition iter_directory_entries :: "image \<Rightarrow> ufs \<Rightarrow> inode \<Rightarrow> dir_list_entry list option" where
  "iter_directory_entries img u i =
     do { records \<leftarrow> iter_inode_directory_records img u i;
          entries \<leftarrow> mapM (\<lambda>r. do { child \<leftarrow> read_inode img u (uint (e_inode r));
                                 Some \<lparr> l_name = e_name r, l_inode = e_inode r,
                                        l_size = map_option di_size child \<rparr> })
            (filter (\<lambda>r. e_inode r \<noteq> 0 \<and> e_name_length r > 0 \<and> e_name_length r \<le> 255) records);
          Some (sort_key l_name entries) }"

definition list_root :: "image \<Rightarrow> ufs \<Rightarrow> dir_list_entry list option" where
  "list_root img u =
     do { root \<leftarrow> read_inode img u (uint UFS_ROOT_INODE);
          (case root of Some r \<Rightarrow> iter_directory_entries img u r | None \<Rightarrow> Some []) }"

section \<open>Lookup\<close>

text \<open>The in-place scan of one directory block: the inode number of the first live record with that name.\<close>

function scan_block :: "bytes \<Rightarrow> nat \<Rightarrow> rstr \<Rightarrow> nat \<Rightarrow> u32 option option" where
  "scan_block block span name cursor =
     (if cursor + UFS_DIRENT_HEADER_SIZE \<le> span then
        (case decode_directory_header block cursor span of
           None \<Rightarrow> None
         | Some None \<Rightarrow> Some None
         | Some (Some header) \<Rightarrow>
             do { hit \<leftarrow> (if h_inode header \<noteq> 0 \<and> unat (h_name_length header) = length name then
                           let name_start = cursor + UFS_DIRENT_NAME_OFFSET in
                           do { raw \<leftarrow> subslice block name_start (name_start + length name); Some (raw = name) }
                         else Some False);
                  if hit then Some (Some (h_inode header))
                  else scan_block block span name (cursor + unat (h_record_length header)) })
      else Some None)"
  by pat_completeness auto
termination
  by (relation "measure (\<lambda>(b, s, n, c). s - c)") (auto dest: decode_header_length)

declare scan_block.simps [simp del]

primrec lookup_blocks ::
    "image \<Rightarrow> ufs \<Rightarrow> u32 list \<Rightarrow> nat \<Rightarrow> rstr \<Rightarrow> nat list \<Rightarrow> (u32 \<times> inode) option option" where
  "lookup_blocks img u data_blocks directory_size name [] = Some None"
| "lookup_blocks img u data_blocks directory_size name (block_offset # rest) =
     (let span = min UFS_DIRBLKSIZ (directory_size - block_offset);
          block_size = usize (bsize (sb u));
          logical_block = block_offset div block_size in
      if logical_block \<ge> length data_blocks then Some None else
      let fs_block = data_blocks ! logical_block;
          backing = uadd (usize (data_block_offset (sb u) (start_offset u) (uint fs_block)))
                      (block_offset mod block_size) in
      do { block \<leftarrow> subslice img backing (backing + span);
           found \<leftarrow> scan_block block span name 0;
           (case found of
              Some ino \<Rightarrow> do { child \<leftarrow> read_inode img u (uint ino);
                              Some (map_option (\<lambda>c. (ino, c)) child) }
            | None \<Rightarrow> lookup_blocks img u data_blocks directory_size name rest) })"

definition lookup_directory_entry :: "image \<Rightarrow> ufs \<Rightarrow> inode \<Rightarrow> rstr \<Rightarrow> (u32 \<times> inode) option option" where
  "lookup_directory_entry img u directory_inode entry_name =
     (let directory_size = unat (di_size directory_inode) in
      if directory_size = 0 then Some None else
      do { data_blocks \<leftarrow> inode_data_blocks img u directory_inode;
           lookup_blocks img u data_blocks directory_size entry_name (dir_block_offsets directory_size) })"

section \<open>Paths\<close>

text \<open>\<^verbatim>\<open>path.split('/')\<close>, and the parts that are not empty.\<close>

fun split_slash :: "rstr \<Rightarrow> rstr list" where
  "split_slash [] = [[]]"
| "split_slash (c # cs) =
     (if c = 0x2F then [] # split_slash cs
      else case split_slash cs of [] \<Rightarrow> [[c]] | p # ps \<Rightarrow> (c # p) # ps)"

definition path_parts :: "rstr \<Rightarrow> rstr list" where
  "path_parts path = filter (\<lambda>p. p \<noteq> []) (split_slash path)"

primrec resolve_parts :: "image \<Rightarrow> ufs \<Rightarrow> u32 \<times> inode \<Rightarrow> rstr list \<Rightarrow> (u32 \<times> inode) option option" where
  "resolve_parts img u current [] = Some (Some current)"
| "resolve_parts img u current (part # parts) =
     do { found \<leftarrow> lookup_directory_entry img u (snd current) part;
          (case found of None \<Rightarrow> Some None | Some c \<Rightarrow> resolve_parts img u c parts) }"

definition resolve_path :: "image \<Rightarrow> ufs \<Rightarrow> rstr \<Rightarrow> (u32 \<times> inode) option option" where
  "resolve_path img u path =
     do { root \<leftarrow> read_inode img u (uint UFS_ROOT_INODE);
          (case root of
             None \<Rightarrow> Some None
           | Some r \<Rightarrow> resolve_parts img u (UFS_ROOT_INODE, r) (path_parts path)) }"

definition read_symlink_target :: "image \<Rightarrow> ufs \<Rightarrow> inode \<Rightarrow> rstr option" where
  "read_symlink_target img u i = do { bs \<leftarrow> read_inode_bytes img u i; Some (decode_ascii_replace bs) }"

end
