(* ===== verification/Rust_Std.thy ===== *)
theory Rust_Std
  imports Codec
begin

text \<open>
  The parts of the Rust standard library that the boot file system, the disk tools and the
  formatter use beyond the slices of the prelude: wrapping and saturating \<^verbatim>\<open>u64\<close>/\<^verbatim>\<open>usize\<close>
  arithmetic, \<^verbatim>\<open>div_ceil\<close>, \<^verbatim>\<open>String::from_utf8_lossy\<close>, and the decimal and hexadecimal
  formatting of integers. Strings are their UTF-8 bytes.
\<close>

section \<open>Unsigned 64-bit arithmetic\<close>

definition umul :: "nat \<Rightarrow> nat \<Rightarrow> nat" where
  "umul a b = (a * b) mod 2 ^ 64"

definition usub :: "nat \<Rightarrow> nat \<Rightarrow> nat" where
  "usub a b = nat ((int a - int b) mod 2 ^ 64)"

definition div_ceil :: "nat \<Rightarrow> nat \<Rightarrow> nat" where
  "div_ceil a b = (if a mod b = 0 then a div b else a div b + 1)"

definition saturating_add :: "nat \<Rightarrow> nat \<Rightarrow> nat" where
  "saturating_add a b = min (a + b) 18446744073709551615"

definition saturating_mul :: "nat \<Rightarrow> nat \<Rightarrow> nat" where
  "saturating_mul a b = min (a * b) 18446744073709551615"

lemma umul_eq: "a * b < 2 ^ 64 \<Longrightarrow> umul a b = a * b"
  by (simp add: umul_def)

lemma usub_eq: "b \<le> a \<Longrightarrow> a < 2 ^ 64 \<Longrightarrow> usub a b = a - b"
  unfolding usub_def by (subst mod_pos_pos_trivial) auto

lemma div_ceil_bounds:
  assumes "0 < b"
  shows "a \<le> div_ceil a b * b" "div_ceil a b * b < a + b"
proof -
  obtain q r where e: "a = q * b + r" "r < b" using assms by (metis div_mult_mod_eq mod_less_divisor)
  then have d: "a div b = q" "a mod b = r" by simp_all
  show "a \<le> div_ceil a b * b" "div_ceil a b * b < a + b"
    using e by (auto simp: div_ceil_def d)
qed

lemma div_ceil_exact: "0 < b \<Longrightarrow> div_ceil (k * b) b = k"
  by (simp add: div_ceil_def)

lemma unat_of_nat_small:
  "n < 2 ^ 16 \<Longrightarrow> unat (of_nat n :: u16) = n"
  "m < 2 ^ 32 \<Longrightarrow> unat (of_nat m :: u32) = m"
  by (simp_all add: unat_of_nat)

section \<open>Field writes as list updates\<close>

text \<open>
  A write that is in range is an update of the list. The rules below, with their arithmetic side
  conditions, let the simplifier run a sequence of field writes and read any field of the result.
\<close>

definition upd :: "'a list \<Rightarrow> nat \<Rightarrow> 'a list \<Rightarrow> 'a list" where
  "upd xs i src = map (\<lambda>k. if i \<le> k \<and> k < i + length src then src ! (k - i) else xs ! k) [0..<length xs]"

named_theorems upd_simps \<open>runs of field writes\<close>

lemma upd_length [simp]: "length (upd xs i src) = length xs"
  by (simp add: upd_def)

lemma copy_at_upd [upd_simps]: "i + length src \<le> length xs \<Longrightarrow> copy_at xs i src = Some (upd xs i src)"
  by (auto simp: copy_at_def upd_def nth_append intro!: nth_equalityI)

lemma fill_at_upd [upd_simps]:
  "i \<le> j \<Longrightarrow> j \<le> length xs \<Longrightarrow> fill_at xs i j v = Some (upd xs i (replicate (j - i) v))"
  by (simp add: fill_at_def copy_at_upd)

text \<open>The bytes of a field, kept folded.\<close>

definition le16 :: "u16 \<Rightarrow> bytes" where
  "le16 v = le_bytes 2 (unat v)"

definition le32 :: "u32 \<Rightarrow> bytes" where
  "le32 v = le_bytes 4 (unat v)"

lemma le_length [simp]: "length (le16 v) = 2" "length (le32 w) = 4"
  by (simp_all add: le16_def le32_def)

lemma put_upd [upd_simps]:
  "off + 2 \<le> length buf \<Longrightarrow> put_u16 buf off v = Some (upd buf off (le16 v))"
  "off + 4 \<le> length buf \<Longrightarrow> put_u32 buf off w = Some (upd buf off (le32 w))"
  "off + 4 \<le> length buf \<Longrightarrow> put_i32 buf off i = Some (upd buf off (le32 (of_int i)))"
  by (simp_all add: put_u16_def put_u32_def put_i32_def copy_at_upd le16_def le32_def)

lemma upd_nth:
  "i + length src \<le> length xs \<Longrightarrow> upd xs i src ! k = (if i \<le> k \<and> k < i + length src then src ! (k - i) else xs ! k)"
  using copy_at_nth [of xs i src] by (simp add: copy_at_upd)

lemma upd_nth_before [upd_simps]: "i + length src \<le> length xs \<Longrightarrow> k < i \<Longrightarrow> upd xs i src ! k = xs ! k"
  by (simp add: upd_nth)

lemma upd_nth_after [upd_simps]: "i + length src \<le> length xs \<Longrightarrow> i + length src \<le> k \<Longrightarrow> upd xs i src ! k = xs ! k"
  by (simp add: upd_nth)

lemma upd_subslice_other [upd_simps]:
  "i + length src \<le> length xs \<Longrightarrow> b \<le> i \<or> i + length src \<le> a \<Longrightarrow> subslice (upd xs i src) a b = subslice xs a b"
  using subslice_copy_disjoint [of xs i src] by (simp add: copy_at_upd)

lemma upd_subslice_same:
  "i + length src \<le> length xs \<Longrightarrow> j = i + length src \<Longrightarrow> subslice (upd xs i src) i j = Some src"
  using subslice_copy_same [of xs i src] by (simp add: copy_at_upd)

lemma upd_subslice_inside:
  assumes "i + length src \<le> length xs" "b \<le> length src"
  shows "subslice (upd xs i src) (i + a) (i + b) = subslice src a b"
proof (cases "a \<le> b")
  case True
  have "take (b - a) (drop (i + a) (upd xs i src)) = take (b - a) (drop a src)"
    using assms True by (intro nth_equalityI) (auto simp: upd_nth upd_length)
  then show ?thesis using assms True by (simp add: subslice_def upd_length)
qed (simp add: subslice_def)

lemma upd_read_other [upd_simps]:
  "i + length src \<le> length xs \<Longrightarrow> off + 2 \<le> i \<or> i + length src \<le> off \<Longrightarrow> u16 (upd xs i src) off = u16 xs off"
  "i + length src \<le> length xs \<Longrightarrow> off + 4 \<le> i \<or> i + length src \<le> off \<Longrightarrow> u32 (upd xs i src) off = u32 xs off"
  "i + length src \<le> length xs \<Longrightarrow> off + 4 \<le> i \<or> i + length src \<le> off \<Longrightarrow> i32 (upd xs i src) off = i32 xs off"
  by (simp_all add: i32_u32 u16_subslice u32_subslice upd_subslice_other)

lemma upd_read_same [upd_simps]:
  "off + 2 \<le> length xs \<Longrightarrow> u16 (upd xs off (le16 v)) off = Some v"
  "off + 4 \<le> length xs \<Longrightarrow> u32 (upd xs off (le32 w)) off = Some w"
  using c16.read_written [of xs off v] c32.read_written [of xs off w] by (simp_all add: put_upd)

lemma upd_read_i32 [upd_simps]:
  "off + 4 \<le> length xs \<Longrightarrow> i32 (upd xs off (le32 w)) off = Some (sint w)"
  by (simp add: i32_u32 upd_read_same)

lemma upd_read_inside:
  "i + length src \<le> length xs \<Longrightarrow> off + 2 \<le> length src \<Longrightarrow> u16 (upd xs i src) (i + off) = u16 src off"
  "i + length src \<le> length xs \<Longrightarrow> off + 4 \<le> length src \<Longrightarrow> u32 (upd xs i src) (i + off) = u32 src off"
  "i + length src \<le> length xs \<Longrightarrow> off + 4 \<le> length src \<Longrightarrow> i32 (upd xs i src) (i + off) = i32 src off"
  using upd_subslice_inside [of i src xs "off + 2" off] upd_subslice_inside [of i src xs "off + 4" off]
  by (simp_all add: i32_u32 u16_subslice u32_subslice add.assoc)

lemma read_zeros:
  "off + 2 \<le> n \<Longrightarrow> u16 (replicate n 0) off = Some 0"
  "off + 4 \<le> n \<Longrightarrow> u32 (replicate n 0) off = Some 0"
  "off + 4 \<le> n \<Longrightarrow> i32 (replicate n 0) off = Some 0"
  by (simp_all add: i32_def u16_def u32_def get_at_def)

section \<open>Text\<close>

definition lit :: "string \<Rightarrow> rstr" where
  "lit s = map of_char s"

text \<open>
  \<^verbatim>\<open>String::from_utf8_lossy\<close>: the number of bytes the next step of the decoder consumes, and
  whether they are a valid scalar; an invalid step is replaced by U+FFFD. Past the end the decoder
  reads zero bytes.
\<close>

definition is_continuation :: "u8 \<Rightarrow> bool" where
  "is_continuation b \<longleftrightarrow> 0x80 \<le> b \<and> b \<le> 0xBF"

definition byte_or_0 :: "bytes \<Rightarrow> nat \<Rightarrow> u8" where
  "byte_or_0 xs i = (if i < length xs then xs ! i else 0)"

definition utf8_second3 :: "u8 \<Rightarrow> u8 \<Rightarrow> bool" where
  "utf8_second3 b c =
     (if b = 0xE0 then 0xA0 \<le> c \<and> c \<le> 0xBF else if b = 0xED then 0x80 \<le> c \<and> c \<le> 0x9F else is_continuation c)"

definition utf8_second4 :: "u8 \<Rightarrow> u8 \<Rightarrow> bool" where
  "utf8_second4 b c =
     (if b = 0xF0 then 0x90 \<le> c \<and> c \<le> 0xBF else if b = 0xF4 then 0x80 \<le> c \<and> c \<le> 0x8F else is_continuation c)"

definition utf8_step :: "u8 \<Rightarrow> bytes \<Rightarrow> nat \<times> bool" where
  "utf8_step b rest =
     (if b < 0x80 then (1, True)
      else if 0xC2 \<le> b \<and> b \<le> 0xDF then
        (if is_continuation (byte_or_0 rest 0) then (2, True) else (1, False))
      else if 0xE0 \<le> b \<and> b \<le> 0xEF then
        (if \<not> utf8_second3 b (byte_or_0 rest 0) then (1, False)
         else if is_continuation (byte_or_0 rest 1) then (3, True) else (2, False))
      else if 0xF0 \<le> b \<and> b \<le> 0xF4 then
        (if \<not> utf8_second4 b (byte_or_0 rest 0) then (1, False)
         else if \<not> is_continuation (byte_or_0 rest 1) then (2, False)
         else if is_continuation (byte_or_0 rest 2) then (4, True) else (3, False))
      else (1, False))"

function utf8_lossy :: "bytes \<Rightarrow> rstr" where
  "utf8_lossy [] = []"
| "utf8_lossy (b # rest) =
     (let (n, ok) = utf8_step b rest in
      (if ok then take n (b # rest) else [0xEF, 0xBF, 0xBD]) @ utf8_lossy (drop (n - 1) rest))"
  by pat_completeness auto
termination
  by (relation "measure length") auto

definition is_ascii :: "bytes \<Rightarrow> bool" where
  "is_ascii xs \<longleftrightarrow> (\<forall>b \<in> set xs. b < 0x80)"

lemma utf8_lossy_ascii: "is_ascii xs \<Longrightarrow> utf8_lossy xs = xs"
  by (induction xs) (auto simp: is_ascii_def utf8_step_def)

text \<open>\<^verbatim>\<open>{}\<close> and zero-padded \<^verbatim>\<open>{:0wx}\<close> formatting.\<close>

fun dec_digits :: "nat \<Rightarrow> rstr" where
  "dec_digits n = (if n < 10 then [of_nat (48 + n)] else dec_digits (n div 10) @ [of_nat (48 + n mod 10)])"

definition dec_int :: "int \<Rightarrow> rstr" where
  "dec_int i = (if i < 0 then 45 # dec_digits (nat (- i)) else dec_digits (nat i))"

definition hex_digit :: "nat \<Rightarrow> u8" where
  "hex_digit d = of_nat (if d < 10 then 48 + d else 87 + d)"

fun hex_digits :: "nat \<Rightarrow> rstr" where
  "hex_digits n = (if n < 16 then [hex_digit n] else hex_digits (n div 16) @ [hex_digit (n mod 16)])"

definition hex_padded :: "nat \<Rightarrow> nat \<Rightarrow> rstr" where
  "hex_padded w n = (let ds = hex_digits n in replicate (w - length ds) 48 @ ds)"

declare dec_digits.simps [simp del] hex_digits.simps [simp del]

end
