(* ===== verification/Check.thy ===== *)
theory Check
  imports Summary Reader Rust_Std
begin

text \<open>
  \<^verbatim>\<open>crates/svr4-ufs/src/check.rs\<close>: the consistency checker. It walks the inodes, records which inode
  owns which fragment, and compares the result with the bitmaps, the link counts and the summary
  totals. A problem is a value of a datatype with one constructor per message and the values the
  message interpolates. The readers are those of the library, so a panic while reading is \<open>None\<close>.
\<close>

datatype claim_kind = DataRun | IndirectRun

datatype problem =
    UsedUnreadable int
  | BlockListLength int nat nat
  | FragOutOfRange int claim_kind int
  | DoubleReference int int int claim_kind
  | DiBlocksMismatch int u32 int u64
  | ReferencedButFree int int int
  | LeakedFragment int int
  | DotElsewhere int int
  | EntryToUnused int rstr int
  | MissingDot int
  | MissingDotdot int
  | Orphan int
  | LinkCountMismatch int u16 u32
  | SummaryMismatch rstr int int

type_synonym owners = "int \<rightharpoonup> int"

record check_state =
  ck_owner :: owners
  ck_problems :: "problem list"
  ck_used :: "int list"

definition report_problem :: "problem \<Rightarrow> check_state \<Rightarrow> check_state" where
  "report_problem p st = st \<lparr> ck_problems := ck_problems st @ [p] \<rparr>"

section \<open>Pass 1: the inodes and their fragments\<close>

definition claim_frag :: "int \<Rightarrow> int \<Rightarrow> claim_kind \<Rightarrow> check_state \<Rightarrow> int \<Rightarrow> check_state" where
  "claim_frag ino total_frags kind st f =
     (if f < 0 \<or> f \<ge> total_frags then report_problem (FragOutOfRange ino kind f) st
      else case ck_owner st f of
             Some other \<Rightarrow> report_problem (DoubleReference f other ino kind) st
           | None \<Rightarrow> st \<lparr> ck_owner := (ck_owner st)(f \<mapsto> ino) \<rparr>)"

definition claim_run :: "int \<Rightarrow> int \<Rightarrow> int \<Rightarrow> int \<Rightarrow> claim_kind \<Rightarrow> check_state \<Rightarrow> check_state" where
  "claim_run ino start count total_frags kind st =
     foldl (\<lambda>st f. claim_frag ino total_frags kind st (i64 (start + f))) st [0..count - 1]"

text \<open>The runs of an inode, start and length in fragments: its data blocks, then its pointer blocks.\<close>

definition data_runs :: "superblock \<Rightarrow> int list \<Rightarrow> u32 list \<Rightarrow> (int \<times> int) list" where
  "data_runs s alloc blocks =
     map (\<lambda>(i, block). (uint block, (if i < length alloc then alloc ! i else bsize s) sdiv fsize s))
       (enumerate 0 blocks)"

definition pointer_runs :: "superblock \<Rightarrow> u32 list \<Rightarrow> (int \<times> int) list" where
  "pointer_runs s pointers = map (\<lambda>p. (uint p, frag s)) pointers"

definition claim_runs :: "int \<Rightarrow> int \<Rightarrow> claim_kind \<Rightarrow> (int \<times> int) list \<Rightarrow> check_state \<Rightarrow> check_state" where
  "claim_runs ino total_frags kind runs st =
     foldl (\<lambda>st (start, count). claim_run ino start count total_frags kind st) st runs"

definition run_frags :: "(int \<times> int) list \<Rightarrow> int" where
  "run_frags runs = foldl (\<lambda>n (start, count). i64 (n + count)) 0 runs"

definition check_blocks :: "ufs \<Rightarrow> int \<Rightarrow> inode \<Rightarrow> u32 list \<Rightarrow> u32 list \<Rightarrow> check_state \<Rightarrow> check_state" where
  "check_blocks u ino i data_blocks pointers st =
     (let s = sb u;
          alloc = allocation_byte_sizes s (i64 (uint (di_size i)));
          st = (if length data_blocks \<noteq> length alloc
                then report_problem (BlockListLength ino (length data_blocks) (length alloc)) st else st);
          st = claim_runs ino (dsize s) DataRun (data_runs s alloc data_blocks) st;
          st = claim_runs ino (dsize s) IndirectRun (pointer_runs s pointers) st;
          frags = run_frags (data_runs s alloc data_blocks @ pointer_runs s pointers);
          expected_sectors = i64 (frags * (fsize s sdiv int SECTOR_SIZE)) in
      if uint (di_blocks i) \<noteq> expected_sectors
      then report_problem (DiBlocksMismatch ino (di_blocks i) expected_sectors (di_size i)) st else st)"

definition check_inode :: "image \<Rightarrow> ufs \<Rightarrow> bytes \<Rightarrow> int \<Rightarrow> check_state \<Rightarrow> int \<Rightarrow> check_state option" where
  "check_inode img u cg_bytes cg st local_ino =
     (let ino = i64 (cg * ipg (sb u) + local_ino) in
      if cg = 0 \<and> ino < uint UFS_ROOT_INODE then Some st else
      do { used \<leftarrow> is_inode_used cg_bytes local_ino;
           if \<not> used then Some st else
           do { found \<leftarrow> read_inode img u ino;
                (case found of
                   None \<Rightarrow> Some (report_problem (UsedUnreadable ino) st)
                 | Some i \<Rightarrow>
                     do { data_blocks \<leftarrow> inode_data_blocks img u i;
                          pointers \<leftarrow> inode_pointer_blocks img u i;
                          Some (check_blocks u ino i data_blocks pointers
                                 (st \<lparr> ck_used := ck_used st @ [ino] \<rparr>)) }) } })"

definition check_inodes :: "image \<Rightarrow> ufs \<Rightarrow> bytes list \<Rightarrow> check_state option" where
  "check_inodes img u cgs =
     foldM (\<lambda>st (cg, cg_bytes). foldM (check_inode img u cg_bytes (int cg)) st [0..ipg (sb u) - 1])
       \<lparr> ck_owner = Map.empty, ck_problems = [], ck_used = [] \<rparr> (enumerate 0 cgs)"

section \<open>Pass 2: the free bitmaps\<close>

definition check_frag :: "owners \<Rightarrow> bytes \<Rightarrow> int \<Rightarrow> int \<Rightarrow> int \<Rightarrow> problem list option" where
  "check_frag owner cg_bytes cg base local_frag =
     (let abs_frag = i64 (base + local_frag) in
      do { marked_free \<leftarrow> is_frag_free cg_bytes local_frag;
           Some (case owner abs_frag of
                   Some ino \<Rightarrow> if marked_free then [ReferencedButFree abs_frag cg ino] else []
                 | None \<Rightarrow> if \<not> marked_free then [LeakedFragment abs_frag cg] else []) })"

definition check_bitmap :: "ufs \<Rightarrow> owners \<Rightarrow> nat \<times> bytes \<Rightarrow> problem list option" where
  "check_bitmap u owner = (\<lambda>(cg, cg_bytes).
     do { cg_ndblk \<leftarrow> u32 cg_bytes UFS_CG_NDBLK_OFFSET;
          let base = cgbase (sb u) (int cg); data_start = i64 (cgdmin (sb u) (int cg) - base) in
          map_option concat (mapM (check_frag owner cg_bytes (int cg) base) [data_start..uint cg_ndblk - 1]) })"

definition check_bitmaps :: "ufs \<Rightarrow> owners \<Rightarrow> bytes list \<Rightarrow> problem list option" where
  "check_bitmaps u owner cgs = map_option concat (mapM (check_bitmap u owner) (enumerate 0 cgs))"

section \<open>Pass 3: directories and link counts\<close>

type_synonym ref_counts = "int \<rightharpoonup> u32"

definition count_ref :: "ref_counts \<Rightarrow> int \<Rightarrow> ref_counts" where
  "count_ref refs child = refs(child \<mapsto> (case refs child of Some n \<Rightarrow> n | None \<Rightarrow> 0) + 1)"

definition DOT_NAME :: rstr where "DOT_NAME = [0x2E]"
definition DOTDOT_NAME :: rstr where "DOTDOT_NAME = [0x2E, 0x2E]"

definition check_entry :: "int \<Rightarrow> int list \<Rightarrow> dir_list_entry \<Rightarrow> problem list" where
  "check_entry ino used e =
     (let child = uint (l_inode e) in
      if l_name e = DOT_NAME then (if child \<noteq> ino then [DotElsewhere ino child] else [])
      else if l_name e = DOTDOT_NAME then []
      else if child \<notin> set used then [EntryToUnused ino (l_name e) child] else [])"

definition check_entries :: "int \<Rightarrow> int list \<Rightarrow> dir_list_entry list \<Rightarrow> problem list" where
  "check_entries ino used entries =
     concat (map (check_entry ino used) entries)
     @ (if DOT_NAME \<in> l_name ` set entries then [] else [MissingDot ino])
     @ (if DOTDOT_NAME \<in> l_name ` set entries then [] else [MissingDotdot ino])"

definition check_directory ::
    "image \<Rightarrow> ufs \<Rightarrow> int list \<Rightarrow> ref_counts \<times> problem list \<Rightarrow> int \<Rightarrow> (ref_counts \<times> problem list) option" where
  "check_directory img u used = (\<lambda>(refs, problems) ino.
     do { found \<leftarrow> read_inode img u ino;
          (case found of
             None \<Rightarrow> Some (refs, problems)
           | Some i \<Rightarrow>
               if \<not> is_directory i then Some (refs, problems) else
               do { entries \<leftarrow> iter_directory_entries img u i;
                    Some (foldl count_ref refs (map (\<lambda>e. uint (l_inode e)) entries),
                          problems @ check_entries ino used entries) }) })"

definition check_links :: "image \<Rightarrow> ufs \<Rightarrow> ref_counts \<Rightarrow> int \<Rightarrow> problem list option" where
  "check_links img u ref_count ino =
     do { found \<leftarrow> read_inode img u ino;
          Some (case found of
             None \<Rightarrow> []
           | Some i \<Rightarrow>
               let refs = (case ref_count ino of Some n \<Rightarrow> n | None \<Rightarrow> 0) in
               (if ino \<noteq> uint UFS_ROOT_INODE \<and> refs = 0 then [Orphan ino] else [])
               @ (if refs \<noteq> ucast (di_nlink i) then [LinkCountMismatch ino (di_nlink i) refs] else [])) }"

definition check_tree :: "image \<Rightarrow> ufs \<Rightarrow> int list \<Rightarrow> problem list option" where
  "check_tree img u used =
     do { (refs, problems) \<leftarrow> foldM (check_directory img u used) (Map.empty, []) used;
          links \<leftarrow> mapM (check_links img u refs) used;
          Some (problems @ concat links) }"

section \<open>Pass 4: the summary totals\<close>

definition sum_field :: "nat \<Rightarrow> bytes list \<Rightarrow> int option" where
  "sum_field off cgs = foldM (\<lambda>n cg_bytes. do { v \<leftarrow> u32 cg_bytes off; Some (i64 (n + uint v)) }) 0 cgs"

definition check_total :: "image \<Rightarrow> nat \<Rightarrow> rstr \<Rightarrow> nat \<Rightarrow> int \<Rightarrow> problem list option" where
  "check_total img so name off cg_sum =
     do { stored \<leftarrow> i32 img (so + off);
          Some (if stored \<noteq> cg_sum then [SummaryMismatch name stored cg_sum] else []) }"

definition check_totals :: "image \<Rightarrow> ufs \<Rightarrow> bytes list \<Rightarrow> problem list option" where
  "check_totals img u cgs =
     do { sum_ndir \<leftarrow> sum_field UFS_CG_CS_NDIR_OFFSET cgs;
          sum_nbfree \<leftarrow> sum_field UFS_CG_CS_NBFREE_OFFSET cgs;
          sum_nifree \<leftarrow> sum_field UFS_CG_CS_NIFREE_OFFSET cgs;
          sum_nffree \<leftarrow> sum_field UFS_CG_CS_NFFREE_OFFSET cgs;
          p1 \<leftarrow> check_total img (super_offset u) (lit ''ndir'') UFS_FS_CSTOTAL_NDIR_OFFSET sum_ndir;
          p2 \<leftarrow> check_total img (super_offset u) (lit ''nbfree'') UFS_FS_CSTOTAL_NBFREE_OFFSET sum_nbfree;
          p3 \<leftarrow> check_total img (super_offset u) (lit ''nifree'') UFS_FS_CSTOTAL_NIFREE_OFFSET sum_nifree;
          p4 \<leftarrow> check_total img (super_offset u) (lit ''nffree'') UFS_FS_CSTOTAL_NFFREE_OFFSET sum_nffree;
          Some (p1 @ p2 @ p3 @ p4) }"

section \<open>The checker\<close>

definition check_filesystem :: "image \<Rightarrow> ufs \<Rightarrow> problem list option" where
  "check_filesystem img u =
     do { cgs \<leftarrow> mapM (read_cg_block img u) [0..ncg (sb u) - 1];
          st \<leftarrow> check_inodes img u cgs;
          bitmaps \<leftarrow> check_bitmaps u (ck_owner st) cgs;
          tree \<leftarrow> check_tree img u (ck_used st);
          totals \<leftarrow> check_totals img u cgs;
          Some (ck_problems st @ bitmaps @ tree @ totals) }"

end
