(* ===== verification/Check_Correct.thy ===== *)
theory Check_Correct
  imports Check
begin

text \<open>
  The checker against a declarative notion of a clean file system. Each pass is characterised by when it
  reports nothing: pass 1 by a weakest precondition on its state (the fragments claimed so far and the
  inodes seen), the other passes by the facts they compare.
\<close>

section \<open>Clean file systems\<close>

record inode_view =
  iv_ino :: int
  iv_inode :: inode
  iv_blocks :: "u32 list"
  iv_pointers :: "u32 list"

definition view_inode :: "image \<Rightarrow> ufs \<Rightarrow> int \<Rightarrow> inode_view option" where
  "view_inode img u ino =
     (case read_inode img u ino of
        Some (Some i) \<Rightarrow>
          do { blocks \<leftarrow> inode_data_blocks img u i;
               pointers \<leftarrow> inode_pointer_blocks img u i;
               Some \<lparr> iv_ino = ino, iv_inode = i, iv_blocks = blocks, iv_pointers = pointers \<rparr> }
      | _ \<Rightarrow> None)"

text \<open>What pass 1 makes of one bit: nothing to look at, or an inode.\<close>

definition survey_bit :: "image \<Rightarrow> ufs \<Rightarrow> (nat \<times> bytes) \<times> int \<Rightarrow> inode_view list option" where
  "survey_bit img u = (\<lambda>((cg, cg_bytes), l).
     let ino = i64 (int cg * ipg (sb u) + l) in
     if cg = 0 \<and> ino < uint UFS_ROOT_INODE then Some [] else
     do { used \<leftarrow> is_inode_used cg_bytes l;
          if used then map_option (\<lambda>v. [v]) (view_inode img u ino) else Some [] })"

definition bits_of :: "ufs \<Rightarrow> bytes list \<Rightarrow> ((nat \<times> bytes) \<times> int) list" where
  "bits_of u cgs = concat (map (\<lambda>c. map (Pair c) [0..ipg (sb u) - 1]) (enumerate 0 cgs))"

definition survey :: "image \<Rightarrow> ufs \<Rightarrow> bytes list \<Rightarrow> inode_view list option" where
  "survey img u cgs = map_option concat (mapM (survey_bit img u) (bits_of u cgs))"

definition view_alloc :: "ufs \<Rightarrow> inode_view \<Rightarrow> int list" where
  "view_alloc u v = allocation_byte_sizes (sb u) (i64 (uint (di_size (iv_inode v))))"

definition view_runs :: "ufs \<Rightarrow> inode_view \<Rightarrow> (int \<times> int) list" where
  "view_runs u v = data_runs (sb u) (view_alloc u v) (iv_blocks v) @ pointer_runs (sb u) (iv_pointers v)"

definition frags_of_run :: "int \<times> int \<Rightarrow> int list" where
  "frags_of_run = (\<lambda>(start, count). map (\<lambda>f. i64 (start + f)) [0..count - 1])"

definition view_frags :: "ufs \<Rightarrow> inode_view \<Rightarrow> int list" where
  "view_frags u v = concat (map frags_of_run (view_runs u v))"

definition view_counts_ok :: "ufs \<Rightarrow> inode_view \<Rightarrow> bool" where
  "view_counts_ok u v \<longleftrightarrow>
     length (iv_blocks v) = length (view_alloc u v)
   \<and> uint (di_blocks (iv_inode v)) = i64 (run_frags (view_runs u v) * (fsize (sb u) sdiv int SECTOR_SIZE))"

definition all_frags :: "ufs \<Rightarrow> inode_view list \<Rightarrow> int list" where
  "all_frags u vs = concat (map (view_frags u) vs)"

section \<open>Claims\<close>

lemma foldM_pairs:
  "foldM (\<lambda>s x. foldM (f x) s ys) s xs = foldM (\<lambda>s (x, y). f x s y) s (concat (map (\<lambda>x. map (Pair x) ys) xs))"
proof (induction xs arbitrary: s)
  case (Cons x xs)
  have "foldM (\<lambda>s (x, y). f x s y) s (map (Pair x) zs) = foldM (f x) s zs" for s zs
    by (induction zs arbitrary: s) simp_all
  then show ?case using Cons by (simp add: foldM_append)
qed simp

definition clean_st :: "(int set \<Rightarrow> int list \<Rightarrow> bool) \<Rightarrow> check_state \<Rightarrow> bool" where
  "clean_st Q st \<longleftrightarrow> ck_problems st = [] \<and> Q (dom (ck_owner st)) (ck_used st)"

lemma clean_report [simp]: "\<not> clean_st Q (report_problem p st)"
  by (simp add: clean_st_def report_problem_def)

lemma clean_claim_frag:
  "clean_st Q (claim_frag ino n kind st f) \<longleftrightarrow> clean_st (\<lambda>D U. 0 \<le> f \<and> f < n \<and> f \<notin> D \<and> Q (insert f D) U) st"
proof (cases "f < 0 \<or> f \<ge> n")
  case True
  then show ?thesis by (auto simp: claim_frag_def clean_st_def report_problem_def)
next
  case False
  then show ?thesis
    by (cases "ck_owner st f") (auto simp: claim_frag_def clean_st_def report_problem_def)
qed

lemma clean_claim_frags:
  "clean_st Q (foldl (claim_frag ino n kind) st fs) \<longleftrightarrow>
   clean_st (\<lambda>D U. distinct fs \<and> set fs \<subseteq> {0..<n} \<and> set fs \<inter> D = {} \<and> Q (D \<union> set fs) U) st"
proof (induction fs arbitrary: st)
  case (Cons f fs)
  show ?case by (simp add: Cons.IH clean_claim_frag) (auto simp: clean_st_def)
qed simp

lemma claim_run_frags: "claim_run ino start count n kind st = foldl (claim_frag ino n kind) st (frags_of_run (start, count))"
  by (simp add: claim_run_def frags_of_run_def foldl_map)

lemma claim_runs_frags:
  "claim_runs ino n kind runs st = foldl (claim_frag ino n kind) st (concat (map frags_of_run runs))"
  by (induction runs arbitrary: st) (auto simp: claim_runs_def claim_run_frags)

text \<open>One inode: the counts are right and its fragments are new and in range.\<close>

lemma clean_check_blocks:
  assumes v: "v = \<lparr> iv_ino = ino, iv_inode = i, iv_blocks = blocks, iv_pointers = pointers \<rparr>"
  shows "clean_st Q (check_blocks u ino i blocks pointers st) \<longleftrightarrow>
    clean_st (\<lambda>D U. view_counts_ok u v \<and> distinct (view_frags u v) \<and> set (view_frags u v) \<subseteq> {0..<dsize (sb u)}
      \<and> set (view_frags u v) \<inter> D = {} \<and> Q (D \<union> set (view_frags u v)) U) st"
proof -
  let ?a = "allocation_byte_sizes (sb u) (i64 (uint (di_size i)))"
  have a: "view_alloc u v = ?a" by (simp add: view_alloc_def v)
  have fr: "view_frags u v = concat (map frags_of_run (data_runs (sb u) ?a blocks)) @ concat (map frags_of_run (pointer_runs (sb u) pointers))"
    by (simp add: view_frags_def view_runs_def a) (simp add: v)
  have ok: "view_counts_ok u v \<longleftrightarrow> length blocks = length ?a \<and> uint (di_blocks i) =
      i64 (run_frags (data_runs (sb u) ?a blocks @ pointer_runs (sb u) pointers) * (fsize (sb u) sdiv int SECTOR_SIZE))"
    by (simp add: view_counts_ok_def view_runs_def a) (simp add: v)
  have frame: "clean_st Q (if b then report_problem p st' else st') \<longleftrightarrow> clean_st (\<lambda>D U. \<not> b \<and> Q D U) st'" for Q b p st'
    by (simp add: clean_st_def report_problem_def)
  show ?thesis
    unfolding check_blocks_def Let_def claim_runs_frags ok fr frame clean_claim_frags
    by (rule arg_cong [where f = "\<lambda>Q. clean_st Q st"]) (auto simp: fun_eq_iff Un_assoc)
qed

definition surveyed :: "ufs \<Rightarrow> inode_view list \<Rightarrow> (int set \<Rightarrow> int list \<Rightarrow> bool) \<Rightarrow> int set \<Rightarrow> int list \<Rightarrow> bool" where
  "surveyed u vs Q D U \<longleftrightarrow>
     (\<forall>v \<in> set vs. view_counts_ok u v) \<and> distinct (all_frags u vs) \<and> set (all_frags u vs) \<subseteq> {0..<dsize (sb u)}
   \<and> set (all_frags u vs) \<inter> D = {} \<and> Q (D \<union> set (all_frags u vs)) (U @ map iv_ino vs)"

lemma surveyed_append: "surveyed u vs (surveyed u ws Q) = surveyed u (vs @ ws) Q"
  by (auto simp: surveyed_def all_frags_def fun_eq_iff Un_assoc)

lemma surveyed_Nil [simp]: "surveyed u [] Q = Q"
  by (simp add: surveyed_def all_frags_def fun_eq_iff)

lemma clean_check_inode:
  "(\<exists>st'. check_inode img u cg_bytes (int cg) st l = Some st' \<and> clean_st Q st') \<longleftrightarrow>
   (\<exists>vs. survey_bit img u ((cg, cg_bytes), l) = Some vs \<and> clean_st (surveyed u vs Q) st)"
proof (cases "cg = 0 \<and> i64 (int cg * ipg (sb u) + l) < uint UFS_ROOT_INODE \<or> is_inode_used cg_bytes l \<noteq> Some True")
  case True
  then show ?thesis by (cases "is_inode_used cg_bytes l") (auto simp: check_inode_def survey_bit_def Let_def)
next
  case False
  let ?ino = "i64 (int cg * ipg (sb u) + l)"
  note used = False
  show ?thesis
  proof (cases "view_inode img u ?ino")
    case None
    then have "\<not> (\<exists>st'. check_inode img u cg_bytes (int cg) st l = Some st' \<and> clean_st Q st')"
      using used by (cases "read_inode img u ?ino"; cases "the (read_inode img u ?ino)")
        (auto simp: check_inode_def Let_def view_inode_def bind_eq_Some_conv bind_eq_None_conv)
    moreover have "survey_bit img u ((cg, cg_bytes), l) = None"
      using used None by (auto simp: survey_bit_def Let_def)
    ultimately show ?thesis by simp
  next
    case (Some v)
    then obtain i blocks pointers where r: "read_inode img u ?ino = Some (Some i)" "inode_data_blocks img u i = Some blocks"
        "inode_pointer_blocks img u i = Some pointers"
      and v: "v = \<lparr> iv_ino = ?ino, iv_inode = i, iv_blocks = blocks, iv_pointers = pointers \<rparr>"
      by (auto simp: view_inode_def bind_eq_Some_conv split: option.splits)
    have "check_inode img u cg_bytes (int cg) st l
        = Some (check_blocks u ?ino i blocks pointers (st \<lparr> ck_used := ck_used st @ [?ino] \<rparr>))"
      using used r by (auto simp: check_inode_def Let_def)
    moreover have "survey_bit img u ((cg, cg_bytes), l) = Some [v]"
      using used Some by (auto simp: survey_bit_def Let_def)
    ultimately show ?thesis
      by (simp add: clean_check_blocks [OF v]) (simp add: clean_st_def surveyed_def all_frags_def v)
  qed
qed

lemma clean_check_bits:
  "(\<exists>st'. foldM (\<lambda>st (c, l). check_inode img u (snd c) (int (fst c)) st l) st bits = Some st' \<and> clean_st Q st') \<longleftrightarrow>
   (\<exists>vs. map_option concat (mapM (survey_bit img u) bits) = Some vs \<and> clean_st (surveyed u vs Q) st)"
proof (induction bits arbitrary: st)
  case Nil
  then show ?case by simp
next
  case (Cons b bits)
  obtain cg cg_bytes l where b: "b = ((cg, cg_bytes), l)" by (metis prod.collapse)
  have "(\<exists>st'. foldM (\<lambda>st (c, l). check_inode img u (snd c) (int (fst c)) st l) st (b # bits) = Some st' \<and> clean_st Q st')
      \<longleftrightarrow> (\<exists>st1. check_inode img u cg_bytes (int cg) st l = Some st1
        \<and> (\<exists>vs. map_option concat (mapM (survey_bit img u) bits) = Some vs \<and> clean_st (surveyed u vs Q) st1))"
    unfolding Cons.IH [symmetric] b by (auto simp: bind_eq_Some_conv)
  also have "\<dots> \<longleftrightarrow> (\<exists>vs. map_option concat (mapM (survey_bit img u) bits) = Some vs
      \<and> (\<exists>ws. survey_bit img u b = Some ws \<and> clean_st (surveyed u ws (surveyed u vs Q)) st))"
    unfolding b clean_check_inode [symmetric] by blast
  also have "\<dots> \<longleftrightarrow> (\<exists>vs. map_option concat (mapM (survey_bit img u) (b # bits)) = Some vs \<and> clean_st (surveyed u vs Q) st)"
    by (auto simp: surveyed_append bind_eq_Some_conv)
  finally show ?case .
qed

lemma clean_check_inodes:
  "(\<exists>st. check_inodes img u cgs = Some st \<and> ck_problems st = [] \<and> Q (dom (ck_owner st)) (ck_used st)) \<longleftrightarrow>
   (\<exists>vs. survey img u cgs = Some vs \<and> (\<forall>v \<in> set vs. view_counts_ok u v) \<and> distinct (all_frags u vs)
      \<and> set (all_frags u vs) \<subseteq> {0..<dsize (sb u)} \<and> Q (set (all_frags u vs)) (map iv_ino vs))"
proof -
  have "check_inodes img u cgs = foldM (\<lambda>st (c, l). check_inode img u (snd c) (int (fst c)) st l)
      \<lparr> ck_owner = Map.empty, ck_problems = [], ck_used = [] \<rparr> (bits_of u cgs)"
    unfolding check_inodes_def bits_of_def
    by (rule trans [OF _ foldM_pairs [of "\<lambda>c st l. check_inode img u (snd c) (int (fst c)) st l"]]) (simp add: case_prod_beta')
  then show ?thesis
    using clean_check_bits [of img u "\<lparr> ck_owner = Map.empty, ck_problems = [], ck_used = [] \<rparr>" "bits_of u cgs" Q]
    by (simp add: clean_st_def survey_def surveyed_def)
qed

section \<open>Bitmaps\<close>

lemma map_option_concat_Nil:
  "map_option concat (mapM f xs) = Some [] \<longleftrightarrow> (\<forall>x \<in> set xs. f x = Some [])"
  by (induction xs) (auto simp: bind_eq_Some_conv)

lemma check_frag_Nil:
  "check_frag owner cg_bytes cg base l = Some [] \<longleftrightarrow> is_frag_free cg_bytes l = Some (i64 (base + l) \<notin> dom owner)"
  by (cases "is_frag_free cg_bytes l") (auto simp: check_frag_def Let_def split: option.splits)

text \<open>Whether the bitmap of a group says of each fragment of its data area that it is free exactly when it is not owned.\<close>

definition bitmap_exact :: "ufs \<Rightarrow> int set \<Rightarrow> nat \<times> bytes \<Rightarrow> bool" where
  "bitmap_exact u owned = (\<lambda>(cg, cg_bytes).
     \<exists>nd. u32 cg_bytes UFS_CG_NDBLK_OFFSET = Some nd \<and>
       (\<forall>l. i64 (cgdmin (sb u) (int cg) - cgbase (sb u) (int cg)) \<le> l \<and> l < uint nd \<longrightarrow>
          is_frag_free cg_bytes l = Some (i64 (cgbase (sb u) (int cg) + l) \<notin> owned)))"

lemma check_bitmap_Nil: "check_bitmap u owner c = Some [] \<longleftrightarrow> bitmap_exact u (dom owner) c"
proof -
  obtain cg cg_bytes where c: "c = (cg, cg_bytes)" by force
  have "check_bitmap u owner c = Some [] \<longleftrightarrow> (\<exists>nd. u32 cg_bytes UFS_CG_NDBLK_OFFSET = Some nd \<and>
      map_option concat (mapM (check_frag owner cg_bytes (int cg) (cgbase (sb u) (int cg)))
        [i64 (cgdmin (sb u) (int cg) - cgbase (sb u) (int cg))..uint nd - 1]) = Some [])"
    by (simp add: c check_bitmap_def Let_def bind_eq_Some_conv)
  then show ?thesis
    unfolding map_option_concat_Nil check_frag_Nil bitmap_exact_def c by auto
qed

lemma check_bitmaps_Nil:
  "check_bitmaps u owner cgs = Some [] \<longleftrightarrow> (\<forall>c \<in> set (enumerate 0 cgs). bitmap_exact u (dom owner) c)"
  unfolding check_bitmaps_def map_option_concat_Nil check_bitmap_Nil ..

section \<open>The directory tree\<close>

text \<open>The entries of an inode that is a directory, none otherwise.\<close>

definition view_entries :: "image \<Rightarrow> ufs \<Rightarrow> int \<Rightarrow> (int \<times> bool \<times> dir_list_entry list) option" where
  "view_entries img u ino =
     do { found \<leftarrow> read_inode img u ino;
          (case found of
             Some i \<Rightarrow> if is_directory i then map_option (\<lambda>es. (ino, True, es)) (iter_directory_entries img u i)
                       else Some (ino, False, [])
           | None \<Rightarrow> Some (ino, False, [])) }"

definition entry_refs :: "(int \<times> bool \<times> dir_list_entry list) list \<Rightarrow> int list" where
  "entry_refs ds = concat (map (\<lambda>(ino, dir, es). map (\<lambda>e. uint (l_inode e)) es) ds)"

lemma check_directories:
  "foldM (check_directory img u used) (refs, ps) xs =
     do { ds \<leftarrow> mapM (view_entries img u) xs;
          Some (foldl count_ref refs (entry_refs ds),
                ps @ concat (map (\<lambda>(ino, dir, es). if dir then check_entries ino used es else []) ds)) }"
proof (induction xs arbitrary: refs ps)
  case (Cons ino xs)
  have "check_directory img u used (refs, ps) ino =
      do { (ino, dir, es) \<leftarrow> view_entries img u ino;
           Some (foldl count_ref refs (map (\<lambda>e. uint (l_inode e)) es), ps @ (if dir then check_entries ino used es else [])) }"
    by (cases "read_inode img u ino"; cases "the (read_inode img u ino)";
        cases "iter_directory_entries img u (the (the (read_inode img u ino)))")
      (simp_all add: check_directory_def view_entries_def)
  then show ?case
    by (cases "view_entries img u ino"; cases "mapM (view_entries img u) xs") (auto simp: Cons.IH entry_refs_def)
qed (simp add: entry_refs_def)

lemma foldl_count_ref:
  "(case foldl count_ref refs xs x of Some n \<Rightarrow> n | None \<Rightarrow> 0) = (case refs x of Some n \<Rightarrow> n | None \<Rightarrow> 0) + of_nat (count_list xs x)"
  by (induction xs arbitrary: refs) (auto simp: count_ref_def)

text \<open>A directory names itself, has a parent entry, and otherwise names inodes in use.\<close>

definition directory_ok :: "int set \<Rightarrow> int \<times> bool \<times> dir_list_entry list \<Rightarrow> bool" where
  "directory_ok used = (\<lambda>(ino, dir, es). dir \<longrightarrow>
     DOT_NAME \<in> l_name ` set es \<and> DOTDOT_NAME \<in> l_name ` set es
   \<and> (\<forall>e \<in> set es. (l_name e = DOT_NAME \<longrightarrow> uint (l_inode e) = ino)
        \<and> (l_name e \<notin> {DOT_NAME, DOTDOT_NAME} \<longrightarrow> uint (l_inode e) \<in> used)))"

definition links_ok :: "int list \<Rightarrow> inode_view \<Rightarrow> bool" where
  "links_ok refs v \<longleftrightarrow>
     (of_nat (count_list refs (iv_ino v)) :: u32) = ucast (di_nlink (iv_inode v))
   \<and> (iv_ino v \<noteq> uint UFS_ROOT_INODE \<longrightarrow> (of_nat (count_list refs (iv_ino v)) :: u32) \<noteq> 0)"

lemma check_entries_Nil: "check_entries ino used es = [] \<longleftrightarrow> directory_ok (set used) (ino, True, es)"
  by (auto simp: check_entries_def directory_ok_def check_entry_def Let_def split: if_splits)

lemma check_links_Nil:
  assumes "read_inode img u (iv_ino v) = Some (Some (iv_inode v))"
  shows "check_links img u (foldl count_ref Map.empty refs) (iv_ino v) = Some [] \<longleftrightarrow> links_ok refs v"
  using foldl_count_ref [of Map.empty refs "iv_ino v"] assms
  by (auto simp: check_links_def links_ok_def Let_def)

lemma check_tree_Nil:
  assumes "\<forall>v \<in> set vs. read_inode img u (iv_ino v) = Some (Some (iv_inode v))"
  shows "check_tree img u (map iv_ino vs) = Some [] \<longleftrightarrow>
    (\<exists>ds. mapM (view_entries img u) (map iv_ino vs) = Some ds
      \<and> (\<forall>d \<in> set ds. directory_ok (iv_ino ` set vs) d) \<and> (\<forall>v \<in> set vs. links_ok (entry_refs ds) v))"
proof -
  have d: "(case d of (ino, dir, es) \<Rightarrow> if dir then check_entries ino (map iv_ino vs) es else []) = []
      \<longleftrightarrow> directory_ok (iv_ino ` set vs) d" for d
    by (cases d) (auto simp: check_entries_Nil directory_ok_def)
  have dirs: "concat (map (\<lambda>(ino, dir, es). if dir then check_entries ino (map iv_ino vs) es else []) ds) = []
      \<longleftrightarrow> (\<forall>d \<in> set ds. directory_ok (iv_ino ` set vs) d)" for ds
    by (simp only: concat_eq_Nil_conv set_map ball_simps d)
  have links: "map_option concat (mapM (check_links img u (foldl count_ref Map.empty refs)) (map iv_ino vs)) = Some []
      \<longleftrightarrow> (\<forall>v \<in> set vs. links_ok refs v)" for refs
    unfolding map_option_concat_Nil using assms by (simp add: check_links_Nil)
  have "check_tree img u (map iv_ino vs) = Some [] \<longleftrightarrow>
      (\<exists>ds. mapM (view_entries img u) (map iv_ino vs) = Some ds
        \<and> concat (map (\<lambda>(ino, dir, es). if dir then check_entries ino (map iv_ino vs) es else []) ds) = []
        \<and> map_option concat (mapM (check_links img u (foldl count_ref Map.empty (entry_refs ds))) (map iv_ino vs)) = Some [])"
    by (auto simp: check_tree_def check_directories bind_eq_Some_conv simp del: concat_eq_Nil_conv)
  then show ?thesis unfolding dirs links .
qed

section \<open>The summary totals\<close>

lemma sum_field_eq: "foldM (\<lambda>n c. do { v \<leftarrow> u32 c off; Some (i64 (n + uint v)) }) (i64 n) cgs
    = map_option (\<lambda>vs. i64 (n + sum_list (map uint vs))) (mapM (\<lambda>c. u32 c off) cgs)"
proof (induction cgs arbitrary: n)
  case (Cons c cgs)
  have "i64 (i64 n + k) = i64 (n + k)" for k
    by (simp add: i64_def signed_take_bit_add [of _ n k, symmetric] signed_take_bit_add [of _ "signed_take_bit 63 n" k, symmetric])
  then show ?case
    by (cases "u32 c off") (auto simp: Cons.IH add.assoc map_option_case split: Option.bind_splits option.splits)
qed simp

definition total_ok :: "image \<Rightarrow> nat \<Rightarrow> bytes list \<Rightarrow> nat \<Rightarrow> nat \<Rightarrow> bool" where
  "total_ok img so cgs cg_off fs_off \<longleftrightarrow>
     (\<exists>vs. mapM (\<lambda>c. u32 c cg_off) cgs = Some vs \<and> i32 img (so + fs_off) = Some (i64 (sum_list (map uint vs))))"

lemma check_total_Nil:
  "(\<exists>n. sum_field cg_off cgs = Some n \<and> check_total img so name fs_off n = Some []) \<longleftrightarrow> total_ok img so cgs cg_off fs_off"
  using sum_field_eq [of cg_off 0 cgs]
  by (auto simp: sum_field_def total_ok_def check_total_def bind_eq_Some_conv i64_def split: if_splits)

lemma check_totals_Nil:
  "check_totals img u cgs = Some [] \<longleftrightarrow>
     total_ok img (super_offset u) cgs UFS_CG_CS_NDIR_OFFSET UFS_FS_CSTOTAL_NDIR_OFFSET
   \<and> total_ok img (super_offset u) cgs UFS_CG_CS_NBFREE_OFFSET UFS_FS_CSTOTAL_NBFREE_OFFSET
   \<and> total_ok img (super_offset u) cgs UFS_CG_CS_NIFREE_OFFSET UFS_FS_CSTOTAL_NIFREE_OFFSET
   \<and> total_ok img (super_offset u) cgs UFS_CG_CS_NFFREE_OFFSET UFS_FS_CSTOTAL_NFFREE_OFFSET"
  unfolding check_totals_def check_total_Nil [symmetric, of img "super_offset u" _ _ _ "lit ''ndir''"]
  by (auto simp: bind_eq_Some_conv check_total_def split: if_splits)

section \<open>The checker is exact\<close>

definition fs_clean :: "image \<Rightarrow> ufs \<Rightarrow> bool" where
  "fs_clean img u \<longleftrightarrow> (\<exists>cgs vs ds.
     mapM (read_cg_block img u) [0..ncg (sb u) - 1] = Some cgs
   \<and> survey img u cgs = Some vs
   \<and> (\<forall>v \<in> set vs. view_counts_ok u v)
   \<and> distinct (all_frags u vs) \<and> set (all_frags u vs) \<subseteq> {0..<dsize (sb u)}
   \<and> (\<forall>c \<in> set (enumerate 0 cgs). bitmap_exact u (set (all_frags u vs)) c)
   \<and> mapM (view_entries img u) (map iv_ino vs) = Some ds
   \<and> (\<forall>d \<in> set ds. directory_ok (iv_ino ` set vs) d)
   \<and> (\<forall>v \<in> set vs. links_ok (entry_refs ds) v)
   \<and> total_ok img (super_offset u) cgs UFS_CG_CS_NDIR_OFFSET UFS_FS_CSTOTAL_NDIR_OFFSET
   \<and> total_ok img (super_offset u) cgs UFS_CG_CS_NBFREE_OFFSET UFS_FS_CSTOTAL_NBFREE_OFFSET
   \<and> total_ok img (super_offset u) cgs UFS_CG_CS_NIFREE_OFFSET UFS_FS_CSTOTAL_NIFREE_OFFSET
   \<and> total_ok img (super_offset u) cgs UFS_CG_CS_NFFREE_OFFSET UFS_FS_CSTOTAL_NFFREE_OFFSET)"

lemma survey_reads:
  assumes "survey img u cgs = Some vs"
  shows "\<forall>v \<in> set vs. read_inode img u (iv_ino v) = Some (Some (iv_inode v))"
proof -
  have view: "view_inode img u ino = Some v \<Longrightarrow> read_inode img u (iv_ino v) = Some (Some (iv_inode v))" for ino v
    by (auto simp: view_inode_def bind_eq_Some_conv split: option.splits)
  have bit: "survey_bit img u b = Some ws \<Longrightarrow> v \<in> set ws \<Longrightarrow> read_inode img u (iv_ino v) = Some (Some (iv_inode v))" for b ws v
    by (auto simp: survey_bit_def Let_def bind_eq_Some_conv dest: view split: if_splits prod.splits)
  have "map_option concat (mapM (survey_bit img u) bs) = Some vs \<Longrightarrow> ?thesis" for bs
    by (induction bs arbitrary: vs) (auto simp: bind_eq_Some_conv dest: bit)
  then show ?thesis using assms unfolding survey_def by blast
qed

text \<open>C37: The consistency checker is exact. It reports no problem if and only if the file system is clean: every inode
  marked in use is readable, its block list and sector count agree with its size, no fragment belongs to two inodes or
  lies outside the file system, the free bitmap of every group marks exactly the fragments no inode owns, every
  directory names itself, has a parent entry and otherwise names inodes in use, link counts equal the directory entries,
  and the superblock totals are the sums over the groups.\<close>

theorem check_filesystem_exact: "check_filesystem img u = Some [] \<longleftrightarrow> fs_clean img u"
proof -
  let ?q = "\<lambda>cgs D used. (\<forall>c \<in> set (enumerate 0 cgs). bitmap_exact u D c) \<and> check_tree img u used = Some [] \<and> check_totals img u cgs = Some []"
  have "check_filesystem img u = Some [] \<longleftrightarrow>
      (\<exists>cgs. mapM (read_cg_block img u) [0..ncg (sb u) - 1] = Some cgs \<and>
        (\<exists>st. check_inodes img u cgs = Some st \<and> ck_problems st = [] \<and> ?q cgs (dom (ck_owner st)) (ck_used st)))"
    unfolding check_filesystem_def check_bitmaps_Nil [symmetric] by (auto simp: bind_eq_Some_conv)
  also have "\<dots> \<longleftrightarrow> (\<exists>cgs. mapM (read_cg_block img u) [0..ncg (sb u) - 1] = Some cgs \<and>
        (\<exists>vs. survey img u cgs = Some vs \<and> (\<forall>v \<in> set vs. view_counts_ok u v) \<and> distinct (all_frags u vs)
          \<and> set (all_frags u vs) \<subseteq> {0..<dsize (sb u)} \<and> ?q cgs (set (all_frags u vs)) (map iv_ino vs)))"
    by (subst clean_check_inodes) (rule refl)
  also have "\<dots> \<longleftrightarrow> fs_clean img u"
    unfolding fs_clean_def check_totals_Nil
    by (simp only: check_tree_Nil [OF survey_reads] ex_simps [symmetric] conj_assoc cong: conj_cong)
  finally show ?thesis .
qed

end
