(* ===== verification/Errno.thy ===== *)
theory Errno
  imports Write_Error Rust_Std "HOL-Library.Sublist"
begin

text \<open>
  The messages of the allocator and the write path, and the daemon's mapping of a message to an error
  number (\<^verbatim>\<open>errno_from\<close> in \<^verbatim>\<open>bins/svr4-ufs-mount/src/main.rs\<close>), which looks for words in the text.
\<close>

datatype errno = ENOENT | ENOTEMPTY | EEXIST | ENOTDIR | EISDIR | ENOSPC | EIO | EROFS | EINVAL | ENODATA

section \<open>Rendering\<close>

text \<open>
  \<^verbatim>\<open>{name:?}\<close>: quotes, backslashes and control characters are escaped. A character outside ASCII is
  printed as it is or as its code point in braces, depending on Unicode tables; it is kept as it is here,
  since no word that the mapping looks for has a byte outside ASCII, a backslash or a brace.
\<close>

definition debug_byte :: "u8 \<Rightarrow> rstr" where
  "debug_byte b =
     (if b = 0 then [0x5C, 0x30] else if b = 9 then [0x5C, 0x74] else if b = 10 then [0x5C, 0x6E]
      else if b = 13 then [0x5C, 0x72] else if b = 0x22 then [0x5C, 0x22] else if b = 0x5C then [0x5C, 0x5C]
      else if b < 0x20 \<or> b = 0x7F then [0x5C, 0x75, 0x7B] @ hex_digits (unat b) @ [0x7D]
      else [b])"

definition debug_str :: "rstr \<Rightarrow> rstr" where
  "debug_str s = 0x22 # concat (map debug_byte s) @ [0x22]"

fun oct_digits :: "nat \<Rightarrow> rstr" where
  "oct_digits n = (if n < 8 then [of_nat (48 + n)] else oct_digits (n div 8) @ [of_nat (48 + n mod 8)])"

declare oct_digits.simps [simp del]

fun werror_message :: "werror \<Rightarrow> rstr" where
  "werror_message NoFreeInodes = lit ''error: no free UFS inodes remain for allocation''"
| "werror_message NoFreeBlocks = lit ''error: no free UFS blocks remain for allocation''"
| "werror_message NoFreeFragments = lit ''error: no free UFS fragments remain for allocation''"
| "werror_message (InvalidFragmentRequest n) =
     lit ''error: invalid UFS fragment allocation request for '' @ dec_int n @ lit '' bytes''"
| "werror_message AllocationNotPositive = lit ''error: UFS allocation size must be positive''"
| "werror_message (InvalidCgFreeingInode cg n) =
     lit ''error: invalid cylinder group '' @ dec_int cg @ lit '' while freeing UFS inode '' @ dec_int n"
| "werror_message (InodeAlreadyFree n) = lit ''error: UFS inode '' @ dec_int n @ lit '' is already free''"
| "werror_message (InvalidCgFreeingBlock cg n) =
     lit ''error: invalid cylinder group '' @ dec_int cg @ lit '' while freeing UFS block '' @ dec_int n"
| "werror_message (InvalidCgFreeingAllocation cg n) =
     lit ''error: invalid cylinder group '' @ dec_int cg @ lit '' while freeing UFS allocation at block '' @ dec_int n"
| "werror_message (InvalidCgNormalizing cg) =
     lit ''error: invalid cylinder group '' @ dec_int cg @ lit '' while normalizing UFS metadata''"
| "werror_message (UnreadableForReplacement n) = lit ''error: could not read inode '' @ dec_int n @ lit '' for replacement''"
| "werror_message (UnreadableForWrite n) = lit ''error: could not read inode '' @ dec_int n @ lit '' for write''"
| "werror_message (NoDirectorySlot name) = lit ''no directory slot available for '' @ debug_str name"
| "werror_message (ParentUnresolved p) =
     lit ''error: could not resolve parent path '' @ p @ lit '' inside the ufs filesystem''"
| "werror_message (ParentPathNotDirectory p) = lit ''error: parent path '' @ p @ lit '' is not a UFS directory''"
| "werror_message (TargetExists p) =
     lit ''error: target path '' @ p @ lit '' already exists inside the ufs filesystem''"
| "werror_message (SourceMissing p) =
     lit ''error: source path '' @ p @ lit '' does not exist inside the ufs filesystem''"
| "werror_message (HardLinkToDirectory p) = lit ''error: refusing to create a hard link to directory '' @ p"
| "werror_message (EntryNotFound name) =
     lit ''error: could not find directory entry '' @ debug_str name @ lit '' to remove''"
| "werror_message UnlinkRoot = lit ''error: refusing to unlink the UFS root directory''"
| "werror_message (TargetMissing p) =
     lit ''error: target path '' @ p @ lit '' does not exist inside the ufs filesystem''"
| "werror_message (TargetIsDirectory p) =
     lit ''error: target path '' @ p @ lit '' is a directory; use rmdir instead''"
| "werror_message RemoveRoot = lit ''error: refusing to remove the UFS root directory''"
| "werror_message (TargetNotDirectory p) = lit ''error: target path '' @ p @ lit '' is not a directory''"
| "werror_message (TargetNotEmpty p) = lit ''error: target directory '' @ p @ lit '' is not empty''"
| "werror_message (ParentUnreadable n) = lit ''error: parent inode '' @ dec_int n @ lit '' is unreadable''"
| "werror_message ParentInodeNotDirectory = lit ''error: parent inode is not a UFS directory''"
| "werror_message (UnsupportedSpecial t) =
     lit ''error: unsupported special file type 0o'' @ oct_digits (unat t)"
| "werror_message (LinkTargetUnreadable n) = lit ''error: link target inode '' @ dec_int n @ lit '' is unreadable''"
| "werror_message HardLinkDirectory = lit ''error: refusing to hard-link a directory''"
| "werror_message (NameMissing name) = lit ''error: '' @ debug_str name @ lit '' does not exist''"
| "werror_message (NameIsDirectory name) = lit ''error: '' @ debug_str name @ lit '' is a directory; use rmdir''"
| "werror_message (NameNotDirectory name) = lit ''error: '' @ debug_str name @ lit '' is not a directory''"
| "werror_message (NameNotEmpty name) = lit ''error: directory '' @ debug_str name @ lit '' is not empty''"
| "werror_message DotdotMissing = lit ''error: could not find '' @ [0x27, 0x2E, 0x2E, 0x27] @ lit '' to rewrite''"
| "werror_message (SourceParentUnreadable n) = lit ''error: source parent inode '' @ dec_int n @ lit '' is unreadable''"
| "werror_message (SourceNameMissing name) = lit ''error: source '' @ debug_str name @ lit '' does not exist''"
| "werror_message (TargetParentUnreadable n) = lit ''error: target parent inode '' @ dec_int n @ lit '' is unreadable''"
| "werror_message CrossTypeRename = lit ''error: cannot rename across file and directory types''"
| "werror_message (InodeUnreadable n) = lit ''error: inode '' @ dec_int n @ lit '' is unreadable''"

section \<open>The mapping\<close>

definition to_ascii_lowercase :: "rstr \<Rightarrow> rstr" where
  "to_ascii_lowercase = map (\<lambda>b. if 0x41 \<le> b \<and> b \<le> 0x5A then b + 32 else b)"

definition contains :: "rstr \<Rightarrow> string \<Rightarrow> bool" where
  "contains m s \<longleftrightarrow> sublist (lit s) m"

definition errno_from :: "rstr \<Rightarrow> errno" where
  "errno_from message =
     (let m = to_ascii_lowercase message in
      if contains m ''does not exist'' \<or> contains m ''unreadable'' then ENOENT
      else if contains m ''not empty'' then ENOTEMPTY
      else if contains m ''already exists'' \<or> contains m ''exists'' then EEXIST
      else if contains m ''not a'' \<and> contains m ''directory'' then ENOTDIR
      else if contains m ''is a directory'' then EISDIR
      else if contains m ''no space'' \<or> contains m ''full'' then ENOSPC
      else EIO)"

end
