(* ===== verification/Inode_Write.thy ===== *)
theory Inode_Write
  imports Alloc Reader
begin

text \<open>
  \<^verbatim>\<open>crates/svr4-ufs/src/write.rs\<close>, first part: the inode field writers, the construction of the
  indirect pointer trees, the replacement of a whole inode's contents and the in-place write that
  reallocates only the suffix that changes.
\<close>

section \<open>Inode field writers\<close>

definition inode_offset :: "ufs \<Rightarrow> int \<Rightarrow> nat" where
  "inode_offset u inode_number = usize (inode_byte_offset (sb u) (start_offset u) inode_number)"

definition clear_inode :: "ufs \<Rightarrow> int \<Rightarrow> image \<Rightarrow> image option" where
  "clear_inode u inode_number img =
     (let off = inode_offset u inode_number in fill_at img off (off + UFS_DINODE_SIZE) 0)"

definition write_inode_time :: "nat \<Rightarrow> nat \<Rightarrow> u32 \<Rightarrow> image \<Rightarrow> image option" where
  "write_inode_time inode_off field_offset timestamp img =
     do { img \<leftarrow> put_u32 img (uadd inode_off field_offset) timestamp;
          put_u32 img (uadd inode_off (field_offset + 4)) 0 }"

definition initialize_inode ::
    "ufs \<Rightarrow> int \<Rightarrow> u32 \<Rightarrow> u32 \<Rightarrow> u32 \<Rightarrow> u16 \<Rightarrow> u32 \<Rightarrow> image \<Rightarrow> image option" where
  "initialize_inode u inode_number mode uid gid nlink timestamp img =
     (let off = inode_offset u inode_number in
      do { img \<leftarrow> clear_inode u inode_number img;
           img \<leftarrow> put_u16 img off (ucast mode);
           img \<leftarrow> put_u16 img (uadd off UFS_DI_NLINK_OFFSET) nlink;
           img \<leftarrow> put_u16 img (uadd off UFS_DI_SUID_OFFSET) (ucast uid);
           img \<leftarrow> put_u16 img (uadd off UFS_DI_SGID_OFFSET) (ucast gid);
           img \<leftarrow> write_inode_time off UFS_DI_ATIME_OFFSET timestamp img;
           img \<leftarrow> write_inode_time off UFS_DI_MTIME_OFFSET timestamp img;
           img \<leftarrow> write_inode_time off UFS_DI_CTIME_OFFSET timestamp img;
           img \<leftarrow> put_u32 img (uadd off UFS_DI_MODE_OFFSET) mode;
           img \<leftarrow> put_u32 img (uadd off UFS_DI_UID_OFFSET) uid;
           img \<leftarrow> put_u32 img (uadd off UFS_DI_GID_OFFSET) gid;
           put_u32 img (uadd off UFS_DI_EFTFLAG_OFFSET) UFS_EFT_MAGIC })"

definition write_inode_size :: "ufs \<Rightarrow> int \<Rightarrow> u64 \<Rightarrow> image \<Rightarrow> image option" where
  "write_inode_size u inode_number sz img = put_u64 img (uadd (inode_offset u inode_number) UFS_DI_SIZE_OFFSET) sz"

definition write_inode_nlink :: "ufs \<Rightarrow> int \<Rightarrow> u16 \<Rightarrow> image \<Rightarrow> image option" where
  "write_inode_nlink u inode_number nlink img =
     put_u16 img (uadd (inode_offset u inode_number) UFS_DI_NLINK_OFFSET) nlink"

definition write_inode_blocks :: "ufs \<Rightarrow> int \<Rightarrow> u32 \<Rightarrow> image \<Rightarrow> image option" where
  "write_inode_blocks u inode_number sectors img =
     put_u32 img (uadd (inode_offset u inode_number) UFS_DI_BLOCKS_OFFSET) sectors"

text \<open>\<^verbatim>\<open>slice.get(index).copied().unwrap_or(0) as u32\<close>.\<close>

definition pointer_or_0 :: "int list \<Rightarrow> nat \<Rightarrow> u32" where
  "pointer_or_0 ps index = of_int (if index < length ps then ps ! index else 0)"

definition write_block_lists :: "ufs \<Rightarrow> int \<Rightarrow> int list \<Rightarrow> int list \<Rightarrow> image \<Rightarrow> image option" where
  "write_block_lists u inode_number direct indirect img =
     (let off = inode_offset u inode_number in
      do { img \<leftarrow> foldM (\<lambda>m index. put_u32 m (uadd off (UFS_DI_DB_OFFSET + index * 4)) (pointer_or_0 direct index))
                    img [0..<UFS_NDADDR];
           foldM (\<lambda>m index. put_u32 m (uadd off (UFS_DI_IB_OFFSET + index * 4)) (pointer_or_0 indirect index))
             img [0..<UFS_NIADDR] })"

section \<open>Indirect pointer trees\<close>

definition write_pointer_block :: "ufs \<Rightarrow> int \<Rightarrow> int list \<Rightarrow> image \<Rightarrow> image option" where
  "write_pointer_block u fs_block pointers img =
     (let block_offset = usize (data_block_offset (sb u) (start_offset u) fs_block);
          block_size = usize (bsize (sb u));
          nind = usize (nindir (sb u))
      in do { img \<leftarrow> fill_at img block_offset (block_offset + block_size) 0;
              foldM (\<lambda>m (index, pointer). put_u32 m (block_offset + index * 4) (of_int pointer))
                img (enumerate 0 (take nind pointers)) })"

text \<open>
  The pieces that \<^verbatim>\<open>split_at(min(len, capacity))\<close> cuts from a slice until it is empty. A zero capacity
  (a pointer count of zero) would never empty it: that loop does not return, which the callers below
  write as \<open>None\<close>.
\<close>

function chunks :: "nat \<Rightarrow> 'a list \<Rightarrow> 'a list list" where
  "chunks capacity xs =
     (if xs = [] \<or> capacity = 0 then [] else take capacity xs # chunks capacity (drop capacity xs))"
  by pat_completeness auto
termination
  by (relation "measure (\<lambda>(c, xs). length xs)") auto

declare chunks.simps [simp del]

text \<open>\<open>build_pointer_tree u n l\<close> is \<^verbatim>\<open>build_pointer_tree(.., levels = l + 1, ..)\<close>; the source is called with \<open>1..3\<close>.\<close>

primrec build_pointer_tree :: "ufs \<Rightarrow> int \<Rightarrow> nat \<Rightarrow> int list \<Rightarrow> (image, werror, int \<times> int) wm" where
  "build_pointer_tree u inode_number 0 = (\<lambda>data_blocks.
     if data_blocks = [] then wreturn (0, 0) else
     wbind (allocate_block u inode_number) (\<lambda>root_block.
     wbind (wmodify (write_pointer_block u root_block
              (take (min (length data_blocks) (usize (nindir (sb u)))) data_blocks))) (\<lambda>_.
     wreturn (root_block, 1))))"
| "build_pointer_tree u inode_number (Suc l) = (\<lambda>data_blocks.
     if data_blocks = [] then wreturn (0, 0) else
     let child_capacity = usize (nindir (sb u)) ^ Suc l mod 2 ^ 64 in
     if child_capacity = 0 then (\<lambda>_. None) else
     wbind (wmapM (build_pointer_tree u inode_number l) (chunks child_capacity data_blocks)) (\<lambda>children.
     wbind (allocate_block u inode_number) (\<lambda>root_block.
     wbind (wmodify (write_pointer_block u root_block (map fst children))) (\<lambda>_.
     wreturn (root_block, 1 + sum_list (map snd children))))))"

text \<open>The loop over the three levels, on what is left of the data blocks.\<close>

primrec build_levels :: "ufs \<Rightarrow> int \<Rightarrow> int list \<Rightarrow> nat list \<Rightarrow> (image, werror, (int \<times> int) list) wm" where
  "build_levels u inode_number remaining [] = wreturn []"
| "build_levels u inode_number remaining (levels # rest) =
     (let level_capacity = usize (nindir (sb u)) ^ levels mod 2 ^ 64;
          level_blocks = take (min (length remaining) level_capacity) remaining in
      wbind (if level_blocks \<noteq> [] then build_pointer_tree u inode_number (levels - 1) level_blocks
             else wreturn (0, 0)) (\<lambda>root.
      wbind (build_levels u inode_number (drop (min (length remaining) level_capacity) remaining) rest) (\<lambda>roots.
      wreturn (root # roots))))"

definition build_inode_pointer_structure :: "ufs \<Rightarrow> int \<Rightarrow> int list \<Rightarrow> (image, werror, int) wm" where
  "build_inode_pointer_structure u inode_number data_blocks =
     wbind (build_levels u inode_number (drop UFS_NDADDR data_blocks) [1, 2, 3]) (\<lambda>roots.
     wbind (wmodify (write_block_lists u inode_number (take UFS_NDADDR data_blocks) (map fst roots))) (\<lambda>_.
     wreturn (sum_list (map snd roots))))"

section \<open>Whole-inode replacement\<close>

text \<open>The release of the blocks of an inode, last to first: pointer blocks, then data blocks.\<close>

definition free_pointer_blocks :: "ufs \<Rightarrow> u32 list \<Rightarrow> (image, werror, unit) wm" where
  "free_pointer_blocks u pointer_blocks =
     wfor (rev pointer_blocks) (\<lambda>b. free_allocation u (uint b) (int (usize (bsize (sb u)))))"

definition free_data_blocks :: "ufs \<Rightarrow> u32 list \<Rightarrow> int list \<Rightarrow> (image, werror, unit) wm" where
  "free_data_blocks u data_blocks sizes =
     wfor (zip (rev data_blocks) (rev sizes)) (\<lambda>(b, n). free_allocation u (uint b) n)"

text \<open>The copy of the data into the fresh blocks, each padded with zeros to its allocation.\<close>

primrec write_fresh_blocks :: "ufs \<Rightarrow> (int \<times> int) list \<Rightarrow> bytes \<Rightarrow> (image, werror, unit) wm" where
  "write_fresh_blocks u [] remaining = wreturn ()"
| "write_fresh_blocks u (b # rest) remaining =
     (let (fs_block, allocation_bytes) = b;
          block_offset = usize (data_block_offset (sb u) (start_offset u) fs_block);
          chunk = take (min (length remaining) (usize (bsize (sb u)))) remaining;
          alloc = usize allocation_bytes in
      wbind (wmodify (\<lambda>img. copy_at img block_offset chunk)) (\<lambda>_.
      wbind (wmodify (\<lambda>img. fill_at img (block_offset + length chunk) (block_offset + alloc) 0)) (\<lambda>_.
      write_fresh_blocks u rest (drop (min (length remaining) (usize (bsize (sb u)))) remaining))))"

definition sectors_of :: "int list \<Rightarrow> int" where
  "sectors_of sizes = sum_list (map (\<lambda>a. a sdiv int SECTOR_SIZE) sizes)"

definition set_inode_contents :: "ufs \<Rightarrow> int \<Rightarrow> bytes \<Rightarrow> (image, werror, unit) wm" where
  "set_inode_contents u inode_number new_data =
     (let s = sb u; block_size = int (usize (bsize s)) in
      wbind (wread (\<lambda>img. read_inode img u inode_number)) (\<lambda>found.
      wbind (wok_or (UnreadableForReplacement inode_number) found) (\<lambda>i.
      wbind (wread (\<lambda>img. inode_data_blocks img u i)) (\<lambda>current_data_blocks.
      let current_allocation_sizes = allocation_byte_sizes s (i64 (uint (di_size i))) in
      wbind (wread (\<lambda>img. inode_pointer_blocks img u i)) (\<lambda>current_pointer_blocks.
      let requested = allocation_byte_sizes s (int (length new_data)) in
      wbind (free_pointer_blocks u current_pointer_blocks) (\<lambda>_.
      wbind (free_data_blocks u current_data_blocks current_allocation_sizes) (\<lambda>_.
      wbind (wmapM (allocate_allocation u inode_number) requested) (\<lambda>new_blocks.
      wbind (write_fresh_blocks u (zip new_blocks requested) new_data) (\<lambda>_.
      wbind (build_inode_pointer_structure u inode_number new_blocks) (\<lambda>pointer_count.
      wbind (wmodify (write_inode_size u inode_number (of_nat (length new_data)))) (\<lambda>_.
      let pointer_sectors = pointer_count * (block_size sdiv int SECTOR_SIZE) in
      wmodify (write_inode_blocks u inode_number (of_int (sectors_of requested + pointer_sectors))))))))))))))"

section \<open>Writes at an offset\<close>

fun common_allocation_prefix :: "int list \<Rightarrow> int list \<Rightarrow> nat" where
  "common_allocation_prefix (a # as) (b # bs) = (if a = b then Suc (common_allocation_prefix as bs) else 0)"
| "common_allocation_prefix _ _ = 0"

definition write_data_range :: "ufs \<Rightarrow> int list \<Rightarrow> int list \<Rightarrow> nat \<Rightarrow> bytes \<Rightarrow> image \<Rightarrow> image option" where
  "write_data_range u data_blocks allocation_sizes offset data img =
     (if data = [] then Some img else
      let block_size = usize (bsize (sb u));
          end_offset = uadd offset (length data);
          start_block = offset div block_size;
          end_block = min (min (length data_blocks) (length allocation_sizes))
                        ((end_offset + (block_size - 1)) div block_size)
      in foldM (\<lambda>img block_index.
           let fs_block = data_blocks ! block_index;
               allocation_bytes = usize (allocation_sizes ! block_index);
               logical_start = block_index * block_size;
               inner_start = offset - logical_start;
               inner_end = min (min block_size (end_offset - logical_start)) allocation_bytes
           in if inner_start \<ge> inner_end then Some img else
              let data_start = logical_start + inner_start - offset;
                  data_end = logical_start + inner_end - offset;
                  backing = usize (data_block_offset (sb u) (start_offset u) fs_block)
              in do { piece \<leftarrow> subslice data data_start data_end;
                      copy_at img (uadd backing inner_start) piece }) img [start_block..<end_block])"

definition apply_inode_write :: "ufs \<Rightarrow> int \<Rightarrow> nat \<Rightarrow> bytes \<Rightarrow> (image, werror, unit) wm" where
  "apply_inode_write u inode_number offset data =
     (let s = sb u; block_size = usize (bsize s) in
      wbind (wread (\<lambda>img. read_inode img u inode_number)) (\<lambda>found.
      wbind (wok_or (UnreadableForWrite inode_number) found) (\<lambda>i.
      let old_size = unat (di_size i); new_size = max old_size (uadd offset (length data)) in
      wbind (wread (\<lambda>img. inode_data_blocks img u i)) (\<lambda>current_blocks.
      let current_alloc = allocation_byte_sizes s (i64 (int old_size));
          requested_alloc = allocation_byte_sizes s (i64 (int new_size)) in
      if requested_alloc = current_alloc then
        wbind (wmodify (write_data_range u (map uint current_blocks) current_alloc offset data)) (\<lambda>_.
        if new_size \<noteq> old_size then wmodify (write_inode_size u inode_number (of_nat new_size))
        else wreturn ())
      else
        let prefix = common_allocation_prefix current_alloc requested_alloc;
            prefix_offset = prefix * block_size;
            preserved_suffix_bytes = old_size - prefix_offset in
        wbind (wopt (subslice current_blocks prefix (length current_blocks))) (\<lambda>old_suffix_blocks.
        wbind (wread (\<lambda>img. read_data_range img u old_suffix_blocks 0 preserved_suffix_bytes)) (\<lambda>suffix_seed.
        wbind (wread (\<lambda>img. inode_pointer_blocks img u i)) (\<lambda>pointer_blocks.
        wbind (free_pointer_blocks u pointer_blocks) (\<lambda>_.
        wbind (free_data_blocks u old_suffix_blocks (drop prefix current_alloc)) (\<lambda>_.
        let new_suffix_alloc = drop prefix requested_alloc in
        wbind (wmapM (allocate_allocation u inode_number) new_suffix_alloc) (\<lambda>suffix_blocks.
        let rebuilt = map uint (take prefix current_blocks) @ suffix_blocks in
        wbind (if suffix_seed \<noteq> [] then wmodify (write_data_range u suffix_blocks new_suffix_alloc 0 suffix_seed)
               else wreturn ()) (\<lambda>_.
        wbind (build_inode_pointer_structure u inode_number rebuilt) (\<lambda>pointer_count.
        wbind (wmodify (write_inode_size u inode_number (of_nat new_size))) (\<lambda>_.
        let pointer_sectors = pointer_count * (int block_size sdiv int SECTOR_SIZE) in
        wbind (wmodify (write_inode_blocks u inode_number
                          (of_int (sectors_of requested_alloc + pointer_sectors)))) (\<lambda>_.
        wmodify (write_data_range u rebuilt requested_alloc offset data)))))))))))))))"

definition free_inode_contents :: "ufs \<Rightarrow> int \<Rightarrow> (image, werror, unit) wm" where
  "free_inode_contents u inode_number = set_inode_contents u inode_number []"

section \<open>Truncation and attribute setters\<close>

text \<open>\<^verbatim>\<open>Vec::resize(n, 0)\<close>.\<close>

definition resize0 :: "nat \<Rightarrow> bytes \<Rightarrow> bytes" where
  "resize0 n xs = take n xs @ replicate (n - length xs) 0"

definition truncate :: "ufs \<Rightarrow> int \<Rightarrow> u64 \<Rightarrow> (image, werror, unit) wm" where
  "truncate u inode_number sz =
     wbind (wread (\<lambda>img. read_inode img u inode_number)) (\<lambda>found.
     wbind (wok_or (InodeUnreadable inode_number) found) (\<lambda>i.
     if di_size i = sz then wreturn () else
     wbind (wread (\<lambda>img. read_inode_bytes img u i)) (\<lambda>content.
     set_inode_contents u inode_number (resize0 (unat sz) content))))"

definition set_inode_mode :: "ufs \<Rightarrow> int \<Rightarrow> u32 \<Rightarrow> image \<Rightarrow> image option" where
  "set_inode_mode u inode_number mode img =
     put_u32 img (uadd (inode_offset u inode_number) UFS_DI_MODE_OFFSET) mode"

definition set_inode_owner :: "ufs \<Rightarrow> int \<Rightarrow> u32 \<Rightarrow> u32 \<Rightarrow> image \<Rightarrow> image option" where
  "set_inode_owner u inode_number uid gid img =
     (let off = inode_offset u inode_number in
      do { img \<leftarrow> put_u16 img (uadd off UFS_DI_SUID_OFFSET) (ucast uid);
           img \<leftarrow> put_u16 img (uadd off UFS_DI_SGID_OFFSET) (ucast gid);
           img \<leftarrow> put_u32 img (uadd off UFS_DI_UID_OFFSET) uid;
           put_u32 img (uadd off UFS_DI_GID_OFFSET) gid })"

definition set_time_field :: "nat \<Rightarrow> nat \<Rightarrow> u32 option \<Rightarrow> image \<Rightarrow> image option" where
  "set_time_field off field time img =
     (case time of None \<Rightarrow> Some img | Some t \<Rightarrow> write_inode_time off field t img)"

definition set_inode_times ::
    "ufs \<Rightarrow> int \<Rightarrow> u32 option \<Rightarrow> u32 option \<Rightarrow> u32 option \<Rightarrow> image \<Rightarrow> image option" where
  "set_inode_times u inode_number atime mtime ctime img =
     (let off = inode_offset u inode_number in
      do { img \<leftarrow> set_time_field off UFS_DI_ATIME_OFFSET atime img;
           img \<leftarrow> set_time_field off UFS_DI_MTIME_OFFSET mtime img;
           set_time_field off UFS_DI_CTIME_OFFSET ctime img })"

end
