(* ===== verification/Dir_Write.thy ===== *)
theory Dir_Write
  imports Inode_Write
begin

text \<open>
  \<^verbatim>\<open>crates/svr4-ufs/src/write.rs\<close>, second part: encoding of directory records, the search for a slot,
  insertion, removal and rewriting of an entry, on the bytes of a directory and on the image.
\<close>

section \<open>Encoding\<close>

definition encode_entry :: "int \<Rightarrow> rstr \<Rightarrow> nat \<Rightarrow> bytes option" where
  "encode_entry inode_number name record_length =
     do { raw \<leftarrow> put_u32 (replicate record_length 0) 0 (of_int inode_number);
          raw \<leftarrow> put_u16 raw UFS_DIRENT_RECLEN_OFFSET (of_nat record_length);
          raw \<leftarrow> put_u16 raw UFS_DIRENT_NAMLEN_OFFSET (of_nat (length name));
          copy_at raw UFS_DIRENT_NAME_OFFSET name }"

abbreviation dot :: rstr where "dot \<equiv> [0x2E]"

abbreviation dotdot :: rstr where "dotdot \<equiv> [0x2E, 0x2E]"

definition build_directory_block :: "int \<Rightarrow> int \<Rightarrow> bytes option" where
  "build_directory_block self_inode parent_inode =
     do { block \<leftarrow> encode_entry self_inode dot (ufs_dirsiz 1);
          parent \<leftarrow> encode_entry parent_inode dotdot (UFS_DIRBLKSIZ - length block);
          Some (block @ parent) }"

section \<open>Slots\<close>

record insert_slot =
  block_offset :: nat
  entry_offset :: nat
  record_length :: nat
  previous_entry :: "(nat \<times> nat) option" \<comment> \<open>offset and new length, set together\<close>

definition fresh_slot :: "nat \<Rightarrow> insert_slot" where
  "fresh_slot off = \<lparr> block_offset = off, entry_offset = off, record_length = UFS_DIRBLKSIZ,
                     previous_entry = None \<rparr>"

text \<open>The scan of one block: \<open>Inl\<close> a slot, or \<open>Inr\<close> whether any record was found.\<close>

function slot_scan :: "bytes \<Rightarrow> nat \<Rightarrow> nat \<Rightarrow> nat \<Rightarrow> bool \<Rightarrow> nat \<Rightarrow> (insert_slot + bool) option" where
  "slot_scan directory_bytes needed_length block_off block_limit found_record cursor =
     (if cursor + 8 \<le> block_limit then
        (case decode_directory_header directory_bytes cursor block_limit of
           None \<Rightarrow> None
         | Some None \<Rightarrow> Some (Inr found_record)
         | Some (Some entry) \<Rightarrow>
             let rec_len = unat (h_record_length entry);
                 minimal_length = ufs_dirsiz (unat (h_name_length entry));
                 available_length = rec_len - minimal_length in
             if h_inode entry = 0 \<and> rec_len \<ge> needed_length then
               Some (Inl \<lparr> block_offset = block_off, entry_offset = cursor, record_length = rec_len,
                          previous_entry = None \<rparr>)
             else if h_inode entry \<noteq> 0 \<and> available_length \<ge> needed_length then
               Some (Inl \<lparr> block_offset = block_off, entry_offset = cursor + minimal_length,
                          record_length = available_length,
                          previous_entry = Some (cursor, minimal_length) \<rparr>)
             else slot_scan directory_bytes needed_length block_off block_limit True (cursor + rec_len))
      else Some (Inr found_record))"
  by pat_completeness auto
termination
  by (relation "measure (\<lambda>(d, n, b, l, f, c). l - c)") (auto dest: decode_header_length)

declare slot_scan.simps [simp del]

primrec slot_blocks :: "bytes \<Rightarrow> nat \<Rightarrow> nat \<Rightarrow> nat \<Rightarrow> nat list \<Rightarrow> insert_slot option option" where
  "slot_blocks directory_bytes max_length needed_length rounded_length [] =
     Some (if needed_length \<le> UFS_DIRBLKSIZ then Some (fresh_slot rounded_length) else None)"
| "slot_blocks directory_bytes max_length needed_length rounded_length (off # rest) =
     (let block_limit = min (off + UFS_DIRBLKSIZ) max_length;
          next = slot_blocks directory_bytes max_length needed_length rounded_length rest in
      if block_limit \<le> off then
        (if needed_length \<le> UFS_DIRBLKSIZ then Some (Some (fresh_slot off)) else next)
      else do { r \<leftarrow> slot_scan directory_bytes needed_length off block_limit False off;
                (case r of
                   Inl slot \<Rightarrow> Some (Some slot)
                 | Inr found_record \<Rightarrow>
                     if \<not> found_record \<and> needed_length \<le> UFS_DIRBLKSIZ then Some (Some (fresh_slot off))
                     else next) })"

definition find_insert_slot :: "bytes \<Rightarrow> nat \<Rightarrow> rstr \<Rightarrow> insert_slot option option" where
  "find_insert_slot directory_bytes sz name =
     (let needed_length = ufs_dirsiz (length name);
          max_length = min (length directory_bytes) sz;
          rounded = (max_length + (UFS_DIRBLKSIZ - 1)) div UFS_DIRBLKSIZ * UFS_DIRBLKSIZ;
          rounded_length = (if rounded = 0 then UFS_DIRBLKSIZ else rounded)
      in slot_blocks directory_bytes max_length needed_length rounded_length
           (dir_block_offsets rounded_length))"

definition insert_entry :: "bytes \<Rightarrow> nat \<Rightarrow> int \<Rightarrow> rstr \<Rightarrow> (werror + bytes) option" where
  "insert_entry directory_bytes sz inode_number name =
     do { found \<leftarrow> find_insert_slot directory_bytes sz name;
          (case found of
             None \<Rightarrow> Some (Inl (NoDirectorySlot name))
           | Some slot \<Rightarrow>
               let needed_length = ufs_dirsiz (length name);
                   target_length = max needed_length (record_length slot);
                   new_size = max (max (length directory_bytes) (block_offset slot + UFS_DIRBLKSIZ))
                                (entry_offset slot + target_length);
                   updated = directory_bytes @ replicate (new_size - length directory_bytes) 0 in
               do { (updated, target_length) \<leftarrow>
                      (case previous_entry slot of
                         Some (prev_off, prev_len) \<Rightarrow>
                           do { updated \<leftarrow> put_u16 updated (prev_off + UFS_DIRENT_RECLEN_OFFSET) (of_nat prev_len);
                                Some (updated, record_length slot) }
                       | None \<Rightarrow>
                           let remaining_length = record_length slot - needed_length in
                           if remaining_length \<ge> 8 then
                             do { filler \<leftarrow> encode_entry 0 [] remaining_length;
                                  updated \<leftarrow> copy_at updated (entry_offset slot + needed_length) filler;
                                  Some (updated, needed_length) }
                           else Some (updated, target_length));
                    record \<leftarrow> encode_entry inode_number name target_length;
                    updated \<leftarrow> copy_at updated (entry_offset slot) record;
                    Some (Inr updated) }) }"

section \<open>Insertion into the image\<close>

text \<open>Write \<open>bs\<close> over the directory bytes at logical \<open>offset\<close>, inside one file-system block.\<close>

definition put_dir_bytes :: "ufs \<Rightarrow> u32 list \<Rightarrow> nat \<Rightarrow> bytes \<Rightarrow> image \<Rightarrow> image option" where
  "put_dir_bytes u data_blocks offset bs img =
     (let block_size = usize (bsize (sb u)) in
      do { fs_block \<leftarrow> get_at data_blocks (offset div block_size);
           let backing = usize (data_block_offset (sb u) (start_offset u) (uint fs_block)) in
           copy_at img (uadd backing (offset mod block_size)) bs })"

text \<open>The fast path: try the last directory block alone. \<open>True\<close> when the entry was written.\<close>

definition add_in_last_block :: "ufs \<Rightarrow> inode \<Rightarrow> rstr \<Rightarrow> int \<Rightarrow> (image, werror, bool) wm" where
  "add_in_last_block u directory_inode entry_name child_inode_number =
     (let sz = unat (di_size directory_inode);
          rounded = (sz + (UFS_DIRBLKSIZ - 1)) div UFS_DIRBLKSIZ * UFS_DIRBLKSIZ;
          last_off = rounded - UFS_DIRBLKSIZ;
          span = min (sz - last_off) UFS_DIRBLKSIZ in
      if rounded > UFS_DIRBLKSIZ \<and> span > 0 then
        wbind (wread (\<lambda>img. read_inode_range img u directory_inode last_off span)) (\<lambda>last_block.
        wbind (wopt (insert_entry last_block span child_inode_number entry_name)) (\<lambda>r.
        case r of
          Inr updated \<Rightarrow>
            if length updated = span then
              wbind (wread (\<lambda>img. inode_data_blocks img u directory_inode)) (\<lambda>data_blocks.
              wbind (wmodify (put_dir_bytes u data_blocks last_off updated)) (\<lambda>_. wreturn True))
            else wreturn False
        | Inl _ \<Rightarrow> wreturn False))
      else wreturn False)"

definition write_changed_blocks :: "ufs \<Rightarrow> u32 list \<Rightarrow> nat \<Rightarrow> bytes \<Rightarrow> bytes \<Rightarrow> image \<Rightarrow> image option" where
  "write_changed_blocks u data_blocks sz old new img =
     foldM (\<lambda>img offset.
       let e = min (offset + UFS_DIRBLKSIZ) sz in
       do { a \<leftarrow> subslice old offset e;
            b \<leftarrow> subslice new offset e;
            if a \<noteq> b then put_dir_bytes u data_blocks offset b img else Some img }) img (dir_block_offsets sz)"

definition add_directory_entry :: "ufs \<Rightarrow> int \<Rightarrow> inode \<Rightarrow> rstr \<Rightarrow> int \<Rightarrow> (image, werror, unit) wm" where
  "add_directory_entry u directory_inode_number directory_inode entry_name child_inode_number =
     (let sz = unat (di_size directory_inode) in
      wbind (add_in_last_block u directory_inode entry_name child_inode_number) (\<lambda>written.
      if written then wreturn () else
      wbind (wread (\<lambda>img. read_inode_bytes img u directory_inode)) (\<lambda>dir_bytes.
      wbind (wopt (insert_entry dir_bytes sz child_inode_number entry_name)) (\<lambda>r.
      case r of
        Inl e \<Rightarrow> wfail e
      | Inr updated \<Rightarrow>
          if length updated = sz then
            wbind (wread (\<lambda>img. inode_data_blocks img u directory_inode)) (\<lambda>data_blocks.
            wmodify (write_changed_blocks u data_blocks sz dir_bytes updated))
          else
            wbind (wopt (subslice updated sz (length updated))) (\<lambda>tail.
            apply_inode_write u directory_inode_number sz tail)))))"

section \<open>Removal and rewriting\<close>

primrec remove_loop :: "bytes \<Rightarrow> rstr \<Rightarrow> dir_entry option \<Rightarrow> dir_entry list \<Rightarrow> bytes option option" where
  "remove_loop block name previous [] = Some None"
| "remove_loop block name previous (r # rs) =
     (if e_name r \<noteq> name \<or> e_inode r = 0 then
        remove_loop block name (if e_offset r mod UFS_DIRBLKSIZ = 0 then None else Some r) rs
      else
        do { updated \<leftarrow>
               (case previous of
                  Some prev \<Rightarrow>
                    if e_offset prev div UFS_DIRBLKSIZ = e_offset r div UFS_DIRBLKSIZ then
                      put_u16 block (e_offset prev + UFS_DIRENT_RECLEN_OFFSET)
                        (e_record_length prev + e_record_length r)
                    else do { empty \<leftarrow> encode_entry 0 [] (unat (e_record_length r));
                              copy_at block (e_offset r) empty }
                | None \<Rightarrow> do { empty \<leftarrow> encode_entry 0 [] (unat (e_record_length r));
                              copy_at block (e_offset r) empty });
             Some (Some updated) })"

definition remove_entry :: "bytes \<Rightarrow> nat \<Rightarrow> rstr \<Rightarrow> bytes option option" where
  "remove_entry block sz name =
     do { records \<leftarrow> iter_directory_records block sz; remove_loop block name None records }"

primrec rewrite_loop :: "bytes \<Rightarrow> rstr \<Rightarrow> int \<Rightarrow> dir_entry list \<Rightarrow> bytes option option" where
  "rewrite_loop block name inode_number [] = Some None"
| "rewrite_loop block name inode_number (r # rs) =
     (if e_inode r \<noteq> 0 \<and> e_name r = name then
        do { updated \<leftarrow> put_u32 block (e_offset r) (of_int inode_number); Some (Some updated) }
      else rewrite_loop block name inode_number rs)"

definition rewrite_entry_inode :: "bytes \<Rightarrow> nat \<Rightarrow> rstr \<Rightarrow> int \<Rightarrow> bytes option option" where
  "rewrite_entry_inode block sz name inode_number =
     do { records \<leftarrow> iter_directory_records block sz; rewrite_loop block name inode_number records }"

text \<open>
  The loop that \<^verbatim>\<open>delete_directory_entry\<close> and \<^verbatim>\<open>update_directory_dotdot\<close> share: the first directory block
  that \<open>edit\<close> changes is written back in place. \<open>None\<close> when \<open>edit\<close> changes no block.
\<close>

definition edit_block ::
    "ufs \<Rightarrow> u32 list \<Rightarrow> bytes \<Rightarrow> nat \<Rightarrow> (bytes \<Rightarrow> nat \<Rightarrow> bytes option option) \<Rightarrow> nat \<Rightarrow>
     (image, werror, unit option) wm" where
  "edit_block u data_blocks dir_bytes sz edit block_off =
     (let span = min UFS_DIRBLKSIZ (sz - block_off) in
      wbind (wopt (subslice dir_bytes block_off (block_off + span))) (\<lambda>block.
      wbind (wopt (edit block span)) (\<lambda>r.
      case r of
        Some updated \<Rightarrow> wbind (wmodify (put_dir_bytes u data_blocks block_off updated)) (\<lambda>_. wreturn (Some ()))
      | None \<Rightarrow> wreturn None)))"

definition edit_directory ::
    "ufs \<Rightarrow> inode \<Rightarrow> (bytes \<Rightarrow> nat \<Rightarrow> bytes option option) \<Rightarrow> werror \<Rightarrow> (image, werror, unit) wm" where
  "edit_directory u directory_inode edit err =
     (let sz = unat (di_size directory_inode) in
      wbind (wread (\<lambda>img. read_inode_bytes img u directory_inode)) (\<lambda>dir_bytes.
      wbind (wread (\<lambda>img. inode_data_blocks img u directory_inode)) (\<lambda>data_blocks.
      wfirst (dir_block_offsets sz) (edit_block u data_blocks dir_bytes sz edit) err)))"

definition delete_directory_entry :: "ufs \<Rightarrow> inode \<Rightarrow> rstr \<Rightarrow> (image, werror, unit) wm" where
  "delete_directory_entry u directory_inode entry_name =
     edit_directory u directory_inode (\<lambda>block span. remove_entry block span entry_name)
       (EntryNotFound entry_name)"

definition update_directory_dotdot :: "ufs \<Rightarrow> inode \<Rightarrow> int \<Rightarrow> (image, werror, unit) wm" where
  "update_directory_dotdot u dir_inode new_parent_number =
     edit_directory u dir_inode (\<lambda>block span. rewrite_entry_inode block span dotdot new_parent_number)
       DotdotMissing"

end
