(* ===== verification/Namespace.thy ===== *)
theory Namespace
  imports Dir_Write
begin

text \<open>
  \<^verbatim>\<open>crates/svr4-ufs/src/write.rs\<close>, third part: the operations on names. The path-based ones serve the
  populate tool, the \<^verbatim>\<open>_in_parent\<close> ones the FUSE daemon, which addresses an object by its parent inode and
  its name.
\<close>

section \<open>Paths\<close>

primrec join_slash :: "rstr list \<Rightarrow> rstr" where
  "join_slash [] = []"
| "join_slash (p # ps) = (if ps = [] then p else p @ 0x2F # join_slash ps)"

definition split_parent :: "rstr \<Rightarrow> rstr \<times> rstr" where
  "split_parent path =
     (let parts = path_parts path;
          name = (if parts = [] then [] else last parts);
          parent = (if length parts > 1 then join_slash (butlast parts) else [])
      in (parent, name))"

definition resolve_creation_parent :: "ufs \<Rightarrow> rstr \<Rightarrow> (image, werror, rstr \<times> int \<times> inode) wm" where
  "resolve_creation_parent u target_path =
     (let (parent_path, entry_name) = split_parent target_path in
      wbind (wread (\<lambda>img. resolve_path img u parent_path)) (\<lambda>found.
      wbind (wok_or (ParentUnresolved parent_path) found) (\<lambda>(parent_number, parent_inode).
      if \<not> is_directory parent_inode then wfail (ParentPathNotDirectory parent_path) else
      wbind (wread (\<lambda>img. lookup_directory_entry img u parent_inode entry_name)) (\<lambda>existing.
      if existing \<noteq> None then wfail (TargetExists target_path)
      else wreturn (entry_name, uint parent_number, parent_inode)))))"

definition resolve_removal_parent :: "ufs \<Rightarrow> rstr \<Rightarrow> (image, werror, rstr \<times> int \<times> inode) wm" where
  "resolve_removal_parent u target_path =
     (let (parent_path, entry_name) = split_parent target_path in
      wbind (wread (\<lambda>img. resolve_path img u parent_path)) (\<lambda>found.
      wbind (wok_or (ParentUnresolved parent_path) found) (\<lambda>(parent_number, parent_inode).
      wreturn (entry_name, uint parent_number, parent_inode))))"

section \<open>Path-based operations\<close>

definition file_mode :: "u32 \<Rightarrow> u32" where
  "file_mode mode = (if mode AND UFS_IFMT \<noteq> 0 then mode AND UFS_IFMT else UFS_IFREG) OR (mode AND NOT UFS_IFMT)"

definition create_file ::
    "ufs \<Rightarrow> rstr \<Rightarrow> bytes \<Rightarrow> u32 \<Rightarrow> u32 \<Rightarrow> u32 \<Rightarrow> u32 \<Rightarrow> (image, werror, int) wm" where
  "create_file u target_path file_bytes mode uid gid timestamp =
     wbind (resolve_creation_parent u target_path) (\<lambda>(entry_name, parent_number, parent_inode).
     wbind (allocate_inode u (Some parent_number) False) (\<lambda>new_number.
     wbind (wmodify (initialize_inode u new_number (file_mode mode) uid gid 1 timestamp)) (\<lambda>_.
     wbind (if file_bytes \<noteq> [] then set_inode_contents u new_number file_bytes else wreturn ()) (\<lambda>_.
     wbind (add_directory_entry u parent_number parent_inode entry_name new_number) (\<lambda>_.
     wreturn new_number)))))"

definition make_directory :: "ufs \<Rightarrow> rstr \<Rightarrow> u32 \<Rightarrow> u32 \<Rightarrow> u32 \<Rightarrow> u32 \<Rightarrow> (image, werror, int) wm" where
  "make_directory u target_path mode uid gid timestamp =
     wbind (resolve_creation_parent u target_path) (\<lambda>(entry_name, parent_number, parent_inode).
     wbind (allocate_inode u (Some parent_number) True) (\<lambda>new_number.
     wbind (wmodify (initialize_inode u new_number (UFS_IFDIR OR (mode AND NOT UFS_IFMT)) uid gid 2 timestamp)) (\<lambda>_.
     wbind (wopt (build_directory_block new_number parent_number)) (\<lambda>block.
     wbind (set_inode_contents u new_number block) (\<lambda>_.
     wbind (add_directory_entry u parent_number parent_inode entry_name new_number) (\<lambda>_.
     wbind (wmodify (write_inode_nlink u parent_number (di_nlink parent_inode + 1))) (\<lambda>_.
     wreturn new_number)))))))"

definition link :: "ufs \<Rightarrow> rstr \<Rightarrow> rstr \<Rightarrow> (image, werror, int) wm" where
  "link u source_path target_path =
     wbind (wread (\<lambda>img. resolve_path img u source_path)) (\<lambda>found.
     wbind (wok_or (SourceMissing source_path) found) (\<lambda>(number, source_inode).
     let source_number = uint number in
     if is_directory source_inode then wfail (HardLinkToDirectory source_path) else
     wbind (resolve_creation_parent u target_path) (\<lambda>(entry_name, parent_number, parent_inode).
     wbind (add_directory_entry u parent_number parent_inode entry_name source_number) (\<lambda>_.
     wbind (wmodify (write_inode_nlink u source_number (di_nlink source_inode + 1))) (\<lambda>_.
     wreturn source_number)))))"

definition symlink ::
    "ufs \<Rightarrow> rstr \<Rightarrow> rstr \<Rightarrow> u32 \<Rightarrow> u32 \<Rightarrow> u32 \<Rightarrow> u32 \<Rightarrow> (image, werror, int) wm" where
  "symlink u target link_path mode uid gid timestamp =
     create_file u link_path target (UFS_IFLNK OR mode) uid gid timestamp"

text \<open>Drop one link of a non-directory, or release the inode with its contents when it was the last.\<close>

definition drop_link :: "ufs \<Rightarrow> int \<Rightarrow> inode \<Rightarrow> (image, werror, unit) wm" where
  "drop_link u target_number target_inode =
     (if di_nlink target_inode > 1 then wmodify (write_inode_nlink u target_number (di_nlink target_inode - 1))
      else wbind (free_inode_contents u target_number) (\<lambda>_.
           wbind (wmodify (clear_inode u target_number)) (\<lambda>_.
           free_inode u target_number False)))"

text \<open>The tail of a directory removal.\<close>

definition release_directory :: "ufs \<Rightarrow> int \<Rightarrow> inode \<Rightarrow> int \<Rightarrow> (image, werror, unit) wm" where
  "release_directory u parent_number parent_inode target_number =
     wbind (wmodify (write_inode_nlink u parent_number
              (if di_nlink parent_inode = 0 then 0 else di_nlink parent_inode - 1))) (\<lambda>_.
     wbind (free_inode_contents u target_number) (\<lambda>_.
     wbind (wmodify (clear_inode u target_number)) (\<lambda>_.
     free_inode u target_number True)))"

definition unlink :: "ufs \<Rightarrow> rstr \<Rightarrow> (image, werror, int) wm" where
  "unlink u target_path =
     (if target_path = [0x2F] then wfail UnlinkRoot else
      wbind (wread (\<lambda>img. resolve_path img u target_path)) (\<lambda>found.
      wbind (wok_or (TargetMissing target_path) found) (\<lambda>(number, target_inode).
      let target_number = uint number in
      if is_directory target_inode then wfail (TargetIsDirectory target_path) else
      wbind (resolve_removal_parent u target_path) (\<lambda>(entry_name, parent_number, parent_inode).
      wbind (delete_directory_entry u parent_inode entry_name) (\<lambda>_.
      wbind (drop_link u target_number target_inode) (\<lambda>_.
      wreturn target_number))))))"

definition directory_is_empty :: "image \<Rightarrow> ufs \<Rightarrow> inode \<Rightarrow> bool option" where
  "directory_is_empty img u i =
     do { records \<leftarrow> iter_inode_directory_records img u i;
          Some (list_all (\<lambda>r. e_inode r = 0 \<or> e_name r = dot \<or> e_name r = dotdot) records) }"

definition remove_directory :: "ufs \<Rightarrow> rstr \<Rightarrow> (image, werror, int) wm" where
  "remove_directory u target_path =
     (if target_path = [0x2F] then wfail RemoveRoot else
      wbind (wread (\<lambda>img. resolve_path img u target_path)) (\<lambda>found.
      wbind (wok_or (TargetMissing target_path) found) (\<lambda>(number, target_inode).
      let target_number = uint number in
      if \<not> is_directory target_inode then wfail (TargetNotDirectory target_path) else
      wbind (wread (\<lambda>img. directory_is_empty img u target_inode)) (\<lambda>is_empty.
      if \<not> is_empty then wfail (TargetNotEmpty target_path) else
      wbind (resolve_removal_parent u target_path) (\<lambda>(entry_name, parent_number, parent_inode).
      wbind (delete_directory_entry u parent_inode entry_name) (\<lambda>_.
      wbind (release_directory u parent_number parent_inode target_number) (\<lambda>_.
      wreturn target_number)))))))"

section \<open>Inode-based operations\<close>

definition read_parent :: "ufs \<Rightarrow> int \<Rightarrow> (image, werror, inode) wm" where
  "read_parent u parent_number =
     wbind (wread (\<lambda>img. read_inode img u parent_number)) (\<lambda>found.
     wok_or (ParentUnreadable parent_number) found)"

definition create_empty_in_parent ::
    "ufs \<Rightarrow> int \<Rightarrow> rstr \<Rightarrow> u32 \<Rightarrow> u32 \<Rightarrow> u32 \<Rightarrow> u32 \<Rightarrow> (image, werror, int) wm" where
  "create_empty_in_parent u parent_number name mode uid gid timestamp =
     wbind (read_parent u parent_number) (\<lambda>parent_inode.
     if \<not> is_directory parent_inode then wfail ParentInodeNotDirectory else
     wbind (allocate_inode u (Some parent_number) False) (\<lambda>new_number.
     wbind (wmodify (initialize_inode u new_number (file_mode mode) uid gid 1 timestamp)) (\<lambda>_.
     wbind (add_directory_entry u parent_number parent_inode name new_number) (\<lambda>_.
     wreturn new_number))))"

definition mkdir_in_parent ::
    "ufs \<Rightarrow> int \<Rightarrow> rstr \<Rightarrow> u32 \<Rightarrow> u32 \<Rightarrow> u32 \<Rightarrow> u32 \<Rightarrow> (image, werror, int) wm" where
  "mkdir_in_parent u parent_number name mode uid gid timestamp =
     wbind (read_parent u parent_number) (\<lambda>parent_inode.
     if \<not> is_directory parent_inode then wfail ParentInodeNotDirectory else
     wbind (allocate_inode u (Some parent_number) True) (\<lambda>new_number.
     wbind (wmodify (initialize_inode u new_number (UFS_IFDIR OR (mode AND NOT UFS_IFMT)) uid gid 2 timestamp)) (\<lambda>_.
     wbind (wopt (build_directory_block new_number parent_number)) (\<lambda>block.
     wbind (set_inode_contents u new_number block) (\<lambda>_.
     wbind (add_directory_entry u parent_number parent_inode name new_number) (\<lambda>_.
     wbind (wmodify (write_inode_nlink u parent_number (di_nlink parent_inode + 1))) (\<lambda>_.
     wreturn new_number)))))))"

definition symlink_in_parent ::
    "ufs \<Rightarrow> int \<Rightarrow> rstr \<Rightarrow> rstr \<Rightarrow> u32 \<Rightarrow> u32 \<Rightarrow> u32 \<Rightarrow> u32 \<Rightarrow> (image, werror, int) wm" where
  "symlink_in_parent u parent_number name target mode uid gid timestamp =
     wbind (read_parent u parent_number) (\<lambda>parent_inode.
     wbind (allocate_inode u (Some parent_number) False) (\<lambda>new_number.
     wbind (wmodify (initialize_inode u new_number (UFS_IFLNK OR (mode AND NOT UFS_IFMT)) uid gid 1 timestamp)) (\<lambda>_.
     wbind (set_inode_contents u new_number target) (\<lambda>_.
     wbind (add_directory_entry u parent_number parent_inode name new_number) (\<lambda>_.
     wreturn new_number)))))"

definition mknod_in_parent ::
    "ufs \<Rightarrow> int \<Rightarrow> rstr \<Rightarrow> u32 \<Rightarrow> u32 \<Rightarrow> u32 \<Rightarrow> u32 \<Rightarrow> u32 \<Rightarrow> u32 \<Rightarrow> u32 \<Rightarrow> (image, werror, int) wm" where
  "mknod_in_parent u parent_number name ftype major minor mode uid gid timestamp =
     (if ftype \<noteq> UFS_IFCHR \<and> ftype \<noteq> UFS_IFBLK then wfail (UnsupportedSpecial ftype) else
      wbind (read_parent u parent_number) (\<lambda>parent_inode.
      if \<not> is_directory parent_inode then wfail ParentInodeNotDirectory else
      wbind (allocate_inode u (Some parent_number) False) (\<lambda>new_number.
      wbind (wmodify (initialize_inode u new_number (ftype OR (mode AND NOT UFS_IFMT)) uid gid 1 timestamp)) (\<lambda>_.
      wbind (wmodify (write_inode_size u new_number 0)) (\<lambda>_.
      wbind (wmodify (write_inode_blocks u new_number 0)) (\<lambda>_.
      let old_device = uint (push_bit 8 (major AND 0x7f) OR (minor AND 0xff));
          expanded_device = uint (push_bit 18 major OR minor) in
      wbind (wmodify (write_block_lists u new_number [old_device, expanded_device] [0, 0, 0])) (\<lambda>_.
      wbind (add_directory_entry u parent_number parent_inode name new_number) (\<lambda>_.
      wreturn new_number))))))))"

definition link_in_parent :: "ufs \<Rightarrow> int \<Rightarrow> rstr \<Rightarrow> int \<Rightarrow> (image, werror, unit) wm" where
  "link_in_parent u parent_number name target_number =
     wbind (read_parent u parent_number) (\<lambda>parent_inode.
     wbind (wread (\<lambda>img. read_inode img u target_number)) (\<lambda>found.
     wbind (wok_or (LinkTargetUnreadable target_number) found) (\<lambda>target_inode.
     if is_directory target_inode then wfail HardLinkDirectory else
     wbind (add_directory_entry u parent_number parent_inode name target_number) (\<lambda>_.
     wmodify (write_inode_nlink u target_number (di_nlink target_inode + 1))))))"

definition unlink_in_parent :: "ufs \<Rightarrow> int \<Rightarrow> rstr \<Rightarrow> (image, werror, int) wm" where
  "unlink_in_parent u parent_number name =
     wbind (read_parent u parent_number) (\<lambda>parent_inode.
     wbind (wread (\<lambda>img. lookup_directory_entry img u parent_inode name)) (\<lambda>found.
     wbind (wok_or (NameMissing name) found) (\<lambda>(number, target_inode).
     let target_number = uint number in
     if is_directory target_inode then wfail (NameIsDirectory name) else
     wbind (delete_directory_entry u parent_inode name) (\<lambda>_.
     wbind (drop_link u target_number target_inode) (\<lambda>_.
     wreturn target_number)))))"

definition rmdir_in_parent :: "ufs \<Rightarrow> int \<Rightarrow> rstr \<Rightarrow> (image, werror, int) wm" where
  "rmdir_in_parent u parent_number name =
     wbind (read_parent u parent_number) (\<lambda>parent_inode.
     wbind (wread (\<lambda>img. lookup_directory_entry img u parent_inode name)) (\<lambda>found.
     wbind (wok_or (NameMissing name) found) (\<lambda>(number, target_inode).
     let target_number = uint number in
     if \<not> is_directory target_inode then wfail (NameNotDirectory name) else
     wbind (wread (\<lambda>img. directory_is_empty img u target_inode)) (\<lambda>is_empty.
     if \<not> is_empty then wfail (NameNotEmpty name) else
     wbind (delete_directory_entry u parent_inode name) (\<lambda>_.
     wbind (release_directory u parent_number parent_inode target_number) (\<lambda>_.
     wreturn target_number))))))"

text \<open>\<^verbatim>\<open>read_inode(..).unwrap()\<close>.\<close>

definition read_inode_unwrap :: "ufs \<Rightarrow> int \<Rightarrow> (image, werror, inode) wm" where
  "read_inode_unwrap u n = wbind (wread (\<lambda>img. read_inode img u n)) wopt"

text \<open>The replacement of an existing target: \<open>True\<close> when source and target are already the same inode.\<close>

definition replace_target :: "ufs \<Rightarrow> int \<Rightarrow> inode \<Rightarrow> int \<Rightarrow> inode \<Rightarrow> rstr \<Rightarrow> (image, werror, bool) wm" where
  "replace_target u src_number src_inode dst_parent dst_parent_inode dst_name =
     wbind (wread (\<lambda>img. lookup_directory_entry img u dst_parent_inode dst_name)) (\<lambda>existing.
     case existing of
       None \<Rightarrow> wreturn False
     | Some (dst_number, dst_inode) \<Rightarrow>
         if uint dst_number = src_number then wreturn True
         else if is_directory src_inode \<noteq> is_directory dst_inode then wfail CrossTypeRename
         else if is_directory dst_inode then wbind (rmdir_in_parent u dst_parent dst_name) (\<lambda>_. wreturn False)
         else wbind (unlink_in_parent u dst_parent dst_name) (\<lambda>_. wreturn False))"

text \<open>A directory that changes parents: its \<open>..\<close> and the two link counts.\<close>

definition move_directory :: "ufs \<Rightarrow> int \<Rightarrow> int \<Rightarrow> int \<Rightarrow> (image, werror, unit) wm" where
  "move_directory u src_number src_parent dst_parent =
     wbind (read_inode_unwrap u src_number) (\<lambda>fresh.
     wbind (update_directory_dotdot u fresh dst_parent) (\<lambda>_.
     wbind (read_inode_unwrap u src_parent) (\<lambda>sp.
     wbind (wmodify (write_inode_nlink u src_parent (if di_nlink sp = 0 then 0 else di_nlink sp - 1))) (\<lambda>_.
     wbind (read_inode_unwrap u dst_parent) (\<lambda>dp.
     wmodify (write_inode_nlink u dst_parent (di_nlink dp + 1)))))))"

definition rename_in_parent :: "ufs \<Rightarrow> int \<Rightarrow> rstr \<Rightarrow> int \<Rightarrow> rstr \<Rightarrow> (image, werror, unit) wm" where
  "rename_in_parent u src_parent src_name dst_parent dst_name =
     (if src_parent = dst_parent \<and> src_name = dst_name then wreturn () else
      wbind (wread (\<lambda>img. read_inode img u src_parent)) (\<lambda>sp.
      wbind (wok_or (SourceParentUnreadable src_parent) sp) (\<lambda>src_parent_inode.
      wbind (wread (\<lambda>img. lookup_directory_entry img u src_parent_inode src_name)) (\<lambda>src.
      wbind (wok_or (SourceNameMissing src_name) src) (\<lambda>(number, src_inode).
      let src_number = uint number in
      wbind (wread (\<lambda>img. read_inode img u dst_parent)) (\<lambda>dp.
      wbind (wok_or (TargetParentUnreadable dst_parent) dp) (\<lambda>dst_parent_inode.
      wbind (replace_target u src_number src_inode dst_parent dst_parent_inode dst_name) (\<lambda>same.
      if same then wreturn () else
      wbind (read_inode_unwrap u dst_parent) (\<lambda>dst_parent_inode.
      wbind (add_directory_entry u dst_parent dst_parent_inode dst_name src_number) (\<lambda>_.
      wbind (if is_directory src_inode \<and> src_parent \<noteq> dst_parent
             then move_directory u src_number src_parent dst_parent else wreturn ()) (\<lambda>_.
      wbind (read_inode_unwrap u src_parent) (\<lambda>src_parent_inode.
      delete_directory_entry u src_parent_inode src_name))))))))))))"

end
