(* ===== verification/Disk.thy ===== *)
theory Disk
  imports Rust_Std
begin

unbundle bit_operations_syntax

text \<open>
  The disk layout of \<^verbatim>\<open>crates/svr4-disk\<close>: the records of \<^verbatim>\<open>structures.rs\<close>, the MBR parser of
  \<^verbatim>\<open>mbr.rs\<close>, the pdinfo, VTOC and alternates parsers and the bad-block redirection of
  \<^verbatim>\<open>svr4.rs\<close>, and the bootstrap flattening of \<^verbatim>\<open>boot.rs\<close>. Parsers assert the size of their
  input: a failed assertion is \<open>None\<close>.
\<close>

section \<open>Structures\<close>

abbreviation (input) UNIXWARE_PARTITION_TYPE :: u8 where "UNIXWARE_PARTITION_TYPE \<equiv> 0x63"
abbreviation (input) HDPDLOC :: nat where "HDPDLOC \<equiv> 29"
abbreviation (input) VALID_PD :: u32 where "VALID_PD \<equiv> 0xCA5E600D"
abbreviation (input) VTOC_SANE :: u32 where "VTOC_SANE \<equiv> 0x600DDEEE"

type_synonym chs_triple = "u16 \<times> u16 \<times> u16"

record partition_entry =
  pe_index :: u32
  pe_bootable :: bool
  pe_type :: u8
  pe_start_lba :: u32
  pe_sector_count :: u32
  pe_start_chs :: chs_triple
  pe_end_chs :: chs_triple

record mbr_info =
  mbr_signature :: u16
  mbr_partitions :: "partition_entry list"

record pdinfo =
  pd_drive_id :: u32
  pd_sanity :: u32
  pd_version :: u32
  pd_serial :: rstr
  pd_cylinders :: u32
  pd_tracks :: u32
  pd_sectors :: u32
  pd_bytes_per_sector :: u32
  pd_logical_sector_0 :: u32
  pd_vtoc_ptr :: u32
  pd_vtoc_len :: u16
  pd_alt_ptr :: u32
  pd_alt_len :: u16

record alt_table_info =
  alt_used :: u16
  alt_reserved :: u16
  alt_base_sector :: int
  alt_bad_entries :: "int list"

record alt_info =
  ai_sanity :: u32
  ai_version :: u16
  ai_track_table :: alt_table_info
  ai_sector_table :: alt_table_info

record vtoc_partition =
  vp_index :: u32
  vp_tag :: u16
  vp_flag :: u16
  vp_start_sector :: int
  vp_sector_count :: int

record vtoc_info =
  vt_sanity :: u32
  vt_version :: u32
  vt_volume :: rstr
  vt_partition_count :: u16
  vt_partitions :: "vtoc_partition list"

record root_entry =
  re_name :: rstr
  re_inode :: u32
  re_size :: "nat option"

record slice_filesystem =
  sf_slice_index :: u32
  sf_tag :: u16
  sf_start_sector :: int
  sf_absolute_start_sector :: int
  sf_sector_count :: int
  sf_filesystem :: "rstr option"
  sf_filesystem_offset :: nat
  sf_root_entries :: "root_entry list"

record disk_image_report =
  dr_path :: rstr
  dr_file_size :: nat
  dr_mbr :: mbr_info
  dr_active_unix_partition :: "partition_entry option"
  dr_pdinfo :: "pdinfo option"
  dr_vtoc :: "vtoc_info option"
  dr_slice_filesystems :: "slice_filesystem list"
  dr_notes :: "rstr list"

section \<open>The master boot record\<close>

definition decode_chs :: "bytes \<Rightarrow> chs_triple option" where
  "decode_chs raw =
     do { r0 \<leftarrow> get_at raw 0; r1 \<leftarrow> get_at raw 1; r2 \<leftarrow> get_at raw 2;
          let head = ucast r0 :: u16;
              sector = ucast (r1 AND 0x3F) :: u16;
              cylinder = push_bit 2 (ucast (r1 AND 0xC0) :: u16) OR ucast r2
          in Some (cylinder, head, sector) }"

definition parse_partition_entry :: "u32 \<Rightarrow> bytes \<Rightarrow> partition_entry option" where
  "parse_partition_entry index raw =
     (if length raw \<noteq> 16 then None else
      do { r0 \<leftarrow> get_at raw 0;
           start_raw \<leftarrow> subslice raw 1 4; start \<leftarrow> decode_chs start_raw;
           ty \<leftarrow> get_at raw 4;
           end_raw \<leftarrow> subslice raw 5 8; fin \<leftarrow> decode_chs end_raw;
           lba \<leftarrow> u32 raw 8;
           count \<leftarrow> u32 raw 12;
           Some \<lparr> pe_index = index, pe_bootable = (r0 = 0x80), pe_type = ty, pe_start_lba = lba,
             pe_sector_count = count, pe_start_chs = start, pe_end_chs = fin \<rparr> })"

definition parse_mbr_sector :: "bytes \<Rightarrow> mbr_info option" where
  "parse_mbr_sector sector =
     (if length sector \<noteq> SECTOR_SIZE then None else
      do { partitions \<leftarrow> mapM (\<lambda>index. let base = 446 + index * 16 in
             do { raw \<leftarrow> subslice sector base (base + 16);
                  parse_partition_entry (of_nat index + 1) raw }) [0..<4];
           signature \<leftarrow> u16 sector 510;
           Some \<lparr> mbr_signature = signature, mbr_partitions = partitions \<rparr> })"

section \<open>pdinfo, VTOC and alternates\<close>

abbreviation (input) VTOC_PARTITION_COUNT :: nat where "VTOC_PARTITION_COUNT \<equiv> 16"
abbreviation (input) PARTITION_STRUCT_OFFSET :: nat where "PARTITION_STRUCT_OFFSET \<equiv> 60"
abbreviation (input) PARTITION_STRUCT_SIZE :: nat where "PARTITION_STRUCT_SIZE \<equiv> 12"
abbreviation (input) ALT_SANITY :: u32 where "ALT_SANITY \<equiv> 0xDEADBEEF"
abbreviation (input) ALT_VERSION :: u16 where "ALT_VERSION \<equiv> 2"
abbreviation (input) V_BACKUP :: u16 where "V_BACKUP \<equiv> 5"
abbreviation (input) V_OTHER :: u16 where "V_OTHER \<equiv> 7"

definition PARTITION_TAG_NAMES :: "(u16 \<times> rstr) list" where
  "PARTITION_TAG_NAMES =
     [(0x01, lit ''boot''), (0x02, lit ''root''), (0x03, lit ''swap''), (0x04, lit ''usr''),
      (0x05, lit ''backup''), (0x06, lit ''alts''), (0x07, lit ''other''), (0x08, lit ''alttrk''),
      (0x09, lit ''stand''), (0x0A, lit ''var''), (0x0B, lit ''home''), (0x0C, lit ''dump'')]"

definition partition_tag_name :: "u16 \<Rightarrow> rstr" where
  "partition_tag_name tag =
     (case find (\<lambda>(v, _). v = tag) PARTITION_TAG_NAMES of
        Some (_, name) \<Rightarrow> name
      | None \<Rightarrow> lit ''unknown(0x'' @ hex_padded 2 (unat tag) @ lit '')'')"

definition decode_ascii_field :: "bytes \<Rightarrow> rstr" where
  "decode_ascii_field raw =
     concat (map (\<lambda>b. if b < 0x80 then [b] else [0xEF, 0xBF, 0xBD]) (takeWhile (\<lambda>b. b \<noteq> 0) raw))"

definition parse_pdinfo :: "bytes \<Rightarrow> pdinfo option" where
  "parse_pdinfo raw =
     (if length raw < 98 then None else
      do { drive_id \<leftarrow> u32 raw 0; sanity \<leftarrow> u32 raw 4; version \<leftarrow> u32 raw 8;
           serial \<leftarrow> subslice raw 12 24;
           cylinders \<leftarrow> u32 raw 24; tracks \<leftarrow> u32 raw 28; sectors \<leftarrow> u32 raw 32;
           bytes_per_sector \<leftarrow> u32 raw 36; logical_sector_0 \<leftarrow> u32 raw 40;
           vtoc_ptr \<leftarrow> u32 raw 84; vtoc_len \<leftarrow> u16 raw 88; alt_ptr \<leftarrow> u32 raw 92; alt_len \<leftarrow> u16 raw 96;
           Some \<lparr> pd_drive_id = drive_id, pd_sanity = sanity, pd_version = version,
             pd_serial = decode_ascii_field serial, pd_cylinders = cylinders, pd_tracks = tracks,
             pd_sectors = sectors, pd_bytes_per_sector = bytes_per_sector,
             pd_logical_sector_0 = logical_sector_0, pd_vtoc_ptr = vtoc_ptr, pd_vtoc_len = vtoc_len,
             pd_alt_ptr = alt_ptr, pd_alt_len = alt_len \<rparr> })"

definition parse_vtoc_partition :: "bytes \<Rightarrow> nat \<Rightarrow> vtoc_partition option" where
  "parse_vtoc_partition view index =
     (let base = PARTITION_STRUCT_OFFSET + index * PARTITION_STRUCT_SIZE in
      do { tag \<leftarrow> u16 view base; flag \<leftarrow> u16 view (base + 2);
           start \<leftarrow> i32 view (base + 4); count \<leftarrow> i32 view (base + 8);
           Some \<lparr> vp_index = of_nat index, vp_tag = tag, vp_flag = flag, vp_start_sector = start,
             vp_sector_count = count \<rparr> })"

definition parse_vtoc :: "bytes \<Rightarrow> nat \<Rightarrow> vtoc_info option" where
  "parse_vtoc raw offset =
     do { view \<leftarrow> subslice raw offset (length raw);
          if length view < PARTITION_STRUCT_OFFSET + VTOC_PARTITION_COUNT * PARTITION_STRUCT_SIZE then None else
          do { partitions \<leftarrow> mapM (parse_vtoc_partition view) [0..<VTOC_PARTITION_COUNT];
               sanity \<leftarrow> u32 view 0; version \<leftarrow> u32 view 4;
               volume \<leftarrow> subslice view 8 16;
               count \<leftarrow> u16 view 16;
               Some \<lparr> vt_sanity = sanity, vt_version = version, vt_volume = decode_ascii_field volume,
                 vt_partition_count = count, vt_partitions = partitions \<rparr> } }"

definition parse_alt_table :: "bytes \<Rightarrow> nat \<Rightarrow> nat \<Rightarrow> (alt_table_info \<times> nat) option" where
  "parse_alt_table raw offset entry_count =
     (let end_offset = offset + 8 + entry_count * 4 in
      if length raw < end_offset then None else
      do { bad_entries \<leftarrow> mapM (\<lambda>k. i32 raw (offset + 8 + k * 4)) [0..<entry_count];
           used \<leftarrow> u16 raw offset;
           base_sector \<leftarrow> i32 raw (offset + 4);
           Some (\<lparr> alt_used = used, alt_reserved = of_nat entry_count, alt_base_sector = base_sector,
                   alt_bad_entries = bad_entries \<rparr>, end_offset) })"

definition parse_alt_info :: "bytes \<Rightarrow> nat \<Rightarrow> alt_info option" where
  "parse_alt_info raw offset =
     do { view \<leftarrow> subslice raw offset (length raw);
          if length view < 16 then None else
          do { sanity \<leftarrow> u32 view 0;
               version \<leftarrow> u16 view 4;
               track_reserved \<leftarrow> u16 view 10;
               (track_table, next_offset) \<leftarrow> parse_alt_table view 8 (unat track_reserved);
               if length view < next_offset + 4 then None else
               do { sector_reserved \<leftarrow> u16 view (next_offset + 2);
                    (sector_table, _) \<leftarrow> parse_alt_table view next_offset (unat sector_reserved);
                    Some \<lparr> ai_sanity = sanity, ai_version = version, ai_track_table = track_table,
                      ai_sector_table = sector_table \<rparr> } } }"

text \<open>The index of the first entry equal to a value, in the entries that are in use.\<close>

primrec index_of :: "int \<Rightarrow> int list \<Rightarrow> nat option" where
  "index_of v [] = None"
| "index_of v (x # xs) = (if v = x then Some 0 else map_option Suc (index_of v xs))"

definition remap_track :: "alt_table_info \<Rightarrow> int \<Rightarrow> int \<Rightarrow> int option" where
  "remap_track t sectors sector =
     do { bad \<leftarrow> subslice (alt_bad_entries t) 0 (unat (alt_used t));
          Some (case index_of (sector sdiv sectors) bad of
                  None \<Rightarrow> sector
                | Some k \<Rightarrow> alt_base_sector t + int k * sectors + sector smod sectors) }"

definition remap_sector :: "alt_table_info \<Rightarrow> int \<Rightarrow> int option" where
  "remap_sector t sector =
     do { bad \<leftarrow> subslice (alt_bad_entries t) 0 (unat (alt_used t));
          Some (case index_of sector bad of None \<Rightarrow> sector | Some k \<Rightarrow> alt_base_sector t + int k) }"

definition remap_guest_visible_sector :: "pdinfo \<Rightarrow> vtoc_partition \<Rightarrow> alt_info option \<Rightarrow> int \<Rightarrow> int option" where
  "remap_guest_visible_sector pd part alt absolute_sector =
     (case alt of None \<Rightarrow> Some absolute_sector | Some a \<Rightarrow>
      if vp_index part = 0 \<or> vp_tag part = V_BACKUP \<or> vp_tag part = V_OTHER then Some absolute_sector
      else if pd_sectors pd = 0 then None else
      do { remapped \<leftarrow> remap_track (ai_track_table a) (uint (pd_sectors pd)) absolute_sector;
           remap_sector (ai_sector_table a) remapped })"

definition is_valid_pdinfo :: "pdinfo \<Rightarrow> bool" where
  "is_valid_pdinfo p \<longleftrightarrow> pd_sanity p = VALID_PD"

definition is_valid_vtoc :: "vtoc_info \<Rightarrow> bool" where
  "is_valid_vtoc v \<longleftrightarrow> vt_sanity v = VTOC_SANE"

definition is_valid_alt_info :: "alt_info \<Rightarrow> bool" where
  "is_valid_alt_info a \<longleftrightarrow> ai_sanity a = ALT_SANITY \<and> ai_version a = ALT_VERSION"

section \<open>The bootstrap\<close>

datatype boot_error =
    NotElf
  | NotElf32Le
  | NoProgramHeaders
  | TruncatedHeaders
  | SegmentTooHigh nat
  | TruncatedSegment
  | NoLoadSegment
  | NoBootSignature

abbreviation (input) ELF_HEADER_SIZE :: nat where "ELF_HEADER_SIZE \<equiv> 52"
abbreviation (input) ELF_PROGRAM_HEADER_SIZE :: nat where "ELF_PROGRAM_HEADER_SIZE \<equiv> 32"
abbreviation (input) PT_LOAD :: u32 where "PT_LOAD \<equiv> 1"
abbreviation (input) BOOT_LIMIT :: nat where "BOOT_LIMIT \<equiv> 14848"

text \<open>One program header: the new image and whether a segment was loaded so far.\<close>

definition load_segment :: "bytes \<Rightarrow> nat \<Rightarrow> bytes \<times> bool \<Rightarrow> (boot_error + bytes \<times> bool) option" where
  "load_segment payload entry = (\<lambda>(flattened, found_load).
     if entry + ELF_PROGRAM_HEADER_SIZE > length payload then Some (Inl TruncatedHeaders) else
     do { p_type \<leftarrow> u32 payload entry;
          p_offset \<leftarrow> u32 payload (entry + 4);
          p_paddr \<leftarrow> u32 payload (entry + 12);
          p_filesz \<leftarrow> u32 payload (entry + 16);
          if p_type \<noteq> PT_LOAD \<or> p_filesz = 0 then Some (Inr (flattened, found_load)) else
          let fin = unat p_paddr + unat p_filesz; file_end = unat p_offset + unat p_filesz in
          if fin > BOOT_LIMIT then Some (Inl (SegmentTooHigh fin))
          else if file_end > length payload then Some (Inl TruncatedSegment)
          else do { segment \<leftarrow> subslice payload (unat p_offset) file_end;
                    flattened \<leftarrow> copy_at flattened (unat p_paddr) segment;
                    Some (Inr (flattened, True)) } })"

primrec load_segments :: "bytes \<Rightarrow> nat list \<Rightarrow> bytes \<times> bool \<Rightarrow> (boot_error + bytes \<times> bool) option" where
  "load_segments payload [] st = Some (Inr st)"
| "load_segments payload (entry # entries) st =
     do { r \<leftarrow> load_segment payload entry st;
          (case r of Inl e \<Rightarrow> Some (Inl e) | Inr st' \<Rightarrow> load_segments payload entries st') }"

definition flatten_hdboot_bootstrap :: "bytes \<Rightarrow> (boot_error + bytes) option" where
  "flatten_hdboot_bootstrap payload =
     (if length payload < ELF_HEADER_SIZE \<or> take 4 payload \<noteq> [0x7F, 0x45, 0x4C, 0x46] then Some (Inl NotElf)
      else if payload ! 4 \<noteq> 1 \<or> payload ! 5 \<noteq> 1 then Some (Inl NotElf32Le) else
      do { e_phoff \<leftarrow> u32 payload 28;
           e_phentsize \<leftarrow> u16 payload 42;
           e_phnum \<leftarrow> u16 payload 44;
           if e_phnum = 0 \<or> unat e_phentsize < ELF_PROGRAM_HEADER_SIZE then Some (Inl NoProgramHeaders) else
           do { r \<leftarrow> load_segments payload
                  (map (\<lambda>index. unat e_phoff + index * unat e_phentsize) [0..<unat e_phnum])
                  (replicate BOOT_LIMIT 0, False);
                (case r of
                   Inl e \<Rightarrow> Some (Inl e)
                 | Inr (flattened, found_load) \<Rightarrow>
                     if \<not> found_load then Some (Inl NoLoadSegment) else
                     do { signature \<leftarrow> subslice flattened 510 512;
                          Some (if signature \<noteq> [0x55, 0xAA] then Inl NoBootSignature else Inr flattened) }) } })"

end
