(* ===== verification/Rust_Text.thy ===== *)
theory Rust_Text
  imports Rust_Std
begin

text \<open>
  Text of the standard library that the tools use: trimming and case, splitting into pieces, lines and
  words, and integers in a radix. Text is the list of its UTF-8 bytes.
\<close>

section \<open>Characters\<close>

text \<open>\<^verbatim>\<open>OsStr::to_str\<close>: whether a byte string is valid UTF-8.\<close>

function utf8_ok :: "bytes \<Rightarrow> bool" where
  "utf8_ok [] = True"
| "utf8_ok (b # rest) = (let (n, ok) = utf8_step b rest in ok \<and> utf8_ok (drop (n - 1) rest))"
  by pat_completeness auto
termination
  by (relation "measure length") auto

declare utf8_ok.simps [simp del]

text \<open>
  \<^verbatim>\<open>str::trim\<close> on UTF-8 text: the encodings of the Unicode white-space characters.
\<close>

definition white_spaces :: "bytes list" where
  "white_spaces =
     [[9], [10], [11], [12], [13], [32], [0xC2, 0x85], [0xC2, 0xA0], [0xE1, 0x9A, 0x80]]
     @ map (\<lambda>k. [0xE2, 0x80, of_nat k]) [128..<139]
     @ [[0xE2, 0x80, 0xA8], [0xE2, 0x80, 0xA9], [0xE2, 0x80, 0xAF], [0xE2, 0x81, 0x9F], [0xE3, 0x80, 0x80]]"

definition prefix_length :: "bytes list \<Rightarrow> bytes \<Rightarrow> nat" where
  "prefix_length ws xs = (case find (\<lambda>w. w \<noteq> [] \<and> take (length w) xs = w) ws of None \<Rightarrow> 0 | Some w \<Rightarrow> length w)"

lemma prefix_length_Nil: "prefix_length ws [] = 0"
  by (auto simp: prefix_length_def find_Some_iff split: option.splits)

function strip_front :: "bytes list \<Rightarrow> bytes \<Rightarrow> bytes" where
  "strip_front ws xs = (if prefix_length ws xs = 0 then xs else strip_front ws (drop (prefix_length ws xs) xs))"
  by pat_completeness auto
termination
proof (relation "measure (\<lambda>(ws, xs). length xs)", goal_cases)
  case (2 ws xs)
  then show ?case by (cases xs) (auto simp: prefix_length_Nil)
qed simp

declare strip_front.simps [simp del]

definition trim :: "rstr \<Rightarrow> rstr" where
  "trim s = rev (strip_front (map rev white_spaces) (rev (strip_front white_spaces s)))"

text \<open>
  \<^verbatim>\<open>str::to_lowercase\<close> as far as a comparison with an ASCII string can tell: \<open>A\<close>..\<open>Z\<close> and the Kelvin
  sign (U+212A) have an ASCII lower case; the lower case of every other character outside ASCII has a
  byte outside ASCII, as the character itself does.
\<close>

function to_lowercase :: "rstr \<Rightarrow> rstr" where
  "to_lowercase [] = []"
| "to_lowercase (b # xs) =
     (if b = 0xE2 \<and> take 2 xs = [0x84, 0xAA] then 0x6B # to_lowercase (drop 2 xs)
      else (if 0x41 \<le> b \<and> b \<le> 0x5A then b + 32 else b) # to_lowercase xs)"
  by pat_completeness auto
termination
  by (relation "measure length") auto

section \<open>Pieces of text\<close>

text \<open>\<^verbatim>\<open>str::split\<close> on an ASCII character, and \<^verbatim>\<open>str::split_once\<close>.\<close>

primrec split_on :: "u8 \<Rightarrow> rstr \<Rightarrow> rstr list" where
  "split_on c [] = [[]]"
| "split_on c (b # s) = (if b = c then [] # split_on c s else (b # hd (split_on c s)) # tl (split_on c s))"

primrec split_once :: "u8 \<Rightarrow> rstr \<Rightarrow> (rstr \<times> rstr) option" where
  "split_once c [] = None"
| "split_once c (b # s) = (if b = c then Some ([], s) else map_option (\<lambda>(l, r). (b # l, r)) (split_once c s))"

definition strip_prefix :: "rstr \<Rightarrow> rstr \<Rightarrow> rstr option" where
  "strip_prefix p s = (if take (length p) s = p then Some (drop (length p) s) else None)"

text \<open>
  \<^verbatim>\<open>str::lines\<close>: split at line feeds; the last piece is dropped when it is empty, and a carriage return
  before a line feed goes with it.
\<close>

definition drop_cr :: "rstr \<Rightarrow> rstr" where
  "drop_cr s = (if s \<noteq> [] \<and> last s = 13 then butlast s else s)"

definition text_lines :: "rstr \<Rightarrow> rstr list" where
  "text_lines s =
     (let ps = split_on 10 s in map drop_cr (butlast ps) @ (if last ps = [] then [] else [last ps]))"

text \<open>\<^verbatim>\<open>str::split_whitespace\<close>: the maximal runs without white space.\<close>

function split_words :: "rstr \<Rightarrow> rstr \<Rightarrow> rstr list" where
  "split_words word [] = (if word = [] then [] else [rev word])"
| "split_words word (b # s) =
     (let n = prefix_length white_spaces (b # s) in
      if n = 0 then split_words (b # word) s
      else (if word = [] then [] else [rev word]) @ split_words [] (drop (n - 1) s))"
  by pat_completeness auto
termination
  by (relation "measure (\<lambda>(_, s). length s)") auto

definition split_whitespace :: "rstr \<Rightarrow> rstr list" where
  "split_whitespace s = split_words [] s"

text \<open>Padding of a formatted field: \<^verbatim>\<open>{:>w}\<close> and \<^verbatim>\<open>{:<w}\<close> on ASCII text.\<close>

definition pad_left :: "nat \<Rightarrow> rstr \<Rightarrow> rstr" where
  "pad_left w s = replicate (w - length s) 32 @ s"

definition pad_right :: "nat \<Rightarrow> rstr \<Rightarrow> rstr" where
  "pad_right w s = s @ replicate (w - length s) 32"

section \<open>Numbers in text\<close>

text \<open>\<^verbatim>\<open>char::to_digit\<close>.\<close>

definition to_digit :: "nat \<Rightarrow> u8 \<Rightarrow> nat option" where
  "to_digit radix b =
     (let v = (if 0x30 \<le> b \<and> b \<le> 0x39 then unat b - 48
               else if 0x61 \<le> b \<and> b \<le> 0x7A then unat b - 87
               else if 0x41 \<le> b \<and> b \<le> 0x5A then unat b - 55 else 255) in
      if v < radix then Some v else None)"

text \<open>
  \<^verbatim>\<open>from_str_radix\<close> of a fixed-width integer with the range \<open>lo..hi\<close>: an empty text and a lone sign are
  errors, as are a digit of no value in the radix and a value out of range. A minus sign is a digit
  error for an unsigned type (\<open>lo = 0\<close>).
\<close>

primrec accumulate :: "nat \<Rightarrow> int \<Rightarrow> int \<Rightarrow> int \<Rightarrow> int \<Rightarrow> rstr \<Rightarrow> int option" where
  "accumulate radix sign lo hi acc [] = Some acc"
| "accumulate radix sign lo hi acc (b # s) =
     do { d \<leftarrow> to_digit radix b;
          let acc = acc * int radix + sign * int d in
          if lo \<le> acc \<and> acc \<le> hi then accumulate radix sign lo hi acc s else None }"

definition from_str_radix :: "int \<Rightarrow> int \<Rightarrow> nat \<Rightarrow> rstr \<Rightarrow> int option" where
  "from_str_radix lo hi radix s =
     (if s = [] \<or> s = [0x2B] \<or> s = [0x2D] then None
      else if hd s = 0x2B then accumulate radix 1 lo hi 0 (tl s)
      else if hd s = 0x2D \<and> lo < 0 then accumulate radix (- 1) lo hi 0 (tl s)
      else accumulate radix 1 lo hi 0 s)"

definition i64_from_str_radix :: "nat \<Rightarrow> rstr \<Rightarrow> int option" where
  "i64_from_str_radix = from_str_radix (- (2 ^ 63)) (2 ^ 63 - 1)"

definition u32_from_str_radix :: "nat \<Rightarrow> rstr \<Rightarrow> u32 option" where
  "u32_from_str_radix radix s = map_option of_int (from_str_radix 0 (2 ^ 32 - 1) radix s)"

end
