(* ===== verification/Disk_Inspect.thy ===== *)
theory Disk_Inspect
  imports Disk Rust_Text
begin

text \<open>
  Inspection of a disk image, \<^verbatim>\<open>crates/svr4-disk/src/inspect.rs\<close>, and its rendering,
  \<^verbatim>\<open>report.rs\<close>. The image file is the list of its bytes. The file-system detector, a trait object in
  the source, is a record of its two methods. The only failure of the operating system that depends on
  the arguments, a seek beyond the signed 64-bit range, is kept; others are not modelled.
\<close>

datatype io_error = InvalidSeek

record detected_fs =
  det_filesystem :: rstr
  det_filesystem_offset :: nat
  det_root_entries :: "root_entry list"

record fs_detector =
  probe :: "bytes \<Rightarrow> detected_fs option option"
  reads_slices :: bool

definition null_detector :: fs_detector where
  "null_detector = \<lparr> probe = (\<lambda>_. Some None), reads_slices = False \<rparr>"

definition find_active_unix_partition :: "mbr_info \<Rightarrow> partition_entry option" where
  "find_active_unix_partition mbr =
     (case find (\<lambda>p. pe_bootable p \<and> pe_type p = UNIXWARE_PARTITION_TYPE) (mbr_partitions mbr) of
        Some p \<Rightarrow> Some p
      | None \<Rightarrow> find (\<lambda>p. pe_type p = UNIXWARE_PARTITION_TYPE) (mbr_partitions mbr))"

text \<open>As many bytes as the file has, at most the sectors asked for.\<close>

definition read_sector :: "bytes \<Rightarrow> nat \<Rightarrow> nat \<Rightarrow> io_error + bytes" where
  "read_sector file sector_number sector_count =
     (let off = umul sector_number SECTOR_SIZE in
      if off \<ge> 2 ^ 63 then Inl InvalidSeek
      else Inr (take (umul sector_count SECTOR_SIZE) (drop off file)))"

definition read_pdinfo :: "bytes \<Rightarrow> nat \<Rightarrow> (io_error + pdinfo) option" where
  "read_pdinfo file partition_start =
     (case read_sector file (uadd partition_start HDPDLOC) 1 of
        Inl e \<Rightarrow> Some (Inl e) | Inr raw \<Rightarrow> map_option Inr (parse_pdinfo raw))"

text \<open>The sectors that a pointer and a length of the pdinfo denote, and the offset in the first.\<close>

definition span_sectors :: "nat \<Rightarrow> nat \<Rightarrow> nat" where
  "span_sectors offset len = max 1 (div_ceil (offset + max len SECTOR_SIZE) SECTOR_SIZE)"

definition read_vtoc :: "bytes \<Rightarrow> nat \<Rightarrow> pdinfo \<Rightarrow> (io_error + vtoc_info) option" where
  "read_vtoc file partition_start pd =
     (let vtoc_sector = uadd partition_start (unat (pd_vtoc_ptr pd) div SECTOR_SIZE);
          vtoc_offset = unat (pd_vtoc_ptr pd) mod SECTOR_SIZE in
      case read_sector file vtoc_sector (span_sectors vtoc_offset (unat (pd_vtoc_len pd))) of
        Inl e \<Rightarrow> Some (Inl e) | Inr block \<Rightarrow> map_option Inr (parse_vtoc block vtoc_offset))"

definition read_alt_info :: "bytes \<Rightarrow> nat \<Rightarrow> pdinfo \<Rightarrow> (io_error + alt_info option) option" where
  "read_alt_info file partition_start pd =
     (if pd_alt_len pd = 0 then Some (Inr None) else
      let alt_sector = uadd partition_start (unat (pd_alt_ptr pd) div SECTOR_SIZE);
          alt_offset = unat (pd_alt_ptr pd) mod SECTOR_SIZE in
      case read_sector file alt_sector (span_sectors alt_offset (unat (pd_alt_len pd))) of
        Inl e \<Rightarrow> Some (Inl e)
      | Inr block \<Rightarrow> do { a \<leftarrow> parse_alt_info block alt_offset;
                          Some (Inr (if is_valid_alt_info a then Some a else None)) })"

definition absolute_sector_for_slice :: "pdinfo \<Rightarrow> int \<Rightarrow> int" where
  "absolute_sector_for_slice pd slice_start_sector = slice_start_sector"

definition probe_slice :: "bytes option \<Rightarrow> vtoc_partition \<Rightarrow> int \<Rightarrow> fs_detector \<Rightarrow> slice_filesystem option" where
  "probe_slice view p absolute_start_sector detector =
     do { detected \<leftarrow> (case view of None \<Rightarrow> Some None | Some whole \<Rightarrow>
            let start = saturating_mul (usize absolute_start_sector) SECTOR_SIZE;
                span = saturating_mul (usize (vp_sector_count p)) SECTOR_SIZE;
                fin = min (saturating_add start span) (length whole) in
            if start \<ge> fin then Some None
            else do { slice \<leftarrow> subslice whole start fin; probe detector slice });
          Some \<lparr> sf_slice_index = vp_index p, sf_tag = vp_tag p, sf_start_sector = vp_start_sector p,
            sf_absolute_start_sector = absolute_start_sector, sf_sector_count = vp_sector_count p,
            sf_filesystem = map_option det_filesystem detected,
            sf_filesystem_offset = (case detected of Some d \<Rightarrow> det_filesystem_offset d | None \<Rightarrow> 0),
            sf_root_entries = (case detected of Some d \<Rightarrow> det_root_entries d | None \<Rightarrow> []) \<rparr> }"

definition probe_slices :: "bytes \<Rightarrow> fs_detector \<Rightarrow> pdinfo \<Rightarrow> vtoc_info \<Rightarrow> slice_filesystem list option" where
  "probe_slices file detector pd vt =
     (let view = (if reads_slices detector \<and> file \<noteq> [] then Some file else None) in
      mapM (\<lambda>p. probe_slice view p (absolute_sector_for_slice pd (vp_start_sector p)) detector)
        (filter (\<lambda>p. \<not> (vp_tag p = 0 \<or> vp_sector_count p \<le> 0)) (vt_partitions vt)))"

section \<open>The report\<close>

definition note_signature :: "u16 \<Rightarrow> rstr" where
  "note_signature s = lit ''Unexpected MBR signature 0x'' @ hex_padded 4 (unat s)
     @ lit ''; image may be unpartitioned or use a non-MBR boot sector.''"

definition note_no_unix :: rstr where
  "note_no_unix = lit ''No UNIX partition (type 0x63) was found in the MBR.''"

definition note_pdinfo :: "u32 \<Rightarrow> nat \<Rightarrow> rstr" where
  "note_pdinfo sanity sector = lit ''Invalid pdinfo sanity 0x'' @ hex_padded 8 (unat sanity) @ lit '' at sector ''
     @ dec_digits sector @ lit ''; expected 0x'' @ hex_padded 8 (unat VALID_PD) @ lit ''.''"

definition note_vtoc :: "u32 \<Rightarrow> rstr" where
  "note_vtoc sanity = lit ''Invalid VTOC sanity 0x'' @ hex_padded 8 (unat sanity) @ lit ''; expected 0x''
     @ hex_padded 8 (unat VTOC_SANE) @ lit ''.''"

text \<open>What is read of an active partition: pdinfo, VTOC, slices and notes.\<close>

type_synonym active_parts = "pdinfo option \<times> vtoc_info option \<times> slice_filesystem list \<times> rstr list"

definition inspect_vtoc :: "bytes \<Rightarrow> fs_detector \<Rightarrow> nat \<Rightarrow> pdinfo \<Rightarrow> (io_error + active_parts) option" where
  "inspect_vtoc file detector start pd =
     do { r \<leftarrow> read_vtoc file start pd;
          (case r of Inl e \<Rightarrow> Some (Inl e) | Inr vt \<Rightarrow>
           if \<not> is_valid_vtoc vt then Some (Inr (Some pd, Some vt, [], [note_vtoc (vt_sanity vt)]))
           else do { slices \<leftarrow> probe_slices file detector pd vt; Some (Inr (Some pd, Some vt, slices, [])) }) }"

definition inspect_active :: "bytes \<Rightarrow> fs_detector \<Rightarrow> partition_entry option \<Rightarrow> (io_error + active_parts) option" where
  "inspect_active file detector active =
     (case active of
        None \<Rightarrow> Some (Inr (None, None, [], [note_no_unix]))
      | Some p \<Rightarrow>
          do { r \<leftarrow> read_pdinfo file (unat (pe_start_lba p));
               (case r of Inl e \<Rightarrow> Some (Inl e) | Inr pd \<Rightarrow>
                if \<not> is_valid_pdinfo pd
                then Some (Inr (Some pd, None, [], [note_pdinfo (pd_sanity pd) (unat (pe_start_lba p) + HDPDLOC)]))
                else inspect_vtoc file detector (unat (pe_start_lba p)) pd) })"

definition inspect_disk_image :: "rstr \<Rightarrow> fs_detector \<Rightarrow> bytes \<Rightarrow> (io_error + disk_image_report) option" where
  "inspect_disk_image image_path detector file =
     (case read_sector file 0 1 of Inl e \<Rightarrow> Some (Inl e) | Inr raw \<Rightarrow>
      do { mbr \<leftarrow> parse_mbr_sector raw;
           let notes = (if mbr_signature mbr \<noteq> 0xAA55 then [note_signature (mbr_signature mbr)] else []);
               active = find_active_unix_partition mbr in
           do { r \<leftarrow> inspect_active file detector active;
                Some (case r of Inl e \<Rightarrow> Inl e | Inr (pd, vt, slices, extra) \<Rightarrow>
                  Inr \<lparr> dr_path = image_path, dr_file_size = length file, dr_mbr = mbr,
                        dr_active_unix_partition = active, dr_pdinfo = pd, dr_vtoc = vt,
                        dr_slice_filesystems = slices, dr_notes = notes @ extra \<rparr>) } })"

definition inspect_disk_metadata :: "rstr \<Rightarrow> bytes \<Rightarrow> (io_error + disk_image_report) option" where
  "inspect_disk_metadata image_path file = inspect_disk_image image_path null_detector file"

section \<open>Selecting a slice\<close>

datatype select_error = NoVtoc | NoSlice rstr | NoActivePartition | SelectIo io_error

definition get_vtoc_partition_by_selector :: "disk_image_report \<Rightarrow> rstr \<Rightarrow> select_error + vtoc_partition" where
  "get_vtoc_partition_by_selector report selector =
     (case dr_vtoc report of None \<Rightarrow> Inl NoVtoc | Some vt \<Rightarrow>
      let normalized = to_lowercase (trim selector) in
      case find (\<lambda>p. dec_digits (unat (vp_index p)) = normalized) (vt_partitions vt) of
        Some p \<Rightarrow> Inr p
      | None \<Rightarrow> (case find (\<lambda>p. partition_tag_name (vp_tag p) = normalized) (vt_partitions vt) of
          Some p \<Rightarrow> Inr p
        | None \<Rightarrow> Inl (NoSlice selector)))"

text \<open>The guest-visible sector of a slice: the absolute sector, the redirected one and its bytes.\<close>

definition resolve_in_report ::
    "bytes \<Rightarrow> disk_image_report \<Rightarrow> rstr \<Rightarrow> int \<Rightarrow> (select_error + int \<times> int \<times> bytes) option" where
  "resolve_in_report file report selector slice_relative_sector =
     (case (dr_active_unix_partition report, dr_pdinfo report) of
        (Some active, Some pd) \<Rightarrow>
          (case get_vtoc_partition_by_selector report selector of Inl e \<Rightarrow> Some (Inl e) | Inr p \<Rightarrow>
           let absolute_sector = i64 (vp_start_sector p + slice_relative_sector) in
           do { a \<leftarrow> read_alt_info file (unat (pe_start_lba active)) pd;
                (case a of Inl e \<Rightarrow> Some (Inl (SelectIo e)) | Inr alt \<Rightarrow>
                 do { guest_visible_sector \<leftarrow> remap_guest_visible_sector pd p alt absolute_sector;
                      Some (case read_sector file (usize guest_visible_sector) 1 of
                              Inl e \<Rightarrow> Inl (SelectIo e)
                            | Inr data \<Rightarrow> Inr (absolute_sector, guest_visible_sector, data)) }) })
      | _ \<Rightarrow> Some (Inl NoActivePartition))"

definition resolve_guest_visible_sector ::
    "rstr \<Rightarrow> bytes \<Rightarrow> rstr \<Rightarrow> int \<Rightarrow> fs_detector \<Rightarrow> (select_error + int \<times> int \<times> bytes) option" where
  "resolve_guest_visible_sector image_path file selector slice_relative_sector detector =
     do { r \<leftarrow> inspect_disk_image image_path detector file;
          (case r of Inl e \<Rightarrow> Some (Inl (SelectIo e))
           | Inr report \<Rightarrow> resolve_in_report file report selector slice_relative_sector) }"

section \<open>Rendering\<close>

definition line :: "rstr \<Rightarrow> rstr" where
  "line s = s @ [10]"

definition format_partition_type :: "u8 \<Rightarrow> rstr" where
  "format_partition_type t = lit ''0x'' @ hex_padded 2 (unat t)"

definition chs_text :: "chs_triple \<Rightarrow> rstr" where
  "chs_text = (\<lambda>(c, h, s). lit ''('' @ dec_digits (unat c) @ lit '', '' @ dec_digits (unat h) @ lit '', ''
     @ dec_digits (unat s) @ lit '')'')"

definition render_partition_table :: "mbr_info \<Rightarrow> rstr" where
  "render_partition_table mbr =
     line (lit ''MBR signature: 0x'' @ hex_padded 4 (unat (mbr_signature mbr)))
     @ line (lit ''Partitions:'')
     @ concat (map (\<lambda>p.
         if pe_type p = 0 \<and> pe_start_lba p = 0 \<and> pe_sector_count p = 0 then []
         else line (lit ''  '' @ dec_digits (unat (pe_index p)) @ lit '': '' @ lit (if pe_bootable p then ''*'' else ''-'')
           @ lit '' type='' @ format_partition_type (pe_type p)
           @ lit '' start='' @ dec_digits (unat (pe_start_lba p))
           @ lit '' sectors='' @ dec_digits (unat (pe_sector_count p))
           @ lit '' start_chs='' @ chs_text (pe_start_chs p) @ lit '' end_chs='' @ chs_text (pe_end_chs p)))
         (mbr_partitions mbr))"

definition render_active_partition :: "partition_entry \<Rightarrow> rstr" where
  "render_active_partition active =
     line (lit ''Active UNIX partition:'')
     @ line (lit ''  index='' @ dec_digits (unat (pe_index active)) @ lit '' start='' @ dec_digits (unat (pe_start_lba active))
        @ lit '' sectors='' @ dec_digits (unat (pe_sector_count active))
        @ lit '' type='' @ format_partition_type (pe_type active))"

definition render_pdinfo :: "pdinfo \<Rightarrow> rstr" where
  "render_pdinfo pd =
     line (lit ''pdinfo:'')
     @ line (lit ''  sanity: 0x'' @ hex_padded 8 (unat (pd_sanity pd)))
     @ line (lit ''  geometry: '' @ dec_digits (unat (pd_cylinders pd)) @ lit ''/'' @ dec_digits (unat (pd_tracks pd))
         @ lit ''/'' @ dec_digits (unat (pd_sectors pd)))
     @ line (lit ''  bytes/sector: '' @ dec_digits (unat (pd_bytes_per_sector pd)))
     @ line (lit ''  logical sector 0: '' @ dec_digits (unat (pd_logical_sector_0 pd)))
     @ line (lit ''  vtoc ptr/len: '' @ dec_digits (unat (pd_vtoc_ptr pd)) @ lit ''/'' @ dec_digits (unat (pd_vtoc_len pd)))
     @ line (lit ''  alt ptr/len: '' @ dec_digits (unat (pd_alt_ptr pd)) @ lit ''/'' @ dec_digits (unat (pd_alt_len pd)))"

definition render_vtoc :: "vtoc_info \<Rightarrow> rstr" where
  "render_vtoc vt =
     line (lit ''VTOC:'')
     @ line (lit ''  sanity: 0x'' @ hex_padded 8 (unat (vt_sanity vt)))
     @ line (lit ''  version: '' @ dec_digits (unat (vt_version vt)))
     @ line (lit ''  volume: '' @ vt_volume vt)
     @ line (lit ''  partitions: '' @ dec_digits (unat (vt_partition_count vt)))
     @ concat (map (\<lambda>p.
         if vp_tag p = 0 \<and> vp_start_sector p = 0 \<and> vp_sector_count p = 0 then []
         else line (lit ''  slice '' @ dec_digits (unat (vp_index p)) @ lit '': tag='' @ partition_tag_name (vp_tag p)
           @ lit '' flag=0x'' @ hex_padded 4 (unat (vp_flag p)) @ lit '' start='' @ dec_int (vp_start_sector p)
           @ lit '' size='' @ dec_int (vp_sector_count p)))
         (vt_partitions vt))"

definition render_root_entry :: "root_entry \<Rightarrow> rstr" where
  "render_root_entry e =
     line (lit ''    '' @ re_name e @ lit '' inode='' @ dec_digits (unat (re_inode e))
       @ (case re_size e of Some n \<Rightarrow> lit '' size='' @ dec_digits n | None \<Rightarrow> []))"

definition render_slice :: "slice_filesystem \<Rightarrow> rstr" where
  "render_slice s =
     line (lit ''  slice '' @ dec_digits (unat (sf_slice_index s)) @ lit '': tag='' @ partition_tag_name (sf_tag s)
       @ lit '' fs='' @ (case sf_filesystem s of Some f \<Rightarrow> f | None \<Rightarrow> lit ''unknown'')
       @ lit '' start='' @ dec_int (sf_start_sector s)
       @ lit '' absolute_start='' @ dec_int (sf_absolute_start_sector s)
       @ lit '' size='' @ dec_int (sf_sector_count s))
     @ concat (map render_root_entry (take 8 (sf_root_entries s)))"

definition render_slice_filesystems :: "slice_filesystem list \<Rightarrow> rstr" where
  "render_slice_filesystems slices =
     (if slices = [] then [] else line (lit ''Slice filesystems:'') @ concat (map render_slice slices))"

definition format_report :: "disk_image_report \<Rightarrow> rstr" where
  "format_report report =
     line (lit ''Image: '' @ dr_path report)
     @ line (lit ''File size: '' @ dec_digits (dr_file_size report) @ lit '' bytes'')
     @ render_partition_table (dr_mbr report)
     @ (case dr_active_unix_partition report of Some a \<Rightarrow> render_active_partition a | None \<Rightarrow> [])
     @ (case dr_pdinfo report of Some p \<Rightarrow> render_pdinfo p | None \<Rightarrow> [])
     @ (case dr_vtoc report of Some v \<Rightarrow> render_vtoc v | None \<Rightarrow> [])
     @ render_slice_filesystems (dr_slice_filesystems report)
     @ (if dr_notes report = [] then []
        else line (lit ''Notes:'') @ concat (map (\<lambda>n. line (lit ''  - '' @ n)) (dr_notes report)))"

end
