(* ===== verification/Bfs.thy ===== *)
theory Bfs
  imports Rust_Std
begin

text \<open>
  The boot file system of \<^verbatim>\<open>crates/svr4-bfs/src/lib.rs\<close>: formatting a slice with a set of root
  files, and the read side (detection, root listing, file reads). A dirent is the 64-byte inode record
  of a file; the root directory is an array of 16-byte name entries.
\<close>

section \<open>Layout constants\<close>

abbreviation (input) BFS_ROOT_INODE :: u16 where "BFS_ROOT_INODE \<equiv> 2"
abbreviation (input) BFS_SUPER_SIZE :: nat where "BFS_SUPER_SIZE \<equiv> 512"
abbreviation (input) BFS_SANITYW_OFFSET :: nat where "BFS_SANITYW_OFFSET \<equiv> 12"
abbreviation (input) BFS_DIRENT_SIZE :: nat where "BFS_DIRENT_SIZE \<equiv> 64"
abbreviation (input) BFS_LDIR_SIZE :: nat where "BFS_LDIR_SIZE \<equiv> 16"
abbreviation (input) BFS_DIRENT_INO_OFFSET :: nat where "BFS_DIRENT_INO_OFFSET \<equiv> 0"
abbreviation (input) BFS_DIRENT_SBLOCK_OFFSET :: nat where "BFS_DIRENT_SBLOCK_OFFSET \<equiv> 4"
abbreviation (input) BFS_DIRENT_EBLOCK_OFFSET :: nat where "BFS_DIRENT_EBLOCK_OFFSET \<equiv> 8"
abbreviation (input) BFS_DIRENT_EOFFSET_OFFSET :: nat where "BFS_DIRENT_EOFFSET_OFFSET \<equiv> 12"
abbreviation (input) BFS_DIRENT_VATTR_OFFSET :: nat where "BFS_DIRENT_VATTR_OFFSET \<equiv> 16"
abbreviation (input) BFS_VATTR_TYPE_OFFSET :: nat where "BFS_VATTR_TYPE_OFFSET \<equiv> 0"
abbreviation (input) BFS_VATTR_MODE_OFFSET :: nat where "BFS_VATTR_MODE_OFFSET \<equiv> 4"
abbreviation (input) BFS_VATTR_UID_OFFSET :: nat where "BFS_VATTR_UID_OFFSET \<equiv> 8"
abbreviation (input) BFS_VATTR_GID_OFFSET :: nat where "BFS_VATTR_GID_OFFSET \<equiv> 12"
abbreviation (input) BFS_VATTR_NLINK_OFFSET :: nat where "BFS_VATTR_NLINK_OFFSET \<equiv> 16"
abbreviation (input) BFS_VATTR_ATIME_OFFSET :: nat where "BFS_VATTR_ATIME_OFFSET \<equiv> 20"
abbreviation (input) BFS_VATTR_MTIME_OFFSET :: nat where "BFS_VATTR_MTIME_OFFSET \<equiv> 24"
abbreviation (input) BFS_VATTR_CTIME_OFFSET :: nat where "BFS_VATTR_CTIME_OFFSET \<equiv> 28"
abbreviation (input) BFS_VREG :: u32 where "BFS_VREG \<equiv> 1"
abbreviation (input) BFS_VDIR :: u32 where "BFS_VDIR \<equiv> 2"
abbreviation (input) BFS_MAX_NAME :: nat where "BFS_MAX_NAME \<equiv> 14"

record bfs =
  bfs_start :: nat
  bfs_data_start :: nat
  bfs_data_end :: nat

record bfs_entry =
  be_name :: rstr
  be_inode :: u16
  be_size :: nat

datatype bfs_error =
    SliceTooSmall
  | BadEntryName rstr
  | NameTooLong rstr
  | NameNotAscii rstr
  | DuplicateName rstr
  | TableTooSmall
  | FileTooBig rstr

section \<open>Formatting\<close>

definition round_up :: "nat \<Rightarrow> nat \<Rightarrow> nat" where
  "round_up v alignment = umul (div_ceil v alignment) alignment"

definition put_vattr :: "bytes \<Rightarrow> nat \<Rightarrow> u32 \<Rightarrow> u32 \<Rightarrow> u32 \<Rightarrow> int \<Rightarrow> bytes option" where
  "put_vattr buf at file_type mode nlink timestamp =
     do { buf \<leftarrow> put_u32 buf (at + BFS_VATTR_TYPE_OFFSET) file_type;
          buf \<leftarrow> put_u32 buf (at + BFS_VATTR_MODE_OFFSET) mode;
          buf \<leftarrow> put_u32 buf (at + BFS_VATTR_UID_OFFSET) 0;
          buf \<leftarrow> put_u32 buf (at + BFS_VATTR_GID_OFFSET) 0;
          buf \<leftarrow> put_u32 buf (at + BFS_VATTR_NLINK_OFFSET) nlink;
          buf \<leftarrow> put_i32 buf (at + BFS_VATTR_ATIME_OFFSET) timestamp;
          buf \<leftarrow> put_i32 buf (at + BFS_VATTR_MTIME_OFFSET) timestamp;
          put_i32 buf (at + BFS_VATTR_CTIME_OFFSET) timestamp }"

definition put_dirent ::
    "bytes \<Rightarrow> nat \<Rightarrow> u16 \<Rightarrow> u32 \<Rightarrow> u32 \<Rightarrow> u32 \<Rightarrow> u32 \<Rightarrow> u32 \<Rightarrow> u32 \<Rightarrow> int \<Rightarrow> bytes option" where
  "put_dirent buf at inode_number start_block end_block end_offset file_type mode nlink timestamp =
     do { buf \<leftarrow> put_u16 buf (at + BFS_DIRENT_INO_OFFSET) inode_number;
          buf \<leftarrow> put_u32 buf (at + BFS_DIRENT_SBLOCK_OFFSET) start_block;
          buf \<leftarrow> put_u32 buf (at + BFS_DIRENT_EBLOCK_OFFSET) end_block;
          buf \<leftarrow> put_u32 buf (at + BFS_DIRENT_EOFFSET_OFFSET) end_offset;
          put_vattr buf (at + BFS_DIRENT_VATTR_OFFSET) file_type mode nlink timestamp }"

text \<open>The loop over the names, with the names already seen.\<close>

fun check_names :: "rstr list \<Rightarrow> (rstr \<times> bytes) list \<Rightarrow> bfs_error + unit" where
  "check_names seen [] = Inr ()"
| "check_names seen ((name, _) # files) =
     (if name = [] \<or> 0x2F \<in> set name then Inl (BadEntryName name)
      else if length name > BFS_MAX_NAME then Inl (NameTooLong name)
      else if \<not> is_ascii name then Inl (NameNotAscii name)
      else if name \<in> set seen then Inl (DuplicateName name)
      else check_names (seen @ [name]) files)"

record bfs_layout =
  lo_inode :: u16
  lo_name :: rstr
  lo_data :: bytes
  lo_start :: nat
  lo_end_block :: u32
  lo_end_offset :: u32

text \<open>The loop that lays out the file extents: the index of the file and the next free byte.\<close>

fun layout_files :: "nat \<Rightarrow> nat \<Rightarrow> nat \<Rightarrow> (rstr \<times> bytes) list \<Rightarrow> bfs_error + bfs_layout list" where
  "layout_files size_bytes index current [] = Inr []"
| "layout_files size_bytes index current ((name, data) # files) =
     (let inode = BFS_ROOT_INODE + of_nat index + 1 in
      if data = [] then
        (case layout_files size_bytes (index + 1) current files of
           Inl e \<Rightarrow> Inl e
         | Inr ls \<Rightarrow> Inr (\<lparr> lo_inode = inode, lo_name = name, lo_data = data, lo_start = 0,
                            lo_end_block = 0, lo_end_offset = 0 \<rparr> # ls))
      else
        let allocation = round_up (length data) SECTOR_SIZE in
        if uadd current allocation > size_bytes then Inl (FileTooBig name)
        else (case layout_files size_bytes (index + 1) (uadd current allocation) files of
           Inl e \<Rightarrow> Inl e
         | Inr ls \<Rightarrow> Inr (\<lparr> lo_inode = inode, lo_name = name, lo_data = data, lo_start = current,
             lo_end_block = of_nat (uadd current allocation div SECTOR_SIZE - 1),
             lo_end_offset = of_nat (uadd current (length data) - 1) \<rparr> # ls)))"

definition total_slots :: "nat \<Rightarrow> nat option \<Rightarrow> nat" where
  "total_slots n_files dirent_slots =
     (let required_slots = n_files + 1 in
      max required_slots (case dirent_slots of Some s \<Rightarrow> s | None \<Rightarrow> max 16 required_slots))"

definition put_sanity_words :: "bytes \<Rightarrow> bytes option" where
  "put_sanity_words img =
     foldM (\<lambda>m off. put_u32 m off 0xFFFFFFFF) img
       [BFS_SANITYW_OFFSET, BFS_SANITYW_OFFSET + 4, BFS_SANITYW_OFFSET + 8, BFS_SANITYW_OFFSET + 12]"

definition put_bfs_super :: "nat \<Rightarrow> nat \<Rightarrow> bytes \<Rightarrow> bytes option" where
  "put_bfs_super data_start size_bytes img =
     do { img \<leftarrow> put_u32 img 0 BFS_MAGIC;
          img \<leftarrow> put_u32 img 4 (of_nat data_start);
          img \<leftarrow> put_u32 img 8 (of_nat (size_bytes - 1));
          put_sanity_words img }"

definition put_root_dirent :: "nat \<Rightarrow> nat \<Rightarrow> nat \<Rightarrow> int \<Rightarrow> bytes \<Rightarrow> bytes option" where
  "put_root_dirent data_start root_dir_bytes root_dir_alloc timestamp img =
     (let root_start_block = of_nat (data_start div SECTOR_SIZE);
          root_end_block = of_nat ((data_start + root_dir_alloc) div SECTOR_SIZE - 1);
          root_end_offset = (if root_dir_bytes \<noteq> 0 then of_nat (data_start + root_dir_bytes - 1)
                             else of_nat (data_start - 1))
      in put_dirent img BFS_SUPER_SIZE BFS_ROOT_INODE root_start_block root_end_block root_end_offset
           BFS_VDIR 0x1ED 2 timestamp)"

text \<open>One round of the second loop: the inode record, the data, the directory entry.\<close>

definition put_file :: "nat \<Rightarrow> int \<Rightarrow> bytes \<Rightarrow> nat \<times> bfs_layout \<Rightarrow> bytes option" where
  "put_file data_start timestamp img = (\<lambda>(index, l).
     let inode_offset = BFS_SUPER_SIZE + (index + 1) * BFS_DIRENT_SIZE;
         directory_offset = data_start + index * BFS_LDIR_SIZE;
         name_bytes = lo_name l in
     do { img \<leftarrow> (if lo_data l = [] then
              put_dirent img inode_offset (lo_inode l) 0 0 0 BFS_VREG 0x1A4 1 timestamp
            else do { img \<leftarrow> copy_at img (lo_start l) (lo_data l);
              put_dirent img inode_offset (lo_inode l) (of_nat (lo_start l div SECTOR_SIZE))
                (lo_end_block l) (lo_end_offset l) BFS_VREG 0x1A4 1 timestamp });
          img \<leftarrow> put_u16 img directory_offset (lo_inode l);
          img \<leftarrow> copy_at img (directory_offset + 2) name_bytes;
          fill_at img (directory_offset + 2 + length name_bytes) (directory_offset + BFS_LDIR_SIZE) 0 })"

definition put_files :: "nat \<Rightarrow> int \<Rightarrow> bfs_layout list \<Rightarrow> bytes \<Rightarrow> bytes option" where
  "put_files data_start timestamp layouts img =
     foldM (put_file data_start timestamp) img (enumerate 0 layouts)"

text \<open>The slice is written on a view of \<^verbatim>\<open>out\<close>, which starts zero-filled.\<close>

definition format_slice ::
    "nat \<Rightarrow> nat \<Rightarrow> nat \<Rightarrow> nat \<Rightarrow> nat \<Rightarrow> int \<Rightarrow> bfs_layout list \<Rightarrow> image \<Rightarrow> image option" where
  "format_slice base size_bytes data_start root_dir_bytes root_dir_alloc timestamp layouts out =
     do { view \<leftarrow> subslice out base (uadd base size_bytes);
          img \<leftarrow> put_bfs_super data_start size_bytes (replicate (length view) 0);
          img \<leftarrow> put_root_dirent data_start root_dir_bytes root_dir_alloc timestamp img;
          img \<leftarrow> put_files data_start timestamp layouts img;
          copy_at out base img }"

definition bfs_format ::
    "nat \<Rightarrow> nat \<Rightarrow> (rstr \<times> bytes) list \<Rightarrow> nat option \<Rightarrow> int \<Rightarrow> (image, bfs_error, unit) wm" where
  "bfs_format fs_start size_bytes files dirent_slots timestamp =
     (if size_bytes < BFS_SUPER_SIZE + SECTOR_SIZE then wfail SliceTooSmall else
      case check_names [] files of Inl e \<Rightarrow> wfail e | Inr _ \<Rightarrow>
      let data_start = round_up (uadd BFS_SUPER_SIZE (umul (total_slots (length files) dirent_slots) BFS_DIRENT_SIZE))
                         SECTOR_SIZE;
          root_dir_bytes = length files * BFS_LDIR_SIZE;
          root_dir_alloc = max SECTOR_SIZE (round_up (max root_dir_bytes 1) SECTOR_SIZE) in
      if uadd data_start root_dir_alloc > size_bytes then wfail TableTooSmall else
      case layout_files size_bytes 0 (uadd data_start root_dir_alloc) files of
        Inl e \<Rightarrow> wfail e
      | Inr layouts \<Rightarrow>
          wmodify (format_slice fs_start size_bytes data_start root_dir_bytes root_dir_alloc timestamp layouts))"

section \<open>Reading\<close>

definition bfs_detect_at_start :: "image \<Rightarrow> nat \<Rightarrow> bfs option option" where
  "bfs_detect_at_start img fs_start =
     (if uadd fs_start BFS_SUPER_SIZE > length img then Some None else
      do { magic \<leftarrow> u32 img fs_start;
           if magic \<noteq> BFS_MAGIC then Some None else
           do { ds \<leftarrow> u32 img (fs_start + 4);
                de \<leftarrow> u32 img (fs_start + 8);
                Some (if unat ds < BFS_SUPER_SIZE \<or> de < ds then None
                      else Some \<lparr> bfs_start = fs_start, bfs_data_start = unat ds, bfs_data_end = unat de \<rparr>) } })"

definition bfs_read_inode :: "image \<Rightarrow> bfs \<Rightarrow> u16 \<Rightarrow> (u32 \<times> u32 \<times> u32 \<times> u32) option option" where
  "bfs_read_inode img b inode_number =
     (if inode_number < BFS_ROOT_INODE then Some None else
      let slot = unat (inode_number - BFS_ROOT_INODE);
          at = uadd (bfs_start b) (BFS_SUPER_SIZE + slot * BFS_DIRENT_SIZE) in
      if uadd at BFS_DIRENT_SIZE > length img then Some None else
      do { stored_ino \<leftarrow> u16 img (at + BFS_DIRENT_INO_OFFSET);
           if stored_ino \<noteq> inode_number then Some None else
           do { sblock \<leftarrow> u32 img (at + BFS_DIRENT_SBLOCK_OFFSET);
                eblock \<leftarrow> u32 img (at + BFS_DIRENT_EBLOCK_OFFSET);
                eoffset \<leftarrow> u32 img (at + BFS_DIRENT_EOFFSET_OFFSET);
                file_type \<leftarrow> u32 img (at + (BFS_DIRENT_VATTR_OFFSET + BFS_VATTR_TYPE_OFFSET));
                Some (Some (sblock, eblock, eoffset, file_type)) } })"

definition inode_size :: "u32 \<Rightarrow> u32 \<Rightarrow> nat" where
  "inode_size sblock eoffset =
     (if sblock = 0 then 0 else
      let start = unat sblock * SECTOR_SIZE in
      if unat eoffset \<ge> start then unat eoffset - start + 1 else 0)"

text \<open>One entry of the root directory; \<open>None\<close> for a free one.\<close>

definition bfs_dir_entry :: "image \<Rightarrow> bfs \<Rightarrow> nat \<Rightarrow> bfs_entry option option" where
  "bfs_dir_entry img b at =
     do { ino \<leftarrow> u16 img at;
          if ino = 0 then Some None else
          do { raw \<leftarrow> subslice img (at + 2) (at + BFS_LDIR_SIZE);
               found \<leftarrow> bfs_read_inode img b ino;
               Some (Some \<lparr> be_name = utf8_lossy (takeWhile (\<lambda>c. c \<noteq> 0) raw), be_inode = ino,
                 be_size = (case found of Some (s, _, e, _) \<Rightarrow> inode_size s e | None \<Rightarrow> 0) \<rparr>) } }"

function bfs_scan_root :: "image \<Rightarrow> bfs \<Rightarrow> nat \<Rightarrow> nat \<Rightarrow> nat \<Rightarrow> bfs_entry list option" where
  "bfs_scan_root img b dir_start dir_len offset =
     (if offset + BFS_LDIR_SIZE \<le> dir_len then
        let at = uadd dir_start offset in
        if uadd at BFS_LDIR_SIZE > length img then Some [] else
        do { e \<leftarrow> bfs_dir_entry img b at;
             rest \<leftarrow> bfs_scan_root img b dir_start dir_len (offset + BFS_LDIR_SIZE);
             Some (case e of None \<Rightarrow> rest | Some e \<Rightarrow> e # rest) }
      else Some [])"
  by pat_completeness auto
termination
  by (relation "measure (\<lambda>(_, _, _, n, offset). n - offset)") auto

declare bfs_scan_root.simps [simp del]

definition bfs_list_root :: "image \<Rightarrow> bfs \<Rightarrow> bfs_entry list option" where
  "bfs_list_root img b =
     do { found \<leftarrow> bfs_read_inode img b BFS_ROOT_INODE;
          (case found of
             None \<Rightarrow> Some []
           | Some (sblock, _, eoffset, _) \<Rightarrow>
               bfs_scan_root img b (uadd (bfs_start b) (unat sblock * SECTOR_SIZE)) (inode_size sblock eoffset) 0) }"

definition bfs_read_file :: "image \<Rightarrow> bfs \<Rightarrow> rstr \<Rightarrow> bytes option option" where
  "bfs_read_file img b name =
     do { entries \<leftarrow> bfs_list_root img b;
          (case find (\<lambda>e. be_name e = name) entries of
             None \<Rightarrow> Some None
           | Some e \<Rightarrow>
               do { found \<leftarrow> bfs_read_inode img b (be_inode e);
                    (case found of
                       None \<Rightarrow> Some None
                     | Some (sblock, _, eoffset, _) \<Rightarrow>
                         let size = inode_size sblock eoffset;
                             start = uadd (bfs_start b) (unat sblock * SECTOR_SIZE) in
                         if uadd start size > length img then Some None
                         else do { data \<leftarrow> subslice img start (start + size); Some (Some data) }) }) }"

end
