(* ===== verification/Detectors.thy ===== *)
theory Detectors
  imports Disk_Inspect Bfs Reader
begin

text \<open>
  The detectors that plug the two file systems into disk inspection
  (\<^verbatim>\<open>crates/svr4-ufs/src/detector.rs\<close> and \<^verbatim>\<open>crates/svr4-bfs/src/detector.rs\<close>).
\<close>

definition ufs_probe :: "bytes \<Rightarrow> detected_fs option option" where
  "ufs_probe slice_bytes =
     do { found \<leftarrow> detect_ufs_at_start slice_bytes 0;
          (case found of
             None \<Rightarrow> Some None
           | Some u \<Rightarrow>
               do { entries \<leftarrow> list_root slice_bytes u;
                    Some (Some \<lparr> det_filesystem = lit ''ufs'', det_filesystem_offset = start_offset u,
                      det_root_entries = map (\<lambda>e. \<lparr> re_name = l_name e, re_inode = l_inode e,
                        re_size = map_option unat (l_size e) \<rparr>) entries \<rparr>) }) }"

definition bfs_probe :: "bytes \<Rightarrow> detected_fs option option" where
  "bfs_probe slice_bytes =
     do { found \<leftarrow> bfs_detect_at_start slice_bytes 0;
          (case found of
             None \<Rightarrow> Some None
           | Some b \<Rightarrow>
               do { entries \<leftarrow> bfs_list_root slice_bytes b;
                    Some (Some \<lparr> det_filesystem = lit ''bfs'', det_filesystem_offset = bfs_start b,
                      det_root_entries = map (\<lambda>e. \<lparr> re_name = be_name e, re_inode = ucast (be_inode e),
                        re_size = Some (be_size e) \<rparr>) entries \<rparr>) }) }"

definition ufs_detector :: fs_detector where
  "ufs_detector = \<lparr> probe = ufs_probe, reads_slices = True \<rparr>"

definition bfs_detector :: fs_detector where
  "bfs_detector = \<lparr> probe = bfs_probe, reads_slices = True \<rparr>"

end
