(* ===== verification/Fs_Core.thy ===== *)
theory Fs_Core
  imports Rust_Std
begin

text \<open>
  The remaining parts of \<^verbatim>\<open>crates/svr4-fs-core\<close>: the image backings of \<^verbatim>\<open>image.rs\<close> (the trait as a
  locale, interpreted for the in-memory and the memory-mapped backing), the file-system identification of
  \<^verbatim>\<open>fs.rs\<close> and the error type of \<^verbatim>\<open>error.rs\<close>. A mapped file is the bytes of the mapping; a flush
  hands them back as the bytes of the file. Offsets are \<^verbatim>\<open>u64\<close> values, and \<^verbatim>\<open>usize\<close> sums wrap.
\<close>

section \<open>Image backings\<close>

record vec_image =
  vi_data :: bytes

definition vec_zeroed :: "nat \<Rightarrow> vec_image" where
  "vec_zeroed n = \<lparr> vi_data = replicate n 0 \<rparr>"

definition vec_from_vec :: "bytes \<Rightarrow> vec_image" where
  "vec_from_vec data = \<lparr> vi_data = data \<rparr>"

definition vec_as_slice :: "vec_image \<Rightarrow> bytes" where
  "vec_as_slice i = vi_data i"

definition vec_into_vec :: "vec_image \<Rightarrow> bytes" where
  "vec_into_vec i = vi_data i"

definition vec_len :: "vec_image \<Rightarrow> nat" where
  "vec_len i = length (vi_data i)"

text \<open>A read into a buffer of the given length, and a write of a slice.\<close>

definition vec_read_at :: "vec_image \<Rightarrow> nat \<Rightarrow> nat \<Rightarrow> bytes option" where
  "vec_read_at i off n = (let fin = uadd off n in subslice (vi_data i) off fin)"

definition vec_write_at :: "vec_image \<Rightarrow> nat \<Rightarrow> bytes \<Rightarrow> vec_image option" where
  "vec_write_at i off src =
     (let fin = uadd off (length src) in
      do { _ \<leftarrow> subslice (vi_data i) off fin;
           data \<leftarrow> copy_at (vi_data i) off src;
           Some (i \<lparr> vi_data := data \<rparr>) })"

record mapped_image =
  mi_map :: bytes

definition mapped_open :: "bytes \<Rightarrow> mapped_image" where
  "mapped_open contents = \<lparr> mi_map = contents \<rparr>"

definition mapped_create :: "nat \<Rightarrow> mapped_image" where
  "mapped_create n = \<lparr> mi_map = replicate n 0 \<rparr>"

definition mapped_as_slice :: "mapped_image \<Rightarrow> bytes" where
  "mapped_as_slice i = mi_map i"

definition mapped_flush :: "mapped_image \<Rightarrow> bytes" where
  "mapped_flush i = mi_map i"

definition mapped_len :: "mapped_image \<Rightarrow> nat" where
  "mapped_len i = length (mi_map i)"

definition mapped_read_at :: "mapped_image \<Rightarrow> nat \<Rightarrow> nat \<Rightarrow> bytes option" where
  "mapped_read_at i off n = subslice (mi_map i) off (uadd off n)"

definition mapped_write_at :: "mapped_image \<Rightarrow> nat \<Rightarrow> bytes \<Rightarrow> mapped_image option" where
  "mapped_write_at i off src =
     do { _ \<leftarrow> subslice (mi_map i) off (uadd off (length src));
          data \<leftarrow> copy_at (mi_map i) off src;
          Some (i \<lparr> mi_map := data \<rparr>) }"

text \<open>The convenience reader and the emptiness test that the trait provides for every backing.\<close>

definition read_vec :: "('i \<Rightarrow> nat \<Rightarrow> nat \<Rightarrow> bytes option) \<Rightarrow> 'i \<Rightarrow> nat \<Rightarrow> nat \<Rightarrow> bytes option" where
  "read_vec rd i off n = rd i off n"

definition backing_is_empty :: "('i \<Rightarrow> nat) \<Rightarrow> 'i \<Rightarrow> bool" where
  "backing_is_empty ln i \<longleftrightarrow> ln i = 0"

text \<open>
  The contract of a backing, a fixed-size array of bytes: the laws relate every operation to the array
  it stands for; the clients' facts follow from them.
\<close>

locale image_backing =
  fixes contents :: "'i \<Rightarrow> bytes"
    and ln :: "'i \<Rightarrow> nat"
    and rd :: "'i \<Rightarrow> nat \<Rightarrow> nat \<Rightarrow> bytes option"
    and wr :: "'i \<Rightarrow> nat \<Rightarrow> bytes \<Rightarrow> 'i option"
  assumes ln_contents: "ln i = length (contents i)"
    and rd_contents: "off + n < 2 ^ 64 \<Longrightarrow> rd i off n = subslice (contents i) off (off + n)"
    and wr_contents: "off + length src < 2 ^ 64 \<Longrightarrow> map_option contents (wr i off src) = copy_at (contents i) off src"
begin

lemma wr_total: "off + length src \<le> ln i \<Longrightarrow> ln i < 2 ^ 64 \<Longrightarrow> \<exists>i'. wr i off src = Some i'"
  using wr_contents [of off src i] by (cases "wr i off src") (auto simp: ln_contents copy_at_def)

lemma wr_ln: "wr i off src = Some i' \<Longrightarrow> off + length src < 2 ^ 64 \<Longrightarrow> ln i' = ln i"
  using wr_contents [of off src i] copy_at_length [of "contents i" off src] by (simp add: ln_contents)

lemma wr_panics: "ln i < off + length src \<Longrightarrow> off + length src < 2 ^ 64 \<Longrightarrow> wr i off src = None"
  using wr_contents [of off src i] by (cases "wr i off src") (auto simp: ln_contents copy_at_def split: if_splits)

lemma rd_after_wr:
  assumes "wr i off src = Some i'" "off + length src < 2 ^ 64"
  shows "rd i' off (length src) = Some src"
  using wr_contents [of off src i] subslice_copy_same [of "contents i" off src] assms by (simp add: rd_contents)

lemma rd_disjoint:
  assumes "wr i off src = Some i'" "off + length src < 2 ^ 64" "a + n < 2 ^ 64" "a + n \<le> off \<or> off + length src \<le> a"
  shows "rd i' a n = rd i a n"
  using wr_contents [of off src i] subslice_copy_disjoint [of "contents i" off src _ "a + n" a] assms by (simp add: rd_contents)

end

lemma bounds_before_copy:
  "off + length src < 2 ^ 64 \<Longrightarrow>
     do { _ \<leftarrow> subslice xs off (off + length src); ys \<leftarrow> copy_at xs off src; Some (f ys) } = map_option f (copy_at xs off src)"
  by (simp add: subslice_def copy_at_def)

interpretation vec: image_backing vi_data vec_len vec_read_at vec_write_at
  by unfold_locales
    (simp_all add: vec_len_def vec_read_at_def vec_write_at_def Let_def uadd_eq bounds_before_copy option.map_comp o_def option.map_ident)

interpretation mapped: image_backing mi_map mapped_len mapped_read_at mapped_write_at
  by unfold_locales
    (simp_all add: mapped_len_def mapped_read_at_def mapped_write_at_def uadd_eq bounds_before_copy option.map_comp o_def option.map_ident)

section \<open>File-system identification\<close>

datatype fs_kind = FsUfs | FsBfs

fun fs_kind_as_str :: "fs_kind \<Rightarrow> rstr" where
  "fs_kind_as_str FsUfs = lit ''ufs''"
| "fs_kind_as_str FsBfs = lit ''bfs''"

record filesystem_candidate =
  fc_kind :: fs_kind
  fc_start_offset :: nat
  fc_super_offset :: nat
  fc_block_size :: "u32 option"

definition candidate_new :: "fs_kind \<Rightarrow> nat \<Rightarrow> nat \<Rightarrow> filesystem_candidate" where
  "candidate_new kind start super =
     \<lparr> fc_kind = kind, fc_start_offset = start, fc_super_offset = super, fc_block_size = None \<rparr>"

definition with_block_size :: "u32 \<Rightarrow> filesystem_candidate \<Rightarrow> filesystem_candidate" where
  "with_block_size n c = c \<lparr> fc_block_size := Some n \<rparr>"

section \<open>Errors\<close>

text \<open>The I/O error of the standard library is kept abstract; its rendering is a parameter.\<close>

datatype 'io error = Io 'io | Corrupt rstr | NotFound rstr | Unsupported rstr

fun display_error :: "('io \<Rightarrow> rstr) \<Rightarrow> 'io error \<Rightarrow> rstr" where
  "display_error show_io (Io e) = lit ''i/o error: '' @ show_io e"
| "display_error show_io (Corrupt m) = lit ''corrupt filesystem: '' @ m"
| "display_error show_io (NotFound m) = lit ''not found: '' @ m"
| "display_error show_io (Unsupported m) = lit ''unsupported: '' @ m"

fun error_source :: "'io error \<Rightarrow> 'io option" where
  "error_source (Io e) = Some e"
| "error_source _ = None"

end
