(* ===== verification/Mount.thy ===== *)
theory Mount
  imports Errno Namespace Summary Detectors Fs_Core
begin

text \<open>
  The FUSE daemon \<^verbatim>\<open>bins/svr4-ufs-mount/src/main.rs\<close>: the daemon state, one definition per handler of
  \<^verbatim>\<open>impl Filesystem for UfsFs\<close>, and the search for the file system to mount.

  A handler maps its arguments and the state to the reply it sends and the new state; \<open>None\<close> is a panic,
  which aborts the daemon. The mutex serialises the handlers, so the daemon is a sequence of such steps.
  What a request brings from outside is an argument: the caller's uid and gid, the clock reading of
  \<^verbatim>\<open>now_secs\<close>, whether \<^verbatim>\<open>msync\<close> succeeds, and how much a directory reply takes. A time is its number of
  seconds since 1970, rounded down. Memory for a buffer is assumed to be available.
\<close>

unbundle bit_operations_syntax

section \<open>Numbers, times and attributes\<close>

definition fuse_to_ufs :: "int \<Rightarrow> int" where
  "fuse_to_ufs n = (if n = 1 then 2 else n)"

definition ufs_to_fuse :: "int \<Rightarrow> int" where
  "ufs_to_fuse n = (if n = 2 then 1 else n)"

definition systime_secs :: "int \<Rightarrow> u32" where
  "systime_secs t = (if t < 0 then 0 else of_int t)"

definition to_systime :: "u32 \<Rightarrow> int" where
  "to_systime secs = uint secs"

datatype time_or_now = SpecificTime int | Now

record request =
  rq_uid :: u32
  rq_gid :: u32
  rq_clock :: int

definition now_secs :: "request \<Rightarrow> u32" where
  "now_secs rq = systime_secs (rq_clock rq)"

fun timeornow_secs :: "request \<Rightarrow> time_or_now \<Rightarrow> u32" where
  "timeornow_secs rq (SpecificTime t) = systime_secs t"
| "timeornow_secs rq Now = now_secs rq"

datatype fuse_file_type = FtDirectory | FtRegularFile | FtSymlink | FtCharDevice | FtBlockDevice | FtNamedPipe | FtSocket

abbreviation (input) UFS_IFIFO :: u32 where "UFS_IFIFO \<equiv> 0x1000"
abbreviation (input) UFS_IFSOCK :: u32 where "UFS_IFSOCK \<equiv> 0xC000"

definition file_type_of :: "u32 \<Rightarrow> fuse_file_type" where
  "file_type_of mode =
     (let t = mode AND UFS_IFMT in
      if t = UFS_IFDIR then FtDirectory else if t = UFS_IFREG then FtRegularFile else if t = UFS_IFLNK then FtSymlink
      else if t = UFS_IFCHR then FtCharDevice else if t = UFS_IFBLK then FtBlockDevice
      else if t = UFS_IFIFO then FtNamedPipe else if t = UFS_IFSOCK then FtSocket else FtRegularFile)"

definition split_rdev :: "u32 \<Rightarrow> u32 \<times> u32" where
  "split_rdev rdev32 =
     (let rdev = ucast rdev32 :: u64;
          major = ucast ((drop_bit 8 rdev AND 0xFFF) OR (drop_bit 32 rdev AND NOT 0xFFF));
          minor = ucast ((rdev AND 0xFF) OR (drop_bit 12 rdev AND NOT 0xFF))
      in (major, minor))"

record file_attr =
  fa_ino :: u64
  fa_size :: nat
  fa_blocks :: nat
  fa_atime :: int
  fa_mtime :: int
  fa_ctime :: int
  fa_crtime :: int
  fa_kind :: fuse_file_type
  fa_perm :: u16
  fa_nlink :: u32
  fa_uid :: u32
  fa_gid :: u32
  fa_rdev :: u32
  fa_blksize :: u32
  fa_flags :: u32

definition make_attr :: "inode \<Rightarrow> int \<Rightarrow> nat \<Rightarrow> u32 \<Rightarrow> file_attr" where
  "make_attr i ufs_ino sz blksize =
     \<lparr> fa_ino = of_int (ufs_to_fuse ufs_ino), fa_size = sz, fa_blocks = div_ceil sz 512,
       fa_atime = to_systime (di_atime i), fa_mtime = to_systime (di_mtime i), fa_ctime = to_systime (di_ctime i),
       fa_crtime = to_systime (di_ctime i), fa_kind = file_type_of (di_mode i), fa_perm = ucast (di_mode i AND 0xFFF),
       fa_nlink = ucast (di_nlink i), fa_uid = di_uid i, fa_gid = di_gid i, fa_rdev = 0, fa_blksize = blksize,
       fa_flags = 0 \<rparr>"

section \<open>The daemon state\<close>

record file_buf =
  fb_data :: bytes
  fb_dirty :: bool

text \<open>The handle table is an association list with distinct keys, the buffers are a map.\<close>

record mount_state =
  ms_img :: image
  ms_ufs :: ufs
  ms_read_only :: bool
  ms_next_fh :: u64
  ms_handles :: "(u64 \<times> int) list"
  ms_buffers :: "int \<rightharpoonup> file_buf"

definition mount_new :: "image \<Rightarrow> ufs \<Rightarrow> bool \<Rightarrow> mount_state" where
  "mount_new img u read_only =
     \<lparr> ms_img = img, ms_ufs = u, ms_read_only = read_only, ms_next_fh = 1, ms_handles = [], ms_buffers = Map.empty \<rparr>"

definition handles_insert :: "u64 \<Rightarrow> int \<Rightarrow> (u64 \<times> int) list \<Rightarrow> (u64 \<times> int) list" where
  "handles_insert fh ino hs = (fh, ino) # filter (\<lambda>h. fst h \<noteq> fh) hs"

definition handles_remove :: "u64 \<Rightarrow> (u64 \<times> int) list \<Rightarrow> (u64 \<times> int) list" where
  "handles_remove fh hs = filter (\<lambda>h. fst h \<noteq> fh) hs"

text \<open>A computation on the image, run inside the daemon.\<close>

definition on_image :: "(image, werror, 'a) wm \<Rightarrow> mount_state \<Rightarrow> ((werror + 'a) \<times> mount_state) option" where
  "on_image m st = map_option (\<lambda>(r, img). (r, st \<lparr> ms_img := img \<rparr>)) (m (ms_img st))"

definition attr_for :: "mount_state \<Rightarrow> int \<Rightarrow> file_attr option option" where
  "attr_for st ufs_ino =
     do { found \<leftarrow> read_inode (ms_img st) (ms_ufs st) ufs_ino;
          Some (case found of
                  None \<Rightarrow> None
                | Some i \<Rightarrow>
                    let sz = (case ms_buffers st ufs_ino of Some b \<Rightarrow> length (fb_data b) | None \<Rightarrow> unat (di_size i)) in
                    Some (make_attr i ufs_ino sz (of_int (bsize (sb (ms_ufs st)))))) }"

definition ensure_buffer :: "int \<Rightarrow> mount_state \<Rightarrow> mount_state option" where
  "ensure_buffer ufs_ino st =
     (if ms_buffers st ufs_ino \<noteq> None then Some st else
      do { found \<leftarrow> read_inode (ms_img st) (ms_ufs st) ufs_ino;
           data \<leftarrow> (case found of Some i \<Rightarrow> read_inode_bytes (ms_img st) (ms_ufs st) i | None \<Rightarrow> Some []);
           Some (st \<lparr> ms_buffers := (ms_buffers st)(ufs_ino \<mapsto> \<lparr> fb_data = data, fb_dirty = False \<rparr>) \<rparr>) })"

definition mark_clean :: "int \<Rightarrow> mount_state \<Rightarrow> mount_state" where
  "mark_clean ino st =
     (case ms_buffers st ino of
        Some b \<Rightarrow> st \<lparr> ms_buffers := (ms_buffers st)(ino \<mapsto> b \<lparr> fb_dirty := False \<rparr>) \<rparr>
      | None \<Rightarrow> st)"

definition commit :: "request \<Rightarrow> int \<Rightarrow> mount_state \<Rightarrow> ((werror + unit) \<times> mount_state) option" where
  "commit rq ufs_ino st =
     (case ms_buffers st ufs_ino of
        Some b \<Rightarrow>
          if fb_dirty b then
            do { (r, st) \<leftarrow> on_image (set_inode_contents (ms_ufs st) ufs_ino (fb_data b)) st;
                 (case r of
                    Inl e \<Rightarrow> Some (Inl e, st)
                  | Inr _ \<Rightarrow>
                      let now = now_secs rq in
                      do { img \<leftarrow> set_inode_times (ms_ufs st) ufs_ino None (Some now) (Some now) (ms_img st);
                           Some (Inr (), mark_clean ufs_ino (st \<lparr> ms_img := img \<rparr>)) }) }
          else Some (Inr (), st)
      | None \<Rightarrow> Some (Inr (), st))"

section \<open>Replies\<close>

record dir_reply =
  dy_ino :: u64
  dy_offset :: nat
  dy_kind :: fuse_file_type
  dy_name :: rstr

record statfs_reply =
  sf_blocks :: nat
  sf_bfree :: nat
  sf_bavail :: nat
  sf_files :: nat
  sf_ffree :: nat
  sf_bsize :: u32
  sf_namelen :: u32
  sf_frsize :: u32

datatype reply =
    ReplyError errno
  | ReplyOk
  | ReplyAttr file_attr
  | ReplyEntry file_attr
  | ReplyCreated file_attr u64
  | ReplyOpened u64
  | ReplyData bytes
  | ReplyWritten u32
  | ReplyXattrSize nat
  | ReplyDirectory "dir_reply list"
  | ReplyStatfs statfs_reply

text \<open>The macro \<^verbatim>\<open>name_str!\<close> replies \<open>EINVAL\<close> to a name that is not UTF-8.\<close>

definition with_name :: "bytes \<Rightarrow> (mount_state \<Rightarrow> (reply \<times> mount_state) option) \<Rightarrow> mount_state \<Rightarrow> (reply \<times> mount_state) option" where
  "with_name name h st = (if utf8_ok name then h st else Some (ReplyError EINVAL, st))"

text \<open>The guard of every writing handler.\<close>

definition writable :: "(mount_state \<Rightarrow> (reply \<times> mount_state) option) \<Rightarrow> mount_state \<Rightarrow> (reply \<times> mount_state) option" where
  "writable h st = (if ms_read_only st then Some (ReplyError EROFS, st) else h st)"

text \<open>The reply after a namespace operation: the entry of the inode it made, or the error.\<close>

definition reply_entry :: "(werror + int) \<times> mount_state \<Rightarrow> (reply \<times> mount_state) option" where
  "reply_entry = (\<lambda>(r, st). case r of
       Inl e \<Rightarrow> Some (ReplyError (errno_from (werror_message e)), st)
     | Inr new \<Rightarrow>
         do { a \<leftarrow> attr_for st new;
              Some (case a of Some attr \<Rightarrow> ReplyEntry attr | None \<Rightarrow> ReplyError EIO, st) })"

definition reply_unit :: "(werror + 'a) \<times> mount_state \<Rightarrow> reply \<times> mount_state" where
  "reply_unit = (\<lambda>(r, st). case r of
       Inl e \<Rightarrow> (ReplyError (errno_from (werror_message e)), st) | Inr _ \<Rightarrow> (ReplyOk, st))"

definition ino_arg :: "u64 \<Rightarrow> int" where
  "ino_arg n = fuse_to_ufs (sint n)"

section \<open>Handlers that read\<close>

definition fuse_lookup :: "u64 \<Rightarrow> bytes \<Rightarrow> mount_state \<Rightarrow> (reply \<times> mount_state) option" where
  "fuse_lookup parent name = with_name name (\<lambda>st.
     do { found \<leftarrow> read_inode (ms_img st) (ms_ufs st) (ino_arg parent);
          (case found of
             None \<Rightarrow> Some (ReplyError ENOENT, st)
           | Some parent_inode \<Rightarrow>
               do { hit \<leftarrow> lookup_directory_entry (ms_img st) (ms_ufs st) parent_inode name;
                    (case hit of
                       None \<Rightarrow> Some (ReplyError ENOENT, st)
                     | Some (child_number, _) \<Rightarrow>
                         do { a \<leftarrow> attr_for st (uint child_number);
                              Some (case a of Some attr \<Rightarrow> ReplyEntry attr | None \<Rightarrow> ReplyError ENOENT, st) }) }) })"

definition fuse_getattr :: "u64 \<Rightarrow> mount_state \<Rightarrow> (reply \<times> mount_state) option" where
  "fuse_getattr ino st =
     do { a \<leftarrow> attr_for st (ino_arg ino);
          Some (case a of Some attr \<Rightarrow> ReplyAttr attr | None \<Rightarrow> ReplyError ENOENT, st) }"

definition fuse_access :: "u64 \<Rightarrow> mount_state \<Rightarrow> (reply \<times> mount_state) option" where
  "fuse_access ino st =
     do { found \<leftarrow> read_inode (ms_img st) (ms_ufs st) (ino_arg ino);
          Some (case found of Some _ \<Rightarrow> ReplyOk | None \<Rightarrow> ReplyError ENOENT, st) }"

definition fuse_getxattr :: "mount_state \<Rightarrow> (reply \<times> mount_state) option" where
  "fuse_getxattr st = Some (ReplyError ENODATA, st)"

definition fuse_listxattr :: "u32 \<Rightarrow> mount_state \<Rightarrow> (reply \<times> mount_state) option" where
  "fuse_listxattr sz st = Some (if sz = 0 then ReplyXattrSize 0 else ReplyData [], st)"

definition fuse_readlink :: "u64 \<Rightarrow> mount_state \<Rightarrow> (reply \<times> mount_state) option" where
  "fuse_readlink ino st =
     do { found \<leftarrow> read_inode (ms_img st) (ms_ufs st) (ino_arg ino);
          (case found of
             Some i \<Rightarrow>
               if is_symlink i then
                 do { target \<leftarrow> read_symlink_target (ms_img st) (ms_ufs st) i; Some (ReplyData target, st) }
               else Some (ReplyError EINVAL, st)
           | None \<Rightarrow> Some (ReplyError ENOENT, st)) }"

definition fuse_read :: "u64 \<Rightarrow> u64 \<Rightarrow> u32 \<Rightarrow> mount_state \<Rightarrow> (reply \<times> mount_state) option" where
  "fuse_read ino offset sz st =
     (let uino = ino_arg ino; off = unat offset; n = unat sz in
      case ms_buffers st uino of
        Some b \<Rightarrow>
          let start = min off (length (fb_data b)); fin = min (uadd start n) (length (fb_data b)) in
          do { data \<leftarrow> subslice (fb_data b) start fin; Some (ReplyData data, st) }
      | None \<Rightarrow>
          do { found \<leftarrow> read_inode (ms_img st) (ms_ufs st) uino;
               (case found of
                  Some i \<Rightarrow>
                    do { data \<leftarrow> read_inode_range (ms_img st) (ms_ufs st) i off n; Some (ReplyData data, st) }
                | None \<Rightarrow> Some (ReplyError ENOENT, st)) })"

text \<open>
  The listing of a directory from an offset: the reply buffer takes an entry or refuses it
  (\<^verbatim>\<open>reply.add\<close> returns \<open>true\<close>), which ends the loop. \<open>takes\<close> is the buffer's answer, given what it
  holds.
\<close>

definition dir_reply_of :: "mount_state \<Rightarrow> nat \<times> dir_list_entry \<Rightarrow> dir_reply option" where
  "dir_reply_of st = (\<lambda>(index, entry).
     do { child \<leftarrow> read_inode (ms_img st) (ms_ufs st) (uint (l_inode entry));
          Some \<lparr> dy_ino = of_int (ufs_to_fuse (uint (l_inode entry))), dy_offset = index + 1,
            dy_kind = (case child of Some c \<Rightarrow> file_type_of (di_mode c) | None \<Rightarrow> FtRegularFile),
            dy_name = l_name entry \<rparr> })"

fun add_entries ::
    "(dir_reply list \<Rightarrow> dir_reply \<Rightarrow> bool) \<Rightarrow> mount_state \<Rightarrow> dir_reply list \<Rightarrow> (nat \<times> dir_list_entry) list \<Rightarrow> dir_reply list option" where
  "add_entries takes st acc [] = Some acc"
| "add_entries takes st acc (e # es) =
     do { d \<leftarrow> dir_reply_of st e;
          if takes acc d then add_entries takes st (acc @ [d]) es else Some acc }"

definition fuse_readdir ::
    "(dir_reply list \<Rightarrow> dir_reply \<Rightarrow> bool) \<Rightarrow> u64 \<Rightarrow> u64 \<Rightarrow> mount_state \<Rightarrow> (reply \<times> mount_state) option" where
  "fuse_readdir takes ino offset st =
     do { found \<leftarrow> read_inode (ms_img st) (ms_ufs st) (ino_arg ino);
          (case found of
             None \<Rightarrow> Some (ReplyError ENOENT, st)
           | Some i \<Rightarrow>
               if \<not> is_directory i then Some (ReplyError ENOTDIR, st) else
               do { entries \<leftarrow> iter_directory_entries (ms_img st) (ms_ufs st) i;
                    ds \<leftarrow> add_entries takes st [] (drop (unat offset) (enumerate 0 entries));
                    Some (ReplyDirectory ds, st) }) }"

definition fuse_statfs :: "mount_state \<Rightarrow> (reply \<times> mount_state) option" where
  "fuse_statfs st =
     (let s = sb (ms_ufs st); so = super_offset (ms_ufs st) in
      do { nbfree \<leftarrow> i32 (ms_img st) (so + UFS_FS_CSTOTAL_NBFREE_OFFSET);
           nifree \<leftarrow> i32 (ms_img st) (so + UFS_FS_CSTOTAL_NIFREE_OFFSET);
           nffree \<leftarrow> i32 (ms_img st) (so + UFS_FS_CSTOTAL_NFFREE_OFFSET);
           let free_frags = nat (max (i64 (nbfree * frag s + nffree)) 0) in
           Some (ReplyStatfs \<lparr> sf_blocks = nat (max (dsize s) 0), sf_bfree = free_frags, sf_bavail = free_frags,
             sf_files = nat (max (i64 (ipg s * ncg s)) 0), sf_ffree = nat (max nifree 0), sf_bsize = of_int (bsize s),
             sf_namelen = 255, sf_frsize = of_int (fsize s) \<rparr>, st) })"

section \<open>Handlers that write\<close>

definition set_size :: "int \<Rightarrow> u64 \<Rightarrow> mount_state \<Rightarrow> ((werror + unit) \<times> mount_state) option" where
  "set_size uino sz st =
     (case ms_buffers st uino of
        Some b \<Rightarrow> Some (Inr (), st \<lparr> ms_buffers := (ms_buffers st)(uino \<mapsto>
                     \<lparr> fb_data = resize0 (unat sz) (fb_data b), fb_dirty = True \<rparr>) \<rparr>)
      | None \<Rightarrow> on_image (Inode_Write.truncate (ms_ufs st) uino sz) st)"

definition set_mode :: "int \<Rightarrow> u32 option \<Rightarrow> mount_state \<Rightarrow> mount_state option" where
  "set_mode uino mode st =
     (case mode of None \<Rightarrow> Some st | Some m \<Rightarrow>
      do { found \<leftarrow> read_inode (ms_img st) (ms_ufs st) uino;
           (case found of None \<Rightarrow> Some st | Some cur \<Rightarrow>
            let new_mode = (di_mode cur AND UFS_IFMT) OR (m AND NOT UFS_IFMT) in
            do { img \<leftarrow> set_inode_mode (ms_ufs st) uino new_mode (ms_img st); Some (st \<lparr> ms_img := img \<rparr>) }) })"

definition set_owner :: "int \<Rightarrow> u32 option \<Rightarrow> u32 option \<Rightarrow> mount_state \<Rightarrow> mount_state option" where
  "set_owner uino uid gid st =
     (if uid = None \<and> gid = None then Some st else
      do { found \<leftarrow> read_inode (ms_img st) (ms_ufs st) uino;
           (case found of None \<Rightarrow> Some st | Some cur \<Rightarrow>
            let nu = (case uid of Some v \<Rightarrow> v | None \<Rightarrow> di_uid cur); ng = (case gid of Some v \<Rightarrow> v | None \<Rightarrow> di_gid cur) in
            do { img \<leftarrow> set_inode_owner (ms_ufs st) uino nu ng (ms_img st); Some (st \<lparr> ms_img := img \<rparr>) }) })"

definition set_times :: "int \<Rightarrow> u32 option \<Rightarrow> u32 option \<Rightarrow> u32 option \<Rightarrow> mount_state \<Rightarrow> mount_state option" where
  "set_times uino a m c st =
     (if a = None \<and> m = None \<and> c = None then Some st else
      do { img \<leftarrow> set_inode_times (ms_ufs st) uino a m c (ms_img st); Some (st \<lparr> ms_img := img \<rparr>) })"

record attr_args =
  sa_mode :: "u32 option"
  sa_uid :: "u32 option"
  sa_gid :: "u32 option"
  sa_size :: "u64 option"
  sa_atime :: "time_or_now option"
  sa_mtime :: "time_or_now option"
  sa_ctime :: "int option"

definition set_attributes :: "request \<Rightarrow> int \<Rightarrow> attr_args \<Rightarrow> mount_state \<Rightarrow> (reply \<times> mount_state) option" where
  "set_attributes rq uino args st =
     do { st \<leftarrow> set_mode uino (sa_mode args) st;
          st \<leftarrow> set_owner uino (sa_uid args) (sa_gid args) st;
          st \<leftarrow> set_times uino (map_option (timeornow_secs rq) (sa_atime args))
                 (map_option (timeornow_secs rq) (sa_mtime args)) (map_option systime_secs (sa_ctime args)) st;
          a \<leftarrow> attr_for st uino;
          Some (case a of Some attr \<Rightarrow> ReplyAttr attr | None \<Rightarrow> ReplyError ENOENT, st) }"

definition fuse_setattr :: "request \<Rightarrow> u64 \<Rightarrow> attr_args \<Rightarrow> mount_state \<Rightarrow> (reply \<times> mount_state) option" where
  "fuse_setattr rq ino args = writable (\<lambda>st.
     let uino = ino_arg ino in
     do { (r, st) \<leftarrow> (case sa_size args of Some sz \<Rightarrow> set_size uino sz st | None \<Rightarrow> Some (Inr (), st));
          (case r of
             Inl e \<Rightarrow> Some (ReplyError (errno_from (werror_message e)), st)
           | Inr _ \<Rightarrow> set_attributes rq uino args st) })"

definition fuse_mkdir :: "request \<Rightarrow> u64 \<Rightarrow> bytes \<Rightarrow> u32 \<Rightarrow> u32 \<Rightarrow> mount_state \<Rightarrow> (reply \<times> mount_state) option" where
  "fuse_mkdir rq parent name mode umask = with_name name (writable (\<lambda>st.
     do { r \<leftarrow> on_image (mkdir_in_parent (ms_ufs st) (ino_arg parent) name (mode AND NOT umask)
                  (rq_uid rq) (rq_gid rq) (now_secs rq)) st;
          reply_entry r }))"

definition fuse_mknod :: "request \<Rightarrow> u64 \<Rightarrow> bytes \<Rightarrow> u32 \<Rightarrow> u32 \<Rightarrow> u32 \<Rightarrow> mount_state \<Rightarrow> (reply \<times> mount_state) option" where
  "fuse_mknod rq parent name mode umask rdev = with_name name (writable (\<lambda>st.
     let kind = mode AND UFS_IFMT in
     if kind \<noteq> UFS_IFCHR \<and> kind \<noteq> UFS_IFBLK then Some (ReplyError EINVAL, st) else
     let (major, minor) = split_rdev rdev; eff_mode = mode AND NOT umask AND 0xFFF in
     do { r \<leftarrow> on_image (mknod_in_parent (ms_ufs st) (ino_arg parent) name kind major minor eff_mode
                  (rq_uid rq) (rq_gid rq) (now_secs rq)) st;
          reply_entry r }))"

definition fuse_unlink :: "u64 \<Rightarrow> bytes \<Rightarrow> mount_state \<Rightarrow> (reply \<times> mount_state) option" where
  "fuse_unlink parent name = with_name name (writable (\<lambda>st.
     map_option reply_unit (on_image (unlink_in_parent (ms_ufs st) (ino_arg parent) name) st)))"

definition fuse_rmdir :: "u64 \<Rightarrow> bytes \<Rightarrow> mount_state \<Rightarrow> (reply \<times> mount_state) option" where
  "fuse_rmdir parent name = with_name name (writable (\<lambda>st.
     map_option reply_unit (on_image (rmdir_in_parent (ms_ufs st) (ino_arg parent) name) st)))"

definition fuse_symlink :: "request \<Rightarrow> u64 \<Rightarrow> bytes \<Rightarrow> bytes \<Rightarrow> mount_state \<Rightarrow> (reply \<times> mount_state) option" where
  "fuse_symlink rq parent link_name target = with_name link_name (with_name target (writable (\<lambda>st.
     do { r \<leftarrow> on_image (symlink_in_parent (ms_ufs st) (ino_arg parent) link_name target 0x1FF
                  (rq_uid rq) (rq_gid rq) (now_secs rq)) st;
          reply_entry r })))"

definition fuse_rename :: "u64 \<Rightarrow> bytes \<Rightarrow> u64 \<Rightarrow> bytes \<Rightarrow> mount_state \<Rightarrow> (reply \<times> mount_state) option" where
  "fuse_rename parent name newparent newname = with_name name (with_name newname (writable (\<lambda>st.
     map_option reply_unit
       (on_image (rename_in_parent (ms_ufs st) (ino_arg parent) name (ino_arg newparent) newname) st))))"

definition fuse_link :: "u64 \<Rightarrow> u64 \<Rightarrow> bytes \<Rightarrow> mount_state \<Rightarrow> (reply \<times> mount_state) option" where
  "fuse_link ino newparent newname = with_name newname (writable (\<lambda>st.
     let target = ino_arg ino in
     do { (r, st) \<leftarrow> on_image (link_in_parent (ms_ufs st) (ino_arg newparent) newname target) st;
          reply_entry (map_sum id (\<lambda>_. target) r, st) }))"

definition open_handle :: "int \<Rightarrow> mount_state \<Rightarrow> u64 \<times> mount_state" where
  "open_handle uino st =
     (ms_next_fh st, st \<lparr> ms_next_fh := ms_next_fh st + 1, ms_handles := handles_insert (ms_next_fh st) uino (ms_handles st) \<rparr>)"

definition fuse_create :: "request \<Rightarrow> u64 \<Rightarrow> bytes \<Rightarrow> u32 \<Rightarrow> u32 \<Rightarrow> mount_state \<Rightarrow> (reply \<times> mount_state) option" where
  "fuse_create rq parent name mode umask = with_name name (writable (\<lambda>st.
     do { (r, st) \<leftarrow> on_image (create_empty_in_parent (ms_ufs st) (ino_arg parent) name (mode AND NOT umask)
                      (rq_uid rq) (rq_gid rq) (now_secs rq)) st;
          (case r of
             Inl e \<Rightarrow> Some (ReplyError (errno_from (werror_message e)), st)
           | Inr new \<Rightarrow>
               let st = st \<lparr> ms_buffers := (ms_buffers st)(new \<mapsto> \<lparr> fb_data = [], fb_dirty = False \<rparr>) \<rparr>;
                   (fh, st) = open_handle new st in
               do { a \<leftarrow> attr_for st new;
                    Some (case a of Some attr \<Rightarrow> ReplyCreated attr fh | None \<Rightarrow> ReplyError EIO, st) }) }))"

definition fuse_open :: "u64 \<Rightarrow> mount_state \<Rightarrow> (reply \<times> mount_state) option" where
  "fuse_open ino st = (let (fh, st) = open_handle (ino_arg ino) st in Some (ReplyOpened fh, st))"

text \<open>The splice_at of a write into a buffer: grow with zeros if needed, then copy.\<close>

definition splice_at :: "nat \<Rightarrow> bytes \<Rightarrow> bytes \<Rightarrow> bytes option" where
  "splice_at off data body =
     (let fin = uadd off (length data);
          body = (if fin > length body then resize0 fin body else body) in
      do { _ \<leftarrow> subslice body off fin; copy_at body off data })"

definition fuse_write :: "u64 \<Rightarrow> u64 \<Rightarrow> bytes \<Rightarrow> mount_state \<Rightarrow> (reply \<times> mount_state) option" where
  "fuse_write ino offset data = writable (\<lambda>st.
     let uino = ino_arg ino in
     do { st \<leftarrow> ensure_buffer uino st;
          b \<leftarrow> ms_buffers st uino;
          body \<leftarrow> splice_at (unat offset) data (fb_data b);
          Some (ReplyWritten (of_nat (length data)),
                st \<lparr> ms_buffers := (ms_buffers st)(uino \<mapsto> \<lparr> fb_data = body, fb_dirty = True \<rparr>) \<rparr>) })"

definition fuse_flush :: "request \<Rightarrow> u64 \<Rightarrow> mount_state \<Rightarrow> (reply \<times> mount_state) option" where
  "fuse_flush rq ino st = map_option reply_unit (commit rq (ino_arg ino) st)"

definition fuse_fsync :: "request \<Rightarrow> bool \<Rightarrow> u64 \<Rightarrow> mount_state \<Rightarrow> (reply \<times> mount_state) option" where
  "fuse_fsync rq msync_ok ino st =
     do { (r, st) \<leftarrow> commit rq (ino_arg ino) st;
          Some (case r of
             Inl e \<Rightarrow> (ReplyError (errno_from (werror_message e)), st)
           | Inr _ \<Rightarrow> (if msync_ok then ReplyOk else ReplyError EIO, st)) }"

definition drop_buffer :: "int \<Rightarrow> mount_state \<Rightarrow> mount_state" where
  "drop_buffer uino st =
     (if uino \<in> snd ` set (ms_handles st) then st else st \<lparr> ms_buffers := (ms_buffers st)(uino := None) \<rparr>)"

definition fuse_release :: "request \<Rightarrow> u64 \<Rightarrow> u64 \<Rightarrow> mount_state \<Rightarrow> (reply \<times> mount_state) option" where
  "fuse_release rq ino fh st =
     (let uino = ino_arg ino in
      do { (r, st) \<leftarrow> commit rq uino st;
           Some (case r of
              Inl e \<Rightarrow> (ReplyError (errno_from (werror_message e)), st)
            | Inr _ \<Rightarrow> (ReplyOk, drop_buffer uino (st \<lparr> ms_handles := handles_remove fh (ms_handles st) \<rparr>))) })"

text \<open>Unmounting recounts the summary totals of a writable image; errors are only logged.\<close>

definition fuse_destroy :: "mount_state \<Rightarrow> mount_state option" where
  "fuse_destroy st =
     (if ms_read_only st then Some st
      else map_option snd (on_image (recompute_summary_counts (ms_ufs st)) st))"

section \<open>The daemon as a state machine\<close>

datatype fuse_op =
    OpLookup u64 bytes | OpGetattr u64 | OpAccess u64 | OpGetxattr | OpListxattr u32
  | OpSetattr request u64 attr_args | OpReadlink u64
  | OpMkdir request u64 bytes u32 u32 | OpMknod request u64 bytes u32 u32 u32
  | OpUnlink u64 bytes | OpRmdir u64 bytes | OpSymlink request u64 bytes bytes
  | OpRename u64 bytes u64 bytes | OpLink u64 u64 bytes | OpCreate request u64 bytes u32 u32
  | OpOpen u64 | OpRead u64 u64 u32 | OpWrite u64 u64 bytes
  | OpFlush request u64 | OpFsync request bool u64 | OpRelease request u64 u64
  | OpReaddir "dir_reply list \<Rightarrow> dir_reply \<Rightarrow> bool" u64 u64 | OpStatfs

fun fuse_step :: "fuse_op \<Rightarrow> mount_state \<Rightarrow> (reply \<times> mount_state) option" where
  "fuse_step (OpLookup parent name) = fuse_lookup parent name"
| "fuse_step (OpGetattr ino) = fuse_getattr ino"
| "fuse_step (OpAccess ino) = fuse_access ino"
| "fuse_step OpGetxattr = fuse_getxattr"
| "fuse_step (OpListxattr sz) = fuse_listxattr sz"
| "fuse_step (OpSetattr rq ino args) = fuse_setattr rq ino args"
| "fuse_step (OpReadlink ino) = fuse_readlink ino"
| "fuse_step (OpMkdir rq parent name mode umask) = fuse_mkdir rq parent name mode umask"
| "fuse_step (OpMknod rq parent name mode umask rdev) = fuse_mknod rq parent name mode umask rdev"
| "fuse_step (OpUnlink parent name) = fuse_unlink parent name"
| "fuse_step (OpRmdir parent name) = fuse_rmdir parent name"
| "fuse_step (OpSymlink rq parent name target) = fuse_symlink rq parent name target"
| "fuse_step (OpRename parent name newparent newname) = fuse_rename parent name newparent newname"
| "fuse_step (OpLink ino newparent newname) = fuse_link ino newparent newname"
| "fuse_step (OpCreate rq parent name mode umask) = fuse_create rq parent name mode umask"
| "fuse_step (OpOpen ino) = fuse_open ino"
| "fuse_step (OpRead ino offset sz) = fuse_read ino offset sz"
| "fuse_step (OpWrite ino offset data) = fuse_write ino offset data"
| "fuse_step (OpFlush rq ino) = fuse_flush rq ino"
| "fuse_step (OpFsync rq msync_ok ino) = fuse_fsync rq msync_ok ino"
| "fuse_step (OpRelease rq ino fh) = fuse_release rq ino fh"
| "fuse_step (OpReaddir takes ino offset) = fuse_readdir takes ino offset"
| "fuse_step OpStatfs = fuse_statfs"

text \<open>The states a daemon goes through from its start.\<close>

inductive reachable :: "mount_state \<Rightarrow> mount_state \<Rightarrow> bool" for st0 where
  start: "reachable st0 st0"
| step: "reachable st0 st \<Longrightarrow> fuse_step op st = Some (r, st') \<Longrightarrow> reachable st0 st'"

section \<open>Finding the file system\<close>

datatype mount_error = InspectFailed io_error | SelectFailed select_error | SliceNotUfs rstr int

definition autodetect_ufs :: "rstr \<Rightarrow> image \<Rightarrow> ufs option option" where
  "autodetect_ufs image_path img =
     do { direct \<leftarrow> detect_ufs_at_start img 0;
          (case direct of
             Some u \<Rightarrow> Some (Some u)
           | None \<Rightarrow>
               do { r \<leftarrow> inspect_disk_image image_path ufs_detector img;
                    (case r of
                       Inl _ \<Rightarrow> Some None
                     | Inr report \<Rightarrow>
                         (case find (\<lambda>s. sf_filesystem s = Some (lit ''ufs'')) (dr_slice_filesystems report) of
                            None \<Rightarrow> Some None
                          | Some found_slice \<Rightarrow>
                              detect_ufs_at_start img
                                (uadd (umul (nat (max (sf_absolute_start_sector found_slice) 0)) SECTOR_SIZE) (sf_filesystem_offset found_slice)))) }) }"

definition resolve_slice_ufs :: "rstr \<Rightarrow> image \<Rightarrow> rstr \<Rightarrow> (mount_error + ufs) option" where
  "resolve_slice_ufs image_path img selector =
     do { r \<leftarrow> inspect_disk_image image_path ufs_detector img;
          (case r of
             Inl e \<Rightarrow> Some (Inl (InspectFailed e))
           | Inr report \<Rightarrow>
               (case get_vtoc_partition_by_selector report selector of
                  Inl e \<Rightarrow> Some (Inl (SelectFailed e))
                | Inr p \<Rightarrow>
                    let offset = umul (nat (max (vp_start_sector p) 0)) SECTOR_SIZE in
                    do { found \<leftarrow> detect_ufs_at_start img offset;
                         Some (case found of Some u \<Rightarrow> Inr u | None \<Rightarrow> Inl (SliceNotUfs selector (vp_start_sector p))) })) }"

datatype mount_target = AtOffset nat | AtSlice rstr | Autodetect

datatype mount_failure = NoSuperblockAt nat | SliceFailure mount_error | NoUfsFound

definition choose_ufs :: "rstr \<Rightarrow> image \<Rightarrow> mount_target \<Rightarrow> (mount_failure + ufs) option" where
  "choose_ufs image_path img target =
     (case target of
        AtOffset offset \<Rightarrow>
          map_option (\<lambda>found. case found of Some u \<Rightarrow> Inr u | None \<Rightarrow> Inl (NoSuperblockAt offset))
            (detect_ufs_at_start img offset)
      | AtSlice selector \<Rightarrow> map_option (map_sum SliceFailure id) (resolve_slice_ufs image_path img selector)
      | Autodetect \<Rightarrow>
          map_option (\<lambda>found. case found of Some u \<Rightarrow> Inr u | None \<Rightarrow> Inl NoUfsFound) (autodetect_ufs image_path img))"

definition mount_start :: "rstr \<Rightarrow> image \<Rightarrow> mount_target \<Rightarrow> bool \<Rightarrow> (mount_failure + mount_state) option" where
  "mount_start image_path img target read_only =
     map_option (map_sum id (\<lambda>u. mount_new img u read_only)) (choose_ufs image_path img target)"

end
