(* ===== verification/Layout.thy ===== *)
theory Layout
  imports Cylinder_Group
begin

text \<open>
  Where things are, under the layout condition: the byte range of a fragment, of a cylinder-group
  descriptor and of a run of data fragments; that descriptors, the superblock and data runs are pairwise
  disjoint; and the view of a group's descriptor in an image.
\<close>

section \<open>Fragment addresses\<close>

text \<open>The byte offset of a fragment number.\<close>

definition fboff :: "ufs \<Rightarrow> int \<Rightarrow> nat" where
  "fboff u x = start_offset u + nat x * nat (fsize (sb u))"

definition layout_ok :: "ufs \<Rightarrow> bool" where
  "layout_ok u \<longleftrightarrow> geometry_ok (sb u) \<and> start_ok u"

definition bs :: "ufs \<Rightarrow> nat" where
  "bs u = nat (bsize (sb u))"

lemma layout_facts:
  assumes "layout_ok u"
  shows "geometry_ok (sb u)" "int (start_offset u) < 2 ^ 62" "super_offset u = start_offset u + 8192"
    "usize (bsize (sb u)) = bs u" "4096 \<le> bs u" "bs u \<le> 8192" "int (bs u) = bsize (sb u)"
proof -
  show g: "geometry_ok (sb u)" and "int (start_offset u) < 2 ^ 62" "super_offset u = start_offset u + 8192"
    using assms by (auto simp: layout_ok_def start_ok_def)
  have b: "4096 \<le> bsize (sb u)" "bsize (sb u) \<le> 8192" using geometry_facts(1,2) [OF g] by auto
  then show "usize (bsize (sb u)) = bs u" "4096 \<le> bs u" "bs u \<le> 8192" "int (bs u) = bsize (sb u)"
    by (auto simp: bs_def usize_id nat_le_iff)
qed

lemma bs_frags: "layout_ok u \<Longrightarrow> bs u = nat (frag (sb u)) * nat (fsize (sb u))"
  using geometry_facts(9) [OF layout_facts(1), of u] geometry_frag [OF layout_facts(1), of u]
  by (simp add: bs_def nat_mult_distrib)

lemma fboff_int:
  assumes "layout_ok u" "0 \<le> x"
  shows "int (fboff u x) = int (start_offset u) + x * fsize (sb u)"
  using assms geometry_fsize [OF layout_facts(1) [OF assms(1)]] by (simp add: fboff_def)

lemma fboff_mono:
  assumes "layout_ok u" "0 \<le> x" "0 \<le> n" "x + n \<le> y"
  shows "fboff u x + nat n * nat (fsize (sb u)) \<le> fboff u y"
proof -
  have "nat x + nat n \<le> nat y" using assms by (simp add: nat_add_distrib [symmetric])
  then have "(nat x + nat n) * nat (fsize (sb u)) \<le> nat y * nat (fsize (sb u))" by (rule mult_le_mono1)
  then show ?thesis by (simp add: fboff_def algebra_simps)
qed

lemma data_block_offset_fboff:
  assumes "layout_ok u" "0 \<le> x" "x < 2 ^ 33"
  shows "data_block_offset (sb u) (start_offset u) x = int (fboff u x)"
    "usize (data_block_offset (sb u) (start_offset u) x) = fboff u x" "fboff u x < 2 ^ 63"
proof -
  note l = layout_facts [OF assms(1)]
  show e: "data_block_offset (sb u) (start_offset u) x = int (fboff u x)"
    using data_block_offset_eq [OF l(1,2) assms(2,3)] fboff_int [OF assms(1,2)] by simp
  have "int (fboff u x) < 2 ^ 63"
    unfolding fboff_int [OF assms(1,2)] using fsb_bound [OF l(1) assms(2,3)] l(2) by simp
  then show "fboff u x < 2 ^ 63" by simp
  then show "usize (data_block_offset (sb u) (start_offset u) x) = fboff u x" unfolding e by simp
qed

lemma cg_block_offset_fboff:
  assumes u: "layout_ok u" and c: "0 \<le> c" "c < ncg (sb u)"
  shows "cg_block_offset u c = fboff u (fpg (sb u) * c + cblkno (sb u))"
proof -
  note l = layout_facts [OF u]
  have b: "0 \<le> fpg (sb u) * c + cblkno (sb u)" "fpg (sb u) * c + cblkno (sb u) < 2 ^ 33"
    using cg_mult_bound [OF l(1) c] layout_order [OF l(1)] geometry_pos [OF l(1)] geometry_frag [OF l(1)] by simp_all
  show ?thesis
    using data_block_offset_fboff(2) [OF u b] cg_addresses(2) [OF l(1) c]
    by (simp add: cg_block_offset_def data_block_offset_def)
qed

section \<open>Metadata regions\<close>

definition cg_off :: "ufs \<Rightarrow> int \<Rightarrow> nat" where
  "cg_off u c = fboff u (fpg (sb u) * c + cblkno (sb u))"

text \<open>The groups, and the positions of data fragments inside a group.\<close>

definition valid_cg :: "ufs \<Rightarrow> int \<Rightarrow> bool" where
  "valid_cg u c \<longleftrightarrow> 0 \<le> c \<and> c < ncg (sb u)"

definition data_run :: "ufs \<Rightarrow> int \<Rightarrow> int \<Rightarrow> bool" where
  "data_run u x n \<longleftrightarrow> valid_cg u (x div fpg (sb u)) \<and> dblkno (sb u) \<le> x mod fpg (sb u)
     \<and> 0 \<le> n \<and> x mod fpg (sb u) + n \<le> fpg (sb u)"

text \<open>The address of a whole block: a data run of a block's length, aligned in its group.\<close>

definition block_addr :: "ufs \<Rightarrow> int \<Rightarrow> bool" where
  "block_addr u b \<longleftrightarrow> data_run u b (frag (sb u)) \<and> frag (sb u) dvd b mod fpg (sb u)"

definition meta_byte :: "ufs \<Rightarrow> nat \<Rightarrow> bool" where
  "meta_byte u k \<longleftrightarrow> (super_offset u \<le> k \<and> k < super_offset u + 8192)
     \<or> (\<exists>c. valid_cg u c \<and> cg_off u c \<le> k \<and> k < cg_off u c + bs u)"

lemma cg_block_offset_cg_off: "layout_ok u \<Longrightarrow> valid_cg u c \<Longrightarrow> cg_block_offset u c = cg_off u c"
  by (simp add: cg_off_def valid_cg_def cg_block_offset_fboff)

lemma group_step:
  assumes "0 < f" "c < (d::int)"
  shows "f * c + f \<le> f * d"
proof -
  have "f * (c + 1) \<le> f * d" using assms by (intro mult_left_mono) auto
  then show ?thesis by (simp add: algebra_simps)
qed

lemma cg_off_disjoint:
  assumes u: "layout_ok u" and c: "valid_cg u c" "valid_cg u d" "c < d"
  shows "cg_off u c + bs u \<le> cg_off u d"
proof -
  note g = layout_facts(1) [OF u]
  note gf = geometry_facts(17) [OF g] and lo = layout_order [OF g] and p = geometry_pos [OF g] and fr = geometry_frag [OF g]
  have n: "0 \<le> fpg (sb u) * c" using gf c by (simp add: valid_cg_def)
  have "fpg (sb u) * c + cblkno (sb u) + frag (sb u) \<le> fpg (sb u) * d + cblkno (sb u)"
    using group_step [OF gf c(3)] lo p fr by linarith
  then show ?thesis
    unfolding cg_off_def bs_frags [OF u] using n p fr by (intro fboff_mono [OF u]) linarith+
qed

lemma cg_off_above_super:
  assumes u: "layout_ok u" and c: "valid_cg u c"
  shows "super_offset u + 8192 \<le> cg_off u c"
proof -
  note g = layout_facts(1) [OF u]
  note gf = geometry_facts [OF g] and p = geometry_pos [OF g]
  have n: "0 \<le> fpg (sb u) * c" using gf(17) c by (simp add: valid_cg_def)
  have "fboff u 0 + nat (cblkno (sb u)) * nat (fsize (sb u)) \<le> cg_off u c"
    unfolding cg_off_def using n p by (intro fboff_mono [OF u]) auto
  moreover have "16384 \<le> nat (cblkno (sb u)) * nat (fsize (sb u))"
    using gf(19) p geometry_fsize [OF g] by (simp add: nat_mult_distrib [symmetric] le_nat_iff)
  ultimately show ?thesis using layout_facts(3) [OF u] by (simp add: fboff_def)
qed

lemma data_run_bounds:
  assumes u: "layout_ok u" and x: "data_run u x n"
  shows "0 \<le> x" "x + n < 2 ^ 32" "x = fpg (sb u) * (x div fpg (sb u)) + x mod fpg (sb u)"
proof -
  note g = layout_facts(1) [OF u]
  have c: "0 \<le> x div fpg (sb u)" "x div fpg (sb u) < ncg (sb u)" using x by (auto simp: data_run_def valid_cg_def)
  show e: "x = fpg (sb u) * (x div fpg (sb u)) + x mod fpg (sb u)" by simp
  note cm = cg_mult_bound [OF g c]
  have "0 \<le> x mod fpg (sb u)" "x mod fpg (sb u) + n \<le> fpg (sb u)"
    using x geometry_pos(6) [OF g] by (auto simp: data_run_def)
  then show "0 \<le> x" "x + n < 2 ^ 32" using e cm by linarith+
qed

lemma data_run_cg_disjoint:
  assumes u: "layout_ok u" and x: "data_run u x n" and c: "valid_cg u c"
  shows "cg_off u c + bs u \<le> fboff u x \<or> fboff u x + nat n * nat (fsize (sb u)) \<le> cg_off u c"
proof -
  note g = layout_facts(1) [OF u]
  note gf = geometry_facts(17) [OF g] and lo = layout_order [OF g] and p = geometry_pos [OF g] and fr = geometry_frag [OF g]
  note b = data_run_bounds [OF u x]
  let ?d = "x div fpg (sb u)" and ?j = "x mod fpg (sb u)"
  have n: "0 \<le> fpg (sb u) * c" using gf c by (simp add: valid_cg_def)
  have j: "dblkno (sb u) \<le> ?j" "?j + n \<le> fpg (sb u)" "0 \<le> n" using x by (auto simp: data_run_def)
  show ?thesis
  proof (cases "c \<le> ?d")
    case True
    then have "fpg (sb u) * c \<le> fpg (sb u) * ?d" using gf by simp
    then have "fpg (sb u) * c + cblkno (sb u) + frag (sb u) \<le> x"
      using lo j fr b(3) by linarith
    then show ?thesis
      unfolding cg_off_def bs_frags [OF u] using n p fr by (intro disjI1 fboff_mono [OF u]) linarith+
  next
    case False
    then have "x + n \<le> fpg (sb u) * c + cblkno (sb u)"
      using group_step [OF gf, of ?d c] j b(3) p by linarith
    then show ?thesis
      unfolding cg_off_def using b j by (intro disjI2 fboff_mono [OF u]) auto
  qed
qed

lemma data_run_not_meta:
  assumes u: "layout_ok u" and x: "data_run u x n"
    and k: "fboff u x \<le> k" "k < fboff u x + nat n * nat (fsize (sb u))"
  shows "\<not> meta_byte u k"
proof -
  note g = layout_facts(1) [OF u] and p = geometry_pos [OF layout_facts(1) [OF u]]
  have v: "valid_cg u 0" using geometry_facts(16) [OF g] by (simp add: valid_cg_def)
  have "\<not> (cg_off u c \<le> k \<and> k < cg_off u c + bs u)" if "valid_cg u c" for c
    using data_run_cg_disjoint [OF u x that] k by linarith
  moreover have "super_offset u + 8192 \<le> fboff u x"
  proof -
    have "x div fpg (sb u) \<ge> 0" using x by (simp add: data_run_def valid_cg_def)
    then have "0 \<le> fpg (sb u) * (x div fpg (sb u))" using geometry_facts(17) [OF g] by simp
    then have "cblkno (sb u) \<le> x"
      using data_run_bounds(3) [OF u x] x layout_order [OF g] geometry_frag [OF g]
      unfolding data_run_def by linarith
    then have "fboff u (cblkno (sb u)) \<le> fboff u x"
      using fboff_mono [OF u, of "cblkno (sb u)" 0 x] p by simp
    then show ?thesis using cg_off_above_super [OF u v] by (simp add: cg_off_def)
  qed
  ultimately show ?thesis using k by (auto simp: meta_byte_def)
qed

section \<open>Descriptors in an image\<close>

definition cg_view :: "ufs \<Rightarrow> image \<Rightarrow> int \<Rightarrow> bytes" where
  "cg_view u img c = take (bs u) (drop (cg_off u c) img)"

definition cg_fits :: "ufs \<Rightarrow> image \<Rightarrow> bool" where
  "cg_fits u img \<longleftrightarrow> (\<forall>c. valid_cg u c \<longrightarrow> cg_off u c + bs u \<le> length img)"

lemma cg_fitsD: "cg_fits u img \<Longrightarrow> valid_cg u c \<Longrightarrow> cg_off u c + bs u \<le> length img"
  by (simp add: cg_fits_def)

lemma cg_fits_length: "length img' = length img \<Longrightarrow> cg_fits u img' = cg_fits u img"
  by (simp add: cg_fits_def)

lemma cg_view_length: "cg_fits u img \<Longrightarrow> valid_cg u c \<Longrightarrow> length (cg_view u img c) = bs u"
  using cg_fitsD [of u img c] by (simp add: cg_view_def)

lemma read_cg_block_view:
  assumes "layout_ok u" "valid_cg u c" "cg_fits u img"
  shows "read_cg_block img u c = Some (cg_view u img c)"
  using assms cg_fitsD [OF assms(3,2)]
  by (simp add: read_cg_block_def Let_def cg_block_offset_cg_off layout_facts(4) subslice_def cg_view_def)

text \<open>Two images that agree on the bytes of a descriptor have the same view of it.\<close>

lemma cg_view_cong:
  assumes "length img' = length img" "\<And>k. cg_off u c \<le> k \<Longrightarrow> k < cg_off u c + bs u \<Longrightarrow> img' ! k = img ! k"
  shows "cg_view u img' c = cg_view u img c"
  unfolding cg_view_def using assms by (intro nth_equalityI) auto

definition same_except :: "(nat \<Rightarrow> bool) \<Rightarrow> image \<Rightarrow> image \<Rightarrow> bool" where
  "same_except R img img' \<longleftrightarrow> length img' = length img \<and> (\<forall>k. \<not> R k \<longrightarrow> img' ! k = img ! k)"

lemma same_except_refl [simp]: "same_except R img img"
  by (simp add: same_except_def)

lemma same_except_trans [trans]: "same_except R a b \<Longrightarrow> same_except R b c \<Longrightarrow> same_except R a c"
  by (simp add: same_except_def)

lemma same_except_mono: "same_except R a b \<Longrightarrow> (\<And>k. R k \<Longrightarrow> S k) \<Longrightarrow> same_except S a b"
  by (auto simp: same_except_def)

lemma same_except_length: "same_except R a b \<Longrightarrow> length b = length a"
  by (simp add: same_except_def)

lemma same_except_nth: "same_except R a b \<Longrightarrow> \<not> R k \<Longrightarrow> b ! k = a ! k"
  by (simp add: same_except_def)

lemma same_except_subslice:
  assumes "same_except R a b" "\<And>k. i \<le> k \<Longrightarrow> k < j \<Longrightarrow> \<not> R k"
  shows "subslice b i j = subslice a i j"
  using assms by (intro subslice_eqI) (auto simp: same_except_def)

lemma cg_view_same_except:
  assumes "same_except R img img'" "\<And>k. cg_off u c \<le> k \<Longrightarrow> k < cg_off u c + bs u \<Longrightarrow> \<not> R k"
  shows "cg_view u img' c = cg_view u img c"
  using assms by (intro cg_view_cong) (auto simp: same_except_def)

definition cg_byte :: "ufs \<Rightarrow> int \<Rightarrow> nat \<Rightarrow> bool" where
  "cg_byte u c k \<longleftrightarrow> cg_off u c \<le> k \<and> k < cg_off u c + bs u"

lemma cg_byte_meta: "valid_cg u c \<Longrightarrow> cg_byte u c k \<Longrightarrow> meta_byte u k"
  by (auto simp: cg_byte_def meta_byte_def)

lemma cg_byte_unique:
  assumes "layout_ok u" "valid_cg u c" "valid_cg u d" "cg_byte u c k" "cg_byte u d k"
  shows "c = d"
  using assms cg_off_disjoint [of u c d] cg_off_disjoint [of u d c]
  by (cases c d rule: linorder_cases) (auto simp: cg_byte_def)

lemma write_cg_block_view:
  assumes u: "layout_ok u" and c: "valid_cg u c" and l: "length cg = bs u"
    and w: "write_cg_block img u c cg = Some img'"
  shows "cg_view u img' c = cg" "same_except (cg_byte u c) img img'"
    "\<And>d. valid_cg u d \<Longrightarrow> d \<noteq> c \<Longrightarrow> cg_view u img' d = cg_view u img d"
proof -
  have w': "copy_at img (cg_off u c) cg = Some img'"
    using w by (simp add: write_cg_block_def cg_block_offset_cg_off [OF u c])
  show "cg_view u img' c = cg"
    using subslice_copy_same [OF w'] l by (auto simp: subslice_def cg_view_def split: if_splits)
  show s: "same_except (cg_byte u c) img img'"
    using w' l by (auto simp: same_except_def copy_at_length copy_at_nth cg_byte_def)
  fix d assume d: "valid_cg u d" "d \<noteq> c"
  show "cg_view u img' d = cg_view u img d"
    using cg_byte_unique [OF u c d(1)] d(2) by (intro cg_view_same_except [OF s]) (auto simp: cg_byte_def)
qed

lemma write_cg_block_total:
  "layout_ok u \<Longrightarrow> valid_cg u c \<Longrightarrow> cg_fits u img \<Longrightarrow> length cg = bs u \<Longrightarrow>
    \<exists>img'. write_cg_block img u c cg = Some img'"
  using cg_fitsD [of u img c] by (simp add: write_cg_block_def cg_block_offset_cg_off copy_at_total)

lemma adjust_u32_same_except:
  assumes "adjust_u32_at img off d = Some img'"
  shows "same_except (\<lambda>k. off \<le> k \<and> k < off + 4) img img'"
  using assms
  by (auto simp: adjust_u32_at_def bind_eq_Some_conv same_except_def c32.write_length intro: c32.write_nth)

definition super_byte :: "ufs \<Rightarrow> nat \<Rightarrow> bool" where
  "super_byte u k \<longleftrightarrow> super_offset u \<le> k \<and> k < super_offset u + 8192"

lemma super_byte_meta: "super_byte u k \<Longrightarrow> meta_byte u k"
  by (auto simp: super_byte_def meta_byte_def)

lemma cg_view_super:
  "layout_ok u \<Longrightarrow> valid_cg u c \<Longrightarrow> same_except (super_byte u) img img' \<Longrightarrow> cg_view u img' c = cg_view u img c"
  using cg_off_above_super [of u c] by (intro cg_view_same_except [of "super_byte u"]) (auto simp: super_byte_def)

lemma adjust_superblock_same:
  "adjust_superblock_free_blocks img u d = Some img' \<Longrightarrow> same_except (super_byte u) img img'"
  "adjust_superblock_free_inodes img u d = Some img' \<Longrightarrow> same_except (super_byte u) img img'"
  "adjust_superblock_directory_count img u d = Some img' \<Longrightarrow> same_except (super_byte u) img img'"
  unfolding adjust_superblock_free_blocks_def adjust_superblock_free_inodes_def adjust_superblock_directory_count_def
  by (drule adjust_u32_same_except, erule same_except_mono, simp add: super_byte_def)+

section \<open>Descriptor fields\<close>

lemma u32_cong:
  "length b = length a \<Longrightarrow> (\<And>k. off \<le> k \<Longrightarrow> k < off + 4 \<Longrightarrow> b ! k = a ! k) \<Longrightarrow> u32 b off = u32 a off"
  unfolding u32_subslice by (rule arg_cong [OF subslice_eqI]) auto

lemma is_frag_free_cong:
  "0 \<le> i \<Longrightarrow> i < 2 ^ 40 \<Longrightarrow> length b = length a \<Longrightarrow> (\<And>k. 984 \<le> k \<Longrightarrow> b ! k = a ! k) \<Longrightarrow> is_frag_free b i = is_frag_free a i"
  by (simp add: is_frag_free_eq)

lemma is_inode_used_cong:
  "0 \<le> i \<Longrightarrow> i < 2048 \<Longrightarrow> length b = length a \<Longrightarrow> (\<And>k. 724 \<le> k \<Longrightarrow> k < 980 \<Longrightarrow> b ! k = a ! k) \<Longrightarrow>
     is_inode_used b i = is_inode_used a i"
  by (simp add: is_inode_used_eq)

text \<open>A fragment index of a group has its bit inside the descriptor, an inode index too.\<close>

lemma frag_bit_inside:
  assumes u: "layout_ok u" and l: "length cg = bs u" and i: "0 \<le> i" "i < fpg (sb u)"
  shows "bit_inside 984 (length cg) i"
proof -
  note g = layout_facts(1) [OF u]
  have "i < 8 * (bsize (sb u) - 984)" using geometry_facts(23) [OF g] i by linarith
  then have "nat i < 8 * (bs u - 984)" using i layout_facts(7) [OF u] by (simp add: nat_less_iff)
  then have "nat i div 8 < bs u - 984" by (simp add: less_mult_imp_div_less mult.commute)
  moreover have "i < 2 ^ 40" using i geometry_pos(7) [OF g] by simp
  ultimately show ?thesis using i l by (auto simp: bit_inside_def)
qed

lemma inode_bit_inside:
  assumes u: "layout_ok u" and l: "length cg = bs u" and i: "0 \<le> i" "i < ipg (sb u)"
  shows "bit_inside 724 (length cg) i" "724 + nat i div 8 < 980"
proof -
  have "i < 2048" using i geometry_facts(13) [OF layout_facts(1) [OF u]] by linarith
  then have "nat i div 8 < 256" using i by (simp add: nat_less_iff)
  then show "bit_inside 724 (length cg) i" "724 + nat i div 8 < 980"
    using i l layout_facts(5) [OF u] \<open>i < 2048\<close> by (auto simp: bit_inside_def)
qed

lemma all_frags_freeD:
  assumes "all_frags_free cg base n = Some True" "0 \<le> off" "off < n" "0 \<le> base" "base + off < 2 ^ 63"
  shows "is_frag_free cg (base + off) = Some True"
  using mall_TrueD [OF assms(1) [unfolded all_frags_free_def], of off] assms by (simp add: in_i64_def)

lemma set_frags_upds:
  assumes "0 \<le> base" "base + n < 2 ^ 63"
  shows "set_frags cg base n v = fmap.upds cg (map (\<lambda>off. base + off) [0..n - 1]) v"
proof -
  have *: "foldM (\<lambda>c off. set_frag_state c (i64 (base + off)) v) c xs
      = fmap.upds c (map (\<lambda>off. base + off) xs) v" if "\<And>x. x \<in> set xs \<Longrightarrow> 0 \<le> x \<and> x < n" for xs c
    using that
  proof (induction xs arbitrary: c)
    case (Cons x xs)
    have "i64 (base + x) = base + x" using Cons.prems [of x] assms by (intro i64_id) (auto simp: in_i64_def)
    then show ?case using Cons by simp
  qed simp
  show ?thesis unfolding set_frags_def by (rule *) auto
qed

lemma set_frags_spec:
  assumes u: "layout_ok u" and l: "length cg = bs u" and b: "0 \<le> base" "base + n \<le> fpg (sb u)" "0 \<le> n"
    and s: "set_frags cg base n v = Some cg'"
  shows "length cg' = length cg" "\<And>k. k < 984 \<Longrightarrow> cg' ! k = cg ! k"
    "\<And>j. 0 \<le> j \<Longrightarrow> j < fpg (sb u) \<Longrightarrow>
       is_frag_free cg' j = (if base \<le> j \<and> j < base + n then Some v else is_frag_free cg j)"
proof -
  have "fpg (sb u) < 2 ^ 63" using geometry_pos(7) [OF layout_facts(1) [OF u]] by simp
  then have s': "fmap.upds cg (map (\<lambda>off. base + off) [0..n - 1]) v = Some cg'"
    using s b set_frags_upds [of base n cg v] by simp
  have ins: "\<And>i. i \<in> set (map (\<lambda>off. base + off) [0..n - 1]) \<Longrightarrow> bit_inside 984 (length cg) i"
    using b by (auto intro!: frag_bit_inside [OF u l])
  show "length cg' = length cg" using s' by (rule fmap.upds_length)
  show "cg' ! k = cg ! k" if "k < 984" for k
    using ins that by (intro fmap.upds_frame [OF s', of "length cg"]) (auto simp: bit_inside_def)
  fix j assume j: "0 \<le> j" "j < fpg (sb u)"
  have "j \<in> set (map (\<lambda>off. base + off) [0..n - 1]) \<longleftrightarrow> base \<le> j \<and> j < base + n"
    by (auto intro!: image_eqI [of _ _ "j - base"])
  then show "is_frag_free cg' j = (if base \<le> j \<and> j < base + n then Some v else is_frag_free cg j)"
    using fmap.tst_upds [OF s' ins frag_bit_inside [OF u l j]] by simp
qed

lemma adjust_cg_spec:
  assumes "adjust_u32_at cg off d = Some cg'" "24 \<le> off" "off < 48"
  shows "length cg' = length cg" "u32 cg' 980 = u32 cg 980" "u32 cg' 20 = u32 cg 20" "u32 cg' 48 = u32 cg 48 \<or> off > 44"
    "0 \<le> i \<Longrightarrow> i < 2 ^ 40 \<Longrightarrow> is_frag_free cg' i = is_frag_free cg i"
    "0 \<le> i \<Longrightarrow> i < 2048 \<Longrightarrow> is_inode_used cg' i = is_inode_used cg i"
proof -
  note s = adjust_u32_same_except [OF assms(1)]
  show "length cg' = length cg" using s by (rule same_except_length)
  note n = same_except_nth [OF s]
  show "u32 cg' 980 = u32 cg 980" "u32 cg' 20 = u32 cg 20" "u32 cg' 48 = u32 cg 48 \<or> off > 44"
    using assms(2,3) by (auto intro!: u32_cong same_except_length [OF s] n)
  show "0 \<le> i \<Longrightarrow> i < 2 ^ 40 \<Longrightarrow> is_frag_free cg' i = is_frag_free cg i"
    using assms(2,3) by (intro is_frag_free_cong same_except_length [OF s] n) auto
  show "0 \<le> i \<Longrightarrow> i < 2048 \<Longrightarrow> is_inode_used cg' i = is_inode_used cg i"
    using assms(2,3) by (intro is_inode_used_cong same_except_length [OF s] n) auto
qed

end
