(* ===== verification/Alloc_Correct.thy ===== *)
theory Alloc_Correct
  imports Alloc Layout
begin

text \<open>
  Correctness of the allocator: the invariant of the descriptors, what an allocation and a release do to
  the set of busy fragments and inodes, and which bytes of the image they may change.
\<close>

section \<open>The invariant of the descriptors\<close>

text \<open>
  A group is live once its descriptor carries the magic number; a live group says how many fragments it
  has, never more than fit. A group that is not live is initialised at its first use.
\<close>

definition live :: "bytes \<Rightarrow> bool" where
  "live cg \<longleftrightarrow> u32 cg 980 = Some UFS_CG_MAGIC"

definition cg_ok :: "ufs \<Rightarrow> bytes \<Rightarrow> bool" where
  "cg_ok u cg \<longleftrightarrow> (live cg \<longrightarrow> (\<exists>nd. u32 cg 20 = Some nd \<and> uint nd \<le> fpg (sb u)))"

text \<open>The fragments a group has, or will have once initialised; they lie inside the image.\<close>

definition group_frags :: "ufs \<Rightarrow> int \<Rightarrow> bytes \<Rightarrow> int" where
  "group_frags u c cg =
     (if live cg then (case u32 cg 20 of Some nd \<Rightarrow> uint nd | None \<Rightarrow> 0) else cg_data_frag_count u c)"

definition cg_room :: "ufs \<Rightarrow> int \<Rightarrow> bytes \<Rightarrow> image \<Rightarrow> bool" where
  "cg_room u c cg img \<longleftrightarrow> fboff u (fpg (sb u) * c + group_frags u c cg) \<le> length img"

definition cgs_ok :: "ufs \<Rightarrow> image \<Rightarrow> bool" where
  "cgs_ok u img \<longleftrightarrow> cg_fits u img
     \<and> (\<forall>c. valid_cg u c \<longrightarrow> cg_ok u (cg_view u img c) \<and> cg_room u c (cg_view u img c) img)"

text \<open>A fragment is busy when its group is live and its free bit is clear.\<close>

definition busy :: "ufs \<Rightarrow> image \<Rightarrow> int \<Rightarrow> bool" where
  "busy u img x \<longleftrightarrow> live (cg_view u img (x div fpg (sb u)))
     \<and> is_frag_free (cg_view u img (x div fpg (sb u))) (x mod fpg (sb u)) = Some False"

lemma cgs_okD: "cgs_ok u img \<Longrightarrow> cg_fits u img" "cgs_ok u img \<Longrightarrow> valid_cg u c \<Longrightarrow> cg_ok u (cg_view u img c)"
  "cgs_ok u img \<Longrightarrow> valid_cg u c \<Longrightarrow> cg_room u c (cg_view u img c) img"
  by (simp_all add: cgs_ok_def)

text \<open>One descriptor is replaced by another that is well formed and has the same number of fragments.\<close>

lemma cgs_ok_replace:
  assumes "cgs_ok u img" "length img' = length img" "cg_ok u cg" "group_frags u c cg = group_frags u c (cg_view u img c)"
    "\<And>d. valid_cg u d \<Longrightarrow> cg_view u img' d = (if d = c then cg else cg_view u img d)"
  shows "cgs_ok u img'"
  using assms by (auto simp: cgs_ok_def cg_fits_def cg_room_def)

lemma cg_views_cong:
  assumes "length img' = length img" "\<And>c. valid_cg u c \<Longrightarrow> cg_view u img' c = cg_view u img c"
  shows "cgs_ok u img' = cgs_ok u img"
    "valid_cg u (x div fpg (sb u)) \<Longrightarrow> busy u img' x = busy u img x"
  using assms by (simp_all add: cgs_ok_def cg_fits_def cg_room_def busy_def)

text \<open>A change outside the metadata keeps both.\<close>

lemma not_meta_cg_view:
  assumes "same_except R img img'" "\<And>k. R k \<Longrightarrow> \<not> meta_byte u k" "valid_cg u c"
  shows "cg_view u img' c = cg_view u img c"
  using assms by (intro cg_view_same_except) (auto simp: meta_byte_def)

lemma not_meta_keeps:
  assumes "same_except R img img'" "\<And>k. R k \<Longrightarrow> \<not> meta_byte u k"
  shows "cgs_ok u img' = cgs_ok u img"
    "valid_cg u (x div fpg (sb u)) \<Longrightarrow> busy u img' x = busy u img x"
  using cg_views_cong [OF same_except_length [OF assms(1)] not_meta_cg_view [OF assms]] by auto

section \<open>First-touch initialisation\<close>

lemma cg_data_frag_count_bounds:
  "0 < fpg (sb u) \<Longrightarrow> 0 \<le> cg_data_frag_count u c \<and> cg_data_frag_count u c \<le> fpg (sb u)"
  by (simp add: cg_data_frag_count_def Let_def)


lemma pristine_header_ok:
  assumes "pristine_header u c = Some h"
  shows "length h = usize (bsize (sb u))" "u32 h 980 = Some UFS_CG_MAGIC"
    "u32 h 20 = Some (of_int (cg_data_frag_count u c))"
    "k < length h \<Longrightarrow> 52 \<le> k \<Longrightarrow> k < 980 \<or> 984 \<le> k \<Longrightarrow> h ! k = 0"
    "u32 h 32 = Some (of_int (i64 (ipg (sb u) - (if c = 0 then 2 else 0))))"
  using assms
  by (auto simp: pristine_header_def Let_def bind_eq_Some_conv codec_length codec_same codec_disjoint codec_nth
      split: if_splits)

lemma pristine_cg_bytes_ok:
  assumes u: "layout_ok u" and c: "valid_cg u c" and p: "pristine_cg_bytes u c = Some cg"
  shows "length cg = bs u" "live cg" "cg_ok u cg" "group_frags u c cg = cg_data_frag_count u c"
    "\<And>i. 0 \<le> i \<Longrightarrow> i < fpg (sb u) \<Longrightarrow> is_frag_free cg i = Some (dblkno (sb u) \<le> i \<and> i < cg_data_frag_count u c)"
    "\<And>i. 0 \<le> i \<Longrightarrow> i < ipg (sb u) \<Longrightarrow> is_inode_used cg i = Some (c = 0 \<and> i < 2)"
    "u32 cg 32 = Some (of_int (i64 (ipg (sb u) - (if c = 0 then 2 else 0))))"
proof -
  note g = layout_facts(1) [OF u] and l = layout_facts [OF u]
  have fp: "0 < fpg (sb u)" "fpg (sb u) < 2 ^ 32" using geometry_facts(17) [OF g] geometry_pos(7) [OF g] by auto
  note nd = cg_data_frag_count_bounds [OF fp(1), of c]
  have ds: "cgdmin (sb u) c smod fpg (sb u) = dblkno (sb u)"
    using c cg_addresses(3) [OF g] cg_mult_bound [OF g] geometry_pos [OF g] fp layout_order [OF g]
    by (simp add: valid_cg_def smod_nonneg)
  obtain h c1 where h: "pristine_header u c = Some h"
    and c1: "(if c = 0 then do { x \<leftarrow> set_inode_state h 0 True; set_inode_state x 1 True } else Some h) = Some c1"
    and f: "fmap.upds c1 [dblkno (sb u)..cg_data_frag_count u c - 1] True = Some cg"
    using p ds by (auto simp: pristine_cg_bytes_def bind_eq_Some_conv)
  note hk = pristine_header_ok [OF h, unfolded l(4)]
  have c1': "imap.upds h (if c = 0 then [0, 1] else []) True = Some c1" using c1 by (auto split: if_splits)
  have lc: "length c1 = bs u" using imap.upds_length [OF c1'] hk by simp
  then show lcg: "length cg = bs u" using fmap.upds_length [OF f] by simp
  have ins: "\<And>i. i \<in> set [dblkno (sb u)..cg_data_frag_count u c - 1] \<Longrightarrow> bit_inside 984 (length c1) i"
    using nd geometry_pos(6) [OF g] by (auto intro!: frag_bit_inside [OF u lc])
  have ins1: "\<And>i. i \<in> set (if c = 0 then [0, 1] else []) \<Longrightarrow> bit_inside 724 (length h) i \<and> 724 + nat i div 8 < 725"
    using hk(1) layout_facts(5) [OF u] by (auto simp: bit_inside_def split: if_splits)
  have k1: "\<And>k. k < 724 \<or> 725 \<le> k \<Longrightarrow> c1 ! k = h ! k" using ins1 by (intro imap.upds_frame [OF c1', of 725]) auto
  have k2: "\<And>k. k < 984 \<Longrightarrow> cg ! k = c1 ! k" using ins by (intro fmap.upds_frame [OF f, of "length c1"]) (auto simp: bit_inside_def)
  have e: "u32 cg off = u32 h off" if "off + 4 \<le> 724 \<or> 725 \<le> off \<and> off + 4 \<le> 984" for off
    using that k1 k2 hk(1) lcg by (intro u32_cong) auto
  show lv: "live cg" using e hk by (simp add: live_def)
  show "u32 cg 32 = Some (of_int (i64 (ipg (sb u) - (if c = 0 then 2 else 0))))" using e [of 32] hk(5) by simp
  show "cg_ok u cg" "group_frags u c cg = cg_data_frag_count u c"
    using e hk nd fp lv by (simp_all add: cg_ok_def group_frags_def unsigned_of_int take_bit_int_eq_self)
  fix i
  { assume i: "0 \<le> i" "i < fpg (sb u)"
    note bi = frag_bit_inside [OF u lc i] frag_bit_inside [OF u hk(1) i]
    have "is_frag_free c1 i = is_frag_free h i"
      using bi k1 hk(1) lc by (intro is_frag_free_cong) (auto simp: bit_inside_def)
    also have "\<dots> = Some False"
      using bi hk(1,4) by (auto simp: is_frag_free_eq bit_inside_def)
    finally show "is_frag_free cg i = Some (dblkno (sb u) \<le> i \<and> i < cg_data_frag_count u c)"
      using fmap.tst_upds [OF f ins bi(1)] by auto }
  assume i: "0 \<le> i" "i < ipg (sb u)"
  note bi = inode_bit_inside [OF u hk(1) i]
  have "i < 2048" using i geometry_facts(13) [OF g] by linarith
  then have "is_inode_used cg i = is_inode_used c1 i"
    using k2 lcg lc i by (intro is_inode_used_cong) auto
  also have "\<dots> = (if i \<in> set (if c = 0 then [0, 1] else []) then Some True else is_inode_used h i)"
    using ins1 by (intro imap.tst_upds [OF c1' _ bi(1)]) auto
  also have "is_inode_used h i = Some False"
    using bi hk(1,4) by (auto simp: is_inode_used_eq bit_inside_def)
  finally show "is_inode_used cg i = Some (c = 0 \<and> i < 2)" using i by auto
qed

section \<open>Fragment allocation\<close>

lemma read_allocatable_spec:
  assumes u: "layout_ok u" and c: "valid_cg u c" and ok: "cgs_ok u img"
    and r: "read_allocatable_cg_block u c img = Some (r, img1)"
  shows "r = Inr (cg_view u img1 c)" "cgs_ok u img1" "same_except (cg_byte u c) img img1"
    "live (cg_view u img c) \<Longrightarrow> img1 = img"
    "\<And>d. valid_cg u d \<Longrightarrow> d \<noteq> c \<Longrightarrow> cg_view u img1 d = cg_view u img d"
proof -
  note rd = read_cg_block_view [OF u c cgs_okD(1) [OF ok]] and l = cg_view_length [OF cgs_okD(1) [OF ok] c]
  have "(r = Inr (cg_view u img1 c) \<and> img1 = img) \<or>
    (\<exists>cg. \<not> live (cg_view u img c) \<and> pristine_cg_bytes u c = Some cg \<and> r = Inr cg \<and> write_cg_block img u c cg = Some img1)"
    using r rd
    by (auto simp: read_allocatable_cg_block_def initialize_pristine_cg_def wbind_def wread_def wopt_def wmodify_def
        wreturn_def live_def split: option.splits sum.splits if_splits)
  then show "r = Inr (cg_view u img1 c)" "cgs_ok u img1" "same_except (cg_byte u c) img img1"
    "live (cg_view u img c) \<Longrightarrow> img1 = img"
    "\<And>d. valid_cg u d \<Longrightarrow> d \<noteq> c \<Longrightarrow> cg_view u img1 d = cg_view u img d"
  proof (atomize (full), elim disjE exE conjE, goal_cases)
    case 1 then show ?case using ok by auto
  next
    case (2 cg)
    note p = pristine_cg_bytes_ok [OF u c 2(2)]
    note w = write_cg_block_view [OF u c p(1) 2(4)]
    have "cgs_ok u img1"
      using 2(1) p(4) w by (intro cgs_ok_replace [OF ok same_except_length [OF w(2)] p(3), of c]) (auto simp: group_frags_def)
    then show ?case using 2 w by auto
  qed
qed

text \<open>What marking a run of free fragments does to a live descriptor.\<close>

lemma marked_cg:
  assumes u: "layout_ok u" and l: "length cg = bs u" and ok: "cg_ok u cg" "live cg"
    and b: "0 \<le> base" "base + n \<le> fpg (sb u)" "0 \<le> n"
    and s: "set_frags cg base n v = Some cg1" and a: "adjust_cg_free_blocks cg1 d = Some cg2"
  shows "length cg2 = bs u" "live cg2" "cg_ok u cg2" "group_frags u c cg2 = group_frags u c cg"
    "\<And>j. 0 \<le> j \<Longrightarrow> j < fpg (sb u) \<Longrightarrow>
       is_frag_free cg2 j = (if base \<le> j \<and> j < base + n then Some v else is_frag_free cg j)"
proof -
  note sf = set_frags_spec [OF u l b s]
  note ad = adjust_cg_spec [OF a [unfolded adjust_cg_free_blocks_def]]
  have e: "u32 cg1 980 = u32 cg 980" "u32 cg1 20 = u32 cg 20" using sf by (auto intro!: u32_cong)
  show "length cg2 = bs u" using ad(1) sf(1) l by simp
  show lv: "live cg2" using ok(2) ad(2) e by (simp add: live_def)
  show "cg_ok u cg2" "group_frags u c cg2 = group_frags u c cg"
    using ok ad(3) e lv by (simp_all add: cg_ok_def group_frags_def)
  fix j assume j: "0 \<le> j" "j < fpg (sb u)"
  then have "j < 2 ^ 40" using geometry_pos(7) [OF layout_facts(1) [OF u]] by simp
  then show "is_frag_free cg2 j = (if base \<le> j \<and> j < base + n then Some v else is_frag_free cg j)"
    using ad(5) [of j] sf(3) [OF j] j by simp
qed

lemma find_free_block_found:
  assumes "find_free_block cg f limit i = Some (Some j)" "0 \<le> f"
  shows "i \<le> j \<and> j < limit \<and> f dvd j - i \<and> all_frags_free cg j f = Some True"
  using assms
proof (induction cg f limit i rule: find_free_block.induct)
  case (1 cg f limit i)
  have step: "f dvd j - (i + f) \<Longrightarrow> f dvd j - i"
    using dvd_add [of f "j - (i + f)" f] by simp
  show ?case using 1 step
    by (subst (asm) (2) find_free_block.simps) (fastforce simp: bind_eq_Some_conv split: if_splits)
qed

text \<open>The addresses of a run found in group \<open>c\<close>.\<close>

lemma run_address:
  assumes u: "layout_ok u" and c: "valid_cg u c" and j: "dblkno (sb u) \<le> j" "j + n \<le> fpg (sb u)" "0 < n"
  shows "i64 (cgbase (sb u) c + j) = fpg (sb u) * c + j" "(fpg (sb u) * c + j) div fpg (sb u) = c"
    "(fpg (sb u) * c + j) mod fpg (sb u) = j" "data_run u (fpg (sb u) * c + j) n"
proof -
  note g = layout_facts(1) [OF u]
  have j0: "0 \<le> j" "j < fpg (sb u)" using j geometry_pos(6) [OF g] by linarith+
  have c': "0 \<le> c" "c < ncg (sb u)" using c by (auto simp: valid_cg_def)
  note cm = cg_mult_bound [OF g c']
  show "i64 (cgbase (sb u) c + j) = fpg (sb u) * c + j"
    using cm j0 by (simp add: cgbase_eq [OF g c'] in_i64_def)
  show d: "(fpg (sb u) * c + j) div fpg (sb u) = c" and m: "(fpg (sb u) * c + j) mod fpg (sb u) = j"
    using j0 by (simp_all add: div_mult_self4 div_pos_pos_trivial)
  show "data_run u (fpg (sb u) * c + j) n" unfolding data_run_def d m using c j by simp
qed

definition alloc_spec :: "ufs \<Rightarrow> int \<Rightarrow> nat \<Rightarrow> image \<Rightarrow> int \<Rightarrow> image \<Rightarrow> bool" where
  "alloc_spec u n nbytes img b img' \<longleftrightarrow>
     block_addr u b
   \<and> (\<forall>x. b \<le> x \<and> x < b + n \<longrightarrow> \<not> busy u img x \<and> busy u img' x)
   \<and> (\<forall>x. valid_cg u (x div fpg (sb u)) \<longrightarrow> busy u img x \<longrightarrow> busy u img' x)
   \<and> cgs_ok u img'
   \<and> same_except (\<lambda>k. meta_byte u k \<or> (fboff u b \<le> k \<and> k < fboff u b + nbytes)) img img'
   \<and> subslice img' (fboff u b) (fboff u b + nbytes) = Some (replicate nbytes 0)"

lemma wfirst_Inr:
  assumes "wfirst xs f e s = Some (Inr y, s')"
    and "\<And>x s s'. x \<in> set xs \<Longrightarrow> P s \<Longrightarrow> f x s = Some (Inr None, s') \<Longrightarrow> P s'" "P s"
  shows "\<exists>x s1. x \<in> set xs \<and> P s1 \<and> f x s1 = Some (Inr (Some y), s')"
  using assms
proof (induction xs arbitrary: s)
  case (Cons x xs)
  then obtain r s1 where r: "f x s = Some (Inr r, s1)"
    "(case r of None \<Rightarrow> wfirst xs f e | Some y \<Rightarrow> wreturn y) s1 = Some (Inr y, s')"
    by (auto simp: wm_simps)
  show ?case
  proof (cases r)
    case None
    then have "P s1" using Cons.prems r by auto
    then have "\<exists>x s1. x \<in> set xs \<and> P s1 \<and> f x s1 = Some (Inr (Some y), s')"
      using r None Cons.prems(2) by (intro Cons.IH) auto
    then show ?thesis by auto
  next
    case (Some z)
    then show ?thesis using r Cons.prems by (auto simp: wm_simps)
  qed
qed (simp add: wm_simps)

lemma wfirst_Inl:
  assumes "wfirst xs f e s = Some (Inl e', s')"
    and "\<And>x s s'. x \<in> set xs \<Longrightarrow> P s \<Longrightarrow> f x s = Some (Inr None, s') \<Longrightarrow> P s'" "P s"
    and "\<And>x s s' e'. x \<in> set xs \<Longrightarrow> P s \<Longrightarrow> f x s \<noteq> Some (Inl e', s')"
  shows "e' = e \<and> P s'"
  using assms
proof (induction xs arbitrary: s)
  case (Cons x xs)
  then obtain r s1 where r: "f x s = Some (Inr r, s1)"
    "(case r of None \<Rightarrow> wfirst xs f e | Some y \<Rightarrow> wreturn y) s1 = Some (Inl e', s')"
    by (auto simp: wbind_Inl_iff)
  show ?case
  proof (cases r)
    case None
    then have "P s1" using Cons.prems r by auto
    then show ?thesis using r None Cons.prems(2,4) by (intro Cons.IH) auto
  next
    case (Some z)
    then show ?thesis using r by (simp add: wm_simps)
  qed
qed (simp add: wm_simps)

lemma cg_of_attempt:
  assumes "layout_ok u" "0 \<le> sc" "sc < 2 ^ 62" "a \<in> set [0..ncg (sb u) - 1]"
  shows "valid_cg u (i64 (sc + a) smod ncg (sb u))"
proof -
  have n: "0 < ncg (sb u)" "ncg (sb u) < 2 ^ 32"
    using geometry_facts(16) geometry_pos(8) layout_facts(1) [OF assms(1)] by auto
  have "i64 (sc + a) = sc + a" using assms n by (intro i64_id) (auto simp: in_i64_def)
  then show ?thesis using assms n by (simp add: valid_cg_def smod_nonneg)
qed

lemma itog_bounds:
  assumes "layout_ok u" "0 \<le> n" "n < 2 ^ 62"
  shows "0 \<le> itog (sb u) n" "itog (sb u) n < 2 ^ 62"
proof -
  have p: "0 < ipg (sb u)" using geometry_facts(12) layout_facts(1) [OF assms(1)] by auto
  have e: "itog (sb u) n = n div ipg (sb u)" using p assms by (simp add: itog_def sdiv_nonneg)
  show "0 \<le> itog (sb u) n" using e p assms by (simp add: pos_imp_zdiv_nonneg_iff)
  have "n div ipg (sb u) \<le> n div 1" using assms p by (intro zdiv_mono2) auto
  then show "itog (sb u) n < 2 ^ 62" using e assms by simp
qed

text \<open>What a skipped group may change: its descriptor, when it was pristine.\<close>

definition alloc_skip :: "ufs \<Rightarrow> image \<Rightarrow> image \<Rightarrow> bool" where
  "alloc_skip u img img' \<longleftrightarrow> cgs_ok u img' \<and> same_except (meta_byte u) img img'
     \<and> (\<forall>x. valid_cg u (x div fpg (sb u)) \<longrightarrow> busy u img x \<longrightarrow> busy u img' x)"

lemma alloc_skip_refl: "cgs_ok u img \<Longrightarrow> alloc_skip u img img"
  by (simp add: alloc_skip_def)

lemma alloc_skip_trans: "alloc_skip u a b \<Longrightarrow> alloc_skip u b c \<Longrightarrow> alloc_skip u a c"
  unfolding alloc_skip_def using same_except_trans by blast

lemma read_allocatable_skip:
  assumes u: "layout_ok u" and c: "valid_cg u c" and ok: "cgs_ok u img"
    and r: "read_allocatable_cg_block u c img = Some (r, img1)"
  shows "alloc_skip u img img1"
proof -
  note ra = read_allocatable_spec [OF assms]
  have "busy u img1 x" if "valid_cg u (x div fpg (sb u))" "busy u img x" for x
    using that ra(4,5) by (cases "x div fpg (sb u) = c") (auto simp: busy_def)
  then show ?thesis
    using ra(2) same_except_mono [OF ra(3) cg_byte_meta [OF c]] by (auto simp: alloc_skip_def)
qed

lemma take_frags_NoneD:
  assumes "take_frags u sc n nb a img = Some (Inr None, img')"
  shows "\<exists>cg. read_allocatable_cg_block u (i64 (sc + a) smod ncg (sb u)) img = Some (Inr cg, img')"
  using assms by (auto simp: take_frags_def Let_def wm_simps split: if_splits option.splits)

lemma take_frags_InlD:
  assumes "take_frags u sc n nb a img = Some (Inl e, img')"
  shows "read_allocatable_cg_block u (i64 (sc + a) smod ncg (sb u)) img = Some (Inl e, img')"
  using assms by (auto simp: take_frags_def Let_def wbind_Inl_iff wm_simps split: if_splits option.splits)

lemma take_frags_SomeD:
  assumes "take_frags u sc n nb a img = Some (Inr (Some b), img')"
  defines "c \<equiv> i64 (sc + a) smod ncg (sb u)"
  shows "\<exists>cg img1 nd j cg1 cg2 img2 img3.
       read_allocatable_cg_block u c img = Some (Inr cg, img1) \<and> live cg \<and> u32 cg 20 = Some nd
     \<and> find_free_block cg (frag (sb u)) (uint nd - frag (sb u) + 1) (cgdmin (sb u) c smod fpg (sb u)) = Some (Some j)
     \<and> set_frags cg j n False = Some cg1 \<and> adjust_cg_free_blocks cg1 (- 1) = Some cg2
     \<and> write_cg_block img1 u c cg2 = Some img2 \<and> adjust_superblock_free_blocks img2 u (- 1) = Some img3
     \<and> b = i64 (cgbase (sb u) c + j)
     \<and> fill_at img3 (usize (data_block_offset (sb u) (start_offset u) b))
         (usize (data_block_offset (sb u) (start_offset u) b) + nb) 0 = Some img'"
  using assms(1) unfolding take_frags_def c_def [symmetric] Let_def
  by (clarsimp simp: wm_simps bind_eq_Some_conv live_def split: if_splits option.splits)

lemma take_frags_skip:
  assumes u: "layout_ok u" and sc: "0 \<le> sc" "sc < 2 ^ 62" "a \<in> set [0..ncg (sb u) - 1]"
    and ok: "cgs_ok u img"
  shows "take_frags u sc n nb a img \<noteq> Some (Inl e, img')"
    "take_frags u sc n nb a img = Some (Inr None, img') \<Longrightarrow> alloc_skip u img img'"
  using take_frags_InlD take_frags_NoneD read_allocatable_spec(1) [OF u cg_of_attempt [OF u sc] ok]
    read_allocatable_skip [OF u cg_of_attempt [OF u sc] ok] by blast+

text \<open>The three writes that commit an allocation: descriptor, superblock count, zeroed data.\<close>

lemma commit_run:
  assumes u: "layout_ok u" and c: "valid_cg u c" and l: "length cg2 = bs u"
    and w: "write_cg_block img1 u c cg2 = Some img2"
    and a: "adjust_superblock_free_blocks img2 u e = Some img3"
    and f: "fill_at img3 (fboff u b) (fboff u b + nb) 0 = Some img'"
    and r: "data_run u b n" "nb \<le> nat n * nat (fsize (sb u))"
  shows "\<And>d. valid_cg u d \<Longrightarrow> cg_view u img' d = (if d = c then cg2 else cg_view u img1 d)"
    "same_except (\<lambda>k. meta_byte u k \<or> (fboff u b \<le> k \<and> k < fboff u b + nb)) img1 img'"
    "subslice img' (fboff u b) (fboff u b + nb) = Some (replicate nb 0)"
proof -
  let ?D = "\<lambda>k. fboff u b \<le> k \<and> k < fboff u b + nb"
  let ?R = "\<lambda>k. meta_byte u k \<or> ?D k"
  note wv = write_cg_block_view [OF u c l w] and sp = adjust_superblock_same(1) [OF a]
  have fs: "same_except ?D img3 img'" using f by (auto simp: same_except_def fill_at_length fill_at_nth)
  have nm: "\<not> meta_byte u k" if "?D k" for k
    using that r by (intro data_run_not_meta [OF u r(1)]) auto
  show "cg_view u img' d = (if d = c then cg2 else cg_view u img1 d)" if d: "valid_cg u d" for d
    using not_meta_cg_view [OF fs nm d] cg_view_super [OF u d sp] wv(1) wv(3) [OF d] by simp
  have "same_except ?R img1 img2" by (rule same_except_mono [OF wv(2)]) (simp add: cg_byte_meta [OF c])
  also have "same_except ?R img2 img3" by (rule same_except_mono [OF sp]) (simp add: super_byte_meta)
  also have "same_except ?R img3 img'" by (rule same_except_mono [OF fs]) simp
  finally show "same_except ?R img1 img'" .
  show "subslice img' (fboff u b) (fboff u b + nb) = Some (replicate nb 0)"
    using f subslice_copy_same [of img3 "fboff u b" "replicate nb 0" img'] by (simp add: fill_at_def)
qed

text \<open>The fragments of a run at position \<open>j\<close> of group \<open>c\<close>.\<close>

lemma run_member:
  assumes u: "layout_ok u" and c: "valid_cg u c" and j: "dblkno (sb u) \<le> j" "j + n \<le> fpg (sb u)"
  shows "fpg (sb u) * c + j \<le> x \<and> x < fpg (sb u) * c + j + n \<longleftrightarrow>
     x div fpg (sb u) = c \<and> j \<le> x mod fpg (sb u) \<and> x mod fpg (sb u) < j + n"
proof
  assume x: "fpg (sb u) * c + j \<le> x \<and> x < fpg (sb u) * c + j + n"
  define o' where "o' = x - (fpg (sb u) * c + j)"
  have xe: "x = fpg (sb u) * c + (j + o')" by (simp add: o'_def)
  have "dblkno (sb u) \<le> j + o'" "j + o' + 1 \<le> fpg (sb u)" "0 \<le> o'" "o' < n" using x j by (auto simp: o'_def)
  then show "x div fpg (sb u) = c \<and> j \<le> x mod fpg (sb u) \<and> x mod fpg (sb u) < j + n"
    using run_address(2,3) [OF u c, of "j + o'" 1] by (simp flip: xe)
next
  assume x: "x div fpg (sb u) = c \<and> j \<le> x mod fpg (sb u) \<and> x mod fpg (sb u) < j + n"
  then show "fpg (sb u) * c + j \<le> x \<and> x < fpg (sb u) * c + j + n"
    using mult_div_mod_eq [of "fpg (sb u)" x] by auto
qed

text \<open>What a new descriptor with a marked run means for the busy fragments.\<close>

lemma marked_busy:
  assumes u: "layout_ok u" and c: "valid_cg u c" and j: "dblkno (sb u) \<le> j" "j + n \<le> fpg (sb u)"
    and v: "\<And>d. valid_cg u d \<Longrightarrow> cg_view u img' d = (if d = c then cg2 else cg_view u img1 d)"
    and lv: "live cg2" "live (cg_view u img1 c)"
    and m: "\<And>i. 0 \<le> i \<Longrightarrow> i < fpg (sb u) \<Longrightarrow>
       is_frag_free cg2 i = (if j \<le> i \<and> i < j + n then Some w else is_frag_free (cg_view u img1 c) i)"
    and x: "valid_cg u (x div fpg (sb u))"
  shows "busy u img' x \<longleftrightarrow>
    (if fpg (sb u) * c + j \<le> x \<and> x < fpg (sb u) * c + j + n then \<not> w else busy u img1 x)"
proof (cases "x div fpg (sb u) = c")
  case True
  have "0 \<le> x mod fpg (sb u)" "x mod fpg (sb u) < fpg (sb u)"
    using geometry_facts(17) [OF layout_facts(1) [OF u]] by auto
  then show ?thesis
    using m v [OF c] lv True unfolding run_member [OF u c j] busy_def by auto
next
  case False
  then show ?thesis using v [OF x] unfolding run_member [OF u c j] busy_def by auto
qed

lemma data_start: "layout_ok u \<Longrightarrow> valid_cg u c \<Longrightarrow> cgdmin (sb u) c smod fpg (sb u) = dblkno (sb u)"
  using cg_addresses(3) [OF layout_facts(1), of u c] cg_mult_bound [OF layout_facts(1), of u c]
    geometry_pos [OF layout_facts(1), of u] geometry_facts(17) [OF layout_facts(1), of u] layout_order [OF layout_facts(1), of u]
  by (simp add: valid_cg_def smod_nonneg)

lemma take_frags_found:
  assumes u: "layout_ok u" and sc: "0 \<le> sc" "sc < 2 ^ 62" "a \<in> set [0..ncg (sb u) - 1]"
    and n: "0 < n" "n \<le> frag (sb u)" "nb \<le> nat n * nat (fsize (sb u))"
    and ok: "cgs_ok u img" and t: "take_frags u sc n nb a img = Some (Inr (Some b), img')"
  shows "alloc_spec u n nb img b img'"
proof -
  define c where "c = i64 (sc + a) smod ncg (sb u)"
  have c: "valid_cg u c" unfolding c_def by (rule cg_of_attempt [OF u sc])
  note g = layout_facts(1) [OF u] and fr = geometry_frag [OF layout_facts(1) [OF u]]
  obtain cg img1 nd j cg1 cg2 img2 img3 where found:
    "read_allocatable_cg_block u c img = Some (Inr cg, img1)" "live cg" "u32 cg 20 = Some nd"
    "find_free_block cg (frag (sb u)) (uint nd - frag (sb u) + 1) (cgdmin (sb u) c smod fpg (sb u)) = Some (Some j)"
    "set_frags cg j n False = Some cg1" "adjust_cg_free_blocks cg1 (- 1) = Some cg2"
    "write_cg_block img1 u c cg2 = Some img2" "adjust_superblock_free_blocks img2 u (- 1) = Some img3"
    "fill_at img3 (usize (data_block_offset (sb u) (start_offset u) b))
         (usize (data_block_offset (sb u) (start_offset u) b) + nb) 0 = Some img'"
    "b = i64 (cgbase (sb u) c + j)"
    using take_frags_SomeD [OF t] unfolding c_def [symmetric] by blast
  note ra = read_allocatable_spec [OF u c ok found(1)] and sk = read_allocatable_skip [OF u c ok found(1)]
  have cg: "cg = cg_view u img1 c" "length cg = bs u" "cg_ok u cg"
    using ra(1) cg_view_length [OF cgs_okD(1) [OF ra(2)] c] cgs_okD(2) [OF ra(2) c] by auto
  have j: "dblkno (sb u) \<le> j" "j + frag (sb u) \<le> fpg (sb u)" "all_frags_free cg j (frag (sb u)) = Some True"
    "frag (sb u) dvd j - dblkno (sb u)"
    using find_free_block_found [OF found(4) [unfolded data_start [OF u c]]] fr cg(3) found(2,3) by (auto simp: cg_ok_def)
  have j0: "0 \<le> j" "0 \<le> n" and jn: "j + n \<le> fpg (sb u)" using j n geometry_pos(6) [OF g] by linarith+
  note adr = run_address [OF u c j(1) jn n(1)] and mk = marked_cg [OF u cg(2,3) found(2) j0(1) jn j0(2) found(5,6)]
  have b: "b = fpg (sb u) * c + j" using found(10) adr(1) by simp
  have run: "data_run u b (frag (sb u))" "data_run u b n" using run_address(4) [OF u c j(1,2)] adr(4) fr b by auto
  have off: "usize (data_block_offset (sb u) (start_offset u) b) = fboff u b"
    using data_run_bounds [OF u run(1)] fr by (intro data_block_offset_fboff [OF u]) auto
  note cm = commit_run [OF u c mk(1) found(7,8) found(9) [unfolded off] run(2) n(3)]
  have busy': "busy u img' x \<longleftrightarrow> (if b \<le> x \<and> x < b + n then True else busy u img1 x)"
    if "valid_cg u (x div fpg (sb u))" for x
    using marked_busy [OF u c j(1) jn cm(1) mk(2) _ _ that, where w = False] mk(5) found(2) cg(1) b by simp
  have free1: "valid_cg u (x div fpg (sb u)) \<and> \<not> busy u img1 x" if x: "b \<le> x" "x < b + n" for x
  proof -
    have m: "x div fpg (sb u) = c" "x mod fpg (sb u) = j + (x - b)"
      using x run_member [OF u c j(1) jn, of x] mult_div_mod_eq [of "fpg (sb u)" x] b by auto
    have "is_frag_free cg (j + (x - b)) = Some True"
      using x n jn geometry_pos(7) [OF g] by (intro all_frags_freeD [OF j(3) _ _ j0(1)]) auto
    then show ?thesis using m cg(1) c by (simp add: busy_def)
  qed
  have "cgs_ok u img'"
    using mk(4) cg(1) by (intro cgs_ok_replace [OF ra(2) same_except_length [OF cm(2)] mk(3) _ cm(1)]) auto
  moreover have "same_except (\<lambda>k. meta_byte u k \<or> (fboff u b \<le> k \<and> k < fboff u b + nb)) img img'"
    using cm(2) sk by (auto simp: alloc_skip_def intro: same_except_trans same_except_mono)
  moreover have "block_addr u b"
    using run(1) b adr(3) dvd_add [OF j(4) geometry_facts(24) [OF g]] by (simp add: block_addr_def)
  ultimately show ?thesis
    using cm(3) busy' free1 sk by (auto simp: alloc_spec_def alloc_skip_def)
qed

lemma bind_total:
  "\<exists>y. x = Some y \<Longrightarrow> (\<And>y. x = Some y \<Longrightarrow> \<exists>z. f y = Some z) \<Longrightarrow> \<exists>z. Option.bind x f = Some z"
  by auto

section \<open>The public allocation operations\<close>

lemma alloc_spec_skip:
  assumes "alloc_skip u img img1" "alloc_spec u n nb img1 b img'" "layout_ok u" "n \<le> frag (sb u)"
  shows "alloc_spec u n nb img b img'"
proof -
  have v: "valid_cg u (x div fpg (sb u))" if "b \<le> x \<and> x < b + n" for x
  proof -
    let ?c = "b div fpg (sb u)"
    have r: "valid_cg u ?c" "dblkno (sb u) \<le> b mod fpg (sb u)" "b mod fpg (sb u) + frag (sb u) \<le> fpg (sb u)"
      using assms(2) by (auto simp: alloc_spec_def block_addr_def data_run_def)
    then show ?thesis using run_member [OF assms(3) r, of x] that assms(4) by auto
  qed
  have "same_except (\<lambda>k. meta_byte u k \<or> (fboff u b \<le> k \<and> k < fboff u b + nb)) img img'"
    using assms(1,2) unfolding alloc_skip_def alloc_spec_def by (blast intro: same_except_trans same_except_mono)
  then show ?thesis using assms(1,2) v unfolding alloc_skip_def alloc_spec_def by blast
qed

text \<open>One request size, in the terms of the loop over the groups.\<close>

lemma wfirst_take_frags:
  assumes u: "layout_ok u" and sc: "0 \<le> sc" "sc < 2 ^ 62" and ok: "cgs_ok u img"
    and n: "0 < n" "n \<le> frag (sb u)" "nb \<le> nat n * nat (fsize (sb u))"
  shows "wfirst [0..ncg (sb u) - 1] (take_frags u sc n nb) e img = Some (Inr b, img') \<Longrightarrow> alloc_spec u n nb img b img'"
    "wfirst [0..ncg (sb u) - 1] (take_frags u sc n nb) e img = Some (Inl e', img') \<Longrightarrow> e' = e \<and> alloc_skip u img img'"
proof -
  have step: "alloc_skip u img s'" if "a \<in> set [0..ncg (sb u) - 1]" "alloc_skip u img s"
    "take_frags u sc n nb a s = Some (Inr None, s')" for a s s'
  proof -
    have "cgs_ok u s" using that(2) by (simp add: alloc_skip_def)
    then show ?thesis using take_frags_skip(2) [OF u sc that(1)] that alloc_skip_trans by blast
  qed
  note P0 = alloc_skip_refl [OF ok]
  have ok_of: "cgs_ok u s" if "alloc_skip u img s" for s using that by (simp add: alloc_skip_def)
  show "alloc_spec u n nb img b img'"
    if w: "wfirst [0..ncg (sb u) - 1] (take_frags u sc n nb) e img = Some (Inr b, img')"
  proof -
    have "\<exists>a s. a \<in> set [0..ncg (sb u) - 1] \<and> alloc_skip u img s \<and> take_frags u sc n nb a s = Some (Inr (Some b), img')"
      by (rule wfirst_Inr [OF w]) (fact step, fact P0)
    then obtain a s where a: "a \<in> set [0..ncg (sb u) - 1]" "alloc_skip u img s"
      "take_frags u sc n nb a s = Some (Inr (Some b), img')" by blast
    show ?thesis
      using alloc_spec_skip [OF a(2) take_frags_found [OF u sc a(1) n ok_of [OF a(2)] a(3)] u n(2)] .
  qed
  show "e' = e \<and> alloc_skip u img img'"
    if w: "wfirst [0..ncg (sb u) - 1] (take_frags u sc n nb) e img = Some (Inl e', img')"
    by (rule wfirst_Inl [OF w]) (fact step, fact P0, rule take_frags_skip(1) [OF u sc _ ok_of])
qed

definition request_ok :: "ufs \<Rightarrow> int \<Rightarrow> bool" where
  "request_ok u n \<longleftrightarrow> 0 < n \<and> n \<le> bsize (sb u) \<and> fsize (sb u) dvd n"

lemma request_frags:
  assumes u: "layout_ok u" and r: "request_ok u n"
  shows "0 < n div fsize (sb u)" "n div fsize (sb u) \<le> frag (sb u)" "nat n = nat (n div fsize (sb u)) * nat (fsize (sb u))"
    "n sdiv fsize (sb u) = n div fsize (sb u)" "usize n = nat n" "n = bsize (sb u) \<Longrightarrow> n div fsize (sb u) = frag (sb u)"
proof -
  note g = layout_facts(1) [OF u]
  have f: "0 < fsize (sb u)" using geometry_fsize [OF g] by auto
  obtain k where k: "n = fsize (sb u) * k" using r by (auto simp: request_ok_def)
  have kp: "0 < k" using k r f by (auto simp: request_ok_def zero_less_mult_iff)
  have bz: "bsize (sb u) = frag (sb u) * fsize (sb u)" using geometry_facts(9) [OF g] .
  show "0 < n div fsize (sb u)" using k kp f by simp
  have "k * fsize (sb u) \<le> frag (sb u) * fsize (sb u)" using r k bz by (simp add: request_ok_def mult.commute)
  then show "n div fsize (sb u) \<le> frag (sb u)" using k f by simp
  show "nat n = nat (n div fsize (sb u)) * nat (fsize (sb u))" using k f kp by (simp add: nat_mult_distrib)
  show "n sdiv fsize (sb u) = n div fsize (sb u)" using r f by (simp add: request_ok_def sdiv_nonneg)
  show "usize n = nat n" using r geometry_facts(2) [OF g] by (simp add: request_ok_def usize_id)
  show "n = bsize (sb u) \<Longrightarrow> n div fsize (sb u) = frag (sb u)" using bz f by simp
qed

lemma allocate_allocation_loop:
  assumes u: "layout_ok u" and r: "request_ok u n"
  shows "allocate_allocation u ino n = wfirst [0..ncg (sb u) - 1]
    (take_frags u (itog (sb u) ino) (n div fsize (sb u)) (nat n)) (if n = bsize (sb u) then NoFreeBlocks else NoFreeFragments)"
  using request_frags [OF u r] r layout_facts(4) [OF u]
  by (auto simp: allocate_allocation_def allocate_block_def allocate_fragments_def Let_def request_ok_def bs_def)

lemma allocate_allocation_spec:
  assumes u: "layout_ok u" and r: "request_ok u n" and i: "0 \<le> ino" "ino < 2 ^ 62" and ok: "cgs_ok u img"
  shows "allocate_allocation u ino n img = Some (Inr b, img') \<Longrightarrow> alloc_spec u (n div fsize (sb u)) (nat n) img b img'"
    "allocate_allocation u ino n img = Some (Inl e, img') \<Longrightarrow>
       e = (if n = bsize (sb u) then NoFreeBlocks else NoFreeFragments) \<and> alloc_skip u img img'"
  unfolding allocate_allocation_loop [OF u r]
  using wfirst_take_frags [OF u itog_bounds [OF u i] ok request_frags(1,2) [OF u r], of "nat n"]
    request_frags(3) [OF u r] by auto

section \<open>Totality\<close>

lemma wfirst_total:
  assumes "\<And>x s. x \<in> set xs \<Longrightarrow> P s \<Longrightarrow> f x s \<noteq> None"
    and "\<And>x s s'. x \<in> set xs \<Longrightarrow> P s \<Longrightarrow> f x s = Some (Inr None, s') \<Longrightarrow> P s'" "P s"
  shows "wfirst xs f e s \<noteq> None"
  using assms
proof (induction xs arbitrary: s)
  case (Cons x xs)
  obtain r s' where r: "f x s = Some (r, s')" using Cons.prems(1) [of x s] Cons.prems(3) by auto
  show ?case
  proof (cases r)
    case (Inr o')
    show ?thesis
    proof (cases o')
      case None
      have "P s'" using Cons.prems(2) [of x s s'] Cons.prems(3) r Inr None by simp
      then have "wfirst xs f e s' \<noteq> None" by (rule Cons.IH [OF Cons.prems(1) Cons.prems(2), rotated -1]) auto
      then show ?thesis using r Inr None by (simp add: wbind_def)
    qed (use r Inr in \<open>simp add: wbind_def wreturn_def\<close>)
  qed (use r in \<open>simp add: wbind_def\<close>)
qed (simp add: wfail_def)

lemma adjust_total: "off + 4 \<le> length b \<Longrightarrow> \<exists>b'. adjust_u32_at b off d = Some b'"
  using u32_total [of off b] c32.write_total [of off b] by (auto simp: adjust_u32_at_def)

lemma pristine_cg_bytes_total:
  assumes u: "layout_ok u" and c: "valid_cg u c"
  shows "\<exists>cg. pristine_cg_bytes u c = Some cg"
proof -
  note l = layout_facts [OF u] and g = layout_facts(1) [OF u]
  have put: "\<exists>b'. put_u32 b off v = Some b'" "\<exists>b'. put_u16 b off w = Some b'"
    if "length b = bs u" "off \<le> 980" for b :: bytes and off v w
    using that l(5) by (auto intro!: c32.write_total c16.write_total)
  have "\<exists>h. pristine_header u c = Some h"
  proof -
    have "frag (sb u) = 0 \<longleftrightarrow> False" using geometry_frag [OF g] by auto
    then show ?thesis
      unfolding pristine_header_def Let_def l(4)
      by (simp only: if_False, intro bind_total put) (simp_all add: codec_length)
  qed
  then obtain h where h: "pristine_header u c = Some h" by blast
  note lh = pristine_header_ok(1) [OF h, unfolded l(4)]
  have "\<exists>c1. (if c = 0 then do { x \<leftarrow> set_inode_state h 0 True; set_inode_state x 1 True } else Some h) = Some c1"
  proof -
    have "\<And>i. i \<in> set [0, 1] \<Longrightarrow> bit_inside 724 (length h) i" using lh l(5) by (auto simp: bit_inside_def)
    then have "\<exists>c1. imap.upds h [0, 1] True = Some c1" by (rule imap.upds_total)
    then show ?thesis by simp
  qed
  then obtain c1 where c1: "(if c = 0 then do { x \<leftarrow> set_inode_state h 0 True; set_inode_state x 1 True } else Some h) = Some c1"
    by blast
  then have l1: "length c1 = bs u" using lh by (auto simp: bind_eq_Some_conv set_inode_state_length split: if_splits)
  have "\<exists>cg. fmap.upds c1 [dblkno (sb u)..cg_data_frag_count u c - 1] True = Some cg"
    using cg_data_frag_count_bounds [of u c] geometry_facts(17) [OF g] geometry_pos(6) [OF g]
    by (intro fmap.upds_total) (auto intro!: frag_bit_inside [OF u l1])
  then show ?thesis using h c1 by (auto simp: pristine_cg_bytes_def data_start [OF u c] bind_eq_Some_conv)
qed

lemma read_allocatable_total:
  assumes u: "layout_ok u" and c: "valid_cg u c" and ok: "cgs_ok u img"
  shows "\<exists>img1. read_allocatable_cg_block u c img = Some (Inr (cg_view u img1 c), img1)"
proof -
  note f = cgs_okD(1) [OF ok]
  have lv: "length (cg_view u img c) = bs u" using cg_view_length [OF f c] .
  obtain m where m: "u32 (cg_view u img c) 980 = Some m"
    using u32_total [of 980 "cg_view u img c"] lv layout_facts(5) [OF u] by auto
  obtain cg where cg: "pristine_cg_bytes u c = Some cg" using pristine_cg_bytes_total [OF u c] by auto
  obtain img2 where w: "write_cg_block img u c cg = Some img2"
    using write_cg_block_total [OF u c f pristine_cg_bytes_ok(1) [OF u c cg]] by auto
  have "\<exists>r img1. read_allocatable_cg_block u c img = Some (r, img1)"
    using read_cg_block_view [OF u c f] m cg w
    by (simp add: read_allocatable_cg_block_def initialize_pristine_cg_def wbind_def wread_def wopt_def wmodify_def wreturn_def)
  then show ?thesis using read_allocatable_spec(1) [OF u c ok] by metis
qed

lemma find_free_block_total:
  assumes u: "layout_ok u" and l: "length cg = bs u" and i: "0 \<le> i" "limit + frag (sb u) \<le> fpg (sb u) + 1"
  shows "\<exists>r. find_free_block cg (frag (sb u)) limit i = Some r"
  using assms
proof (induction cg "frag (sb u)" limit i rule: find_free_block.induct)
  case (1 cg limit i)
  have fr: "1 \<le> frag (sb u)" using geometry_frag [OF layout_facts(1) [OF u]] by auto
  have fp: "fpg (sb u) < 2 ^ 62" using geometry_pos(7) [OF layout_facts(1) [OF u]] by simp
  show ?case
  proof (cases "i < limit")
    case True
    have "\<exists>b. is_frag_free cg (i64 (i + off)) = Some b" if "off \<in> set [0..frag (sb u) - 1]" for off
    proof -
      have b: "0 \<le> i + off" "i + off < fpg (sb u)" using that 1(4,5) True by auto
      then have "i64 (i + off) = i + off" using fp by (intro i64_id) (auto simp: in_i64_def)
      then show ?thesis using fmap.tst_total [OF frag_bit_inside [OF u 1(3) b]] by simp
    qed
    then obtain q where "\<And>off. off \<in> set [0..frag (sb u) - 1] \<Longrightarrow> is_frag_free cg (i64 (i + off)) = Some (q off)"
      by metis
    then obtain b where b: "all_frags_free cg i (frag (sb u)) = Some b"
      using mall_Some_iff [of "[0..frag (sb u) - 1]" "\<lambda>off. is_frag_free cg (i64 (i + off))" q]
      unfolding all_frags_free_def by blast
    show ?thesis
    proof (cases b)
      case False
      then have "\<exists>r. find_free_block cg (frag (sb u)) limit (i + frag (sb u)) = Some r"
        using 1(1) [OF True b] 1 fr by auto
      then show ?thesis using True b False fr by (subst find_free_block.simps) simp
    qed (use True b in \<open>subst find_free_block.simps, simp\<close>)
  qed (subst find_free_block.simps, simp)
qed

lemma set_frags_total:
  assumes u: "layout_ok u" and l: "length cg = bs u" and b: "0 \<le> base" "base + n \<le> fpg (sb u)"
  shows "\<exists>cg'. set_frags cg base n v = Some cg'"
proof -
  have "fpg (sb u) < 2 ^ 63" using geometry_pos(7) [OF layout_facts(1) [OF u]] by simp
  then have "set_frags cg base n v = fmap.upds cg (map (\<lambda>off. base + off) [0..n - 1]) v"
    using b by (intro set_frags_upds) auto
  moreover have "\<exists>cg'. fmap.upds cg (map (\<lambda>off. base + off) [0..n - 1]) v = Some cg'"
    using b by (intro fmap.upds_total) (auto intro!: frag_bit_inside [OF u l])
  ultimately show ?thesis by simp
qed

lemma adjust_superblock_total:
  assumes u: "layout_ok u" and f: "cg_fits u img"
  shows "\<exists>img'. adjust_superblock_free_blocks img u d = Some img'"
    "\<exists>img'. adjust_superblock_free_inodes img u d = Some img'"
    "\<exists>img'. adjust_superblock_directory_count img u d = Some img'"
proof -
  have "valid_cg u 0" using geometry_facts(16) [OF layout_facts(1) [OF u]] by (simp add: valid_cg_def)
  then have "super_offset u + 8192 \<le> length img"
    using cg_off_above_super [OF u] cg_fitsD [OF f] by (metis add_leD1 order_trans)
  then show "\<exists>img'. adjust_superblock_free_blocks img u d = Some img'"
    "\<exists>img'. adjust_superblock_free_inodes img u d = Some img'"
    "\<exists>img'. adjust_superblock_directory_count img u d = Some img'"
    unfolding adjust_superblock_free_blocks_def adjust_superblock_free_inodes_def adjust_superblock_directory_count_def
    by (auto intro!: adjust_total)
qed

lemma marked_cg_total:
  assumes u: "layout_ok u" and l: "length cg = bs u" and b: "0 \<le> base" "base + n \<le> fpg (sb u)" "0 \<le> n"
  shows "\<exists>cg1 cg2. set_frags cg base n v = Some cg1 \<and> adjust_cg_free_blocks cg1 d = Some cg2"
proof -
  obtain cg1 where cg1: "set_frags cg base n v = Some cg1" using set_frags_total [OF u l b(1,2)] by auto
  then have "length cg1 = bs u" using set_frags_spec(1) [OF u l b] l by simp
  then show ?thesis
    using cg1 adjust_total [of 28 cg1 d] layout_facts(5) [OF u] by (auto simp: adjust_cg_free_blocks_def)
qed

lemma commit_run_total:
  assumes u: "layout_ok u" and c: "valid_cg u c" and l: "length cg2 = bs u" and f: "cg_fits u img1"
    and r: "data_run u b n" "nb \<le> nat n * nat (fsize (sb u))" "b + n \<le> e" "fboff u e \<le> length img1"
  shows "\<exists>img2 img3 img'. write_cg_block img1 u c cg2 = Some img2
    \<and> adjust_superblock_free_blocks img2 u d = Some img3 \<and> fill_at img3 (fboff u b) (fboff u b + nb) 0 = Some img'"
proof -
  obtain img2 where w: "write_cg_block img1 u c cg2 = Some img2" using write_cg_block_total [OF u c f l] by auto
  have len2: "length img2 = length img1" using same_except_length [OF write_cg_block_view(2) [OF u c l w]] .
  obtain img3 where s: "adjust_superblock_free_blocks img2 u d = Some img3"
    using adjust_superblock_total(1) [OF u, of img2] f cg_fits_length [OF len2] by auto
  have len3: "length img3 = length img1" using same_except_length [OF adjust_superblock_same(1) [OF s]] len2 by simp
  have "0 \<le> n" using r(1) by (simp add: data_run_def)
  then have "fboff u b + nat n * nat (fsize (sb u)) \<le> fboff u e"
    using data_run_bounds(1) [OF u r(1)] r(3) by (intro fboff_mono [OF u]) auto
  then have "\<exists>img'. fill_at img3 (fboff u b) (fboff u b + nb) 0 = Some img'"
    using r(2,4) len3 by (auto simp: fill_at_def intro!: copy_at_total)
  then show ?thesis using w s by blast
qed

text \<open>No group makes the allocator panic.\<close>

lemma take_frags_total:
  assumes u: "layout_ok u" and sc: "0 \<le> sc" "sc < 2 ^ 62" "a \<in> set [0..ncg (sb u) - 1]"
    and n: "0 < n" "n \<le> frag (sb u)" "nb \<le> nat n * nat (fsize (sb u))" and ok: "cgs_ok u img"
  shows "take_frags u sc n nb a img \<noteq> None"
proof -
  define c where "c = i64 (sc + a) smod ncg (sb u)"
  have c: "valid_cg u c" unfolding c_def by (rule cg_of_attempt [OF u sc])
  note g = layout_facts(1) [OF u] and fr = geometry_frag [OF layout_facts(1) [OF u]]
  obtain img1 cg where ra: "read_allocatable_cg_block u c img = Some (Inr cg, img1)" and cg: "cg = cg_view u img1 c"
    using read_allocatable_total [OF u c ok] by blast
  note sp = read_allocatable_spec [OF u c ok ra] and ok1 = read_allocatable_spec(2) [OF u c ok ra]
  have l: "length cg = bs u" using cg cg_view_length [OF cgs_okD(1) [OF ok1] c] by simp
  obtain m where m: "u32 cg 980 = Some m" using u32_total [of 980 cg] l layout_facts(5) [OF u] by auto
  show ?thesis
  proof (cases "m = UFS_CG_MAGIC")
    case False
    then show ?thesis using ra m unfolding take_frags_def Let_def c_def [symmetric]
      by (simp add: wbind_def wopt_def wread_def wreturn_def)
  next
    case True
    then have lv: "live cg" using m by (simp add: live_def)
    obtain nd where nd: "u32 cg 20 = Some nd" "uint nd \<le> fpg (sb u)"
      using cgs_okD(2) [OF ok1 c] cg lv by (auto simp: cg_ok_def)
    obtain f where f: "find_free_block cg (frag (sb u)) (uint nd - frag (sb u) + 1) (cgdmin (sb u) c smod fpg (sb u)) = Some f"
      using find_free_block_total [OF u l, of "dblkno (sb u)" "uint nd - frag (sb u) + 1"] nd geometry_pos(6) [OF g]
      unfolding data_start [OF u c] by auto
    show ?thesis
    proof (cases f)
      case None
      then show ?thesis using ra m True nd f unfolding take_frags_def Let_def c_def [symmetric]
        by (simp add: wbind_def wopt_def wread_def wreturn_def)
    next
      case (Some j)
      have j: "dblkno (sb u) \<le> j" "j + frag (sb u) \<le> uint nd"
        using find_free_block_found [OF f [unfolded data_start [OF u c] Some]] fr by auto
      have jn: "0 \<le> j" "j + n \<le> fpg (sb u)" "0 \<le> n" "j + n \<le> uint nd" using j n nd geometry_pos(6) [OF g] by linarith+
      obtain cg1 cg2 where mk: "set_frags cg j n False = Some cg1" "adjust_cg_free_blocks cg1 (- 1) = Some cg2"
        using marked_cg_total [OF u l jn(1-3)] by blast
      have l2: "length cg2 = bs u" using marked_cg(1) [OF u l _ lv jn(1-3) mk] cgs_okD(2) [OF ok1 c] cg by simp
      note adr = run_address [OF u c j(1) jn(2) n(1)]
      let ?b = "fpg (sb u) * c + j"
      have off: "usize (data_block_offset (sb u) (start_offset u) ?b) = fboff u ?b"
        using data_run_bounds [OF u adr(4)] n by (intro data_block_offset_fboff [OF u]) auto
      have "fboff u (fpg (sb u) * c + uint nd) \<le> length img1"
        using cgs_okD(3) [OF ok1 c] cg lv nd by (simp add: cg_room_def group_frags_def)
      then obtain img2 img3 img' where w: "write_cg_block img1 u c cg2 = Some img2"
        and s: "adjust_superblock_free_blocks img2 u (- 1) = Some img3"
        and "fill_at img3 (fboff u ?b) (fboff u ?b + nb) 0 = Some img'"
        using commit_run_total [OF u c l2 cgs_okD(1) [OF ok1] adr(4) n(3), of "fpg (sb u) * c + uint nd" "- 1"] jn
        by auto
      then show ?thesis using ra m True nd f Some mk w s unfolding take_frags_def Let_def c_def [symmetric]
        by (auto simp: wbind_def wopt_def wread_def wmodify_def wreturn_def adr(1) off)
    qed
  qed
qed

lemma allocate_allocation_total:
  assumes u: "layout_ok u" and r: "request_ok u n" and i: "0 \<le> ino" "ino < 2 ^ 62" and ok: "cgs_ok u img"
  shows "allocate_allocation u ino n img \<noteq> None"
  unfolding allocate_allocation_loop [OF u r]
proof (rule wfirst_total [where P = "cgs_ok u"])
  fix a s
  assume a: "a \<in> set [0..ncg (sb u) - 1]" "cgs_ok u s"
  show "take_frags u (itog (sb u) ino) (n div fsize (sb u)) (nat n) a s \<noteq> None"
    using request_frags [OF u r] by (intro take_frags_total [OF u itog_bounds [OF u i] a(1) _ _ _ a(2)]) auto
  show "cgs_ok u s'" if "take_frags u (itog (sb u) ino) (n div fsize (sb u)) (nat n) a s = Some (Inr None, s')" for s'
    using take_frags_skip(2) [OF u itog_bounds [OF u i] a that] by (simp add: alloc_skip_def)
qed (fact ok)

section \<open>Release\<close>

lemma set_frags_cg:
  assumes u: "layout_ok u" and l: "length cg = bs u" and ok: "cg_ok u cg" "live cg"
    and b: "0 \<le> base" "base + n \<le> fpg (sb u)" "0 \<le> n"
    and s: "set_frags cg base n v = Some cg1"
  shows "length cg1 = bs u" "live cg1" "cg_ok u cg1" "group_frags u c cg1 = group_frags u c cg"
proof -
  note sf = set_frags_spec [OF u l b s]
  have e: "u32 cg1 980 = u32 cg 980" "u32 cg1 20 = u32 cg 20" using sf by (auto intro!: u32_cong)
  show "length cg1 = bs u" using sf(1) l by simp
  show lv: "live cg1" using ok(2) e by (simp add: live_def)
  show "cg_ok u cg1" "group_frags u c cg1 = group_frags u c cg"
    using ok e lv by (simp_all add: cg_ok_def group_frags_def)
qed

text \<open>What a release did: exactly the run's fragments are free again, and only metadata changed.\<close>

definition free_spec :: "ufs \<Rightarrow> int \<Rightarrow> int \<Rightarrow> image \<Rightarrow> image \<Rightarrow> bool" where
  "free_spec u b n img img' \<longleftrightarrow> cgs_ok u img' \<and> same_except (meta_byte u) img img'
     \<and> (\<forall>x. valid_cg u (x div fpg (sb u)) \<longrightarrow>
          (busy u img' x \<longleftrightarrow> busy u img x \<and> \<not> (b \<le> x \<and> x < b + n)))"

lemma free_specI:
  assumes u: "layout_ok u" and b: "data_run u b n" and ok: "cgs_ok u img"
    and lv: "live (cg_view u img (b div fpg (sb u)))" "live cg2" and cg2: "cg_ok u cg2"
    and gf: "group_frags u (b div fpg (sb u)) cg2 = group_frags u (b div fpg (sb u)) (cg_view u img (b div fpg (sb u)))"
    and v: "\<And>d. valid_cg u d \<Longrightarrow> cg_view u img' d = (if d = b div fpg (sb u) then cg2 else cg_view u img d)"
    and m: "\<And>i. 0 \<le> i \<Longrightarrow> i < fpg (sb u) \<Longrightarrow> is_frag_free cg2 i =
       (if b mod fpg (sb u) \<le> i \<and> i < b mod fpg (sb u) + n then Some True
        else is_frag_free (cg_view u img (b div fpg (sb u))) i)"
    and s: "same_except (meta_byte u) img img'"
  shows "free_spec u b n img img'"
proof -
  have r: "valid_cg u (b div fpg (sb u))" "dblkno (sb u) \<le> b mod fpg (sb u)" "b mod fpg (sb u) + n \<le> fpg (sb u)"
    using b by (auto simp: data_run_def)
  have e: "fpg (sb u) * (b div fpg (sb u)) + b mod fpg (sb u) = b" by simp
  have "cgs_ok u img'" by (rule cgs_ok_replace [OF ok same_except_length [OF s] cg2 gf v])
  then show ?thesis
    using s marked_busy [OF u r v lv(2,1) m] unfolding e by (auto simp: free_spec_def)
qed

lemma data_run_mono: "data_run u b n \<Longrightarrow> 0 \<le> m \<Longrightarrow> m \<le> n \<Longrightarrow> data_run u b m"
  by (auto simp: data_run_def)

lemma data_run_sdiv:
  assumes u: "layout_ok u" and b: "data_run u b n"
  shows "b sdiv fpg (sb u) = b div fpg (sb u)" "b smod fpg (sb u) = b mod fpg (sb u)"
    "0 \<le> b mod fpg (sb u)"
  using data_run_bounds(1) [OF u b] geometry_facts(17) [OF layout_facts(1) [OF u]]
  by (simp_all add: sdiv_nonneg smod_nonneg)

lemma free_block_spec:
  assumes u: "layout_ok u" and b: "block_addr u b" and ok: "cgs_ok u img"
    and lv: "live (cg_view u img (b div fpg (sb u)))" and f: "free_block u b img = Some (r, img')"
  shows "r = Inr () \<and> free_spec u b (frag (sb u)) img img'"
proof -
  let ?c = "b div fpg (sb u)"
  have run: "data_run u b (frag (sb u))" using b by (simp add: block_addr_def)
  then have c: "valid_cg u ?c" and j: "b mod fpg (sb u) + frag (sb u) \<le> fpg (sb u)" "0 \<le> frag (sb u)"
    by (auto simp: data_run_def)
  note sd = data_run_sdiv [OF u run] and fits = cgs_okD(1) [OF ok]
  note l = cg_view_length [OF fits c]
  obtain cg1 cg2 img2 where s: "set_frags (cg_view u img ?c) (b mod fpg (sb u)) (frag (sb u)) True = Some cg1"
    "adjust_cg_free_blocks cg1 1 = Some cg2" "write_cg_block img u ?c cg2 = Some img2"
    "adjust_superblock_free_blocks img2 u 1 = Some img'" and r: "r = Inr ()"
    using f lv read_cg_block_view [OF u c fits]
    by (auto simp: free_block_def Let_def sd live_def wbind_def wread_def wopt_def wmodify_def bind_eq_Some_conv
        split: option.splits)
  note mk = marked_cg [OF u l cgs_okD(2) [OF ok c] lv sd(3) j s(1,2)]
  note w = write_cg_block_view [OF u c mk(1) s(3)] and sp = adjust_superblock_same(1) [OF s(4)]
  have v: "cg_view u img' d = (if d = ?c then cg2 else cg_view u img d)" if "valid_cg u d" for d
    using cg_view_super [OF u that sp] w that by auto
  have "same_except (meta_byte u) img img2" by (rule same_except_mono [OF w(2)]) (rule cg_byte_meta [OF c])
  also have "same_except (meta_byte u) img2 img'" by (rule same_except_mono [OF sp]) (rule super_byte_meta)
  finally show ?thesis using r free_specI [OF u run ok lv mk(2,3,4) v mk(5)] by simp
qed

lemma free_frags_spec:
  assumes u: "layout_ok u" and b: "block_addr u b" and q: "request_ok u n" "n \<noteq> bsize (sb u)" and ok: "cgs_ok u img"
    and lv: "live (cg_view u img (b div fpg (sb u)))" and f: "free_allocation u b n img = Some (r, img')"
  shows "r = Inr () \<and> free_spec u b (n div fsize (sb u)) img img'"
proof -
  let ?c = "b div fpg (sb u)" and ?k = "n div fsize (sb u)"
  note rq = request_frags [OF u q(1)]
  have run: "data_run u b ?k" using b rq by (auto simp: block_addr_def intro: data_run_mono)
  then have c: "valid_cg u ?c" and j: "b mod fpg (sb u) + ?k \<le> fpg (sb u)" "0 \<le> ?k"
    by (auto simp: data_run_def)
  note sd = data_run_sdiv [OF u run] and fits = cgs_okD(1) [OF ok]
  note l = cg_view_length [OF fits c] and okc = cgs_okD(2) [OF ok c]
  have n0: "\<not> n \<le> 0" using q by (simp add: request_ok_def)
  note run_simps = free_allocation_def Let_def sd rq live_def wbind_def wread_def wopt_def wmodify_def wreturn_def
  have rd: "read_cg_block img u ?c = Some (cg_view u img ?c)" "u32 (cg_view u img ?c) 980 = Some UFS_CG_MAGIC"
    using read_cg_block_view [OF u c fits] lv by (auto simp: live_def)
  obtain cg1 where s: "set_frags (cg_view u img ?c) (b mod fpg (sb u)) ?k True = Some cg1"
    using f rd q(2) n0 by (cases "set_frags (cg_view u img ?c) (b mod fpg (sb u)) ?k True") (auto simp: run_simps)
  let ?all = "if frag (sb u) = 0 then None
    else all_frags_free cg1 (i64 (b mod fpg (sb u) - b mod fpg (sb u) smod frag (sb u))) (frag (sb u))"
  obtain whole where wh: "?all = Some whole" using f rd q(2) n0 s by (cases ?all) (auto simp: run_simps)
  obtain cg2 img2 where
    m: "if whole then adjust_cg_free_blocks cg1 1 = Some cg2 \<and> adjust_superblock_free_blocks img u 1 = Some img2
            else cg2 = cg1 \<and> img2 = img"
    and w: "write_cg_block img2 u ?c cg2 = Some img'" and r: "r = Inr ()"
    using f rd q(2) n0 s wh by (cases whole) (auto simp: run_simps split: option.splits if_splits)
  note sf = set_frags_cg [OF u l okc lv sd(3) j s] and sb' = set_frags_spec(3) [OF u l sd(3) j s]
  have cg2: "length cg2 = bs u" "cg_ok u cg2" "live cg2" "group_frags u ?c cg2 = group_frags u ?c (cg_view u img ?c)"
    "\<And>i. 0 \<le> i \<Longrightarrow> i < fpg (sb u) \<Longrightarrow> is_frag_free cg2 i =
      (if b mod fpg (sb u) \<le> i \<and> i < b mod fpg (sb u) + ?k then Some True else is_frag_free (cg_view u img ?c) i)"
    using m sf sb' marked_cg [OF u l okc lv sd(3) j s, of 1 cg2] by (cases whole; simp)+
  have sp: "same_except (super_byte u) img img2" using m adjust_superblock_same(1) by (cases whole) auto
  note wv = write_cg_block_view [OF u c cg2(1) w]
  have v: "cg_view u img' d = (if d = ?c then cg2 else cg_view u img d)" if "valid_cg u d" for d
    using cg_view_super [OF u that sp] wv that by auto
  have "same_except (meta_byte u) img img2" by (rule same_except_mono [OF sp]) (rule super_byte_meta)
  also have "same_except (meta_byte u) img2 img'" by (rule same_except_mono [OF wv(2)]) (rule cg_byte_meta [OF c])
  finally show ?thesis using r free_specI [OF u run ok lv cg2(3,2,4) v cg2(5)] by simp
qed

lemma free_allocation_spec:
  assumes u: "layout_ok u" and b: "block_addr u b" and q: "request_ok u n" and ok: "cgs_ok u img"
    and lv: "live (cg_view u img (b div fpg (sb u)))" and f: "free_allocation u b n img = Some (r, img')"
  shows "r = Inr () \<and> free_spec u b (n div fsize (sb u)) img img'"
proof (cases "n = bsize (sb u)")
  case True
  then have "free_block u b img = Some (r, img')"
    using f q by (simp add: free_allocation_def request_ok_def)
  then show ?thesis using free_block_spec [OF u b ok lv] request_frags(6) [OF u q True] by simp
qed (use free_frags_spec [OF u b q _ ok lv f] in simp)

lemma all_frags_free_total:
  assumes u: "layout_ok u" and l: "length cg = bs u" and b: "0 \<le> base" "base + n \<le> fpg (sb u)"
  shows "\<exists>r. all_frags_free cg base n = Some r"
proof -
  have fp: "fpg (sb u) < 2 ^ 62" using geometry_pos(7) [OF layout_facts(1) [OF u]] by simp
  have "\<exists>r. is_frag_free cg (i64 (base + off)) = Some r" if "off \<in> set [0..n - 1]" for off
  proof -
    have i: "0 \<le> base + off" "base + off < fpg (sb u)" using that b by auto
    then have "i64 (base + off) = base + off" using fp by (intro i64_id) (auto simp: in_i64_def)
    then show ?thesis using fmap.tst_total [OF frag_bit_inside [OF u l i]] by simp
  qed
  then obtain q where "\<And>off. off \<in> set [0..n - 1] \<Longrightarrow> is_frag_free cg (i64 (base + off)) = Some (q off)" by metis
  then show ?thesis
    using mall_Some_iff [of "[0..n - 1]" "\<lambda>off. is_frag_free cg (i64 (base + off))" q]
    unfolding all_frags_free_def by blast
qed

lemma free_allocation_total:
  assumes u: "layout_ok u" and b: "block_addr u b" and q: "request_ok u n" and ok: "cgs_ok u img"
  shows "free_allocation u b n img \<noteq> None"
proof -
  let ?c = "b div fpg (sb u)" and ?j = "b mod fpg (sb u)"
  have run: "data_run u b (frag (sb u))" and al: "frag (sb u) dvd ?j" using b by (auto simp: block_addr_def)
  then have c: "valid_cg u ?c" and j: "?j + frag (sb u) \<le> fpg (sb u)" by (auto simp: data_run_def)
  note sd = data_run_sdiv [OF u run] and fits = cgs_okD(1) [OF ok] and rq = request_frags [OF u q]
  note l = cg_view_length [OF fits c] and fr = geometry_frag [OF layout_facts(1) [OF u]]
  have n0: "\<not> n \<le> 0" using q by (simp add: request_ok_def)
  note rd = read_cg_block_view [OF u c fits]
  obtain m where m: "u32 (cg_view u img ?c) 980 = Some m"
    using u32_total [of 980 "cg_view u img ?c"] l layout_facts(5) [OF u] by auto
  have jm: "?j - ?j smod frag (sb u) = ?j" "i64 ?j = ?j"
    using al sd(3) fr j geometry_pos(7) [OF layout_facts(1) [OF u]] by (auto simp: smod_nonneg in_i64_def)
  have mark: "\<exists>cg1. set_frags (cg_view u img ?c) ?j k True = Some cg1 \<and> length cg1 = bs u" if "0 \<le> k" "k \<le> frag (sb u)" for k
    using set_frags_total [OF u l sd(3), of k True] set_frags_spec(1) [OF u l sd(3), of k True] that j l by fastforce
  have adj: "\<exists>cg2. adjust_cg_free_blocks cg1 1 = Some cg2 \<and> length cg2 = bs u" if "length cg1 = bs u" for cg1
    using that adjust_total [of 28 cg1 1] adjust_cg_spec(1) [of cg1 28 1] layout_facts(5) [OF u]
    by (fastforce simp: adjust_cg_free_blocks_def)
  have fin: "\<exists>img'. write_cg_block img1 u ?c cg = Some img' \<and> length img' = length img"
    if "length cg = bs u" "length img1 = length img" for cg img1
    using write_cg_block_total [OF u c _ that(1), of img1] write_cg_block_view(2) [OF u c that(1)] cg_fits_length [of img1 img u]
      fits that same_except_length by fastforce
  have sup: "\<exists>img'. adjust_superblock_free_blocks img1 u 1 = Some img' \<and> length img' = length img" if "length img1 = length img" for img1
    using adjust_superblock_total(1) [OF u, of img1 1] adjust_superblock_same(1) [of img1 u 1] cg_fits_length [of img1 img u]
      fits that same_except_length by fastforce
  note run_simps = Let_def sd wbind_def wread_def wopt_def wmodify_def wreturn_def wfail_def
  show ?thesis
  proof (cases "n = bsize (sb u)")
    case True
    obtain cg1 cg2 where s: "set_frags (cg_view u img ?c) ?j (frag (sb u)) True = Some cg1"
      "adjust_cg_free_blocks cg1 1 = Some cg2" "length cg2 = bs u"
      using mark [of "frag (sb u)"] adj fr by (metis order.refl order_trans zero_le_one)
    obtain img2 img3 where "write_cg_block img u ?c cg2 = Some img2" "adjust_superblock_free_blocks img2 u 1 = Some img3"
      using fin [OF s(3) refl] sup by blast
    then show ?thesis using rd m s(1,2) True n0 by (auto simp: free_allocation_def free_block_def run_simps)
  next
    case False
    obtain cg1 where s: "set_frags (cg_view u img ?c) ?j (n div fsize (sb u)) True = Some cg1" "length cg1 = bs u"
      using mark [of "n div fsize (sb u)"] rq by auto
    obtain w where w: "all_frags_free cg1 ?j (frag (sb u)) = Some w" using all_frags_free_total [OF u s(2) sd(3) j] by blast
    obtain cg2 img2 where a: "adjust_cg_free_blocks cg1 1 = Some cg2" "length cg2 = bs u"
      "adjust_superblock_free_blocks img u 1 = Some img2" "length img2 = length img" using adj [OF s(2)] sup [OF refl] by blast
    show ?thesis using rd m s(1) False n0 w a fin [OF s(2) refl] fin [OF a(2,4)] fr
      by (auto simp: free_allocation_def run_simps rq jm)
  qed
qed

section \<open>Properties of the allocator\<close>

text \<open>A blank image of the sample geometry, and the same image with group 0 initialised.\<close>

definition sample_ufs :: ufs where
  "sample_ufs = \<lparr> start_offset = 512, super_offset = 8704, sb = sample_sb \<rparr>"

definition sample_img :: image where
  "sample_img = replicate 131584 0"

definition sample_live :: image where
  "sample_live = (case read_allocatable_cg_block sample_ufs 0 sample_img of Some (_, img) \<Rightarrow> img | None \<Rightarrow> [])"

lemma sample_layout [simp]: "layout_ok sample_ufs"
  by (simp add: layout_ok_def start_ok_def sample_ufs_def)

lemma sample_ufs_fields [simp]: "sb sample_ufs = sample_sb" "start_offset sample_ufs = 512" "super_offset sample_ufs = 8704"
  by (simp_all add: sample_ufs_def)

lemma sample_groups: "valid_cg sample_ufs c \<longleftrightarrow> c = 0 \<or> c = 1"
  by (auto simp: valid_cg_def)

lemma sample_cgs_ok [simp]: "cgs_ok sample_ufs sample_img"
proof -
  have v: "cg_view sample_ufs sample_img c = replicate 8192 0" if "valid_cg sample_ufs c" for c
    using that by (auto simp: sample_groups cg_view_def sample_img_def cg_off_def fboff_def bs_def)
  have n: "\<not> live (replicate 8192 0)" by (simp add: live_def u32_def get_at_def)
  have "nat (64 * c + cg_data_frag_count sample_ufs c) \<le> 128" if "c = 0 \<or> c = 1" for c
    using that cg_data_frag_count_bounds [of sample_ufs c] by (auto simp: nat_le_iff)
  then show ?thesis
    using v n by (auto simp: cgs_ok_def cg_ok_def cg_fits_def cg_room_def group_frags_def fboff_def sample_groups
        sample_img_def cg_off_def bs_def)
qed

lemma sample_live_view: "pristine_cg_bytes sample_ufs 0 = Some (cg_view sample_ufs sample_live 0)"
proof -
  have v: "valid_cg sample_ufs 0" by (simp add: sample_groups)
  obtain img1 where r: "read_allocatable_cg_block sample_ufs 0 sample_img = Some (Inr (cg_view sample_ufs img1 0), img1)"
    using read_allocatable_total [OF sample_layout v sample_cgs_ok] by blast
  then have e: "sample_live = img1" by (simp add: sample_live_def)
  have z: "cg_view sample_ufs sample_img 0 = replicate 8192 0"
    by (simp add: cg_view_def sample_img_def cg_off_def fboff_def bs_def)
  have "looks_like_pristine_cg (replicate 8192 0)" by (simp add: looks_like_pristine_cg_def list_all_iff)
  moreover have "u32 (replicate 8192 0) 980 = Some 0" by (simp add: u32_def get_at_def)
  ultimately show ?thesis
    using r read_cg_block_view [OF sample_layout v cgs_okD(1) [OF sample_cgs_ok]] z
    by (auto simp: e read_allocatable_cg_block_def initialize_pristine_cg_def wbind_def wread_def wopt_def wmodify_def
        wreturn_def split: option.splits)
qed

lemma sample_live_ok: "cgs_ok sample_ufs sample_live" "live (cg_view sample_ufs sample_live 0)"
proof -
  have v: "valid_cg sample_ufs 0" by (simp add: sample_groups)
  obtain img1 where r: "read_allocatable_cg_block sample_ufs 0 sample_img = Some (Inr (cg_view sample_ufs img1 0), img1)"
    using read_allocatable_total [OF sample_layout v sample_cgs_ok] by blast
  then show "cgs_ok sample_ufs sample_live"
    using read_allocatable_spec(2) [OF sample_layout v sample_cgs_ok r] by (simp add: sample_live_def)
  show "live (cg_view sample_ufs sample_live 0)" by (rule pristine_cg_bytes_ok(2) [OF sample_layout v sample_live_view])
qed

text \<open>C3: Allocation is total and correct. On a well-formed filesystem a request for a whole number of
  fragments never panics. It returns an aligned block address in the data area of a group whose fragments
  were not busy before and are busy afterwards, keeps every other busy fragment busy, zeroes exactly the
  allocated bytes and changes nothing else but metadata; or it reports that no space is left, having at
  most initialised pristine descriptors.\<close>

theorem allocate_allocation_correct:
  assumes "layout_ok u" "request_ok u n" "0 \<le> ino" "ino < 2 ^ 62" "cgs_ok u img"
  shows "\<exists>r img'. allocate_allocation u ino n img = Some (r, img') \<and>
    (case r of
       Inr b \<Rightarrow> block_addr u b \<and> cgs_ok u img'
         \<and> (\<forall>x. b \<le> x \<and> x < b + n div fsize (sb u) \<longrightarrow> \<not> busy u img x \<and> busy u img' x)
         \<and> (\<forall>x. valid_cg u (x div fpg (sb u)) \<longrightarrow> busy u img x \<longrightarrow> busy u img' x)
         \<and> same_except (\<lambda>k. meta_byte u k \<or> (fboff u b \<le> k \<and> k < fboff u b + nat n)) img img'
         \<and> subslice img' (fboff u b) (fboff u b + nat n) = Some (replicate (nat n) 0)
     | Inl e \<Rightarrow> e = (if n = bsize (sb u) then NoFreeBlocks else NoFreeFragments) \<and> cgs_ok u img'
         \<and> same_except (meta_byte u) img img'
         \<and> (\<forall>x. valid_cg u (x div fpg (sb u)) \<longrightarrow> busy u img x \<longrightarrow> busy u img' x))"
proof -
  obtain r img' where a: "allocate_allocation u ino n img = Some (r, img')"
    using allocate_allocation_total [OF assms] by auto
  then show ?thesis
    using allocate_allocation_spec [OF assms]
    by (cases r) (auto simp: alloc_spec_def alloc_skip_def)
qed

theorem allocate_allocation_correct_witness:
  "\<exists>r img'. allocate_allocation sample_ufs 2 3072 sample_img = Some (r, img') \<and> cgs_ok sample_ufs img'"
proof -
  obtain r img' where "allocate_allocation sample_ufs 2 3072 sample_img = Some (r, img')"
    "case r of Inr b \<Rightarrow> cgs_ok sample_ufs img' | Inl e \<Rightarrow> cgs_ok sample_ufs img'"
    using allocate_allocation_correct [of sample_ufs 3072 2 sample_img]
    by (elim meta_impE exE conjE) (auto simp: request_ok_def split: sum.split_asm)
  then show ?thesis by (cases r) auto
qed

text \<open>C8: Release is total and exact. Freeing an allocation in an initialised group never panics and
  succeeds; afterwards exactly the fragments of the allocation have stopped being busy, and only metadata
  has changed.\<close>

theorem free_allocation_correct:
  assumes "layout_ok u" "block_addr u b" "request_ok u n" "cgs_ok u img" "live (cg_view u img (b div fpg (sb u)))"
  shows "\<exists>img'. free_allocation u b n img = Some (Inr (), img') \<and> cgs_ok u img'
    \<and> same_except (meta_byte u) img img'
    \<and> (\<forall>x. valid_cg u (x div fpg (sb u)) \<longrightarrow>
         (busy u img' x \<longleftrightarrow> busy u img x \<and> \<not> (b \<le> x \<and> x < b + n div fsize (sb u))))"
proof -
  obtain r img' where f: "free_allocation u b n img = Some (r, img')"
    using free_allocation_total [OF assms(1-4)] by auto
  then show ?thesis using free_allocation_spec [OF assms f] by (auto simp: free_spec_def)
qed

theorem free_allocation_correct_witness:
  "\<exists>img'. free_allocation sample_ufs 40 8192 sample_live = Some (Inr (), img') \<and> cgs_ok sample_ufs img'
    \<and> \<not> busy sample_ufs img' 47"
proof -
  have "block_addr sample_ufs 40" by (simp add: block_addr_def data_run_def sample_groups)
  then obtain img' where f: "free_allocation sample_ufs 40 8192 sample_live = Some (Inr (), img')" "cgs_ok sample_ufs img'"
    and b: "\<And>x. valid_cg sample_ufs (x div 64) \<Longrightarrow> busy sample_ufs img' x \<longleftrightarrow>
         busy sample_ufs sample_live x \<and> \<not> (40 \<le> x \<and> x < 40 + 8192 div 1024)"
    using free_allocation_correct [of sample_ufs 40 8192 sample_live] sample_live_ok by (auto simp: request_ok_def)
  show ?thesis using f b [of 47] by (auto simp: sample_groups)
qed

end
