(* ===== verification/Ownership.thy ===== *)
theory Ownership
  imports Alloc_Correct
begin

text \<open>
  The interface between the allocator and its clients. A client owns a set of data fragments: they are
  busy, so no later allocation returns them, and what it wrote there stays until it writes there again.
  The interface is the locale \<open>allocator\<close>; its client lemma describes a whole sequence of allocations,
  and the interpretation discharges the laws for \<open>allocate_allocation\<close>.
\<close>

section \<open>Fragments and the inode tables\<close>

definition in_frag :: "ufs \<Rightarrow> int \<Rightarrow> nat \<Rightarrow> bool" where
  "in_frag u x k \<longleftrightarrow> fboff u x \<le> k \<and> k < fboff u x + nat (fsize (sb u))"

definition ino_byte :: "ufs \<Rightarrow> nat \<Rightarrow> bool" where
  "ino_byte u k \<longleftrightarrow> (\<exists>c. valid_cg u c \<and> fboff u (fpg (sb u) * c + iblkno (sb u)) \<le> k
     \<and> k < fboff u (fpg (sb u) * c + dblkno (sb u)))"

text \<open>The fragments of a run of \<open>n\<close> starting at \<open>b\<close>.\<close>

definition run :: "int \<Rightarrow> int \<Rightarrow> int set" where
  "run b n = {x. b \<le> x \<and> x < b + n}"

lemma data_run_member:
  assumes u: "layout_ok u" and r: "data_run u b n" and x: "x \<in> run b n"
  shows "data_run u x 1"
proof -
  have r': "valid_cg u (b div fpg (sb u))" "dblkno (sb u) \<le> b mod fpg (sb u)" "b mod fpg (sb u) + n \<le> fpg (sb u)"
    using r by (auto simp: data_run_def)
  then show ?thesis
    using run_member [OF u r', of x] x by (auto simp: data_run_def run_def)
qed

lemma in_frag_unique:
  assumes u: "layout_ok u" and x: "data_run u x 1" "data_run u y 1" and k: "in_frag u x k" "in_frag u y k"
  shows "x = y"
proof (rule ccontr)
  assume "x \<noteq> y"
  then have "x + 1 \<le> y \<or> y + 1 \<le> x" by linarith
  then have "fboff u x + nat 1 * nat (fsize (sb u)) \<le> fboff u y \<or> fboff u y + nat 1 * nat (fsize (sb u)) \<le> fboff u x"
    using data_run_bounds(1) [OF u x(1)] data_run_bounds(1) [OF u x(2)]
      fboff_mono [OF u, of x 1 y] fboff_mono [OF u, of y 1 x] by fastforce
  then show False using k by (auto simp: in_frag_def)
qed

lemma in_frag_not_meta: "layout_ok u \<Longrightarrow> data_run u x 1 \<Longrightarrow> in_frag u x k \<Longrightarrow> \<not> meta_byte u k"
  using data_run_not_meta [of u x 1 k] by (simp add: in_frag_def)

text \<open>The bytes of a run, fragment by fragment.\<close>

lemma run_byte:
  assumes u: "layout_ok u" and r: "data_run u b n" and k: "fboff u b \<le> k" "k < fboff u b + nat n * nat (fsize (sb u))"
  shows "\<exists>x \<in> run b n. in_frag u x k"
proof -
  let ?f = "nat (fsize (sb u))" and ?d = "k - fboff u b"
  have f: "0 < ?f" using geometry_fsize [OF layout_facts(1) [OF u]] by auto
  have q: "?d div ?f < nat n" using k f by (simp add: less_mult_imp_div_less)
  have b0: "0 \<le> b" using data_run_bounds(1) [OF u r] .
  have e: "fboff u (b + int (?d div ?f)) = fboff u b + ?d div ?f * ?f"
    using b0 by (simp add: fboff_def nat_add_distrib algebra_simps)
  have "?d div ?f * ?f \<le> ?d" "?d < ?f + ?d div ?f * ?f" using dividend_less_div_times [OF f, of ?d] by (auto simp: mult.commute)
  then have "in_frag u (b + int (?d div ?f)) k" unfolding in_frag_def e using k(1) by linarith
  moreover have "b + int (?d div ?f) \<in> run b n" using q by (auto simp: run_def)
  ultimately show ?thesis by blast
qed

lemma ino_byte_not_meta:
  assumes u: "layout_ok u" and k: "ino_byte u k"
  shows "\<not> meta_byte u k"
proof -
  note g = layout_facts(1) [OF u]
  note lo = layout_order [OF g] and p = geometry_pos [OF g] and fr = geometry_frag [OF g] and fp = geometry_facts(17) [OF g]
  obtain c where c: "valid_cg u c" "fboff u (fpg (sb u) * c + iblkno (sb u)) \<le> k" "k < fboff u (fpg (sb u) * c + dblkno (sb u))"
    using k by (auto simp: ino_byte_def)
  have c0: "0 \<le> fpg (sb u) * c" using c(1) fp by (simp add: valid_cg_def)
  have up: "cg_off u d + bs u \<le> fboff u (fpg (sb u) * c + iblkno (sb u))" if d: "valid_cg u d" "d \<le> c" for d
  proof -
    have "fpg (sb u) * d \<le> fpg (sb u) * c" "0 \<le> fpg (sb u) * d" using d fp by (auto simp: valid_cg_def)
    then show ?thesis unfolding cg_off_def bs_frags [OF u] using lo fr p by (intro fboff_mono [OF u]) linarith+
  qed
  have lw: "fboff u (fpg (sb u) * c + dblkno (sb u)) \<le> cg_off u d" if d: "valid_cg u d" "c < d" for d
  proof -
    have "fpg (sb u) * c + dblkno (sb u) + 0 \<le> fpg (sb u) * d + cblkno (sb u)"
      using group_step [OF fp d(2)] lo p by linarith
    then show ?thesis using fboff_mono [OF u, of _ 0] c0 p unfolding cg_off_def by fastforce
  qed
  have "\<not> (cg_off u d \<le> k \<and> k < cg_off u d + bs u)" if "valid_cg u d" for d
    using up [OF that] lw [OF that] c(2,3) by (cases "d \<le> c") auto
  moreover have "super_offset u + 8192 \<le> k"
    using cg_off_above_super [OF u c(1)] up [OF c(1) order.refl] c(2) by linarith
  ultimately show ?thesis by (auto simp: meta_byte_def)
qed

lemma ino_byte_not_frag:
  assumes u: "layout_ok u" and k: "ino_byte u k" and x: "data_run u x 1"
  shows "\<not> in_frag u x k"
proof -
  note g = layout_facts(1) [OF u]
  note lo = layout_order [OF g] and p = geometry_pos [OF g] and fr = geometry_frag [OF g] and fp = geometry_facts(17) [OF g]
  obtain c where c: "valid_cg u c" "fboff u (fpg (sb u) * c + iblkno (sb u)) \<le> k" "k < fboff u (fpg (sb u) * c + dblkno (sb u))"
    using k by (auto simp: ino_byte_def)
  have c0: "0 \<le> fpg (sb u) * c" using c(1) fp by (simp add: valid_cg_def)
  note b = data_run_bounds [OF u x]
  let ?d = "x div fpg (sb u)"
  have j: "dblkno (sb u) \<le> x mod fpg (sb u)" "x mod fpg (sb u) + 1 \<le> fpg (sb u)" using x by (auto simp: data_run_def)
  show ?thesis
  proof (cases "c \<le> ?d")
    case True
    then have "fpg (sb u) * c \<le> fpg (sb u) * ?d" using fp by simp
    then have "fpg (sb u) * c + dblkno (sb u) + 0 \<le> x" using j b(3) by linarith
    then have "fboff u (fpg (sb u) * c + dblkno (sb u)) \<le> fboff u x"
      using fboff_mono [OF u, of _ 0] c0 p by fastforce
    then show ?thesis using c(3) by (auto simp: in_frag_def)
  next
    case False
    then have "x + 1 \<le> fpg (sb u) * c + iblkno (sb u)"
      using group_step [OF fp, of ?d c] j b(3) p by linarith
    then have "fboff u x + nat 1 * nat (fsize (sb u)) \<le> fboff u (fpg (sb u) * c + iblkno (sb u))"
      using b(1) by (intro fboff_mono [OF u]) auto
    then show ?thesis using c(2) by (auto simp: in_frag_def)
  qed
qed

section \<open>Ownership and stability\<close>

definition own :: "ufs \<Rightarrow> int set \<Rightarrow> image \<Rightarrow> bool" where
  "own u A img \<longleftrightarrow> cgs_ok u img
     \<and> (\<forall>x \<in> A. data_run u x 1 \<and> busy u img x \<and> fboff u x + nat (fsize (sb u)) \<le> length img)"

text \<open>The inode tables and the fragments of \<open>A\<close> have not changed.\<close>

definition stable :: "ufs \<Rightarrow> int set \<Rightarrow> image \<Rightarrow> image \<Rightarrow> bool" where
  "stable u A img img' \<longleftrightarrow> length img' = length img
     \<and> (\<forall>k. ino_byte u k \<or> (\<exists>x \<in> A. in_frag u x k) \<longrightarrow> img' ! k = img ! k)"

lemma stable_refl [simp]: "stable u A img img"
  by (simp add: stable_def)

lemma stable_trans [trans]: "stable u A a b \<Longrightarrow> stable u A b c \<Longrightarrow> stable u A a c"
  by (auto simp: stable_def)

lemma stable_mono: "stable u A a b \<Longrightarrow> B \<subseteq> A \<Longrightarrow> stable u B a b"
  by (auto simp: stable_def)

lemma stable_length: "stable u A a b \<Longrightarrow> length b = length a"
  by (simp add: stable_def)

text \<open>The fragments of \<open>A\<close> alone have not changed.\<close>

definition same_frags :: "ufs \<Rightarrow> int set \<Rightarrow> image \<Rightarrow> image \<Rightarrow> bool" where
  "same_frags u A img img' \<longleftrightarrow> length img' = length img \<and> (\<forall>k. (\<exists>x \<in> A. in_frag u x k) \<longrightarrow> img' ! k = img ! k)"

lemma same_frags_refl [simp]: "same_frags u A img img"
  by (simp add: same_frags_def)

lemma same_frags_trans [trans]: "same_frags u A a b \<Longrightarrow> same_frags u A b c \<Longrightarrow> same_frags u A a c"
  by (auto simp: same_frags_def)

lemma same_frags_mono: "same_frags u A a b \<Longrightarrow> B \<subseteq> A \<Longrightarrow> same_frags u B a b"
  by (auto simp: same_frags_def)

lemma stable_same_frags: "stable u A a b \<Longrightarrow> B \<subseteq> A \<Longrightarrow> same_frags u B a b"
  by (auto simp: stable_def same_frags_def)

lemma own_mono: "own u A img \<Longrightarrow> B \<subseteq> A \<Longrightarrow> own u B img"
  by (auto simp: own_def)

lemma data_run_valid: "data_run u x n \<Longrightarrow> valid_cg u (x div fpg (sb u))"
  by (simp add: data_run_def)

text \<open>An allocation leaves what is owned untouched and adds a disjoint run.\<close>

lemma alloc_spec_own:
  assumes u: "layout_ok u" and o: "own u A img" and n: "0 < n" "n \<le> frag (sb u)" "nb = nat n * nat (fsize (sb u))"
    and a: "alloc_spec u n nb img b img'"
  shows "own u (A \<union> run b n) img'" "A \<inter> run b n = {}" "stable u A img img'"
proof -
  have ba: "data_run u b (frag (sb u))" using a by (simp add: alloc_spec_def block_addr_def)
  then have rn: "data_run u b n" using n by (intro data_run_mono [OF ba]) auto
  have A: "data_run u x 1" "busy u img x" if "x \<in> A" for x using o that by (auto simp: own_def)
  have len: "length img' = length img" "fboff u b + nb \<le> length img'"
    using a by (auto simp: alloc_spec_def same_except_def subslice_def split: if_splits)
  have inside: "fboff u x + nat (fsize (sb u)) \<le> length img'" if x: "x \<in> run b n" for x
  proof -
    have "fboff u x + nat 1 * nat (fsize (sb u)) \<le> fboff u (b + n)"
      using x data_run_bounds(1) [OF u data_run_member [OF u rn x]] by (intro fboff_mono [OF u]) (auto simp: run_def)
    also have "fboff u (b + n) = fboff u b + nb"
      using data_run_bounds(1) [OF u rn] n by (simp add: fboff_def nat_add_distrib algebra_simps)
    finally show ?thesis using len(2) by simp
  qed
  have new: "data_run u x 1 \<and> busy u img' x" if "x \<in> run b n" for x
    using a data_run_member [OF u rn that] that by (auto simp: alloc_spec_def run_def)
  have old: "data_run u x 1 \<and> busy u img' x \<and> fboff u x + nat (fsize (sb u)) \<le> length img'" if "x \<in> A" for x
    using a o that data_run_valid [of u x 1] len(1) by (auto simp: alloc_spec_def own_def)
  show "own u (A \<union> run b n) img'"
    using a new old inside by (auto simp: own_def alloc_spec_def)
  show d: "A \<inter> run b n = {}" using a A by (auto simp: alloc_spec_def run_def)
  have s: "same_except (\<lambda>k. meta_byte u k \<or> (fboff u b \<le> k \<and> k < fboff u b + nb)) img img'"
    using a by (simp add: alloc_spec_def)
  have "img' ! k = img ! k" if k: "ino_byte u k \<or> (\<exists>x \<in> A. in_frag u x k)" for k
  proof (rule same_except_nth [OF s], safe)
    assume "meta_byte u k"
    then show False using k ino_byte_not_meta [OF u] in_frag_not_meta [OF u] A by blast
  next
    assume "fboff u b \<le> k" "k < fboff u b + nb"
    then obtain y where y: "y \<in> run b n" "in_frag u y k" using run_byte [OF u rn, of k] n(3) by auto
    have dy: "data_run u y 1" using data_run_member [OF u rn y(1)] .
    show False
      using k ino_byte_not_frag [OF u _ dy] in_frag_unique [OF u _ dy _ y(2)] y d A by blast
  qed
  then show "stable u A img img'" using same_except_length [OF s] by (simp add: stable_def)
qed

lemma alloc_skip_own:
  assumes u: "layout_ok u" and o: "own u A img" and a: "alloc_skip u img img'"
  shows "own u A img'" "stable u A img img'"
proof -
  have s: "same_except (meta_byte u) img img'" using a by (simp add: alloc_skip_def)
  show "own u A img'"
    using o a same_except_length [OF s] data_run_valid by (fastforce simp: own_def alloc_skip_def)
  have "img' ! k = img ! k" if k: "ino_byte u k \<or> (\<exists>x \<in> A. in_frag u x k)" for k
    using same_except_nth [OF s] k ino_byte_not_meta [OF u] in_frag_not_meta [OF u] o unfolding own_def by blast
  then show "stable u A img img'" using same_except_length [OF s] by (simp add: stable_def)
qed

text \<open>A client's write inside a run it owns.\<close>

lemma run_write:
  assumes u: "layout_ok u" and o: "own u (A \<union> run b n) img" "A \<inter> run b n = {}" and r: "data_run u b n"
    and s: "same_except (\<lambda>k. fboff u b \<le> k \<and> k < fboff u b + nat n * nat (fsize (sb u))) img img'"
  shows "own u (A \<union> run b n) img'" "stable u A img img'"
proof -
  let ?R = "\<lambda>k. fboff u b \<le> k \<and> k < fboff u b + nat n * nat (fsize (sb u))"
  have nm: "\<not> meta_byte u k" if "?R k" for k using data_run_not_meta [OF u r] that by blast
  show "own u (A \<union> run b n) img'"
    using o(1) not_meta_keeps [OF s nm] data_run_valid same_except_length [OF s] by (fastforce simp: own_def)
  have "img' ! k = img ! k" if k: "ino_byte u k \<or> (\<exists>x \<in> A. in_frag u x k)" for k
  proof (rule same_except_nth [OF s], safe)
    assume "fboff u b \<le> k" "k < fboff u b + nat n * nat (fsize (sb u))"
    then obtain y where y: "y \<in> run b n" "in_frag u y k" using run_byte [OF u r] by auto
    have dy: "data_run u y 1" using data_run_member [OF u r y(1)] .
    show False
      using k ino_byte_not_frag [OF u _ dy] in_frag_unique [OF u _ dy _ y(2)] y o unfolding own_def by blast
  qed
  then show "stable u A img img'" using same_except_length [OF s] by (simp add: stable_def)
qed

text \<open>Bytes of a run are stable when its fragments are.\<close>

lemma same_frags_subslice:
  assumes u: "layout_ok u" and s: "same_frags u A img img'" and r: "data_run u b n" "run b n \<subseteq> A"
    and i: "fboff u b \<le> i" "j \<le> fboff u b + nat n * nat (fsize (sb u))"
  shows "subslice img' i j = subslice img i j"
proof (rule subslice_eqI)
  show "length img' = length img" using s by (simp add: same_frags_def)
  fix k assume k: "i \<le> k" "k < j"
  then obtain y where "y \<in> run b n" "in_frag u y k" using run_byte [OF u r(1), of k] i by auto
  then show "img' ! k = img ! k" using s r(2) by (auto simp: same_frags_def)
qed

lemma own_run_fits:
  assumes u: "layout_ok u" and o: "own u A img" "run b n \<subseteq> A" "0 < n" and r: "data_run u b n"
  shows "fboff u b + nat n * nat (fsize (sb u)) \<le> length img"
proof -
  have "b + n - 1 \<in> A" using o(2,3) by (auto simp: run_def)
  then have "fboff u (b + n - 1) + nat (fsize (sb u)) \<le> length img" using o(1) by (auto simp: own_def)
  moreover have "fboff u (b + n - 1) + nat (fsize (sb u)) = fboff u b + nat n * nat (fsize (sb u))"
  proof -
    have "nat (b + n - 1) + 1 = nat b + nat n" using data_run_bounds(1) [OF u r] o(3) by (simp add: nat_add_distrib [symmetric] nat_eq_iff)
    then have "(nat (b + n - 1) + 1) * nat (fsize (sb u)) = (nat b + nat n) * nat (fsize (sb u))" by simp
    then show ?thesis by (simp add: fboff_def algebra_simps)
  qed
  ultimately show ?thesis by simp
qed

section \<open>The allocator interface\<close>

locale allocator =
  fixes alloc :: "'q \<Rightarrow> ('s, 'e, 'b) wm"
    and owns :: "'f set \<Rightarrow> 's \<Rightarrow> bool"
    and keep :: "'f set \<Rightarrow> 's \<Rightarrow> 's \<Rightarrow> bool"
    and cells :: "'b \<Rightarrow> 'q \<Rightarrow> 'f set"
    and good :: "'q \<Rightarrow> bool"
    and addr :: "'b \<Rightarrow> bool"
    and errs :: "'e set"
  assumes alloc_ok: "owns A s \<Longrightarrow> good q \<Longrightarrow> alloc q s = Some (Inr b, s') \<Longrightarrow>
      owns (A \<union> cells b q) s' \<and> A \<inter> cells b q = {} \<and> keep A s s' \<and> addr b"
    and alloc_err: "owns A s \<Longrightarrow> good q \<Longrightarrow> alloc q s = Some (Inl e, s') \<Longrightarrow> owns A s' \<and> keep A s s' \<and> e \<in> errs"
    and alloc_total: "owns A s \<Longrightarrow> good q \<Longrightarrow> alloc q s \<noteq> None"
    and keep_refl: "keep A s s"
    and keep_trans: "keep A s t \<Longrightarrow> keep A t v \<Longrightarrow> keep A s v"
    and keep_mono: "keep A s t \<Longrightarrow> B \<subseteq> A \<Longrightarrow> keep B s t"
    and owns_mono: "owns A s \<Longrightarrow> B \<subseteq> A \<Longrightarrow> owns B s"
begin

text \<open>What a list of requests gave: all the cells of all the blocks.\<close>

definition all_cells :: "'b list \<Rightarrow> 'q list \<Rightarrow> 'f set" where
  "all_cells blks qs = (\<Union>(b, q) \<in> set (zip blks qs). cells b q)"

fun apart :: "'b list \<Rightarrow> 'q list \<Rightarrow> bool" where
  "apart (b # blks) (q # qs) \<longleftrightarrow> cells b q \<inter> all_cells blks qs = {} \<and> apart blks qs"
| "apart _ _ \<longleftrightarrow> True"

lemma all_cells_simps [simp]: "all_cells [] qs = {}" "all_cells (b # blks) (q # qs) = cells b q \<union> all_cells blks qs"
  by (auto simp: all_cells_def)

lemma allocs_ok:
  assumes "wmapM alloc qs s = Some (Inr blks, s')" "owns A s" "\<And>q. q \<in> set qs \<Longrightarrow> good q"
  shows "owns (A \<union> all_cells blks qs) s' \<and> A \<inter> all_cells blks qs = {} \<and> apart blks qs \<and> keep A s s'
    \<and> length blks = length qs \<and> (\<forall>b \<in> set blks. addr b)"
  using assms
proof (induction qs arbitrary: A s blks)
  case Nil
  then show ?case using keep_refl by (simp add: wm_simps)
next
  case (Cons q qs)
  then obtain b s1 blks' where b: "alloc q s = Some (Inr b, s1)" "wmapM alloc qs s1 = Some (Inr blks', s')" "blks = b # blks'"
    by (auto simp: wm_simps)
  have a: "owns (A \<union> cells b q) s1" "A \<inter> cells b q = {}" "keep A s s1" "addr b"
    using alloc_ok [OF Cons.prems(2) _ b(1)] Cons.prems(3) by auto
  have "owns ((A \<union> cells b q) \<union> all_cells blks' qs) s' \<and> (A \<union> cells b q) \<inter> all_cells blks' qs = {} \<and> apart blks' qs
      \<and> keep (A \<union> cells b q) s1 s' \<and> length blks' = length qs \<and> (\<forall>b \<in> set blks'. addr b)"
    using Cons.IH [OF b(2) a(1)] Cons.prems(3) by simp
  then show ?case
    using a b(3) keep_mono [of "A \<union> cells b q" s1 s' A] keep_trans [OF a(3)] by (auto simp: Un_assoc Int_Un_distrib2)
qed

lemma allocs_err:
  assumes "wmapM alloc qs s = Some (Inl e, s')" "owns A s" "\<And>q. q \<in> set qs \<Longrightarrow> good q"
  shows "owns A s' \<and> keep A s s' \<and> e \<in> errs"
  using assms
proof (induction qs arbitrary: s)
  case (Cons q qs)
  from Cons.prems(1) consider "alloc q s = Some (Inl e, s')"
    | b s1 where "alloc q s = Some (Inr b, s1)" "wmapM alloc qs s1 = Some (Inl e, s')"
    by (auto simp: wbind_Inl_iff wm_simps)
  then show ?case
  proof cases
    case 1
    have "good q" using Cons.prems(3) by simp
    then show ?thesis using alloc_err [OF Cons.prems(2) _ 1] by blast
  next
    case 2
    then have a: "owns (A \<union> cells b q) s1" "keep A s s1" using alloc_ok [OF Cons.prems(2)] Cons.prems(3) by auto
    have "owns A s' \<and> keep A s1 s' \<and> e \<in> errs" using Cons.IH [OF 2(2) owns_mono [OF a(1)]] Cons.prems(3) by simp
    then show ?thesis using keep_trans [OF a(2)] by blast
  qed
qed (simp add: wm_simps)

lemma allocs_total:
  assumes "owns A s" "\<And>q. q \<in> set qs \<Longrightarrow> good q"
  shows "wmapM alloc qs s \<noteq> None"
  using assms
proof (induction qs arbitrary: A s)
  case (Cons q qs)
  obtain r s1 where r: "alloc q s = Some (r, s1)" using alloc_total [OF Cons.prems(1)] Cons.prems(2) by fastforce
  show ?case
  proof (cases r)
    case (Inr b)
    have "owns (A \<union> cells b q) s1" using alloc_ok [OF Cons.prems(1)] Cons.prems(2) r Inr by auto
    then have "wmapM alloc qs s1 \<noteq> None" using Cons.IH Cons.prems(2) by auto
    then show ?thesis using r Inr by (auto simp: wbind_def wreturn_def split: option.splits sum.splits)
  qed (use r in \<open>simp add: wbind_def\<close>)
qed (simp add: wreturn_def)

end

text \<open>The errors of a full filesystem.\<close>

definition space_errors :: "werror set" where
  "space_errors = {NoFreeBlocks, NoFreeFragments}"

definition owned :: "ufs \<Rightarrow> int \<Rightarrow> int set \<Rightarrow> image \<Rightarrow> bool" where
  "owned u ino A img \<longleftrightarrow> layout_ok u \<and> 0 \<le> ino \<and> ino < 2 ^ 62 \<and> own u A img"

lemma allocate_owned:
  assumes o: "owned u ino A img" and q: "request_ok u n"
  shows "allocate_allocation u ino n img = Some (Inr b, img') \<Longrightarrow>
      owned u ino (A \<union> run b (n div fsize (sb u))) img' \<and> A \<inter> run b (n div fsize (sb u)) = {}
      \<and> stable u A img img' \<and> block_addr u b"
    "allocate_allocation u ino n img = Some (Inl e, img') \<Longrightarrow> owned u ino A img' \<and> stable u A img img' \<and> e \<in> space_errors"
    "allocate_allocation u ino n img \<noteq> None"
proof -
  have u: "layout_ok u" and i: "0 \<le> ino" "ino < 2 ^ 62" and ow: "own u A img" and ok: "cgs_ok u img"
    using o by (auto simp: owned_def own_def)
  note rq = request_frags [OF u q] and sp = allocate_allocation_spec [OF u q i ok]
  show "owned u ino (A \<union> run b (n div fsize (sb u))) img' \<and> A \<inter> run b (n div fsize (sb u)) = {}
      \<and> stable u A img img' \<and> block_addr u b" if "allocate_allocation u ino n img = Some (Inr b, img')"
    using alloc_spec_own [OF u ow rq(1,2) _ sp(1) [OF that]] rq(3) u i sp(1) [OF that]
    by (simp add: owned_def alloc_spec_def)
  show "owned u ino A img' \<and> stable u A img img' \<and> e \<in> space_errors" if "allocate_allocation u ino n img = Some (Inl e, img')"
    using alloc_skip_own [OF u ow] sp(2) [OF that] u i by (auto simp: owned_def space_errors_def)
  show "allocate_allocation u ino n img \<noteq> None" by (rule allocate_allocation_total [OF u q i ok])
qed

interpretation al: allocator "allocate_allocation u ino" "owned u ino" "stable u"
    "\<lambda>b n. run b (n div fsize (sb u))" "request_ok u" "block_addr u" space_errors for u ino
  by unfold_locales
    (blast dest: allocate_owned intro: stable_trans stable_mono stable_refl
      | simp add: owned_def, blast intro: own_mono)+

end
