(* ===== verification/Inode_Correct.thy ===== *)
theory Inode_Correct
  imports Inode_Write Ownership
begin

text \<open>
  Correctness of the inode layer: block lists with a limit are prefixes of the full list, pointer trees
  are read back as they were built, and the contents written to an inode are the contents read from it.
\<close>

section \<open>Block lists with a limit\<close>

lemma collect_loop_unlimited:
  assumes "\<And>p. p \<in> set ps \<Longrightarrow> p \<noteq> 0 \<Longrightarrow> child p None = Some (f p)"
  shows "collect_loop child None acc ps = Some (acc @ concat (map f (filter (\<lambda>p. p \<noteq> 0) ps)))"
  using assms by (induction ps arbitrary: acc) auto

lemma collect_loop_children:
  assumes "collect_loop child None acc ps = Some xs"
  shows "\<exists>f. \<forall>p \<in> set ps. p \<noteq> 0 \<longrightarrow> child p None = Some (f p)"
proof -
  have "\<forall>p \<in> set ps. p \<noteq> 0 \<longrightarrow> (\<exists>y. child p None = Some y)"
    using assms by (induction ps arbitrary: acc) (auto simp: bind_eq_Some_conv split: if_splits)
  then show ?thesis by metis
qed

lemma collect_loop_limited:
  assumes "\<And>p k. p \<in> set ps \<Longrightarrow> p \<noteq> 0 \<Longrightarrow> 0 < k \<Longrightarrow> child p (Some k) = Some (take k (f p))" "length acc < m"
  shows "collect_loop child (Some m) acc ps = Some (take m (acc @ concat (map f (filter (\<lambda>p. p \<noteq> 0) ps))))"
  using assms
proof (induction ps arbitrary: acc)
  case (Cons p ps)
  show ?case
  proof (cases "p = 0")
    case False
    have c: "child p (Some (m - length acc)) = Some (take (m - length acc) (f p))" using Cons.prems False by auto
    show ?thesis
    proof (cases "length acc + length (f p) < m")
      case True
      then have "collect_loop child (Some m) (acc @ f p) ps
          = Some (take m ((acc @ f p) @ concat (map f (filter (\<lambda>p. p \<noteq> 0) ps))))"
        using Cons.prems by (intro Cons.IH) auto
      then show ?thesis using False c True by simp
    next
      case le: False
      then show ?thesis using False c Cons.prems(2) by (simp add: Let_def)
    qed
  qed (use Cons in simp)
qed simp

text \<open>A limited collection is a prefix of the full one.\<close>

lemma collect_take:
  assumes "collect_indirect_data_blocks img u (Suc l) b None = Some xs"
  shows "collect_indirect_data_blocks img u (Suc l) b (Some m) = Some (take m xs)"
  using assms
proof (induction l arbitrary: b xs m)
  case 0
  show ?case
  proof (cases "b = 0 \<or> m = 0")
    case False
    then obtain ps where ps: "read_pointer_block img u b = Some ps" using 0 by (auto simp: bind_eq_Some_conv)
    then have "xs = concat (map (\<lambda>p. [p]) (filter (\<lambda>p. p \<noteq> 0) ps))"
      using 0 False by (simp add: collect_loop_unlimited [where f = "\<lambda>p. [p]"])
    then show ?thesis using False ps by (simp add: collect_loop_limited [where f = "\<lambda>p. [p]"])
  qed (use 0 in auto)
next
  case (Suc l)
  let ?child = "collect_indirect_data_blocks img u (Suc l)"
  show ?case
  proof (cases "b = 0 \<or> m = 0")
    case False
    then obtain ps where ps: "read_pointer_block img u b = Some ps" "collect_loop ?child None [] ps = Some xs"
      using Suc.prems by (auto simp: bind_eq_Some_conv)
    obtain f where f: "\<And>p. p \<in> set ps \<Longrightarrow> p \<noteq> 0 \<Longrightarrow> ?child p None = Some (f p)"
      using collect_loop_children [OF ps(2)] by blast
    have xs: "xs = concat (map f (filter (\<lambda>p. p \<noteq> 0) ps))" using ps(2) collect_loop_unlimited [of ps ?child f "[]"] f by simp
    have "collect_loop ?child (Some m) [] ps = Some (take m ([] @ concat (map f (filter (\<lambda>p. p \<noteq> 0) ps))))"
      by (rule collect_loop_limited) (use Suc.IH [OF f] False in \<open>simp_all del: collect_indirect_data_blocks.simps\<close>)
    then show ?thesis using False ps xs by simp
  qed (use Suc.prems in auto)
qed

section \<open>Pointer blocks\<close>

lemma u32_of_subslice:
  assumes "subslice img a b = Some raw" "i + 4 \<le> b - a"
  shows "u32 raw i = u32 img (a + i)"
proof -
  have "a \<le> b \<and> b \<le> length img \<and> raw = take (b - a) (drop a img)" using assms(1) by (auto simp: subslice_def split: if_splits)
  then have "subslice raw i (i + 4) = subslice img (a + i) (a + i + 4)"
    using assms(2) by (auto simp: subslice_def take_drop min_def add.commute)
  then show ?thesis by (simp add: u32_subslice add.assoc)
qed

lemma put_pointers:
  assumes "foldM (\<lambda>m (index, pointer). put_u32 m (off + index * 4) (of_int pointer)) img (enumerate k ps) = Some img'"
  shows "same_except (\<lambda>j. off + k * 4 \<le> j \<and> j < off + (k + length ps) * 4) img img'"
    "i < length ps \<Longrightarrow> u32 img' (off + (k + i) * 4) = Some (of_int (ps ! i))"
  using assms
proof (induction ps arbitrary: k img i)
  case (Cons p ps)
  {
    case 1
    then obtain m where m: "put_u32 img (off + k * 4) (of_int p) = Some m"
      "foldM (\<lambda>m (index, pointer). put_u32 m (off + index * 4) (of_int pointer)) m (enumerate (Suc k) ps) = Some img'"
      by (auto simp: bind_eq_Some_conv)
    have "same_except (\<lambda>j. off + k * 4 \<le> j \<and> j < off + (k + length (p # ps)) * 4) img m"
      using m(1) by (auto simp: same_except_def c32.write_length intro!: c32.write_nth)
    also have "same_except (\<lambda>j. off + k * 4 \<le> j \<and> j < off + (k + length (p # ps)) * 4) m img'"
      by (rule same_except_mono [OF Cons.IH(1) [OF m(2)]]) auto
    finally show ?case .
  next
    case 2
    then obtain m where m: "put_u32 img (off + k * 4) (of_int p) = Some m"
      "foldM (\<lambda>m (index, pointer). put_u32 m (off + index * 4) (of_int pointer)) m (enumerate (Suc k) ps) = Some img'"
      by (auto simp: bind_eq_Some_conv)
    note s = Cons.IH(1) [OF m(2)]
    show ?case
    proof (cases i)
      case 0
      have "u32 img' (off + k * 4) = u32 m (off + k * 4)"
        using same_except_length [OF s] by (intro u32_cong same_except_nth [OF s]) auto
      then show ?thesis using 0 m(1) by (simp add: codec_same)
    next
      case (Suc i')
      then show ?thesis using Cons.IH(2) [OF _ m(2), of i'] 2 by simp
    qed
  }
qed (auto simp: same_except_def)

lemma put_pointers_total:
  assumes "off + (k + length ps) * 4 \<le> length img"
  shows "\<exists>img'. foldM (\<lambda>m (index, pointer). put_u32 m (off + index * 4) (of_int pointer)) img (enumerate k ps) = Some img'"
  using assms
proof (induction ps arbitrary: k img)
  case (Cons p ps)
  obtain m where m: "put_u32 img (off + k * 4) (of_int p) = Some m"
    using c32.write_total [of "off + k * 4" img "of_int p"] Cons.prems by auto
  have "off + (Suc k + length ps) * 4 \<le> length m" using Cons.prems c32.write_length [OF m] by simp
  then show ?case using Cons.IH m by auto
qed simp

definition nind :: "ufs \<Rightarrow> nat" where
  "nind u = nat (nindir (sb u))"

lemma nind_facts:
  assumes u: "layout_ok u"
  shows "usize (nindir (sb u)) = nind u" "nind u * 4 = bs u" "1024 \<le> nind u" "nind u \<le> 2048"
proof -
  note g = geometry_facts [OF layout_facts(1) [OF u]]
  have b: "1024 \<le> nindir (sb u)" "nindir (sb u) \<le> 2048" using g(1,2,11) by linarith+
  then show "usize (nindir (sb u)) = nind u" "1024 \<le> nind u" "nind u \<le> 2048" by (auto simp: nind_def usize_id)
  show "nind u * 4 = bs u" using g(11) b by (simp add: nind_def bs_def)
qed

text \<open>Block numbers survive the trip through the 32-bit pointers.\<close>

lemma block_addr_bounds:
  assumes u: "layout_ok u" and b: "block_addr u b"
  shows "0 < b" "b < 2 ^ 32" "uint (of_int b :: u32) = b" "(of_int b :: u32) \<noteq> 0"
    "usize (data_block_offset (sb u) (start_offset u) b) = fboff u b"
proof -
  note g = layout_facts(1) [OF u]
  have r: "data_run u b (frag (sb u))" using b by (simp add: block_addr_def)
  note bd = data_run_bounds [OF u r]
  have "0 \<le> b div fpg (sb u)" using r by (simp add: data_run_def valid_cg_def)
  then have "0 \<le> fpg (sb u) * (b div fpg (sb u))" using geometry_facts(17) [OF g] by simp
  then show p: "0 < b" using bd(3) r geometry_pos(6) [OF g] unfolding data_run_def by linarith
  show q: "b < 2 ^ 32" using bd(2) geometry_frag [OF g] by simp
  show e: "uint (of_int b :: u32) = b" using p q by (simp add: unsigned_of_int take_bit_int_eq_self)
  then show "(of_int b :: u32) \<noteq> 0" using p by (metis less_irrefl uint_0_eq)
  show "usize (data_block_offset (sb u) (start_offset u) b) = fboff u b"
    using p q by (intro data_block_offset_fboff [OF u]) auto
qed

lemma block_bytes: "layout_ok u \<Longrightarrow> nat (frag (sb u)) * nat (fsize (sb u)) = bs u"
  by (simp add: bs_frags)

lemma write_pointer_block_spec:
  assumes u: "layout_ok u" and b: "block_addr u b" and l: "length ps \<le> nind u"
    and w: "write_pointer_block u b ps img = Some img'"
  shows "same_except (\<lambda>k. fboff u b \<le> k \<and> k < fboff u b + bs u) img img'"
    "read_pointer_block img' u (of_int b) = Some (map of_int ps @ replicate (nind u - length ps) 0)"
proof -
  note n = nind_facts [OF u] and ba = block_addr_bounds [OF u b]
  obtain m where m: "fill_at img (fboff u b) (fboff u b + bs u) 0 = Some m"
    "foldM (\<lambda>m (index, pointer). put_u32 m (fboff u b + index * 4) (of_int pointer)) m (enumerate 0 ps) = Some img'"
    using w l by (auto simp: write_pointer_block_def Let_def ba n layout_facts(4) [OF u] bind_eq_Some_conv)
  note p = put_pointers [OF m(2)]
  have fb: "fboff u b + bs u \<le> length img" using fill_at_bound [OF m(1)] by simp
  have lm: "length m = length img" "length img' = length img"
    using fill_at_length [OF m(1)] same_except_length [OF p(1)] by auto
  have "same_except (\<lambda>k. fboff u b \<le> k \<and> k < fboff u b + bs u) img m"
    using m(1) by (auto simp: same_except_def fill_at_length fill_at_nth)
  also have "same_except (\<lambda>k. fboff u b \<le> k \<and> k < fboff u b + bs u) m img'"
    by (rule same_except_mono [OF p(1)]) (use l n(2) in auto)
  finally show "same_except (\<lambda>k. fboff u b \<le> k \<and> k < fboff u b + bs u) img img'" .
  obtain raw where raw: "subslice img' (fboff u b) (fboff u b + bs u) = Some raw" using fb lm by (simp add: subslice_def)
  have e: "u32 raw (i * 4) = Some ((map of_int ps @ replicate (nind u - length ps) 0) ! i)" if i: "i < nind u" for i
  proof -
    have r: "u32 raw (i * 4) = u32 img' (fboff u b + i * 4)" using i n(2) by (intro u32_of_subslice [OF raw]) auto
    show ?thesis
    proof (cases "i < length ps")
      case True
      then show ?thesis using r p(2) [of i] by (simp add: nth_append)
    next
      case False
      have "u32 img' (fboff u b + i * 4) = u32 m (fboff u b + i * 4)"
        using False by (intro u32_cong same_except_nth [OF p(1)]) (auto simp: lm)
      also have "\<dots> = u32 (replicate (length m) 0) (fboff u b + i * 4)"
        using fill_at_nth [OF m(1)] i n(2) fb lm by (intro u32_cong) auto
      also have "\<dots> = Some 0" using i n(2) fb lm by (simp add: u32_def get_at_def)
      finally show ?thesis using r False i by (simp add: nth_append)
    qed
  qed
  have "mapM (\<lambda>i. u32 raw (i * 4)) [0..<nind u] = Some (map (\<lambda>i. (map of_int ps @ replicate (nind u - length ps) 0) ! i) [0..<nind u])"
    using e by (intro mapM_Some_map) auto
  also have "map (\<lambda>i. (map of_int ps @ replicate (nind u - length ps) (0::u32)) ! i) [0..<nind u]
      = map of_int ps @ replicate (nind u - length ps) 0"
    using l by (intro nth_equalityI) auto
  finally show "read_pointer_block img' u (of_int b) = Some (map of_int ps @ replicate (nind u - length ps) 0)"
    using raw ba by (simp add: read_pointer_block_def Let_def n layout_facts(4) [OF u])
qed

lemma write_pointer_block_total:
  assumes u: "layout_ok u" and b: "block_addr u b" and f: "fboff u b + bs u \<le> length img"
  shows "\<exists>img'. write_pointer_block u b ps img = Some img'"
proof -
  note n = nind_facts [OF u] and ba = block_addr_bounds [OF u b]
  obtain m where m: "fill_at img (fboff u b) (fboff u b + bs u) 0 = Some m"
    using f copy_at_total [of "fboff u b" "replicate (bs u) 0" img] by (auto simp: fill_at_def)
  have "fboff u b + (0 + length (take (nind u) ps)) * 4 \<le> length m"
    using f n(2) fill_at_length [OF m] by (simp add: min_def)
  then show ?thesis
    using m put_pointers_total [of "fboff u b" 0 "take (nind u) ps" m]
    by (simp add: write_pointer_block_def Let_def ba n layout_facts(4) [OF u])
qed

section \<open>Pointer trees\<close>

lemma chunks_concat: "0 < n \<Longrightarrow> concat (chunks n xs) = xs"
  by (induction n xs rule: chunks.induct) (subst chunks.simps, auto)

lemma chunks_simps:
  "xs = [] \<or> n = 0 \<Longrightarrow> chunks n xs = []"
  "xs \<noteq> [] \<Longrightarrow> 0 < n \<Longrightarrow> chunks n xs = take n xs # chunks n (drop n xs)"
  by (subst chunks.simps, simp)+

lemma chunks_part: "c \<in> set (chunks n xs) \<Longrightarrow> c \<noteq> [] \<and> length c \<le> n \<and> set c \<subseteq> set xs"
proof (induction n xs rule: chunks.induct)
  case (1 n xs)
  show ?case
  proof (cases "xs = [] \<or> n = 0")
    case False
    then have "c = take n xs \<or> c \<in> set (chunks n (drop n xs))" using 1(2) by (simp add: chunks_simps(2))
    then show ?thesis
    proof
      assume "c = take n xs"
      then show ?thesis using False by (auto dest: in_set_takeD)
    next
      assume "c \<in> set (chunks n (drop n xs))"
      then have "c \<noteq> [] \<and> length c \<le> n \<and> set c \<subseteq> set (drop n xs)" by (rule 1(1) [OF False])
      then show ?thesis using order_trans [OF _ set_drop_subset [of n xs]] by simp
    qed
  next
    case True
    then show ?thesis using 1(2) by (simp add: chunks_simps(1))
  qed
qed

lemma chunks_length: "0 < n \<Longrightarrow> length xs \<le> k * n \<Longrightarrow> length (chunks n xs) \<le> k"
proof (induction n xs arbitrary: k rule: chunks.induct)
  case (1 n xs)
  show ?case
  proof (cases "xs = []")
    case False
    then obtain k' where k': "k = Suc k'" using 1(3) by (cases k) auto
    have "length (chunks n (drop n xs)) \<le> k'" using 1 False k' by (intro 1(1)) auto
    then show ?thesis using False 1(2) k' by (subst chunks.simps) simp
  qed (subst chunks.simps, simp)
qed

lemma read_pointer_block_stable:
  assumes u: "layout_ok u" and b: "block_addr u b" and s: "same_frags u P img img'" "run b (frag (sb u)) \<subseteq> P"
  shows "read_pointer_block img' u (of_int b) = read_pointer_block img u (of_int b)"
proof -
  note ba = block_addr_bounds [OF u b]
  have r: "data_run u b (frag (sb u))" using b by (simp add: block_addr_def)
  have "subslice img' (fboff u b) (fboff u b + bs u) = subslice img (fboff u b) (fboff u b + bs u)"
    by (rule same_frags_subslice [OF u s(1) r s(2)]) (simp_all add: block_bytes [OF u])
  then show ?thesis using ba by (simp add: read_pointer_block_def Let_def layout_facts(4) [OF u])
qed

lemma allocate_block_alloc: "layout_ok u \<Longrightarrow> allocate_block u ino = allocate_allocation u ino (bsize (sb u))"
  using geometry_facts(1) [OF layout_facts(1)] by (force simp: allocate_allocation_def)

lemma request_block: "layout_ok u \<Longrightarrow> request_ok u (bsize (sb u)) \<and> bsize (sb u) div fsize (sb u) = frag (sb u)"
  using geometry_facts(1,9) [OF layout_facts(1)] geometry_fsize [OF layout_facts(1)]
  by (force simp: request_ok_def)

text \<open>Allocate a block and fill it with pointers.\<close>

definition new_pointer_block :: "ufs \<Rightarrow> int \<Rightarrow> int list \<Rightarrow> (image, werror, int) wm" where
  "new_pointer_block u ino ps =
     wbind (allocate_block u ino) (\<lambda>b. wbind (wmodify (write_pointer_block u b ps)) (\<lambda>_. wreturn b))"

lemma new_pointer_block_spec:
  assumes o: "owned u ino A img" and l: "length ps \<le> nind u"
    and n: "new_pointer_block u ino ps img = Some (Inr b, img')"
  shows "owned u ino (A \<union> run b (frag (sb u))) img'" "A \<inter> run b (frag (sb u)) = {}" "stable u A img img'"
    "block_addr u b"
    "same_frags u (run b (frag (sb u))) img' img'' \<Longrightarrow>
       read_pointer_block img'' u (of_int b) = Some (map of_int ps @ replicate (nind u - length ps) 0)"
proof -
  have u: "layout_ok u" using o by (simp add: owned_def)
  let ?R = "run b (frag (sb u))"
  obtain img1 where a: "allocate_allocation u ino (bsize (sb u)) img = Some (Inr b, img1)"
    and w: "write_pointer_block u b ps img1 = Some img'"
    using n by (auto simp: new_pointer_block_def wm_simps allocate_block_alloc [OF u])
  have a1: "owned u ino (A \<union> ?R) img1" "A \<inter> ?R = {}" "stable u A img img1" "block_addr u b"
    using al.alloc_ok [OF o _ a] request_block [OF u] by auto
  have r: "data_run u b (frag (sb u))" using a1(4) by (simp add: block_addr_def)
  note wp = write_pointer_block_spec [OF u a1(4) l w]
  note rw = run_write [OF u _ a1(2) r wp(1) [folded block_bytes [OF u]]]
  show "owned u ino (A \<union> ?R) img'" using a1(1) rw(1) by (simp add: owned_def)
  show "A \<inter> ?R = {}" "block_addr u b" using a1 by auto
  show "stable u A img img'" using a1 rw(2) stable_trans by (auto simp: owned_def)
  show "same_frags u ?R img' img'' \<Longrightarrow>
       read_pointer_block img'' u (of_int b) = Some (map of_int ps @ replicate (nind u - length ps) 0)"
    using read_pointer_block_stable [OF u a1(4)] wp(2) by simp
qed

lemma new_pointer_block_total:
  assumes o: "owned u ino A img"
  shows "new_pointer_block u ino ps img \<noteq> None"
    "new_pointer_block u ino ps img = Some (Inl e, img') \<Longrightarrow> owned u ino A img' \<and> stable u A img img' \<and> e \<in> space_errors"
proof -
  have u: "layout_ok u" using o by (simp add: owned_def)
  note rq = request_block [OF u]
  have w: "\<exists>img2. write_pointer_block u b ps img1 = Some img2"
    if a: "allocate_allocation u ino (bsize (sb u)) img = Some (Inr b, img1)" for b img1
  proof -
    have a1: "owned u ino (A \<union> run b (frag (sb u))) img1" "block_addr u b" using al.alloc_ok [OF o _ a] rq by auto
    have "fboff u b + nat (frag (sb u)) * nat (fsize (sb u)) \<le> length img1"
      using a1 geometry_frag [OF layout_facts(1) [OF u]]
      by (intro own_run_fits [OF u, of "A \<union> run b (frag (sb u))"]) (auto simp: owned_def block_addr_def)
    then show ?thesis by (intro write_pointer_block_total [OF u a1(2)]) (simp add: block_bytes [OF u])
  qed
  obtain r img1 where r: "allocate_allocation u ino (bsize (sb u)) img = Some (r, img1)"
    using al.alloc_total [OF o] rq by fastforce
  show "new_pointer_block u ino ps img \<noteq> None"
    using r w by (cases r) (auto simp: new_pointer_block_def wbind_def wmodify_def wreturn_def allocate_block_alloc [OF u] split: option.splits)
  show "owned u ino A img' \<and> stable u A img img' \<and> e \<in> space_errors" if n: "new_pointer_block u ino ps img = Some (Inl e, img')"
  proof -
    have "allocate_allocation u ino (bsize (sb u)) img = Some (Inl e, img')"
      using n by (auto simp: new_pointer_block_def wbind_Inl_iff wm_simps allocate_block_alloc [OF u])
    then show ?thesis using al.alloc_err [OF o] rq by blast
  qed
qed

lemma build_pointer_tree_0:
  "build_pointer_tree u ino 0 xs = (if xs = [] then wreturn (0, 0) else
     wbind (new_pointer_block u ino (take (min (length xs) (usize (nindir (sb u)))) xs)) (\<lambda>b. wreturn (b, 1)))"
  by (simp add: new_pointer_block_def wbind_assoc)

lemma build_pointer_tree_Suc:
  "build_pointer_tree u ino (Suc l) xs = (if xs = [] then wreturn (0, 0) else
     let child_capacity = usize (nindir (sb u)) ^ Suc l mod 2 ^ 64 in
     if child_capacity = 0 then (\<lambda>_. None) else
     wbind (wmapM (build_pointer_tree u ino l) (chunks child_capacity xs)) (\<lambda>children.
     wbind (new_pointer_block u ino (map fst children)) (\<lambda>b. wreturn (b, 1 + sum_list (map snd children)))))"
  by (simp add: new_pointer_block_def wbind_assoc Let_def)

declare collect_indirect_data_blocks.simps [simp del] collect_indirect_pointer_blocks.simps [simp del]

definition frag_set :: "ufs \<Rightarrow> u32 list \<Rightarrow> int set" where
  "frag_set u ps = (\<Union>p \<in> set ps. run (uint p) (frag (sb u)))"

lemma frag_set_simps [simp]:
  "frag_set u [] = {}" "frag_set u (p # ps) = run (uint p) (frag (sb u)) \<union> frag_set u ps"
  "frag_set u (ps @ qs) = frag_set u ps \<union> frag_set u qs"
  by (auto simp: frag_set_def)

text \<open>
  A tree of \<open>l + 1\<close> levels over \<open>xs\<close>, made of the pointer blocks \<open>ps\<close>: as long as these stay untouched, the
  data blocks read through the root are \<open>xs\<close> and the pointer blocks found are \<open>ps\<close>.
\<close>

definition tree_reads :: "ufs \<Rightarrow> nat \<Rightarrow> int \<Rightarrow> int list \<Rightarrow> u32 list \<Rightarrow> image \<Rightarrow> bool" where
  "tree_reads u l root xs ps img \<longleftrightarrow> block_addr u root \<and> (\<forall>p \<in> set ps. block_addr u (uint p)) \<and>
     (\<forall>img'. same_frags u (frag_set u ps) img img' \<longrightarrow>
        collect_indirect_data_blocks img' u (Suc l) (of_int root) None = Some (map of_int xs)
      \<and> collect_indirect_pointer_blocks img' u (Suc l) (of_int root) = Some ps)"

lemma tree_reads_stable:
  "tree_reads u l root xs ps img \<Longrightarrow> same_frags u (frag_set u ps) img img' \<Longrightarrow> tree_reads u l root xs ps img'"
  unfolding tree_reads_def using same_frags_trans by blast

text \<open>Blocks no two of which share a fragment.\<close>

definition apart_blocks :: "ufs \<Rightarrow> u32 list \<Rightarrow> bool" where
  "apart_blocks u = sorted_wrt (\<lambda>p q. run (uint p) (frag (sb u)) \<inter> run (uint q) (frag (sb u)) = {})"

lemma apart_blocks_simps [simp]:
  "apart_blocks u []" "apart_blocks u [p]"
  "apart_blocks u (ps @ qs) \<longleftrightarrow> apart_blocks u ps \<and> apart_blocks u qs \<and> frag_set u ps \<inter> frag_set u qs = {}"
  "apart_blocks u (p # ps) \<longleftrightarrow> run (uint p) (frag (sb u)) \<inter> frag_set u ps = {} \<and> apart_blocks u ps"
  unfolding apart_blocks_def frag_set_def by (auto simp: sorted_wrt_append)

text \<open>A step of the construction, from \<open>img\<close> to \<open>img'\<close>, that takes the new pointer blocks \<open>ps\<close>.\<close>

definition takes :: "ufs \<Rightarrow> int \<Rightarrow> int set \<Rightarrow> u32 list \<Rightarrow> image \<Rightarrow> image \<Rightarrow> bool" where
  "takes u ino A ps img img' \<longleftrightarrow>
     owned u ino (A \<union> frag_set u ps) img' \<and> A \<inter> frag_set u ps = {} \<and> stable u A img img' \<and> apart_blocks u ps"

lemma takes_refl: "owned u ino A img \<Longrightarrow> takes u ino A [] img img"
  by (simp add: takes_def)

lemma takes_trans:
  assumes "takes u ino A ps img img1" "takes u ino (A \<union> frag_set u ps) qs img1 img2"
  shows "takes u ino A (ps @ qs) img img2"
  using assms stable_mono [of u "A \<union> frag_set u ps" img1 img2 A] stable_trans [of u A img img1 img2]
  unfolding takes_def frag_set_simps apart_blocks_simps Un_assoc [symmetric] by blast

lemma takes_keeps: "takes u ino (A \<union> frag_set u ps) qs img1 img2 \<Longrightarrow> same_frags u (frag_set u ps) img1 img2"
  unfolding takes_def using stable_same_frags by blast

lemma takes_new_pointer_block:
  assumes o: "owned u ino A img" and l: "length ps \<le> nind u"
    and n: "new_pointer_block u ino ps img = Some (Inr b, img')"
  shows "takes u ino A [of_int b] img img'" "block_addr u b" "uint (of_int b :: u32) = b"
proof -
  have u: "layout_ok u" using o by (simp add: owned_def)
  note np = new_pointer_block_spec [OF o l n]
  show "block_addr u b" "uint (of_int b :: u32) = b" using np(4) block_addr_bounds(3) [OF u np(4)] by auto
  then show "takes u ino A [of_int b] img img'" using np by (simp add: takes_def)
qed

lemma foldM_collect:
  assumes "\<And>p. p \<in> set ps \<Longrightarrow> p \<noteq> 0 \<Longrightarrow> g p = Some (f p)"
  shows "foldM (\<lambda>blocks child. if child = 0 then Some blocks else do { more \<leftarrow> g child; Some (blocks @ more) }) acc ps
    = Some (acc @ concat (map f (filter (\<lambda>p. p \<noteq> 0) ps)))"
  using assms by (induction ps arbitrary: acc) auto

text \<open>A forest: the trees built for a list of chunks.\<close>

definition forest_reads :: "ufs \<Rightarrow> nat \<Rightarrow> int list \<Rightarrow> int list list \<Rightarrow> u32 list list \<Rightarrow> image \<Rightarrow> bool" where
  "forest_reads u l roots cs pss img \<longleftrightarrow> length roots = length cs \<and> length pss = length cs
     \<and> (\<forall>i < length cs. tree_reads u l (roots ! i) (cs ! i) (pss ! i) img)"

lemma forest_reads_Cons:
  "forest_reads u l (r # rs) (c # cs) (ps # pss) img \<longleftrightarrow> tree_reads u l r c ps img \<and> forest_reads u l rs cs pss img"
  unfolding forest_reads_def by (auto simp: less_Suc_eq_0_disj)

lemma forest_reads_stable:
  assumes "forest_reads u l rs cs pss img" "same_frags u (frag_set u (concat pss)) img img'"
  shows "forest_reads u l rs cs pss img'"
proof -
  have "frag_set u (pss ! i) \<subseteq> frag_set u (concat pss)" if "i < length pss" for i
    using that nth_mem unfolding frag_set_def by fastforce
  then show ?thesis
    using assms tree_reads_stable same_frags_mono unfolding forest_reads_def by metis
qed

text \<open>A root over a forest.\<close>

lemma forest_root:
  assumes u: "layout_ok u" and f: "forest_reads u l roots cs pss img" and b: "block_addr u b"
    and rd: "\<And>img'. same_frags u (run b (frag (sb u))) img img' \<Longrightarrow>
       read_pointer_block img' u (of_int b) = Some (map of_int roots @ replicate k 0)"
  shows "tree_reads u (Suc l) b (concat cs) (of_int b # concat pss) img"
proof -
  note ba = block_addr_bounds [OF u b]
  have roots: "block_addr u r" if "r \<in> set roots" for r
    using that f unfolding forest_reads_def tree_reads_def in_set_conv_nth by auto
  have addr: "block_addr u (uint p)" if p: "p \<in> set (concat pss)" for p
  proof -
    obtain ps where "ps \<in> set pss" "p \<in> set ps" using p by auto
    then obtain i where "i < length pss" "p \<in> set (pss ! i)" unfolding in_set_conv_nth by auto
    then show ?thesis using f unfolding forest_reads_def tree_reads_def by auto
  qed
  have flt: "filter (\<lambda>p. p \<noteq> 0) (map of_int roots @ replicate k (0::u32)) = map of_int roots"
    using roots block_addr_bounds(4) [OF u] by (auto simp: filter_id_conv)
  have "collect_indirect_data_blocks img' u (Suc (Suc l)) (of_int b) None = Some (map of_int (concat cs))
      \<and> collect_indirect_pointer_blocks img' u (Suc (Suc l)) (of_int b) = Some (of_int b # concat pss)"
    if s: "same_frags u (frag_set u (of_int b # concat pss)) img img'" for img'
  proof -
    have s1: "same_frags u (run b (frag (sb u))) img img'" "same_frags u (frag_set u (concat pss)) img img'"
      using same_frags_mono [OF s] ba(3) by auto
    note fr = forest_reads_stable [OF f s1(2)] and rp = rd [OF s1(1)]
    let ?d = "\<lambda>p. collect_indirect_data_blocks img' u (Suc l) p None" and ?q = "collect_indirect_pointer_blocks img' u (Suc l)"
    have tr: "?d (of_int (roots ! i)) = Some (map of_int (cs ! i)) \<and> ?q (of_int (roots ! i)) = Some (pss ! i)" if "i < length cs" for i
      using fr that unfolding forest_reads_def tree_reads_def by auto
    have ok: "?d p = Some (the (?d p))" "?q p = Some (the (?q p))" if "p \<in> set (map of_int roots @ replicate k 0)" "p \<noteq> 0" for p
    proof -
      have "p \<in> of_int ` set roots" using that by auto
      then obtain i where "i < length cs" "p = of_int (roots ! i)"
        using fr unfolding forest_reads_def by (auto simp: in_set_conv_nth)
      then show "?d p = Some (the (?d p))" "?q p = Some (the (?q p))" using tr by auto
    qed
    have m1: "map (\<lambda>p. the (?d p)) (map of_int roots) = map (map of_int) cs"
      "map (\<lambda>p. the (?q p)) (map of_int roots) = pss"
      using tr fr unfolding forest_reads_def by (auto intro!: nth_equalityI)
    have "collect_loop (collect_indirect_data_blocks img' u (Suc l)) None [] (map of_int roots @ replicate k 0)
        = Some (concat (map (map of_int) cs))"
      using collect_loop_unlimited [of "map of_int roots @ replicate k 0" "collect_indirect_data_blocks img' u (Suc l)" "\<lambda>p. the (?d p)" "[]"]
        ok(1) unfolding flt m1 by simp
    moreover have "foldM (\<lambda>blocks child. if child = 0 then Some blocks else do { more \<leftarrow> ?q child; Some (blocks @ more) })
        [of_int b] (map of_int roots @ replicate k 0) = Some (of_int b # concat pss)"
      using foldM_collect [of "map of_int roots @ replicate k 0" ?q "\<lambda>p. the (?q p)" "[of_int b]"]
        ok(2) unfolding flt m1 by simp
    ultimately show ?thesis
      using rp ba(4)
      by (subst collect_indirect_data_blocks.simps(2), subst collect_indirect_pointer_blocks.simps(2))
        (simp add: map_concat)
  qed
  then show ?thesis using b addr ba(3) by (auto simp: tree_reads_def)
qed

text \<open>The bottom level: a pointer block over data blocks.\<close>

lemma leaf_reads:
  assumes u: "layout_ok u" and b: "block_addr u b" and xs: "\<And>x. x \<in> set xs \<Longrightarrow> block_addr u x"
    and rd: "\<And>img'. same_frags u (run b (frag (sb u))) img img' \<Longrightarrow>
       read_pointer_block img' u (of_int b) = Some (map of_int xs @ replicate k 0)"
  shows "tree_reads u 0 b xs [of_int b] img"
proof -
  note ba = block_addr_bounds [OF u b]
  have flt: "filter (\<lambda>p. p \<noteq> 0) (map of_int xs) = map (of_int :: int \<Rightarrow> u32) xs"
    using xs block_addr_bounds(4) [OF u] by (auto simp: filter_id_conv)
  have cc: "concat (map ((\<lambda>p. [p]) \<circ> f) ys) = map f ys" for f :: "int \<Rightarrow> u32" and ys by (induction ys) auto
  show ?thesis
    unfolding tree_reads_def using b ba rd
    by (auto simp: collect_indirect_data_blocks.simps collect_indirect_pointer_blocks.simps flt cc
        collect_loop_unlimited [where f = "\<lambda>p. [p]"])
qed

definition tree_fits :: "ufs \<Rightarrow> nat \<Rightarrow> int list \<Rightarrow> bool" where
  "tree_fits u l xs \<longleftrightarrow> l \<le> 2 \<and> xs \<noteq> [] \<and> length xs \<le> nind u ^ Suc l \<and> (\<forall>x \<in> set xs. block_addr u x)"

lemma child_capacity:
  assumes u: "layout_ok u" and f: "tree_fits u (Suc l) xs"
  shows "usize (nindir (sb u)) ^ Suc l mod 2 ^ 64 = nind u ^ Suc l" "0 < nind u ^ Suc l"
    "length (chunks (nind u ^ Suc l) xs) \<le> nind u" "\<And>c. c \<in> set (chunks (nind u ^ Suc l) xs) \<Longrightarrow> tree_fits u l c"
proof -
  note n = nind_facts [OF u]
  have l: "l \<le> 1" and len: "length xs \<le> nind u ^ Suc (Suc l)" and xs: "\<forall>x \<in> set xs. block_addr u x"
    using f by (auto simp: tree_fits_def)
  have "nind u ^ Suc l \<le> 2048 ^ 2" using n(3,4) l power_mono [of "nind u" 2048 "Suc l"] power_increasing [of "Suc l" 2 "2048::nat"]
    by simp
  then show "usize (nindir (sb u)) ^ Suc l mod 2 ^ 64 = nind u ^ Suc l" using n(1) by simp
  show p: "0 < nind u ^ Suc l" using n(3) by simp
  show "length (chunks (nind u ^ Suc l) xs) \<le> nind u" using len by (intro chunks_length [OF p]) simp
  show "tree_fits u l c" if c: "c \<in> set (chunks (nind u ^ Suc l) xs)" for c
    using chunks_part [OF c] xs l by (auto simp: tree_fits_def)
qed

text \<open>A construction that fails has run out of space and has left what was owned as it was.\<close>

definition intact :: "ufs \<Rightarrow> int \<Rightarrow> int set \<Rightarrow> image \<Rightarrow> werror \<Rightarrow> image \<Rightarrow> bool" where
  "intact u ino A img e img' \<longleftrightarrow> owned u ino A img' \<and> stable u A img img' \<and> e \<in> space_errors"

lemma intact_trans:
  "stable u A img img1 \<Longrightarrow> intact u ino (A \<union> B) img1 e img2 \<Longrightarrow> intact u ino A img e img2"
  unfolding intact_def owned_def using stable_mono [of u "A \<union> B" img1 img2 A] stable_trans own_mono [of u "A \<union> B" img2 A]
  by blast

lemma takes_intact: "takes u ino A ps img img1 \<Longrightarrow> intact u ino (A \<union> frag_set u ps) img1 e img2 \<Longrightarrow> intact u ino A img e img2"
  unfolding takes_def using intact_trans by blast

lemma new_pointer_block_wp:
  assumes o: "owned u ino A img" and l: "length ps \<le> nind u"
  shows "wp (new_pointer_block u ino ps) (\<lambda>b img'. takes u ino A [of_int b] img img' \<and> block_addr u b \<and>
     (\<forall>img''. same_frags u (run b (frag (sb u))) img' img'' \<longrightarrow>
        read_pointer_block img'' u (of_int b) = Some (map of_int ps @ replicate (nind u - length ps) 0)))
     (intact u ino A img) img"
  using new_pointer_block_total [OF o, of ps] takes_new_pointer_block [OF o l] new_pointer_block_spec(5) [OF o l]
  unfolding intact_def by (intro wpI) blast+

text \<open>What one construction guarantees, and what a list of them does.\<close>

definition builds :: "ufs \<Rightarrow> int \<Rightarrow> nat \<Rightarrow> bool" where
  "builds u ino l \<longleftrightarrow> (\<forall>A img xs. owned u ino A img \<longrightarrow> tree_fits u l xs \<longrightarrow>
     wp (build_pointer_tree u ino l xs) (\<lambda>(root, cnt) img'.
       \<exists>ps. takes u ino A ps img img' \<and> tree_reads u l root xs ps img' \<and> cnt = int (length ps))
       (intact u ino A img) img)"

lemma build_forest:
  assumes b: "builds u ino l" and o: "owned u ino A img" and f: "\<And>c. c \<in> set cs \<Longrightarrow> tree_fits u l c"
  shows "wp (wmapM (build_pointer_tree u ino l) cs) (\<lambda>ch img'.
    \<exists>pss. takes u ino A (concat pss) img img' \<and> forest_reads u l (map fst ch) cs pss img'
      \<and> sum_list (map snd ch) = int (length (concat pss))) (intact u ino A img) img"
  using o f
proof (induction cs arbitrary: A img)
  case Nil
  then have "takes u ino A (concat []) img img \<and> forest_reads u l (map fst ([] :: (int \<times> int) list)) [] [] img"
    by (simp add: takes_refl forest_reads_def)
  then show ?case by (auto intro!: exI [of _ "[]"])
next
  case (Cons c cs)
  let ?tree = "\<lambda>(root, cnt) img1. \<exists>ps. takes u ino A ps img img1 \<and> tree_reads u l root c ps img1 \<and> cnt = int (length ps)"
  have t: "wp (build_pointer_tree u ino l c) ?tree (intact u ino A img) img"
    using b Cons.prems unfolding builds_def by (meson list.set_intros(1))
  have step: "wp (wmapM (build_pointer_tree u ino l) cs) (\<lambda>ch img'.
      \<exists>pss. takes u ino A (concat pss) img img' \<and> forest_reads u l (map fst (y # ch)) (c # cs) pss img'
        \<and> sum_list (map snd (y # ch)) = int (length (concat pss))) (intact u ino A img) img1"
    if tree: "?tree y img1" for y img1
  proof -
    obtain ps where ps: "takes u ino A ps img img1" "tree_reads u l (fst y) c ps img1" "snd y = int (length ps)"
      using tree by (auto simp: case_prod_beta)
    have o1: "owned u ino (A \<union> frag_set u ps) img1" using ps(1) by (simp add: takes_def)
    show ?thesis
    proof (rule wp_mono [OF Cons.IH [OF o1]])
      fix ch img'
      assume "\<exists>pss. takes u ino (A \<union> frag_set u ps) (concat pss) img1 img' \<and> forest_reads u l (map fst ch) cs pss img'
        \<and> sum_list (map snd ch) = int (length (concat pss))"
      then obtain pss where pss: "takes u ino (A \<union> frag_set u ps) (concat pss) img1 img'"
        "forest_reads u l (map fst ch) cs pss img'" "sum_list (map snd ch) = int (length (concat pss))" by blast
      then have "takes u ino A (concat (ps # pss)) img img' \<and> forest_reads u l (map fst (y # ch)) (c # cs) (ps # pss) img'
          \<and> sum_list (map snd (y # ch)) = int (length (concat (ps # pss)))"
        using takes_trans [OF ps(1) pss(1)] tree_reads_stable [OF ps(2) takes_keeps [OF pss(1)]] ps(3)
        by (simp add: forest_reads_Cons)
      then show "\<exists>pss. takes u ino A (concat pss) img img' \<and> forest_reads u l (map fst (y # ch)) (c # cs) pss img'
        \<and> sum_list (map snd (y # ch)) = int (length (concat pss))" by blast
    qed (use Cons.prems(2) takes_intact [OF ps(1)] in auto)
  qed
  show ?case using wp_mono [OF t step] by simp
qed

lemma build_leaf:
  assumes u: "layout_ok u"
  shows "builds u ino 0"
  unfolding builds_def
proof (intro allI impI)
  fix A img xs
  assume o: "owned u ino A img" and f: "tree_fits u 0 xs"
  note n = nind_facts [OF u]
  have xs: "xs \<noteq> []" "length xs \<le> nind u" "\<And>x. x \<in> set xs \<Longrightarrow> block_addr u x" using f by (auto simp: tree_fits_def)
  have "wp (new_pointer_block u ino xs) (\<lambda>root img'.
      \<exists>ps. takes u ino A ps img img' \<and> tree_reads u 0 root xs ps img' \<and> 1 = int (length ps)) (intact u ino A img) img"
  proof (rule wp_mono [OF new_pointer_block_wp [OF o xs(2)]])
    fix root img'
    assume "takes u ino A [of_int root] img img' \<and> block_addr u root \<and> (\<forall>img''. same_frags u (run root (frag (sb u))) img' img'' \<longrightarrow>
        read_pointer_block img'' u (of_int root) = Some (map of_int xs @ replicate (nind u - length xs) 0))"
    then have "takes u ino A [of_int root] img img'" "tree_reads u 0 root xs [of_int root] img'"
      using leaf_reads [OF u _ xs(3), of root] by auto
    then show "\<exists>ps. takes u ino A ps img img' \<and> tree_reads u 0 root xs ps img' \<and> 1 = int (length ps)"
      by (intro exI [of _ "[of_int root]"]) simp
  qed
  then show "wp (build_pointer_tree u ino 0 xs) (\<lambda>(root, cnt) img'.
       \<exists>ps. takes u ino A ps img img' \<and> tree_reads u 0 root xs ps img' \<and> cnt = int (length ps)) (intact u ino A img) img"
    using xs unfolding build_pointer_tree_0 n(1) by simp
qed

lemma build_node:
  assumes u: "layout_ok u" and b: "builds u ino l"
  shows "builds u ino (Suc l)"
  unfolding builds_def
proof (intro allI impI)
  fix A img xs
  assume o: "owned u ino A img" and f: "tree_fits u (Suc l) xs"
  note cc = child_capacity [OF u f]
  let ?cs = "chunks (nind u ^ Suc l) xs"
  let ?Q = "\<lambda>(root, cnt) img'. \<exists>ps. takes u ino A ps img img' \<and> tree_reads u (Suc l) root xs ps img' \<and> cnt = int (length ps)"
  let ?ch = "\<lambda>ch img1. length ch \<le> nind u \<and> (\<exists>pss. takes u ino A (concat pss) img img1 \<and> forest_reads u l (map fst ch) ?cs pss img1
      \<and> sum_list (map snd ch) = int (length (concat pss)))"
  have "wp (wmapM (build_pointer_tree u ino l) ?cs) ?ch (intact u ino A img) img"
    by (rule wp_mono [OF build_forest [OF b o cc(4)]]) (use cc(3) in \<open>auto simp: forest_reads_def\<close>)
  moreover have "wp (new_pointer_block u ino (map fst ch)) (\<lambda>root. ?Q (root, 1 + sum_list (map snd ch))) (intact u ino A img) img1"
    if ch: "?ch ch img1" for ch img1
  proof -
    obtain pss where p: "takes u ino A (concat pss) img img1" "forest_reads u l (map fst ch) ?cs pss img1"
      "sum_list (map snd ch) = int (length (concat pss))" and len: "length (map fst ch) \<le> nind u" using ch by auto
    have o1: "owned u ino (A \<union> frag_set u (concat pss)) img1" using p(1) by (simp add: takes_def)
    show ?thesis
    proof (rule wp_mono [OF new_pointer_block_wp [OF o1 len]])
      fix root img'
      assume s: "takes u ino (A \<union> frag_set u (concat pss)) [of_int root] img1 img' \<and> block_addr u root \<and>
        (\<forall>img''. same_frags u (run root (frag (sb u))) img' img'' \<longrightarrow>
           read_pointer_block img'' u (of_int root) = Some (map of_int (map fst ch) @ replicate (nind u - length (map fst ch)) 0))"
      then have t: "takes u ino (A \<union> frag_set u (concat pss)) [of_int root] img1 img'" by blast
      have fr: "forest_reads u l (map fst ch) ?cs pss img'" by (rule forest_reads_stable [OF p(2) takes_keeps [OF t]])
      have tr: "tree_reads u (Suc l) root xs (of_int root # concat pss) img'"
        using forest_root [OF u fr] s unfolding chunks_concat [OF cc(2)] by blast
      have "takes u ino A (of_int root # concat pss) img img'"
        using takes_trans [OF p(1) t] by (simp add: takes_def Un_commute Int_commute)
      then show "?Q (root, 1 + sum_list (map snd ch)) img'"
        using tr p(3) by (simp, intro exI [of _ "of_int root # concat pss"]) simp
    qed (use takes_intact [OF p(1)] in blast)
  qed
  ultimately have "wp (wbind (wmapM (build_pointer_tree u ino l) ?cs) (\<lambda>ch. wbind (new_pointer_block u ino (map fst ch))
      (\<lambda>b. wreturn (b, 1 + sum_list (map snd ch))))) ?Q (intact u ino A img) img"
    unfolding wp_wbind wp_simps(1) by (rule wp_mono)
  then show "wp (build_pointer_tree u ino (Suc l) xs) ?Q (intact u ino A img) img"
    using f cc(1,2) unfolding build_pointer_tree_Suc Let_def by (simp add: tree_fits_def)
qed

lemma build_pointer_tree_builds: "layout_ok u \<Longrightarrow> builds u ino l"
  by (induction l) (simp_all add: build_leaf build_node)

end
