(* ===== verification/Inode_Record.thy ===== *)
theory Inode_Record
  imports Inode_Correct
begin

text \<open>
  Inode records in place: where the 128-byte record of an inode is, that reading it returns the fields found
  there, and that each writer changes the fields it names and nothing else of the image.
\<close>

section \<open>Where an inode record is\<close>

lemma inode_offset_facts:
  assumes u: "layout_ok u" and n: "valid_ino (sb u) n"
  shows "int (inode_offset u n) = inode_byte_offset (sb u) (start_offset u) n"
    "inode_offset u n + 128 < 2 ^ 63" "start_offset u \<le> inode_offset u n"
    "inode_offset u n \<le> k \<Longrightarrow> k < inode_offset u n + 128 \<Longrightarrow> ino_byte u k"
proof -
  note l = layout_facts [OF u]
  note t = inode_in_table [OF l(1,2) n] and v = valid_ino_group [OF l(1) n]
  let ?c = "n div ipg (sb u)"
  note cm = cg_mult_bound [OF l(1) v(1,2)] and p = geometry_pos [OF l(1)] and lo = layout_order [OF l(1)]
  have lo0: "0 \<le> fpg (sb u) * ?c + iblkno (sb u)" "0 \<le> fpg (sb u) * ?c + dblkno (sb u)"
    "fpg (sb u) * ?c + dblkno (sb u) < 2 ^ 32" using cm p lo geometry_frag [OF l(1)] by linarith+
  then have "fpg (sb u) * ?c + dblkno (sb u) < 2 ^ 33" by simp
  note lo0 = lo0(1,2) this
  note f = fboff_int [OF u lo0(1)] fboff_int [OF u lo0(2)] data_block_offset_fboff(3) [OF u lo0(2,3)]
  have b: "int (fboff u (fpg (sb u) * ?c + iblkno (sb u))) \<le> inode_byte_offset (sb u) (start_offset u) n"
    "inode_byte_offset (sb u) (start_offset u) n + 128 \<le> int (fboff u (fpg (sb u) * ?c + dblkno (sb u)))"
    using t f(1,2) by auto
  then show e: "int (inode_offset u n) = inode_byte_offset (sb u) (start_offset u) n"
    using f(3) unfolding inode_offset_def by (subst usize_id) auto
  show "inode_offset u n + 128 < 2 ^ 63" using b(2) e f(3) by linarith
  have "start_offset u \<le> fboff u (fpg (sb u) * ?c + iblkno (sb u))" by (simp add: fboff_def)
  then show "start_offset u \<le> inode_offset u n" using b(1) e by linarith
  show "ino_byte u k" if "inode_offset u n \<le> k" "k < inode_offset u n + 128"
    unfolding ino_byte_def using that b e v by (intro exI [of _ ?c]) (auto simp: valid_cg_def)
qed

lemma inode_offset_disjoint:
  assumes u: "layout_ok u" and n: "valid_ino (sb u) n" "valid_ino (sb u) m" "n \<noteq> m"
  shows "inode_offset u n + 128 \<le> inode_offset u m \<or> inode_offset u m + 128 \<le> inode_offset u n"
  using n inode_records_disjoint [OF layout_facts(1,2) [OF u] n(1,2)] inode_records_disjoint [OF layout_facts(1,2) [OF u] n(2,1)]
    inode_offset_facts(1) [OF u n(1)] inode_offset_facts(1) [OF u n(2)] by (cases n m rule: linorder_cases) auto

text \<open>The inode tables lie inside the image.\<close>

definition tables_fit :: "ufs \<Rightarrow> image \<Rightarrow> bool" where
  "tables_fit u img \<longleftrightarrow> (\<forall>n. valid_ino (sb u) n \<longrightarrow> inode_offset u n + 128 \<le> length img)"

section \<open>Reading a record in place\<close>

lemma read_of_subslice:
  assumes "subslice img a b = Some raw" "i + 8 \<le> b - a"
  shows "u16 raw i = u16 img (a + i)" "u64 raw i = u64 img (a + i)"
proof -
  have s: "a \<le> b \<and> b \<le> length img \<and> raw = take (b - a) (drop a img)" using assms(1) by (auto simp: subslice_def split: if_splits)
  have "subslice raw i (i + w) = subslice img (a + i) (a + i + w)" if "w \<le> 8" for w
    using s assms(2) that by (auto simp: subslice_def take_drop min_def add.commute)
  from this [of 2] this [of 8] show "u16 raw i = u16 img (a + i)" "u64 raw i = u64 img (a + i)"
    by (simp_all add: u16_subslice u64_subslice)
qed

text \<open>The fields of the record at an offset of the image.\<close>

definition record_at :: "image \<Rightarrow> nat \<Rightarrow> inode \<Rightarrow> bool" where
  "record_at img off i \<longleftrightarrow>
     length (direct_blocks i) = 12 \<and> (\<forall>k < 12. u32 img (off + (40 + k * 4)) = Some (direct_blocks i ! k))
   \<and> length (indirect_blocks i) = 3 \<and> (\<forall>k < 3. u32 img (off + (88 + k * 4)) = Some (indirect_blocks i ! k))
   \<and> u32 img (off + 112) = Some (di_mode i) \<and> u16 img (off + 2) = Some (di_nlink i)
   \<and> u32 img (off + 116) = Some (di_uid i) \<and> u32 img (off + 120) = Some (di_gid i)
   \<and> u32 img (off + 16) = Some (di_atime i) \<and> u32 img (off + 24) = Some (di_mtime i)
   \<and> u32 img (off + 32) = Some (di_ctime i) \<and> u64 img (off + 8) = Some (di_size i)
   \<and> u32 img (off + 104) = Some (di_blocks i)"

lemma decode_inode_iff:
  assumes "subslice img off (off + 128) = Some raw"
  shows "decode_inode raw = Some i \<longleftrightarrow> record_at img off i"
proof -
  note r = u32_of_subslice [OF assms] read_of_subslice [OF assms]
  have d: "u32 raw (40 + k * 4) = u32 img (off + (40 + k * 4))" if "k < 12" for k using that by (intro r) auto
  have j: "u32 raw (88 + k * 4) = u32 img (off + (88 + k * 4))" if "k < 3" for k using that by (intro r) auto
  show ?thesis
    unfolding decode_inode_def bind_eq_Some_conv mapM_iff record_at_def
    by (cases i) (auto simp: r d j)
qed

lemma read_inode_iff:
  assumes u: "layout_ok u" and n: "valid_ino (sb u) n" and f: "tables_fit u img"
  shows "read_inode img u n = Some (Some i) \<longleftrightarrow> record_at img (inode_offset u n) i"
proof -
  note o = inode_offset_facts [OF u n]
  have fit: "inode_offset u n + 128 \<le> length img" using f n by (simp add: tables_fit_def)
  then obtain raw where raw: "subslice img (inode_offset u n) (inode_offset u n + 128) = Some raw" by (simp add: subslice_def)
  have st: "i64 (int (start_offset u)) = int (start_offset u)" using layout_facts(2) [OF u] by (simp add: in_i64_def)
  have e: "i64 (inode_byte_offset (sb u) (start_offset u) n + 128) = inode_byte_offset (sb u) (start_offset u) n + 128"
    using o(1,2) by (simp add: in_i64_def)
  have "usize (inode_byte_offset (sb u) (start_offset u) n) = inode_offset u n" by (simp add: inode_offset_def)
  then show ?thesis
    using raw o(1,3) fit by (simp add: read_inode_def Let_def st e bind_eq_Some_conv decode_inode_iff [OF raw])
qed

section \<open>Field writers\<close>

text \<open>The byte range of one record.\<close>

definition rec_byte :: "ufs \<Rightarrow> int \<Rightarrow> nat \<Rightarrow> bool" where
  "rec_byte u n k \<longleftrightarrow> inode_offset u n \<le> k \<and> k < inode_offset u n + 128"

lemma put_same_except:
  "put_u16 img off a = Some img' \<Longrightarrow> same_except (\<lambda>k. off \<le> k \<and> k < off + 2) img img'"
  "put_u32 img off b = Some img' \<Longrightarrow> same_except (\<lambda>k. off \<le> k \<and> k < off + 4) img img'"
  "put_u64 img off c = Some img' \<Longrightarrow> same_except (\<lambda>k. off \<le> k \<and> k < off + 8) img img'"
  unfolding same_except_def using codec_length codec_nth by (metis not_less)+

text \<open>A loop that writes a field per index.\<close>

lemma put_range:
  assumes "foldM (\<lambda>m i. put_u32 m (off + i * 4) (f i)) img [k..<l] = Some img'"
  shows "same_except (\<lambda>j. off + k * 4 \<le> j \<and> j < off + l * 4) img img'"
    "k \<le> i \<Longrightarrow> i < l \<Longrightarrow> u32 img' (off + i * 4) = Some (f i)"
proof -
  have "same_except (\<lambda>j. off + k * 4 \<le> j \<and> j < off + l * 4) img img'
      \<and> (\<forall>i. k \<le> i \<longrightarrow> i < l \<longrightarrow> u32 img' (off + i * 4) = Some (f i))"
    using assms
  proof (induction "l - k" arbitrary: k img)
    case (Suc d)
    then have "[k..<l] = k # [Suc k..<l]" by (simp add: upt_conv_Cons)
    then obtain m where m: "put_u32 img (off + k * 4) (f k) = Some m"
      "foldM (\<lambda>m i. put_u32 m (off + i * 4) (f i)) m [Suc k..<l] = Some img'"
      using Suc.prems by (auto simp: bind_eq_Some_conv)
    have ih: "same_except (\<lambda>j. off + Suc k * 4 \<le> j \<and> j < off + l * 4) m img'"
      "\<And>i. Suc k \<le> i \<Longrightarrow> i < l \<Longrightarrow> u32 img' (off + i * 4) = Some (f i)" using Suc.hyps(1) [OF _ m(2)] Suc.hyps(2) by auto
    have "u32 img' (off + k * 4) = u32 m (off + k * 4)"
      using same_except_length [OF ih(1)] by (intro u32_cong same_except_nth [OF ih(1)]) auto
    then have first: "u32 img' (off + k * 4) = Some (f k)" using m(1) by (simp add: codec_same)
    have "same_except (\<lambda>j. off + k * 4 \<le> j \<and> j < off + l * 4) img m"
      by (rule same_except_mono [OF put_same_except(2) [OF m(1)]]) (use Suc.hyps(2) in auto)
    also have "same_except (\<lambda>j. off + k * 4 \<le> j \<and> j < off + l * 4) m img'" by (rule same_except_mono [OF ih(1)]) auto
    finally show ?case using ih(2) first by (metis le_eq_less_or_eq Suc_leI)
  qed simp
  then show "same_except (\<lambda>j. off + k * 4 \<le> j \<and> j < off + l * 4) img img'"
    "k \<le> i \<Longrightarrow> i < l \<Longrightarrow> u32 img' (off + i * 4) = Some (f i)" by auto
qed

lemma put_range_total:
  "off + l * 4 \<le> length img \<Longrightarrow> \<exists>img'. foldM (\<lambda>m i. put_u32 m (off + i * 4) (f i)) img [k..<l] = Some img'"
proof (induction "l - k" arbitrary: k img)
  case (Suc d)
  then have e: "[k..<l] = k # [Suc k..<l]" by (simp add: upt_conv_Cons)
  have "off + k * 4 + 4 \<le> length img" using Suc.prems Suc.hyps(2) by linarith
  then obtain m where m: "put_u32 img (off + k * 4) (f k) = Some m" using c32.write_total by blast
  have "d = l - Suc k" "off + l * 4 \<le> length m" using Suc.prems Suc.hyps(2) codec_length(2) [OF m] by auto
  then show ?case using Suc.hyps(1) [of "Suc k" m] m e by auto
qed simp

text \<open>The setters used by the data path: the named field changes, every other one stays.\<close>

lemma record_fields:
  assumes u: "layout_ok u" and n: "valid_ino (sb u) n" and f: "f + 4 \<le> 128"
  shows "uadd (inode_offset u n) f = inode_offset u n + f"
  using inode_offset_facts(2) [OF u n] f by (simp add: uadd_eq)

lemma record_put:
  assumes "record_at img off i"
  shows "put_u16 img off v = Some m \<Longrightarrow> record_at m off i"
    "put_u16 img (off + 2) v = Some m \<Longrightarrow> record_at m off (i \<lparr> di_nlink := v \<rparr>)"
    "put_u16 img (off + 4) v = Some m \<Longrightarrow> record_at m off i"
    "put_u16 img (off + 6) v = Some m \<Longrightarrow> record_at m off i"
    "put_u64 img (off + 8) x = Some m \<Longrightarrow> record_at m off (i \<lparr> di_size := x \<rparr>)"
    "put_u32 img (off + 16) w = Some m \<Longrightarrow> record_at m off (i \<lparr> di_atime := w \<rparr>)"
    "put_u32 img (off + 20) w = Some m \<Longrightarrow> record_at m off i"
    "put_u32 img (off + 24) w = Some m \<Longrightarrow> record_at m off (i \<lparr> di_mtime := w \<rparr>)"
    "put_u32 img (off + 28) w = Some m \<Longrightarrow> record_at m off i"
    "put_u32 img (off + 32) w = Some m \<Longrightarrow> record_at m off (i \<lparr> di_ctime := w \<rparr>)"
    "put_u32 img (off + 36) w = Some m \<Longrightarrow> record_at m off i"
    "put_u32 img (off + 104) w = Some m \<Longrightarrow> record_at m off (i \<lparr> di_blocks := w \<rparr>)"
    "put_u32 img (off + 112) w = Some m \<Longrightarrow> record_at m off (i \<lparr> di_mode := w \<rparr>)"
    "put_u32 img (off + 116) w = Some m \<Longrightarrow> record_at m off (i \<lparr> di_uid := w \<rparr>)"
    "put_u32 img (off + 120) w = Some m \<Longrightarrow> record_at m off (i \<lparr> di_gid := w \<rparr>)"
    "put_u32 img (off + 124) w = Some m \<Longrightarrow> record_at m off i"
  using assms by (simp_all add: record_at_def codec_disjoint [of img] codec_same)

lemma put_record_byte:
  assumes u: "layout_ok u" and n: "valid_ino (sb u) n"
  shows "put_u16 img (inode_offset u n + f) v = Some m \<Longrightarrow> f + 2 \<le> 128 \<Longrightarrow> same_except (rec_byte u n) img m"
    "put_u32 img (inode_offset u n + f) w = Some m \<Longrightarrow> f + 4 \<le> 128 \<Longrightarrow> same_except (rec_byte u n) img m"
    "put_u64 img (inode_offset u n + f) x = Some m \<Longrightarrow> f + 8 \<le> 128 \<Longrightarrow> same_except (rec_byte u n) img m"
  by (erule same_except_mono [OF put_same_except(1)] same_except_mono [OF put_same_except(2)]
      same_except_mono [OF put_same_except(3)], simp add: rec_byte_def)+

lemma write_inode_size_spec:
  assumes u: "layout_ok u" and n: "valid_ino (sb u) n" and r: "record_at img (inode_offset u n) i"
    and w: "write_inode_size u n sz img = Some img'"
  shows "record_at img' (inode_offset u n) (i \<lparr> di_size := sz \<rparr>)" "same_except (rec_byte u n) img img'"
  using w record_put(5) [OF r] put_record_byte(3) [OF u n, of _ 8] record_fields [OF u n, of 8]
  by (simp_all add: write_inode_size_def)

lemma write_inode_blocks_spec:
  assumes u: "layout_ok u" and n: "valid_ino (sb u) n" and r: "record_at img (inode_offset u n) i"
    and w: "write_inode_blocks u n v img = Some img'"
  shows "record_at img' (inode_offset u n) (i \<lparr> di_blocks := v \<rparr>)" "same_except (rec_byte u n) img img'"
  using w record_put(12) [OF r] put_record_byte(2) [OF u n, of _ 104] record_fields [OF u n, of 104]
  by (simp_all add: write_inode_blocks_def)

lemma write_block_lists_spec:
  assumes u: "layout_ok u" and n: "valid_ino (sb u) n" and r: "record_at img (inode_offset u n) i"
    and w: "write_block_lists u n ds rs img = Some img'"
  shows "record_at img' (inode_offset u n)
      (i \<lparr> direct_blocks := map (pointer_or_0 ds) [0..<12], indirect_blocks := map (pointer_or_0 rs) [0..<3] \<rparr>)"
    "same_except (rec_byte u n) img img'"
proof -
  let ?o = "inode_offset u n"
  have e: "foldM (\<lambda>m k. put_u32 m (uadd ?o (40 + k * 4)) (pointer_or_0 ds k)) s [0..<12]
      = foldM (\<lambda>m k. put_u32 m (?o + 40 + k * 4) (pointer_or_0 ds k)) s [0..<12]"
    "foldM (\<lambda>m k. put_u32 m (uadd ?o (88 + k * 4)) (pointer_or_0 rs k)) s [0..<3]
      = foldM (\<lambda>m k. put_u32 m (?o + 88 + k * 4) (pointer_or_0 rs k)) s [0..<3]" for s
    using record_fields [OF u n] by (auto intro!: foldM_cong_set simp: add.assoc simp del: upt_Suc)
  obtain m where m: "foldM (\<lambda>m k. put_u32 m (?o + 40 + k * 4) (pointer_or_0 ds k)) img [0..<12] = Some m"
    "foldM (\<lambda>m k. put_u32 m (?o + 88 + k * 4) (pointer_or_0 rs k)) m [0..<3] = Some img'"
    using w unfolding write_block_lists_def Let_def e bind_eq_Some_conv by blast
  note d = put_range [OF m(1)] and j = put_range [OF m(2)]
  note ld = same_except_length [OF d(1)] and lj = same_except_length [OF j(1)]
  have s: "same_except (\<lambda>k. ?o + 40 \<le> k \<and> k < ?o + 100) img img'"
    by (rule same_except_trans [OF same_except_mono [OF d(1)] same_except_mono [OF j(1)]]) auto
  have "u32 img' (?o + (40 + k * 4)) = Some (pointer_or_0 ds k)" if "k < 12" for k
  proof -
    have "u32 img' (?o + 40 + k * 4) = u32 m (?o + 40 + k * 4)"
      using that by (intro u32_cong same_except_nth [OF j(1)] lj) auto
    then show ?thesis using d(2) [of k] that by (simp add: add.assoc)
  qed
  moreover have "u32 img' (?o + (88 + k * 4)) = Some (pointer_or_0 rs k)" if "k < 3" for k
    using j(2) [of k] that by (simp add: add.assoc)
  moreover have "u32 img' (?o + k) = u32 img (?o + k)" if "k + 4 \<le> 40 \<or> 100 \<le> k" for k
    using that by (intro u32_cong same_except_nth [OF s] same_except_length [OF s]) auto
  moreover have "u16 img' (?o + 2) = u16 img (?o + 2)" "u64 img' (?o + 8) = u64 img (?o + 8)"
    by (simp_all add: u16_subslice u64_subslice same_except_subslice [OF s])
  ultimately show "record_at img' ?o
      (i \<lparr> direct_blocks := map (pointer_or_0 ds) [0..<12], indirect_blocks := map (pointer_or_0 rs) [0..<3] \<rparr>)"
    using r by (simp add: record_at_def del: upt_Suc)
  show "same_except (rec_byte u n) img img'" by (rule same_except_mono [OF s]) (auto simp: rec_byte_def)
qed

text \<open>A new record: the whole record is cleared first, so every field the caller does not set is zero.\<close>

definition blank_inode :: inode where
  "blank_inode = \<lparr> di_mode = 0, di_nlink = 0, di_uid = 0, di_gid = 0, di_atime = 0, di_mtime = 0, di_ctime = 0,
     di_size = 0, direct_blocks = replicate 12 0, indirect_blocks = replicate 3 0, di_blocks = 0 \<rparr>"

lemma blank_record:
  assumes "off + 128 \<le> length img" "\<And>k. off \<le> k \<Longrightarrow> k < off + 128 \<Longrightarrow> img ! k = 0"
  shows "record_at img off blank_inode"
proof -
  have z: "subslice img (off + f) (off + f + w) = Some (replicate w 0)" if "f + w \<le> 128" for f w
    using assms that by (auto simp: subslice_def intro!: nth_equalityI)
  have le: "le_val (replicate w 0) = 0" for w by (induction w) auto
  have "u16 img (off + 2) = Some 0" using z [of 2 2] by (simp only: u16_subslice le option.map of_nat_0) simp
  moreover have "u32 img (off + f) = Some 0" if "f + 4 \<le> 128" for f using z [OF that] by (simp add: u32_subslice le)
  moreover have "u64 img (off + 8) = Some 0" using z [of 8 8] by (simp add: u64_subslice le)
  ultimately show ?thesis by (simp add: record_at_def blank_inode_def del: replicate_Suc)
qed

text \<open>\<open>wrote u n i img m\<close>: in \<open>m\<close> the record of inode \<open>n\<close> holds \<open>i\<close>, and nothing else differs from \<open>img\<close>.\<close>

definition wrote :: "ufs \<Rightarrow> int \<Rightarrow> inode \<Rightarrow> image \<Rightarrow> image \<Rightarrow> bool" where
  "wrote u n i img m \<longleftrightarrow> inode_offset u n + 128 \<le> length img \<and> same_except (rec_byte u n) img m \<and> record_at m (inode_offset u n) i"

lemma clear_inode_spec:
  assumes f: "inode_offset u n + 128 \<le> length img"
  shows "\<exists>m. clear_inode u n img = Some m \<and> wrote u n blank_inode img m"
proof -
  obtain m where m: "fill_at img (inode_offset u n) (inode_offset u n + 128) 0 = Some m"
    using f copy_at_total [of "inode_offset u n" "replicate 128 0" img] by (auto simp: fill_at_def)
  have "record_at m (inode_offset u n) blank_inode"
    using fill_at_bound [OF m] fill_at_length [OF m] fill_at_nth [OF m] by (intro blank_record) auto
  moreover have "same_except (rec_byte u n) img m"
    using fill_at_length [OF m] fill_at_nth [OF m] by (auto simp: same_except_def rec_byte_def)
  ultimately show ?thesis using f m by (auto simp: clear_inode_def Let_def wrote_def)
qed

lemma wroteI:
  "wrote u n i img a \<Longrightarrow> same_except (rec_byte u n) a m \<Longrightarrow> record_at m (inode_offset u n) i' \<Longrightarrow> wrote u n i' img m"
  unfolding wrote_def using same_except_trans by blast

lemma wrote_puts:
  assumes u: "layout_ok u" and n: "valid_ino (sb u) n" and w: "wrote u n i img a"
  shows "\<exists>m. put_u16 a (inode_offset u n) v = Some m \<and> wrote u n i img m"
    "\<exists>m. put_u16 a (uadd (inode_offset u n) 2) v = Some m \<and> wrote u n (i \<lparr> di_nlink := v \<rparr>) img m"
    "\<exists>m. put_u16 a (uadd (inode_offset u n) 4) v = Some m \<and> wrote u n i img m"
    "\<exists>m. put_u16 a (uadd (inode_offset u n) 6) v = Some m \<and> wrote u n i img m"
    "\<exists>m. put_u64 a (uadd (inode_offset u n) 8) y = Some m \<and> wrote u n (i \<lparr> di_size := y \<rparr>) img m"
    "\<exists>m. put_u32 a (uadd (inode_offset u n) 104) x = Some m \<and> wrote u n (i \<lparr> di_blocks := x \<rparr>) img m"
    "\<exists>m. put_u32 a (uadd (inode_offset u n) 112) x = Some m \<and> wrote u n (i \<lparr> di_mode := x \<rparr>) img m"
    "\<exists>m. put_u32 a (uadd (inode_offset u n) 116) x = Some m \<and> wrote u n (i \<lparr> di_uid := x \<rparr>) img m"
    "\<exists>m. put_u32 a (uadd (inode_offset u n) 120) x = Some m \<and> wrote u n (i \<lparr> di_gid := x \<rparr>) img m"
    "\<exists>m. put_u32 a (uadd (inode_offset u n) 124) x = Some m \<and> wrote u n i img m"
    "\<exists>m. put_u32 a (uadd (inode_offset u n) 16) x = Some m \<and> wrote u n (i \<lparr> di_atime := x \<rparr>) img m"
    "\<exists>m. put_u32 a (uadd (inode_offset u n) 20) x = Some m \<and> wrote u n i img m"
    "\<exists>m. put_u32 a (uadd (inode_offset u n) 24) x = Some m \<and> wrote u n (i \<lparr> di_mtime := x \<rparr>) img m"
    "\<exists>m. put_u32 a (uadd (inode_offset u n) 28) x = Some m \<and> wrote u n i img m"
    "\<exists>m. put_u32 a (uadd (inode_offset u n) 32) x = Some m \<and> wrote u n (i \<lparr> di_ctime := x \<rparr>) img m"
    "\<exists>m. put_u32 a (uadd (inode_offset u n) 36) x = Some m \<and> wrote u n i img m"
proof -
  have r: "record_at a (inode_offset u n) i" and len: "inode_offset u n + 128 \<le> length a"
    using w same_except_length by (auto simp: wrote_def)
  have e: "uadd (inode_offset u n) f = inode_offset u n + f" if "f \<le> 128" for f
    using inode_offset_facts(2) [OF u n] that by (simp add: uadd_eq)
  note rp = record_put [OF r]
  have s16: "\<exists>m. put_u16 a (inode_offset u n + f) v = Some m \<and> wrote u n i' img m"
    if "\<And>m. put_u16 a (inode_offset u n + f) v = Some m \<Longrightarrow> record_at m (inode_offset u n) i'" "f + 2 \<le> 128" for f v i'
    using that wroteI [OF w] put_record_byte(1) [OF u n] c16.write_total [of "inode_offset u n + f" a v] len by fastforce
  have s32: "\<exists>m. put_u32 a (inode_offset u n + f) v = Some m \<and> wrote u n i' img m"
    if "\<And>m. put_u32 a (inode_offset u n + f) v = Some m \<Longrightarrow> record_at m (inode_offset u n) i'" "f + 4 \<le> 128" for f v i'
    using that wroteI [OF w] put_record_byte(2) [OF u n] c32.write_total [of "inode_offset u n + f" a v] len by fastforce
  have s64: "\<exists>m. put_u64 a (inode_offset u n + f) v = Some m \<and> wrote u n i' img m"
    if "\<And>m. put_u64 a (inode_offset u n + f) v = Some m \<Longrightarrow> record_at m (inode_offset u n) i'" "f + 8 \<le> 128" for f v i'
    using that wroteI [OF w] put_record_byte(3) [OF u n] c64.write_total [of "inode_offset u n + f" a v] len by fastforce
  show "\<exists>m. put_u16 a (inode_offset u n) v = Some m \<and> wrote u n i img m"
    "\<exists>m. put_u16 a (uadd (inode_offset u n) 2) v = Some m \<and> wrote u n (i \<lparr> di_nlink := v \<rparr>) img m"
    "\<exists>m. put_u16 a (uadd (inode_offset u n) 4) v = Some m \<and> wrote u n i img m"
    "\<exists>m. put_u16 a (uadd (inode_offset u n) 6) v = Some m \<and> wrote u n i img m"
    using s16 [of 2 v, OF rp(2)] s16 [of 4 v, OF rp(3)] s16 [of 6 v, OF rp(4)] s16 [of 0 v, simplified, OF rp(1)] by (simp_all add: e)
  show "\<exists>m. put_u64 a (uadd (inode_offset u n) 8) y = Some m \<and> wrote u n (i \<lparr> di_size := y \<rparr>) img m"
    using s64 [of 8 y, OF rp(5)] by (simp add: e)
  show "\<exists>m. put_u32 a (uadd (inode_offset u n) 104) x = Some m \<and> wrote u n (i \<lparr> di_blocks := x \<rparr>) img m"
    "\<exists>m. put_u32 a (uadd (inode_offset u n) 112) x = Some m \<and> wrote u n (i \<lparr> di_mode := x \<rparr>) img m"
    "\<exists>m. put_u32 a (uadd (inode_offset u n) 116) x = Some m \<and> wrote u n (i \<lparr> di_uid := x \<rparr>) img m"
    "\<exists>m. put_u32 a (uadd (inode_offset u n) 120) x = Some m \<and> wrote u n (i \<lparr> di_gid := x \<rparr>) img m"
    "\<exists>m. put_u32 a (uadd (inode_offset u n) 124) x = Some m \<and> wrote u n i img m"
    using s32 [of 104 x, OF rp(12)] s32 [of 112 x, OF rp(13)] s32 [of 116 x, OF rp(14)] s32 [of 120 x, OF rp(15)] s32 [of 124 x, OF rp(16)] by (simp_all add: e)
  show "\<exists>m. put_u32 a (uadd (inode_offset u n) 16) x = Some m \<and> wrote u n (i \<lparr> di_atime := x \<rparr>) img m"
    "\<exists>m. put_u32 a (uadd (inode_offset u n) 20) x = Some m \<and> wrote u n i img m"
    "\<exists>m. put_u32 a (uadd (inode_offset u n) 24) x = Some m \<and> wrote u n (i \<lparr> di_mtime := x \<rparr>) img m"
    "\<exists>m. put_u32 a (uadd (inode_offset u n) 28) x = Some m \<and> wrote u n i img m"
    "\<exists>m. put_u32 a (uadd (inode_offset u n) 32) x = Some m \<and> wrote u n (i \<lparr> di_ctime := x \<rparr>) img m"
    "\<exists>m. put_u32 a (uadd (inode_offset u n) 36) x = Some m \<and> wrote u n i img m"
    using s32 [of 16 x, OF rp(6)] s32 [of 20 x, OF rp(7)] s32 [of 24 x, OF rp(8)] s32 [of 28 x, OF rp(9)] s32 [of 32 x, OF rp(10)] s32 [of 36 x, OF rp(11)] by (simp_all add: e)
qed

lemma wrote_time:
  assumes u: "layout_ok u" and n: "valid_ino (sb u) n" and w: "wrote u n i img a"
  shows "\<exists>m. write_inode_time (inode_offset u n) 16 x a = Some m \<and> wrote u n (i \<lparr> di_atime := x \<rparr>) img m"
    "\<exists>m. write_inode_time (inode_offset u n) 24 x a = Some m \<and> wrote u n (i \<lparr> di_mtime := x \<rparr>) img m"
    "\<exists>m. write_inode_time (inode_offset u n) 32 x a = Some m \<and> wrote u n (i \<lparr> di_ctime := x \<rparr>) img m"
proof -
  note p = wrote_puts [OF u n]
  show "\<exists>m. write_inode_time (inode_offset u n) 16 x a = Some m \<and> wrote u n (i \<lparr> di_atime := x \<rparr>) img m"
    unfolding write_inode_time_def by (rule bind_ex [OF p(11) [OF w]]) (simp add: p(12))
  show "\<exists>m. write_inode_time (inode_offset u n) 24 x a = Some m \<and> wrote u n (i \<lparr> di_mtime := x \<rparr>) img m"
    unfolding write_inode_time_def by (rule bind_ex [OF p(13) [OF w]]) (simp add: p(14))
  show "\<exists>m. write_inode_time (inode_offset u n) 32 x a = Some m \<and> wrote u n (i \<lparr> di_ctime := x \<rparr>) img m"
    unfolding write_inode_time_def by (rule bind_ex [OF p(15) [OF w]]) (simp add: p(16))
qed

text \<open>What \<open>initialize_inode\<close> leaves in the record.\<close>

definition fresh_inode :: "u32 \<Rightarrow> u32 \<Rightarrow> u32 \<Rightarrow> u16 \<Rightarrow> u32 \<Rightarrow> inode" where
  "fresh_inode mode uid gid nlink ts = blank_inode \<lparr> di_mode := mode, di_nlink := nlink, di_uid := uid, di_gid := gid,
     di_atime := ts, di_mtime := ts, di_ctime := ts \<rparr>"

lemma initialize_inode_spec:
  assumes u: "layout_ok u" and n: "valid_ino (sb u) n" and f: "inode_offset u n + 128 \<le> length img"
  shows "\<exists>m. initialize_inode u n mode uid gid nlink ts img = Some m
    \<and> wrote u n (fresh_inode mode uid gid nlink ts) img m"
proof -
  note p = wrote_puts [OF u n] and t = wrote_time [OF u n]
  show ?thesis
    unfolding initialize_inode_def Let_def fresh_inode_def
    by (rule bind_ex [OF clear_inode_spec [OF f]], rule bind_ex [OF p(1)], assumption, rule bind_ex [OF p(2)], assumption,
        rule bind_ex [OF p(3)], assumption, rule bind_ex [OF p(4)], assumption, rule bind_ex [OF t(1)], assumption,
        rule bind_ex [OF t(2)], assumption, rule bind_ex [OF t(3)], assumption, rule bind_ex [OF p(7)], assumption,
        rule bind_ex [OF p(8)], assumption, rule bind_ex [OF p(9)], assumption, drule p(10), simp add: blank_inode_def)
qed

text \<open>The attribute setters.\<close>

lemma set_inode_mode_spec:
  assumes "layout_ok u" "valid_ino (sb u) n" "wrote u n i img a"
  shows "\<exists>m. set_inode_mode u n mode a = Some m \<and> wrote u n (i \<lparr> di_mode := mode \<rparr>) img m"
  unfolding set_inode_mode_def by (rule wrote_puts(7) [OF assms])

lemma write_inode_nlink_spec:
  assumes "layout_ok u" "valid_ino (sb u) n" "wrote u n i img a"
  shows "\<exists>m. write_inode_nlink u n v a = Some m \<and> wrote u n (i \<lparr> di_nlink := v \<rparr>) img m"
  unfolding write_inode_nlink_def by (rule wrote_puts(2) [OF assms])

lemma set_inode_owner_spec:
  assumes u: "layout_ok u" "valid_ino (sb u) n" and w: "wrote u n i img a"
  shows "\<exists>m. set_inode_owner u n uid gid a = Some m \<and> wrote u n (i \<lparr> di_uid := uid, di_gid := gid \<rparr>) img m"
  unfolding set_inode_owner_def Let_def
  by (rule bind_ex [OF wrote_puts(3) [OF u w]], rule bind_ex [OF wrote_puts(4) [OF u]], assumption,
      rule bind_ex [OF wrote_puts(8) [OF u]], assumption, rule wrote_puts(9) [OF u])

definition or_old :: "'a option \<Rightarrow> 'a \<Rightarrow> 'a" where
  "or_old v old = (case v of Some x \<Rightarrow> x | None \<Rightarrow> old)"

lemma set_inode_times_spec:
  assumes u: "layout_ok u" "valid_ino (sb u) n" and w: "wrote u n i img a"
  shows "\<exists>m. set_inode_times u n at mt ct a = Some m \<and> wrote u n (i \<lparr> di_atime := or_old at (di_atime i),
     di_mtime := or_old mt (di_mtime i), di_ctime := or_old ct (di_ctime i) \<rparr>) img m"
proof -
  note t = wrote_time [OF u]
  have a: "\<exists>m. set_time_field (inode_offset u n) 16 v b = Some m \<and> wrote u n (j \<lparr> di_atime := or_old v (di_atime j) \<rparr>) img m"
    and b: "\<exists>m. set_time_field (inode_offset u n) 24 v b = Some m \<and> wrote u n (j \<lparr> di_mtime := or_old v (di_mtime j) \<rparr>) img m"
    and c: "\<exists>m. set_time_field (inode_offset u n) 32 v b = Some m \<and> wrote u n (j \<lparr> di_ctime := or_old v (di_ctime j) \<rparr>) img m"
    if "wrote u n j img b" for j v b
    using t [OF that] that by (cases v; simp add: set_time_field_def or_old_def)+
  show ?thesis
    unfolding set_inode_times_def Let_def
    by (rule bind_ex [OF a [OF w]], rule bind_ex [OF b], assumption, drule c, simp)
qed

section \<open>Reading after writing\<close>

lemma tables_fit_length: "length m = length img \<Longrightarrow> tables_fit u m = tables_fit u img"
  by (simp add: tables_fit_def)

lemma wrote_refl:
  assumes "tables_fit u img" "valid_ino (sb u) n" "record_at img (inode_offset u n) i"
  shows "wrote u n i img img"
  using assms by (auto simp: wrote_def tables_fit_def)

lemma record_exists:
  assumes "off + 128 \<le> length img"
  shows "\<exists>i. record_at img off i"
proof -
  define f where "f k = the (u32 img (off + k))" for k
  have r: "u32 img (off + k) = Some (f k)" if "k + 4 \<le> 128" for k
    using u32_total [of "off + k" img] assms that by (auto simp: f_def)
  obtain l where "u16 img (off + 2) = Some l" using u16_total [of "off + 2" img] assms by auto
  moreover obtain s where "u64 img (off + 8) = Some s" using u64_total [of "off + 8" img] assms by auto
  ultimately show ?thesis
    by (intro exI [of _ "\<lparr> di_mode = f 112, di_nlink = l, di_uid = f 116, di_gid = f 120, di_atime = f 16,
      di_mtime = f 24, di_ctime = f 32, di_size = s, direct_blocks = map (\<lambda>k. f (40 + k * 4)) [0..<12],
      indirect_blocks = map (\<lambda>k. f (88 + k * 4)) [0..<3], di_blocks = f 104 \<rparr>"])
      (simp add: record_at_def r del: upt_Suc)
qed

text \<open>A record depends on its own bytes only.\<close>

lemma record_at_cong:
  assumes "length m = length img" "\<And>k. off \<le> k \<Longrightarrow> k < off + 128 \<Longrightarrow> m ! k = img ! k"
  shows "record_at m off i = record_at img off i"
proof -
  have s: "subslice m (off + f) (off + f + w) = subslice img (off + f) (off + f + w)" if "f + w \<le> 128" for f w
    using assms that by (intro subslice_eqI) auto
  have r: "u32 m (off + f) = u32 img (off + f)" if "f + 4 \<le> 128" for f using s [OF that] by (simp add: u32_subslice)
  have d: "u32 m (off + (40 + k * 4)) = u32 img (off + (40 + k * 4))" if "k < 12" for k using that by (intro r) auto
  have j: "u32 m (off + (88 + k * 4)) = u32 img (off + (88 + k * 4))" if "k < 3" for k using that by (intro r) auto
  have "u16 m (off + 2) = u16 img (off + 2)" "u64 m (off + 8) = u64 img (off + 8)"
    using s [of 2 2] s [of 8 8] by (simp_all add: u16_subslice u64_subslice)
  then show ?thesis
    unfolding record_at_def
    using r [of 112] r [of 116] r [of 120] r [of 16] r [of 24] r [of 32] r [of 104] d j by simp
qed

lemma read_inode_cong:
  assumes u: "layout_ok u" and n: "valid_ino (sb u) n" and f: "tables_fit u img"
    and l: "length m = length img" and k: "\<And>k. rec_byte u n k \<Longrightarrow> m ! k = img ! k"
  shows "read_inode m u n = read_inode img u n"
proof -
  have fm: "tables_fit u m" using f tables_fit_length [OF l] by simp
  obtain i where i: "record_at img (inode_offset u n) i" using record_exists f n unfolding tables_fit_def by blast
  have "record_at m (inode_offset u n) i = record_at img (inode_offset u n) i"
    by (rule record_at_cong [OF l k]) (simp add: rec_byte_def)
  then have "read_inode m u n = Some (Some i)" "read_inode img u n = Some (Some i)"
    using i read_inode_iff [OF u n f, of i] read_inode_iff [OF u n fm, of i] by blast+
  then show ?thesis by (rule trans [OF _ sym])
qed

lemma wrote_reads:
  assumes u: "layout_ok u" and n: "valid_ino (sb u) n" and f: "tables_fit u img" and w: "wrote u n i img m"
  shows "read_inode m u n = Some (Some i)" "valid_ino (sb u) k \<Longrightarrow> k \<noteq> n \<Longrightarrow> read_inode m u k = read_inode img u k"
proof -
  have s: "same_except (rec_byte u n) img m" and r: "record_at m (inode_offset u n) i" using w by (auto simp: wrote_def)
  have l: "length m = length img" by (rule same_except_length [OF s])
  then have fm: "tables_fit u m" using f tables_fit_length by blast
  show "read_inode m u n = Some (Some i)" using r read_inode_iff [OF u n fm] by simp
  show "read_inode m u k = read_inode img u k" if k: "valid_ino (sb u) k" "k \<noteq> n"
    using inode_offset_disjoint [OF u n k(1)] k(2)
    by (intro read_inode_cong [OF u k(1) f l] same_except_nth [OF s]) (auto simp: rec_byte_def)
qed

end
