(* ===== verification/Block_Lists.thy ===== *)
theory Block_Lists
  imports Inode_Record
begin

text \<open>
  The block lists of an inode as the reader resolves them and the writer builds them, the release of a list
  of allocations, and the copy of data into fresh blocks and back.
\<close>

section \<open>The block lists of an inode\<close>

lemma direct_loop_take:
  "case direct_loop needed acc ps of
     Inl b \<Rightarrow> b = take needed (acc @ filter (\<lambda>p. p \<noteq> 0) ps) \<and> needed \<le> length (acc @ filter (\<lambda>p. p \<noteq> 0) ps)
   | Inr b \<Rightarrow> b = acc @ filter (\<lambda>p. p \<noteq> 0) ps"
proof (induction ps arbitrary: acc)
  case (Cons p ps)
  consider "p = 0" | "p \<noteq> 0" "length (acc @ [p]) \<ge> needed" | "p \<noteq> 0" "length (acc @ [p]) < needed" by linarith
  then show ?case
  proof cases
    case 1
    then show ?thesis using Cons.IH [of acc] by (simp split: sum.splits)
  next
    case 2
    then have "take needed (acc @ [p]) = take needed ((acc @ [p]) @ filter (\<lambda>p. p \<noteq> 0) ps)" by (subst take_append) simp
    then show ?thesis using 2 by (simp add: Let_def)
  next
    case 3
    then show ?thesis using Cons.IH [of "acc @ [p]"] by (simp add: Let_def split: sum.splits)
  qed
qed simp

lemma indirect_loop_take:
  assumes "length xss = length rs" "\<And>j. j < length rs \<Longrightarrow> collect_indirect_data_blocks img u (k + j + 1) (rs ! j) None = Some (xss ! j)"
  shows "indirect_loop img u needed acc (enumerate k rs) = Some (take needed (acc @ concat xss))"
  using assms
proof (induction rs arbitrary: k xss acc)
  case (Cons r rs)
  obtain xs xss' where xss: "xss = xs # xss'" "length xss' = length rs" using Cons.prems(1) by (cases xss) auto
  have c: "collect_indirect_data_blocks img u (Suc k) r (Some (needed - length acc)) = Some (take (needed - length acc) xs)"
    using Cons.prems(2) [of 0] xss by (intro collect_take) simp
  have ih: "indirect_loop img u needed acc' (enumerate (Suc k) rs) = Some (take needed (acc' @ concat xss'))" for acc'
    using Cons.prems(2) [of "Suc _"] xss by (intro Cons.IH) auto
  show ?case
  proof (cases "needed \<le> length acc + length (take (needed - length acc) xs)")
    case True
    then show ?thesis using c xss by (auto simp: Let_def)
  next
    case False
    then have "take (needed - length acc) xs = xs" by simp
    then show ?thesis using False c ih xss by (simp add: Let_def)
  qed
qed simp

text \<open>
  An inode's block list: the non-zero direct pointers and what is found below the three roots, cut at the
  number of blocks the size needs.
\<close>

lemma inode_data_blocks_eq:
  assumes "length xss = length (indirect_blocks i)"
    "\<And>j. j < length (indirect_blocks i) \<Longrightarrow>
       collect_indirect_data_blocks img u (Suc j) (indirect_blocks i ! j) None = Some (xss ! j)"
  shows "inode_data_blocks img u i =
    Some (take (needed_blocks (sb u) (di_size i)) (filter (\<lambda>p. p \<noteq> 0) (direct_blocks i) @ concat xss))"
proof -
  let ?n = "needed_blocks (sb u) (di_size i)"
  have l: "indirect_loop img u ?n acc (enumerate 0 (indirect_blocks i)) = Some (take ?n (acc @ concat xss))" for acc
    using assms by (intro indirect_loop_take) auto
  show ?thesis
    using direct_loop_take [of ?n "[]" "direct_blocks i"] l
    unfolding inode_data_blocks_def Let_def by (auto split: sum.splits)
qed

lemma pointer_fold:
  assumes "length pss = length rs" "\<And>j. j < length rs \<Longrightarrow> collect_indirect_pointer_blocks img u (k + j + 1) (rs ! j) = Some (pss ! j)"
  shows "foldM (\<lambda>blocks (level_index, root_block).
        do { more \<leftarrow> collect_indirect_pointer_blocks img u (level_index + 1) root_block; Some (blocks @ more) })
      acc (enumerate k rs) = Some (acc @ concat pss)"
  using assms
proof (induction rs arbitrary: k pss acc)
  case (Cons r rs)
  obtain ps pss' where pss: "pss = ps # pss'" "length pss' = length rs" using Cons.prems(1) by (cases pss) auto
  have "foldM (\<lambda>blocks (level_index, root_block).
        do { more \<leftarrow> collect_indirect_pointer_blocks img u (level_index + 1) root_block; Some (blocks @ more) })
      (acc @ ps) (enumerate (Suc k) rs) = Some ((acc @ ps) @ concat pss')"
    using Cons.prems(2) [of "Suc _"] pss by (intro Cons.IH) auto
  then show ?case using Cons.prems(2) [of 0] pss by simp
qed simp

lemma inode_pointer_blocks_eq:
  assumes "length pss = length (indirect_blocks i)"
    "\<And>j. j < length (indirect_blocks i) \<Longrightarrow> collect_indirect_pointer_blocks img u (Suc j) (indirect_blocks i ! j) = Some (pss ! j)"
  shows "inode_pointer_blocks img u i = Some (concat pss)"
  unfolding inode_pointer_blocks_def using pointer_fold [of pss "indirect_blocks i" img u 0 "[]"] assms by simp

section \<open>Building the three levels\<close>

text \<open>What a root of a level reads: nothing when it is zero.\<close>

definition root_reads :: "ufs \<Rightarrow> nat \<Rightarrow> int \<Rightarrow> int list \<Rightarrow> u32 list \<Rightarrow> image \<Rightarrow> bool" where
  "root_reads u l root xs ps img \<longleftrightarrow> (\<forall>p \<in> set ps. block_addr u (uint p)) \<and>
     (\<forall>img'. same_frags u (frag_set u ps) img img' \<longrightarrow>
        collect_indirect_data_blocks img' u (Suc l) (of_int root) None = Some (map of_int xs)
      \<and> collect_indirect_pointer_blocks img' u (Suc l) (of_int root) = Some ps)"

lemma root_reads_0: "root_reads u l 0 [] [] img"
  by (simp add: root_reads_def collect_indirect_data_blocks.simps collect_indirect_pointer_blocks.simps)

lemma root_reads_tree: "tree_reads u l root xs ps img \<Longrightarrow> root_reads u l root xs ps img"
  by (simp add: root_reads_def tree_reads_def)

lemma root_reads_stable:
  "root_reads u l root xs ps img \<Longrightarrow> same_frags u (frag_set u ps) img img' \<Longrightarrow> root_reads u l root xs ps img'"
  unfolding root_reads_def using same_frags_trans by blast

fun roots_read :: "ufs \<Rightarrow> nat list \<Rightarrow> int list \<Rightarrow> int list list \<Rightarrow> u32 list list \<Rightarrow> image \<Rightarrow> bool" where
  "roots_read u (l # ls) (r # rs) (c # cs) (ps # pss) img \<longleftrightarrow>
     root_reads u (l - 1) r c ps img \<and> roots_read u ls rs cs pss img"
| "roots_read u ls rs cs pss img \<longleftrightarrow> ls = [] \<and> rs = [] \<and> cs = [] \<and> pss = []"

lemma roots_read_stable:
  "roots_read u ls rs cs pss img \<Longrightarrow> same_frags u (frag_set u (concat pss)) img img' \<Longrightarrow> roots_read u ls rs cs pss img'"
proof (induction u ls rs cs pss img rule: roots_read.induct)
  case (1 u l ls r rs c cs ps pss img)
  then have s: "same_frags u (frag_set u ps) img img'" "same_frags u (frag_set u (concat pss)) img img'"
    by (auto elim: same_frags_mono)
  then show ?case using 1 root_reads_stable by auto
qed auto

text \<open>The pieces of the block list that the levels take.\<close>

primrec level_pieces :: "nat \<Rightarrow> int list \<Rightarrow> nat list \<Rightarrow> int list list" where
  "level_pieces n xs [] = []"
| "level_pieces n xs (l # ls) = take (n ^ l) xs # level_pieces n (drop (n ^ l) xs) ls"

lemma level_capacity:
  assumes u: "layout_ok u" and l: "l \<le> 3"
  shows "usize (nindir (sb u)) ^ l mod 2 ^ 64 = nind u ^ l"
proof -
  note n = nind_facts [OF u]
  have "nind u ^ l \<le> 2048 ^ 3" using power_mono [OF n(4), of l] power_increasing [OF l, of "2048::nat"] by simp
  then show ?thesis using n(1) by simp
qed

lemma build_level:
  assumes o: "owned u ino A img" and l: "1 \<le> l" "l \<le> 3" and xs: "\<And>x. x \<in> set xs \<Longrightarrow> block_addr u x"
    and len: "length xs \<le> nind u ^ l"
  shows "wp (if xs \<noteq> [] then build_pointer_tree u ino (l - 1) xs else wreturn (0, 0)) (\<lambda>(root, cnt) img'.
     \<exists>ps. takes u ino A ps img img' \<and> root_reads u (l - 1) root xs ps img' \<and> cnt = int (length ps)) (intact u ino A img) img"
proof (cases "xs = []")
  case True
  then show ?thesis using takes_refl [OF o] root_reads_0 by (auto intro!: exI [of _ "[]"])
next
  case False
  have u: "layout_ok u" using o by (simp add: owned_def)
  have "tree_fits u (l - 1) xs" using False l xs len by (auto simp: tree_fits_def simp flip: power_Suc)
  then have "wp (build_pointer_tree u ino (l - 1) xs) (\<lambda>(root, cnt) img'.
       \<exists>ps. takes u ino A ps img img' \<and> tree_reads u (l - 1) root xs ps img' \<and> cnt = int (length ps)) (intact u ino A img) img"
    using build_pointer_tree_builds [OF u] o unfolding builds_def by blast
  then show ?thesis using False by (auto elim!: wp_mono intro: root_reads_tree)
qed

lemma build_levels_wp:
  assumes "owned u ino A img" "\<And>l. l \<in> set ls \<Longrightarrow> 1 \<le> l \<and> l \<le> 3" "\<And>x. x \<in> set xs \<Longrightarrow> block_addr u x"
  shows "wp (build_levels u ino xs ls) (\<lambda>roots img'. \<exists>pss. takes u ino A (concat pss) img img'
     \<and> roots_read u ls (map fst roots) (level_pieces (nind u) xs ls) pss img'
     \<and> sum_list (map snd roots) = int (length (concat pss))) (intact u ino A img) img"
  using assms
proof (induction ls arbitrary: A img xs)
  case Nil
  then show ?case using takes_refl by (auto intro!: exI [of _ "[]"])
next
  case (Cons l ls)
  have u: "layout_ok u" using Cons.prems(1) by (simp add: owned_def)
  have l: "1 \<le> l" "l \<le> 3" using Cons.prems(2) by auto
  let ?c = "take (nind u ^ l) xs" and ?d = "drop (nind u ^ l) xs"
  have mn: "take (min (length xs) (nind u ^ l)) xs = ?c" "drop (min (length xs) (nind u ^ l)) xs = ?d"
    by (simp_all add: min_def)
  let ?first = "\<lambda>(root, cnt) img1. \<exists>ps. takes u ino A ps img img1 \<and> root_reads u (l - 1) root ?c ps img1 \<and> cnt = int (length ps)"
  let ?Q = "\<lambda>root roots img'. \<exists>pss. takes u ino A (concat pss) img img'
     \<and> roots_read u (l # ls) (map fst (root # roots)) (?c # level_pieces (nind u) ?d ls) pss img'
     \<and> sum_list (map snd (root # roots)) = int (length (concat pss))"
  have first: "wp (if ?c \<noteq> [] then build_pointer_tree u ino (l - 1) ?c else wreturn (0, 0)) ?first (intact u ino A img) img"
    using Cons.prems(1,3) l by (intro build_level) (auto dest: in_set_takeD)
  have rest: "wp (build_levels u ino ?d ls) (?Q root) (intact u ino A img) img1" if r: "?first root img1" for root img1
  proof -
    obtain ps where ps: "takes u ino A ps img img1" "root_reads u (l - 1) (fst root) ?c ps img1" "snd root = int (length ps)"
      using r by (auto simp: case_prod_beta)
    have o1: "owned u ino (A \<union> frag_set u ps) img1" using ps(1) by (simp add: takes_def)
    have d: "\<And>x. x \<in> set ?d \<Longrightarrow> block_addr u x" using Cons.prems(3) by (auto dest: in_set_dropD)
    have "\<And>l. l \<in> set ls \<Longrightarrow> 1 \<le> l \<and> l \<le> 3" using Cons.prems(2) by simp
    then show ?thesis
    proof (rule wp_mono [OF Cons.IH [OF o1 _ d]])
      fix roots img'
      assume "\<exists>pss. takes u ino (A \<union> frag_set u ps) (concat pss) img1 img'
        \<and> roots_read u ls (map fst roots) (level_pieces (nind u) ?d ls) pss img'
        \<and> sum_list (map snd roots) = int (length (concat pss))"
      then obtain pss where p: "takes u ino (A \<union> frag_set u ps) (concat pss) img1 img'"
        "roots_read u ls (map fst roots) (level_pieces (nind u) ?d ls) pss img'"
        "sum_list (map snd roots) = int (length (concat pss))" by blast
      then show "?Q root roots img'"
        using takes_trans [OF ps(1) p(1)] root_reads_stable [OF ps(2) takes_keeps [OF p(1)]] ps(3)
        by (intro exI [of _ "ps # pss"]) simp
    qed (use takes_intact [OF ps(1)] in auto)
  qed
  have "wp (wbind (if ?c \<noteq> [] then build_pointer_tree u ino (l - 1) ?c else wreturn (0, 0)) (\<lambda>root.
      wbind (build_levels u ino ?d ls) (\<lambda>roots. wreturn (root # roots)))) (\<lambda>roots img'. \<exists>pss. takes u ino A (concat pss) img img'
     \<and> roots_read u (l # ls) (map fst roots) (?c # level_pieces (nind u) ?d ls) pss img'
     \<and> sum_list (map snd roots) = int (length (concat pss))) (intact u ino A img) img"
    unfolding wp_wbind wp_simps(1) by (rule wp_mono [OF first rest])
  then show ?case unfolding build_levels.simps Let_def level_capacity [OF u l(2)] mn level_pieces.simps .
qed

section \<open>Runs of fragments\<close>

text \<open>An allocation is a block address and a length in bytes; its run is what it covers.\<close>

definition alloc_run :: "ufs \<Rightarrow> int \<times> int \<Rightarrow> int set" where
  "alloc_run u a = run (fst a) (snd a div fsize (sb u))"

definition alloc_runs :: "ufs \<Rightarrow> (int \<times> int) list \<Rightarrow> int set" where
  "alloc_runs u as = (\<Union>a \<in> set as. alloc_run u a)"

definition apart_runs :: "ufs \<Rightarrow> (int \<times> int) list \<Rightarrow> bool" where
  "apart_runs u = sorted_wrt (\<lambda>a b. alloc_run u a \<inter> alloc_run u b = {})"

lemma alloc_runs_simps [simp]:
  "alloc_runs u [] = {}" "alloc_runs u (a # as) = alloc_run u a \<union> alloc_runs u as"
  "alloc_runs u (as @ as') = alloc_runs u as \<union> alloc_runs u as'" "alloc_runs u (rev as) = alloc_runs u as"
  by (auto simp: alloc_runs_def)

lemma apart_runs_simps [simp]:
  "apart_runs u []" "apart_runs u (a # as) \<longleftrightarrow> alloc_run u a \<inter> alloc_runs u as = {} \<and> apart_runs u as"
  "apart_runs u (as @ as') \<longleftrightarrow> apart_runs u as \<and> apart_runs u as' \<and> alloc_runs u as \<inter> alloc_runs u as' = {}"
  "apart_runs u (rev as) \<longleftrightarrow> apart_runs u as"
  unfolding apart_runs_def alloc_runs_def
  by (auto simp: sorted_wrt_append sorted_wrt_rev Int_commute)

definition run_ok :: "ufs \<Rightarrow> int \<times> int \<Rightarrow> bool" where
  "run_ok u a \<longleftrightarrow> block_addr u (fst a) \<and> request_ok u (snd a)"

lemma run_okD:
  assumes u: "layout_ok u" and a: "run_ok u a"
  shows "data_run u (fst a) (snd a div fsize (sb u))" "0 < snd a div fsize (sb u)"
    "nat (snd a) = nat (snd a div fsize (sb u)) * nat (fsize (sb u))" "fst a \<in> alloc_run u a"
proof -
  note rq = request_frags [OF u, of "snd a"]
  have r: "request_ok u (snd a)" "data_run u (fst a) (frag (sb u))" using a by (auto simp: run_ok_def block_addr_def)
  then show "data_run u (fst a) (snd a div fsize (sb u))" "0 < snd a div fsize (sb u)"
    "nat (snd a) = nat (snd a div fsize (sb u)) * nat (fsize (sb u))"
    using rq(1,2,3) [OF r(1)] data_run_mono by auto
  then show "fst a \<in> alloc_run u a" by (auto simp: alloc_run_def run_def)
qed

text \<open>The blocks of a pointer tree as allocations.\<close>

definition block_allocs :: "ufs \<Rightarrow> u32 list \<Rightarrow> (int \<times> int) list" where
  "block_allocs u ps = map (\<lambda>p. (uint p, bsize (sb u))) ps"

lemma block_allocs_facts:
  assumes u: "layout_ok u"
  shows "alloc_runs u (block_allocs u ps) = frag_set u ps" "apart_runs u (block_allocs u ps) = apart_blocks u ps"
    "(\<forall>p \<in> set ps. block_addr u (uint p)) \<Longrightarrow> a \<in> set (block_allocs u ps) \<Longrightarrow> run_ok u a"
proof -
  have r: "alloc_run u (uint p, bsize (sb u)) = run (uint p) (frag (sb u))" for p :: u32
    using request_block [OF u] by (simp add: alloc_run_def)
  show "alloc_runs u (block_allocs u ps) = frag_set u ps"
    by (simp add: alloc_runs_def block_allocs_def frag_set_def r)
  show "apart_runs u (block_allocs u ps) = apart_blocks u ps"
    by (simp add: apart_runs_def apart_blocks_def block_allocs_def sorted_wrt_map r)
  show "(\<forall>p \<in> set ps. block_addr u (uint p)) \<Longrightarrow> a \<in> set (block_allocs u ps) \<Longrightarrow> run_ok u a"
    using request_block [OF u] by (auto simp: block_allocs_def run_ok_def)
qed

section \<open>Releasing allocations\<close>

text \<open>What a release leaves: the other fragments still owned, no byte of theirs nor of the inode tables changed.\<close>

lemma free_owned:
  assumes u: "layout_ok u" and a: "run_ok u a" and o: "own u (A \<union> alloc_run u a) img" and d: "A \<inter> alloc_run u a = {}"
  shows "wp (free_allocation u (fst a) (snd a)) (\<lambda>_ img'. own u A img' \<and> same_except (meta_byte u) img img') (\<lambda>_ _. False) img"
proof (rule wpI)
  have ok: "cgs_ok u img" and q: "block_addr u (fst a)" "request_ok u (snd a)" using o a by (auto simp: own_def run_ok_def)
  show "free_allocation u (fst a) (snd a) img \<noteq> None" by (rule free_allocation_total [OF u q ok])
  have lv: "live (cg_view u img (fst a div fpg (sb u)))"
    using o run_okD(4) [OF u a] by (auto simp: own_def busy_def)
  note sp = free_allocation_spec [OF u q ok lv]
  show False if "free_allocation u (fst a) (snd a) img = Some (Inl e, img')" for e img' using sp [OF that] by simp
  show "own u A img' \<and> same_except (meta_byte u) img img'" if f: "free_allocation u (fst a) (snd a) img = Some (Inr x, img')" for x img'
  proof -
    have fs: "free_spec u (fst a) (snd a div fsize (sb u)) img img'" using sp [OF f] by simp
    then have s: "same_except (meta_byte u) img img'" by (simp add: free_spec_def)
    have "busy u img' x \<and> data_run u x 1 \<and> fboff u x + nat (fsize (sb u)) \<le> length img'" if "x \<in> A" for x
    proof -
      have x: "data_run u x 1" "busy u img x" "fboff u x + nat (fsize (sb u)) \<le> length img" "x \<notin> alloc_run u a"
        using o d that by (auto simp: own_def)
      then show ?thesis
        using fs data_run_valid [OF x(1)] same_except_length [OF s] by (auto simp: free_spec_def alloc_run_def run_def)
    qed
    then show ?thesis using fs s by (auto simp: own_def free_spec_def)
  qed
qed

lemma meta_stable:
  assumes u: "layout_ok u" and o: "own u A img" and s: "same_except (meta_byte u) img img'"
  shows "stable u A img img'"
proof -
  have "img' ! k = img ! k" if "ino_byte u k \<or> (\<exists>x \<in> A. in_frag u x k)" for k
    using same_except_nth [OF s] that ino_byte_not_meta [OF u] in_frag_not_meta [OF u] o unfolding own_def by blast
  then show ?thesis using same_except_length [OF s] by (simp add: stable_def)
qed

lemma free_list:
  assumes u: "layout_ok u" and o: "own u (A \<union> alloc_runs u as) img" and d: "A \<inter> alloc_runs u as = {}"
    and ok: "\<And>a. a \<in> set as \<Longrightarrow> run_ok u a" and ap: "apart_runs u as"
  shows "wp (wfor as (\<lambda>a. free_allocation u (fst a) (snd a))) (\<lambda>_ img'. own u A img' \<and> same_except (meta_byte u) img img')
     (\<lambda>_ _. False) img"
proof -
  let ?I = "\<lambda>rest img'. own u (A \<union> alloc_runs u rest) img' \<and> A \<inter> alloc_runs u rest = {} \<and> apart_runs u rest
    \<and> (\<forall>a \<in> set rest. run_ok u a) \<and> same_except (meta_byte u) img img'"
  have "wp (wfor as (\<lambda>a. free_allocation u (fst a) (snd a))) (\<lambda>_. ?I []) (\<lambda>_ _. False) img"
  proof (rule wp_wfor [where I = ?I])
    show "?I as img" using o d ok ap by simp
    fix a as' img1
    assume i: "?I (a # as') img1"
    have "wp (free_allocation u (fst a) (snd a))
        (\<lambda>_ img'. own u (A \<union> alloc_runs u as') img' \<and> same_except (meta_byte u) img1 img') (\<lambda>_ _. False) img1"
      using i by (intro free_owned [OF u]) (auto simp: Un_ac)
    then show "wp (free_allocation u (fst a) (snd a)) (\<lambda>_. ?I as') (\<lambda>_ _. False) img1"
      by (rule wp_mono) (use i same_except_trans in auto)
  qed
  then show ?thesis by (rule wp_mono) auto
qed

section \<open>Data blocks\<close>

text \<open>The allocations \<open>as\<close> are large enough for the pieces of the data, and hold them.\<close>

fun sizes_fit :: "ufs \<Rightarrow> (int \<times> int) list \<Rightarrow> bytes \<Rightarrow> bool" where
  "sizes_fit u [] data \<longleftrightarrow> data = []"
| "sizes_fit u (a # as) data \<longleftrightarrow> int (length (take (bs u) data)) \<le> snd a \<and> sizes_fit u as (drop (bs u) data)"

fun stored :: "ufs \<Rightarrow> (int \<times> int) list \<Rightarrow> bytes \<Rightarrow> image \<Rightarrow> bool" where
  "stored u [] data img \<longleftrightarrow> data = []"
| "stored u (a # as) data img \<longleftrightarrow>
     subslice img (fboff u (fst a)) (fboff u (fst a) + length (take (bs u) data)) = Some (take (bs u) data)
     \<and> int (length (take (bs u) data)) \<le> snd a \<and> stored u as (drop (bs u) data) img"

lemma stored_stable:
  assumes u: "layout_ok u"
  shows "stored u as data img \<Longrightarrow> same_frags u (alloc_runs u as) img img' \<Longrightarrow> (\<And>a. a \<in> set as \<Longrightarrow> run_ok u a) \<Longrightarrow>
    stored u as data img'"
proof (induction as arbitrary: data)
  case (Cons a as)
  note ok = run_okD [OF u, of a]
  have s: "same_frags u (alloc_run u a) img img'" "same_frags u (alloc_runs u as) img img'"
    using Cons.prems(2) by (auto elim: same_frags_mono)
  have "subslice img' (fboff u (fst a)) (fboff u (fst a) + length (take (bs u) data))
      = subslice img (fboff u (fst a)) (fboff u (fst a) + length (take (bs u) data))"
    using s(1) ok Cons.prems(1,3)
    by (intro same_frags_subslice [OF u s(1), of _ "snd a div fsize (sb u)"]) (auto simp: alloc_run_def simp flip: zle_iff_zadd)
  then show ?case using Cons s(2) by simp
qed simp

lemma write_fresh_wp:
  assumes u: "layout_ok u"
  shows "own u (A \<union> alloc_runs u as) img \<Longrightarrow> A \<inter> alloc_runs u as = {} \<Longrightarrow> (\<And>a. a \<in> set as \<Longrightarrow> run_ok u a) \<Longrightarrow>
     apart_runs u as \<Longrightarrow> sizes_fit u as data \<Longrightarrow>
     wp (write_fresh_blocks u as data) (\<lambda>_ img'. own u (A \<union> alloc_runs u as) img' \<and> stable u A img img' \<and> stored u as data img')
       (\<lambda>_ _. False) img"
proof (induction as arbitrary: A img data)
  case (Cons a as)
  let ?o = "fboff u (fst a)" and ?c = "take (bs u) data" and ?n = "nat (snd a)"
  have ok: "run_ok u a" using Cons.prems(3) by simp
  note r = run_okD [OF u ok]
  have dr: "block_addr u (fst a)" "request_ok u (snd a)" using ok by (auto simp: run_ok_def)
  have off: "usize (data_block_offset (sb u) (start_offset u) (fst a)) = ?o" by (rule block_addr_bounds(5) [OF u dr(1)])
  have sz: "usize (snd a) = ?n" "length ?c \<le> ?n" using request_frags(5) [OF u dr(2)] Cons.prems(5) by auto
  have mn: "take (min (length data) (usize (bsize (sb u)))) data = ?c" "drop (min (length data) (usize (bsize (sb u)))) data = drop (bs u) data"
    using layout_facts(4) [OF u] by (simp_all add: min_def)
  have o1: "own u ((A \<union> alloc_runs u as) \<union> run (fst a) (snd a div fsize (sb u))) img"
    "(A \<union> alloc_runs u as) \<inter> run (fst a) (snd a div fsize (sb u)) = {}"
    using Cons.prems(1,2,4) by (auto simp: alloc_run_def Un_ac)
  have fit: "?o + ?n \<le> length img" unfolding r(3)
    using o1 r by (intro own_run_fits [OF u o1(1)]) auto
  have "?o + length ?c \<le> length img" using fit sz(2) by linarith
  then obtain m1 where m1: "copy_at img ?o ?c = Some m1" using copy_at_total by blast
  obtain m2 where m2: "fill_at m1 (?o + length ?c) (?o + ?n) 0 = Some m2"
    using copy_at_total [of "?o + length ?c" "replicate (?n - length ?c) 0" m1] fit sz(2) copy_at_length [OF m1]
    by (auto simp: fill_at_def)
  have s: "same_except (\<lambda>k. ?o \<le> k \<and> k < ?o + nat (snd a div fsize (sb u)) * nat (fsize (sb u))) img m2"
    unfolding r(3) [symmetric] using sz(2) copy_at_length [OF m1] fill_at_length [OF m2] copy_at_nth [OF m1] fill_at_nth [OF m2]
    by (auto simp: same_except_def)
  note rw = run_write [OF u o1 r(1) s]
  have st: "subslice m2 ?o (?o + length ?c) = Some ?c"
    using subslice_copy_same [OF m1] fill_at_nth [OF m2] fill_at_length [OF m2] by (subst subslice_eqI [of m2 m1]) auto
  have o2: "own u ((A \<union> alloc_run u a) \<union> alloc_runs u as) m2" "(A \<union> alloc_run u a) \<inter> alloc_runs u as = {}"
    using rw(1) o1(2) Cons.prems(2,4) by (auto simp: alloc_run_def Un_ac)
  have "wp (write_fresh_blocks u as (drop (bs u) data)) (\<lambda>_ img'. own u ((A \<union> alloc_run u a) \<union> alloc_runs u as) img'
      \<and> stable u (A \<union> alloc_run u a) m2 img' \<and> stored u as (drop (bs u) data) img') (\<lambda>_ _. False) m2"
    using Cons.prems(3-5) by (intro Cons.IH [OF o2]) auto
  then have "wp (write_fresh_blocks u as (drop (bs u) data)) (\<lambda>_ img'. own u (A \<union> alloc_runs u (a # as)) img'
      \<and> stable u A img img' \<and> stored u (a # as) data img') (\<lambda>_ _. False) m2"
  proof (rule wp_mono)
    fix x :: unit and img'
    assume p: "own u ((A \<union> alloc_run u a) \<union> alloc_runs u as) img' \<and> stable u (A \<union> alloc_run u a) m2 img'
      \<and> stored u as (drop (bs u) data) img'"
    then have sa: "stable u A m2 img'" "same_frags u (run (fst a) (snd a div fsize (sb u))) m2 img'"
      by (auto elim: stable_mono intro!: stable_same_frags [of u "A \<union> alloc_run u a"] simp: alloc_run_def)
    have "subslice img' ?o (?o + length ?c) = Some ?c"
      using st r(3) sz(2) by (subst same_frags_subslice [OF u sa(2) r(1) subset_refl]) auto
    then show "own u (A \<union> alloc_runs u (a # as)) img' \<and> stable u A img img' \<and> stored u (a # as) data img'"
      using p stable_trans [OF stable_mono [OF rw(2)] sa(1)] Cons.prems(5) by (auto simp: Un_ac)
  qed simp
  then show ?case using m1 m2 by (simp add: Let_def case_prod_beta off mn sz(1))
qed simp

text \<open>Reading a range of the blocks gives that part of the data back.\<close>

lemma stored_nth:
  assumes "stored u as data img" "k < length as"
  shows "subslice img (fboff u (fst (as ! k))) (fboff u (fst (as ! k)) + length (take (bs u) (drop (k * bs u) data)))
    = Some (take (bs u) (drop (k * bs u) data))"
  using assms
proof (induction as arbitrary: data k)
  case (Cons a as)
  show ?case
  proof (cases k)
    case 0
    then show ?thesis using Cons.prems by simp
  next
    case (Suc k')
    have "drop (k' * bs u) (drop (bs u) data) = drop (k * bs u) data" using Suc by (simp add: add.commute)
    then show ?thesis using Cons.IH [of "drop (bs u) data" k'] Cons.prems Suc by simp
  qed
qed simp

lemma stored_covers: "stored u as data img \<Longrightarrow> length data \<le> length as * bs u"
  by (induction as arbitrary: data) fastforce+

lemma concat_range:
  fixes b off en s :: nat
  assumes "0 < b" "s = off div b"
  shows "concat (map (\<lambda>k. take (min b (en - k * b) - (off - k * b)) (drop (k * b + (off - k * b)) xs)) [s..<s + m])
    = take (min ((s + m) * b) en - off) (drop off xs)"
proof (induction m)
  case 0
  have "s * b \<le> off" using assms(2) by simp
  then show ?case by simp
next
  case (Suc m)
  let ?K = "(s + m) * b"
  let ?piece = "take (min b (en - ?K) - (off - ?K)) (drop (?K + (off - ?K)) xs)"
  have sb: "s * b \<le> off" "off < s * b + b" using assms dividend_less_div_times [of b off] by (auto simp: add.commute)
  have e: "(s + Suc m) * b = ?K + b" by simp
  have "concat (map (\<lambda>k. take (min b (en - k * b) - (off - k * b)) (drop (k * b + (off - k * b)) xs)) [s..<s + Suc m])
      = take (min ?K en - off) (drop off xs) @ ?piece" using Suc.IH by simp
  also have "\<dots> = take (min (?K + b) en - off) (drop off xs)"
  proof (cases "m = 0")
    case True
    then have "?K \<le> off" "min ?K en - off = 0" using sb(1) by auto
    then have "?K + (off - ?K) = off" "min b (en - ?K) - (off - ?K) = min (?K + b) en - off" by auto
    then show ?thesis using \<open>min ?K en - off = 0\<close> by simp
  next
    case False
    then have "s * b + b \<le> ?K" by (cases m) (simp_all add: algebra_simps)
    then have K: "off \<le> ?K" using sb by linarith
    show ?thesis
    proof (cases "en \<le> ?K")
      case True
      then show ?thesis using K by (simp add: min_def)
    next
      case False
      then have "min (?K + b) en - off = (?K - off) + min b (en - ?K)" "min ?K en - off = ?K - off" using K by auto
      then have "take (min (?K + b) en - off) (drop off xs)
          = take (?K - off) (drop off xs) @ take (min b (en - ?K)) (drop (?K - off) (drop off xs))" by (simp only: take_add)
      then show ?thesis using K \<open>min ?K en - off = ?K - off\<close> by simp
    qed
  qed
  finally show ?case unfolding e .
qed

lemma stored_read_range:
  assumes u: "layout_ok u" and s: "stored u as data img" and a: "\<And>a. a \<in> set as \<Longrightarrow> run_ok u a"
    and l: "length data < 2 ^ 62" and o: "off + sz \<le> length data"
  shows "read_data_range img u (map (\<lambda>a. of_int (fst a)) as) off sz = Some (take sz (drop off data))"
proof (cases "sz = 0")
  case False
  let ?b = "bs u" and ?en = "off + sz" and ?s = "off div bs u"
  let ?n = "min (length as) ((?en + (bs u - 1)) div bs u)"
  have b: "0 < ?b" "?b \<le> 8192" using layout_facts(5,6) [OF u] by auto
  have e: "uadd off sz = ?en" using l o by (simp add: uadd_eq)
  have cover: "?en \<le> ?n * ?b"
  proof -
    have "?en \<le> (?en + (?b - 1)) div ?b * ?b"
      using dividend_less_div_times [OF b(1), of "?en + (?b - 1)"] b by linarith
    then show ?thesis using stored_covers [OF s] o by (auto simp: min_def)
  qed
  have "?s \<le> ?n"
  proof -
    have "?s * ?b < ?n * ?b" using cover False by (meson div_times_less_eq_dividend less_add_same_cancel1 less_le_trans not_gr_zero order_le_less_trans)
    then have "?s < ?n" by (simp only: mult_less_cancel2)
    then show ?thesis by (rule less_imp_le)
  qed
  then obtain m where m: "?n = ?s + m" using le_Suc_ex by blast
  let ?p = "\<lambda>k. take (min ?b (?en - k * ?b) - (off - k * ?b)) (drop (k * ?b + (off - k * ?b)) data)"
  let ?f = "\<lambda>k. let fs_block = map (\<lambda>a. of_int (fst a)) as ! k; logical_start = k * ?b; block_inner_start = off - logical_start;
          block_inner_end = min ?b (?en - logical_start)
        in if block_inner_start \<ge> block_inner_end then Some [] else
           let block_offset = usize (data_block_offset (sb u) (start_offset u) (uint (fs_block :: u32)))
           in subslice img (uadd block_offset block_inner_start) (uadd block_offset block_inner_end)"
  have body: "?f k = Some (?p k)" if k: "k \<in> set [?s..<?n]" for k
  proof (cases "min ?b (?en - k * ?b) \<le> off - k * ?b")
    case False
    have kl: "k < length as" using k by simp
    then have ba: "block_addr u (fst (as ! k))" using a by (simp add: run_ok_def)
    note ab = block_addr_bounds [OF u ba]
    let ?o = "fboff u (fst (as ! k))" and ?i = "off - k * ?b" and ?j = "min ?b (?en - k * ?b)"
    have fb: "?o < 2 ^ 63" using ab(1,2) by (intro data_block_offset_fboff(3) [OF u]) auto
    have ij: "?i < ?j" "?j \<le> 8192" using False b by auto
    then have ua: "uadd ?o ?i = ?o + ?i" "uadd ?o ?j = ?o + ?j" using fb by (auto intro!: uadd_eq)
    have st: "subslice img ?o (?o + length (take ?b (drop (k * ?b) data))) = Some (take ?b (drop (k * ?b) data))"
      by (rule stored_nth [OF s kl])
    have jl: "?j \<le> length (take ?b (drop (k * ?b) data))" using o by auto
    have "subslice img (?o + ?i) (?o + ?j) = Some (take (?j - ?i) (drop ?i (take ?b (drop (k * ?b) data))))"
      using subslice_sub [OF st, of ?i ?j] ij jl by simp
    also have "take (?j - ?i) (drop ?i (take ?b (drop (k * ?b) data))) = ?p k"
      using ij by (simp add: drop_take add.commute)
    finally show ?thesis using False kl by (simp add: Let_def ab ua)
  qed (simp add: Let_def)
  have "read_data_range img u (map (\<lambda>a. of_int (fst a)) as) off sz = Some (concat (map ?p [?s..<?n]))"
    using mapM_Some_map [of "[?s..<?n]" ?f ?p, OF body] False
    unfolding read_data_range_def e Let_def layout_facts(4) [OF u] by simp
  also have "concat (map ?p [?s..<?n]) = take (min (?n * ?b) ?en - off) (drop off data)"
    unfolding m by (rule concat_range [OF b(1) refl])
  also have "min (?n * ?b) ?en - off = sz" using cover by (simp add: min_def)
  finally show ?thesis .
qed (simp add: read_data_range_def)

lemma stored_read:
  assumes "layout_ok u" "stored u as data img" "\<And>a. a \<in> set as \<Longrightarrow> run_ok u a" "length data < 2 ^ 62"
  shows "read_data_range img u (map (\<lambda>a. of_int (fst a)) as) 0 (length data) = Some data"
  using stored_read_range [OF assms, of 0 "length data"] by simp

section \<open>Allocation sizes of a file\<close>

lemma ceil_div:
  fixes b q r :: nat
  assumes "0 < b" "r < b"
  shows "(q * b + r + (b - 1)) div b = q + (if r = 0 then 0 else 1)"
proof (cases "r = 0")
  case True
  then have "q * b + r + (b - 1) = (b - 1) + q * b" by simp
  then have "(q * b + r + (b - 1)) div b = q + (b - 1) div b" using assms by (simp only: div_mult_self1 not_gr_zero)
  then show ?thesis using True assms by simp
next
  case False
  then have "q * b + r + (b - 1) = (r - 1) + (q + 1) * b" using assms by (simp add: algebra_simps)
  then have "(q * b + r + (b - 1)) div b = (q + 1) + (r - 1) div b" using assms by (simp only: div_mult_self1 not_gr_zero)
  then show ?thesis using False assms by simp
qed

lemma sizes_fit_blocks:
  assumes "layout_ok u" "length data = q * bs u + r" "r \<le> bs u" "length blks = q + length ts"
    "(if r = 0 then ts = [] else \<exists>t. ts = [t] \<and> int r \<le> t)"
  shows "sizes_fit u (zip blks (replicate q (bsize (sb u)) @ ts)) data"
  using assms
proof (induction q arbitrary: blks data)
  case 0
  then show ?case by (cases "r = 0"; cases blks) auto
next
  case (Suc q)
  obtain b blks' where b: "blks = b # blks'" using Suc.prems(4) by (cases blks) auto
  have "sizes_fit u (zip blks' (replicate q (bsize (sb u)) @ ts)) (drop (bs u) data)"
    using Suc.prems b by (intro Suc.IH) auto
  then show ?case using b layout_facts(7) [OF Suc.prems(1)] by simp
qed

lemma allocation_sizes:
  assumes u: "layout_ok u" and n: "int n < 2 ^ 62"
  shows "length (allocation_byte_sizes (sb u) (int n)) = (n + (bs u - 1)) div bs u"
    "s \<in> set (allocation_byte_sizes (sb u) (int n)) \<Longrightarrow> request_ok u s"
    "length data = n \<Longrightarrow> length blks = length (allocation_byte_sizes (sb u) (int n)) \<Longrightarrow>
       sizes_fit u (zip blks (allocation_byte_sizes (sb u) (int n))) data"
proof -
  note g = layout_facts(1) [OF u] and b = layout_facts(5-7) [OF u]
  let ?q = "n div bs u" and ?r = "n mod bs u" and ?B = "bsize (sb u)"
  have nq: "n = ?q * bs u + ?r" by simp
  have B: "?B = int (bs u)" using b by simp
  let ?tl = "if ?r = 0 then [] else [if int n > 12 * ?B then ?B else fragroundup (sb u) (int ?r)]"
  have e: "allocation_byte_sizes (sb u) (int n) = replicate ?q ?B @ ?tl"
  proof (cases "n = 0")
    case True
    then show ?thesis by (simp add: allocation_byte_sizes_def)
  next
    case False
    then show ?thesis
      using allocation_byte_sizes_eq [OF g, of "int n"] n by (simp add: B zdiv_int [symmetric] zmod_int [symmetric])
  qed
  have len: "length ?tl = (if ?r = 0 then 0 else 1)" by simp
  show l: "length (allocation_byte_sizes (sb u) (int n)) = (n + (bs u - 1)) div bs u"
  proof -
    have "(n + (bs u - 1)) div bs u = ?q + (if ?r = 0 then 0 else 1)"
      using ceil_div [of "bs u" ?r ?q] b unfolding nq [symmetric] by simp
    then show ?thesis unfolding e by simp
  qed
  have rl: "?r < bs u" using b by simp
  then have "?r < 2 ^ 62" using b(2) by simp
  then have fr: "?r \<noteq> 0 \<Longrightarrow> int ?r \<le> fragroundup (sb u) (int ?r) \<and> fragroundup (sb u) (int ?r) \<le> ?B \<and> fsize (sb u) dvd fragroundup (sb u) (int ?r)"
    using fragroundup_bounds [OF g, of "int ?r"] rl unfolding B by simp
  have rb: "request_ok u ?B" using request_block [OF u] by simp
  show "request_ok u s" if "s \<in> set (allocation_byte_sizes (sb u) (int n))"
    using that fr rb unfolding e by (cases "?r = 0") (auto simp: request_ok_def split: if_splits)
  show "sizes_fit u (zip blks (allocation_byte_sizes (sb u) (int n))) data"
    if "length data = n" "length blks = length (allocation_byte_sizes (sb u) (int n))"
    unfolding e
  proof (rule sizes_fit_blocks [OF u])
    show "length data = ?q * bs u + ?r" using that(1) nq by simp
    show "?r \<le> bs u" using b by (simp add: less_imp_le)
    show "length blks = ?q + length ?tl" using that(2) unfolding e by simp
    show "if ?r = 0 then ?tl = [] else \<exists>t. ?tl = [t] \<and> int ?r \<le> t"
      using fr b(1) unfolding B by (cases "?r = 0") (auto simp: less_imp_le)
  qed
qed

lemma needed_allocations:
  assumes u: "layout_ok u" and n: "uint sz < 2 ^ 62"
  shows "length (allocation_byte_sizes (sb u) (uint sz)) = needed_blocks (sb u) sz"
proof -
  have i: "uint sz = int (unat sz)" by simp
  have "length (allocation_byte_sizes (sb u) (int (unat sz))) = (unat sz + (bs u - 1)) div bs u"
    using n by (intro allocation_sizes(1) [OF u]) simp
  then show ?thesis using layout_facts(5) [OF u] by (auto simp: needed_blocks_def Let_def bs_def)
qed

section \<open>What the contents of a file depend on\<close>

lemma collect_loop_cong:
  "(\<And>p m. p \<in> set ps \<Longrightarrow> p \<noteq> 0 \<Longrightarrow> f p m = g p m) \<Longrightarrow> collect_loop f mx acc ps = collect_loop g mx acc ps"
proof (induction ps arbitrary: acc)
  case (Cons p ps)
  have ih: "\<And>acc. collect_loop f mx acc ps = collect_loop g mx acc ps" by (rule Cons.IH) (use Cons.prems in auto)
  show ?case using ih Cons.prems [of p] by (cases "p = 0"; cases mx) (auto simp: Let_def cong: if_cong)
qed simp

lemma foldM_children_grow:
  "foldM (\<lambda>blocks child. if child = 0 then Some blocks else do { more \<leftarrow> g child; Some (blocks @ more) }) a ys = Some rs
      \<Longrightarrow> set a \<subseteq> set rs"
  by (induction ys arbitrary: a) (fastforce simp: bind_eq_Some_conv split: if_splits)+

lemma foldM_children:
  assumes "foldM (\<lambda>blocks child. if child = 0 then Some blocks else do { more \<leftarrow> g child; Some (blocks @ more) }) acc ps = Some rs"
    "p \<in> set ps" "p \<noteq> 0"
  shows "\<exists>qs. g p = Some qs \<and> set qs \<subseteq> set rs"
  using assms
proof (induction ps arbitrary: acc)
  case (Cons q ps)
  show ?case
  proof (cases "p = q")
    case True
    then obtain more where "g p = Some more"
      "foldM (\<lambda>blocks child. if child = 0 then Some blocks else do { more \<leftarrow> g child; Some (blocks @ more) }) (acc @ more) ps = Some rs"
      using Cons.prems by (auto simp: bind_eq_Some_conv)
    then show ?thesis using foldM_children_grow [of g "acc @ more" ps rs] by auto
  next
    case False
    then show ?thesis using Cons by (auto simp: bind_eq_Some_conv split: if_splits)
  qed
qed simp

text \<open>Both walks of a pointer tree read its pointer blocks only.\<close>

lemma collect_frame:
  assumes u: "layout_ok u" and c: "collect_indirect_pointer_blocks img u (Suc l) b = Some ps"
    and a: "\<forall>p \<in> set ps. block_addr u (uint p)" and s: "same_frags u (frag_set u ps) img img'"
  shows "collect_indirect_pointer_blocks img' u (Suc l) b = Some ps
    \<and> collect_indirect_data_blocks img' u (Suc l) b m = collect_indirect_data_blocks img u (Suc l) b m"
  using c a s
proof (induction l arbitrary: b ps m)
  case 0
  show ?case
  proof (cases "b = 0")
    case False
    then have ps: "ps = [b]" using 0 by (simp add: collect_indirect_pointer_blocks.simps)
    then have ba: "block_addr u (uint b)" "run (uint b) (frag (sb u)) \<subseteq> frag_set u ps" using 0 by auto
    have "read_pointer_block img' u b = read_pointer_block img u b"
      using read_pointer_block_stable [OF u ba(1) 0(3) ba(2)] by simp
    then show ?thesis using ps False
      by (simp add: collect_indirect_data_blocks.simps collect_indirect_pointer_blocks.simps)
  qed (use 0 in \<open>simp add: collect_indirect_data_blocks.simps collect_indirect_pointer_blocks.simps\<close>)
next
  case (Suc l)
  show ?case
  proof (cases "b = 0")
    case False
    let ?g = "\<lambda>im. collect_indirect_pointer_blocks im u (Suc l)"
    obtain children where ch: "read_pointer_block img u b = Some children"
      "foldM (\<lambda>blocks child. if child = 0 then Some blocks else do { more \<leftarrow> ?g img child; Some (blocks @ more) }) [b] children = Some ps"
      using Suc.prems(1) False by (subst (asm) collect_indirect_pointer_blocks.simps) (auto simp: bind_eq_Some_conv)
    have bp: "b \<in> set ps" using foldM_children_grow [OF ch(2)] by simp
    have ba: "block_addr u (uint b)" "run (uint b) (frag (sb u)) \<subseteq> frag_set u ps"
      using bp Suc.prems(2) by (auto simp: frag_set_def)
    have rd: "read_pointer_block img' u b = Some children"
      using read_pointer_block_stable [OF u ba(1) Suc.prems(3) ba(2)] ch(1) by simp
    have kid: "?g img' p = ?g img p \<and> (\<forall>m. collect_indirect_data_blocks img' u (Suc l) p m = collect_indirect_data_blocks img u (Suc l) p m)"
      if p: "p \<in> set children" "p \<noteq> 0" for p
    proof -
      obtain qs where q: "?g img p = Some qs" "set qs \<subseteq> set ps" using foldM_children [OF ch(2) p] by blast
      have "same_frags u (frag_set u qs) img img'"
        by (rule same_frags_mono [OF Suc.prems(3)]) (use q(2) in \<open>auto simp: frag_set_def\<close>)
      then show ?thesis using Suc.IH [OF q(1)] q Suc.prems(2) by auto
    qed
    have "foldM (\<lambda>blocks child. if child = 0 then Some blocks else do { more \<leftarrow> ?g img' child; Some (blocks @ more) }) [b] children
        = foldM (\<lambda>blocks child. if child = 0 then Some blocks else do { more \<leftarrow> ?g img child; Some (blocks @ more) }) [b] children"
      by (rule foldM_cong_set) (use kid in auto)
    moreover have "collect_loop (collect_indirect_data_blocks img' u (Suc l)) mx [] children
        = collect_loop (collect_indirect_data_blocks img u (Suc l)) mx [] children" for mx
      by (rule collect_loop_cong) (use kid in auto)
    ultimately show ?thesis
      using ch rd False
      by (subst collect_indirect_pointer_blocks.simps, subst (1 2) collect_indirect_data_blocks.simps) simp
  qed (use Suc.prems in \<open>simp add: collect_indirect_data_blocks.simps collect_indirect_pointer_blocks.simps\<close>)
qed

lemma pointer_fold_split:
  assumes "foldM (\<lambda>blocks (level_index, root_block).
        do { more \<leftarrow> collect_indirect_pointer_blocks img u (level_index + 1) root_block; Some (blocks @ more) })
      acc (enumerate k rs) = Some ps"
  shows "\<exists>pss. length pss = length rs \<and> ps = acc @ concat pss
    \<and> (\<forall>j < length rs. collect_indirect_pointer_blocks img u (k + j + 1) (rs ! j) = Some (pss ! j))"
  using assms
proof (induction rs arbitrary: k acc)
  case (Cons r rs)
  then obtain qs where q: "collect_indirect_pointer_blocks img u (k + 1) r = Some qs"
    "foldM (\<lambda>blocks (level_index, root_block).
        do { more \<leftarrow> collect_indirect_pointer_blocks img u (level_index + 1) root_block; Some (blocks @ more) })
      (acc @ qs) (enumerate (Suc k) rs) = Some ps" by (auto simp: bind_eq_Some_conv)
  from Cons.IH [OF q(2)] obtain pss where p: "length pss = length rs" "ps = (acc @ qs) @ concat pss"
    "\<forall>j < length rs. collect_indirect_pointer_blocks img u (Suc k + j + 1) (rs ! j) = Some (pss ! j)" by blast
  show ?case
    using p q(1) by (intro exI [of _ "qs # pss"]) (auto simp: less_Suc_eq_0_disj)
qed simp

lemma indirect_loop_cong:
  assumes "\<And>k r m. (k, r) \<in> set xs \<Longrightarrow> collect_indirect_data_blocks img' u (Suc k) r m = collect_indirect_data_blocks img u (Suc k) r m"
  shows "indirect_loop img' u needed acc xs = indirect_loop img u needed acc xs"
  using assms
proof (induction xs arbitrary: acc)
  case (Cons x xs)
  obtain k r where x: "x = (k, r)" by (rule prod.exhaust)
  have ih: "\<And>acc. indirect_loop img' u needed acc xs = indirect_loop img u needed acc xs" by (rule Cons.IH) (use Cons.prems in auto)
  then show ?case using Cons.prems [of k r] x by (simp add: Let_def cong: if_cong)
qed simp

lemma inode_blocks_frame:
  assumes u: "layout_ok u" and p: "inode_pointer_blocks img u i = Some ps" and a: "\<forall>p \<in> set ps. block_addr u (uint p)"
    and s: "same_frags u (frag_set u ps) img img'"
  shows "inode_pointer_blocks img' u i = Some ps" "inode_data_blocks img' u i = inode_data_blocks img u i"
proof -
  obtain pss where ps: "length pss = length (indirect_blocks i)" "ps = concat pss"
    "\<forall>j < length (indirect_blocks i). collect_indirect_pointer_blocks img u (Suc j) (indirect_blocks i ! j) = Some (pss ! j)"
    using pointer_fold_split [OF p [unfolded inode_pointer_blocks_def]] by auto
  have c: "collect_indirect_pointer_blocks img' u (Suc j) (indirect_blocks i ! j) = Some (pss ! j)
      \<and> (\<forall>m. collect_indirect_data_blocks img' u (Suc j) (indirect_blocks i ! j) m = collect_indirect_data_blocks img u (Suc j) (indirect_blocks i ! j) m)"
    if j: "j < length (indirect_blocks i)" for j
  proof -
    have "pss ! j \<in> set pss" using j ps(1) by simp
    then have sub: "set (pss ! j) \<subseteq> set ps" using ps(2) by auto
    have "same_frags u (frag_set u (pss ! j)) img img'"
      by (rule same_frags_mono [OF s]) (use sub in \<open>auto simp: frag_set_def\<close>)
    then show ?thesis using collect_frame [OF u, of img j] ps(3) j a sub by blast
  qed
  show "inode_pointer_blocks img' u i = Some ps" unfolding ps(2) using ps(1) c by (intro inode_pointer_blocks_eq) auto
  have "indirect_loop img' u needed acc (enumerate 0 (indirect_blocks i)) = indirect_loop img u needed acc (enumerate 0 (indirect_blocks i))" for needed acc
    by (rule indirect_loop_cong) (use c in \<open>auto simp: in_set_enumerate_eq\<close>)
  then show "inode_data_blocks img' u i = inode_data_blocks img u i" unfolding inode_data_blocks_def Let_def by (simp split: sum.splits)
qed

end
