(* ===== verification/File_Correct.thy ===== *)
theory File_Correct
  imports Block_Lists
begin

text \<open>
  Correctness of whole-file operations: well-formed files, the replacement of an inode's contents, and that
  files do not disturb each other.
\<close>

section \<open>Files\<close>

definition file_allocs :: "ufs \<Rightarrow> inode \<Rightarrow> u32 list \<Rightarrow> (int \<times> int) list" where
  "file_allocs u i ds = zip (map uint ds) (allocation_byte_sizes (sb u) (uint (di_size i)))"

text \<open>The fragments of a file: its data allocations and its pointer blocks.\<close>

definition file_cells :: "ufs \<Rightarrow> inode \<Rightarrow> u32 list \<Rightarrow> u32 list \<Rightarrow> int set" where
  "file_cells u i ds ps = alloc_runs u (file_allocs u i ds) \<union> frag_set u ps"

text \<open>
  A well-formed file: its blocks resolve, there is one per allocation its size asks for, each is a block
  address of the data area, and no fragment is used twice.
\<close>

definition file_ok :: "ufs \<Rightarrow> image \<Rightarrow> inode \<Rightarrow> u32 list \<Rightarrow> u32 list \<Rightarrow> bool" where
  "file_ok u img i ds ps \<longleftrightarrow> inode_data_blocks img u i = Some ds \<and> inode_pointer_blocks img u i = Some ps
     \<and> uint (di_size i) < 2 ^ 62 \<and> length (indirect_blocks i) = 3
     \<and> length ds = length (allocation_byte_sizes (sb u) (uint (di_size i)))
     \<and> (\<forall>d \<in> set ds. block_addr u (uint d)) \<and> (\<forall>p \<in> set ps. block_addr u (uint p))
     \<and> apart_runs u (block_allocs u ps @ file_allocs u i ds)"

lemma file_allocs_ok:
  assumes u: "layout_ok u" and f: "file_ok u img i ds ps"
  shows "\<And>a. a \<in> set (file_allocs u i ds) \<Longrightarrow> run_ok u a" "\<And>a. a \<in> set (block_allocs u ps) \<Longrightarrow> run_ok u a"
    "alloc_runs u (block_allocs u ps @ file_allocs u i ds) = file_cells u i ds ps"
proof -
  have i: "uint (di_size i) = int (unat (di_size i))" by simp
  have n: "int (unat (di_size i)) < 2 ^ 62" and d: "\<forall>d \<in> set ds. block_addr u (uint d)" "\<forall>p \<in> set ps. block_addr u (uint p)"
    using f by (auto simp: file_ok_def)
  show "run_ok u a" if "a \<in> set (file_allocs u i ds)" for a
  proof -
    obtain x y where a: "a = (x, y)" by (rule prod.exhaust)
    then show ?thesis
      using that d(1) allocation_sizes(2) [OF u n] unfolding file_allocs_def i
      by (fastforce simp: run_ok_def dest: set_zip_leftD set_zip_rightD)
  qed
  show "run_ok u a" if "a \<in> set (block_allocs u ps)" for a by (rule block_allocs_facts(3) [OF u d(2) that])
  show "alloc_runs u (block_allocs u ps @ file_allocs u i ds) = file_cells u i ds ps"
    by (auto simp: file_cells_def block_allocs_facts(1) [OF u])
qed

section \<open>Writing the pointers into the inode\<close>

text \<open>Only the record of inode \<open>n\<close> may have changed among the inode tables and the fragments of \<open>A\<close>.\<close>

definition others_same :: "ufs \<Rightarrow> int \<Rightarrow> int set \<Rightarrow> image \<Rightarrow> image \<Rightarrow> bool" where
  "others_same u n A img img' \<longleftrightarrow> length img' = length img
     \<and> (\<forall>k. ino_byte u k \<and> \<not> rec_byte u n k \<or> (\<exists>x \<in> A. in_frag u x k) \<longrightarrow> img' ! k = img ! k)"

lemma others_same_trans [trans]: "others_same u n A a b \<Longrightarrow> others_same u n A b c \<Longrightarrow> others_same u n A a c"
  by (auto simp: others_same_def)

lemma others_same_mono: "others_same u n A a b \<Longrightarrow> B \<subseteq> A \<Longrightarrow> others_same u n B a b"
  by (auto simp: others_same_def)

lemma stable_others: "stable u A a b \<Longrightarrow> others_same u n A a b"
  by (auto simp: stable_def others_same_def)

lemma others_frags: "others_same u n A a b \<Longrightarrow> B \<subseteq> A \<Longrightarrow> same_frags u B a b"
  by (auto simp: others_same_def same_frags_def)

lemma record_write:
  assumes u: "layout_ok u" and n: "valid_ino (sb u) n" and o: "own u A img" and s: "same_except (rec_byte u n) img img'"
  shows "own u A img'" "others_same u n A img img'"
proof -
  have r: "rec_byte u n k \<Longrightarrow> ino_byte u k" for k using inode_offset_facts(4) [OF u n] by (simp add: rec_byte_def)
  have nm: "\<not> meta_byte u k" if "rec_byte u n k" for k using ino_byte_not_meta [OF u r [OF that]] .
  show "own u A img'"
    using o not_meta_keeps [OF s nm] data_run_valid same_except_length [OF s] by (fastforce simp: own_def)
  have "\<not> rec_byte u n k" if "x \<in> A" "in_frag u x k" for x k
    using ino_byte_not_frag [OF u r] o that by (auto simp: own_def)
  then show "others_same u n A img img'" using s by (auto simp: others_same_def same_except_def)
qed

lemma others_same_record:
  assumes u: "layout_ok u" and n: "valid_ino (sb u) n" "valid_ino (sb u) m" "m \<noteq> n" and f: "tables_fit u img"
    and s: "others_same u n A img img'"
  shows "read_inode img' u m = read_inode img u m"
proof (rule read_inode_cong [OF u n(2) f])
  show "length img' = length img" using s by (simp add: others_same_def)
  fix k assume k: "rec_byte u m k"
  then have "ino_byte u k" "\<not> rec_byte u n k"
    using inode_offset_facts(4) [OF u n(2)] inode_offset_disjoint [OF u n(1,2)] n(3) by (auto simp: rec_byte_def)
  then show "img' ! k = img ! k" using s by (auto simp: others_same_def)
qed

lemma stable_record:
  assumes u: "layout_ok u" and n: "valid_ino (sb u) n" and s: "stable u A img img'"
  shows "record_at img' (inode_offset u n) i = record_at img (inode_offset u n) i"
  using s inode_offset_facts(4) [OF u n] by (intro record_at_cong) (auto simp: stable_def)

lemma roots_read_nth:
  "roots_read u ls rs cs pss img \<Longrightarrow> length rs = length ls \<and> length cs = length ls \<and> length pss = length ls
     \<and> (\<forall>j < length ls. root_reads u (ls ! j - 1) (rs ! j) (cs ! j) (pss ! j) img)"
  by (induction u ls rs cs pss img rule: roots_read.induct) (auto simp: less_Suc_eq_0_disj)

text \<open>The block lists of an inode whose pointers lead to \<open>ds\<close> through the pointer blocks \<open>ps\<close>.\<close>

definition points_to :: "ufs \<Rightarrow> inode \<Rightarrow> int list \<Rightarrow> u32 list \<Rightarrow> image \<Rightarrow> bool" where
  "points_to u i ds ps img \<longleftrightarrow> length (indirect_blocks i) = 3 \<and> (\<forall>p \<in> set ps. block_addr u (uint p)) \<and>
     (\<forall>img' sz. same_frags u (frag_set u ps) img img' \<longrightarrow> inode_pointer_blocks img' u i = Some ps
        \<and> inode_data_blocks img' u (i \<lparr> di_size := sz \<rparr>) = Some (take (needed_blocks (sb u) sz) (map of_int ds)))"

lemma inode_blocks_attrs:
  assumes "direct_blocks j = direct_blocks i" "indirect_blocks j = indirect_blocks i" "di_size j = di_size i"
  shows "inode_data_blocks img u j = inode_data_blocks img u i" "inode_pointer_blocks img u j = inode_pointer_blocks img u i"
  by (simp_all only: inode_data_blocks_def inode_pointer_blocks_def assms)

lemma points_to_attrs:
  assumes p: "points_to u i ds ps img" and j: "direct_blocks j = direct_blocks i" "indirect_blocks j = indirect_blocks i"
  shows "points_to u j ds ps img"
proof -
  have "inode_data_blocks img' u (j \<lparr> di_size := sz \<rparr>) = inode_data_blocks img' u (i \<lparr> di_size := sz \<rparr>)"
    "inode_pointer_blocks img' u j = inode_pointer_blocks img' u i" for img' sz
    using j by (simp_all add: inode_blocks_attrs(1) inode_pointer_blocks_def)
  then show ?thesis using p j by (simp add: points_to_def)
qed

lemma points_toD:
  assumes "points_to u i ds ps img"
  shows "inode_pointer_blocks img u i = Some ps" "inode_data_blocks img u i = Some (take (needed_blocks (sb u) (di_size i)) (map of_int ds))"
    "\<forall>p \<in> set ps. block_addr u (uint p)" "length (indirect_blocks i) = 3"
proof -
  have "inode_pointer_blocks img u i = Some ps
      \<and> inode_data_blocks img u (i \<lparr> di_size := di_size i \<rparr>) = Some (take (needed_blocks (sb u) (di_size i)) (map of_int ds))"
    using assms same_frags_refl unfolding points_to_def by blast
  then show "inode_pointer_blocks img u i = Some ps"
    "inode_data_blocks img u i = Some (take (needed_blocks (sb u) (di_size i)) (map of_int ds))" by simp_all
  show "\<forall>p \<in> set ps. block_addr u (uint p)" "length (indirect_blocks i) = 3" using assms by (auto simp: points_to_def)
qed

lemma points_to_frags:
  "points_to u i ds ps img \<Longrightarrow> same_frags u (frag_set u ps) img img' \<Longrightarrow> points_to u i ds ps img'"
  unfolding points_to_def using same_frags_trans by blast

lemma level_pieces_concat:
  assumes "length xs \<le> n + n ^ 2 + n ^ 3"
  shows "concat (level_pieces n xs [1, 2, 3]) = xs"
proof -
  have "take (n ^ 3) (drop (n ^ 2) (drop n xs)) = drop (n ^ 2) (drop n xs)" using assms by simp
  then show ?thesis by (simp del: drop_drop)
qed

lemma pointer_or_0_filter:
  assumes u: "layout_ok u" and ds: "\<And>d. d \<in> set ds \<Longrightarrow> block_addr u d" and l: "length ds \<le> n"
  shows "filter (\<lambda>p. p \<noteq> 0) (map (pointer_or_0 ds) [0..<n]) = map of_int ds"
proof -
  have "map (pointer_or_0 ds) [0..<n] = map of_int ds @ replicate (n - length ds) 0"
    using l by (intro nth_equalityI) (auto simp: pointer_or_0_def nth_append)
  moreover have "filter (\<lambda>p. p \<noteq> 0) (map of_int ds) = map (of_int :: int \<Rightarrow> u32) ds"
    using ds block_addr_bounds(4) [OF u] by (auto simp: filter_id_conv)
  ultimately show ?thesis by simp
qed

lemma roots_points_to:
  assumes u: "layout_ok u" and ds: "\<And>d. d \<in> set ds \<Longrightarrow> block_addr u d" and len: "length ds \<le> 12 + (nind u + nind u ^ 2 + nind u ^ 3)"
    and r: "roots_read u [1, 2, 3] rs (level_pieces (nind u) (drop 12 ds) [1, 2, 3]) pss img"
    and i: "direct_blocks i = map (pointer_or_0 (take 12 ds)) [0..<12]" "indirect_blocks i = map (pointer_or_0 rs) [0..<3]"
  shows "points_to u i ds (concat pss) img"
proof -
  define cs where "cs = level_pieces (nind u) (drop 12 ds) [1, 2, 3]"
  have n: "length rs = 3" "length cs = 3" "length pss = 3"
    "\<And>j. j < 3 \<Longrightarrow> root_reads u j (rs ! j) (cs ! j) (pss ! j) img"
    using roots_read_nth [OF r [folded cs_def]] by (auto simp: less_Suc_eq numeral_3_eq_3)
  have l3: "length (indirect_blocks i) = 3" using i(2) by simp
  have ind: "indirect_blocks i ! j = of_int (rs ! j)" if "j < 3" for j
    using that n(1) i(2) by (auto simp: pointer_or_0_def)
  have addr: "block_addr u (uint p)" if p: "p \<in> set (concat pss)" for p
  proof -
    obtain j where "j < 3" "p \<in> set (pss ! j)" using p n(3) unfolding set_concat by (metis UN_E in_set_conv_nth)
    then show ?thesis using n(4) by (auto simp: root_reads_def)
  qed
  have "inode_pointer_blocks img' u i = Some (concat pss)
      \<and> inode_data_blocks img' u (i \<lparr> di_size := sz \<rparr>) = Some (take (needed_blocks (sb u) sz) (map of_int ds))"
    if s: "same_frags u (frag_set u (concat pss)) img img'" for img' sz
  proof -
    have sj: "same_frags u (frag_set u (pss ! j)) img img'" if "j < 3" for j
      by (rule same_frags_mono [OF s]) (use that n(3) nth_mem in \<open>fastforce simp: frag_set_def\<close>)
    have c: "collect_indirect_data_blocks img' u (Suc j) (of_int (rs ! j)) None = Some (map (map of_int) cs ! j)"
      "collect_indirect_pointer_blocks img' u (Suc j) (of_int (rs ! j)) = Some (pss ! j)" if "j < 3" for j
      using n(2,4) sj that by (auto simp: root_reads_def)
    have "inode_pointer_blocks img' u i = Some (concat pss)"
      using n c ind l3 by (intro inode_pointer_blocks_eq) auto
    moreover have "inode_data_blocks img' u (i \<lparr> di_size := sz \<rparr>) = Some (take (needed_blocks (sb u) sz)
        (filter (\<lambda>p. p \<noteq> 0) (direct_blocks i) @ concat (map (map of_int) cs)))"
      using inode_data_blocks_eq [of "map (map of_int) cs" "i \<lparr> di_size := sz \<rparr>" img' u] n c ind l3 by simp
    moreover have "filter (\<lambda>p. p \<noteq> 0) (direct_blocks i) = map of_int (take 12 ds)"
      unfolding i(1) using ds by (intro pointer_or_0_filter [OF u]) (auto dest: in_set_takeD)
    moreover have "concat cs = drop 12 ds" using len unfolding cs_def by (intro level_pieces_concat) simp
    then have "concat (map (map of_int) cs) = map (of_int :: int \<Rightarrow> u32) (drop 12 ds)" by (simp only: map_concat [symmetric])
    ultimately show ?thesis by (metis append_take_drop_id map_append)
  qed
  then show ?thesis using l3 addr by (auto simp: points_to_def)
qed

text \<open>The number of blocks an inode can address.\<close>

definition max_blocks :: "ufs \<Rightarrow> nat" where
  "max_blocks u = 12 + (nind u + nind u ^ 2 + nind u ^ 3)"

lemma write_block_lists_total:
  assumes u: "layout_ok u" and n: "valid_ino (sb u) n" and f: "tables_fit u img"
  shows "\<exists>img'. write_block_lists u n ds rs img = Some img'"
proof -
  let ?o = "inode_offset u n"
  have e: "foldM (\<lambda>m k. put_u32 m (uadd ?o (40 + k * 4)) (pointer_or_0 ds k)) s [0..<12]
      = foldM (\<lambda>m k. put_u32 m (?o + 40 + k * 4) (pointer_or_0 ds k)) s [0..<12]"
    "foldM (\<lambda>m k. put_u32 m (uadd ?o (88 + k * 4)) (pointer_or_0 rs k)) s [0..<3]
      = foldM (\<lambda>m k. put_u32 m (?o + 88 + k * 4) (pointer_or_0 rs k)) s [0..<3]" for s
    using record_fields [OF u n] by (auto intro!: foldM_cong_set simp: add.assoc simp del: upt_Suc)
  have len: "?o + 128 \<le> length img" using f n by (simp add: tables_fit_def)
  obtain m where m: "foldM (\<lambda>m k. put_u32 m (?o + 40 + k * 4) (pointer_or_0 ds k)) img [0..<12] = Some m"
    using put_range_total [of "?o + 40" 12 img "pointer_or_0 ds" 0] len by auto
  have "\<exists>m'. foldM (\<lambda>m k. put_u32 m (?o + 88 + k * 4) (pointer_or_0 rs k)) m [0..<3] = Some m'"
    using put_range_total [of "?o + 88" 3 m "pointer_or_0 rs" 0] len same_except_length [OF put_range(1) [OF m]] by auto
  then show ?thesis unfolding write_block_lists_def Let_def e using m by (simp del: upt_Suc)
qed

lemma build_structure_wp:
  assumes o: "owned u n A img" and n: "valid_ino (sb u) n" and f: "tables_fit u img"
    and r: "record_at img (inode_offset u n) i" and ds: "\<And>d. d \<in> set ds \<Longrightarrow> block_addr u d" and len: "length ds \<le> max_blocks u"
  shows "wp (build_inode_pointer_structure u n ds) (\<lambda>cnt img'. \<exists>i' ps. owned u n (A \<union> frag_set u ps) img' \<and> A \<inter> frag_set u ps = {}
      \<and> apart_blocks u ps \<and> others_same u n A img img' \<and> record_at img' (inode_offset u n) i' \<and> points_to u i' ds ps img'
      \<and> cnt = int (length ps)
      \<and> i' = i \<lparr> direct_blocks := direct_blocks i', indirect_blocks := indirect_blocks i' \<rparr>) (intact u n A img) img"
proof -
  have u: "layout_ok u" using o by (simp add: owned_def)
  have d: "\<And>x. x \<in> set (drop 12 ds) \<Longrightarrow> block_addr u x" using ds by (auto dest: in_set_dropD)
  have "wp (build_levels u n (drop 12 ds) [1, 2, 3]) (\<lambda>roots img1. \<exists>pss. takes u n A (concat pss) img img1
      \<and> roots_read u [1, 2, 3] (map fst roots) (level_pieces (nind u) (drop 12 ds) [1, 2, 3]) pss img1
      \<and> sum_list (map snd roots) = int (length (concat pss))) (intact u n A img) img"
    using d by (intro build_levels_wp [OF o]) auto
  then show ?thesis
    unfolding build_inode_pointer_structure_def wp_wbind wp_simps(1,4)
  proof (rule wp_mono)
    fix roots img1
    assume "\<exists>pss. takes u n A (concat pss) img img1
      \<and> roots_read u [1, 2, 3] (map fst roots) (level_pieces (nind u) (drop 12 ds) [1, 2, 3]) pss img1
      \<and> sum_list (map snd roots) = int (length (concat pss))"
    then obtain pss where p: "takes u n A (concat pss) img img1"
      "roots_read u [1, 2, 3] (map fst roots) (level_pieces (nind u) (drop 12 ds) [1, 2, 3]) pss img1"
      "sum_list (map snd roots) = int (length (concat pss))" by blast
    let ?ps = "concat pss" and ?rs = "map fst roots"
    have t: "owned u n (A \<union> frag_set u ?ps) img1" "A \<inter> frag_set u ?ps = {}" "stable u A img img1" "apart_blocks u ?ps"
      using p(1) by (auto simp: takes_def)
    have f1: "tables_fit u img1" using f tables_fit_length [OF stable_length [OF t(3)]] by simp
    have r1: "record_at img1 (inode_offset u n) i" using r stable_record [OF u n t(3)] by simp
    obtain img' where w: "write_block_lists u n (take 12 ds) ?rs img1 = Some img'"
      using write_block_lists_total [OF u n f1] by blast
    let ?i = "i \<lparr> direct_blocks := map (pointer_or_0 (take 12 ds)) [0..<12], indirect_blocks := map (pointer_or_0 ?rs) [0..<3] \<rparr>"
    note wl = write_block_lists_spec [OF u n r1 w]
    note rw = record_write [OF u n _ wl(2)]
    have o': "own u (A \<union> frag_set u ?ps) img1" using t(1) by (simp add: owned_def)
    have os: "others_same u n A img img'"
      using others_same_trans [OF stable_others [OF t(3)] others_same_mono [OF rw(2) [OF o']]] by blast
    have "points_to u ?i ds ?ps img1"
      using len unfolding max_blocks_def by (intro roots_points_to [OF u ds _ p(2)]) auto
    then have pt: "points_to u ?i ds ?ps img'" by (rule points_to_frags) (rule others_frags [OF rw(2) [OF o']], blast)
    have "owned u n (A \<union> frag_set u ?ps) img'" using t(1) rw(1) [OF o'] by (simp add: owned_def)
    then show "\<exists>s'. write_block_lists u n (take 12 ds) ?rs img1 = Some s' \<and> (\<exists>i' ps. owned u n (A \<union> frag_set u ps) s'
        \<and> A \<inter> frag_set u ps = {} \<and> apart_blocks u ps \<and> others_same u n A img s' \<and> record_at s' (inode_offset u n) i'
        \<and> points_to u i' ds ps s' \<and> sum_list (map snd roots) = int (length ps)
        \<and> i' = i \<lparr> direct_blocks := direct_blocks i', indirect_blocks := indirect_blocks i' \<rparr>)"
      using w t(2,4) os wl(1) pt p(3)
      by (intro exI [of _ img'] conjI exI [of _ ?i] exI [of _ ?ps]) (simp_all del: upt_Suc)
  qed simp
qed

section \<open>Replacing the contents of a file\<close>

lemma apart_alloc_runs:
  "al.apart u blks qs \<Longrightarrow> length blks = length qs \<Longrightarrow> apart_runs u (zip blks qs)"
proof (induction blks arbitrary: qs)
  case (Cons b blks)
  then obtain q qs' where q: "qs = q # qs'" by (cases qs) auto
  have "al.all_cells u blks qs' = alloc_runs u (zip blks qs')"
    by (auto simp: al.all_cells_def alloc_runs_def alloc_run_def)
  then show ?case using Cons q by (simp add: alloc_run_def)
qed simp

lemma allocs_wp:
  assumes o: "owned u n A img" and q: "\<And>s. s \<in> set req \<Longrightarrow> request_ok u s"
  shows "wp (wmapM (allocate_allocation u n) req) (\<lambda>blks img'. owned u n (A \<union> alloc_runs u (zip blks req)) img'
     \<and> A \<inter> alloc_runs u (zip blks req) = {} \<and> apart_runs u (zip blks req) \<and> stable u A img img'
     \<and> length blks = length req \<and> (\<forall>b \<in> set blks. block_addr u b)) (intact u n A img) img"
proof (rule wpI)
  show "wmapM (allocate_allocation u n) req img \<noteq> None" by (rule al.allocs_total [OF o q])
  show "intact u n A img e img'" if "wmapM (allocate_allocation u n) req img = Some (Inl e, img')" for e img'
    using al.allocs_err [OF that o q] by (simp add: intact_def)
  fix blks img'
  assume "wmapM (allocate_allocation u n) req img = Some (Inr blks, img')"
  note ao = al.allocs_ok [OF this o q]
  have "al.all_cells u blks req = alloc_runs u (zip blks req)"
    by (auto simp: al.all_cells_def alloc_runs_def alloc_run_def)
  then show "owned u n (A \<union> alloc_runs u (zip blks req)) img'
     \<and> A \<inter> alloc_runs u (zip blks req) = {} \<and> apart_runs u (zip blks req) \<and> stable u A img img'
     \<and> length blks = length req \<and> (\<forall>b \<in> set blks. block_addr u b)"
    using ao apart_alloc_runs [of u blks req] by simp
qed

text \<open>The new inode: only its size, its pointers and its sector count differ.\<close>

definition replaced_inode :: "ufs \<Rightarrow> inode \<Rightarrow> bytes \<Rightarrow> u32 list \<Rightarrow> inode \<Rightarrow> bool" where
  "replaced_inode u i data ps i' \<longleftrightarrow> i' = i \<lparr> di_size := of_nat (length data), direct_blocks := direct_blocks i',
     indirect_blocks := indirect_blocks i', di_blocks := of_int (sectors_of (allocation_byte_sizes (sb u) (int (length data)))
       + int (length ps) * (bsize (sb u) div 512)) \<rparr>"

definition replaced :: "ufs \<Rightarrow> int \<Rightarrow> int set \<Rightarrow> inode \<Rightarrow> bytes \<Rightarrow> image \<Rightarrow> image \<Rightarrow> bool" where
  "replaced u n A i data img img' \<longleftrightarrow> others_same u n A img img' \<and>
     (\<exists>i' ds ps. read_inode img' u n = Some (Some i') \<and> replaced_inode u i data ps i' \<and> file_ok u img' i' ds ps
        \<and> own u (A \<union> file_cells u i' ds ps) img' \<and> A \<inter> file_cells u i' ds ps = {} \<and> read_inode_bytes img' u i' = Some data)"

lemma max_bytes:
  assumes u: "layout_ok u" and l: "length data \<le> max_blocks u * bs u"
  shows "length data < 2 ^ 62" "length (allocation_byte_sizes (sb u) (int (length data))) \<le> max_blocks u"
proof -
  note n = nind_facts [OF u] and b = layout_facts(5,6) [OF u]
  have "nind u ^ 2 \<le> 2048 ^ 2" "nind u ^ 3 \<le> 2048 ^ 3" using power_mono [OF n(4), of 2] power_mono [OF n(4), of 3] by simp_all
  then have "max_blocks u \<le> 12 + (2048 + 2048 ^ 2 + 2048 ^ 3)" unfolding max_blocks_def using n(4) by linarith
  then have "max_blocks u * bs u \<le> (12 + (2048 + 2048 ^ 2 + 2048 ^ 3)) * 8192" using b by (intro mult_le_mono) auto
  then show len: "length data < 2 ^ 62" using l by simp
  have "(length data + (bs u - 1)) div bs u < max_blocks u + 1"
    using l b by (intro less_mult_imp_div_less) (simp add: algebra_simps)
  then show "length (allocation_byte_sizes (sb u) (int (length data))) \<le> max_blocks u"
    using allocation_sizes(1) [OF u, of "length data"] len by simp
qed

lemma map_uint_blocks:
  assumes "layout_ok u" "\<forall>b \<in> set blks. block_addr u b"
  shows "map uint (map of_int blks :: u32 list) = blks"
  using assms block_addr_bounds(3) by (auto intro: map_idI)

text \<open>The last two field writes complete the file.\<close>

lemma finish_file_at:
  assumes u: "layout_ok u" and n: "valid_ino (sb u) n" and f: "tables_fit u img" and l: "length data \<le> max_blocks u * bs u"
    and req: "req = allocation_byte_sizes (sb u) (int (length data))"
    and blks: "length blks = length req" "\<forall>b \<in> set blks. block_addr u b" "apart_runs u (zip blks req)"
    and o: "own u (A \<union> alloc_runs u (zip blks req) \<union> frag_set u ps) img" "(A \<union> alloc_runs u (zip blks req)) \<inter> frag_set u ps = {}"
      "A \<inter> alloc_runs u (zip blks req) = {}" "apart_blocks u ps"
    and st: "stored u (zip blks req) data img" and pt: "points_to u i' blks ps img" and r: "record_at img (inode_offset u n) i'"
    and i: "i' = i \<lparr> direct_blocks := direct_blocks i', indirect_blocks := indirect_blocks i' \<rparr>"
  shows "\<exists>img1 img2. write_inode_size u n (of_nat (length data)) img = Some img1
    \<and> write_inode_blocks u n (of_int (sectors_of req + int (length ps) * (bsize (sb u) div 512))) img1 = Some img2
    \<and> (\<exists>j. read_inode img2 u n = Some (Some j) \<and> replaced_inode u i data ps j \<and> file_ok u img2 j (map of_int blks) ps
      \<and> file_allocs u j (map of_int blks) = zip blks req \<and> stored u (zip blks req) data img2
      \<and> own u (A \<union> file_cells u j (map of_int blks) ps) img2 \<and> A \<inter> file_cells u j (map of_int blks) ps = {}
      \<and> others_same u n A img img2 \<and> read_inode_bytes img2 u j = Some data)"
proof -
  note len = max_bytes [OF u l]
  define v :: u32 where "v = of_int (sectors_of req + int (length ps) * (bsize (sb u) div 512))"
  let ?j = "i' \<lparr> di_size := of_nat (length data), di_blocks := v \<rparr>"
  obtain img1 where w1: "write_inode_size u n (of_nat (length data)) img = Some img1" "wrote u n (i' \<lparr> di_size := of_nat (length data) \<rparr>) img img1"
    using wrote_puts(5) [OF u n wrote_refl [OF f n r]] unfolding write_inode_size_def by blast
  obtain img2 where w2: "write_inode_blocks u n v img1 = Some img2" "wrote u n ?j img img2"
    using wrote_puts(6) [OF u n w1(2), of v] unfolding write_inode_blocks_def by auto
  have s: "same_except (rec_byte u n) img img2" using w2(2) by (simp add: wrote_def)
  note rw = record_write [OF u n o(1) s]
  have rd: "read_inode img2 u n = Some (Some ?j)" by (rule wrote_reads(1) [OF u n f w2(2)])
  have dt: "uint (di_size ?j) = int (length data)" "unat (di_size ?j) = length data"
    using len(1) by (simp_all add: unat_of_nat uint_nat)
  have sz: "uint (di_size ?j) < 2 ^ 62" using len(1) dt(1) by simp
  have "points_to u i' blks ps img2"
    by (rule points_to_frags [OF pt]) (rule others_frags [OF rw(2)], blast)
  then have pj: "points_to u ?j blks ps img2" by (rule points_to_attrs) simp_all
  have nb: "needed_blocks (sb u) (di_size ?j) = length blks"
    unfolding needed_allocations [OF u sz, symmetric] dt(1) using blks(1) req by simp
  note p = points_toD [OF pj, unfolded nb]
  have ub: "map uint (map of_int blks :: u32 list) = blks" by (rule map_uint_blocks [OF u blks(2)])
  have fa: "file_allocs u ?j (map of_int blks) = zip blks req" unfolding file_allocs_def dt(1) req ub ..
  have fc: "file_cells u ?j (map of_int blks) ps = alloc_runs u (zip blks req) \<union> frag_set u ps"
    by (simp only: file_cells_def fa)
  have db: "\<forall>d \<in> set (map of_int blks :: u32 list). block_addr u (uint d)"
    using blks(2) block_addr_bounds(3) [OF u] by auto
  have ok: "file_ok u img2 ?j (map of_int blks) ps"
    unfolding file_ok_def fa dt(1) using p db len(1) blks(1,3) o(2,4)
    by (auto simp: req block_allocs_facts [OF u])
  have ro: "run_ok u a" if "a \<in> set (zip blks req)" for a
    using file_allocs_ok(1) [OF u ok] that unfolding fa .
  have s2: "stored u (zip blks req) data img2"
    by (rule stored_stable [OF u st _ ro]) (rule others_frags [OF rw(2)], blast)
  then have "read_data_range img2 u (map (\<lambda>a. of_int (fst a)) (zip blks req)) 0 (length data) = Some data"
    using len(1) by (intro stored_read [OF u _ ro]) auto
  moreover have "map (\<lambda>a. of_int (fst a)) (zip blks req) = (map of_int blks :: u32 list)"
    using blks(1) by (simp add: map_fst_zip flip: map_map [unfolded o_def])
  ultimately have rb: "read_inode_bytes img2 u ?j = Some data"
    using p(2) unfolding read_inode_bytes_def Let_def dt(2) by simp
  have ri: "replaced_inode u i data ps ?j"
    unfolding replaced_inode_def req [symmetric] v_def [symmetric] by (subst i) simp
  have oj: "own u (A \<union> file_cells u ?j (map of_int blks) ps) img2" "A \<inter> file_cells u ?j (map of_int blks) ps = {}"
    using rw(1) o(2,3) unfolding fc by (auto simp: Un_assoc)
  have "others_same u n A img img2" by (rule others_same_mono [OF rw(2)]) blast
  then show ?thesis using w1(1) w2(1) rd ri ok fa s2 oj rb unfolding v_def by blast
qed

lemma finish_file:
  assumes "layout_ok u" "valid_ino (sb u) n" "tables_fit u img" "length data \<le> max_blocks u * bs u"
    "req = allocation_byte_sizes (sb u) (int (length data))"
    "length blks = length req" "\<forall>b \<in> set blks. block_addr u b" "apart_runs u (zip blks req)"
    "own u (A \<union> alloc_runs u (zip blks req) \<union> frag_set u ps) img" "(A \<union> alloc_runs u (zip blks req)) \<inter> frag_set u ps = {}"
    "A \<inter> alloc_runs u (zip blks req) = {}" "apart_blocks u ps"
    "stored u (zip blks req) data img" "points_to u i' blks ps img" "record_at img (inode_offset u n) i'"
    "i' = i \<lparr> direct_blocks := direct_blocks i', indirect_blocks := indirect_blocks i' \<rparr>"
  shows "\<exists>img1 img2. write_inode_size u n (of_nat (length data)) img = Some img1
    \<and> write_inode_blocks u n (of_int (sectors_of req + int (length ps) * (bsize (sb u) div 512))) img1 = Some img2
    \<and> replaced u n A i data img img2"
  using finish_file_at [OF assms] unfolding replaced_def by blast

lemma others_replaced:
  "others_same u n A img img1 \<Longrightarrow> replaced u n A i data img1 img2 \<Longrightarrow> replaced u n A i data img img2"
  unfolding replaced_def using others_same_trans by blast

lemma intact_stable: "stable u A img img1 \<Longrightarrow> intact u n A img1 e img2 \<Longrightarrow> intact u n A img e img2"
  using intact_trans [of u A img img1 n "{}"] by simp

lemma fill_file_wp:
  assumes o: "owned u n A img" and n: "valid_ino (sb u) n" and f: "tables_fit u img" and l: "length data \<le> max_blocks u * bs u"
    and r: "record_at img (inode_offset u n) i" and req: "req = allocation_byte_sizes (sb u) (int (length data))"
  shows "wp (wbind (wmapM (allocate_allocation u n) req) (\<lambda>blks.
      wbind (write_fresh_blocks u (zip blks req) data) (\<lambda>_.
      wbind (build_inode_pointer_structure u n blks) (\<lambda>cnt.
      wbind (wmodify (write_inode_size u n (of_nat (length data)))) (\<lambda>_.
      wmodify (write_inode_blocks u n (of_int (sectors_of req + cnt * (bsize (sb u) div 512))))))))) 
    (\<lambda>_. replaced u n A i data img) (intact u n A img) img"
proof -
  have u: "layout_ok u" using o by (simp add: owned_def)
  note len = max_bytes [OF u l]
  have rq: "\<And>s. s \<in> set req \<Longrightarrow> request_ok u s" using allocation_sizes(2) [OF u, of "length data"] len(1) req by auto
  show ?thesis
    unfolding wp_wbind wp_simps(4)
  proof (rule wp_mono [OF allocs_wp [OF o rq]])
    fix blks img1
    let ?as = "zip blks req" and ?A = "A \<union> alloc_runs u (zip blks req)"
    assume a: "owned u n ?A img1 \<and> A \<inter> alloc_runs u ?as = {} \<and> apart_runs u ?as \<and> stable u A img img1
      \<and> length blks = length req \<and> (\<forall>b \<in> set blks. block_addr u b)"
    have ro: "run_ok u x" if x: "x \<in> set ?as" for x
      using a rq x unfolding run_ok_def by (metis prod.collapse set_zip_leftD set_zip_rightD)
    have "wp (write_fresh_blocks u ?as data) (\<lambda>_ img2. own u ?A img2 \<and> stable u A img1 img2 \<and> stored u ?as data img2) (\<lambda>_ _. False) img1"
      using a ro allocation_sizes(3) [OF u, of "length data" data blks] len(1) req
      by (intro write_fresh_wp [OF u]) (auto simp: owned_def)
    then show "wp (write_fresh_blocks u ?as data) (\<lambda>_. wp (build_inode_pointer_structure u n blks) (\<lambda>cnt img3.
        \<exists>img4. write_inode_size u n (of_nat (length data)) img3 = Some img4 \<and>
          (\<exists>img5. write_inode_blocks u n (of_int (sectors_of req + cnt * (bsize (sb u) div 512))) img4 = Some img5
             \<and> replaced u n A i data img img5)) (intact u n A img)) (intact u n A img) img1"
    proof (rule wp_mono)
      fix x :: unit and img2
      assume s: "own u ?A img2 \<and> stable u A img1 img2 \<and> stored u ?as data img2"
      have o2: "owned u n ?A img2" using a s by (auto simp: owned_def)
      have st: "stable u A img img2" using a s stable_trans by blast
      have f2: "tables_fit u img2" using f tables_fit_length [OF stable_length [OF st]] by simp
      have r2: "record_at img2 (inode_offset u n) i" using r stable_record [OF u n st] by simp
      have "length blks \<le> max_blocks u" using a len(2) req by simp
      then show "wp (build_inode_pointer_structure u n blks) (\<lambda>cnt img3.
        \<exists>img4. write_inode_size u n (of_nat (length data)) img3 = Some img4 \<and>
          (\<exists>img5. write_inode_blocks u n (of_int (sectors_of req + cnt * (bsize (sb u) div 512))) img4 = Some img5
             \<and> replaced u n A i data img img5)) (intact u n A img) img2"
      proof (rule wp_mono [OF build_structure_wp [OF o2 n f2 r2], rotated])
        fix cnt img3
        assume "\<exists>i' ps. owned u n (?A \<union> frag_set u ps) img3 \<and> ?A \<inter> frag_set u ps = {} \<and> apart_blocks u ps
          \<and> others_same u n ?A img2 img3 \<and> record_at img3 (inode_offset u n) i' \<and> points_to u i' blks ps img3
          \<and> cnt = int (length ps) \<and> i' = i \<lparr> direct_blocks := direct_blocks i', indirect_blocks := indirect_blocks i' \<rparr>"
        then obtain i' ps where p: "owned u n (?A \<union> frag_set u ps) img3" "?A \<inter> frag_set u ps = {}" "apart_blocks u ps"
          "others_same u n ?A img2 img3" "record_at img3 (inode_offset u n) i'" "points_to u i' blks ps img3"
          "cnt = int (length ps)" "i' = i \<lparr> direct_blocks := direct_blocks i', indirect_blocks := indirect_blocks i' \<rparr>" by blast
        have f3: "tables_fit u img3" using f2 p(4) by (simp add: tables_fit_def others_same_def)
        have st3: "stored u ?as data img3"
          using s ro by (intro stored_stable [OF u _ others_frags [OF p(4)]]) auto
        have os: "others_same u n A img img3"
          by (rule others_same_trans [OF stable_others [OF st] others_same_mono [OF p(4)]]) blast
        obtain img4 img5 where "write_inode_size u n (of_nat (length data)) img3 = Some img4"
          "write_inode_blocks u n (of_int (sectors_of req + int (length ps) * (bsize (sb u) div 512))) img4 = Some img5"
          "replaced u n A i data img3 img5"
          using finish_file [OF u n f3 l req _ _ _ _ p(2) _ p(3) st3 p(6,5,8)] a p(1) by (auto simp: owned_def)
        then show "\<exists>img4. write_inode_size u n (of_nat (length data)) img3 = Some img4 \<and>
          (\<exists>img5. write_inode_blocks u n (of_int (sectors_of req + cnt * (bsize (sb u) div 512))) img4 = Some img5
             \<and> replaced u n A i data img img5)"
          using others_replaced [OF os] unfolding p(7) by blast
      next
        show "intact u n A img e img'" if "intact u n ?A img2 e img'" for e img'
          by (rule intact_trans [OF st that])
      qed (use a in auto)
    qed simp
  qed simp
qed

lemma valid_ino_bound:
  assumes g: "geometry_ok s" and n: "valid_ino s n"
  shows "0 \<le> n \<and> n < 2 ^ 62"
proof -
  have "ncg s * ipg s \<le> 2 ^ 32 * 2048"
    using geometry_pos(8) [OF g] geometry_facts(12,13,16) [OF g] by (intro mult_mono) auto
  then show ?thesis using n by (simp add: valid_ino_def)
qed

text \<open>The whole operation: the old blocks are released, then the new ones taken.\<close>

lemma set_inode_contents_wp:
  assumes u: "layout_ok u" and n: "valid_ino (sb u) n" and f: "tables_fit u img" and l: "length data \<le> max_blocks u * bs u"
    and r: "read_inode img u n = Some (Some i)" and fo: "file_ok u img i ds ps"
    and o: "own u (A \<union> file_cells u i ds ps) img" "A \<inter> file_cells u i ds ps = {}"
  shows "wp (set_inode_contents u n data) (\<lambda>_. replaced u n A i data img) (intact u n A img) img"
proof -
  let ?fa = "file_allocs u i ds" and ?ba = "block_allocs u ps" and ?req = "allocation_byte_sizes (sb u) (int (length data))"
  note ok = file_allocs_ok [OF u fo]
  have fo': "inode_data_blocks img u i = Some ds" "inode_pointer_blocks img u i = Some ps" "uint (di_size i) < 2 ^ 62"
    "apart_runs u (?ba @ ?fa)" "length ds = length (allocation_byte_sizes (sb u) (uint (di_size i)))" using fo by (auto simp: file_ok_def)
  have B: "int (usize (bsize (sb u))) = bsize (sb u)" "bsize (sb u) sdiv 512 = bsize (sb u) div 512"
    using layout_facts(4,7) [OF u] geometry_facts(1) [OF layout_facts(1) [OF u]] by (simp_all add: sdiv_nonneg)
  have i64: "i64 (uint (di_size i)) = uint (di_size i)"
    using fo'(3) by (intro i64_id_bounds order.trans [OF _ uint_ge_0]) simp_all
  have fp: "free_pointer_blocks u ps = wfor (rev ?ba) (\<lambda>a. free_allocation u (fst a) (snd a))"
    unfolding free_pointer_blocks_def block_allocs_def B by (simp add: rev_map wfor_map)
  have "rev ?fa = map (\<lambda>(b, s). (uint b, s)) (zip (rev ds) (rev (allocation_byte_sizes (sb u) (uint (di_size i)))))"
    using fo'(5) by (simp add: file_allocs_def zip_map1 rev_map zip_rev)
  then have fd: "free_data_blocks u ds (allocation_byte_sizes (sb u) (uint (di_size i))) = wfor (rev ?fa) (\<lambda>a. free_allocation u (fst a) (snd a))"
    unfolding free_data_blocks_def case_prod_unfold by (simp add: wfor_map)
  let ?fill = "wbind (wmapM (allocate_allocation u n) ?req) (\<lambda>blks. wbind (write_fresh_blocks u (zip blks ?req) data) (\<lambda>_.
      wbind (build_inode_pointer_structure u n blks) (\<lambda>cnt. wbind (wmodify (write_inode_size u n (of_nat (length data)))) (\<lambda>_.
      wmodify (write_inode_blocks u n (of_int (sectors_of ?req + cnt * (bsize (sb u) div 512))))))))"
  have d: "alloc_runs u ?ba \<inter> alloc_runs u ?fa = {}" "file_cells u i ds ps = alloc_runs u ?ba \<union> alloc_runs u ?fa"
    using fo'(4) ok(3) by auto
  have "wp (wfor (rev ?ba) (\<lambda>a. free_allocation u (fst a) (snd a)))
      (\<lambda>_ img1. own u (A \<union> alloc_runs u ?fa) img1 \<and> same_except (meta_byte u) img img1) (\<lambda>_ _. False) img"
    using o fo'(4) ok(2) unfolding d(2) by (intro free_list [OF u]) (auto simp: Un_ac)
  then have "wp (wbind (free_pointer_blocks u ps) (\<lambda>_. wbind (free_data_blocks u ds (allocation_byte_sizes (sb u) (uint (di_size i)))) (\<lambda>_. ?fill)))
      (\<lambda>_. replaced u n A i data img) (intact u n A img) img"
    unfolding fp fd wp_wbind [of "wfor _ _"]
  proof (rule wp_mono)
    fix x :: unit and img1
    assume a: "own u (A \<union> alloc_runs u ?fa) img1 \<and> same_except (meta_byte u) img img1"
    have "wp (wfor (rev ?fa) (\<lambda>a. free_allocation u (fst a) (snd a)))
        (\<lambda>_ img2. own u A img2 \<and> same_except (meta_byte u) img1 img2) (\<lambda>_ _. False) img1"
      using a o(2) fo'(4) ok(1) unfolding d(2) by (intro free_list [OF u]) auto
    then show "wp (wfor (rev ?fa) (\<lambda>a. free_allocation u (fst a) (snd a)))
        (\<lambda>_. wp ?fill (\<lambda>_. replaced u n A i data img) (intact u n A img)) (intact u n A img) img1"
    proof (rule wp_mono)
      fix y :: unit and img2
      assume b: "own u A img2 \<and> same_except (meta_byte u) img1 img2"
      have "same_except (meta_byte u) img img2" using a b same_except_trans by blast
      then have st: "stable u A img img2" using meta_stable [OF u own_mono [OF o(1), of A]] by blast
      have o2: "owned u n A img2" using b u valid_ino_bound [OF layout_facts(1) [OF u] n] by (auto simp: owned_def)
      have f2: "tables_fit u img2" using f tables_fit_length [OF stable_length [OF st]] by simp
      have r2: "record_at img2 (inode_offset u n) i"
        using r read_inode_iff [OF u n f] stable_record [OF u n st] by simp
      show "wp ?fill (\<lambda>_. replaced u n A i data img) (intact u n A img) img2"
        by (rule wp_mono [OF fill_file_wp [OF o2 n f2 l r2 refl]])
          (use others_replaced [OF stable_others [OF st]] intact_stable [OF st] in blast)+
    qed simp
  qed simp
  then show ?thesis
    unfolding set_inode_contents_def Let_def wp_wbind [of "wread _"] wp_wbind [of "wok_or _ _"] wp_simps(3,6) B
    using r fo'(1,2) by (simp add: i64 B(2))
qed

section \<open>The contents of a file\<close>

lemma fitting_stored:
  assumes u: "layout_ok u"
  shows "sizes_fit u as z \<Longrightarrow> (\<And>a. a \<in> set as \<Longrightarrow> run_ok u a \<and> fboff u (fst a) + nat (snd a) \<le> length img) \<Longrightarrow>
    \<exists>data. length data = length z \<and> stored u as data img"
proof (induction as arbitrary: z)
  case (Cons a as)
  let ?n = "length (take (bs u) z)" and ?o = "fboff u (fst a)"
  have "\<exists>data. length data = length (drop (bs u) z) \<and> stored u as data img" using Cons by (intro Cons.IH) auto
  then obtain d where d: "length d = length (drop (bs u) z)" "stored u as d img" by blast
  have n: "int ?n \<le> snd a" "?o + nat (snd a) \<le> length img" using Cons.prems by auto
  let ?c = "take ?n (drop ?o img)"
  have lc: "length ?c = ?n" using n by simp
  have e: "take (bs u) (?c @ d) = ?c" "drop (bs u) (?c @ d) = d"
  proof -
    have "?n = bs u \<or> d = []" using d(1) by (auto simp: min_def)
    then show "take (bs u) (?c @ d) = ?c" "drop (bs u) (?c @ d) = d" using lc by auto
  qed
  have "subslice img ?o (?o + ?n) = Some ?c" using n by (simp add: subslice_def)
  then have "stored u (a # as) (?c @ d) img" using d(2) n(1) lc by (simp only: stored.simps e)
  moreover have "length (?c @ d) = length z" using lc d(1) by simp
  ultimately show ?case by blast
qed simp

text \<open>A well-formed file whose fragments are owned has contents of its size; both readers return them.\<close>

lemma file_contents:
  assumes u: "layout_ok u" and f: "file_ok u img i ds ps" and o: "own u (file_cells u i ds ps) img"
  shows "\<exists>data. length data = unat (di_size i) \<and> stored u (file_allocs u i ds) data img"
proof -
  let ?z = "replicate (unat (di_size i)) (0 :: u8)"
  have i: "uint (di_size i) = int (unat (di_size i))" by simp
  have n: "int (unat (di_size i)) < 2 ^ 62" and l: "length ds = length (allocation_byte_sizes (sb u) (uint (di_size i)))"
    using f by (auto simp: file_ok_def)
  have "sizes_fit u (file_allocs u i ds) ?z"
    unfolding file_allocs_def i using l unfolding i by (intro allocation_sizes(3) [OF u n]) auto
  moreover have "run_ok u a \<and> fboff u (fst a) + nat (snd a) \<le> length img" if a: "a \<in> set (file_allocs u i ds)" for a
  proof -
    have ok: "run_ok u a" by (rule file_allocs_ok(1) [OF u f a])
    have "alloc_run u a \<subseteq> file_cells u i ds ps" using a by (auto simp: file_cells_def alloc_runs_def)
    then show ?thesis
      unfolding run_okD(3) [OF u ok] using run_okD [OF u ok] ok
      by (auto simp: alloc_run_def intro!: own_run_fits [OF u o])
  qed
  ultimately show ?thesis using fitting_stored [OF u, of "file_allocs u i ds" ?z img] by auto
qed

lemma file_reads:
  assumes u: "layout_ok u" and f: "file_ok u img i ds ps" and s: "stored u (file_allocs u i ds) data img"
    and l: "length data = unat (di_size i)"
  shows "read_inode_bytes img u i = Some data" "read_inode_range img u i off sz = Some (take sz (drop off data))"
proof -
  have b: "inode_data_blocks img u i = Some ds" "uint (di_size i) < 2 ^ 62"
    "length ds = length (allocation_byte_sizes (sb u) (uint (di_size i)))" using f by (auto simp: file_ok_def)
  have "int (length data) < 2 ^ 62" using b(2) l by simp
  then have len: "length data < 2 ^ 62" by (simp only: of_nat_less_numeral_power_cancel_iff)
  have "map (\<lambda>a. of_int (fst a)) (file_allocs u i ds) = (map of_int (map fst (file_allocs u i ds)) :: u32 list)" by simp
  also have "map fst (file_allocs u i ds) = map uint ds" using b(3) by (simp add: file_allocs_def)
  finally have e: "map (\<lambda>a. of_int (fst a)) (file_allocs u i ds) = ds" by (simp add: comp_def)
  note r = stored_read_range [OF u s file_allocs_ok(1) [OF u f] len, unfolded e]
  show "read_inode_bytes img u i = Some data"
    using r [of 0 "length data"] b(1) l by (auto simp: read_inode_bytes_def Let_def)
  show "read_inode_range img u i off sz = Some (take sz (drop off data))"
    using r [of off "min sz (unat (di_size i) - off)"] b(1) l
    by (auto simp: read_inode_range_def Let_def min_def)
qed

text \<open>A file is unchanged by whatever leaves its fragments alone.\<close>

lemma file_frame:
  assumes u: "layout_ok u" and f: "file_ok u img i ds ps" and o: "own u (file_cells u i ds ps) img"
    and s: "same_frags u (file_cells u i ds ps) img img'"
  shows "file_ok u img' i ds ps" "read_inode_bytes img' u i = read_inode_bytes img u i"
    "read_inode_range img' u i off sz = read_inode_range img u i off sz"
proof -
  have p: "inode_pointer_blocks img u i = Some ps" "\<forall>p \<in> set ps. block_addr u (uint p)" using f by (auto simp: file_ok_def)
  have sp: "same_frags u (frag_set u ps) img img'" "same_frags u (alloc_runs u (file_allocs u i ds)) img img'"
    by (rule same_frags_mono [OF s]; auto simp: file_cells_def)+
  show f': "file_ok u img' i ds ps" using f inode_blocks_frame [OF u p sp(1)] by (simp add: file_ok_def)
  obtain data where d: "length data = unat (di_size i)" "stored u (file_allocs u i ds) data img"
    using file_contents [OF u f o] by blast
  have "stored u (file_allocs u i ds) data img'" by (rule stored_stable [OF u d(2) sp(2) file_allocs_ok(1) [OF u f]])
  note r = file_reads [OF u f d(2,1)] file_reads [OF u f' this d(1)]
  show "read_inode_bytes img' u i = read_inode_bytes img u i"
    "read_inode_range img' u i off sz = read_inode_range img u i off sz" using r by simp_all
qed

section \<open>Properties of files\<close>

text \<open>An empty file on the sample image: every inode record is blank.\<close>

lemma sample_tables [simp]: "tables_fit sample_ufs sample_img"
proof -
  have "inode_offset sample_ufs n + 128 \<le> 131584" if n: "valid_ino sample_sb n" for n
  proof -
    have v: "valid_ino (sb sample_ufs) n" using n by simp
    have b: "n div 64 < 2" "n mod 64 < 64" using n by (auto simp: valid_ino_def)
    have "int (inode_offset sample_ufs n) = 512 + (64 * (n div 64) + 24) * 1024 + n mod 64 * 128"
      using inode_offset_facts(1) [OF sample_layout v] inode_byte_offset_eq [OF sample_geometry _ n, of 512] by simp
    then have "int (inode_offset sample_ufs n) \<le> 98688" using b by simp
    then show ?thesis by simp
  qed
  then show ?thesis by (simp add: tables_fit_def sample_img_def)
qed

lemma sample_blank:
  assumes "valid_ino sample_sb n"
  shows "read_inode sample_img sample_ufs n = Some (Some blank_inode)"
proof -
  have v: "valid_ino (sb sample_ufs) n" using assms by simp
  then have l: "inode_offset sample_ufs n + 128 \<le> length sample_img" using sample_tables unfolding tables_fit_def by blast
  then have "record_at sample_img (inode_offset sample_ufs n) blank_inode"
    by (intro blank_record) (auto simp: sample_img_def)
  then show ?thesis using read_inode_iff [OF sample_layout v sample_tables] by blast
qed

lemma blank_file:
  shows "file_ok u img blank_inode [] []" "file_cells u blank_inode [] [] = {}"
proof -
  have s: "indirect_blocks blank_inode = replicate 3 0" "direct_blocks blank_inode = replicate 12 0" "di_size blank_inode = 0"
    by (simp_all only: blank_inode_def inode.simps)
  have "inode_data_blocks img u blank_inode = Some (take (needed_blocks (sb u) (di_size blank_inode))
      (filter (\<lambda>p. p \<noteq> 0) (direct_blocks blank_inode) @ concat (replicate 3 [])))"
    by (rule inode_data_blocks_eq) (simp_all add: s collect_indirect_data_blocks.simps)
  then have "inode_data_blocks img u blank_inode = Some []" by (simp add: s needed_blocks_def)
  moreover have "inode_pointer_blocks img u blank_inode = Some (concat (replicate 3 []))"
    by (rule inode_pointer_blocks_eq) (simp_all add: s collect_indirect_pointer_blocks.simps)
  then have "inode_pointer_blocks img u blank_inode = Some []" by simp
  ultimately show "file_ok u img blank_inode [] []" "file_cells u blank_inode [] [] = {}"
    by (simp_all add: file_ok_def file_cells_def file_allocs_def blank_inode_def allocation_byte_sizes_def block_allocs_def)
qed

lemma sample_own [simp]: "own sample_ufs {} sample_img"
  by (simp add: own_def)

text \<open>C1: Replacing the contents of a file is correct. For a well-formed file whose fragments are owned, and any
  data an inode can address, the operation never panics. On success the inode reads back as before but for its
  size, pointers and sector count (data sectors and pointer-block sectors), the file is well formed, its contents
  are exactly the new data, and its fragments are disjoint from everything else that is owned, of which not one
  byte has changed; nor has any other inode record. The only failure is lack of space, and it leaves every other
  file's fragments and all inode records as they were.\<close>

theorem set_inode_contents_correct:
  assumes "layout_ok u" "valid_ino (sb u) n" "tables_fit u img" "length data \<le> max_blocks u * bs u"
    "read_inode img u n = Some (Some i)" "file_ok u img i ds ps"
    "own u (A \<union> file_cells u i ds ps) img" "A \<inter> file_cells u i ds ps = {}"
  shows "\<exists>r img'. set_inode_contents u n data img = Some (r, img') \<and>
    (case r of
       Inr _ \<Rightarrow> others_same u n A img img' \<and>
         (\<exists>i' ds' ps'. read_inode img' u n = Some (Some i')
            \<and> i' = i \<lparr> di_size := of_nat (length data), direct_blocks := direct_blocks i', indirect_blocks := indirect_blocks i',
                di_blocks := of_int (sectors_of (allocation_byte_sizes (sb u) (int (length data)))
                  + int (length ps') * (bsize (sb u) div 512)) \<rparr>
            \<and> file_ok u img' i' ds' ps' \<and> own u (A \<union> file_cells u i' ds' ps') img'
            \<and> A \<inter> file_cells u i' ds' ps' = {} \<and> read_inode_bytes img' u i' = Some data)
     | Inl e \<Rightarrow> (e = NoFreeBlocks \<or> e = NoFreeFragments) \<and> own u A img' \<and> stable u A img img')"
  using set_inode_contents_wp [OF assms]
  unfolding wp_def replaced_def replaced_inode_def intact_def owned_def space_errors_def by (force split: sum.splits)

theorem set_inode_contents_correct_witness:
  "\<exists>r img'. set_inode_contents sample_ufs 2 [1, 2, 3] sample_img = Some (r, img') \<and> own sample_ufs {} img'"
proof -
  have v: "valid_ino sample_sb 2" by (simp add: valid_ino_def)
  have l: "length [1, 2, 3 :: u8] \<le> max_blocks sample_ufs * bs sample_ufs" by (simp add: max_blocks_def bs_def)
  have o: "own sample_ufs ({} \<union> file_cells sample_ufs blank_inode [] []) sample_img"
    "{} \<inter> file_cells sample_ufs blank_inode [] [] = {}" "valid_ino (sb sample_ufs) 2" using v by (simp_all add: blank_file(2))
  from set_inode_contents_correct [OF sample_layout o(3) sample_tables l sample_blank [OF v] blank_file(1) o(1,2)]
  show ?thesis
  proof (elim exE conjE, goal_cases)
    case (1 r img')
    then show ?case by (cases r) (auto elim: own_mono)
  qed
qed

text \<open>C2: Files are isolated. Replacing the contents of one file, whether it succeeds or runs out of space, leaves
  every other file as it was: same inode, same block lists, same contents.\<close>

theorem set_inode_contents_isolated:
  assumes "layout_ok u" "valid_ino (sb u) n" "tables_fit u img" "length data \<le> max_blocks u * bs u"
    "read_inode img u n = Some (Some i)" "file_ok u img i ds ps"
    "own u (A \<union> file_cells u i ds ps) img" "A \<inter> file_cells u i ds ps = {}"
    and m: "valid_ino (sb u) m" "m \<noteq> n" "read_inode img u m = Some (Some j)" "file_ok u img j ds' ps'" "file_cells u j ds' ps' \<subseteq> A"
  shows "\<exists>r img'. set_inode_contents u n data img = Some (r, img') \<and> read_inode img' u m = Some (Some j)
    \<and> file_ok u img' j ds' ps' \<and> read_inode_bytes img' u j = read_inode_bytes img u j"
proof -
  have "wp (set_inode_contents u n data) (\<lambda>_. others_same u n A img) (\<lambda>_. others_same u n A img) img"
    by (rule wp_mono [OF set_inode_contents_wp [OF assms(1-8)]]) (auto simp: replaced_def intact_def intro: stable_others)
  from wp_always [OF this] obtain r img' where s: "set_inode_contents u n data img = Some (r, img')" and c: "others_same u n A img img'"
    by blast
  have "own u (file_cells u j ds' ps') img" using own_mono [OF assms(7)] m(5) by blast
  note ff = file_frame [OF assms(1) m(4) this others_frags [OF c m(5)]]
  have "read_inode img' u m = Some (Some j)" using others_same_record [OF assms(1,2) m(1,2) assms(3) c] m(3) by simp
  then show ?thesis using s ff by blast
qed

theorem set_inode_contents_isolated_witness:
  "\<exists>r img'. set_inode_contents sample_ufs 2 [1, 2, 3] sample_img = Some (r, img')
    \<and> read_inode img' sample_ufs 3 = Some (Some blank_inode)"
proof -
  have v: "valid_ino sample_sb 2" "valid_ino sample_sb 3" by (simp_all add: valid_ino_def)
  have l: "length [1, 2, 3 :: u8] \<le> max_blocks sample_ufs * bs sample_ufs" by (simp add: max_blocks_def bs_def)
  have o: "own sample_ufs ({} \<union> file_cells sample_ufs blank_inode [] []) sample_img"
    "{} \<inter> file_cells sample_ufs blank_inode [] [] = {}" "file_cells sample_ufs blank_inode [] [] \<subseteq> {}"
    "valid_ino (sb sample_ufs) 2" "valid_ino (sb sample_ufs) 3" "(3::int) \<noteq> 2" using v by (simp_all add: blank_file(2))
  show ?thesis
    using set_inode_contents_isolated [OF sample_layout o(4) sample_tables l sample_blank [OF v(1)] blank_file(1) o(1,2)
      o(5,6) sample_blank [OF v(2)] blank_file(1) o(3)] by blast
qed

text \<open>C25: Partial reads agree with whole reads. For every offset and length, in or out of range, reading a range of
  a well-formed file returns that slice of its contents, which are as long as its size says.\<close>

theorem read_inode_range_slice:
  assumes "layout_ok u" "file_ok u img i ds ps" "own u (file_cells u i ds ps) img"
  shows "\<exists>data. read_inode_bytes img u i = Some data \<and> length data = unat (di_size i)
    \<and> (\<forall>off sz. read_inode_range img u i off sz = Some (take sz (drop off data)))"
  using file_contents [OF assms] file_reads [OF assms(1,2)] by blast

theorem read_inode_range_slice_witness:
  "read_inode_bytes sample_img sample_ufs blank_inode = Some [] \<and> read_inode_range sample_img sample_ufs blank_inode 5 7 = Some []"
  using read_inode_range_slice [OF sample_layout blank_file(1), of sample_img] blank_file(2)
  by (auto simp: blank_inode_def)

lemma resize0_length [simp]: "length (resize0 k xs) = k"
  by (simp add: resize0_def)

lemma truncate_wp:
  assumes u: "layout_ok u" "valid_ino (sb u) n" "tables_fit u img" and l: "unat sz \<le> max_blocks u * bs u"
    and r: "read_inode img u n = Some (Some i)" and fo: "file_ok u img i ds ps"
    and o: "own u (A \<union> file_cells u i ds ps) img" "A \<inter> file_cells u i ds ps = {}"
    and d: "read_inode_bytes img u i = Some data" "length data = unat (di_size i)" and z: "sz \<noteq> di_size i"
  shows "wp (truncate u n sz) (\<lambda>_. replaced u n A i (resize0 (unat sz) data) img) (intact u n A img) img"
proof -
  have "wp (set_inode_contents u n (resize0 (unat sz) data)) (\<lambda>_. replaced u n A i (resize0 (unat sz) data) img) (intact u n A img) img"
    using l by (intro set_inode_contents_wp [OF u _ r fo o]) simp
  then show ?thesis using r d z by (simp add: truncate_def)
qed

text \<open>C4: Truncation sets the size and keeps the prefix. Shrinking cuts the contents, growing pads them with zero
  bytes; when the size does not change nothing is written. Only lack of space can make it fail.\<close>

theorem truncate_correct:
  assumes "layout_ok u" "valid_ino (sb u) n" "tables_fit u img" "unat sz \<le> max_blocks u * bs u"
    "read_inode img u n = Some (Some i)" "file_ok u img i ds ps"
    "own u (A \<union> file_cells u i ds ps) img" "A \<inter> file_cells u i ds ps = {}"
  shows "\<exists>data r img'. read_inode_bytes img u i = Some data \<and> truncate u n sz img = Some (r, img') \<and>
    (case r of
       Inr _ \<Rightarrow> (\<exists>i'. read_inode img' u n = Some (Some i') \<and> di_size i' = sz
          \<and> read_inode_bytes img' u i' = Some (take (unat sz) data @ replicate (unat sz - length data) 0))
     | Inl e \<Rightarrow> (e = NoFreeBlocks \<or> e = NoFreeFragments) \<and> stable u A img img')"
proof -
  obtain data where d: "length data = unat (di_size i)" "stored u (file_allocs u i ds) data img"
    using file_contents [OF assms(1,6) own_mono [OF assms(7)]] by blast
  have b: "read_inode_bytes img u i = Some data" by (rule file_reads(1) [OF assms(1,6) d(2,1)])
  show ?thesis
  proof (cases "di_size i = sz")
    case True
    then have "truncate u n sz img = Some (Inr (), img)" using assms(5)
      by (simp add: truncate_def wbind_def wread_def wok_or_def wreturn_def)
    moreover have "take (unat sz) data @ replicate (unat sz - length data) 0 = data" using d(1) True by simp
    ultimately show ?thesis using b assms(5) True by (intro exI [of _ data] exI [of _ "Inr ()"] exI [of _ img]) auto
  next
    case False
    have sz: "of_nat (length (resize0 (unat sz) data)) = sz" by simp
    from truncate_wp [OF assms b d(1)] False
    obtain r img' where t: "truncate u n sz img = Some (r, img')"
      and c: "case r of Inl e \<Rightarrow> intact u n A img e img' | Inr _ \<Rightarrow> replaced u n A i (resize0 (unat sz) data) img img'"
      unfolding wp_def by auto
    have "case r of
       Inr _ \<Rightarrow> (\<exists>i'. read_inode img' u n = Some (Some i') \<and> di_size i' = sz
          \<and> read_inode_bytes img' u i' = Some (take (unat sz) data @ replicate (unat sz - length data) 0))
     | Inl e \<Rightarrow> (e = NoFreeBlocks \<or> e = NoFreeFragments) \<and> stable u A img img'"
    proof (cases r)
      case (Inl e)
      then show ?thesis using c by (auto simp: intact_def space_errors_def)
    next
      case (Inr x)
      then obtain i' ps' where i: "read_inode img' u n = Some (Some i')" "replaced_inode u i (resize0 (unat sz) data) ps' i'"
        "read_inode_bytes img' u i' = Some (resize0 (unat sz) data)" using c by (auto simp: replaced_def)
      have "di_size i' = di_size (i \<lparr> di_size := of_nat (length (resize0 (unat sz) data)), direct_blocks := direct_blocks i',
          indirect_blocks := indirect_blocks i', di_blocks := of_int (sectors_of (allocation_byte_sizes (sb u)
            (int (length (resize0 (unat sz) data)))) + int (length ps') * (bsize (sb u) div 512)) \<rparr>)"
        using i(2) unfolding replaced_inode_def by metis
      then have "di_size i' = sz" using sz by simp
      then show ?thesis using i(1,3) Inr by (simp add: resize0_def)
    qed
    then show ?thesis using b t by blast
  qed
qed

theorem truncate_correct_witness:
  "\<exists>r img'. truncate sample_ufs 2 10 sample_img = Some (r, img')"
proof -
  have v: "valid_ino sample_sb 2" by (simp add: valid_ino_def)
  have o: "own sample_ufs ({} \<union> file_cells sample_ufs blank_inode [] []) sample_img"
    "{} \<inter> file_cells sample_ufs blank_inode [] [] = {}" "valid_ino (sb sample_ufs) 2"
    "unat (10 :: u64) \<le> max_blocks sample_ufs * bs sample_ufs"
    using v by (simp_all add: blank_file(2) max_blocks_def bs_def)
  show ?thesis
    using truncate_correct [OF sample_layout o(3) sample_tables o(4) sample_blank [OF v] blank_file(1) o(1,2)] by blast
qed

text \<open>C27: A new inode reads back as it was initialised. Whatever the record held, afterwards it has the given mode,
  owner, link count and times, size zero and no blocks; no byte outside the record changes and every other inode
  reads as before.\<close>

theorem initialize_inode_reads:
  assumes "layout_ok u" "valid_ino (sb u) n" "tables_fit u img" "valid_ino (sb u) m" "m \<noteq> n"
  shows "\<exists>img'. initialize_inode u n mode uid gid nlink ts img = Some img'
    \<and> read_inode img' u n = Some (Some \<lparr> di_mode = mode, di_nlink = nlink, di_uid = uid, di_gid = gid, di_atime = ts,
        di_mtime = ts, di_ctime = ts, di_size = 0, direct_blocks = replicate 12 0, indirect_blocks = replicate 3 0, di_blocks = 0 \<rparr>)
    \<and> same_except (rec_byte u n) img img' \<and> read_inode img' u m = read_inode img u m"
proof -
  have "inode_offset u n + 128 \<le> length img" using assms(2,3) by (simp add: tables_fit_def)
  then obtain img' where i: "initialize_inode u n mode uid gid nlink ts img = Some img'"
    and w: "wrote u n (fresh_inode mode uid gid nlink ts) img img'" using initialize_inode_spec [OF assms(1,2)] by blast
  have "fresh_inode mode uid gid nlink ts = \<lparr> di_mode = mode, di_nlink = nlink, di_uid = uid, di_gid = gid, di_atime = ts,
      di_mtime = ts, di_ctime = ts, di_size = 0, direct_blocks = replicate 12 0, indirect_blocks = replicate 3 0, di_blocks = 0 \<rparr>"
    by (simp only: fresh_inode_def blank_inode_def inode.simps)
  then show ?thesis
    using i wrote_reads [OF assms(1-3) w] assms(4,5) w by (auto simp: wrote_def simp del: replicate.simps)
qed

theorem initialize_inode_reads_witness:
  "\<exists>img' i. initialize_inode sample_ufs 5 33188 7 8 1 99 sample_img = Some img'
    \<and> read_inode img' sample_ufs 5 = Some (Some i) \<and> di_mode i = 33188 \<and> di_size i = 0"
  using initialize_inode_reads [of sample_ufs 5 sample_img 6 33188 7 8 1 99] by (auto simp: valid_ino_def)

text \<open>C26: Pointer trees round trip. On a well-formed filesystem, building a tree of one, two or three levels over a list
  of data blocks that fits either returns a root through which exactly those blocks are read back, in order, with as
  many pointer blocks as were counted, without touching anything owned; or runs out of space.\<close>

theorem build_pointer_tree_round_trip:
  assumes "owned u ino A img" "l \<le> 2" "xs \<noteq> []" "length xs \<le> nind u ^ Suc l" "\<forall>x \<in> set xs. block_addr u x"
  shows "\<exists>r img'. build_pointer_tree u ino l xs img = Some (r, img') \<and> stable u A img img' \<and>
    (case r of
       Inr (root, count) \<Rightarrow> collect_indirect_data_blocks img' u (Suc l) (of_int root) None = Some (map of_int xs)
         \<and> (\<exists>ps. collect_indirect_pointer_blocks img' u (Suc l) (of_int root) = Some ps \<and> count = int (length ps)
              \<and> own u (A \<union> frag_set u ps) img' \<and> A \<inter> frag_set u ps = {})
     | Inl e \<Rightarrow> e = NoFreeBlocks \<or> e = NoFreeFragments)"
proof -
  have u: "layout_ok u" using assms(1) by (simp add: owned_def)
  have "tree_fits u l xs" using assms by (simp add: tree_fits_def)
  then have w: "wp (build_pointer_tree u ino l xs) (\<lambda>(root, cnt) img'. \<exists>ps. takes u ino A ps img img'
      \<and> tree_reads u l root xs ps img' \<and> cnt = int (length ps)) (intact u ino A img) img"
    using build_pointer_tree_builds [OF u] assms(1) unfolding builds_def by blast
  then obtain r img' where r: "build_pointer_tree u ino l xs img = Some (r, img')" by (auto simp: wp_def)
  show ?thesis
  proof (cases r)
    case (Inl e)
    then show ?thesis using r wp_InlD [OF w] by (auto simp: intact_def space_errors_def)
  next
    case (Inr p)
    obtain root cnt where p: "p = (root, cnt)" by (rule prod.exhaust)
    obtain ps where "takes u ino A ps img img'" "tree_reads u l root xs ps img'" "cnt = int (length ps)"
      using wp_InrD [OF w] r Inr p by auto
    then show ?thesis using r Inr p by (auto simp: takes_def tree_reads_def owned_def)
  qed
qed

theorem build_pointer_tree_round_trip_witness:
  "\<exists>r img'. build_pointer_tree sample_ufs 2 1 [40, 48] sample_img = Some (r, img') \<and> length img' = length sample_img"
proof -
  have b: "\<forall>x \<in> set [40, 48]. block_addr sample_ufs x" by (simp add: block_addr_def data_run_def sample_groups)
  have o: "owned sample_ufs 2 {} sample_img" by (simp add: owned_def)
  have n: "length [40, 48 :: int] \<le> nind sample_ufs ^ Suc 1" by (simp add: nind_def)
  show ?thesis using build_pointer_tree_round_trip [OF o _ _ n b] stable_length by fastforce
qed

end
