(* ===== verification/Mount_Correct.thy ===== *)
theory Mount_Correct
  imports Mount File_Correct
begin

text \<open>
  What the daemon guarantees: a read-only mount never writes, buffers exist only for open files, a client
  that lists a directory gets all of it, reads and writes through the buffers behave like a byte string,
  and a successful release of a written file leaves exactly its bytes on the disk.
\<close>

section \<open>Read-only mounts\<close>

text \<open>What each group of handlers can change.\<close>

lemma writable_read_only: "ms_read_only st \<Longrightarrow> writable h st = Some (ReplyError EROFS, st)"
  by (simp add: writable_def)

lemma with_name_cases: "with_name name h st = Some (r, st') \<Longrightarrow> st' = st \<or> h st = Some (r, st')"
  by (auto simp: with_name_def split: if_splits)

lemma reader_keeps_state:
  "fuse_lookup parent name st = Some (r, st') \<Longrightarrow> st' = st"
  "fuse_getattr ino st = Some (r, st') \<Longrightarrow> st' = st"
  "fuse_access ino st = Some (r, st') \<Longrightarrow> st' = st"
  "fuse_getxattr st = Some (r, st') \<Longrightarrow> st' = st"
  "fuse_listxattr n st = Some (r, st') \<Longrightarrow> st' = st"
  "fuse_readlink ino st = Some (r, st') \<Longrightarrow> st' = st"
  "fuse_read ino off n st = Some (r, st') \<Longrightarrow> st' = st"
  "fuse_readdir room ino off st = Some (r, st') \<Longrightarrow> st' = st"
  "fuse_statfs st = Some (r, st') \<Longrightarrow> st' = st"
  by (auto simp: fuse_lookup_def fuse_getattr_def fuse_access_def fuse_getxattr_def fuse_listxattr_def fuse_readlink_def
      fuse_read_def fuse_readdir_def fuse_statfs_def with_name_def Let_def bind_eq_Some_conv split: if_splits option.splits)

lemma writer_read_only:
  assumes "ms_read_only st"
  shows "fuse_setattr rq ino args st = Some (r, st') \<Longrightarrow> st' = st"
    "fuse_mkdir rq parent name mode umask st = Some (r, st') \<Longrightarrow> st' = st"
    "fuse_mknod rq parent name mode umask rdev st = Some (r, st') \<Longrightarrow> st' = st"
    "fuse_unlink parent name st = Some (r, st') \<Longrightarrow> st' = st"
    "fuse_rmdir parent name st = Some (r, st') \<Longrightarrow> st' = st"
    "fuse_symlink rq parent name target st = Some (r, st') \<Longrightarrow> st' = st"
    "fuse_rename parent name newparent newname st = Some (r, st') \<Longrightarrow> st' = st"
    "fuse_link ino newparent newname st = Some (r, st') \<Longrightarrow> st' = st"
    "fuse_create rq parent name mode umask st = Some (r, st') \<Longrightarrow> st' = st"
    "fuse_write ino off data st = Some (r, st') \<Longrightarrow> st' = st"
  by (simp_all add: fuse_setattr_def fuse_mkdir_def fuse_mknod_def fuse_unlink_def fuse_rmdir_def fuse_symlink_def
      fuse_rename_def fuse_link_def fuse_create_def fuse_write_def with_name_def writable_read_only [OF assms] split: if_splits)

definition clean_buffers :: "mount_state \<Rightarrow> bool" where
  "clean_buffers st \<longleftrightarrow> (\<forall>n b. ms_buffers st n = Some b \<longrightarrow> \<not> fb_dirty b)"

lemma commit_clean: "clean_buffers st \<Longrightarrow> commit rq n st = Some (Inr (), st)"
  by (auto simp: commit_def clean_buffers_def split: option.splits)

definition ro_inv :: "image \<Rightarrow> mount_state \<Rightarrow> bool" where
  "ro_inv img st \<longleftrightarrow> ms_read_only st \<and> clean_buffers st \<and> ms_img st = img"

lemma ro_step:
  assumes "fuse_step op st = Some (r, st')" "ro_inv img st"
  shows "ro_inv img st'"
proof -
  have ro: "ms_read_only st" "clean_buffers st" using assms(2) by (simp_all add: ro_inv_def)
  have fresh: "ro_inv img (snd (open_handle n st))" for n
    using assms(2) by (simp add: open_handle_def ro_inv_def clean_buffers_def)
  have drop: "ro_inv img (drop_buffer n (st \<lparr> ms_handles := hs \<rparr>))" for n hs
    using assms(2) by (auto simp: drop_buffer_def ro_inv_def clean_buffers_def)
  show ?thesis
    using assms fresh drop
    by (cases op) (auto simp: fuse_open_def fuse_flush_def fuse_fsync_def fuse_release_def commit_clean [OF ro(2)] Let_def
        reply_unit_def case_prod_beta dest: reader_keeps_state writer_read_only [OF ro(1)])
qed

text \<open>C19: A read-only mount never changes the image: whatever requests arrive, in every state the daemon reaches the image
  is the one it was started with, and no buffer is dirty.\<close>

theorem read_only_mount_keeps_image:
  assumes "reachable (mount_new img u True) st"
  shows "ms_img st = img \<and> clean_buffers st"
proof -
  from assms have "ro_inv img st"
  proof induction
    case start
    show ?case by (simp add: ro_inv_def mount_new_def clean_buffers_def)
  qed (rule ro_step)
  then show ?thesis by (simp add: ro_inv_def)
qed

theorem read_only_mount_keeps_image_witness:
  "\<exists>st. fuse_step (OpOpen 5) (mount_new [1, 2, 3] sample_ufs True) = Some (ReplyOpened 1, st) \<and> ms_img st = [1, 2, 3]
     \<and> ms_handles st = [(1, 5)]"
proof -
  let ?st = "snd (open_handle 5 (mount_new [1, 2, 3] sample_ufs True))"
  have s: "fuse_step (OpOpen 5) (mount_new [1, 2, 3] sample_ufs True) = Some (ReplyOpened 1, ?st)"
    by (simp add: fuse_open_def open_handle_def mount_new_def ino_arg_def fuse_to_ufs_def)
  show ?thesis
    using read_only_mount_keeps_image [OF reachable.step [OF reachable.start s]] s
    by (auto simp: open_handle_def mount_new_def handles_insert_def)
qed

section \<open>Handles and buffers\<close>

text \<open>
  How the kernel uses handles: a write goes to an inode that is open, a release names a handle of that
  inode, and handle numbers are not used up (they are 64 bits wide).
\<close>

fun kernel_request :: "mount_state \<Rightarrow> fuse_op \<Rightarrow> bool" where
  "kernel_request st (OpWrite ino off data) = (ino_arg ino \<in> snd ` set (ms_handles st))"
| "kernel_request st (OpRelease rq ino fh) = ((fh, ino_arg ino) \<in> set (ms_handles st))"
| "kernel_request st (OpOpen ino) = (ms_next_fh st \<noteq> - 1)"
| "kernel_request st (OpCreate rq parent name mode umask) = (ms_next_fh st \<noteq> - 1)"
| "kernel_request st op = True"

inductive kernel_run :: "mount_state \<Rightarrow> mount_state \<Rightarrow> bool" for st0 where
  kr_start: "kernel_run st0 st0"
| kr_step: "kernel_run st0 st \<Longrightarrow> kernel_request st op \<Longrightarrow> fuse_step op st = Some (r, st') \<Longrightarrow> kernel_run st0 st'"

definition handles_ok :: "mount_state \<Rightarrow> bool" where
  "handles_ok st \<longleftrightarrow> distinct (map fst (ms_handles st)) \<and> (\<forall>h \<in> set (ms_handles st). fst h < ms_next_fh st)
     \<and> dom (ms_buffers st) \<subseteq> snd ` set (ms_handles st)"

lemma handles_ok_image [simp]: "handles_ok (st \<lparr> ms_img := img \<rparr>) = handles_ok st"
  by (simp add: handles_ok_def)

lemma on_image_state: "on_image m st = Some (r, st') \<Longrightarrow> \<exists>img. st' = st \<lparr> ms_img := img \<rparr>"
  by (auto simp: on_image_def)

lemma bind_SomeE: "Option.bind m f = Some y \<Longrightarrow> (\<And>x. m = Some x \<Longrightarrow> f x = Some y \<Longrightarrow> P) \<Longrightarrow> P"
  by (cases m) auto

lemmas handler_splits = option.split_asm sum.split_asm if_split_asm prod.split_asm

definition tables :: "mount_state \<Rightarrow> (u64 \<times> int) list \<times> u64 \<times> int set" where
  "tables st = (ms_handles st, ms_next_fh st, dom (ms_buffers st))"

lemma tables_image [simp]: "tables (st \<lparr> ms_img := img \<rparr>) = tables st"
  by (simp add: tables_def)

lemma handles_ok_tables: "tables st' = tables st \<Longrightarrow> handles_ok st' = handles_ok st"
  by (simp add: tables_def handles_ok_def)

lemma mark_clean_tables [simp]: "tables (mark_clean n st) = tables st"
  by (auto simp: mark_clean_def tables_def split: option.splits)

lemma on_image_tables: "on_image m st = Some (r, st') \<Longrightarrow> tables st' = tables st"
  by (auto simp: on_image_def)

lemma commit_tables:
  assumes "commit rq n st = Some (r, st')"
  shows "tables st' = tables st"
proof (cases "\<exists>b. ms_buffers st n = Some b \<and> fb_dirty b")
  case True
  then obtain b r1 st1 where c: "ms_buffers st n = Some b" "fb_dirty b"
      "on_image (set_inode_contents (ms_ufs st) n (fb_data b)) st = Some (r1, st1)"
    using assms by (auto simp: commit_def bind_eq_Some_conv)
  then show ?thesis
    using assms on_image_tables [OF c(3)] by (cases r1) (auto simp: commit_def Let_def bind_eq_Some_conv)
next
  case False
  then show ?thesis using assms by (auto simp: commit_def split: option.splits)
qed

lemma set_tables:
  "set_size n sz st = Some (r, st') \<Longrightarrow> tables st' = tables st"
  "set_mode n mode st = Some st' \<Longrightarrow> tables st' = tables st"
  "set_owner n uid gid st = Some st' \<Longrightarrow> tables st' = tables st"
  "set_times n a m c st = Some st' \<Longrightarrow> tables st' = tables st"
  unfolding set_size_def set_mode_def set_owner_def set_times_def Let_def
  by (auto elim!: bind_SomeE dest: on_image_tables split: handler_splits) (auto simp: tables_def)

lemma set_attributes_tables: "set_attributes rq n args st = Some (r, st') \<Longrightarrow> tables st' = tables st"
  by (auto simp: set_attributes_def bind_eq_Some_conv dest!: set_tables)

lemma guard_tables:
  "(\<And>r st'. h st = Some (r, st') \<Longrightarrow> tables st' = tables st) \<Longrightarrow> writable h st = Some (r, st') \<Longrightarrow> tables st' = tables st"
  "(\<And>r st'. h st = Some (r, st') \<Longrightarrow> tables st' = tables st) \<Longrightarrow> with_name name h st = Some (r, st') \<Longrightarrow> tables st' = tables st"
  by (auto simp: writable_def with_name_def split: if_splits)

lemma reply_tables:
  "reply_entry (r1, st1) = Some (r, st') \<Longrightarrow> tables st' = tables st1"
  "reply_unit (r2, st1) = (r, st') \<Longrightarrow> tables st' = tables st1"
  by (auto simp: reply_entry_def reply_unit_def bind_eq_Some_conv split: sum.splits)

lemma setattr_tables: "fuse_setattr rq ino args st = Some (r, st') \<Longrightarrow> tables st' = tables st"
  unfolding fuse_setattr_def
  by (erule guard_tables(1) [rotated])
    (auto simp: Let_def elim!: bind_SomeE dest!: set_attributes_tables set_tables(1) split: handler_splits)

lemma name_tables:
  "fuse_mkdir rq parent name mode umask st = Some (r, st') \<Longrightarrow> tables st' = tables st"
  "fuse_mknod rq parent name mode umask rdev st = Some (r, st') \<Longrightarrow> tables st' = tables st"
  "fuse_unlink parent name st = Some (r, st') \<Longrightarrow> tables st' = tables st"
  "fuse_rmdir parent name st = Some (r, st') \<Longrightarrow> tables st' = tables st"
  "fuse_symlink rq parent name target st = Some (r, st') \<Longrightarrow> tables st' = tables st"
  "fuse_rename parent name newparent newname st = Some (r, st') \<Longrightarrow> tables st' = tables st"
  "fuse_link ino newparent newname st = Some (r, st') \<Longrightarrow> tables st' = tables st"
  unfolding fuse_mkdir_def fuse_mknod_def fuse_unlink_def fuse_rmdir_def fuse_symlink_def fuse_rename_def fuse_link_def
  by ((erule guard_tables [rotated])+, auto simp: Let_def elim!: bind_SomeE
      dest!: on_image_tables reply_tables(1) reply_tables(2) split: handler_splits)+

lemma sync_tables:
  "fuse_flush rq ino st = Some (r, st') \<Longrightarrow> tables st' = tables st"
  "fuse_fsync rq msync_ok ino st = Some (r, st') \<Longrightarrow> tables st' = tables st"
  unfolding fuse_flush_def fuse_fsync_def
  by (auto elim!: bind_SomeE dest!: commit_tables reply_tables(2) split: handler_splits)

lemma open_handle_ok:
  assumes "handles_ok st" "ms_next_fh st \<noteq> - 1" "dom (ms_buffers st') \<subseteq> insert n (dom (ms_buffers st))"
    "ms_handles st' = ms_handles st" "ms_next_fh st' = ms_next_fh st"
  shows "handles_ok (snd (open_handle n st'))"
proof -
  have "\<forall>h \<in> set (ms_handles st). fst h < ms_next_fh st" using assms(1) by (simp add: handles_ok_def)
  then have f: "filter (\<lambda>h. fst h \<noteq> ms_next_fh st) (ms_handles st) = ms_handles st" by (intro filter_True) auto
  have w: "ms_next_fh st < ms_next_fh st + 1" using assms(2) by (metis inc_less_eq_self_iff_eq not_le)
  have b: "\<forall>h \<in> set (ms_handles st). fst h < ms_next_fh st + 1" "ms_next_fh st \<notin> fst ` set (ms_handles st)"
    using assms(1) w unfolding handles_ok_def by (blast intro: less_trans, auto)
  have "dom (ms_buffers st') \<subseteq> insert n (snd ` set (ms_handles st))"
    using assms(1,3) unfolding handles_ok_def by blast
  then show ?thesis
    using assms(1,4,5) w b by (simp add: open_handle_def handles_insert_def f handles_ok_def)
qed

lemma create_ok:
  assumes "fuse_create rq parent name mode umask st = Some (r, st')" "handles_ok st" "ms_next_fh st \<noteq> - 1"
  shows "handles_ok st'"
proof (cases "st' = st")
  case False
  then obtain r1 st1 where o: "on_image (create_empty_in_parent (ms_ufs st) (ino_arg parent) name (mode AND NOT umask)
        (rq_uid rq) (rq_gid rq) (now_secs rq)) st = Some (r1, st1)"
    and c: "(case r1 of Inl e \<Rightarrow> st' = st1
      | Inr new \<Rightarrow> st' = snd (open_handle new (st1 \<lparr> ms_buffers := (ms_buffers st1)(new \<mapsto> \<lparr> fb_data = [], fb_dirty = False \<rparr>) \<rparr>)))"
    using assms(1) by (auto simp: fuse_create_def with_name_def writable_def Let_def elim!: bind_SomeE split: handler_splits)
  note t = on_image_tables [OF o, unfolded tables_def]
  show ?thesis
  proof (cases r1)
    case (Inl e)
    then show ?thesis using c t assms(2) by (simp add: handles_ok_def)
  next
    case (Inr new)
    then show ?thesis using c t by (auto intro!: open_handle_ok [OF assms(2,3)])
  qed
qed (use assms in simp)

lemma write_ok:
  assumes "fuse_write ino off data st = Some (r, st')" "handles_ok st" "ino_arg ino \<in> snd ` set (ms_handles st)"
  shows "handles_ok st'"
proof -
  have "ms_handles st' = ms_handles st \<and> ms_next_fh st' = ms_next_fh st
      \<and> dom (ms_buffers st') \<subseteq> insert (ino_arg ino) (dom (ms_buffers st))"
    using assms(1) by (auto simp: fuse_write_def writable_def ensure_buffer_def Let_def elim!: bind_SomeE split: handler_splits)
  then show ?thesis using assms(2,3) unfolding handles_ok_def by (metis insert_subset subset_trans)
qed

lemma release_ok:
  assumes "fuse_release rq ino fh st = Some (r, st')" "handles_ok st" "(fh, ino_arg ino) \<in> set (ms_handles st)"
  shows "handles_ok st'"
proof -
  let ?n = "ino_arg ino"
  obtain r1 st1 where c: "commit rq ?n st = Some (r1, st1)"
    and st': "st' = (case r1 of Inl e \<Rightarrow> st1 | Inr _ \<Rightarrow> drop_buffer ?n (st1 \<lparr> ms_handles := handles_remove fh (ms_handles st1) \<rparr>))"
    using assms(1) by (auto simp: fuse_release_def Let_def elim!: bind_SomeE split: handler_splits)
  have ok: "handles_ok st1" and hs: "ms_handles st1 = ms_handles st"
    using handles_ok_tables [OF commit_tables [OF c]] commit_tables [OF c] assms(2) by (simp_all add: tables_def)
  have others: "x \<in> snd ` set (handles_remove fh (ms_handles st1))" if x: "x \<in> snd ` set (ms_handles st1)" "x \<noteq> ?n" for x
  proof -
    obtain k where k: "(k, x) \<in> set (ms_handles st1)" using x(1) by auto
    moreover have "k \<noteq> fh"
      using k x(2) assms(3) ok unfolding hs handles_ok_def by (metis eq_key_imp_eq_value hs)
    ultimately show ?thesis by (force simp: handles_remove_def)
  qed
  have "handles_ok (drop_buffer ?n (st1 \<lparr> ms_handles := handles_remove fh (ms_handles st1) \<rparr>))"
  proof -
    have "distinct (map fst (handles_remove fh (ms_handles st1)))" "\<forall>h \<in> set (handles_remove fh (ms_handles st1)). fst h < ms_next_fh st1"
      using ok by (auto simp: handles_ok_def handles_remove_def distinct_map_filter)
    moreover have "dom (ms_buffers st1) - {?n} \<subseteq> snd ` set (handles_remove fh (ms_handles st1))"
      using ok others unfolding handles_ok_def by blast
    ultimately show ?thesis by (auto simp: drop_buffer_def handles_ok_def simp del: image_iff)
  qed
  then show ?thesis using ok st' by (cases r1) simp_all
qed

lemma kernel_step_ok:
  assumes "kernel_request st op" "fuse_step op st = Some (r, st')" "handles_ok st"
  shows "handles_ok st'"
proof (cases "tables st' = tables st")
  case True
  then show ?thesis using handles_ok_tables assms(3) by blast
next
  case False
  then show ?thesis using assms
    by (cases op) (auto dest: reader_keeps_state name_tables setattr_tables sync_tables
        intro: create_ok write_ok release_ok simp: fuse_open_def case_prod_beta intro!: open_handle_ok)
qed

text \<open>C20: Buffers are bounded by what is open. As long as the kernel writes only through open handles and releases the
  handles it holds, in every state the daemon reaches each buffered inode has an open handle, handle numbers are
  distinct and below the next one. In particular the buffer of an inode is gone once its last handle is released.\<close>

theorem buffers_have_handles:
  assumes "kernel_run (mount_new img u read_only) st"
  shows "dom (ms_buffers st) \<subseteq> snd ` set (ms_handles st) \<and> distinct (map fst (ms_handles st))
    \<and> (\<forall>h \<in> set (ms_handles st). fst h < ms_next_fh st)"
proof -
  from assms have "handles_ok st"
  proof induction
    case kr_start
    show ?case by (simp add: mount_new_def handles_ok_def)
  qed (rule kernel_step_ok)
  then show ?thesis by (auto simp: handles_ok_def)
qed

theorem buffers_have_handles_witness:
  "\<exists>st. fuse_step (OpOpen 5) (mount_new [1, 2, 3] sample_ufs False) = Some (ReplyOpened 1, st) \<and> ms_handles st = [(1, 5)]
     \<and> dom (ms_buffers st) \<subseteq> {5}"
proof -
  let ?st = "snd (open_handle 5 (mount_new [1, 2, 3] sample_ufs False))"
  have s: "fuse_step (OpOpen 5) (mount_new [1, 2, 3] sample_ufs False) = Some (ReplyOpened 1, ?st)"
    by (simp add: fuse_open_def open_handle_def mount_new_def ino_arg_def fuse_to_ufs_def)
  have "kernel_request (mount_new [1, 2, 3] sample_ufs False) (OpOpen 5)" by (simp add: mount_new_def)
  from buffers_have_handles [OF kr_step [OF kr_start this s]] show ?thesis
    using s by (auto simp: open_handle_def mount_new_def handles_insert_def)
qed

section \<open>Listing a directory\<close>

lemma add_entries_prefix:
  assumes "mapM (dir_reply_of st) xs = Some ds"
  shows "\<exists>n \<le> length ds. add_entries room st acc xs = Some (acc @ take n ds) \<and> (xs \<noteq> [] \<and> room acc (hd ds) \<longrightarrow> 0 < n)"
  using assms
proof (induction xs arbitrary: ds acc)
  case (Cons x xs)
  then obtain d ds' where d: "dir_reply_of st x = Some d" "mapM (dir_reply_of st) xs = Some ds'" "ds = d # ds'"
    by (auto elim!: bind_SomeE)
  show ?case
  proof (cases "room acc d")
    case True
    obtain n where "n \<le> length ds'" "add_entries room st (acc @ [d]) xs = Some ((acc @ [d]) @ take n ds')"
      using Cons.IH [OF d(2)] by blast
    then show ?thesis using d True by (intro exI [of _ "Suc n"]) simp
  next
    case False
    then show ?thesis using d by (intro exI [of _ 0]) simp
  qed
qed simp

text \<open>A client that lists a directory: it continues from the offset of the last entry it got, until a reply is empty.\<close>

fun readdir_calls :: "(dir_reply list \<Rightarrow> dir_reply \<Rightarrow> bool) \<Rightarrow> u64 \<Rightarrow> nat \<Rightarrow> nat \<Rightarrow> mount_state \<Rightarrow> dir_reply list option" where
  "readdir_calls room ino 0 off st = None"
| "readdir_calls room ino (Suc k) off st =
     (case fuse_readdir room ino (of_nat off) st of
        Some (ReplyDirectory [], _) \<Rightarrow> Some []
      | Some (ReplyDirectory ds, _) \<Rightarrow>
          map_option (\<lambda>rest. ds @ rest) (readdir_calls room ino k (dy_offset (last ds)) st)
      | _ \<Rightarrow> None)"

lemma mapM_in_set: "mapM f xs = Some ys \<Longrightarrow> y \<in> set ys \<Longrightarrow> \<exists>x \<in> set xs. f x = Some y"
  by (induction xs arbitrary: ys) (auto elim!: bind_SomeE)

lemma dir_replies:
  assumes "iter_directory_entries img u i = Some es" "ms_img st = img" "ms_ufs st = u"
  shows "\<exists>all. mapM (dir_reply_of st) (enumerate 0 es) = Some all \<and> length all = length es
    \<and> map dy_name all = map l_name es \<and> (\<forall>k < length all. dy_offset (all ! k) = k + 1)"
proof -
  have r: "\<exists>d. dir_reply_of st (k, e) = Some d \<and> dy_name d = l_name e \<and> dy_offset d = k + 1" if "e \<in> set es" for k e
  proof -
    have "read_inode img u (uint (l_inode e)) \<noteq> None"
      using assms(1) that by (auto simp: iter_directory_entries_def elim!: bind_SomeE dest!: mapM_in_set)
    then show ?thesis using assms(2,3) by (auto simp: dir_reply_of_def)
  qed
  let ?f = "\<lambda>(k, e). the (dir_reply_of st (k, e))"
  have all: "mapM (dir_reply_of st) (enumerate 0 es) = Some (map ?f (enumerate 0 es))"
  proof (rule mapM_Some_map)
    fix x assume "x \<in> set (enumerate 0 es)"
    then have "snd x \<in> set es" by (metis map_snd_enumerate image_eqI list.set_map)
    from r [OF this, of "fst x"] show "dir_reply_of st x = Some (?f x)" by (auto simp: case_prod_beta)
  qed
  moreover have "map dy_name (map ?f (enumerate 0 es)) = map l_name es"
  proof (rule nth_equalityI)
    fix k assume "k < length (map dy_name (map ?f (enumerate 0 es)))"
    then have k: "k < length es" by simp
    then show "map dy_name (map ?f (enumerate 0 es)) ! k = map l_name es ! k"
      using r [OF nth_mem [OF k], of k] by (auto simp: nth_enumerate_eq)
  qed simp
  moreover have "dy_offset (map ?f (enumerate 0 es) ! k) = k + 1" if "k < length es" for k
    using r [OF nth_mem [OF that], of k] that by (auto simp: nth_enumerate_eq)
  ultimately show ?thesis by auto
qed

lemma readdir_calls_from:
  assumes d: "read_inode (ms_img st) (ms_ufs st) (ino_arg ino) = Some (Some i)" "is_directory i"
    "iter_directory_entries (ms_img st) (ms_ufs st) i = Some es" "length es < 2 ^ 64"
    and all: "mapM (dir_reply_of st) (enumerate 0 es) = Some all" "length all = length es"
      "\<forall>k < length all. dy_offset (all ! k) = k + 1"
    and room: "\<forall>x. room [] x"
  shows "off \<le> length es \<Longrightarrow> length es - off < fuel \<Longrightarrow> readdir_calls room ino fuel off st = Some (drop off all)"
proof (induction fuel arbitrary: off)
  case (Suc k)
  have o: "unat (of_nat off :: u64) = off" using le_less_trans [OF Suc.prems(1) d(4)] by (simp add: unat_of_nat)
  have m: "mapM (dir_reply_of st) (drop off (enumerate 0 es)) = Some (drop off all)"
    using all(1) by (auto simp: mapM_iff)
  obtain n where n: "n \<le> length (drop off all)" "add_entries room st [] (drop off (enumerate 0 es)) = Some (take n (drop off all))"
      "drop off (enumerate 0 es) \<noteq> [] \<longrightarrow> 0 < n"
    using add_entries_prefix [OF m, of room "[]"] room by auto
  have call: "fuse_readdir room ino (of_nat off) st = Some (ReplyDirectory (take n (drop off all)), st)"
    using d(1-3) n(2) by (simp add: fuse_readdir_def o)
  show ?case
  proof (cases "off = length es")
    case True
    then show ?thesis using call all(2) by simp
  next
    case False
    then have n0: "0 < n" and off: "off < length es" using n(3) Suc.prems(1) by auto
    let ?ds = "take n (drop off all)"
    have ne: "?ds \<noteq> []" using n0 off all(2) by simp
    have "last ?ds = all ! (off + n - 1)"
      using n0 n(1) by (simp add: last_conv_nth)
    then have l: "dy_offset (last ?ds) = off + n" using all(3) n0 n(1) by simp
    have "readdir_calls room ino k (off + n) st = Some (drop (off + n) all)"
      using n(1) n0 all(2) Suc.prems by (intro Suc.IH) auto
    then have "readdir_calls room ino (Suc k) off st = Some (?ds @ drop (off + n) all)"
      using call ne l by (cases ?ds) auto
    then show ?thesis by (metis append_take_drop_id drop_drop add.commute)
  qed
qed simp

text \<open>C21: A directory can be listed completely. If the reply buffer takes at least one entry, a client that continues from
  the offset of the last entry it received gets, after at most one call more than there are entries, every entry of the
  directory exactly once and in order, numbered consecutively.\<close>

theorem readdir_complete:
  assumes "read_inode (ms_img st) (ms_ufs st) (ino_arg ino) = Some (Some i)" "is_directory i"
    "iter_directory_entries (ms_img st) (ms_ufs st) i = Some es" "length es < 2 ^ 64" "\<forall>x. room [] x"
  shows "\<exists>all. readdir_calls room ino (length es + 1) 0 st = Some all \<and> map dy_name all = map l_name es
    \<and> map dy_offset all = map Suc [0..<length es]"
proof -
  obtain all where all: "mapM (dir_reply_of st) (enumerate 0 es) = Some all" "length all = length es"
      "map dy_name all = map l_name es" "\<forall>k < length all. dy_offset (all ! k) = k + 1"
    using dir_replies [OF assms(3) refl refl] by blast
  have "readdir_calls room ino (length es + 1) 0 st = Some (drop 0 all)"
    by (rule readdir_calls_from [where room = room, OF assms(1-4) all(1,2,4) assms(5)]) simp_all
  moreover have "map dy_offset all = map Suc [0..<length es]"
    using all(2,4) by (intro nth_equalityI) auto
  ultimately show ?thesis using all(3) by simp
qed

theorem readdir_complete_witness:
  "\<exists>img. initialize_inode sample_ufs 2 (UFS_IFDIR OR 0x1ED) 0 0 2 0 sample_img = Some img
     \<and> readdir_calls (\<lambda>acc _. acc = []) 1 1 0 (mount_new img sample_ufs False) = Some []"
proof -
  have v: "valid_ino (sb sample_ufs) 2" by (simp add: valid_ino_def)
  have "inode_offset sample_ufs 2 + 128 \<le> length sample_img" using sample_tables v unfolding tables_fit_def by blast
  then obtain img where i: "initialize_inode sample_ufs 2 (UFS_IFDIR OR 0x1ED) 0 0 2 0 sample_img = Some img"
    and w: "wrote sample_ufs 2 (fresh_inode (UFS_IFDIR OR 0x1ED) 0 0 2 0) sample_img img"
    using initialize_inode_spec [OF sample_layout v] by blast
  let ?st = "mount_new img sample_ufs False"
  have n: "ino_arg 1 = 2" by (simp add: ino_arg_def fuse_to_ufs_def)
  have "read_inode (ms_img ?st) (ms_ufs ?st) (ino_arg 1) = Some (Some (fresh_inode (UFS_IFDIR OR 0x1ED) 0 0 2 0))"
    using wrote_reads(1) [OF sample_layout v sample_tables w] unfolding n by (simp add: mount_new_def)
  moreover have "is_directory (fresh_inode (UFS_IFDIR OR 0x1ED) 0 0 2 0)"
    by (simp add: is_directory_def file_type_def fresh_inode_def)
  moreover have "iter_directory_entries (ms_img ?st) (ms_ufs ?st) (fresh_inode (UFS_IFDIR OR 0x1ED) 0 0 2 0) = Some []"
    by (simp add: iter_directory_entries_def iter_inode_directory_records_def read_inode_bytes_def dir_block_offsets_def
        fresh_inode_def blank_inode_def)
  ultimately show ?thesis
    using readdir_complete [of ?st 1 "fresh_inode (UFS_IFDIR OR 0x1ED) 0 0 2 0" "[]" "\<lambda>acc _. acc = []"] i by simp
qed

section \<open>Files behind their buffers\<close>

text \<open>The bytes a client sees of an inode: its buffer if there is one, otherwise what the disk holds.\<close>

definition file_body :: "mount_state \<Rightarrow> int \<Rightarrow> bytes option" where
  "file_body st n =
     (case ms_buffers st n of
        Some b \<Rightarrow> Some (fb_data b)
      | None \<Rightarrow> do { found \<leftarrow> read_inode (ms_img st) (ms_ufs st) n;
                    (case found of Some i \<Rightarrow> read_inode_bytes (ms_img st) (ms_ufs st) i | None \<Rightarrow> Some []) })"

text \<open>The abstract file: a byte string that is read and written at offsets, with zeros where nothing was written.\<close>

definition pread :: "nat \<Rightarrow> nat \<Rightarrow> bytes \<Rightarrow> bytes" where
  "pread off n xs = take n (drop off xs)"

definition pwrite :: "nat \<Rightarrow> bytes \<Rightarrow> bytes \<Rightarrow> bytes" where
  "pwrite off data xs = take off (xs @ replicate (off - length xs) 0) @ data @ drop (off + length data) xs"

lemma pread_pwrite: "pread off (length data) (pwrite off data xs) = data"
  by (simp add: pread_def pwrite_def)

lemma splice_at_pwrite:
  assumes "off + length data < 2 ^ 64"
  shows "splice_at off data xs = Some (pwrite off data xs)"
proof -
  let ?ys = "if off + length data > length xs then resize0 (off + length data) xs else xs"
  have l: "off + length data \<le> length ?ys" by (simp add: resize0_def)
  have "take off ?ys = take off (xs @ replicate (off - length xs) 0)" "drop (off + length data) ?ys = drop (off + length data) xs"
    by (auto simp: resize0_def min_def)
  then show ?thesis
    using l uadd_eq [OF assms] by (simp add: splice_at_def Let_def subslice_def copy_at_def pwrite_def)
qed

lemma read_buffered:
  assumes "ms_buffers st (ino_arg ino) = Some b" "length (fb_data b) < 2 ^ 63"
  shows "fuse_read ino off sz st = Some (ReplyData (pread (unat off) (unat sz) (fb_data b)), st)"
proof -
  let ?n = "length (fb_data b)" and ?s = "min (unat off) (length (fb_data b))"
  have "unat sz < 2 ^ 32" using unat_u32_bound [of sz] by simp
  then have u: "uadd ?s (unat sz) = ?s + unat sz" using assms(2) by (intro uadd_eq) auto
  have "subslice (fb_data b) ?s (min (?s + unat sz) ?n) = Some (take (min (?s + unat sz) ?n - ?s) (drop ?s (fb_data b)))"
    by (rule subslice_SomeI) auto
  moreover have "take (min (?s + unat sz) ?n - ?s) (drop ?s (fb_data b)) = pread (unat off) (unat sz) (fb_data b)"
    by (auto simp: pread_def min_def)
  ultimately show ?thesis using assms(1) by (simp add: fuse_read_def Let_def u)
qed

text \<open>C14: Buffered writes implement the abstract file. On a writable mount, a write to an inode that can be read succeeds:
  the client then sees the old bytes with the data spliced in at the offset, zeros filling any gap; no other inode and not
  the image changes; and every read of the inode returns the corresponding range, in particular the data just written.\<close>

theorem write_refines:
  assumes "\<not> ms_read_only st" "file_body st (ino_arg ino) = Some old" "unat off + length data < 2 ^ 63" "length old < 2 ^ 63"
  shows "\<exists>st'. fuse_write ino off data st = Some (ReplyWritten (of_nat (length data)), st')
    \<and> file_body st' (ino_arg ino) = Some (pwrite (unat off) data old)
    \<and> (\<forall>m. m \<noteq> ino_arg ino \<longrightarrow> file_body st' m = file_body st m) \<and> ms_img st' = ms_img st
    \<and> (\<forall>off' sz. fuse_read ino off' sz st' = Some (ReplyData (pread (unat off') (unat sz) (pwrite (unat off) data old)), st'))
    \<and> pread (unat off) (length data) (pwrite (unat off) data old) = data"
proof -
  let ?n = "ino_arg ino" and ?new = "pwrite (unat off) data old"
  obtain st1 b where e: "ensure_buffer ?n st = Some st1" "ms_buffers st1 ?n = Some b" "fb_data b = old"
      "st1 = st \<lparr> ms_buffers := (ms_buffers st)(?n \<mapsto> b) \<rparr>"
  proof (cases "ms_buffers st ?n")
    case None
    then show ?thesis using assms(2) that by (auto simp: ensure_buffer_def file_body_def elim!: bind_SomeE)
  next
    case (Some b)
    then have "st = st \<lparr> ms_buffers := (ms_buffers st)(?n \<mapsto> b) \<rparr>" by (simp add: fun_upd_idem)
    then show ?thesis using Some assms(2) that [of st b] by (simp add: ensure_buffer_def file_body_def)
  qed
  let ?st' = "st1 \<lparr> ms_buffers := (ms_buffers st1)(?n \<mapsto> \<lparr> fb_data = ?new, fb_dirty = True \<rparr>) \<rparr>"
  have s: "splice_at (unat off) data old = Some ?new" using assms(3) by (intro splice_at_pwrite) simp
  have w: "fuse_write ino off data st = Some (ReplyWritten (of_nat (length data)), ?st')"
    using assms(1) e(1-3) s by (simp add: fuse_write_def writable_def Let_def)
  have "length ?new < 2 ^ 63" using assms(3,4) by (auto simp: pwrite_def)
  then have "fuse_read ino off' sz ?st' = Some (ReplyData (pread (unat off') (unat sz) ?new), ?st')" for off' sz
    using read_buffered [of ?st' ino "\<lparr> fb_data = ?new, fb_dirty = True \<rparr>" off' sz] by simp
  moreover have "file_body ?st' m = file_body st m" if "m \<noteq> ?n" for m
    using that by (cases "ms_buffers st m") (simp_all add: file_body_def e(4))
  moreover have "file_body ?st' ?n = Some ?new" "ms_img ?st' = ms_img st" by (simp_all add: file_body_def e(4))
  ultimately show ?thesis using w pread_pwrite by blast
qed

lemma sample_body: "file_body (mount_new sample_img sample_ufs False) (ino_arg 5) = Some []"
proof -
  have "valid_ino sample_sb 5" by (simp add: valid_ino_def)
  from sample_blank [OF this] show ?thesis
    by (simp add: file_body_def mount_new_def ino_arg_def fuse_to_ufs_def read_inode_bytes_def blank_inode_def)
qed

theorem write_refines_witness:
  "\<exists>st. fuse_write 5 3 [1, 2] (mount_new sample_img sample_ufs False) = Some (ReplyWritten 2, st)
     \<and> fuse_read 5 2 8 st = Some (ReplyData [0, 1, 2], st)"
proof -
  have "\<not> ms_read_only (mount_new sample_img sample_ufs False)" by (simp add: mount_new_def)
  from write_refines [OF this sample_body, of 3 "[1, 2]"] obtain st
    where w: "fuse_write 5 3 [1, 2] (mount_new sample_img sample_ufs False) = Some (ReplyWritten (of_nat (length [1, 2 :: u8])), st)"
      and r: "\<forall>off' sz. fuse_read 5 off' sz st = Some (ReplyData (pread (unat off') (unat sz) (pwrite (unat (3 :: u64)) [1, 2] [])), st)"
    by auto
  have "pread (unat (2 :: u64)) (unat (8 :: u32)) (pwrite (unat (3 :: u64)) [1, 2] []) = [0, 1, 2 :: u8]"
    by code_simp
  then show ?thesis using w r by (intro exI [of _ st]) simp
qed

text \<open>A well-formed file on the disk, apart from whatever else \<open>A\<close> holds.\<close>

definition disk_file :: "ufs \<Rightarrow> int \<Rightarrow> int set \<Rightarrow> inode \<Rightarrow> u32 list \<Rightarrow> u32 list \<Rightarrow> image \<Rightarrow> bool" where
  "disk_file u n A i ds ps img \<longleftrightarrow>
     layout_ok u \<and> valid_ino (sb u) n \<and> tables_fit u img \<and> read_inode img u n = Some (Some i) \<and> file_ok u img i ds ps
   \<and> own u (A \<union> file_cells u i ds ps) img \<and> A \<inter> file_cells u i ds ps = {}"

lemma disk_file_reads:
  assumes "disk_file u n A i ds ps img"
  shows "\<exists>data. read_inode_bytes img u i = Some data \<and> length data = unat (di_size i)
    \<and> (\<forall>off sz. read_inode_range img u i off sz = Some (take sz (drop off data)))"
proof -
  have "layout_ok u" "file_ok u img i ds ps" "own u (file_cells u i ds ps) img"
    using assms own_mono by (auto simp: disk_file_def)
  from file_contents [OF this] file_reads [OF this(1,2)] show ?thesis by blast
qed

text \<open>Writing attributes into the record of a file leaves its contents alone.\<close>

lemma disk_file_attributes:
  assumes f: "disk_file u n A i ds ps img" and w: "wrote u n j img img'"
    and j: "direct_blocks j = direct_blocks i" "indirect_blocks j = indirect_blocks i" "di_size j = di_size i"
  shows "disk_file u n A j ds ps img'" "read_inode_bytes img' u j = read_inode_bytes img u i" "others_same u n A img img'"
proof -
  note d = f [unfolded disk_file_def]
  have u: "layout_ok u" and n: "valid_ino (sb u) n" and t: "tables_fit u img" and fo: "file_ok u img i ds ps" using d by blast+
  have s: "same_except (rec_byte u n) img img'" using w by (simp add: wrote_def)
  have o: "own u (A \<union> file_cells u i ds ps) img" using d by blast
  note rw = record_write [OF u n o s]
  have cells: "file_cells u j ds ps = file_cells u i ds ps" "file_allocs u j ds = file_allocs u i ds"
    by (simp_all add: file_cells_def file_allocs_def j(3))
  have fr: "same_frags u (file_cells u i ds ps) img img'" by (rule others_frags [OF rw(2)]) blast
  note ff = file_frame [OF u fo own_mono [OF o] fr, simplified]
  have "file_ok u img' j ds ps"
    using ff(1) inode_blocks_attrs [OF j, of img' u] by (simp add: file_ok_def cells j(2,3))
  moreover have "read_inode img' u n = Some (Some j)" by (rule wrote_reads(1) [OF u n t w])
  moreover have "tables_fit u img'" using t tables_fit_length [OF same_except_length [OF s]] by blast
  ultimately show "disk_file u n A j ds ps img'" using d rw(1) unfolding disk_file_def cells by blast
  show "read_inode_bytes img' u j = read_inode_bytes img u i"
    using ff(2) unfolding read_inode_bytes_def inode_blocks_attrs(1) [OF j, of img' u] j(3) .
  show "others_same u n A img img'" by (rule others_same_mono [OF rw(2)]) blast
qed

lemma times_attributes:
  assumes "disk_file u n A i ds ps img"
  shows "\<exists>img'. set_inode_times u n a m c img = Some img'
    \<and> disk_file u n A (i \<lparr> di_atime := or_old a (di_atime i), di_mtime := or_old m (di_mtime i), di_ctime := or_old c (di_ctime i) \<rparr>) ds ps img'
    \<and> read_inode_bytes img' u (i \<lparr> di_atime := or_old a (di_atime i), di_mtime := or_old m (di_mtime i), di_ctime := or_old c (di_ctime i) \<rparr>)
        = read_inode_bytes img u i
    \<and> others_same u n A img img'"
proof -
  have u: "layout_ok u" "valid_ino (sb u) n" and t: "tables_fit u img" "read_inode img u n = Some (Some i)"
    using assms by (auto simp: disk_file_def)
  have "wrote u n i img img" using t read_inode_iff [OF u t(1)] u(2) by (intro wrote_refl) auto
  from set_inode_times_spec [OF u this] obtain img' where m: "set_inode_times u n a m c img = Some img'"
    and w: "wrote u n (i \<lparr> di_atime := or_old a (di_atime i), di_mtime := or_old m (di_mtime i), di_ctime := or_old c (di_ctime i) \<rparr>) img img'"
    by blast
  from disk_file_attributes [OF assms w] m show ?thesis by simp
qed

text \<open>Committing a dirty buffer.\<close>

lemma commit_file:
  assumes f: "disk_file (ms_ufs st) n A i ds ps (ms_img st)" and b: "ms_buffers st n = Some b" "fb_dirty b"
    and l: "length (fb_data b) \<le> max_blocks (ms_ufs st) * bs (ms_ufs st)"
  shows "\<exists>img'.
      commit rq n st = Some (Inr (), st \<lparr> ms_img := img', ms_buffers := (ms_buffers st)(n \<mapsto> b \<lparr> fb_dirty := False \<rparr>) \<rparr>)
        \<and> others_same (ms_ufs st) n A (ms_img st) img'
        \<and> (\<exists>i' ds' ps'. disk_file (ms_ufs st) n A i' ds' ps' img' \<and> read_inode_bytes img' (ms_ufs st) i' = Some (fb_data b)
            \<and> di_mtime i' = now_secs rq \<and> di_mode i' = di_mode i \<and> di_nlink i' = di_nlink i)
    \<or> (\<exists>e. commit rq n st = Some (Inl e, st \<lparr> ms_img := img' \<rparr>) \<and> (e = NoFreeBlocks \<or> e = NoFreeFragments)
        \<and> stable (ms_ufs st) A (ms_img st) img')"
proof -
  let ?u = "ms_ufs st" and ?now = "now_secs rq"
  have c: "layout_ok ?u" "valid_ino (sb ?u) n" "tables_fit ?u (ms_img st)" "read_inode (ms_img st) ?u n = Some (Some i)"
    "file_ok ?u (ms_img st) i ds ps" "own ?u (A \<union> file_cells ?u i ds ps) (ms_img st)" "A \<inter> file_cells ?u i ds ps = {}"
    using f by (auto simp: disk_file_def)
  from set_inode_contents_wp [OF c(1-3) l c(4-7)]
  obtain r img1 where r: "set_inode_contents ?u n (fb_data b) (ms_img st) = Some (r, img1)"
    and q: "case r of Inr _ \<Rightarrow> replaced ?u n A i (fb_data b) (ms_img st) img1 | Inl e \<Rightarrow> intact ?u n A (ms_img st) e img1"
    unfolding wp_def by auto
  show ?thesis
  proof (cases r)
    case (Inl e)
    then show ?thesis
      using r q b by (intro exI [of _ img1] disjI2 exI [of _ e]) (auto simp: commit_def on_image_def intact_def space_errors_def)
  next
    case (Inr x)
    then obtain i1 ds' ps' where i1: "read_inode img1 ?u n = Some (Some i1)" "replaced_inode ?u i (fb_data b) ps' i1"
        "file_ok ?u img1 i1 ds' ps'" "own ?u (A \<union> file_cells ?u i1 ds' ps') img1" "A \<inter> file_cells ?u i1 ds' ps' = {}"
        "read_inode_bytes img1 ?u i1 = Some (fb_data b)" and o: "others_same ?u n A (ms_img st) img1"
      using q by (auto simp: replaced_def)
    have len: "length img1 = length (ms_img st)" using o by (simp add: others_same_def)
    have "disk_file ?u n A i1 ds' ps' img1"
      using c(1,2,3) i1 tables_fit_length [OF len] by (simp add: disk_file_def)
    from times_attributes [OF this, of None "Some ?now" "Some ?now"] obtain img2
      where t: "set_inode_times ?u n None (Some ?now) (Some ?now) img1 = Some img2" "others_same ?u n A img1 img2"
        and d: "disk_file ?u n A (i1 \<lparr> di_mtime := ?now, di_ctime := ?now \<rparr>) ds' ps' img2"
          "read_inode_bytes img2 ?u (i1 \<lparr> di_mtime := ?now, di_ctime := ?now \<rparr>) = Some (fb_data b)"
      using i1(6) by (auto simp: or_old_def)
    have "di_mode i1 = di_mode i" "di_nlink i1 = di_nlink i"
      using arg_cong [OF i1(2) [unfolded replaced_inode_def], of di_mode] arg_cong [OF i1(2) [unfolded replaced_inode_def], of di_nlink]
      by simp_all
    moreover have "commit rq n st = Some (Inr (), st \<lparr> ms_img := img2, ms_buffers := (ms_buffers st)(n \<mapsto> b \<lparr> fb_dirty := False \<rparr>) \<rparr>)"
      using r Inr t(1) b by (simp add: commit_def on_image_def mark_clean_def Let_def)
    moreover have "others_same ?u n A (ms_img st) img2" using others_same_trans [OF o t(2)] .
    ultimately show ?thesis
      using d by (intro exI [of _ img2] disjI1 conjI exI [of _ "i1 \<lparr> di_mtime := ?now, di_ctime := ?now \<rparr>"] exI [of _ ds'] exI [of _ ps']) simp_all
  qed
qed

text \<open>C13: Releasing a written file. For a dirty buffer over a well-formed file whose data fits the addressable size, the
  handler never panics. Either it replies ok: the handle is gone, the disk holds exactly the buffered bytes with the
  modification time of the request, the client still sees those bytes, and the buffer is dropped with the last handle;
  everything else on the disk is unchanged. Or the space runs out: the reply is the error number of the allocator's
  message, the buffer (still dirty) and the handle stay in the daemon, so the client still sees the buffered bytes, and all
  other files keep their fragments and contents. In that case nothing is claimed of the file's own old contents on the
  disk, whose blocks were released before the new ones were asked for.\<close>

theorem release_durable:
  assumes "disk_file (ms_ufs st) (ino_arg ino) A i ds ps (ms_img st)" "ms_buffers st (ino_arg ino) = Some b" "fb_dirty b"
    "length (fb_data b) \<le> max_blocks (ms_ufs st) * bs (ms_ufs st)"
  shows "\<exists>reply st'. fuse_release rq ino fh st = Some (reply, st') \<and>
     (reply = ReplyOk \<and> ms_handles st' = handles_remove fh (ms_handles st)
        \<and> file_body st' (ino_arg ino) = Some (fb_data b)
        \<and> (\<exists>i' ds' ps'. disk_file (ms_ufs st) (ino_arg ino) A i' ds' ps' (ms_img st')
             \<and> read_inode_bytes (ms_img st') (ms_ufs st) i' = Some (fb_data b) \<and> di_mtime i' = now_secs rq)
        \<and> (ms_buffers st' (ino_arg ino) = None \<longleftrightarrow> ino_arg ino \<notin> snd ` set (ms_handles st'))
        \<and> others_same (ms_ufs st) (ino_arg ino) A (ms_img st) (ms_img st')
    \<or> (\<exists>e. reply = ReplyError (errno_from (werror_message e)) \<and> (e = NoFreeBlocks \<or> e = NoFreeFragments))
        \<and> ms_handles st' = ms_handles st \<and> ms_buffers st' = ms_buffers st \<and> file_body st' (ino_arg ino) = Some (fb_data b)
        \<and> stable (ms_ufs st) A (ms_img st) (ms_img st'))"
proof -
  let ?n = "ino_arg ino" and ?u = "ms_ufs st"
  from commit_file [OF assms, of rq] consider
    (ok) img' i' ds' ps' where
      "commit rq ?n st = Some (Inr (), st \<lparr> ms_img := img', ms_buffers := (ms_buffers st)(?n \<mapsto> b \<lparr> fb_dirty := False \<rparr>) \<rparr>)"
      "others_same ?u ?n A (ms_img st) img'" "disk_file ?u ?n A i' ds' ps' img'" "read_inode_bytes img' ?u i' = Some (fb_data b)"
      "di_mtime i' = now_secs rq"
  | (full) img' e where "commit rq ?n st = Some (Inl e, st \<lparr> ms_img := img' \<rparr>)" "e = NoFreeBlocks \<or> e = NoFreeFragments"
      "stable ?u A (ms_img st) img'"
    by blast
  then show ?thesis
  proof cases
    case ok
    let ?st1 = "st \<lparr> ms_img := img', ms_buffers := (ms_buffers st)(?n \<mapsto> b \<lparr> fb_dirty := False \<rparr>), ms_handles := handles_remove fh (ms_handles st) \<rparr>"
    let ?st' = "drop_buffer ?n ?st1"
    have r: "fuse_release rq ino fh st = Some (ReplyOk, ?st')" using ok(1) by (simp add: fuse_release_def Let_def)
    have d: "read_inode img' ?u ?n = Some (Some i')" using ok(3) by (simp add: disk_file_def)
    have "file_body ?st' ?n = Some (fb_data b)" "ms_img ?st' = img'" "ms_handles ?st' = handles_remove fh (ms_handles st)"
      "ms_buffers ?st' ?n = None \<longleftrightarrow> ?n \<notin> snd ` set (ms_handles ?st')"
      using d ok(4) by (simp_all add: drop_buffer_def file_body_def)
    then show ?thesis using r ok(2-5) by metis
  next
    case full
    then have "fuse_release rq ino fh st = Some (ReplyError (errno_from (werror_message e)), st \<lparr> ms_img := img' \<rparr>)"
      by (simp add: fuse_release_def Let_def)
    then show ?thesis using full(2,3) assms(2) by (auto simp: file_body_def)
  qed
qed

theorem release_durable_witness:
  "\<exists>reply st'. fuse_release \<lparr> rq_uid = 0, rq_gid = 0, rq_clock = 99 \<rparr> 5 1
       (mount_new sample_img sample_ufs False \<lparr> ms_buffers := [5 \<mapsto> \<lparr> fb_data = [1, 2, 3], fb_dirty = True \<rparr>], ms_handles := [(1, 5)] \<rparr>)
     = Some (reply, st') \<and> (reply = ReplyOk \<and> file_body st' 5 = Some [1, 2, 3] \<and> ms_handles st' = []
       \<or> (\<exists>e. reply = ReplyError e) \<and> file_body st' 5 = Some [1, 2, 3])"
proof -
  let ?b = "\<lparr> fb_data = [1, 2, 3], fb_dirty = True \<rparr>"
  let ?st = "mount_new sample_img sample_ufs False \<lparr> ms_buffers := [5 \<mapsto> ?b], ms_handles := [(1, 5)] \<rparr>"
  have n: "ino_arg 5 = 5" by (simp add: ino_arg_def fuse_to_ufs_def)
  have v: "valid_ino sample_sb 5" "valid_ino (sb sample_ufs) 5" by (simp_all add: valid_ino_def)
  have s: "ms_ufs ?st = sample_ufs" "ms_img ?st = sample_img" by (simp_all add: mount_new_def)
  have f: "disk_file (ms_ufs ?st) (ino_arg 5) {} blank_inode [] [] (ms_img ?st)"
    unfolding s n disk_file_def using v blank_file sample_blank [OF v(1)] by simp
  have b: "ms_buffers ?st (ino_arg 5) = Some ?b" "fb_dirty ?b" unfolding n by simp_all
  have l: "length (fb_data ?b) \<le> max_blocks (ms_ufs ?st) * bs (ms_ufs ?st)"
    unfolding s by (simp add: max_blocks_def bs_def)
  from release_durable [OF f b l, of "\<lparr> rq_uid = 0, rq_gid = 0, rq_clock = 99 \<rparr>" 1] show ?thesis
    unfolding n by (auto simp: handles_remove_def)
qed

text \<open>C15: Reads and attributes agree with what a client wrote. For an inode that is buffered, or is a well-formed file on
  the disk, a read returns the requested range of its bytes, clamped to the end, and the size in its attributes is the
  number of those bytes; neither changes the state.\<close>

theorem read_refines:
  assumes "disk_file (ms_ufs st) (ino_arg ino) A i ds ps (ms_img st)"
    "file_body st (ino_arg ino) = Some xs" "length xs < 2 ^ 63"
  shows "fuse_read ino off sz st = Some (ReplyData (pread (unat off) (unat sz) xs), st)
    \<and> (\<exists>a. fuse_getattr ino st = Some (ReplyAttr a, st) \<and> fa_size a = length xs)"
proof -
  let ?n = "ino_arg ino"
  obtain data where d: "read_inode_bytes (ms_img st) (ms_ufs st) i = Some data" "length data = unat (di_size i)"
      "\<forall>off sz. read_inode_range (ms_img st) (ms_ufs st) i off sz = Some (take sz (drop off data))"
    using disk_file_reads [OF assms(1)] by blast
  have r: "read_inode (ms_img st) (ms_ufs st) ?n = Some (Some i)" using assms(1) by (simp add: disk_file_def)
  show ?thesis
  proof (cases "ms_buffers st ?n")
    case None
    then have "xs = data" using assms(2) r d(1) by (simp add: file_body_def)
    then show ?thesis using None r d
      by (simp add: fuse_read_def fuse_getattr_def attr_for_def make_attr_def pread_def Let_def)
  next
    case (Some b)
    then have x: "xs = fb_data b" using assms(2) by (simp add: file_body_def)
    then show ?thesis using read_buffered [OF Some] assms(3) r Some
      by (simp add: fuse_getattr_def attr_for_def make_attr_def Let_def)
  qed
qed

theorem read_refines_witness:
  "fuse_read 5 2 8 (mount_new sample_img sample_ufs False) = Some (ReplyData [], mount_new sample_img sample_ufs False)"
proof -
  have n: "ino_arg 5 = 5" by (simp add: ino_arg_def fuse_to_ufs_def)
  have v: "valid_ino sample_sb 5" "valid_ino (sb sample_ufs) 5" by (simp_all add: valid_ino_def)
  have s: "ms_ufs (mount_new sample_img sample_ufs False) = sample_ufs" "ms_img (mount_new sample_img sample_ufs False) = sample_img"
    by (simp_all add: mount_new_def)
  have f: "disk_file (ms_ufs (mount_new sample_img sample_ufs False)) (ino_arg 5) {} blank_inode [] [] (ms_img (mount_new sample_img sample_ufs False))"
    unfolding s n disk_file_def using v blank_file sample_blank [OF v(1)] by simp
  show ?thesis using read_refines [OF f sample_body, of 2 8] by (simp add: pread_def)
qed

end
