(* ===== verification/File_Write.thy ===== *)
theory File_Write
  imports File_Correct Rust_Std
begin

text \<open>
  Correctness of \<^verbatim>\<open>apply_inode_write\<close> of \<^verbatim>\<open>crates/svr4-ufs/src/write.rs\<close>: where each byte of a file lies, the
  write of a range into the blocks a file has, and the write that reallocates only the last blocks.
\<close>

section \<open>Where the bytes of a file lie\<close>

text \<open>The place of byte \<open>j\<close> of a file in the image, and that its allocation reaches it.\<close>

definition byte_at :: "ufs \<Rightarrow> (int \<times> int) list \<Rightarrow> nat \<Rightarrow> nat" where
  "byte_at u as j = fboff u (fst (as ! (j div bs u))) + j mod bs u"

definition room :: "ufs \<Rightarrow> (int \<times> int) list \<Rightarrow> nat \<Rightarrow> bool" where
  "room u as j \<longleftrightarrow> j div bs u < length as \<and> int (j mod bs u) < snd (as ! (j div bs u))"

text \<open>The allocations are well formed and inside the image.\<close>

definition runs_fit :: "ufs \<Rightarrow> (int \<times> int) list \<Rightarrow> image \<Rightarrow> bool" where
  "runs_fit u as img \<longleftrightarrow> (\<forall>a \<in> set as. run_ok u a \<and> fboff u (fst a) + nat (snd a) \<le> length img)"

lemma runs_fit_length: "length img' = length img \<Longrightarrow> runs_fit u as img' = runs_fit u as img"
  by (simp add: runs_fit_def)

lemma own_runs_fit:
  assumes u: "layout_ok u" and o: "own u (A \<union> alloc_runs u as) img" and ok: "\<And>a. a \<in> set as \<Longrightarrow> run_ok u a"
  shows "runs_fit u as img"
  unfolding runs_fit_def
proof (intro ballI conjI)
  fix a assume a: "a \<in> set as"
  then show "run_ok u a" by (rule ok)
  note r = run_okD [OF u ok [OF a]]
  have "alloc_run u a \<subseteq> A \<union> alloc_runs u as" using a by (auto simp: alloc_runs_def)
  then show "fboff u (fst a) + nat (snd a) \<le> length img"
    unfolding r(3) using r by (intro own_run_fits [OF u o]) (auto simp: alloc_run_def)
qed

lemma runs_fitD:
  assumes u: "layout_ok u" and f: "runs_fit u as img" and r: "room u as j"
  shows "byte_at u as j < length img" "\<exists>x \<in> alloc_run u (as ! (j div bs u)). in_frag u x (byte_at u as j)"
    "data_run u x 1 \<Longrightarrow> in_frag u x (byte_at u as j) \<Longrightarrow> x \<in> alloc_run u (as ! (j div bs u))"
    "x \<in> alloc_runs u as \<Longrightarrow> data_run u x 1" "int (j mod bs u) < 8192"
proof -
  let ?a = "as ! (j div bs u)"
  have m: "?a \<in> set as" "int (j mod bs u) < snd ?a" using r by (auto simp: room_def)
  then have ok: "run_ok u ?a" "fboff u (fst ?a) + nat (snd ?a) \<le> length img" using f by (auto simp: runs_fit_def)
  show "byte_at u as j < length img" using ok(2) m(2) by (simp add: byte_at_def)
  note rd = run_okD [OF u ok(1)]
  show e: "\<exists>x \<in> alloc_run u ?a. in_frag u x (byte_at u as j)"
    unfolding alloc_run_def using m(2) rd(3) by (intro run_byte [OF u rd(1)]) (auto simp: byte_at_def)
  then obtain y where y: "y \<in> alloc_run u ?a" "in_frag u y (byte_at u as j)" by blast
  have "data_run u y 1" using y(1) by (intro data_run_member [OF u rd(1)]) (simp add: alloc_run_def)
  then show "x \<in> alloc_run u ?a" if "data_run u x 1" "in_frag u x (byte_at u as j)"
    using in_frag_unique [OF u that(1) _ that(2) y(2)] y(1) by simp
  show "data_run u x 1" if x: "x \<in> alloc_runs u as"
  proof -
    obtain a where "a \<in> set as" "x \<in> alloc_run u a" using x by (auto simp: alloc_runs_def)
    then show ?thesis using f run_okD(1) [OF u] data_run_member [OF u] by (fastforce simp: runs_fit_def alloc_run_def)
  qed
  show "int (j mod bs u) < 8192"
    using layout_facts(5,6) [OF u] mod_less_divisor [of "bs u" j] by linarith
qed

text \<open>Distinct bytes of a file lie at distinct places.\<close>

lemma byte_at_inj:
  assumes u: "layout_ok u" and f: "runs_fit u as img" and ap: "apart_runs u as"
    and j: "room u as j" "room u as k" "byte_at u as j = byte_at u as k"
  shows "j = k"
proof -
  let ?p = "j div bs u" and ?q = "k div bs u"
  obtain x where x: "x \<in> alloc_run u (as ! ?p)" "in_frag u x (byte_at u as j)" using runs_fitD(2) [OF u f j(1)] by blast
  have l: "?p < length as" "?q < length as" using j by (auto simp: room_def)
  then have "x \<in> alloc_runs u as" using x(1) by (auto simp: alloc_runs_def)
  then have "x \<in> alloc_run u (as ! ?q)"
    using runs_fitD(3) [OF u f j(2)] runs_fitD(4) [OF u f j(1)] x(2) j(3) by simp
  then have ne: "alloc_run u (as ! ?p) \<inter> alloc_run u (as ! ?q) \<noteq> {}" using x(1) by blast
  have "?p = ?q"
  proof (rule ccontr)
    assume "?p \<noteq> ?q"
    then consider "?p < ?q" | "?q < ?p" by linarith
    then show False
      using ne sorted_wrt_nth_less [OF ap [unfolded apart_runs_def]] l by cases (fastforce simp: Int_commute)+
  qed
  then have "j mod bs u = k mod bs u" using j(3) by (simp add: byte_at_def)
  then show ?thesis using \<open>?p = ?q\<close> by (metis div_mult_mod_eq)
qed

lemma stored_iff:
  "stored u as data img \<longleftrightarrow> length data \<le> length as * bs u
     \<and> (\<forall>k < length as. subslice img (fboff u (fst (as ! k))) (fboff u (fst (as ! k)) + length (take (bs u) (drop (k * bs u) data)))
          = Some (take (bs u) (drop (k * bs u) data)) \<and> int (length (take (bs u) (drop (k * bs u) data))) \<le> snd (as ! k))"
proof (induction as arbitrary: data)
  case (Cons a as)
  have d: "drop (k * bs u) (drop (bs u) data) = drop (Suc k * bs u) data" for k by (simp add: add.commute)
  have s: "(\<forall>k < Suc n. P k) \<longleftrightarrow> P 0 \<and> (\<forall>k < n. P (Suc k))" for n P by (metis less_Suc_eq_0_disj nat_less_induct not_less_eq zero_less_Suc)
  show ?case by (simp only: stored.simps Cons.IH d list.size(4) One_nat_def add_Suc_right add_0_right s nth_Cons_0 nth_Cons_Suc) (auto)
qed simp

text \<open>Data is stored when each byte is at its place.\<close>

lemma stored_bytes:
  assumes u: "layout_ok u" and f: "runs_fit u as img"
  shows "stored u as d img \<longleftrightarrow> (\<forall>j < length d. room u as j \<and> img ! byte_at u as j = d ! j)"
proof -
  have b: "0 < bs u" using layout_facts(5) [OF u] by simp
  let ?t = "\<lambda>k. take (bs u) (drop (k * bs u) d)"
  have piece: "subslice img (fboff u (fst (as ! k))) (fboff u (fst (as ! k)) + length (?t k)) = Some (?t k) \<longleftrightarrow>
      (\<forall>m < length (?t k). img ! (fboff u (fst (as ! k)) + m) = ?t k ! m)"
    if k: "k < length as" and n: "int (length (?t k)) \<le> snd (as ! k)" for k
  proof -
    have "as ! k \<in> set as" using k by simp
    then have "fboff u (fst (as ! k)) + nat (snd (as ! k)) \<le> length img" using f by (auto simp: runs_fit_def)
    then have l: "fboff u (fst (as ! k)) + length (?t k) \<le> length img" using n by linarith
    then have "subslice img (fboff u (fst (as ! k))) (fboff u (fst (as ! k)) + length (?t k))
        = Some (take (length (?t k)) (drop (fboff u (fst (as ! k))) img))" by (simp add: subslice_def)
    then show ?thesis using l by (auto simp: list_eq_iff_nth_eq)
  qed
  show ?thesis
  proof
    assume s: "stored u as d img"
    show "\<forall>j < length d. room u as j \<and> img ! byte_at u as j = d ! j"
    proof (intro allI impI)
      fix j assume j: "j < length d"
      let ?k = "j div bs u" and ?m = "j mod bs u"
      have jk: "?k * bs u + ?m = j" by (rule div_mult_mod_eq)
      have "j < length as * bs u" using j stored_covers [OF s] by simp
      then have k: "?k < length as" by (rule less_mult_imp_div_less)
      have "?m < length d - ?k * bs u" using j jk by linarith
      then have m: "?m < length (?t ?k)" using mod_less_divisor [OF b, of j] by simp
      have "int (length (?t ?k)) \<le> snd (as ! ?k)" using s k unfolding stored_iff by blast
      moreover have "subslice img (fboff u (fst (as ! ?k))) (fboff u (fst (as ! ?k)) + length (?t ?k)) = Some (?t ?k)"
        by (rule stored_nth [OF s k])
      ultimately have "int ?m < snd (as ! ?k)" "img ! (fboff u (fst (as ! ?k)) + ?m) = ?t ?k ! ?m" using m piece [OF k] by auto
      moreover have "?k * bs u \<le> length d" using j jk by linarith
      then have "?t ?k ! ?m = d ! j" using m jk by (simp add: nth_drop)
      ultimately show "room u as j \<and> img ! byte_at u as j = d ! j" using k by (simp add: room_def byte_at_def)
    qed
  next
    assume a: "\<forall>j < length d. room u as j \<and> img ! byte_at u as j = d ! j"
    have pos: "0 \<le> snd (as ! k)" if "k < length as" for k
    proof -
      have "run_ok u (as ! k)" using f that by (simp add: runs_fit_def)
      then have "request_ok u (snd (as ! k))" by (simp add: run_ok_def)
      then show ?thesis by (simp add: request_ok_def)
    qed
    have dm: "(k * bs u + m) div bs u = k" "(k * bs u + m) mod bs u = m" if "m < bs u" for k m using that b by simp_all
    show "stored u as d img"
      unfolding stored_iff
    proof (intro conjI allI impI)
      show "length d \<le> length as * bs u"
      proof (rule ccontr)
        assume "\<not> length d \<le> length as * bs u"
        then have "room u as (length as * bs u)" using a by simp
        then show False using b by (simp add: room_def)
      qed
      fix k assume k: "k < length as"
      show n: "int (length (?t k)) \<le> snd (as ! k)"
      proof (cases "length (?t k) = 0")
        case False
        let ?m = "length (?t k) - 1"
        have m: "?m < bs u" "k * bs u + ?m < length d" using False by auto
        then have "room u as (k * bs u + ?m)" using a by simp
        then have "int ?m < snd (as ! k)" unfolding room_def dm [OF m(1), of k] by blast
        then show ?thesis using False by linarith
      qed (use pos [OF k] in simp)
      have "img ! (fboff u (fst (as ! k)) + m) = ?t k ! m" if m: "m < length (?t k)" for m
      proof -
        have "m < bs u" "k * bs u + m < length d" using m by auto
        then show ?thesis using a dm [of m k] by (auto simp: byte_at_def)
      qed
      then show "subslice img (fboff u (fst (as ! k))) (fboff u (fst (as ! k)) + length (?t k)) = Some (?t k)"
        using piece [OF k n] by blast
    qed
  qed
qed

section \<open>Writing a range in place\<close>

text \<open>The image after the bytes \<open>[off, m)\<close> of a file have been overwritten from \<open>w\<close>.\<close>

definition overwritten :: "ufs \<Rightarrow> (int \<times> int) list \<Rightarrow> nat \<Rightarrow> bytes \<Rightarrow> nat \<Rightarrow> image \<Rightarrow> image \<Rightarrow> bool" where
  "overwritten u as off w m img img' \<longleftrightarrow> length img' = length img
     \<and> (\<forall>j. off \<le> j \<and> j < m \<longrightarrow> img' ! byte_at u as j = w ! (j - off))
     \<and> (\<forall>k. (\<forall>j. off \<le> j \<and> j < m \<longrightarrow> k \<noteq> byte_at u as j) \<longrightarrow> img' ! k = img ! k)"

lemma overwritten_empty: "m \<le> off \<Longrightarrow> overwritten u as off w m img img"
  by (auto simp: overwritten_def)

text \<open>One block of the range.\<close>

lemma overwrite_block:
  assumes u: "layout_ok u" and f: "runs_fit u as img" and ap: "apart_runs u as"
    and r: "\<And>j. off \<le> j \<Longrightarrow> j < off + length w \<Longrightarrow> room u as j"
    and o: "overwritten u as off w (min (off + length w) (b * bs u)) img img1"
    and b: "off div bs u \<le> b" "b < length as" "b * bs u < off + length w" "w \<noteq> []"
  defines "i \<equiv> off - b * bs u" and "e \<equiv> min (bs u) (off + length w - b * bs u)"
  shows "\<exists>img2. copy_at img1 (uadd (usize (data_block_offset (sb u) (start_offset u) (fst (as ! b)))) i)
      (take (e - i) (drop (b * bs u + i - off) w)) = Some img2
    \<and> overwritten u as off w (min (off + length w) (Suc b * bs u)) img img2 \<and> i < e \<and> int e \<le> snd (as ! b)"
proof -
  let ?B = "bs u" and ?en = "off + length w" and ?o = "fboff u (fst (as ! b))"
  have B: "0 < ?B" "?B \<le> 8192" using layout_facts(5,6) [OF u] by auto
  have ob: "off < b * ?B + ?B"
  proof -
    have "off < off div ?B * ?B + ?B" using dividend_less_div_times [OF B(1), of off] by (simp add: add.commute)
    also have "\<dots> \<le> b * ?B + ?B" using b(1) by simp
    finally show ?thesis .
  qed
  have "0 < length w" using b(4) by simp
  then have ie: "i < e" "e \<le> ?B" unfolding i_def e_def using ob b(3) B by linarith+
  have bi: "b * ?B + i = max off (b * ?B)" "b * ?B + e = min ?en (Suc b * ?B)" using b(3) by (auto simp: i_def e_def)
  have dm: "(b * ?B + m) div ?B = b" "(b * ?B + m) mod ?B = m" if "m < ?B" for m using that B by simp_all
  have at: "byte_at u as (b * ?B + m) = ?o + m" if "m < ?B" for m using dm [OF that] by (simp add: byte_at_def)
  have e8: "int e \<le> snd (as ! b)"
  proof -
    have m: "e - 1 < ?B" "off \<le> b * ?B + (e - 1)" "b * ?B + (e - 1) < ?en" using ie bi by auto
    have "room u as (b * ?B + (e - 1))" by (rule r [OF m(2,3)])
    then have "int (e - 1) < snd (as ! b)" unfolding room_def dm [OF m(1)] by blast
    then show ?thesis using ie by linarith
  qed
  have fb: "run_ok u (as ! b)" "?o + nat (snd (as ! b)) \<le> length img" using f b(2) by (auto simp: runs_fit_def)
  have ba: "block_addr u (fst (as ! b))" using fb(1) by (simp add: run_ok_def)
  note ab = block_addr_bounds [OF u ba]
  have "?o < 2 ^ 63" using ab(1,2) by (intro data_block_offset_fboff(3) [OF u]) auto
  moreover have "i < 2 ^ 62" using ie B(2) by simp
  ultimately have ad: "uadd (usize (data_block_offset (sb u) (start_offset u) (fst (as ! b)))) i = ?o + i"
    using ab(5) by (simp add: uadd_eq)
  let ?p = "take (e - i) (drop (b * ?B + i - off) w)"
  have lp: "length ?p = e - i"
  proof -
    have "b * ?B + e - off \<le> length w" "off \<le> b * ?B + i" using bi by auto
    then have "e - i \<le> length w - (b * ?B + i - off)" using ie by linarith
    then show ?thesis by simp
  qed
  have le: "?o + e \<le> length img1" using fb(2) e8 o by (simp add: overwritten_def)
  then obtain img2 where c: "copy_at img1 (?o + i) ?p = Some img2" using copy_at_total [of "?o + i" ?p img1] ie lp by auto
  have nth: "img2 ! k = (if ?o + i \<le> k \<and> k < ?o + e then w ! (b * ?B + (k - ?o) - off) else img1 ! k)" for k
  proof -
    have ce: "?o + i + length ?p = ?o + e" using lp ie by simp
    show ?thesis
  proof (cases "?o + i \<le> k \<and> k < ?o + e")
    case True
    have x: "off \<le> b * ?B + i" "b * ?B + i \<le> ?en" using bi ie by linarith+
    have d: "k - (?o + i) < e - i" "b * ?B + i - off \<le> length w" using True x by linarith+
    have "?p ! (k - (?o + i)) = w ! ((b * ?B + i - off) + (k - (?o + i)))" by (simp only: nth_take [OF d(1)] nth_drop [OF d(2)])
    also have "(b * ?B + i - off) + (k - (?o + i)) = b * ?B + (k - ?o) - off" using True x by linarith
    finally show ?thesis using True copy_at_nth [OF c, of k] unfolding ce by (simp only: if_True)
  next
    case False
    then show ?thesis using copy_at_nth [OF c, of k] unfolding ce by (simp only: if_False)
  qed
  qed
  have "overwritten u as off w (min ?en (Suc b * ?B)) img img2"
    unfolding overwritten_def
  proof (intro conjI allI impI)
    show "length img2 = length img" using copy_at_length [OF c] o by (simp add: overwritten_def)
  next
    fix j assume j: "off \<le> j \<and> j < min ?en (Suc b * ?B)"
    show "img2 ! byte_at u as j = w ! (j - off)"
    proof (cases "b * ?B \<le> j")
      case True
      then obtain m where m: "j = b * ?B + m" using le_Suc_ex by blast
      have mm: "m < ?B" "i \<le> m" "m < e" using j m bi by (auto simp: i_def)
      show ?thesis unfolding m at [OF mm(1)] nth using mm by simp
    next
      case False
      have "byte_at u as j \<noteq> ?o + m" if m: "i \<le> m" "m < e" for m
      proof
        assume eq: "byte_at u as j = ?o + m"
        have mb: "m < ?B" using m ie by simp
        have "room u as (b * ?B + m)" using m bi by (intro r) auto
        then have "j = b * ?B + m" using byte_at_inj [OF u f ap r] j eq at [OF mb] by simp
        then show False using False by simp
      qed
      then have "\<not> (?o + i \<le> byte_at u as j \<and> byte_at u as j < ?o + e)"
        by (metis add_less_cancel_left add_le_cancel_left le_add1 le_Suc_ex order_trans)
      then show ?thesis using nth [of "byte_at u as j"] o j False by (auto simp: overwritten_def)
    qed
  next
    fix k assume k: "\<forall>j. off \<le> j \<and> j < min ?en (Suc b * ?B) \<longrightarrow> k \<noteq> byte_at u as j"
    have "\<not> (?o + i \<le> k \<and> k < ?o + e)"
    proof
      assume kk: "?o + i \<le> k \<and> k < ?o + e"
      let ?m = "k - ?o"
      have "?m < ?B" "off \<le> b * ?B + ?m" "b * ?B + ?m < min ?en (Suc b * ?B)" using kk ie bi by auto
      then show False using k at [of ?m] kk by auto
    qed
    moreover have "\<forall>j. off \<le> j \<and> j < min ?en (b * ?B) \<longrightarrow> k \<noteq> byte_at u as j" using k by auto
    ultimately show "img2 ! k = img ! k" using nth [of k] o by (auto simp: overwritten_def)
  qed
  then show ?thesis unfolding ad using c ie e8 by blast
qed

lemma write_range:
  assumes u: "layout_ok u" and f: "runs_fit u as img" and ap: "apart_runs u as"
    and st: "stored u as d img" and o: "off + length w \<le> length d" and l: "length d < 2 ^ 62"
  shows "\<exists>img'. write_data_range u (map fst as) (map snd as) off w img = Some img'
    \<and> overwritten u as off w (off + length w) img img' \<and> stored u as (upd d off w) img'"
proof -
  let ?B = "bs u" and ?en = "off + length w" and ?s = "off div bs u"
  have B: "0 < ?B" "?B \<le> 8192" using layout_facts(5,6) [OF u] by auto
  have r: "room u as j" if "j < ?en" for j using st o that unfolding stored_bytes [OF u f] by simp
  have "\<exists>img'. write_data_range u (map fst as) (map snd as) off w img = Some img' \<and> overwritten u as off w ?en img img'"
  proof (cases "w = []")
    case True
    then show ?thesis by (auto simp: write_data_range_def overwritten_def)
  next
    case False
    let ?e = "min (length as) ((?en + (?B - 1)) div ?B)"
    define g where "g img b = (let fs_block = map fst as ! b; allocation_bytes = usize (map snd as ! b); logical_start = b * ?B;
             inner_start = off - logical_start;
             inner_end = min (min ?B (?en - logical_start)) allocation_bytes
           in if inner_start \<ge> inner_end then Some img else
              let data_start = logical_start + inner_start - off;
                  data_end = logical_start + inner_end - off;
                  backing = usize (data_block_offset (sb u) (start_offset u) fs_block)
              in do { piece \<leftarrow> subslice w data_start data_end;
                      copy_at img (uadd backing inner_start) piece })" for img b
    have e: "uadd off (length w) = ?en" using l o by (simp add: uadd_eq)
    have run: "write_data_range u (map fst as) (map snd as) off w img = foldM g img [?s..<?e]"
      using False by (simp add: write_data_range_def Let_def e layout_facts(4) [OF u] g_def [abs_def])
    have step: "\<exists>img2. g img1 b = Some img2 \<and> overwritten u as off w (min ?en (Suc b * ?B)) img img2"
      if b: "?s \<le> b" "b < ?e" and ow: "overwritten u as off w (min ?en (b * ?B)) img img1" for b img1
    proof -
      have bl: "b < length as" using b(2) by simp
      have "Suc b \<le> (?en + (?B - 1)) div ?B" using b(2) by simp
      then have "Suc b * ?B \<le> (?en + (?B - 1)) div ?B * ?B" by (rule mult_le_mono1)
      also have "\<dots> \<le> ?en + (?B - 1)" by (rule div_times_less_eq_dividend)
      finally have bb: "b * ?B < ?en" using B by simp
      let ?i = "off - b * ?B" and ?j = "min ?B (?en - b * ?B)"
      obtain img2 where c: "copy_at img1 (uadd (usize (data_block_offset (sb u) (start_offset u) (fst (as ! b)))) ?i)
          (take (?j - ?i) (drop (b * ?B + ?i - off) w)) = Some img2"
        "overwritten u as off w (min ?en (Suc b * ?B)) img img2" "?i < ?j" "int ?j \<le> snd (as ! b)"
        using overwrite_block [OF u f ap r ow b(1) bl bb False] by blast
      have "run_ok u (as ! b)" using f bl by (auto simp: runs_fit_def)
      then have "usize (snd (as ! b)) = nat (snd (as ! b))" using request_frags(5) [OF u] by (simp add: run_ok_def)
      then have inner: "min ?j (usize (snd (as ! b))) = ?j" using c(4) by linarith
      have x: "b * ?B + ?i - off \<le> b * ?B + ?j - off" "b * ?B + ?j - off \<le> length w"
        "b * ?B + ?j - off - (b * ?B + ?i - off) = ?j - ?i"
      proof -
        have a: "off \<le> b * ?B + ?i" by simp
        have "?j \<le> ?en - b * ?B" by simp
        then have e: "b * ?B + ?j \<le> ?en" using bb by linarith
        have ij: "?i \<le> ?j" using c(3) by (rule less_imp_le)
        show "b * ?B + ?i - off \<le> b * ?B + ?j - off" using ij by (intro diff_le_mono add_left_mono)
        show "b * ?B + ?j - off \<le> length w" using e by (simp only: le_diff_conv add.commute)
        show "b * ?B + ?j - off - (b * ?B + ?i - off) = ?j - ?i"
          unfolding diff_diff_left le_add_diff_inverse [OF a] by (rule diff_cancel)
      qed
      have "subslice w (b * ?B + ?i - off) (b * ?B + ?j - off) = Some (take (?j - ?i) (drop (b * ?B + ?i - off) w))"
        unfolding subslice_def using x by (simp only: if_True simp_thms)
      then have "g img1 b = Some img2"
        unfolding g_def Let_def nth_map [OF bl] inner if_not_P [OF c(3) [unfolded not_le [symmetric]]] by (simp only: bind.bind_lunit c(1))
      then show ?thesis using c(2) by blast
    qed
    have loop: "\<exists>img'. foldM g img [?s..<?s + n] = Some img' \<and> overwritten u as off w (min ?en ((?s + n) * ?B)) img img'"
      if "?s + n \<le> ?e" for n
      using that
    proof (induction n)
      case 0
      have "min ?en ((?s + 0) * ?B) \<le> off" by (simp add: min.coboundedI2 div_times_less_eq_dividend)
      then show ?case using overwritten_empty [of _ off u as w img] by simp
    next
      case (Suc n)
      then obtain img1 where i: "foldM g img [?s..<?s + n] = Some img1"
        "overwritten u as off w (min ?en ((?s + n) * ?B)) img img1" by auto
      obtain img2 where "g img1 (?s + n) = Some img2" "overwritten u as off w (min ?en (Suc (?s + n) * ?B)) img img2"
        using step [of "?s + n" img1] Suc.prems i(2) by auto
      then show ?case using i(1) by (simp add: foldM_append)
    qed
    have cov: "?en \<le> ?e * ?B"
    proof -
      have "?en \<le> (?en + (?B - 1)) div ?B * ?B"
        using dividend_less_div_times [OF B(1), of "?en + (?B - 1)"] B by linarith
      moreover have "?en \<le> length as * ?B" using stored_covers [OF st] o by simp
      ultimately show ?thesis by (simp add: min_def)
    qed
    have "?s < ?e"
    proof -
      have "?s * ?B \<le> off" by (rule div_times_less_eq_dividend)
      also have "off < ?e * ?B" using cov False by (simp add: length_greater_0_conv [symmetric] del: length_greater_0_conv)
      finally show ?thesis by (simp only: mult_less_cancel2)
    qed
    then obtain n where n: "?e = ?s + n" using less_imp_add_positive by metis
    have m': "min ?en (?e * ?B) = ?en" using cov by (rule min_absorb1)
    have "\<exists>img'. foldM g img [?s..<?e] = Some img' \<and> overwritten u as off w ?en img img'"
      using loop [OF order.eq_iff [THEN iffD1, THEN conjunct1, OF n [symmetric]]] unfolding n [symmetric] m' .
    then show ?thesis unfolding run .
  qed
  then obtain img' where w: "write_data_range u (map fst as) (map snd as) off w img = Some img'"
    "overwritten u as off w ?en img img'" by blast
  have f': "runs_fit u as img'" using f w(2) runs_fit_length [of img' img u as] unfolding overwritten_def by blast
  have "stored u as (upd d off w) img'"
    unfolding stored_bytes [OF u f']
  proof (intro allI impI)
    fix j assume j: "j < length (upd d off w)"
    then have rj: "room u as j" "img ! byte_at u as j = d ! j" using st unfolding stored_bytes [OF u f] by auto
    show "room u as j \<and> img' ! byte_at u as j = upd d off w ! j"
    proof (cases "off \<le> j \<and> j < ?en")
      case True
      then show ?thesis using w(2) rj(1) o by (simp add: overwritten_def upd_nth)
    next
      case False
      have "byte_at u as j \<noteq> byte_at u as k" if "off \<le> k" "k < ?en" for k
        using byte_at_inj [OF u f ap rj(1) r [OF that(2)]] that False by auto
      then have "img' ! byte_at u as j = img ! byte_at u as j" using w(2) by (simp add: overwritten_def)
      then show ?thesis using rj o False by (auto simp: upd_nth)
    qed
  qed
  then show ?thesis using w by blast
qed

text \<open>A write inside the allocations of a client disturbs nothing else.\<close>

lemma overwritten_own:
  assumes u: "layout_ok u" and f: "runs_fit u as img" and o: "own u (A \<union> alloc_runs u as) img" "A \<inter> alloc_runs u as = {}"
    and r: "\<And>j. j < m \<Longrightarrow> room u as j" and w: "overwritten u as off w m img img'"
  shows "own u (A \<union> alloc_runs u as) img'" "stable u A img img'"
proof -
  let ?R = "\<lambda>k. \<exists>x \<in> alloc_runs u as. in_frag u x k"
  have at: "?R (byte_at u as j)" if "j < m" for j
  proof -
    have "as ! (j div bs u) \<in> set as" using r [OF that] by (simp add: room_def)
    then show ?thesis using runs_fitD(2) [OF u f r [OF that]] by (auto simp: alloc_runs_def)
  qed
  have s: "same_except ?R img img'"
    unfolding same_except_def
  proof (intro conjI allI impI)
    show "length img' = length img" using w by (simp add: overwritten_def)
    fix k assume "\<not> ?R k"
    then have "\<forall>j. off \<le> j \<and> j < m \<longrightarrow> k \<noteq> byte_at u as j" using at by blast
    then show "img' ! k = img ! k" using w unfolding overwritten_def by blast
  qed
  have d: "data_run u x 1" if "x \<in> alloc_runs u as" for x using o(1) that by (auto simp: own_def)
  have nm: "\<not> meta_byte u k" if "?R k" for k using in_frag_not_meta [OF u d] that by blast
  show "own u (A \<union> alloc_runs u as) img'"
    unfolding own_def
  proof (intro conjI ballI)
    show "cgs_ok u img'" using o(1) not_meta_keeps(1) [OF s nm] by (simp add: own_def)
    fix x assume "x \<in> A \<union> alloc_runs u as"
    then have x: "data_run u x 1" "busy u img x" "fboff u x + nat (fsize (sb u)) \<le> length img" using o(1) by (auto simp: own_def)
    show "data_run u x 1" by (rule x)
    show "busy u img' x" using not_meta_keeps(2) [OF s nm data_run_valid [OF x(1)]] x(2) by simp
    show "fboff u x + nat (fsize (sb u)) \<le> length img'" using x(3) same_except_length [OF s] by simp
  qed
  have "img' ! k = img ! k" if k: "ino_byte u k \<or> (\<exists>x \<in> A. in_frag u x k)" for k
  proof (rule same_except_nth [OF s], safe)
    fix y assume y: "y \<in> alloc_runs u as" "in_frag u y k"
    from k show False
    proof
      assume "ino_byte u k"
      then show False using ino_byte_not_frag [OF u _ d [OF y(1)]] y(2) by blast
    next
      assume "\<exists>x \<in> A. in_frag u x k"
      then obtain x where x: "x \<in> A" "in_frag u x k" by blast
      then have "data_run u x 1" using o(1) by (simp add: own_def)
      then have "x = y" using in_frag_unique [OF u _ d [OF y(1)] x(2) y(2)] by blast
      then show False using x(1) y(1) o(2) by blast
    qed
  qed
  then show "stable u A img img'" using same_except_length [OF s] by (simp add: stable_def)
qed

section \<open>Overwriting part of a file\<close>

lemma file_allocs_parts:
  assumes "file_ok u img i ds ps"
  shows "map fst (file_allocs u i ds) = map uint ds" "map snd (file_allocs u i ds) = allocation_byte_sizes (sb u) (uint (di_size i))"
    "length (file_allocs u i ds) = length ds"
  using assms by (simp_all add: file_ok_def file_allocs_def)

lemma file_overwrite:
  assumes u: "layout_ok u" and f: "file_ok u img i ds ps" and o: "own u (A \<union> file_cells u i ds ps) img" "A \<inter> file_cells u i ds ps = {}"
    and s: "stored u (file_allocs u i ds) d img" "length d = unat (di_size i)" and w: "off + length w \<le> length d"
  shows "\<exists>img'. write_data_range u (map uint ds) (allocation_byte_sizes (sb u) (uint (di_size i))) off w img = Some img'
    \<and> own u (A \<union> file_cells u i ds ps) img' \<and> stable u A img img' \<and> file_ok u img' i ds ps
    \<and> stored u (file_allocs u i ds) (upd d off w) img' \<and> read_inode_bytes img' u i = Some (upd d off w)"
proof -
  let ?as = "file_allocs u i ds"
  note pt = file_allocs_parts [OF f]
  have ap: "apart_runs u ?as" "frag_set u ps \<inter> alloc_runs u ?as = {}" "uint (di_size i) < 2 ^ 62"
    and p: "inode_pointer_blocks img u i = Some ps" "\<forall>p \<in> set ps. block_addr u (uint p)"
    using f by (auto simp: file_ok_def block_allocs_facts [OF u])
  have c: "A \<union> file_cells u i ds ps = (A \<union> frag_set u ps) \<union> alloc_runs u ?as" by (auto simp: file_cells_def)
  have dj: "(A \<union> frag_set u ps) \<inter> alloc_runs u ?as = {}" using ap(2) o(2) by (auto simp: file_cells_def)
  have fit: "runs_fit u ?as img" by (rule own_runs_fit [OF u o(1) [unfolded c] file_allocs_ok(1) [OF u f]])
  have "int (length d) < 2 ^ 62" using ap(3) s(2) by simp
  then have l: "length d < 2 ^ 62" by (simp only: of_nat_less_numeral_power_cancel_iff)
  obtain img' where wr: "write_data_range u (map fst ?as) (map snd ?as) off w img = Some img'"
    "overwritten u ?as off w (off + length w) img img'" "stored u ?as (upd d off w) img'"
    using write_range [OF u fit ap(1) s(1) w l] by blast
  have r: "room u ?as j" if "j < off + length w" for j using s(1) w that unfolding stored_bytes [OF u fit] by simp
  note ow = overwritten_own [OF u fit o(1) [unfolded c] dj r wr(2)]
  have sp: "same_frags u (frag_set u ps) img img'" by (rule stable_same_frags [OF ow(2) Un_upper2])
  have f': "file_ok u img' i ds ps" using f inode_blocks_frame [OF u p sp] by (simp add: file_ok_def)
  have st: "stable u A img img'" by (rule stable_mono [OF ow(2) Un_upper1])
  have rb: "read_inode_bytes img' u i = Some (upd d off w)" by (rule file_reads(1) [OF u f' wr(3)]) (simp add: s(2))
  show ?thesis
    using wr(1) ow(1) st f' wr(3) rb unfolding pt c by blast
qed

text \<open>A file whose new size asks for the same allocations.\<close>

lemma file_grow:
  assumes u: "layout_ok u" and f: "file_ok u img i ds ps" and z: "uint sz < 2 ^ 62"
    and e: "allocation_byte_sizes (sb u) (uint sz) = allocation_byte_sizes (sb u) (uint (di_size i))"
  shows "file_ok u img (i \<lparr> di_size := sz \<rparr>) ds ps" "file_allocs u (i \<lparr> di_size := sz \<rparr>) ds = file_allocs u i ds"
    "file_cells u (i \<lparr> di_size := sz \<rparr>) ds ps = file_cells u i ds ps"
proof -
  have nb: "needed_blocks (sb u) sz = needed_blocks (sb u) (di_size i)"
    using needed_allocations [OF u z] needed_allocations [OF u, of "di_size i"] f e by (simp add: file_ok_def)
  have fl: "indirect_blocks (i \<lparr> di_size := sz \<rparr>) = indirect_blocks i" "direct_blocks (i \<lparr> di_size := sz \<rparr>) = direct_blocks i"
    "di_size (i \<lparr> di_size := sz \<rparr>) = sz" by simp_all
  have b: "inode_data_blocks img u (i \<lparr> di_size := sz \<rparr>) = inode_data_blocks img u i"
    "inode_pointer_blocks img u (i \<lparr> di_size := sz \<rparr>) = inode_pointer_blocks img u i"
    by (simp_all only: inode_data_blocks_def inode_pointer_blocks_def fl nb)
  show fa: "file_allocs u (i \<lparr> di_size := sz \<rparr>) ds = file_allocs u i ds" by (simp add: file_allocs_def e)
  then show "file_cells u (i \<lparr> di_size := sz \<rparr>) ds ps = file_cells u i ds ps" by (simp only: file_cells_def)
  show "file_ok u img (i \<lparr> di_size := sz \<rparr>) ds ps" using f z unfolding file_ok_def fa b by (simp add: e)
qed

text \<open>What a successful write leaves: like \<open>replaced\<close>, but the sector count is only known when blocks were reallocated.\<close>

definition written :: "ufs \<Rightarrow> int \<Rightarrow> int set \<Rightarrow> inode \<Rightarrow> bytes \<Rightarrow> image \<Rightarrow> image \<Rightarrow> bool" where
  "written u n A i data img img' \<longleftrightarrow> others_same u n A img img' \<and>
     (\<exists>i' ds ps. read_inode img' u n = Some (Some i')
        \<and> i' = i \<lparr> di_size := of_nat (length data), direct_blocks := direct_blocks i', indirect_blocks := indirect_blocks i',
                  di_blocks := di_blocks i' \<rparr>
        \<and> file_ok u img' i' ds ps \<and> own u (A \<union> file_cells u i' ds ps) img' \<and> A \<inter> file_cells u i' ds ps = {}
        \<and> stored u (file_allocs u i' ds) data img' \<and> read_inode_bytes img' u i' = Some data)"

text \<open>The contents after \<open>w\<close> has been written at \<open>off\<close>, which is at most the length.\<close>

definition put_at :: "bytes \<Rightarrow> nat \<Rightarrow> bytes \<Rightarrow> bytes" where
  "put_at data off w = take off data @ w @ drop (off + length w) data"

lemma put_at_length: "off \<le> length data \<Longrightarrow> length (put_at data off w) = max (length data) (off + length w)"
  by (auto simp: put_at_def)

lemma put_at_upd:
  assumes "off \<le> length data" "length d = max (length data) (off + length w)" "take (length data) d = data"
  shows "upd d off w = put_at data off w"
proof (rule nth_equalityI)
  show "length (upd d off w) = length (put_at data off w)" using assms put_at_length by simp
  fix j assume "j < length (upd d off w)"
  then have j: "j < max (length data) (off + length w)" using assms(2) by simp
  have "d ! j = data ! j" if "j < length data" using assms(3) that nth_take [of j "length data" d] by simp
  then show "upd d off w ! j = put_at data off w ! j"
    using j assms(1,2) by (subst upd_nth) (auto simp: put_at_def nth_append min_def)
qed

text \<open>A stored prefix of stored data is that data.\<close>

lemma stored_prefix:
  assumes u: "layout_ok u" and f: "runs_fit u as img" and s: "stored u as d img" "stored u as data img" "length data \<le> length d"
  shows "take (length data) d = data"
  using s unfolding stored_bytes [OF u f] by (intro nth_equalityI) auto

lemma others_written:
  "others_same u n A img img1 \<Longrightarrow> written u n A i data img1 img2 \<Longrightarrow> written u n A i data img img2"
  unfolding written_def using others_same_trans by blast

lemma write_size:
  assumes u: "layout_ok u" and n: "valid_ino (sb u) n" and f: "tables_fit u img" and r: "record_at img (inode_offset u n) i"
    and j: "j = i \<lparr> di_size := of_nat (length data) \<rparr>" "file_ok u img j ds ps" "stored u (file_allocs u j ds) data img"
      "length data < 2 ^ 62"
    and o: "own u (A \<union> file_cells u j ds ps) img" "A \<inter> file_cells u j ds ps = {}"
  shows "\<exists>img'. write_inode_size u n (of_nat (length data)) img = Some img' \<and> written u n A i data img img'"
proof -
  obtain img' where w: "write_inode_size u n (of_nat (length data)) img = Some img'" "wrote u n j img img'"
    using wrote_puts(5) [OF u n wrote_refl [OF f n r]] unfolding write_inode_size_def j(1) by blast
  have s: "same_except (rec_byte u n) img img'" using w(2) by (simp add: wrote_def)
  note rw = record_write [OF u n o(1) s]
  have fr: "same_frags u (file_cells u j ds ps) img img'" by (rule others_frags [OF rw(2) Un_upper2])
  have f': "file_ok u img' j ds ps" by (rule file_frame(1) [OF u j(2) own_mono [OF o(1) Un_upper2] fr])
  have "same_frags u (alloc_runs u (file_allocs u j ds)) img img'" by (rule same_frags_mono [OF fr]) (simp add: file_cells_def)
  then have s': "stored u (file_allocs u j ds) data img'" by (rule stored_stable [OF u j(3) _ file_allocs_ok(1) [OF u j(2)]])
  have "unat (di_size j) = length data" unfolding j(1) using j(4) by (simp add: unat_of_nat)
  then have "read_inode_bytes img' u j = Some data" by (intro file_reads(1) [OF u f' s']) simp
  moreover have "read_inode img' u n = Some (Some j)" by (rule wrote_reads(1) [OF u n f w(2)])
  moreover have "j = i \<lparr> di_size := of_nat (length data), direct_blocks := direct_blocks j, indirect_blocks := indirect_blocks j,
      di_blocks := di_blocks j \<rparr>" by (simp add: j(1))
  moreover have "others_same u n A img img'" by (rule others_same_mono [OF rw(2) Un_upper1])
  ultimately have "written u n A i data img img'" unfolding written_def using f' s' rw(1) o(2) by blast
  then show ?thesis using w(1) by blast
qed

lemma sizes_fit_take: "sizes_fit u as z \<Longrightarrow> length z' \<le> length z \<Longrightarrow> sizes_fit u as z'"
proof (induction as arbitrary: z z')
  case (Cons a as)
  have "length (drop (bs u) z') \<le> length (drop (bs u) z)" using Cons.prems(2) by auto
  then have "sizes_fit u as (drop (bs u) z')" using Cons.IH Cons.prems(1) by auto
  moreover have "length (take (bs u) z') \<le> length (take (bs u) z)" using Cons.prems(2) by auto
  then have "int (length (take (bs u) z')) \<le> snd a" using Cons.prems(1) by auto
  ultimately show ?case by simp
qed simp

lemma runs_fit_stored:
  assumes "layout_ok u" "sizes_fit u as z" "runs_fit u as img"
  shows "\<exists>d. length d = length z \<and> stored u as d img"
  using fitting_stored [OF assms(1,2)] assms(3) unfolding runs_fit_def by blast

lemma write_same_allocs:
  assumes u: "layout_ok u" and n: "valid_ino (sb u) n" and f: "tables_fit u img"
    and r: "read_inode img u n = Some (Some i)" and fo: "file_ok u img i ds ps"
    and o: "own u (A \<union> file_cells u i ds ps) img" "A \<inter> file_cells u i ds ps = {}"
    and s: "stored u (file_allocs u i ds) data img" "length data = unat (di_size i)" and off: "off \<le> length data"
    and l: "length (put_at data off w) < 2 ^ 62"
    and e: "allocation_byte_sizes (sb u) (int (length (put_at data off w))) = allocation_byte_sizes (sb u) (uint (di_size i))"
  defines "N \<equiv> length (put_at data off w)"
  shows "\<exists>img1 img2. write_data_range u (map uint ds) (allocation_byte_sizes (sb u) (uint (di_size i))) off w img = Some img1
    \<and> (if N \<noteq> length data then write_inode_size u n (of_nat N) else Some) img1 = Some img2
    \<and> written u n A i (put_at data off w) img img2"
proof -
  let ?as = "file_allocs u i ds" let ?j = "i \<lparr> di_size := of_nat N \<rparr>"
  have N: "N = max (length data) (off + length w)" unfolding N_def by (rule put_at_length [OF off])
  have z: "uint (of_nat N :: u64) = int N" using l unfolding N_def [symmetric] by (simp add: uint_nat unat_of_nat)
  have z62: "uint (of_nat N :: u64) < 2 ^ 62" unfolding z using l unfolding N_def [symmetric] by simp
  note g = file_grow [OF u fo z62, unfolded z, OF e [folded N_def]]
  have fit: "runs_fit u ?as img"
    using o(1) by (intro own_runs_fit [OF u own_mono [OF o(1)], of "{}"] file_allocs_ok(1) [OF u fo]) (auto simp: file_cells_def)
  have "sizes_fit u ?as (replicate N 0)"
    unfolding file_allocs_def e [folded N_def, symmetric] using l fo e
    by (intro allocation_sizes(3) [OF u]) (simp_all add: N_def file_ok_def)
  then obtain d where d: "length d = N" "stored u ?as d img" using runs_fit_stored [OF u _ fit] by fastforce
  have "take (length data) d = data" using N d(1) by (intro stored_prefix [OF u fit d(2) s(1)]) simp
  then have dw: "upd d off w = put_at data off w" using N d(1) by (intro put_at_upd [OF off]) simp_all
  have uN: "unat (di_size ?j) = N" using z by (simp add: unat_eq_nat_uint)
  have oj: "own u (A \<union> file_cells u ?j ds ps) img" "A \<inter> file_cells u ?j ds ps = {}" using o unfolding g(3) by simp_all
  have off_N: "off + length w \<le> length d" using d(1) N by simp
  have dj: "length d = unat (di_size ?j)" using d(1) uN by simp
  obtain img1 where w: "write_data_range u (map uint ds) (allocation_byte_sizes (sb u) (uint (di_size ?j))) off w img = Some img1"
    "own u (A \<union> file_cells u ?j ds ps) img1" "stable u A img img1" "file_ok u img1 ?j ds ps"
    "stored u (file_allocs u ?j ds) (put_at data off w) img1" "read_inode_bytes img1 u ?j = Some (put_at data off w)"
    using file_overwrite [OF u g(1) oj d(2) [folded g(2)] dj off_N] unfolding dw by blast
  have al: "allocation_byte_sizes (sb u) (uint (di_size ?j)) = allocation_byte_sizes (sb u) (uint (di_size i))"
    using z e [folded N_def] by simp
  have f1: "tables_fit u img1" using f tables_fit_length [OF stable_length [OF w(3)]] by simp
  have rec: "record_at img1 (inode_offset u n) i" using r read_inode_iff [OF u n f] stable_record [OF u n w(3)] by simp
  have "\<exists>img2. (if N \<noteq> length data then write_inode_size u n (of_nat N) else Some) img1 = Some img2
    \<and> written u n A i (put_at data off w) img1 img2"
  proof (cases "N = length data")
    case False
    have "\<exists>img2. write_inode_size u n (of_nat N) img1 = Some img2 \<and> written u n A i (put_at data off w) img1 img2"
      unfolding N_def by (rule write_size [OF u n f1 rec _ w(4) w(5) l w(2) oj(2)]) (simp add: N_def)
    then show ?thesis using False by simp
  next
    case True
    then have ji: "?j = i" using s(2) by simp
    have "read_inode img1 u n = Some (Some i)" using rec read_inode_iff [OF u n f1] by simp
    then have "written u n A i (put_at data off w) img1 img1"
      unfolding written_def using w(2,4,5,6) oj(2) unfolding ji
      by (intro conjI exI [of _ i] exI [of _ ds] exI [of _ ps]) (use s(2) True in \<open>simp_all add: others_same_def N_def [symmetric]\<close>)
    then show ?thesis using True by simp
  qed
  then show ?thesis using w(1) others_written [OF stable_others [OF w(3)]] unfolding al by blast
qed

section \<open>Replacing the last blocks of a file\<close>

lemma stored_append:
  "stored u (xs @ ys) d img \<longleftrightarrow> stored u xs (take (length xs * bs u) d) img \<and> stored u ys (drop (length xs * bs u) d) img"
proof (induction xs arbitrary: d)
  case (Cons a xs)
  have t: "take (bs u) (take (length (a # xs) * bs u) d) = take (bs u) d" by (simp add: min_def)
  have dt: "drop (bs u) (take (length (a # xs) * bs u) d) = take (length xs * bs u) (drop (bs u) d)" by (simp add: take_drop add.commute)
  have dd: "drop (length xs * bs u) (drop (bs u) d) = drop (length (a # xs) * bs u) d" by (simp add: add.commute)
  show ?case by (simp only: append_Cons stored.simps Cons.IH t dt dd) blast
qed simp

lemma sizes_fit_drop: "sizes_fit u (xs @ ys) z \<Longrightarrow> sizes_fit u ys (drop (length xs * bs u) z)"
proof (induction xs arbitrary: z)
  case (Cons a xs)
  have "sizes_fit u ys (drop (length xs * bs u) (drop (bs u) z))" using Cons.prems by (intro Cons.IH) simp
  then show ?case by (simp add: add.commute)
qed simp

lemma fill_suffix_wp:
  assumes n: "valid_ino (sb u) n" and f: "tables_fit u img" and rec: "record_at img (inode_offset u n) i"
    and req: "req = allocation_byte_sizes (sb u) (int (length (put_at data off w)))"
    and P: "map snd P = take (length P) req" "\<forall>a \<in> set P. run_ok u a" "stored u P (take (length P * bs u) data) img"
    and suf: "suf = zip blks (drop (length P) req)" "length blks = length (drop (length P) req)" "\<forall>b \<in> set blks. block_addr u b"
    and ap: "apart_runs u (P @ suf)"
    and o: "owned u n (A \<union> alloc_runs u (P @ suf)) img" "A \<inter> alloc_runs u (P @ suf) = {}"
    and off: "off \<le> length data" and l: "length (put_at data off w) \<le> max_blocks u * bs u"
  defines "seed \<equiv> drop (length P * bs u) data" and "rebuilt \<equiv> map fst P @ blks" and "N \<equiv> length (put_at data off w)"
  shows "wp (wbind (if seed \<noteq> [] then wmodify (write_data_range u blks (drop (length P) req) 0 seed) else wreturn ()) (\<lambda>_.
      wbind (build_inode_pointer_structure u n rebuilt) (\<lambda>cnt.
      wbind (wmodify (write_inode_size u n (of_nat N))) (\<lambda>_.
      wbind (wmodify (write_inode_blocks u n (of_int (sectors_of req + cnt * (bsize (sb u) div 512))))) (\<lambda>_.
      wmodify (write_data_range u rebuilt req off w))))))
    (\<lambda>_. written u n A i (put_at data off w) img) (intact u n A img) img"
proof -
  have u: "layout_ok u" using o(1) by (simp add: owned_def)
  note len = max_bytes [OF u l, folded N_def]
  have N: "N = max (length data) (off + length w)" unfolding N_def by (rule put_at_length [OF off])
  have lP: "length P \<le> length req" using arg_cong [OF P(1), of length] by simp
  have lr: "length rebuilt = length req" using suf(2) lP by (simp add: rebuilt_def)
  have zr: "zip rebuilt req = P @ suf"
  proof -
    have "zip rebuilt req = zip (map fst P @ blks) (take (length P) req @ drop (length P) req)" by (simp add: rebuilt_def)
    also have "\<dots> = zip (map fst P) (map snd P) @ suf" using lP by (subst zip_append) (simp_all add: P(1) suf(1))
    finally show ?thesis by (simp add: zip_map_fst_snd)
  qed
  have rq: "request_ok u s" if "s \<in> set req" for s using that allocation_sizes(2) [OF u, of N] len(1) req by (simp add: N_def)
  have ro: "run_ok u a" if "a \<in> set (P @ suf)" for a
  proof (cases "a \<in> set P")
    case False
    then have "(fst a, snd a) \<in> set (zip blks (drop (length P) req))" using that by (simp add: suf(1))
    then have "fst a \<in> set blks" "snd a \<in> set req" by (blast dest: set_zip_leftD, blast dest: set_zip_rightD in_set_dropD)
    then show ?thesis using suf(3) rq by (simp add: run_ok_def)
  qed (use P(2) in simp)
  have rb: "\<forall>b \<in> set rebuilt. block_addr u b"
    using P(2) suf(3) by (auto simp: rebuilt_def run_ok_def)
  have ms: "map fst suf = blks" "map snd suf = drop (length P) req" using suf(1,2) by simp_all
  have sfit: "sizes_fit u (P @ suf) z" if "length z = N" for z
    unfolding zr [symmetric] req using that lr req len(1) by (intro allocation_sizes(3) [OF u]) (simp_all add: N_def)
  have oo: "own u (A \<union> alloc_runs u (P @ suf)) img" using o(1) by (simp add: owned_def)
  have fit: "runs_fit u (P @ suf) img" by (rule own_runs_fit [OF u oo ro])
  then have fits: "runs_fit u suf img" by (simp add: runs_fit_def)
  have ss: "sizes_fit u suf seed"
  proof -
    have "sizes_fit u suf (drop (length P * bs u) (replicate N 0))" by (rule sizes_fit_drop [OF sfit]) simp
    then show ?thesis by (rule sizes_fit_take) (simp add: seed_def N)
  qed
  obtain s0 where s0: "length s0 = length seed" "stored u suf s0 img" using runs_fit_stored [OF u ss fits] by blast
  have aps: "apart_runs u suf" "alloc_runs u P \<inter> alloc_runs u suf = {}" using ap by simp_all
  have "length seed \<le> N" using N by (simp add: seed_def)
  then have s0l: "0 + length seed \<le> length s0" "length s0 < 2 ^ 62" using s0(1) len(1) by simp_all
  obtain img1 where w1: "write_data_range u blks (drop (length P) req) 0 seed img = Some img1"
    "overwritten u suf 0 seed (0 + length seed) img img1" "stored u suf (upd s0 0 seed) img1"
    using write_range [OF u fits aps(1) s0(2) s0l] unfolding ms by blast
  have seed: "upd s0 0 seed = seed" using s0(1) by (intro nth_equalityI) (simp_all add: upd_nth)
  have rm: "room u suf j" if "j < 0 + length seed" for j using s0 that unfolding stored_bytes [OF u fits] by simp
  have un: "A \<union> alloc_runs u (P @ suf) = (A \<union> alloc_runs u P) \<union> alloc_runs u suf" by auto
  have dj: "(A \<union> alloc_runs u P) \<inter> alloc_runs u suf = {}" using o(2) aps(2) by auto
  note ow = overwritten_own [OF u fits oo [unfolded un] dj rm w1(2)]
  have st1: "stable u A img img1" by (rule stable_mono [OF ow(2) Un_upper1])
  have "stored u P (take (length P * bs u) data) img1"
    by (rule stored_stable [OF u P(3) stable_same_frags [OF ow(2) Un_upper2] bspec [OF P(2)]])
  then have data1: "stored u (P @ suf) data img1" using w1(3) [unfolded seed] unfolding stored_append seed_def by blast
  have fit1: "runs_fit u (P @ suf) img1" using fit runs_fit_length [of img1 img u "P @ suf"] stable_length [OF st1] by blast
  obtain d where d: "length d = N" "stored u (P @ suf) d img1" using runs_fit_stored [OF u sfit fit1, of "replicate N 0"] by auto
  have dt: "take (length data) d = data" using d(1) N by (intro stored_prefix [OF u fit1 d(2) data1]) simp
  have dw: "upd d off w = put_at data off w" using d(1) N dt by (intro put_at_upd [OF off]) simp_all
  have seedrun: "(if seed \<noteq> [] then wmodify (write_data_range u blks (drop (length P) req) 0 seed) else wreturn ()) img = Some (Inr (), img1)"
    using w1(1) by (cases "seed = []") (simp_all add: wmodify_def wreturn_def write_data_range_def)
  have o1: "owned u n (A \<union> alloc_runs u (P @ suf)) img1" using o(1) ow(1) [folded un] unfolding owned_def by blast
  have f1: "tables_fit u img1" using f tables_fit_length [OF stable_length [OF st1]] by simp
  have r1: "record_at img1 (inode_offset u n) i" using rec stable_record [OF u n st1] by simp
  have lm: "length rebuilt \<le> max_blocks u" using len(2) lr req by (simp add: N_def)
  let ?rest = "wbind (build_inode_pointer_structure u n rebuilt) (\<lambda>cnt.
      wbind (wmodify (write_inode_size u n (of_nat N))) (\<lambda>_.
      wbind (wmodify (write_inode_blocks u n (of_int (sectors_of req + cnt * (bsize (sb u) div 512))))) (\<lambda>_.
      wmodify (write_data_range u rebuilt req off w))))"
  have "wp ?rest (\<lambda>_. written u n A i (put_at data off w) img) (intact u n A img) img1"
    unfolding wp_wbind wp_simps(4)
  proof (rule wp_mono [OF build_structure_wp [OF o1 n f1 r1 _ lm]])
    show "block_addr u x" if "x \<in> set rebuilt" for x using rb that by blast
    show "intact u n A img e img'" if "intact u n (A \<union> alloc_runs u (P @ suf)) img1 e img'" for e img'
      by (rule intact_trans [OF st1 that])
    fix cnt img2
    assume "\<exists>i' ps. owned u n (A \<union> alloc_runs u (P @ suf) \<union> frag_set u ps) img2 \<and> (A \<union> alloc_runs u (P @ suf)) \<inter> frag_set u ps = {}
      \<and> apart_blocks u ps \<and> others_same u n (A \<union> alloc_runs u (P @ suf)) img1 img2 \<and> record_at img2 (inode_offset u n) i'
      \<and> points_to u i' rebuilt ps img2 \<and> cnt = int (length ps)
      \<and> i' = i \<lparr> direct_blocks := direct_blocks i', indirect_blocks := indirect_blocks i' \<rparr>"
    then obtain i' ps where p: "owned u n (A \<union> alloc_runs u (P @ suf) \<union> frag_set u ps) img2"
      "(A \<union> alloc_runs u (P @ suf)) \<inter> frag_set u ps = {}" "apart_blocks u ps"
      "others_same u n (A \<union> alloc_runs u (P @ suf)) img1 img2" "record_at img2 (inode_offset u n) i'"
      "points_to u i' rebuilt ps img2" "cnt = int (length ps)"
      "i' = i \<lparr> direct_blocks := direct_blocks i', indirect_blocks := indirect_blocks i' \<rparr>" by blast
    have f2: "tables_fit u img2" using f1 p(4) by (simp add: tables_fit_def others_same_def)
    have st2: "stored u (zip rebuilt req) d img2" unfolding zr by (rule stored_stable [OF u d(2) others_frags [OF p(4) Un_upper2] ro])
    have ld: "length d \<le> max_blocks u * bs u" using d(1) l by (simp add: N_def)
    have rqd: "req = allocation_byte_sizes (sb u) (int (length d))" using req d(1) by (simp add: N_def)
    have o2: "own u (A \<union> alloc_runs u (zip rebuilt req) \<union> frag_set u ps) img2" using p(1) by (simp add: owned_def zr)
    obtain img3 img4 j where w: "write_inode_size u n (of_nat (length d)) img2 = Some img3"
      "write_inode_blocks u n (of_int (sectors_of req + int (length ps) * (bsize (sb u) div 512))) img3 = Some img4"
      and j: "read_inode img4 u n = Some (Some j)" "replaced_inode u i d ps j" "file_ok u img4 j (map of_int rebuilt) ps"
        "file_allocs u j (map of_int rebuilt) = zip rebuilt req" "stored u (zip rebuilt req) d img4"
        "own u (A \<union> file_cells u j (map of_int rebuilt) ps) img4" "A \<inter> file_cells u j (map of_int rebuilt) ps = {}"
        "others_same u n A img2 img4" "read_inode_bytes img4 u j = Some d"
      using finish_file_at [OF u n f2 ld rqd lr rb ap [folded zr] o2 p(2) [folded zr] o(2) [folded zr] p(3) st2 p(6,5,8)] by blast
    obtain a b v where jv: "j = i \<lparr> di_size := of_nat (length d), direct_blocks := a, indirect_blocks := b, di_blocks := v \<rparr>"
      using j(2) unfolding replaced_inode_def by blast
    have dj: "di_size j = of_nat (length d)" by (simp add: jv)
    have uj: "length d = unat (di_size j)" "uint (di_size j) = int (length d)" using dj d(1) len(1) by (simp_all add: unat_of_nat uint_nat)
    have offd: "off + length w \<le> length d" using d(1) N by simp
    have al: "map uint (map of_int rebuilt :: u32 list) = rebuilt" "allocation_byte_sizes (sb u) (uint (di_size j)) = req"
      using map_uint_blocks [OF u rb] rqd uj(2) by simp_all
    obtain img5 where x: "write_data_range u rebuilt req off w img4 = Some img5"
      "own u (A \<union> file_cells u j (map of_int rebuilt) ps) img5" "stable u A img4 img5" "file_ok u img5 j (map of_int rebuilt) ps"
      "stored u (file_allocs u j (map of_int rebuilt)) (put_at data off w) img5" "read_inode_bytes img5 u j = Some (put_at data off w)"
      using file_overwrite [OF u j(3,6,7) j(5) [folded j(4)] uj(1) offd] unfolding al dw by blast
    have f4: "tables_fit u img4" using f2 j(8) by (simp add: tables_fit_def others_same_def)
    have f5: "tables_fit u img5" using f4 tables_fit_length [OF stable_length [OF x(3)]] by simp
    have "read_inode img5 u n = Some (Some j)"
      using j(1) read_inode_iff [OF u n f4] read_inode_iff [OF u n f5] stable_record [OF u n x(3)] by simp
    moreover have "j = i \<lparr> di_size := of_nat (length (put_at data off w)), direct_blocks := direct_blocks j,
        indirect_blocks := indirect_blocks j, di_blocks := di_blocks j \<rparr>"
      by (simp add: jv d(1) N_def)
    moreover have "others_same u n A img img5"
      using others_same_trans [OF others_same_trans [OF stable_others [OF st1] others_same_mono [OF p(4) Un_upper1]]
          others_same_trans [OF j(8) stable_others [OF x(3)]]] .
    ultimately have "written u n A i (put_at data off w) img img5"
      unfolding written_def using x(2,4,5,6) j(7) by blast
    then show "\<exists>s'. write_inode_size u n (of_nat N) img2 = Some s' \<and> (\<exists>s''. write_inode_blocks u n
        (of_int (sectors_of req + cnt * (bsize (sb u) div 512))) s' = Some s'' \<and> (\<exists>s'''. write_data_range u rebuilt req off w s'' = Some s'''
          \<and> written u n A i (put_at data off w) img s'''))"
      using w x(1) unfolding p(7) d(1) by blast
  qed
  then show ?thesis unfolding wp_wbind [of _ "\<lambda>_. ?rest"] unfolding wp_def [of "if _ then _ else _"] seedrun by simp
qed

lemma common_prefix:
  "common_allocation_prefix xs ys \<le> length xs \<and> common_allocation_prefix xs ys \<le> length ys
   \<and> take (common_allocation_prefix xs ys) xs = take (common_allocation_prefix xs ys) ys"
  by (induction xs ys rule: common_allocation_prefix.induct) auto

lemma release_suffix:
  assumes u: "layout_ok u" and fo: "file_ok u img i ds ps"
    and o: "own u (A \<union> file_cells u i ds ps) img" "A \<inter> file_cells u i ds ps = {}"
  defines "as \<equiv> file_allocs u i ds"
  shows "wp (wbind (free_pointer_blocks u ps) (\<lambda>_. free_data_blocks u (drop p ds) (drop p (allocation_byte_sizes (sb u) (uint (di_size i))))))
     (\<lambda>_ img'. own u (A \<union> alloc_runs u (take p as)) img' \<and> same_except (meta_byte u) img img') (\<lambda>_ _. False) img"
proof -
  let ?ba = "block_allocs u ps" let ?al = "allocation_byte_sizes (sb u) (uint (di_size i))"
  note ok = file_allocs_ok [OF u fo, folded as_def]
  have fo': "apart_runs u (?ba @ as)" "length ds = length ?al" using fo by (auto simp: file_ok_def as_def)
  have B: "int (usize (bsize (sb u))) = bsize (sb u)" using layout_facts(4,7) [OF u] by simp
  have fp: "free_pointer_blocks u ps = wfor (rev ?ba) (\<lambda>a. free_allocation u (fst a) (snd a))"
    unfolding free_pointer_blocks_def block_allocs_def B by (simp add: rev_map wfor_map)
  have "rev (drop p as) = map (\<lambda>(b, s). (uint b, s)) (zip (rev (drop p ds)) (rev (drop p ?al)))"
    using fo'(2) by (simp add: as_def file_allocs_def zip_map1 rev_map zip_rev drop_zip drop_map)
  then have fd: "free_data_blocks u (drop p ds) (drop p ?al) = wfor (rev (drop p as)) (\<lambda>a. free_allocation u (fst a) (snd a))"
    unfolding free_data_blocks_def case_prod_unfold by (simp add: wfor_map)
  have sp: "alloc_runs u as = alloc_runs u (take p as) \<union> alloc_runs u (drop p as)"
    by (subst append_take_drop_id [symmetric, of as p]) (simp only: alloc_runs_simps)
  have ap: "apart_runs u (take p as)" "apart_runs u (drop p as)" "alloc_runs u (take p as) \<inter> alloc_runs u (drop p as) = {}"
    using fo'(1) apart_runs_simps(3) [of u "take p as" "drop p as"] by simp_all
  have cells: "file_cells u i ds ps = alloc_runs u ?ba \<union> alloc_runs u as" using ok(3) by auto
  have d: "alloc_runs u ?ba \<inter> alloc_runs u as = {}" using fo'(1) by auto
  have "wp (wfor (rev ?ba) (\<lambda>a. free_allocation u (fst a) (snd a)))
      (\<lambda>_ img1. own u (A \<union> alloc_runs u as) img1 \<and> same_except (meta_byte u) img img1) (\<lambda>_ _. False) img"
    using o fo'(1) ok(2) unfolding cells by (intro free_list [OF u]) (auto simp: Un_ac)
  then show ?thesis
    unfolding fp fd wp_wbind
  proof (rule wp_mono)
    fix x :: unit and img1
    assume a: "own u (A \<union> alloc_runs u as) img1 \<and> same_except (meta_byte u) img img1"
    have o1: "own u ((A \<union> alloc_runs u (take p as)) \<union> alloc_runs u (rev (drop p as))) img1"
      using a unfolding sp by (simp add: Un_assoc)
    have dj: "(A \<union> alloc_runs u (take p as)) \<inter> alloc_runs u (rev (drop p as)) = {}"
      using o(2) ap(3) unfolding cells sp by auto
    have "wp (wfor (rev (drop p as)) (\<lambda>a. free_allocation u (fst a) (snd a)))
        (\<lambda>_ img2. own u (A \<union> alloc_runs u (take p as)) img2 \<and> same_except (meta_byte u) img1 img2) (\<lambda>_ _. False) img1"
      using ap(2) ok(1) by (intro free_list [OF u o1 dj]) (auto dest: in_set_dropD)
    then show "wp (wfor (rev (drop p as)) (\<lambda>a. free_allocation u (fst a) (snd a)))
        (\<lambda>_ img'. own u (A \<union> alloc_runs u (take p as)) img' \<and> same_except (meta_byte u) img img') (\<lambda>_ _. False) img1"
      by (rule wp_mono) (use a same_except_trans in blast)+
  qed simp
qed

lemma run_wread: "g img = Some x \<Longrightarrow> wbind (wread g) k img = k x img"
  by (simp add: wbind_def wread_def)

lemma run_wok: "wbind (wok_or e (Some x)) k = k x"
  by (simp add: fun_eq_iff wbind_def wok_or_def wreturn_def)

lemma run_wopt: "wbind (wopt (Some x)) k = k x"
  by (simp add: fun_eq_iff wm_run)

lemma apply_inode_write_wp:
  assumes u: "layout_ok u" and n: "valid_ino (sb u) n" and f: "tables_fit u img"
    and r: "read_inode img u n = Some (Some i)" and fo: "file_ok u img i ds ps"
    and o: "own u (A \<union> file_cells u i ds ps) img" "A \<inter> file_cells u i ds ps = {}"
    and s: "stored u (file_allocs u i ds) data img" "length data = unat (di_size i)" and off: "off \<le> length data"
    and l: "length (put_at data off w) \<le> max_blocks u * bs u"
  shows "wp (apply_inode_write u n off w) (\<lambda>_. written u n A i (put_at data off w) img) (intact u n A img) img"
proof -
  let ?cur = "allocation_byte_sizes (sb u) (uint (di_size i))" let ?as = "file_allocs u i ds"
  define N where "N = length (put_at data off w)"
  define req where "req = allocation_byte_sizes (sb u) (int N)"
  have N: "N = max (length data) (off + length w)" unfolding N_def by (rule put_at_length [OF off])
  note len = max_bytes [OF u l, folded N_def]
  have fo': "inode_data_blocks img u i = Some ds" "inode_pointer_blocks img u i = Some ps" "uint (di_size i) < 2 ^ 62"
    "apart_runs u ?as" "length ds = length ?cur" using fo by (auto simp: file_ok_def)
  have i64: "i64 (uint (di_size i)) = uint (di_size i)" "i64 (int N) = int N"
    using fo'(3) len(1) by (auto intro!: i64_id_bounds order.trans [OF _ uint_ge_0])
  have ua: "uadd off (length w) = off + length w" using len(1) N by (simp add: uadd_eq)
  have mx: "max (unat (di_size i)) (off + length w) = N" using N s(2) by simp
  have B: "int (bs u) sdiv int 512 = bsize (sb u) div 512"
    using layout_facts(7) [OF u] geometry_facts(1) [OF layout_facts(1) [OF u]] by (simp add: sdiv_nonneg)
  show ?thesis
  proof (cases "req = ?cur")
    case True
    have e: "allocation_byte_sizes (sb u) (int (length (put_at data off w))) = ?cur" using True by (simp add: req_def N_def)
    obtain img1 img2 where w: "write_data_range u (map uint ds) ?cur off w img = Some img1"
      "(if N \<noteq> length data then write_inode_size u n (of_nat N) else Some) img1 = Some img2"
      "written u n A i (put_at data off w) img img2"
      using write_same_allocs [OF u n f r fo o s off _ e] len(1) unfolding N_def by blast
    have "apply_inode_write u n off w img = Some (Inr (), img2)"
      using r fo'(1) w(1,2) True s(2)
      by (auto simp: apply_inode_write_def Let_def ua mx i64 req_def wm_run wok_or_def split: if_splits)
    then show ?thesis using w(3) by (simp add: wp_def)
  next
    case False
    define p where "p = common_allocation_prefix ?cur req"
    have p: "p \<le> length ?cur" "p \<le> length req" "take p ?cur = take p req" using common_prefix [of ?cur req] by (auto simp: p_def)
    define P where "P = take p ?as"
    have la: "length ?as = length ?cur" using file_allocs_parts(3) [OF fo] fo'(5) by simp
    have lP: "length P = p" using p(1) la by (simp add: P_def)
    have mP: "map snd P = take (length P) req" "map fst P = map uint (take p ds)" "\<forall>a \<in> set P. run_ok u a"
      using file_allocs_parts [OF fo] p(3) file_allocs_ok(1) [OF u fo] unfolding lP by (auto simp: P_def take_map [symmetric] dest: in_set_takeD)
    have as: "?as = P @ drop p ?as" by (simp add: P_def)
    have sP: "stored u P (take (length P * bs u) data) img" "stored u (drop p ?as) (drop (length P * bs u) data) img"
      using s(1) stored_append [of u P "drop p ?as" data img] unfolding as [symmetric] by simp_all
    have seed: "read_data_range img u (drop p ds) 0 (length data - p * bs u) = Some (drop (length P * bs u) data)"
    proof -
      have "map (\<lambda>a. of_int (fst a)) (drop p ?as) = (map of_int (map fst (drop p ?as)) :: u32 list)" by simp
      also have "map fst (drop p ?as) = map uint (drop p ds)" using file_allocs_parts(1) [OF fo] by (simp add: drop_map [symmetric])
      finally have e: "map (\<lambda>a. of_int (fst a)) (drop p ?as) = drop p ds" by (simp add: comp_def)
      have "\<And>a. a \<in> set (drop p ?as) \<Longrightarrow> run_ok u a" using file_allocs_ok(1) [OF u fo] by (auto dest: in_set_dropD)
      then have "read_data_range img u (map (\<lambda>a. of_int (fst a)) (drop p ?as)) 0 (length (drop (length P * bs u) data))
          = Some (drop (length P * bs u) data)" using len(1) N by (intro stored_read [OF u sP(2)]) auto
      then show ?thesis unfolding e by (simp add: lP)
    qed
    have ss: "subslice ds p (length ds) = Some (drop p ds)" using p(1) fo'(5) by (simp add: subslice_def)
    let ?seed = "drop (length P * bs u) data"
    let ?tail = "\<lambda>blks. wbind (if ?seed \<noteq> [] then wmodify (write_data_range u blks (drop (length P) req) 0 ?seed) else wreturn ()) (\<lambda>_.
      wbind (build_inode_pointer_structure u n (map fst P @ blks)) (\<lambda>cnt.
      wbind (wmodify (write_inode_size u n (of_nat N))) (\<lambda>_.
      wbind (wmodify (write_inode_blocks u n (of_int (sectors_of req + cnt * (bsize (sb u) div 512))))) (\<lambda>_.
      wmodify (write_data_range u (map fst P @ blks) req off w)))))"
    have "wp (wbind (wbind (free_pointer_blocks u ps) (\<lambda>_. free_data_blocks u (drop p ds) (drop p ?cur)))
        (\<lambda>_. wbind (wmapM (allocate_allocation u n) (drop (length P) req)) ?tail))
      (\<lambda>_. written u n A i (put_at data off w) img) (intact u n A img) img"
      unfolding wp_wbind [of "wbind _ _"]
    proof (rule wp_mono [OF release_suffix [OF u fo o]])
      fix x :: unit and img1
      assume a: "own u (A \<union> alloc_runs u (take p ?as)) img1 \<and> same_except (meta_byte u) img img1"
      have oP: "own u (A \<union> alloc_runs u P) img"
      proof (rule own_mono [OF o(1)])
        show "A \<union> alloc_runs u P \<subseteq> A \<union> file_cells u i ds ps"
          by (auto simp: P_def file_cells_def alloc_runs_def dest: in_set_takeD)
      qed
      have st1: "stable u (A \<union> alloc_runs u P) img img1" using meta_stable [OF u oP] a by blast
      have st: "stable u A img img1" by (rule stable_mono [OF st1 Un_upper1])
      have o1: "owned u n (A \<union> alloc_runs u P) img1"
        using a u valid_ino_bound [OF layout_facts(1) [OF u] n] by (simp add: owned_def P_def)
      have rq: "\<And>q. q \<in> set (drop (length P) req) \<Longrightarrow> request_ok u q"
        using allocation_sizes(2) [OF u, of N] len(1) by (auto simp: req_def dest: in_set_dropD)
      show "wp (wbind (wmapM (allocate_allocation u n) (drop (length P) req)) ?tail)
          (\<lambda>_. written u n A i (put_at data off w) img) (intact u n A img) img1"
        unfolding wp_wbind [of "wmapM _ _"]
      proof (rule wp_mono [OF allocs_wp [OF o1 rq]])
        show "intact u n A img e img'" if "intact u n (A \<union> alloc_runs u P) img1 e img'" for e img'
          by (rule intact_trans [OF st that])
        fix blks :: "int list" and img2
        let ?suf = "zip blks (drop (length P) req)"
        assume b: "owned u n (A \<union> alloc_runs u P \<union> alloc_runs u ?suf) img2 \<and> (A \<union> alloc_runs u P) \<inter> alloc_runs u ?suf = {}
          \<and> apart_runs u ?suf \<and> stable u (A \<union> alloc_runs u P) img1 img2 \<and> length blks = length (drop (length P) req)
          \<and> (\<forall>b \<in> set blks. block_addr u b)"
        have st2: "stable u (A \<union> alloc_runs u P) img img2" using stable_trans [OF st1] b by blast
        then have st2A: "stable u A img img2" by (rule stable_mono [OF _ Un_upper1])
        have f2: "tables_fit u img2" using f tables_fit_length [OF stable_length [OF st2A]] by simp
        have r2: "record_at img2 (inode_offset u n) i" using r read_inode_iff [OF u n f] stable_record [OF u n st2A] by simp
        have sP2: "stored u P (take (length P * bs u) data) img2"
          by (rule stored_stable [OF u sP(1) stable_same_frags [OF st2 Un_upper2] bspec [OF mP(3)]])
        have apP: "apart_runs u P" using fo'(4) apart_runs_simps(3) [of u P "drop p ?as"] unfolding as [symmetric] by simp
        have runsP: "A \<inter> alloc_runs u P = {}"
          using o(2) by (auto simp: P_def file_cells_def alloc_runs_def dest: in_set_takeD)
        have ap: "apart_runs u (P @ ?suf)" "owned u n (A \<union> alloc_runs u (P @ ?suf)) img2" "A \<inter> alloc_runs u (P @ ?suf) = {}"
          using b apP runsP by (auto simp: Un_assoc Int_Un_distrib Int_Un_distrib2)
        show "wp (?tail blks) (\<lambda>_. written u n A i (put_at data off w) img) (intact u n A img) img2"
          by (rule wp_mono [OF fill_suffix_wp [OF n f2 r2 req_def [unfolded N_def] mP(1,3) sP2 refl _ _ ap off l, folded N_def]])
            (use b others_written [OF stable_others [OF st2A]] intact_stable [OF st2A] in blast)+
      qed
    qed simp
    moreover have "apply_inode_write u n off w img = wbind (wbind (free_pointer_blocks u ps) (\<lambda>_. free_data_blocks u (drop p ds) (drop p ?cur)))
        (\<lambda>_. wbind (wmapM (allocate_allocation u n) (drop (length P) req)) ?tail) img"
    proof -
      have e: "i64 (int (length data)) = uint (di_size i)" "max (length data) (uadd off (length w)) = N"
        "(req = ?cur) = False" using i64(1) mx ua False by (simp_all add: s(2))
      have sd: "read_data_range img u (drop p ds) 0 (length data - p * bs u) = Some ?seed" by (rule seed)
      show ?thesis
        unfolding apply_inode_write_def Let_def s(2) [symmetric]
        by (simp only: run_wread [where g = "\<lambda>img. read_inode img u n", OF r] run_wok run_wopt
            run_wread [where g = "\<lambda>img. inode_data_blocks img u i", OF fo'(1)] s(2) [symmetric] e i64(2) req_def [symmetric] if_False
            p_def [symmetric] layout_facts(4) [OF u] ss run_wread [where g = "\<lambda>img. read_data_range img u (drop p ds) 0 (length data - p * bs u)", OF sd]
            run_wread [where g = "\<lambda>img. inode_pointer_blocks img u i", OF fo'(2)] lP mP(2) [symmetric] B wbind_assoc)
    qed
    ultimately show ?thesis unfolding wp_def by simp
  qed
qed

section \<open>Properties\<close>

text \<open>C5: A write at an offset inside a file, or at its end, is correct. It never panics. On success the contents are the
  old ones with the new bytes at their place, whether the blocks sufficed, the last ones were replaced by larger ones or
  the pointer tree was rebuilt; the inode differs only in its size, pointers and sector count, the file is well formed
  and its fragments are disjoint from everything else that is owned, of which not one byte has changed, nor has any
  other inode record. The only failure is lack of space, and it leaves every other file as it was.\<close>

theorem apply_inode_write_correct:
  assumes "layout_ok u" "valid_ino (sb u) n" "tables_fit u img" "read_inode img u n = Some (Some i)" "file_ok u img i ds ps"
    "own u (A \<union> file_cells u i ds ps) img" "A \<inter> file_cells u i ds ps = {}"
    "off \<le> unat (di_size i)" "max (unat (di_size i)) (off + length w) \<le> max_blocks u * bs u"
  shows "\<exists>data r img'. read_inode_bytes img u i = Some data \<and> apply_inode_write u n off w img = Some (r, img') \<and>
    (case r of
       Inr _ \<Rightarrow> others_same u n A img img' \<and>
         (\<exists>i' ds' ps'. read_inode img' u n = Some (Some i')
            \<and> i' = i \<lparr> di_size := of_nat (max (unat (di_size i)) (off + length w)), direct_blocks := direct_blocks i',
                indirect_blocks := indirect_blocks i', di_blocks := di_blocks i' \<rparr>
            \<and> file_ok u img' i' ds' ps' \<and> own u (A \<union> file_cells u i' ds' ps') img' \<and> A \<inter> file_cells u i' ds' ps' = {}
            \<and> read_inode_bytes img' u i' = Some (take off data @ w @ drop (off + length w) data))
     | Inl e \<Rightarrow> (e = NoFreeBlocks \<or> e = NoFreeFragments) \<and> own u A img' \<and> stable u A img img')"
proof -
  obtain data where d: "length data = unat (di_size i)" "stored u (file_allocs u i ds) data img"
    using file_contents [OF assms(1,5) own_mono [OF assms(6) Un_upper2]] by blast
  have b: "read_inode_bytes img u i = Some data" by (rule file_reads(1) [OF assms(1,5) d(2,1)])
  have off: "off \<le> length data" using assms(8) d(1) by simp
  have l: "length (put_at data off w) \<le> max_blocks u * bs u" using assms(9) put_at_length [OF off] d(1) by simp
  have wp: "wp (apply_inode_write u n off w) (\<lambda>_. written u n A i (put_at data off w) img) (intact u n A img) img"
    by (rule apply_inode_write_wp [OF assms(1-7) d(2,1) off l])
  then obtain r img' where r: "apply_inode_write u n off w img = Some (r, img')"
    "case r of Inl e \<Rightarrow> intact u n A img e img' | Inr _ \<Rightarrow> written u n A i (put_at data off w) img img'"
    unfolding wp_def by blast
  have e: "length (put_at data off w) = max (unat (di_size i)) (off + length w)" using put_at_length [OF off] d(1) by simp
  show ?thesis
  proof (rule exI [of _ data], rule exI [of _ r], rule exI [of _ img'], intro conjI b r(1), cases r, goal_cases)
    case (1 e)
    then show ?case using r(2) by (simp add: intact_def owned_def space_errors_def)
  next
    case (2 x)
    then obtain i' ds' ps' where w: "others_same u n A img img'" "read_inode img' u n = Some (Some i')"
      "i' = i \<lparr> di_size := of_nat (max (unat (di_size i)) (off + length w)), direct_blocks := direct_blocks i',
         indirect_blocks := indirect_blocks i', di_blocks := di_blocks i' \<rparr>"
      "file_ok u img' i' ds' ps'" "own u (A \<union> file_cells u i' ds' ps') img'" "A \<inter> file_cells u i' ds' ps' = {}"
      "read_inode_bytes img' u i' = Some (put_at data off w)"
      using r(2) unfolding written_def e by auto
    show ?case
      unfolding 2 sum.case using w(1,2,4-7) unfolding put_at_def
      by (intro conjI exI [of _ i'] exI [of _ ds'] exI [of _ ps'] w(3)) simp_all
  qed
qed

theorem apply_inode_write_correct_witness:
  "\<exists>r img'. apply_inode_write sample_ufs 2 0 [1, 2, 3] sample_img = Some (r, img') \<and> own sample_ufs {} img'"
proof -
  have v: "valid_ino sample_sb 2" by (simp add: valid_ino_def)
  have z: "unat (di_size blank_inode) = 0" by (simp add: blank_inode_def)
  have o: "own sample_ufs ({} \<union> file_cells sample_ufs blank_inode [] []) sample_img"
    "{} \<inter> file_cells sample_ufs blank_inode [] [] = {}" "valid_ino (sb sample_ufs) 2" "0 \<le> unat (di_size blank_inode)"
    "max (unat (di_size blank_inode)) (0 + length [1, 2, 3 :: u8]) \<le> max_blocks sample_ufs * bs sample_ufs"
    using v z by (simp_all add: blank_file(2) max_blocks_def bs_def)
  from apply_inode_write_correct [OF sample_layout o(3) sample_tables sample_blank [OF v] blank_file(1) o(1,2,4,5)]
  show ?thesis
  proof (elim exE conjE, goal_cases)
    case (1 data r img')
    then show ?case by (cases r) (auto elim: own_mono)
  qed
qed

end
