(* ===== verification/Dir_Correct.thy ===== *)
theory Dir_Correct
  imports Block_Lists Dir_Write Rust_Std
begin

text \<open>
  Directory bytes: chains of records in blocks of 512 bytes. The readers of
  \<^verbatim>\<open>crates/svr4-ufs/src/dir.rs\<close> see the records of a chain, and the editors of
  \<^verbatim>\<open>crates/svr4-ufs/src/write.rs\<close> (insertion into a slot or a new block, removal by merging or freeing)
  keep the directory a list of chains and change its entries by exactly one.
\<close>

section \<open>Record chains\<close>

text \<open>
  A directory record: inode number (zero for a free record), record length and name bytes. A chain of
  records tiles the bytes from \<open>off\<close> to \<open>m\<close> without gaps.
\<close>

type_synonym drec = "u32 \<times> nat \<times> bytes"

fun dlen :: "drec \<Rightarrow> nat" where
  "dlen (i, l, nm) = l"

fun rec_ok :: "drec \<Rightarrow> bool" where
  "rec_ok (i, l, nm) \<longleftrightarrow> length nm \<le> 255 \<and> 8 + length nm \<le> l \<and> l < 65536 \<and> (i \<noteq> 0 \<longrightarrow> ufs_dirsiz (length nm) \<le> l)"

fun rec_at :: "bytes \<Rightarrow> nat \<Rightarrow> drec \<Rightarrow> bool" where
  "rec_at d off (i, l, nm) \<longleftrightarrow> rec_ok (i, l, nm) \<and> u32 d off = Some i \<and> u16 d (off + 4) = Some (of_nat l)
     \<and> u16 d (off + 6) = Some (of_nat (length nm)) \<and> subslice d (off + 8) (off + 8 + length nm) = Some nm"

primrec chain :: "bytes \<Rightarrow> nat \<Rightarrow> nat \<Rightarrow> drec list \<Rightarrow> bool" where
  "chain d m off [] \<longleftrightarrow> off = m"
| "chain d m off (r # rs) \<longleftrightarrow> rec_at d off r \<and> chain d m (off + dlen r) rs"

lemma chain_le: "chain d m off rs \<Longrightarrow> off \<le> m"
  by (induction rs arbitrary: off) fastforce+

lemma chain_append:
  "chain d m off (rs @ ts) \<longleftrightarrow> chain d (off + sum_list (map dlen rs)) off rs \<and> chain d m (off + sum_list (map dlen rs)) ts"
  by (induction rs arbitrary: off) (auto simp: add.assoc)

lemma chain_end: "chain d m off rs \<Longrightarrow> m = off + sum_list (map dlen rs)"
proof (induction rs arbitrary: off)
  case (Cons r rs)
  then have "m = off + dlen r + sum_list (map dlen rs)" by (intro Cons.IH) simp
  then show ?case by simp
qed simp

lemma rec_at_cong:
  assumes "rec_at d off r" "length d' = length d" "\<And>k. off \<le> k \<Longrightarrow> k < off + dlen r \<Longrightarrow> d' ! k = d ! k"
  shows "rec_at d' off r"
proof -
  obtain i l nm where r: "r = (i, l, nm)" by (cases r)
  have l: "8 + length nm \<le> l" using assms(1) by (simp add: r)
  have s: "subslice d' a b = subslice d a b" if "off \<le> a" "b \<le> off + l" for a b
    using that assms(2,3) by (intro subslice_eqI) (auto simp: r)
  show ?thesis using assms(1) l s by (simp add: r u16_subslice u32_subslice)
qed

lemma chain_cong:
  assumes "chain d m off rs" "length d' = length d" "\<And>k. off \<le> k \<Longrightarrow> k < m \<Longrightarrow> d' ! k = d ! k"
  shows "chain d' m off rs"
  using assms
proof (induction rs arbitrary: off)
  case (Cons r rs)
  have "off + dlen r \<le> m" using Cons.prems(1) chain_le [of d m "off + dlen r" rs] by simp
  then have "rec_at d' off r" using Cons.prems by (intro rec_at_cong [of d off r d']) auto
  moreover have "chain d' m (off + dlen r) rs" using Cons.prems by (intro Cons.IH) auto
  ultimately show ?case by simp
qed simp

text \<open>A block cut out of a directory has the chain of its place.\<close>

lemma subslice_cut:
  "j \<le> m \<Longrightarrow> b + m \<le> length d \<Longrightarrow> subslice (take m (drop b d)) i j = subslice d (b + i) (b + j)"
  by (auto simp: subslice_def drop_take add.commute [of b] min_def)

lemma rec_at_cut:
  assumes "b + m \<le> length d" "off + dlen r \<le> m"
  shows "rec_at (take m (drop b d)) off r \<longleftrightarrow> rec_at d (b + off) r"
proof (cases "rec_ok r")
  case True
  obtain i l nm where r: "r = (i, l, nm)" by (cases r)
  have l: "8 + length nm \<le> l" using True by (simp add: r)
  have s: "subslice (take m (drop b d)) (off + x) (off + y) = subslice d (b + off + x) (b + off + y)" if "y \<le> l" for x y
    using subslice_cut [of "off + y" m b d "off + x"] assms that by (simp add: r add.assoc)
  have "u32 (take m (drop b d)) off = u32 d (b + off)"
    using s [of 4 0] l by (simp add: u32_subslice)
  moreover have "u16 (take m (drop b d)) (off + 4) = u16 d (b + off + 4)" "u16 (take m (drop b d)) (off + 6) = u16 d (b + off + 6)"
    using s [of 6 4] s [of 8 6] l by (simp_all add: u16_subslice add.commute add.left_commute)
  moreover have "subslice (take m (drop b d)) (off + 8) (off + 8 + length nm) = subslice d (b + off + 8) (b + off + 8 + length nm)"
    using s [of "8 + length nm" 8] l by (simp add: add.assoc)
  ultimately show ?thesis by (simp add: r)
next
  case False
  then show ?thesis by (cases r) auto
qed

lemma chain_cut:
  assumes "b + m \<le> length d"
  shows "chain (take m (drop b d)) m off rs \<longleftrightarrow> chain d (b + m) (b + off) rs"
proof (induction rs arbitrary: off)
  case (Cons r rs)
  show ?case
  proof (cases "off + dlen r \<le> m")
    case True
    then show ?thesis using rec_at_cut [OF assms True] Cons.IH [of "off + dlen r"] by (simp add: add.assoc)
  next
    case False
    then show ?thesis
      using chain_le [of _ m "off + dlen r" rs] chain_le [of _ "b + m" "b + off + dlen r" rs] by (auto simp: add.assoc)
  qed
qed simp

section \<open>Readers\<close>

lemma rec_at_header:
  assumes "rec_at d off (i, l, nm)" "off + l \<le> m"
  shows "decode_directory_header d off m =
    Some (Some \<lparr> h_inode = i, h_record_length = of_nat l, h_name_length = of_nat (length nm) \<rparr>)"
proof -
  have l: "0 < l" "l < 65536" "length nm \<le> 255" "8 + length nm \<le> l" using assms(1) by auto
  have u: "unat (of_nat l :: u16) = l" "unat (of_nat (length nm) :: u16) = length nm"
    using l by (simp_all add: unat_of_nat)
  have z: "(of_nat l :: u16) \<noteq> 0" "\<not> (of_nat (length nm) :: u16) > 255"
    using l u by (auto simp: unat_eq_zero [symmetric] word_less_nat_alt)
  show ?thesis using assms l u z by (simp add: decode_directory_header_def)
qed

fun entry_of_rec :: "nat \<Rightarrow> drec \<Rightarrow> dir_entry" where
  "entry_of_rec off (i, l, nm) =
     \<lparr> e_inode = i, e_record_length = of_nat l, e_name_length = of_nat (length nm),
       e_name = decode_ascii_replace nm, e_offset = off \<rparr>"

primrec dir_records :: "nat \<Rightarrow> drec list \<Rightarrow> dir_entry list" where
  "dir_records off [] = []"
| "dir_records off (r # rs) = entry_of_rec off r # dir_records (off + dlen r) rs"

lemma rec_at_entry:
  "rec_at d off r \<Longrightarrow> off + dlen r \<le> m \<Longrightarrow> decode_directory_entry d off m = Some (Some (entry_of_rec off r))"
proof -
  assume a: "rec_at d off r" "off + dlen r \<le> m"
  obtain i l nm where r: "r = (i, l, nm)" by (cases r)
  have h: "rec_at d off (i, l, nm)" "off + l \<le> m" using a by (simp_all add: r)
  have n: "unat (of_nat (length nm) :: u16) = length nm" using h(1) by (auto simp: unat_of_nat)
  have s: "subslice d (off + 8) (off + 8 + length nm) = Some nm" using h(1) by simp
  show ?thesis by (simp add: decode_directory_entry_def rec_at_header [OF h] n s r)
qed

lemma rec_dlen: "rec_at d off r \<Longrightarrow> 8 \<le> dlen r \<and> dlen r < 65536"
  by (cases r) auto

lemma chain_room: "chain d m off (r # rs) \<Longrightarrow> off + dlen r \<le> m \<and> off + 8 \<le> m"
  using chain_le [of d m "off + dlen r" rs] rec_dlen [of d off r] by simp

lemma dlen_entry: "rec_at d off r \<Longrightarrow> unat (e_record_length (entry_of_rec off r)) = dlen r"
  by (cases r) (auto simp: unat_of_nat)

lemma records_from_chain: "chain d m off rs \<Longrightarrow> records_from d m off = Some (dir_records off rs)"
proof (induction rs arbitrary: off)
  case Nil
  then show ?case by (subst records_from.simps) simp
next
  case (Cons r rs)
  have m: "off + dlen r \<le> m" "off + 8 \<le> m" using chain_room [OF Cons.prems] by auto
  have r: "rec_at d off r" "chain d m (off + dlen r) rs" using Cons.prems by auto
  show ?case
    using m Cons.IH [OF r(2)]
    by (subst records_from.simps) (simp add: rec_at_entry [OF r(1) m(1)] dlen_entry [OF r(1)])
qed

text \<open>The live entries of a chain, and the scan for a name.\<close>

definition live_entries :: "drec list \<Rightarrow> (rstr \<times> u32) list" where
  "live_entries rs = map (\<lambda>(i, l, nm). (nm, i)) (filter (\<lambda>(i, l, nm). i \<noteq> 0) rs)"

lemma live_entries_simps [simp]:
  "live_entries [] = []" "live_entries ((i, l, nm) # rs) = (if i \<noteq> 0 then [(nm, i)] else []) @ live_entries rs" "live_entries (rs @ ts) = live_entries rs @ live_entries ts"
  by (simp_all add: live_entries_def)

lemma scan_block_chain: "chain d m off rs \<Longrightarrow> scan_block d m name off = Some (map_of (live_entries rs) name)"
proof (induction rs arbitrary: off)
  case Nil
  then show ?case by (subst scan_block.simps) simp
next
  case (Cons r rs)
  obtain i l nm where r: "r = (i, l, nm)" by (cases r)
  have m: "off + l \<le> m" "off + 8 \<le> m" using chain_room [OF Cons.prems] by (auto simp: r)
  have a: "rec_at d off (i, l, nm)" "chain d m (off + l) rs" using Cons.prems by (auto simp: r)
  have l: "unat (of_nat l :: u16) = l" "unat (of_nat (length nm) :: u16) = length nm" using a(1) by (auto simp: unat_of_nat)
  have n: "subslice d (off + 8) (off + 8 + length nm) = Some nm" using a(1) by simp
  show ?case
    using m Cons.IH [OF a(2)] l n
    by (subst scan_block.simps) (auto simp: rec_at_header [OF a(1) m(1)] r)
qed

section \<open>Writing records\<close>

lemma encode_entry_rec:
  assumes "rec_ok (of_int ino, l, name)"
  shows "\<exists>raw. encode_entry ino name l = Some raw \<and> length raw = l \<and> rec_at raw 0 (of_int ino, l, name)"
proof -
  have l: "8 + length name \<le> l" using assms by simp
  define raw where "raw = upd (upd (upd (upd (replicate l 0) 0 (le32 (of_int ino))) 4 (le16 (of_nat l))) 6
    (le16 (of_nat (length name)))) 8 name"
  have "encode_entry ino name l = Some raw"
    using l by (simp add: encode_entry_def upd_simps raw_def)
  moreover have "length raw = l" by (simp add: raw_def)
  moreover have "u32 raw 0 = Some (of_int ino)" "u16 raw 4 = Some (of_nat l)" "u16 raw 6 = Some (of_nat (length name))"
    using l by (simp_all add: raw_def upd_simps)
  moreover have "subslice raw 8 (8 + length name) = Some name"
    unfolding raw_def by (rule subslice_copy_same [OF copy_at_upd]) (use l in simp)
  ultimately show ?thesis using assms by simp
qed

lemma rec_at_upd:
  assumes "rec_at raw 0 r" "length raw = dlen r" "off + dlen r \<le> length d"
  shows "rec_at (upd d off raw) off r"
proof -
  have "take (dlen r) (drop off (upd d off raw)) = raw"
    using assms(2,3) by (intro nth_equalityI) (auto simp: upd_nth)
  then show ?thesis using rec_at_cut [of off "dlen r" "upd d off raw" 0 r] assms by simp
qed

lemma chain_replace:
  assumes "chain d m off (xs @ r # ys)" "length d' = length d"
    and "\<And>k. k < off + sum_list (map dlen xs) \<or> off + sum_list (map dlen xs) + dlen r \<le> k \<Longrightarrow> d' ! k = d ! k"
    and "chain d' (off + sum_list (map dlen xs) + dlen r) (off + sum_list (map dlen xs)) ts"
  shows "chain d' m off (xs @ ts @ ys)"
proof -
  let ?o = "off + sum_list (map dlen xs)"
  have c: "chain d ?o off xs" "chain d m (?o + dlen r) ys" using assms(1) by (simp_all add: chain_append)
  have "chain d' ?o off xs" "chain d' m (?o + dlen r) ys"
    using assms(2,3) by (auto intro!: chain_cong [OF c(1)] chain_cong [OF c(2)])
  then show ?thesis using assms(4) chain_end [OF assms(4)] by (simp add: chain_append)
qed

lemma chain_inside: "chain d m off rs \<Longrightarrow> rs \<noteq> [] \<Longrightarrow> off \<le> length d"
  by (cases rs; cases "hd rs") (auto dest!: u32_bound)

section \<open>Slots\<close>

text \<open>What a slot for a record of length \<open>needed\<close> is: a free record, or the slack of a used one.\<close>

definition slot_for :: "nat \<Rightarrow> nat \<Rightarrow> nat \<Rightarrow> drec list \<Rightarrow> drec \<Rightarrow> drec list \<Rightarrow> insert_slot \<Rightarrow> bool" where
  "slot_for needed b off xs r ys slot \<longleftrightarrow> (case r of (i, l, nm) \<Rightarrow>
     let o' = off + sum_list (map dlen xs); used = ufs_dirsiz (length nm) in
     (i = 0 \<and> needed \<le> l \<and> slot = \<lparr> block_offset = b, entry_offset = o', record_length = l, previous_entry = None \<rparr>)
   \<or> (i \<noteq> 0 \<and> used + needed \<le> l \<and> slot = \<lparr> block_offset = b, entry_offset = o' + used, record_length = l - used,
         previous_entry = Some (o', used) \<rparr>))"

lemma slot_scan_chain:
  assumes "chain d m off rs" "0 < needed"
  shows "(\<exists>xs r ys slot. rs = xs @ r # ys \<and> slot_scan d needed b m fr off = Some (Inl slot) \<and> slot_for needed b off xs r ys slot)
    \<or> slot_scan d needed b m fr off = Some (Inr (fr \<or> rs \<noteq> []))"
  using assms(1)
proof (induction rs arbitrary: off fr)
  case Nil
  then have "slot_scan d needed b m fr off = Some (Inr fr)" by (subst slot_scan.simps) simp
  then show ?case by simp
next
  case (Cons r rs)
  obtain i l nm where r: "r = (i, l, nm)" by (cases r)
  have m: "off + l \<le> m" "off + 8 \<le> m" using chain_room [OF Cons.prems] by (auto simp: r)
  have a: "rec_at d off (i, l, nm)" "chain d m (off + l) rs" using Cons.prems by (auto simp: r)
  have u: "unat (of_nat l :: u16) = l" "unat (of_nat (length nm) :: u16) = length nm" using a(1) by (auto simp: unat_of_nat)
  note run = slot_scan.simps [of d needed b m fr off]
  show ?case
  proof (cases "(i = 0 \<and> needed \<le> l) \<or> (i \<noteq> 0 \<and> needed \<le> l - ufs_dirsiz (length nm))")
    case True
    then have "\<exists>slot. slot_scan d needed b m fr off = Some (Inl slot) \<and> slot_for needed b off [] r rs slot"
      using m u assms(2) by (subst run) (auto simp: rec_at_header [OF a(1) m(1)] Let_def slot_for_def r)
    then show ?thesis by (intro disjI1) (metis append_Nil)
  next
    case False
    then have e: "slot_scan d needed b m fr off = slot_scan d needed b m True (off + l)"
      using m u by (subst run) (auto simp: rec_at_header [OF a(1) m(1)] Let_def)
    have f: "slot_for needed b (off + l) xs t ys slot \<Longrightarrow> slot_for needed b off (r # xs) t ys slot" for xs t ys slot
      by (simp add: slot_for_def r add.assoc)
    from Cons.IH [OF a(2), of True] show ?thesis
    proof (elim disjE exE conjE)
      fix xs t ys slot
      assume "rs = xs @ t # ys" "slot_scan d needed b m True (off + l) = Some (Inl slot)"
        "slot_for needed b (off + l) xs t ys slot"
      then have "r # rs = (r # xs) @ t # ys \<and> slot_scan d needed b m fr off = Some (Inl slot)
          \<and> slot_for needed b off (r # xs) t ys slot" using e f by simp
      then show ?thesis by blast
    qed (simp add: e)
  qed
qed

declare rec_at.simps [simp del] rec_ok.simps [simp del]

lemma rec_at_shrink:
  assumes "rec_at d off (i, l, nm)" "i \<noteq> 0 \<or> used = 8 + length nm" "ufs_dirsiz (length nm) \<le> used" "used < 65536" "off + l \<le> length d"
  shows "rec_at (upd d (off + 4) (le16 (of_nat used))) off (i, used, nm)"
proof -
  have l: "8 + length nm \<le> l" using assms(1) by (simp add: rec_at.simps rec_ok.simps)
  then show ?thesis using assms ufs_dirsiz_bounds [of "length nm"] by (simp add: rec_at.simps rec_ok.simps upd_simps)
qed

lemma fill_free_slot:
  assumes r: "rec_at d p (0, l, nm)" "p + l \<le> length d" and n: "ufs_dirsiz (length name) \<le> l" "length name \<le> 255" "(of_int ino :: u32) \<noteq> 0"
    and f: "find_insert_slot d sz name = Some (Some \<lparr> block_offset = b, entry_offset = p, record_length = l, previous_entry = None \<rparr>)"
    and b: "b + 512 \<le> length d"
  shows "\<exists>d' ts. insert_entry d sz ino name = Some (Inr d') \<and> length d' = length d
    \<and> (\<forall>k. k < p \<or> p + l \<le> k \<longrightarrow> d' ! k = d ! k) \<and> chain d' (p + l) p ts \<and> live_entries ts = [(name, of_int ino)]"
proof -
  let ?n = "ufs_dirsiz (length name)"
  have l: "l < 65536" and nn: "?n \<le> 267" "8 + length name \<le> ?n"
    using r n ufs_dirsiz_bounds [of "length name"] by (auto simp: rec_at.simps rec_ok.simps)
  show ?thesis
  proof (cases "8 \<le> l - ?n")
    case True
    have "rec_ok (of_int 0, l - ?n, [])" unfolding rec_ok.simps using True l by simp
    then obtain fl where fl: "encode_entry 0 [] (l - ?n) = Some fl" "length fl = l - ?n" "rec_at fl 0 (0, l - ?n, [])"
      using encode_entry_rec [of 0 "l - ?n" "[]"] by auto
    obtain raw where raw: "encode_entry ino name ?n = Some raw" "length raw = ?n" "rec_at raw 0 (of_int ino, ?n, name)"
      using encode_entry_rec [of ino ?n name] nn n(2) by (auto simp: rec_ok.simps)
    let ?d = "upd (upd d (p + ?n) fl) p raw"
    have "insert_entry d sz ino name = Some (Inr ?d)"
      using True n(1) r(2) b fl(1,2) raw(1,2) by (simp add: insert_entry_def f Let_def copy_at_upd max_absorb1 max_absorb2)
    moreover have "rec_at ?d p (of_int ino, ?n, name)"
      using raw n(1) r(2) by (intro rec_at_upd) simp_all
    moreover have "rec_at ?d (p + ?n) (0, l - ?n, [])"
    proof -
      have "rec_at (upd d (p + ?n) fl) (p + ?n) (0, l - ?n, [])" using fl n(1) r(2) by (intro rec_at_upd) simp_all
      then show ?thesis by (rule rec_at_cong) (use raw n(1) r(2) in \<open>simp_all add: upd_nth\<close>)
    qed
    moreover have "\<forall>k. k < p \<or> p + l \<le> k \<longrightarrow> ?d ! k = d ! k" using raw fl n(1) r(2) by (simp add: upd_nth)
    ultimately show ?thesis
      using n by (intro exI [of _ ?d] exI [of _ "[(of_int ino, ?n, name), (0, l - ?n, [])]"]) simp
  next
    case False
    obtain raw where raw: "encode_entry ino name l = Some raw" "length raw = l" "rec_at raw 0 (of_int ino, l, name)"
      using encode_entry_rec [of ino l name] nn n l by (auto simp: rec_ok.simps)
    let ?d = "upd d p raw"
    have "insert_entry d sz ino name = Some (Inr ?d)"
      using False n(1) r(2) b raw(1,2) by (simp add: insert_entry_def f Let_def copy_at_upd max_absorb1 max_absorb2)
    moreover have "rec_at ?d p (of_int ino, l, name)" using raw r(2) by (intro rec_at_upd) simp_all
    moreover have "\<forall>k. k < p \<or> p + l \<le> k \<longrightarrow> ?d ! k = d ! k" using raw r(2) by (simp add: upd_nth)
    ultimately show ?thesis using n by (intro exI [of _ ?d] exI [of _ "[(of_int ino, l, name)]"]) simp
  qed
qed

lemma fill_slack:
  assumes r: "rec_at d p (i, l, nm)" "p + l \<le> length d" "i \<noteq> 0"
    and n: "ufs_dirsiz (length nm) + ufs_dirsiz (length name) \<le> l" "length name \<le> 255" "(of_int ino :: u32) \<noteq> 0"
    and f: "find_insert_slot d sz name = Some (Some \<lparr> block_offset = b, entry_offset = p + ufs_dirsiz (length nm),
       record_length = l - ufs_dirsiz (length nm), previous_entry = Some (p, ufs_dirsiz (length nm)) \<rparr>)"
    and b: "b + 512 \<le> length d"
  shows "\<exists>d' ts. insert_entry d sz ino name = Some (Inr d') \<and> length d' = length d
    \<and> (\<forall>k. k < p \<or> p + l \<le> k \<longrightarrow> d' ! k = d ! k) \<and> chain d' (p + l) p ts \<and> live_entries ts = [(nm, i), (name, of_int ino)]"
proof -
  let ?u = "ufs_dirsiz (length nm)"
  have l: "l < 65536" and nn: "8 + length name \<le> ufs_dirsiz (length name)" "8 + length nm \<le> ?u" "8 \<le> ?u"
    using r(1) ufs_dirsiz_bounds [of "length name"] ufs_dirsiz_bounds [of "length nm"] by (auto simp: rec_at.simps rec_ok.simps)
  have "rec_ok (of_int ino, l - ?u, name)" unfolding rec_ok.simps using nn n l by linarith
  then obtain raw where raw: "encode_entry ino name (l - ?u) = Some raw" "length raw = l - ?u" "rec_at raw 0 (of_int ino, l - ?u, name)"
    using encode_entry_rec [of ino "l - ?u" name] by auto
  let ?e = "upd d (p + 4) (le16 (of_nat ?u))" let ?d = "upd ?e (p + ?u) raw"
  have le: "?u \<le> l" using n(1) by simp
  have "insert_entry d sz ino name = Some (Inr ?d)"
    using n(1) r(2) b raw(1,2) nn by (simp add: insert_entry_def f Let_def upd_simps copy_at_upd max_absorb1 max_absorb2)
  moreover have "rec_at ?d p (i, ?u, nm)"
  proof -
    have "rec_at ?e p (i, ?u, nm)" using r l le by (intro rec_at_shrink) simp_all
    then show ?thesis by (rule rec_at_cong) (use raw le nn r(2) in \<open>simp_all add: upd_nth\<close>)
  qed
  moreover have "rec_at ?d (p + ?u) (of_int ino, l - ?u, name)"
    using raw le r(2) by (intro rec_at_upd) simp_all
  moreover have "\<forall>k. k < p \<or> p + l \<le> k \<longrightarrow> ?d ! k = d ! k" using raw le nn r(2) by (simp add: upd_nth)
  ultimately show ?thesis
    using r(3) n(3) le by (intro exI [of _ ?d] exI [of _ "[(i, ?u, nm), (of_int ino, l - ?u, name)]"]) simp
qed

section \<open>Whole directories\<close>

text \<open>The bytes of a directory: blocks of 512 bytes, each tiled by records.\<close>

definition dir_holds :: "bytes \<Rightarrow> drec list list \<Rightarrow> bool" where
  "dir_holds d rss \<longleftrightarrow> length d = 512 * length rss \<and> (\<forall>k < length rss. chain d (512 * k + 512) (512 * k) (rss ! k))"

definition dir_list :: "drec list list \<Rightarrow> (rstr \<times> u32) list" where
  "dir_list rss = concat (map live_entries rss)"

lemma block_nonempty: "dir_holds d rss \<Longrightarrow> k < length rss \<Longrightarrow> rss ! k \<noteq> []"
  by (auto simp: dir_holds_def dest!: spec [of _ k])

lemma slot_blocks_holds:
  assumes h: "dir_holds d rss" and n: "0 < needed" "needed \<le> 512" and ks: "\<forall>k \<in> set ks. k < length rss"
  shows "(\<exists>k xs r ys slot. k < length rss \<and> rss ! k = xs @ r # ys \<and> slot_for needed (512 * k) (512 * k) xs r ys slot
      \<and> slot_blocks d (length d) needed rounded (map (\<lambda>k. k * 512) ks) = Some (Some slot))
    \<or> slot_blocks d (length d) needed rounded (map (\<lambda>k. k * 512) ks) = Some (Some (fresh_slot rounded))"
  using ks
proof (induction ks)
  case Nil
  then show ?case using n by simp
next
  case (Cons k ks)
  have k: "k < length rss" using Cons.prems by simp
  have c: "chain d (512 * k + 512) (512 * k) (rss ! k)" and l: "512 * k + 512 \<le> length d"
    using h k by (auto simp: dir_holds_def)
  have lim: "min (k * 512 + 512) (length d) = 512 * k + 512" using l by simp
  note sc = slot_scan_chain [OF c n(1), of "512 * k" False]
  show ?case
  proof (cases "slot_scan d needed (512 * k) (512 * k + 512) False (512 * k) = Some (Inr True)")
    case True
    then show ?thesis using Cons.IH Cons.prems l by (simp add: Let_def mult.commute [of k])
  next
    case False
    then obtain xs r ys slot where s: "rss ! k = xs @ r # ys" "slot_for needed (512 * k) (512 * k) xs r ys slot"
      "slot_scan d needed (512 * k) (512 * k + 512) False (512 * k) = Some (Inl slot)"
      using sc block_nonempty [OF h k] by auto
    then have "slot_blocks d (length d) needed rounded (map (\<lambda>k. k * 512) (k # ks)) = Some (Some slot)"
      using l by (simp add: Let_def mult.commute [of k])
    then show ?thesis using s k by blast
  qed
qed

lemma dir_offsets: "dir_block_offsets (512 * n) = map (\<lambda>k. k * 512) [0..<n]"
  by (simp add: dir_block_offsets_def)

lemma find_slot_holds:
  assumes h: "dir_holds d rss" and n: "length name \<le> 255"
  shows "(\<exists>k xs r ys slot. k < length rss \<and> rss ! k = xs @ r # ys
      \<and> slot_for (ufs_dirsiz (length name)) (512 * k) (512 * k) xs r ys slot
      \<and> find_insert_slot d (length d) name = Some (Some slot))
    \<or> find_insert_slot d (length d) name = Some (Some (fresh_slot (length d)))"
proof (cases "rss = []")
  case True
  then have "d = []" using h by (simp add: dir_holds_def)
  then show ?thesis using n ufs_dirsiz_bounds [of "length name"] by (simp add: find_insert_slot_def Let_def dir_block_offsets_def)
next
  case False
  have l: "length d = 512 * length rss" using h by (simp add: dir_holds_def)
  have "(length d + 511) div 512 * 512 = length d" unfolding l by simp
  then have "find_insert_slot d (length d) name =
      slot_blocks d (length d) (ufs_dirsiz (length name)) (length d) (map (\<lambda>k. k * 512) [0..<length rss])"
    using False l by (simp add: find_insert_slot_def Let_def mult.commute [of "length rss" 512] dir_offsets)
  then show ?thesis
    using slot_blocks_holds [OF h, of "ufs_dirsiz (length name)" "[0..<length rss]" "length d"] n ufs_dirsiz_bounds [of "length name"]
    by auto
qed

lemma dir_list_update:
  assumes "k < length rss" "rss ! k = xs @ r # ys"
  shows "\<exists>as cs. dir_list rss = as @ live_entries [r] @ cs \<and> dir_list (rss[k := xs @ ts @ ys]) = as @ live_entries ts @ cs"
proof -
  have s: "rss = take k rss @ (xs @ r # ys) # drop (Suc k) rss" using assms by (metis id_take_nth_drop)
  have u: "rss[k := xs @ ts @ ys] = take k rss @ (xs @ ts @ ys) # drop (Suc k) rss" using assms(1) by (simp add: upd_conv_take_nth_drop)
  have r: "live_entries (r # ys) = live_entries [r] @ live_entries ys" by (cases r) simp
  show ?thesis
    by (rule exI [of _ "concat (map live_entries (take k rss)) @ live_entries xs"],
        rule exI [of _ "live_entries ys @ concat (map live_entries (drop (Suc k) rss))"], subst s, subst u)
      (simp add: dir_list_def r del: live_entries_simps(2))
qed

lemma dir_holds_replace:
  assumes h: "dir_holds d rss" "k < length rss" "rss ! k = xs @ r # ys" and l: "length d' = length d"
    and s: "\<And>j. j < 512 * k + sum_list (map dlen xs) \<or> 512 * k + sum_list (map dlen xs) + dlen r \<le> j \<Longrightarrow> d' ! j = d ! j"
    and c: "chain d' (512 * k + sum_list (map dlen xs) + dlen r) (512 * k + sum_list (map dlen xs)) ts"
  shows "dir_holds d' (rss[k := xs @ ts @ ys])"
proof -
  have ck: "chain d (512 * k + 512) (512 * k) (xs @ r # ys)" using h unfolding dir_holds_def by metis
  have e: "512 * k + sum_list (map dlen xs) + dlen r \<le> 512 * k + 512" using chain_end [OF ck] by simp
  have n: "chain d' (512 * k + 512) (512 * k) (xs @ ts @ ys)" by (rule chain_replace [OF ck l s c])
  have "chain d' (512 * j + 512) (512 * j) (rss ! j)" if "j < length rss" "j \<noteq> k" for j
  proof -
    have "chain d (512 * j + 512) (512 * j) (rss ! j)" using h(1) that by (simp add: dir_holds_def)
    moreover have "j * 512 + 512 \<le> k * 512 \<or> k * 512 + 512 \<le> j * 512" using that(2) by (cases "j < k") auto
    then have "d' ! i = d ! i" if "512 * j \<le> i" "i < 512 * j + 512" for i using s [of i] e that by auto
    ultimately show ?thesis using l by (auto intro: chain_cong)
  qed
  then show ?thesis using n h l by (auto simp: dir_holds_def nth_list_update)
qed

text \<open>
  The effect of an insertion: one more entry in the list, in a slot of the directory or in a new block
  at its end.
\<close>

definition inserted :: "bytes \<Rightarrow> drec list list \<Rightarrow> rstr \<Rightarrow> u32 \<Rightarrow> bytes \<Rightarrow> drec list list \<Rightarrow> bool" where
  "inserted d rss name i d' rss' \<longleftrightarrow> dir_holds d' rss'
     \<and> (\<exists>as cs. dir_list rss = as @ cs \<and> dir_list rss' = as @ (name, i) # cs)
     \<and> (length d' = length d \<or> length d' = length d + 512 \<and> take (length d) d' = d)"

lemma insert_in_block:
  assumes h: "dir_holds d rss" and n: "length name \<le> 255" "(of_int ino :: u32) \<noteq> 0" and k: "k < length rss" "rss ! k = xs @ r # ys"
    and s: "slot_for (ufs_dirsiz (length name)) (512 * k) (512 * k) xs r ys slot"
    and f: "find_insert_slot d (length d) name = Some (Some slot)"
  shows "\<exists>d' rss'. insert_entry d (length d) ino name = Some (Inr d') \<and> inserted d rss name (of_int ino) d' rss'"
proof -
  obtain i l nm where r: "r = (i, l, nm)" by (cases r)
  define p where "p = 512 * k + sum_list (map dlen xs)"
  have ck: "chain d (512 * k + 512) (512 * k) (xs @ r # ys)" and b: "512 * k + 512 \<le> length d"
    using h k unfolding dir_holds_def by (metis, auto)
  have ra: "rec_at d p (i, l, nm)" using ck by (simp add: chain_append p_def r)
  have pl: "p + l \<le> length d" using chain_end [OF ck] b by (simp add: p_def r)
  have "\<exists>d' ts. insert_entry d (length d) ino name = Some (Inr d') \<and> length d' = length d
    \<and> (\<forall>j. j < p \<or> p + l \<le> j \<longrightarrow> d' ! j = d ! j) \<and> chain d' (p + l) p ts
    \<and> live_entries ts = live_entries [r] @ [(name, of_int ino)]"
  proof (cases "i = 0")
    case True
    then have f': "ufs_dirsiz (length name) \<le> l"
      "find_insert_slot d (length d) name = Some (Some \<lparr> block_offset = 512 * k, entry_offset = p, record_length = l, previous_entry = None \<rparr>)"
      using s f by (auto simp: slot_for_def r p_def)
    show ?thesis using fill_free_slot [OF _ pl f'(1) n f'(2) b] ra True by (simp add: r)
  next
    case False
    then have f': "ufs_dirsiz (length nm) + ufs_dirsiz (length name) \<le> l"
      "find_insert_slot d (length d) name = Some (Some \<lparr> block_offset = 512 * k, entry_offset = p + ufs_dirsiz (length nm),
       record_length = l - ufs_dirsiz (length nm), previous_entry = Some (p, ufs_dirsiz (length nm)) \<rparr>)"
      using s f by (auto simp: slot_for_def r p_def Let_def)
    show ?thesis using fill_slack [OF ra pl False f'(1) n f'(2) b] False by (simp add: r)
  qed
  then obtain d' ts where d': "insert_entry d (length d) ino name = Some (Inr d')" "length d' = length d"
    "\<And>j. j < p \<or> p + l \<le> j \<Longrightarrow> d' ! j = d ! j" "chain d' (p + l) p ts"
    and ts: "live_entries ts = live_entries [r] @ [(name, of_int ino)]" by blast
  have hd: "dir_holds d' (rss[k := xs @ ts @ ys])"
    using d'(2-4) by (intro dir_holds_replace [OF h k]) (auto simp: p_def r)
  obtain as cs where "dir_list rss = as @ live_entries [r] @ cs" "dir_list (rss[k := xs @ ts @ ys]) = as @ live_entries ts @ cs"
    using dir_list_update [OF k, of ts] by blast
  then have "\<exists>as' cs'. dir_list rss = as' @ cs' \<and> dir_list (rss[k := xs @ ts @ ys]) = as' @ (name, of_int ino) # cs'"
    using ts by (intro exI [of _ "as @ live_entries [r]"] exI [of _ cs]) simp
  then show ?thesis using d' hd unfolding inserted_def by auto
qed

lemma dir_holds_append:
  assumes "dir_holds d rss" "length e = 512" "chain e 512 0 rs"
  shows "dir_holds (d @ e) (rss @ [rs])"
proof -
  have l: "length d = 512 * length rss" using assms(1) by (simp add: dir_holds_def)
  have c: "chain (d @ e) (length d + 512) (length d) rs"
    using chain_cut [of "length d" 512 "d @ e" 0 rs] assms(2,3) by simp
  have t: "take (length d) (drop 0 (d @ e)) = d" by simp
  have "chain (d @ e) (512 * k + 512) (512 * k) (rss ! k)" if "k < length rss" for k
  proof -
    have "chain d (512 * k + 512) (512 * k) (rss ! k)" using assms(1) that by (simp add: dir_holds_def)
    then have "chain (take 512 (drop (512 * k) d)) 512 0 (rss ! k)" using chain_cut [of "512 * k" 512 d 0] l that by simp
    moreover have "take 512 (drop (512 * k) (d @ e)) = take 512 (drop (512 * k) d)" using l that by simp
    ultimately show ?thesis using chain_cut [of "512 * k" 512 "d @ e" 0] l that by simp
  qed
  then show ?thesis using c l assms(2) by (auto simp: dir_holds_def nth_append less_Suc_eq)
qed

lemma insert_new_block:
  assumes h: "dir_holds d rss" and n: "length name \<le> 255" "(of_int ino :: u32) \<noteq> 0"
    and f: "find_insert_slot d (length d) name = Some (Some (fresh_slot (length d)))"
  shows "\<exists>d' rss'. insert_entry d (length d) ino name = Some (Inr d') \<and> inserted d rss name (of_int ino) d' rss'"
proof -
  let ?n = "ufs_dirsiz (length name)" let ?z = "replicate 512 0 :: bytes"
  have nn: "?n \<le> 267" "8 + length name \<le> ?n" using n ufs_dirsiz_bounds [of "length name"] by auto
  have "rec_ok (of_int 0, 512 - ?n, [])" unfolding rec_ok.simps using nn by auto
  then obtain fl where fl: "encode_entry 0 [] (512 - ?n) = Some fl" "length fl = 512 - ?n" "rec_at fl 0 (0, 512 - ?n, [])"
    using encode_entry_rec [of 0 "512 - ?n" "[]"] by auto
  have "rec_ok (of_int ino, ?n, name)" unfolding rec_ok.simps using nn n by simp
  then obtain raw where raw: "encode_entry ino name ?n = Some raw" "length raw = ?n" "rec_at raw 0 (of_int ino, ?n, name)"
    using encode_entry_rec [of ino ?n name] by auto
  have n8: "8 \<le> 512 - ?n" using nn(1) by simp
  have up: "upd (upd (d @ ?z) (length d + ?n) fl) (length d) raw = d @ raw @ fl"
    using fl(2) raw(2) nn by (intro nth_equalityI) (auto simp: upd_nth nth_append)
  have "insert_entry d (length d) ino name = Some (Inr (d @ raw @ fl))"
    using nn n8 fl(1,2) raw(1,2)
    by (simp add: insert_entry_def f fresh_slot_def Let_def copy_at_upd up [symmetric] max_absorb1 max_absorb2)
  moreover have "chain (raw @ fl) 512 0 [(of_int ino, ?n, name), (0, 512 - ?n, [])]"
  proof -
    have e: "raw @ fl = upd (upd ?z ?n fl) 0 raw" using fl(2) raw(2) nn by (intro nth_equalityI) (auto simp: upd_nth nth_append)
    have "rec_at (upd (upd ?z ?n fl) 0 raw) 0 (of_int ino, ?n, name)" using raw nn by (intro rec_at_upd) simp_all
    moreover have "rec_at (upd ?z ?n fl) ?n (0, 512 - ?n, [])" using fl nn by (intro rec_at_upd) simp_all
    then have "rec_at (upd (upd ?z ?n fl) 0 raw) ?n (0, 512 - ?n, [])"
      by (rule rec_at_cong) (use raw nn in \<open>simp_all add: upd_nth\<close>)
    ultimately show ?thesis using nn unfolding e by simp
  qed
  then have "dir_holds (d @ raw @ fl) (rss @ [[(of_int ino, ?n, name), (0, 512 - ?n, [])]])"
    using dir_holds_append [OF h] fl(2) raw(2) nn by simp
  ultimately show ?thesis using fl(2) raw(2) nn n(2) unfolding inserted_def
    by (intro exI [of _ "d @ raw @ fl"] exI [of _ "rss @ [[(of_int ino, ?n, name), (0, 512 - ?n, [])]]"])
      (auto simp: dir_list_def)
qed

lemma insert_entry_holds:
  assumes h: "dir_holds d rss" and n: "length name \<le> 255" "(of_int ino :: u32) \<noteq> 0"
  shows "\<exists>d' rss'. insert_entry d (length d) ino name = Some (Inr d') \<and> inserted d rss name (of_int ino) d' rss'"
  using find_slot_holds [OF h n(1)] insert_in_block [OF h n] insert_new_block [OF h n] by blast

section \<open>Removal\<close>

lemma chain_replace_list:
  assumes "chain d m off (xs @ ms @ ys)" "length d' = length d"
    and "\<And>k. k < off + sum_list (map dlen xs) \<or> off + sum_list (map dlen xs) + sum_list (map dlen ms) \<le> k \<Longrightarrow> d' ! k = d ! k"
    and "chain d' (off + sum_list (map dlen xs) + sum_list (map dlen ms)) (off + sum_list (map dlen xs)) ts"
  shows "chain d' m off (xs @ ts @ ys)"
proof -
  let ?o = "off + sum_list (map dlen xs)" let ?e = "?o + sum_list (map dlen ms)"
  have c: "chain d ?o off xs" "chain d m ?e ys" using assms(1) by (simp_all add: chain_append add.assoc)
  have "chain d' ?o off xs" "chain d' m ?e ys"
    using assms(2,3) by (auto intro!: chain_cong [OF c(1)] chain_cong [OF c(2)])
  then show ?thesis using assms(4) chain_end [OF assms(4)] by (simp add: chain_append)
qed

lemma dir_records_append: "dir_records off (xs @ ys) = dir_records off xs @ dir_records (off + sum_list (map dlen xs)) ys"
  by (induction xs arbitrary: off) (simp_all add: add.assoc)

text \<open>A record the removal looks for: live, with a name that is displayed as \<open>name\<close>.\<close>

fun shows_as :: "rstr \<Rightarrow> drec \<Rightarrow> bool" where
  "shows_as name (i, l, nm) \<longleftrightarrow> i \<noteq> 0 \<and> decode_ascii_replace nm = name"

lemma remove_loop_skip:
  "\<forall>r \<in> set ys. \<not> shows_as name r \<Longrightarrow> ys \<noteq> [] \<Longrightarrow>
   remove_loop d name prev (dir_records off (ys @ zs)) =
     remove_loop d name
       (let o' = off + sum_list (map dlen (butlast ys)) in if o' mod UFS_DIRBLKSIZ = 0 then None else Some (entry_of_rec o' (last ys)))
       (dir_records (off + sum_list (map dlen ys)) zs)"
proof (induction ys arbitrary: off prev)
  case (Cons r ys)
  obtain i l nm where r: "r = (i, l, nm)" by (cases r)
  have "remove_loop d name prev (dir_records off ((r # ys) @ zs)) =
      remove_loop d name (if off mod 512 = 0 then None else Some (entry_of_rec off r)) (dir_records (off + l) (ys @ zs))"
    using Cons.prems(1) by (auto simp: r)
  then show ?case using Cons.IH [of _ "off + l"] Cons.prems(1) by (cases "ys = []") (simp_all add: r Let_def add.assoc)
qed simp

lemma remove_loop_none: "\<forall>r \<in> set rs. \<not> shows_as name r \<Longrightarrow> remove_loop d name prev (dir_records off rs) = Some None"
  using remove_loop_skip [of rs name d prev off "[]"] by (cases "rs = []") auto

lemma remove_free:
  assumes "chain d 512 0 (ys @ (i, l, nm) # zs)" "length d = 512" "shows_as name (i, l, nm)"
    and "prev = None"
  defines "p \<equiv> sum_list (map dlen ys)"
  shows "\<exists>d'. remove_loop d name prev (dir_records p ((i, l, nm) # zs)) = Some (Some d') \<and> length d' = 512
    \<and> chain d' 512 0 (ys @ [(0, l, [])] @ zs)"
proof -
  have ra: "rec_at d p (i, l, nm)" using assms(1) by (simp add: chain_append p_def)
  have l: "8 \<le> l" "l < 65536" using rec_dlen [OF ra] by simp_all
  have pl: "p + l \<le> length d" using chain_end [OF assms(1)] assms(2) by (simp add: p_def)
  have "rec_ok (of_int 0, l, [])" unfolding rec_ok.simps using l by simp
  then obtain raw where raw: "encode_entry 0 [] l = Some raw" "length raw = l" "rec_at raw 0 (0, l, [])"
    using encode_entry_rec [of 0 l "[]"] by auto
  have "unat (of_nat l :: u16) = l" using l by (simp add: unat_of_nat)
  then have "remove_loop d name prev (dir_records p ((i, l, nm) # zs)) = Some (Some (upd d p raw))"
    using assms(3,4) raw pl by (simp add: copy_at_upd)
  moreover have "chain (upd d p raw) 512 0 (ys @ [(0, l, [])] @ zs)"
    using rec_at_upd [OF raw(3)] raw(2) pl
    by (intro chain_replace [OF assms(1)]) (auto simp: p_def upd_nth)
  ultimately show ?thesis using assms(2) by auto
qed

lemma remove_merge:
  assumes c: "chain d 512 0 (ys @ (j, lq, nq) # (i, l, nm) # zs)" and ld: "length d = 512" and m: "shows_as name (i, l, nm)"
  defines "o' \<equiv> sum_list (map dlen ys)"
  shows "\<exists>d'. remove_loop d name (Some (entry_of_rec o' (j, lq, nq))) (dir_records (o' + lq) ((i, l, nm) # zs)) = Some (Some d')
    \<and> length d' = 512 \<and> chain d' 512 0 (ys @ [(j, lq + l, nq)] @ zs)"
proof -
  have ra: "rec_at d o' (j, lq, nq)" "rec_at d (o' + lq) (i, l, nm)" using c by (simp_all add: chain_append o'_def)
  have l: "8 \<le> l" "8 \<le> lq" using rec_dlen [OF ra(1)] rec_dlen [OF ra(2)] by simp_all
  have pl: "o' + lq + l \<le> 512" using chain_end [OF c] by (simp add: o'_def)
  let ?d = "upd d (o' + 4) (le16 (of_nat lq + of_nat l))"
  have same: "o' div 512 = 0" "(o' + lq) div 512 = 0" using pl l by simp_all
  have "remove_loop d name (Some (entry_of_rec o' (j, lq, nq))) (dir_records (o' + lq) ((i, l, nm) # zs)) = Some (Some ?d)"
  proof -
    have "put_u16 d (o' + 4) (of_nat lq + of_nat l) = Some ?d" using pl ld l by (simp add: put_upd)
    then show ?thesis using m same by simp
  qed
  moreover have "rec_at ?d o' (j, lq + l, nq)"
  proof -
    have k: "8 + length nq \<le> lq" using ra(1) by (simp add: rec_at.simps rec_ok.simps)
    have "of_nat lq + of_nat l = (of_nat (lq + l) :: u16)" by simp
    then show ?thesis using ra(1) k pl ld l unfolding rec_at.simps rec_ok.simps by (auto simp: upd_simps)
  qed
  then have t: "chain ?d (o' + (lq + l)) o' [(j, lq + l, nq)]" by simp
  have u: "?d ! k = d ! k" if "k < o' \<or> o' + (lq + l) \<le> k" for k
    using that pl l ld by (subst upd_nth) auto
  have "chain ?d 512 0 (ys @ [(j, lq + l, nq)] @ zs)"
    by (rule chain_replace_list [of d 512 0 ys "[(j, lq, nq), (i, l, nm)]"]) (use c t u in \<open>simp_all add: o'_def\<close>)
  ultimately show ?thesis using ld by auto
qed

definition removed_rec :: "rstr \<Rightarrow> drec list \<Rightarrow> drec list \<Rightarrow> bool" where
  "removed_rec name rs rs' \<longleftrightarrow> (\<exists>ys r zs. rs = ys @ r # zs \<and> (\<forall>y \<in> set ys. \<not> shows_as name y) \<and> shows_as name r
     \<and> live_entries rs' = live_entries ys @ live_entries zs)"

lemma remove_entry_block:
  assumes c: "chain d 512 0 rs" and l: "length d = 512"
  shows "(remove_entry d 512 name = Some None \<and> (\<forall>r \<in> set rs. \<not> shows_as name r))
    \<or> (\<exists>d' rs'. remove_entry d 512 name = Some (Some d') \<and> length d' = 512 \<and> chain d' 512 0 rs' \<and> removed_rec name rs rs')"
proof (cases "\<exists>r \<in> set rs. shows_as name r")
  case False
  then show ?thesis
    using records_from_chain [OF c] l remove_loop_none [of rs name d None 0] by (simp add: remove_entry_def iter_directory_records_def)
next
  case True
  have e: "remove_entry d 512 name = remove_loop d name None (dir_records 0 rs)"
    using records_from_chain [OF c] l by (simp add: remove_entry_def iter_directory_records_def)
  obtain ys r zs where rs: "rs = ys @ r # zs" "shows_as name r" "\<forall>y \<in> set ys. \<not> shows_as name y"
    using split_list_first_prop [OF True] by blast
  obtain i ln nm where r: "r = (i, ln, nm)" by (cases r)
  have c': "chain d 512 0 (ys @ (i, ln, nm) # zs)" using c by (simp add: rs r)
  have fr: "\<exists>d' rs'. remove_loop d name None (dir_records (sum_list (map dlen ys)) ((i, ln, nm) # zs)) = Some (Some d')
      \<and> length d' = 512 \<and> chain d' 512 0 rs' \<and> removed_rec name rs rs'"
  proof -
    obtain d' where d': "remove_loop d name None (dir_records (sum_list (map dlen ys)) ((i, ln, nm) # zs)) = Some (Some d')"
      "length d' = 512" "chain d' 512 0 (ys @ [(0, ln, [])] @ zs)"
      using remove_free [OF c' l, of name None] rs(2) by (auto simp: r)
    moreover have "removed_rec name rs (ys @ [(0, ln, [])] @ zs)"
      unfolding removed_rec_def by (rule exI [of _ ys], rule exI [of _ r], rule exI [of _ zs]) (use rs in simp)
    ultimately show ?thesis by blast
  qed
  show ?thesis
  proof (cases "ys = []")
    case True
    then show ?thesis using fr by (simp add: e rs(1) r)
  next
    case ne: False
    let ?o = "sum_list (map dlen (butlast ys))"
    have skip: "remove_loop d name None (dir_records 0 rs) =
        remove_loop d name (if ?o mod 512 = 0 then None else Some (entry_of_rec ?o (last ys)))
          (dir_records (sum_list (map dlen ys)) ((i, ln, nm) # zs))"
      using remove_loop_skip [OF rs(3) ne, of d None 0 "r # zs"] by (simp add: rs(1) r Let_def)
    show ?thesis
    proof (cases "?o mod 512 = 0")
      case True
      then show ?thesis using fr by (simp add: e skip)
    next
      case nz: False
      obtain j lq nq where q: "last ys = (j, lq, nq)" by (cases "last ys")
      have ys: "ys = butlast ys @ [(j, lq, nq)]" using ne q by (metis append_butlast_last_id)
      have s: "sum_list (map dlen ys) = ?o + lq" by (subst ys) simp
      have c2: "chain d 512 0 (butlast ys @ (j, lq, nq) # (i, ln, nm) # zs)" using c' by (subst (asm) ys) simp
      obtain d' where d': "remove_loop d name (Some (entry_of_rec ?o (j, lq, nq))) (dir_records (?o + lq) ((i, ln, nm) # zs)) = Some (Some d')"
        "length d' = 512" "chain d' 512 0 (butlast ys @ [(j, lq + ln, nq)] @ zs)"
        using remove_merge [OF c2 l] rs(2) unfolding r by blast
      have "live_entries (butlast ys @ [(j, lq + ln, nq)] @ zs) = live_entries ys @ live_entries zs" by (subst (2) ys) simp
      then have "removed_rec name rs (butlast ys @ [(j, lq + ln, nq)] @ zs)"
        unfolding removed_rec_def by (intro exI [of _ ys] exI [of _ r] exI [of _ zs]) (use rs in simp)
      then show ?thesis using d' nz by (auto simp: e skip q s)
    qed
  qed
qed

section \<open>Damaged directories\<close>

text \<open>The decoders never panic on bytes that are there, whatever they hold.\<close>

lemma decode_header_total: "m \<le> length d \<Longrightarrow> decode_directory_header d off m \<noteq> None"
  using u32_total [of off d] u16_total [of "off + 4" d] u16_total [of "off + 6" d]
  by (auto simp: decode_directory_header_def bind_eq_None_conv)

lemma decode_entry_total: "m \<le> length d \<Longrightarrow> decode_directory_entry d off m \<noteq> None"
  using decode_header_total [of m d off] decode_header_length [of d off m]
  by (fastforce simp: decode_directory_entry_def Let_def subslice_def split: option.split bind_split)

lemma records_from_total:
  assumes "m \<le> length d"
  shows "\<exists>es. records_from d m off = Some es \<and> sorted_wrt (<) (map e_offset es) \<and> length es \<le> m - off
    \<and> (\<forall>e \<in> set es. off \<le> e_offset e \<and> 0 < unat (e_record_length e)
         \<and> e_offset e + unat (e_record_length e) \<le> m)"
  using assms
proof (induction d m off rule: records_from.induct)
  case (1 d m off)
  show ?case
  proof (cases "off + 8 \<le> m \<and> (\<exists>e. decode_directory_entry d off m = Some (Some e))")
    case True
    then obtain e where e: "decode_directory_entry d off m = Some (Some e)" and o: "off + UFS_DIRENT_HEADER_SIZE \<le> m" by auto
    note l = decode_entry_length [OF e]
    obtain es where es: "records_from d m (off + unat (e_record_length e)) = Some es" "sorted_wrt (<) (map e_offset es)"
      "length es \<le> m - (off + unat (e_record_length e))"
      "\<forall>x \<in> set es. off + unat (e_record_length e) \<le> e_offset x \<and> 0 < unat (e_record_length x)
         \<and> e_offset x + unat (e_record_length x) \<le> m"
      using 1(1) [OF o e refl 1(2)] by blast
    have "records_from d m off = Some (e # es)" using e o es(1) by (subst records_from.simps) simp
    moreover have "Suc (length es) \<le> m - off" using es(3) l by linarith
    ultimately show ?thesis using es(2,4) l by (intro exI [of _ "e # es"]) force
  next
    case False
    then have "records_from d m off = Some []"
      using decode_entry_total [OF 1(2), of off] by (subst records_from.simps) (auto split: option.split)
    then show ?thesis by simp
  qed
qed

lemma scan_block_total: "m \<le> length d \<Longrightarrow> \<exists>r. scan_block d m name c = Some r"
proof (induction d m name c rule: scan_block.induct)
  case (1 d m name c)
  show ?case
  proof (cases "c + 8 \<le> m \<and> (\<exists>h. decode_directory_header d c m = Some (Some h))")
    case True
    then obtain h where h: "decode_directory_header d c m = Some (Some h)" and c: "c + UFS_DIRENT_HEADER_SIZE \<le> m" by auto
    note l = decode_header_length [OF h]
    show ?thesis
      using 1(1) [OF c h refl, of False] l c h 1(2) by (subst scan_block.simps) (auto simp: Let_def subslice_def)
  next
    case False
    then show ?thesis
      using decode_header_total [OF 1(2), of c] by (subst scan_block.simps) (auto split: option.split)
  qed
qed


text \<open>C23: Directory scans end on any bytes, damaged ones included. Iterating the records of a buffer never panics and
  yields at most one record per byte, at strictly increasing offsets and inside the buffer; the scan of a block for a
  name always comes to a result.\<close>

theorem directory_scan_total:
  "(\<exists>es. iter_directory_records d n = Some es \<and> sorted_wrt (<) (map e_offset es) \<and> length es \<le> min (length d) n
     \<and> list_all (\<lambda>e. 0 < unat (e_record_length e) \<and> e_offset e + unat (e_record_length e) \<le> min (length d) n) es)
   \<and> (\<exists>r. scan_block d (min (length d) n) name c = Some r)"
proof
  obtain es where "records_from d (min (length d) n) 0 = Some es" "sorted_wrt (<) (map e_offset es)" "length es \<le> min (length d) n - 0"
    "\<forall>e \<in> set es. 0 \<le> e_offset e \<and> 0 < unat (e_record_length e)
       \<and> e_offset e + unat (e_record_length e) \<le> min (length d) n"
    using records_from_total [of "min (length d) n" d 0] min.cobounded1 by blast
  then show "\<exists>es. iter_directory_records d n = Some es \<and> sorted_wrt (<) (map e_offset es) \<and> length es \<le> min (length d) n
     \<and> list_all (\<lambda>e. 0 < unat (e_record_length e) \<and> e_offset e + unat (e_record_length e) \<le> min (length d) n) es"
    unfolding iter_directory_records_def list_all_iff diff_zero by blast
qed (rule scan_block_total, rule min.cobounded1)

text \<open>A record shorter than its header can be decoded but not be freed: the removal of such a record panics.\<close>

lemma remove_short_record_panics:
  "remove_entry [5, 0, 0, 0, 4, 0, 1, 0, 97, 0, 0, 0] 12 [97] = None"
proof -
  let ?d = "[5, 0, 0, 0, 4, 0, 1, 0, 97, 0, 0, 0] :: bytes"
  have h: "decode_directory_header ?d 0 12 = Some (Some \<lparr> h_inode = 5, h_record_length = 4, h_name_length = 1 \<rparr>)"
    "decode_directory_header ?d 4 12 = Some None"
    by (simp_all add: decode_directory_header_def u32_def u16_def get_at_def)
  have "decode_directory_entry ?d 0 12 = Some (Some \<lparr> e_inode = 5, e_record_length = 4, e_name_length = 1, e_name = [97], e_offset = 0 \<rparr>)"
    "decode_directory_entry ?d 4 12 = Some None"
    by (simp_all add: decode_directory_entry_def h subslice_def decode_ascii_replace_def)
  then have "records_from ?d 12 0 = Some [\<lparr> e_inode = 5, e_record_length = 4, e_name_length = 1, e_name = [97], e_offset = 0 \<rparr>]"
    by (subst records_from.simps, simp, subst records_from.simps, simp)
  moreover have "encode_entry 0 [] 4 = None" by (simp add: encode_entry_def put_u16_def put_u32_def copy_at_def)
  moreover have "min (length ?d) 12 = 12" by simp
  ultimately show ?thesis by (simp only: remove_entry_def iter_directory_records_def) simp
qed

end
