(* ===== verification/Dir_Image.thy ===== *)
theory Dir_Image
  imports File_Write Dir_Correct
begin

text \<open>
  Directories on an image: the blocks of a stored directory are where the lookup of
  \<^verbatim>\<open>crates/svr4-ufs/src/reader.rs\<close> and the block editor of \<^verbatim>\<open>crates/svr4-ufs/src/write.rs\<close> look for them,
  lookup computes the map of the directory, and deletion removes one binding in place without touching any other
  file.
\<close>

section \<open>Blocks of a stored directory\<close>

lemma block_multiple: "layout_ok u \<Longrightarrow> 512 dvd bs u"
proof -
  assume u: "layout_ok u"
  note g = geometry_facts [OF layout_facts(1) [OF u]]
  have "(512 :: int) dvd bsize (sb u)" unfolding g(9) g(5) by simp
  then have "(512 :: int) dvd int (bs u)" using layout_facts(7) [OF u] by simp
  then show ?thesis by presburger
qed

text \<open>A directory block lies inside one allocation of the directory.\<close>

lemma block_place:
  assumes u: "layout_ok u" and k: "512 * k + 512 \<le> length d" "length d \<le> n * bs u"
  shows "512 * k div bs u < n" "512 * k mod bs u + 512 \<le> bs u"
    "512 * k mod bs u + 512 \<le> length (take (bs u) (drop (512 * k div bs u * bs u) d))"
    "512 * k div bs u * bs u + 512 * k mod bs u = 512 * k"
proof -
  obtain c where c: "bs u = 512 * c" using block_multiple [OF u] by (auto elim: dvdE)
  have b: "0 < bs u" using layout_facts(5) [OF u] by simp
  then have c0: "0 < c" using c by simp
  have "512 * k < n * bs u" using k by linarith
  then show q: "512 * k div bs u < n" by (rule less_mult_imp_div_less)
  show e: "512 * k div bs u * bs u + 512 * k mod bs u = 512 * k" by (rule div_mult_mod_eq)
  have "512 * k mod bs u = 512 * (k mod c)" unfolding c by (rule mult_mod_right [symmetric])
  moreover have "k mod c + 1 \<le> c" using c0 by (simp add: Suc_leI)
  then have "512 * (k mod c) + 512 \<le> 512 * c" by linarith
  ultimately show m: "512 * k mod bs u + 512 \<le> bs u" unfolding c by simp
  show "512 * k mod bs u + 512 \<le> length (take (bs u) (drop (512 * k div bs u * bs u) d))"
  proof -
    have "512 * k mod bs u + 512 \<le> length d - 512 * k div bs u * bs u" using k(1) e by linarith
    then show ?thesis using m by simp
  qed
qed

lemma dir_block_read:
  assumes u: "layout_ok u" and s: "stored u as d img" and k: "512 * k + 512 \<le> length d"
  defines "p \<equiv> fboff u (fst (as ! (512 * k div bs u))) + 512 * k mod bs u"
  shows "subslice img p (p + 512) = Some (take 512 (drop (512 * k) d))"
proof -
  let ?q = "512 * k div bs u" let ?x = "512 * k mod bs u" let ?t = "take (bs u) (drop (?q * bs u) d)"
  note pl = block_place [OF u k stored_covers [OF s]]
  have "subslice img (fboff u (fst (as ! ?q))) (fboff u (fst (as ! ?q)) + length ?t) = Some ?t" by (rule stored_nth [OF s pl(1)])
  then have "subslice img (fboff u (fst (as ! ?q)) + ?x) (fboff u (fst (as ! ?q)) + (?x + 512)) = Some (take 512 (drop ?x ?t))"
    using subslice_sub [of img _ _ ?t ?x "?x + 512"] pl(3) by simp
  moreover have "take 512 (drop ?x ?t) = take 512 (drop (512 * k) d)"
    using pl(2,4) by (simp add: drop_take add.commute)
  ultimately show ?thesis by (simp add: p_def add.assoc)
qed

section \<open>Lookup\<close>

text \<open>A well-formed directory on the image, with its bytes and the records of its blocks.\<close>

definition dir_ok :: "ufs \<Rightarrow> image \<Rightarrow> inode \<Rightarrow> u32 list \<Rightarrow> u32 list \<Rightarrow> bytes \<Rightarrow> drec list list \<Rightarrow> bool" where
  "dir_ok u img i ds ps d rss \<longleftrightarrow> file_ok u img i ds ps \<and> stored u (file_allocs u i ds) d img
     \<and> length d = unat (di_size i) \<and> dir_holds d rss"

lemma dir_allocs:
  assumes u: "layout_ok u" and f: "file_ok u img i ds ps" and q: "q < length (file_allocs u i ds)"
  shows "length ds = length (file_allocs u i ds)" "fst (file_allocs u i ds ! q) = uint (ds ! q)"
    "usize (data_block_offset (sb u) (start_offset u) (uint (ds ! q))) = fboff u (fst (file_allocs u i ds ! q))"
    "fboff u (fst (file_allocs u i ds ! q)) < 2 ^ 63" "run_ok u (file_allocs u i ds ! q)"
proof -
  have l: "length ds = length (allocation_byte_sizes (sb u) (uint (di_size i)))" using f by (simp add: file_ok_def)
  then show "length ds = length (file_allocs u i ds)" by (simp add: file_allocs_def)
  show e: "fst (file_allocs u i ds ! q) = uint (ds ! q)" using q l by (simp add: file_allocs_def)
  show r: "run_ok u (file_allocs u i ds ! q)" using file_allocs_ok(1) [OF u f] q by simp
  then have "block_addr u (uint (ds ! q))" using e by (simp add: run_ok_def)
  note b = block_addr_bounds [OF u this]
  show "usize (data_block_offset (sb u) (start_offset u) (uint (ds ! q))) = fboff u (fst (file_allocs u i ds ! q))"
    using b(5) e by simp
  show "fboff u (fst (file_allocs u i ds ! q)) < 2 ^ 63"
    unfolding e using b(1,2) by (intro data_block_offset_fboff(3) [OF u]) auto
qed

text \<open>Where the code finds the directory block \<open>k\<close>.\<close>

definition block_at :: "ufs \<Rightarrow> inode \<Rightarrow> u32 list \<Rightarrow> nat \<Rightarrow> nat" where
  "block_at u i ds k = fboff u (fst (file_allocs u i ds ! (512 * k div bs u))) + 512 * k mod bs u"

lemma block_addressing:
  assumes u: "layout_ok u" and f: "file_ok u img i ds ps" and s: "stored u (file_allocs u i ds) d img"
    and k: "512 * k + 512 \<le> length d"
  shows "512 * k div bs u < length ds"
    "uadd (usize (data_block_offset (sb u) (start_offset u) (uint (ds ! (512 * k div bs u))))) (512 * k mod bs u) = block_at u i ds k"
proof -
  note q = block_place(1) [OF u k stored_covers [OF s]] and da = dir_allocs [OF u f block_place(1) [OF u k stored_covers [OF s]]]
  show "512 * k div bs u < length ds" using q da(1) by simp
  have "512 * k mod bs u < 2 ^ 62" using block_place(2) [OF u k stored_covers [OF s]] layout_facts(6) [OF u] by simp
  then show "uadd (usize (data_block_offset (sb u) (start_offset u) (uint (ds ! (512 * k div bs u))))) (512 * k mod bs u) = block_at u i ds k"
    using da(3,4) by (simp add: block_at_def uadd_eq)
qed

lemma lookup_blocks_holds:
  assumes u: "layout_ok u" and d: "dir_ok u img i ds ps d rss" and ks: "\<forall>k \<in> set ks. k < length rss"
  shows "lookup_blocks img u ds (length d) name (map (\<lambda>k. k * 512) ks) =
    (case map_of (concat (map (\<lambda>k. live_entries (rss ! k)) ks)) name of
       None \<Rightarrow> Some None | Some ino \<Rightarrow> map_option (map_option (Pair ino)) (read_inode img u (uint ino)))"
  using ks
proof (induction ks)
  case (Cons k ks)
  have f: "file_ok u img i ds ps" "stored u (file_allocs u i ds) d img" "dir_holds d rss" using d by (auto simp: dir_ok_def)
  have k: "k < length rss" "512 * k + 512 \<le> length d" using f(3) Cons.prems by (auto simp: dir_holds_def)
  note ad = block_addressing [OF u f(1,2) k(2)]
  have rd: "subslice img (block_at u i ds k) (block_at u i ds k + 512) = Some (take 512 (drop (512 * k) d))"
    unfolding block_at_def by (rule dir_block_read [OF u f(2) k(2)])
  have "chain d (512 * k + 512) (512 * k) (rss ! k)" using f(3) k(1) by (simp add: dir_holds_def)
  then have c: "chain (take 512 (drop (512 * k) d)) 512 0 (rss ! k)" using chain_cut [of "512 * k" 512 d 0] k(2) by simp
  note sc = scan_block_chain [OF c, of name]
  have sp: "min 512 (length d - 512 * k) = 512" using k(2) by simp
  have ih: "lookup_blocks img u ds (length d) name (map (\<lambda>k. k * 512) ks) =
    (case map_of (concat (map (\<lambda>k. live_entries (rss ! k)) ks)) name of
       None \<Rightarrow> Some None | Some ino \<Rightarrow> map_option (map_option (Pair ino)) (read_inode img u (uint ino)))"
    using Cons.IH Cons.prems by simp
  have "lookup_blocks img u ds (length d) name (map (\<lambda>k. k * 512) (k # ks)) =
     (case map_of (live_entries (rss ! k)) name of
        Some ino \<Rightarrow> map_option (map_option (Pair ino)) (read_inode img u (uint ino))
      | None \<Rightarrow> lookup_blocks img u ds (length d) name (map (\<lambda>k. k * 512) ks))"
  proof -
    have bm: "x \<bind> (\<lambda>c. Some (h c)) = map_option h x" for x :: "inode option option" and h :: "inode option \<Rightarrow> (u32 \<times> inode) option"
      by (cases x) simp_all
    have n: "\<not> length ds \<le> 512 * k div bs u" using ad(1) by simp
    show ?thesis
      unfolding list.map lookup_blocks.simps Let_def mult.commute [of k 512] layout_facts(4) [OF u] ad(2) sp bm
      by (simp only: n if_False rd sc bind.bind_lunit)
  qed
  then show ?case using ih by (auto simp: map_add_def split: option.split)
qed simp

lemma lookup_dir_ok:
  assumes u: "layout_ok u" and d: "dir_ok u img i ds ps d rss"
  shows "lookup_directory_entry img u i name =
    (case map_of (dir_list rss) name of
       None \<Rightarrow> Some None | Some ino \<Rightarrow> map_option (map_option (Pair ino)) (read_inode img u (uint ino)))"
proof -
  have f: "inode_data_blocks img u i = Some ds" "length d = unat (di_size i)" "length d = 512 * length rss"
    using d by (auto simp: dir_ok_def file_ok_def dir_holds_def)
  have e: "map (\<lambda>k. live_entries (rss ! k)) [0..<length rss] = map live_entries rss"
    by (rule nth_equalityI) simp_all
  show ?thesis
  proof (cases "length d = 0")
    case True
    then show ?thesis using f by (simp add: lookup_directory_entry_def dir_list_def)
  next
    case False
    have "lookup_directory_entry img u i name = lookup_blocks img u ds (length d) name (dir_block_offsets (length d))"
      using f(1,2) False by (simp add: lookup_directory_entry_def Let_def)
    also have "dir_block_offsets (length d) = map (\<lambda>k. k * 512) [0..<length rss]" unfolding f(3) by (rule dir_offsets)
    finally show ?thesis using lookup_blocks_holds [OF u d, of "[0..<length rss]"] by (simp add: dir_list_def e)
  qed
qed

section \<open>Writing a directory block in place\<close>

lemma file_run:
  assumes u: "layout_ok u" and f: "file_ok u img i ds ps" and q: "q < length (file_allocs u i ds)"
  shows "alloc_run u (file_allocs u i ds ! q) \<subseteq> file_cells u i ds ps"
    "j < length (file_allocs u i ds) \<Longrightarrow> j \<noteq> q \<Longrightarrow> alloc_run u (file_allocs u i ds ! j) \<inter> alloc_run u (file_allocs u i ds ! q) = {}"
    "frag_set u ps \<inter> alloc_run u (file_allocs u i ds ! q) = {}"
proof -
  have m: "file_allocs u i ds ! q \<in> set (file_allocs u i ds)" using q by simp
  then show "alloc_run u (file_allocs u i ds ! q) \<subseteq> file_cells u i ds ps" by (auto simp: file_cells_def alloc_runs_def)
  have ap: "apart_runs u (file_allocs u i ds)" "alloc_runs u (block_allocs u ps) \<inter> alloc_runs u (file_allocs u i ds) = {}"
    using f by (auto simp: file_ok_def)
  show "alloc_run u (file_allocs u i ds ! j) \<inter> alloc_run u (file_allocs u i ds ! q) = {}"
    if "j < length (file_allocs u i ds)" "j \<noteq> q"
  proof (cases "j < q")
    case True
    then show ?thesis using sorted_wrt_nth_less [OF ap(1) [unfolded apart_runs_def] True] q by simp
  next
    case False
    then have "q < j" using that(2) by simp
    then show ?thesis using sorted_wrt_nth_less [OF ap(1) [unfolded apart_runs_def], of q j] that(1) by (simp add: Int_commute)
  qed
  show "frag_set u ps \<inter> alloc_run u (file_allocs u i ds ! q) = {}"
    using ap(2) m block_allocs_facts(1) [OF u, of ps] by (auto simp: alloc_runs_def)
qed

text \<open>The bytes of one allocation after a block of the directory has been replaced.\<close>

lemma other_alloc_bytes:
  assumes u: "layout_ok u" and k: "512 * k + 512 \<le> length d" "length d \<le> n * bs u" and b: "length blk = 512"
    and j: "j \<noteq> 512 * k div bs u"
  shows "take (bs u) (drop (j * bs u) (upd d (512 * k) blk)) = take (bs u) (drop (j * bs u) d)"
proof (rule nth_equalityI)
  let ?q = "512 * k div bs u"
  note pl = block_place [OF u k]
  have dis: "j * bs u + bs u \<le> ?q * bs u \<or> ?q * bs u + bs u \<le> j * bs u"
    using j by (metis add.commute linorder_neqE_nat mult_Suc mult_le_mono1 Suc_leI)
  fix m assume m: "m < length (take (bs u) (drop (j * bs u) (upd d (512 * k) blk)))"
  have "\<not> (512 * k \<le> j * bs u + m \<and> j * bs u + m < 512 * k + 512)"
    using dis by (elim disjE) (use m pl(2,4) in \<open>simp_all only: length_take length_drop upd_length min_less_iff_conj\<close>, linarith+)
  moreover have "j * bs u \<le> length d" using m by auto
  ultimately show "take (bs u) (drop (j * bs u) (upd d (512 * k) blk)) ! m = take (bs u) (drop (j * bs u) d) ! m"
    using m b k by (auto simp: upd_nth)
qed simp

lemma own_alloc_bytes:
  assumes u: "layout_ok u" and k: "512 * k + 512 \<le> length d" "length d \<le> n * bs u" and b: "length blk = 512"
  defines "q \<equiv> 512 * k div bs u" and "x \<equiv> 512 * k mod bs u"
  assumes m: "m < length (take (bs u) (drop (q * bs u) d))"
  shows "take (bs u) (drop (q * bs u) (upd d (512 * k) blk)) ! m =
    (if x \<le> m \<and> m < x + 512 then blk ! (m - x) else take (bs u) (drop (q * bs u) d) ! m)"
proof -
  have ke: "q * bs u + x = 512 * k" using block_place(4) [OF u k] by (simp add: q_def x_def)
  have "take (bs u) (drop (q * bs u) (upd d (512 * k) blk)) ! m = upd d (512 * k) blk ! (q * bs u + m)" using m by auto
  moreover have "upd d (512 * k) blk ! (q * bs u + m) = (if 512 * k \<le> q * bs u + m \<and> q * bs u + m < 512 * k + 512
      then blk ! (q * bs u + m - 512 * k) else d ! (q * bs u + m))" using b k by (subst upd_nth) simp_all
  moreover have "512 * k \<le> q * bs u + m \<longleftrightarrow> x \<le> m" "q * bs u + m < 512 * k + 512 \<longleftrightarrow> m < x + 512"
    "q * bs u + m - 512 * k = m - x" using ke by linarith+
  moreover have "d ! (q * bs u + m) = take (bs u) (drop (q * bs u) d) ! m" using m by auto
  ultimately show ?thesis by (simp only:)
qed

lemma stored_block:
  assumes u: "layout_ok u" and s: "stored u as d img" and k: "512 * k + 512 \<le> length d" and b: "length blk = 512"
  defines "q \<equiv> 512 * k div bs u" and "x \<equiv> 512 * k mod bs u"
  defines "p \<equiv> fboff u (fst (as ! q)) + x"
  assumes fit: "fboff u (fst (as ! q)) + nat (snd (as ! q)) \<le> length img" and l: "length img' = length img"
    and nth: "\<And>j. img' ! j = (if p \<le> j \<and> j < p + 512 then blk ! (j - p) else img ! j)"
    and same: "\<And>j m. j < length as \<Longrightarrow> j \<noteq> q \<Longrightarrow> int m \<le> snd (as ! j) \<Longrightarrow>
      subslice img' (fboff u (fst (as ! j))) (fboff u (fst (as ! j)) + m) = subslice img (fboff u (fst (as ! j))) (fboff u (fst (as ! j)) + m)"
  shows "stored u as (upd d (512 * k) blk) img'"
  unfolding stored_iff
proof (intro conjI allI impI)
  note c = stored_covers [OF s]
  show "length (upd d (512 * k) blk) \<le> length as * bs u" using c by simp
  fix j assume j: "j < length as"
  let ?t = "\<lambda>d. take (bs u) (drop (j * bs u) d)" let ?o = "fboff u (fst (as ! j))"
  have lt: "length (?t (upd d (512 * k) blk)) = length (?t d)" by simp
  have sj: "subslice img ?o (?o + length (?t d)) = Some (?t d)" "int (length (?t d)) \<le> snd (as ! j)"
    using s j unfolding stored_iff by blast+
  show "int (length (?t (upd d (512 * k) blk))) \<le> snd (as ! j)" using sj(2) unfolding lt .
  show "subslice img' ?o (?o + length (?t (upd d (512 * k) blk))) = Some (?t (upd d (512 * k) blk))"
  proof (cases "j = q")
    case False
    then have "?t (upd d (512 * k) blk) = ?t d" using other_alloc_bytes [OF u k c b] by (simp add: q_def)
    then show ?thesis using sj same [OF j False sj(2)] by simp
  next
    case True
    have le: "?o + length (?t d) \<le> length img" using sj fit True by auto
    have "take (length (?t d)) (drop ?o img) = ?t d" using sj(1) le by (simp add: subslice_def)
    then have tn: "?t d ! m = img ! (?o + m)" if "m < length (?t d)" for m
      using that le nth_take [of m "length (?t d)" "drop ?o img"] nth_drop [of ?o img m] by simp
    have "take (length (?t d)) (drop ?o img') = ?t (upd d (512 * k) blk)"
    proof (rule nth_equalityI)
      fix m assume "m < length (take (length (?t d)) (drop ?o img'))"
      then have m: "m < length (?t d)" by simp
      have "img' ! (?o + m) = (if x \<le> m \<and> m < x + 512 then blk ! (m - x) else ?t d ! m)"
        unfolding nth p_def using tn [OF m] True by auto
      then show "take (length (?t d)) (drop ?o img') ! m = ?t (upd d (512 * k) blk) ! m"
        using own_alloc_bytes [OF u k c b, of m] m le l True by (simp add: q_def x_def)
    qed (use le l in simp)
    then show ?thesis using le lt l by (simp add: subslice_def)
  qed
qed

lemma put_dir_bytes_spec:
  assumes u: "layout_ok u" and f: "file_ok u img i ds ps" and s: "stored u (file_allocs u i ds) d img"
    and o: "own u (A \<union> file_cells u i ds ps) img" "A \<inter> file_cells u i ds ps = {}"
    and k: "512 * k + 512 \<le> length d" and b: "length blk = 512"
  shows "\<exists>img'. put_dir_bytes u ds (512 * k) blk img = Some img' \<and> own u (A \<union> file_cells u i ds ps) img'
    \<and> stable u A img img' \<and> file_ok u img' i ds ps \<and> stored u (file_allocs u i ds) (upd d (512 * k) blk) img'"
proof -
  let ?as = "file_allocs u i ds" let ?q = "512 * k div bs u" let ?x = "512 * k mod bs u" let ?p = "block_at u i ds k"
  note pl = block_place [OF u k stored_covers [OF s]] and ad = block_addressing [OF u f s k]
  note fr = file_run [OF u f pl(1)] and da = dir_allocs [OF u f pl(1)]
  define a where "a = ?as ! ?q"
  define n where "n = snd a div fsize (sb u)"
  note ra = run_okD [OF u da(5), folded a_def, folded n_def]
  have sq: "int (length (take (bs u) (drop (?q * bs u) d))) \<le> snd a" using s pl(1) unfolding stored_iff a_def by blast
  have fit: "fboff u (fst a) + nat (snd a) \<le> length img"
    unfolding ra(3) using o(1) fr(1) ra(1,2) by (intro own_run_fits [OF u o(1)]) (auto simp: alloc_run_def a_def n_def)
  have inn: "?p + 512 \<le> fboff u (fst a) + nat (snd a)" "fboff u (fst a) \<le> ?p"
    using pl(3) sq by (auto simp: block_at_def a_def)
  define img' where "img' = upd img ?p blk"
  have put: "put_dir_bytes u ds (512 * k) blk img = Some img'"
  proof -
    have "get_at ds ?q = Some (ds ! ?q)" using ad(1) by (simp add: get_at_def)
    moreover have "copy_at img ?p blk = Some img'" using inn fit b unfolding img'_def by (intro copy_at_upd) simp
    ultimately show ?thesis unfolding put_dir_bytes_def Let_def layout_facts(4) [OF u] by (simp add: ad(2))
  qed
  have nth: "img' ! j = (if ?p \<le> j \<and> j < ?p + 512 then blk ! (j - ?p) else img ! j)" for j
    unfolding img'_def using inn fit b by (subst upd_nth) auto
  have se: "same_except (\<lambda>j. fboff u (fst a) \<le> j \<and> j < fboff u (fst a) + nat n * nat (fsize (sb u))) img img'"
    using inn nth by (auto simp: same_except_def img'_def ra(3) [symmetric])
  let ?B = "A \<union> (file_cells u i ds ps - run (fst a) n)"
  have un: "?B \<union> run (fst a) n = A \<union> file_cells u i ds ps" using fr(1) by (auto simp: alloc_run_def a_def n_def)
  have dj: "?B \<inter> run (fst a) n = {}" using fr(1) o(2) by (auto simp: alloc_run_def a_def n_def)
  have w: "own u (A \<union> file_cells u i ds ps) img'" "stable u ?B img img'"
    using run_write [OF u o(1) [folded un] dj ra(1) se] unfolding un by simp_all
  have p: "inode_pointer_blocks img u i = Some ps" "\<forall>p \<in> set ps. block_addr u (uint p)" using f by (auto simp: file_ok_def)
  have sp: "same_frags u (frag_set u ps) img img'"
    using fr(3) by (intro stable_same_frags [OF w(2)]) (auto simp: file_cells_def alloc_run_def a_def n_def)
  have f': "file_ok u img' i ds ps" using f inode_blocks_frame [OF u p sp] by (simp add: file_ok_def)
  have st: "stored u ?as (upd d (512 * k) blk) img'"
  proof (rule stored_block [OF u s k b])
    show "length img' = length img" by (simp add: img'_def)
    show "fboff u (fst (?as ! ?q)) + nat (snd (?as ! ?q)) \<le> length img" using fit by (simp add: a_def)
    show "img' ! j = (if fboff u (fst (?as ! ?q)) + ?x \<le> j \<and> j < fboff u (fst (?as ! ?q)) + ?x + 512
        then blk ! (j - (fboff u (fst (?as ! ?q)) + ?x)) else img ! j)" for j using nth [of j] by (simp add: block_at_def)
    fix j m assume j: "j < length ?as" "j \<noteq> ?q" "int m \<le> snd (?as ! j)"
    note rj = run_okD [OF u dir_allocs(5) [OF u f j(1)]]
    have "run (fst (?as ! j)) (snd (?as ! j) div fsize (sb u)) \<subseteq> file_cells u i ds ps - run (fst a) n"
      using file_run(1) [OF u f j(1)] fr(2) [OF j(1,2)] by (auto simp: alloc_run_def a_def n_def)
    then have "same_frags u (run (fst (?as ! j)) (snd (?as ! j) div fsize (sb u))) img img'"
      by (intro stable_same_frags [OF w(2)]) auto
    then show "subslice img' (fboff u (fst (?as ! j))) (fboff u (fst (?as ! j)) + m) =
        subslice img (fboff u (fst (?as ! j))) (fboff u (fst (?as ! j)) + m)"
      using j(3) rj(3) by (intro same_frags_subslice [OF u _ rj(1)]) auto
  qed
  have "stable u A img img'" by (rule stable_mono [OF w(2)]) auto
  then show ?thesis using put w(1) f' st by blast
qed

section \<open>Deleting an entry\<close>

lemma dir_holds_block:
  assumes h: "dir_holds d rss" and k: "k < length rss" and b: "length blk = 512" "chain blk 512 0 rs'"
  shows "dir_holds (upd d (512 * k) blk) (rss[k := rs'])"
proof -
  have l: "length d = 512 * length rss" "512 * k + 512 \<le> length d" using h k by (auto simp: dir_holds_def)
  have own: "chain (upd d (512 * k) blk) (512 * k + 512) (512 * k) rs'"
  proof -
    have "take 512 (drop (512 * k) (upd d (512 * k) blk)) = blk" using l b(1) by (intro nth_equalityI) (auto simp: upd_nth)
    then show ?thesis using chain_cut [of "512 * k" 512 "upd d (512 * k) blk" 0 rs'] b(2) l by simp
  qed
  have "chain (upd d (512 * k) blk) (512 * j + 512) (512 * j) (rss ! j)" if j: "j < length rss" "j \<noteq> k" for j
  proof -
    have "chain d (512 * j + 512) (512 * j) (rss ! j)" using h j by (simp add: dir_holds_def)
    then show ?thesis by (rule chain_cong) (use j l b(1) in \<open>auto simp: upd_nth\<close>)
  qed
  then show ?thesis using own l by (auto simp: dir_holds_def nth_list_update)
qed

text \<open>An edit of single blocks is applied to the first block it changes.\<close>

lemma edit_block_run:
  assumes l: "length d = 512 * n" "k < n" and e: "edit (take 512 (drop (512 * k) d)) 512 = Some r"
  shows "edit_block u ds d (length d) edit (k * 512) img =
    (case r of None \<Rightarrow> Some (Inr None, img)
     | Some blk \<Rightarrow> map_option (\<lambda>img'. (Inr (Some ()), img')) (put_dir_bytes u ds (512 * k) blk img))"
proof -
  have k: "512 * k + 512 \<le> length d" using l by simp
  have s: "subslice d (k * 512) (k * 512 + 512) = Some (take 512 (drop (512 * k) d))"
    using k by (simp add: subslice_def mult.commute)
  have m: "min 512 (length d - k * 512) = 512" using k by simp
  show ?thesis
    unfolding edit_block_def m Let_def using s e
    by (simp add: wm_run mult.commute [of k] split: option.split)
qed

lemma edit_blocks:
  assumes l: "length d = 512 * n" and e: "\<And>k. k < n \<Longrightarrow> edit (take 512 (drop (512 * k) d)) 512 = Some (r k)"
    and ks: "\<forall>k \<in> set ks. k < n"
  shows "wfirst (map (\<lambda>k. k * 512) ks) (edit_block u ds d (length d) edit) err img =
    (case find (\<lambda>k. r k \<noteq> None) ks of
       None \<Rightarrow> Some (Inl err, img)
     | Some k \<Rightarrow> map_option (\<lambda>img'. (Inr (), img')) (put_dir_bytes u ds (512 * k) (the (r k)) img))"
  using ks
proof (induction ks)
  case Nil
  then show ?case by (simp add: wfail_def)
next
  case (Cons k ks)
  have k: "k < n" using Cons.prems by simp
  note run = edit_block_run [where edit = edit, OF l k e [OF k], of u ds img]
  show ?case
  proof (cases "r k")
    case None
    then show ?thesis using run Cons by (simp add: wbind_def)
  next
    case (Some blk)
    then show ?thesis
      using run by (cases "put_dir_bytes u ds (512 * k) blk img") (simp_all add: wbind_def wreturn_def)
  qed
qed

text \<open>The entry that a removal takes out: the first one that is displayed as \<open>name\<close>.\<close>

definition took_out :: "rstr \<Rightarrow> (rstr \<times> u32) list \<Rightarrow> (rstr \<times> u32) list \<Rightarrow> bool" where
  "took_out name es es' \<longleftrightarrow> (\<exists>as e cs. es = as @ e # cs \<and> es' = as @ cs \<and> decode_ascii_replace (fst e) = name
     \<and> (\<forall>a \<in> set as. decode_ascii_replace (fst a) \<noteq> name))"

lemma live_shows: "(\<exists>r \<in> set rs. shows_as name r) \<longleftrightarrow> (\<exists>e \<in> set (live_entries rs). decode_ascii_replace (fst e) = name)"
  by (induction rs) auto

lemma removed_rec_took_out: "removed_rec name rs rs' \<Longrightarrow> took_out name (live_entries rs) (live_entries rs')"
proof -
  assume "removed_rec name rs rs'"
  then obtain ys r zs where r: "rs = ys @ r # zs" "\<forall>y \<in> set ys. \<not> shows_as name y" "shows_as name r"
    "live_entries rs' = live_entries ys @ live_entries zs" by (auto simp: removed_rec_def)
  obtain i l nm where rr: "r = (i, l, nm)" by (cases r)
  have "\<forall>a \<in> set (live_entries ys). decode_ascii_replace (fst a) \<noteq> name" using r(2) live_shows [of ys name] by auto
  then show ?thesis
    unfolding took_out_def using r(1,3,4) by (intro exI [of _ "live_entries ys"] exI [of _ "(nm, i)"] exI [of _ "live_entries zs"]) (auto simp: rr)
qed

lemma took_out_blocks:
  assumes k: "k < length rss" and t: "took_out name (live_entries (rss ! k)) (live_entries rs')"
    and b: "\<And>j. j < k \<Longrightarrow> \<forall>r \<in> set (rss ! j). \<not> shows_as name r"
  shows "took_out name (dir_list rss) (dir_list (rss[k := rs']))"
proof -
  obtain as e cs where a: "live_entries (rss ! k) = as @ e # cs" "live_entries rs' = as @ cs" "decode_ascii_replace (fst e) = name"
    "\<forall>a \<in> set as. decode_ascii_replace (fst a) \<noteq> name" using t by (auto simp: took_out_def)
  have s: "rss = take k rss @ (rss ! k) # drop (Suc k) rss" using k by (simp add: id_take_nth_drop)
  have v: "rss[k := rs'] = take k rss @ rs' # drop (Suc k) rss" using k by (simp add: upd_conv_take_nth_drop)
  have p: "decode_ascii_replace (fst x) \<noteq> name" if x: "x \<in> set (concat (map live_entries (take k rss)))" for x
  proof -
    obtain j where "j < k" "x \<in> set (live_entries (rss ! j))" 
    proof -
      obtain rs where rs: "rs \<in> set (take k rss)" "x \<in> set (live_entries rs)" using x by auto
      obtain j where "j < k" "rs = rss ! j" using rs(1) k by (auto simp: in_set_conv_nth)
      then show ?thesis using that rs(2) by blast
    qed
    then show ?thesis using b [of j] live_shows [of "rss ! j" name] by blast
  qed
  have d1: "dir_list rss = (concat (map live_entries (take k rss)) @ as) @ e # cs @ concat (map live_entries (drop (Suc k) rss))"
    by (subst s) (simp add: dir_list_def a(1))
  have d2: "dir_list (rss[k := rs']) = (concat (map live_entries (take k rss)) @ as) @ cs @ concat (map live_entries (drop (Suc k) rss))"
    by (subst v) (simp add: dir_list_def a(2))
  have "\<forall>x \<in> set (concat (map live_entries (take k rss)) @ as). decode_ascii_replace (fst x) \<noteq> name"
    using p a(4) by (simp only: set_append) blast
  then show ?thesis unfolding took_out_def using a(3) d1 d2 by blast
qed

lemma delete_entry_run:
  assumes u: "layout_ok u" and d: "dir_ok u img i ds ps d rss"
    and o: "own u (A \<union> file_cells u i ds ps) img" "A \<inter> file_cells u i ds ps = {}"
  shows "(delete_directory_entry u i name img = Some (Inl (EntryNotFound name), img)
      \<and> (\<forall>e \<in> set (dir_list rss). decode_ascii_replace (fst e) \<noteq> name))
    \<or> (\<exists>img' d' rss'. delete_directory_entry u i name img = Some (Inr (), img') \<and> dir_ok u img' i ds ps d' rss'
      \<and> own u (A \<union> file_cells u i ds ps) img' \<and> stable u A img img' \<and> took_out name (dir_list rss) (dir_list rss'))"
proof -
  have f: "file_ok u img i ds ps" "stored u (file_allocs u i ds) d img" "dir_holds d rss" "length d = unat (di_size i)"
    "inode_data_blocks img u i = Some ds" using d by (auto simp: dir_ok_def file_ok_def)
  have l: "length d = 512 * length rss" using f(3) by (simp add: dir_holds_def)
  define r where "r k = the (remove_entry (take 512 (drop (512 * k) d)) 512 name)" for k
  have blk: "remove_entry (take 512 (drop (512 * k) d)) 512 name = Some (r k)
      \<and> (case r k of None \<Rightarrow> \<forall>q \<in> set (rss ! k). \<not> shows_as name q
         | Some blk \<Rightarrow> length blk = 512 \<and> (\<exists>rs'. chain blk 512 0 rs' \<and> removed_rec name (rss ! k) rs'))" if k: "k < length rss" for k
  proof -
    have "chain d (512 * k + 512) (512 * k) (rss ! k)" using f(3) k by (simp add: dir_holds_def)
    then have c: "chain (take 512 (drop (512 * k) d)) 512 0 (rss ! k)" using chain_cut [of "512 * k" 512 d 0] l k by simp
    have "length (take 512 (drop (512 * k) d)) = 512" using l k by simp
    from remove_entry_block [OF c this, of name] show ?thesis by (auto simp: r_def)
  qed
  have run: "delete_directory_entry u i name img =
    (case find (\<lambda>k. r k \<noteq> None) [0..<length rss] of
       None \<Rightarrow> Some (Inl (EntryNotFound name), img)
     | Some k \<Rightarrow> map_option (\<lambda>img'. (Inr (), img')) (put_dir_bytes u ds (512 * k) (the (r k)) img))"
  proof -
    have "delete_directory_entry u i name img = wfirst (dir_block_offsets (length d))
        (edit_block u ds d (length d) (\<lambda>block span. remove_entry block span name)) (EntryNotFound name) img"
      using file_reads(1) [OF u f(1,2,4)] f(4,5) by (simp add: delete_directory_entry_def edit_directory_def Let_def wbind_def wread_def)
    also have "dir_block_offsets (length d) = map (\<lambda>k. k * 512) [0..<length rss]" unfolding l by (rule dir_offsets)
    finally show ?thesis using edit_blocks [OF l, of "\<lambda>block span. remove_entry block span name" r "[0..<length rss]"] blk by simp
  qed
  show ?thesis
  proof (cases "find (\<lambda>k. r k \<noteq> None) [0..<length rss]")
    case None
    then have "\<forall>q \<in> set (rss ! k). \<not> shows_as name q" if "k < length rss" for k
      using blk [OF that] that by (auto simp: find_None_iff)
    then have "\<forall>rs \<in> set rss. \<not> (\<exists>q \<in> set rs. shows_as name q)" by (metis in_set_conv_nth)
    then have "\<forall>e \<in> set (dir_list rss). decode_ascii_replace (fst e) \<noteq> name"
      unfolding live_shows dir_list_def by auto
    then show ?thesis using run None by simp
  next
    case (Some k)
    then have k: "k < length rss" "r k \<noteq> None" "\<And>j. j < k \<Longrightarrow> r j = None"
      by (auto simp: find_Some_iff nth_append)
    obtain bk rs' where b: "r k = Some bk" "length bk = 512" "chain bk 512 0 rs'" "removed_rec name (rss ! k) rs'"
      using blk [OF k(1)] k(2) by auto
    have k5: "512 * k + 512 \<le> length d" using l k(1) by simp
    obtain img' where i': "put_dir_bytes u ds (512 * k) bk img = Some img'" "own u (A \<union> file_cells u i ds ps) img'"
      "stable u A img img'" "file_ok u img' i ds ps" "stored u (file_allocs u i ds) (upd d (512 * k) bk) img'"
      using put_dir_bytes_spec [OF u f(1,2) o k5 b(2)] by blast
    have "dir_ok u img' i ds ps (upd d (512 * k) bk) (rss[k := rs'])"
      using i' f(4) dir_holds_block [OF f(3) k(1) b(2,3)] by (simp add: dir_ok_def)
    moreover have "took_out name (dir_list rss) (dir_list (rss[k := rs']))"
    proof (rule took_out_blocks [OF k(1) removed_rec_took_out [OF b(4)]])
      show "\<forall>q \<in> set (rss ! j). \<not> shows_as name q" if "j < k" for j using blk [of j] k(1) k(3) [OF that] that by simp
    qed
    moreover have "delete_directory_entry u i name img = Some (Inr (), img')" using run Some b(1) i'(1) by simp
    ultimately show ?thesis using i' by blast
  qed
qed

section \<open>Directories as maps\<close>

text \<open>The names of a directory are plain when displaying them loses nothing, and they are distinct.\<close>

definition plain_names :: "drec list list \<Rightarrow> bool" where
  "plain_names rss \<longleftrightarrow> distinct (map fst (dir_list rss)) \<and> (\<forall>e \<in> set (dir_list rss). decode_ascii_replace (fst e) = fst e)"

lemma took_out_map:
  assumes t: "took_out name (dir_list rss) (dir_list rss')" and p: "plain_names rss"
  shows "name \<in> dom (map_of (dir_list rss))" "map_of (dir_list rss') = (map_of (dir_list rss))(name := None)" "plain_names rss'"
proof -
  obtain as e cs where a: "dir_list rss = as @ e # cs" "dir_list rss' = as @ cs" "decode_ascii_replace (fst e) = name"
    using t by (auto simp: took_out_def)
  have n: "fst e = name" "name \<notin> fst ` set as" "name \<notin> fst ` set cs" using a p by (auto simp: plain_names_def)
  show "name \<in> dom (map_of (dir_list rss))" using a(1) n(1) by (simp add: dom_map_of_conv_image_fst)
  show "map_of (dir_list rss') = (map_of (dir_list rss))(name := None)"
  proof
    fix x
    have "map_of as name = None" "map_of cs name = None" using n by (simp_all add: map_of_eq_None_iff)
    then show "map_of (dir_list rss') x = ((map_of (dir_list rss))(name := None)) x"
      using n(1) by (cases e) (simp add: a map_add_def split: option.splits)
  qed
  show "plain_names rss'" using p unfolding plain_names_def a(1,2) by auto
qed

lemma inserted_map:
  assumes t: "dir_list rss = as @ cs" "dir_list rss' = as @ (name, i) # cs" and n: "name \<notin> dom (map_of (dir_list rss))"
  shows "map_of (dir_list rss') = (map_of (dir_list rss))(name \<mapsto> i)"
proof
  fix x
  have "name \<notin> fst ` set (as @ cs)" using n unfolding t(1) dom_map_of_conv_image_fst .
  then have "map_of as name = None" "map_of cs name = None" by (auto simp: map_of_eq_None_iff)
  then show "map_of (dir_list rss') x = ((map_of (dir_list rss))(name \<mapsto> i)) x"
    by (simp add: t map_add_def split: option.splits)
qed

section \<open>A directory on the sample image\<close>

text \<open>The sample image with an initialised group 0 in which every fragment is marked busy and inodes 0 to 2 in use, and a directory block at fragment 40.\<close>

definition busy_img :: image where
  "busy_img = upd (upd (upd sample_img 17876 (le32 UFS_CG_MAGIC)) 16916 (le32 64)) 17620 [7]"

definition sample_dir_inode :: inode where
  "sample_dir_inode = blank_inode \<lparr> di_size := 512, direct_blocks := 40 # replicate 11 0 \<rparr>"

lemma sample_dir_file:
  "inode_data_blocks img sample_ufs sample_dir_inode = Some [40]" "inode_pointer_blocks img sample_ufs sample_dir_inode = Some []"
proof -
  have s: "indirect_blocks sample_dir_inode = replicate 3 0" "direct_blocks sample_dir_inode = 40 # replicate 11 0" "di_size sample_dir_inode = 512"
    by (simp_all only: sample_dir_inode_def blank_inode_def inode.simps)
  have "inode_data_blocks img sample_ufs sample_dir_inode = Some (take (needed_blocks (sb sample_ufs) (di_size sample_dir_inode))
      (filter (\<lambda>p. p \<noteq> 0) (direct_blocks sample_dir_inode) @ concat (replicate 3 [])))"
    by (rule inode_data_blocks_eq) (simp_all add: s collect_indirect_data_blocks.simps)
  then show "inode_data_blocks img sample_ufs sample_dir_inode = Some [40]" by (simp add: s needed_blocks_def)
  have "inode_pointer_blocks img sample_ufs sample_dir_inode = Some (concat (replicate 3 []))"
    by (rule inode_pointer_blocks_eq) (simp_all add: s collect_indirect_pointer_blocks.simps)
  then show "inode_pointer_blocks img sample_ufs sample_dir_inode = Some []" by simp
qed


lemma sample_dir_sizes: "uint (di_size sample_dir_inode) = 512" "allocation_byte_sizes sample_sb 512 = [1024]"
proof -
  show "uint (di_size sample_dir_inode) = 512" by (simp add: sample_dir_inode_def)
  show "allocation_byte_sizes sample_sb 512 = [1024]"
    by (subst allocation_byte_sizes_eq [OF sample_geometry]) (simp_all add: fragroundup_def in_i64_def sdiv_nonneg)
qed

lemma sample_dir_allocs: "file_allocs sample_ufs sample_dir_inode [40] = [(40, 1024)]"
  by (simp add: file_allocs_def sample_dir_sizes)

lemma sample_dir_cells: "file_cells sample_ufs sample_dir_inode [40] [] = {40}"
  by (auto simp: file_cells_def sample_dir_allocs alloc_runs_def alloc_run_def run_def frag_set_def)

lemma busy_img_view:
  assumes "length d = 512"
  shows "cg_view sample_ufs (upd busy_img 41472 d) 0 = upd (upd (upd (replicate 8192 0) 980 (le32 UFS_CG_MAGIC)) 20 (le32 64)) 724 [7]"
    "cg_view sample_ufs (upd busy_img 41472 d) 1 = replicate 8192 0"
  using assms
  by (auto intro!: nth_equalityI simp: cg_view_def cg_off_def fboff_def bs_def busy_img_def sample_img_def upd_nth)

lemma sample_dir:
  assumes d: "length d = 512" "dir_holds d rss"
  shows "dir_ok sample_ufs (upd busy_img 41472 d) sample_dir_inode [40] [] d rss"
    "own sample_ufs ({} \<union> file_cells sample_ufs sample_dir_inode [40] []) (upd busy_img 41472 d)"
proof -
  let ?img = "upd busy_img 41472 d"
  have l: "length ?img = 131584" by (simp add: busy_img_def sample_img_def)
  have b: "block_addr sample_ufs 40" by (simp add: block_addr_def data_run_def sample_groups)
  have "subslice ?img 41472 (41472 + 512) = Some d"
    using subslice_copy_same [OF copy_at_upd, of 41472 d busy_img] d by (simp add: busy_img_def sample_img_def)
  then have st: "stored sample_ufs (file_allocs sample_ufs sample_dir_inode [40]) d ?img"
    using d(1) by (simp add: sample_dir_allocs fboff_def bs_def)
  have sz: "unat (di_size sample_dir_inode) = 512" "length (indirect_blocks sample_dir_inode) = 3"
    by (simp_all add: sample_dir_inode_def blank_inode_def)
  have "file_ok sample_ufs ?img sample_dir_inode [40] []"
    using sample_dir_allocs b sz by (simp add: file_ok_def sample_dir_file sample_dir_sizes block_allocs_def apart_runs_def)
  then show "dir_ok sample_ufs ?img sample_dir_inode [40] [] d rss" using d st sz by (simp add: dir_ok_def)
  note v = busy_img_view [OF d(1)]
  have lv: "live (cg_view sample_ufs ?img 0)" "u32 (cg_view sample_ufs ?img 0) 20 = Some 64" unfolding v by (simp_all add: live_def upd_simps)
  have nl: "\<not> live (replicate 8192 0)" by (simp add: live_def u32_def get_at_def)
  have cnt: "nat (64 + cg_data_frag_count sample_ufs 1) \<le> 128" using cg_data_frag_count_bounds [of sample_ufs 1] by (simp add: nat_le_iff)
  have ok: "cgs_ok sample_ufs ?img"
    using lv nl cnt l v(2) by (auto simp: cgs_ok_def cg_ok_def cg_fits_def cg_room_def group_frags_def fboff_def sample_groups cg_off_def bs_def)
  have bz: "busy sample_ufs ?img 40" using lv(1) by (simp add: busy_def v is_frag_free_eq upd_nth)
  show "own sample_ufs ({} \<union> file_cells sample_ufs sample_dir_inode [40] []) ?img"
    using ok bz l by (simp add: sample_dir_cells own_def data_run_def sample_groups fboff_def)
qed


lemma one_entry_dir: "\<exists>d rss. length d = 512 \<and> dir_holds d rss \<and> dir_list rss = [([97], 5)]"
proof -
  obtain d rss where i: "insert_entry [] 0 5 [97] = Some (Inr d)" "inserted [] [] [97] 5 d rss"
    using insert_entry_holds [of "[]" "[]" "[97]" 5] by (auto simp: dir_holds_def)
  have l: "dir_list rss = [([97], 5)]" "dir_holds d rss" "length d = 0 \<or> length d = 512" using i(2) by (auto simp: inserted_def dir_list_def)
  then have "length d = 512" by (auto simp: dir_holds_def dir_list_def)
  then show ?thesis using l by blast
qed

section \<open>Properties\<close>

text \<open>C12: Insertion of a directory entry with a name of at most 255 bytes and a non-zero inode never panics and always
  succeeds: the directory stays a sequence of blocks
  tiled by records, its entries are those it had plus the new one, and it either keeps its length or grows by one
  block with all old bytes kept. When the name is new, the directory as a map gains exactly that binding.\<close>

theorem insert_entry_correct:
  assumes "dir_holds d rss" "length name \<le> 255" "(of_int ino :: u32) \<noteq> 0"
  shows "\<exists>d' rss' as cs. insert_entry d (length d) ino name = Some (Inr d') \<and> dir_holds d' rss'
    \<and> dir_list rss = as @ cs \<and> dir_list rss' = as @ (name, of_int ino) # cs
    \<and> (length d' = length d \<or> length d' = length d + 512 \<and> take (length d) d' = d)
    \<and> (name \<notin> dom (map_of (dir_list rss)) \<longrightarrow> map_of (dir_list rss') = (map_of (dir_list rss))(name \<mapsto> of_int ino))"
  using insert_entry_holds [OF assms] inserted_map [of rss _ _ _ name "of_int ino"] unfolding inserted_def by metis

theorem insert_entry_correct_witness:
  "\<exists>d' rss'. insert_entry [] (length ([] :: bytes)) 5 [97] = Some (Inr d') \<and> dir_holds d' rss' \<and> dir_list rss' = [([97], 5)]"
proof -
  obtain d' rss' as cs where "insert_entry [] (length ([] :: bytes)) 5 [97] = Some (Inr d')" "dir_holds d' rss'"
    "dir_list [] = as @ cs" "dir_list rss' = as @ ([97], of_int 5) # cs"
    using insert_entry_correct [of "[]" "[]" "[97]" 5] by (auto simp: dir_holds_def)
  then show ?thesis by (auto simp: dir_list_def)
qed

text \<open>C11: Lookup implements the map of the directory. In a well-formed directory, however its records are spread over
  blocks and allocations, the lookup of a name never panics while searching: it finds nothing when no live record has
  the name, and otherwise reads the inode the first such record names.\<close>

theorem lookup_directory_entry_correct:
  assumes "layout_ok u" "dir_ok u img i ds ps d rss"
  shows "lookup_directory_entry img u i name =
    (case map_of (dir_list rss) name of
       None \<Rightarrow> Some None
     | Some ino \<Rightarrow> map_option (map_option (Pair ino)) (read_inode img u (uint ino)))"
  by (rule lookup_dir_ok [OF assms])

theorem lookup_directory_entry_correct_witness:
  "\<exists>d. lookup_directory_entry (upd busy_img 41472 d) sample_ufs sample_dir_inode [98] = Some None
    \<and> lookup_directory_entry (upd busy_img 41472 d) sample_ufs sample_dir_inode [97] =
        map_option (map_option (Pair 5)) (read_inode (upd busy_img 41472 d) sample_ufs 5)"
proof -
  obtain d rss where d: "length d = 512" "dir_holds d rss" "dir_list rss = [([97], 5)]" using one_entry_dir by blast
  show ?thesis using lookup_directory_entry_correct [OF sample_layout sample_dir(1) [OF d(1,2)]] d(3) by (intro exI [of _ d]) simp
qed

text \<open>C10: Deletion of a directory entry is total and exact on the image. It takes out the first entry displayed as the
  name and keeps all others in their order, or reports that there is none and changes nothing. The directory stays well
  formed with the same blocks, and no inode record and no byte of any other file changes. When the names are plain and
  distinct, the directory as a map loses exactly that binding.\<close>

theorem delete_directory_entry_correct:
  assumes "layout_ok u" "dir_ok u img i ds ps d rss" "own u (A \<union> file_cells u i ds ps) img" "A \<inter> file_cells u i ds ps = {}"
  shows "if \<exists>e \<in> set (dir_list rss). decode_ascii_replace (fst e) = name
    then \<exists>img' d' rss' as e cs. delete_directory_entry u i name img = Some (Inr (), img') \<and> dir_ok u img' i ds ps d' rss'
      \<and> own u (A \<union> file_cells u i ds ps) img' \<and> stable u A img img'
      \<and> dir_list rss = as @ e # cs \<and> dir_list rss' = as @ cs \<and> decode_ascii_replace (fst e) = name
      \<and> (\<forall>a \<in> set as. decode_ascii_replace (fst a) \<noteq> name)
      \<and> (plain_names rss \<longrightarrow> plain_names rss' \<and> map_of (dir_list rss') = (map_of (dir_list rss))(name := None))
    else delete_directory_entry u i name img = Some (Inl (EntryNotFound name), img)"
proof (cases "\<exists>e \<in> set (dir_list rss). decode_ascii_replace (fst e) = name")
  case False
  then show ?thesis using delete_entry_run [OF assms, of name] unfolding took_out_def by auto
next
  case True
  then obtain img' d' rss' where r: "delete_directory_entry u i name img = Some (Inr (), img')" "dir_ok u img' i ds ps d' rss'"
    "own u (A \<union> file_cells u i ds ps) img'" "stable u A img img'" and t: "took_out name (dir_list rss) (dir_list rss')"
    using delete_entry_run [OF assms, of name] by blast
  have "plain_names rss \<longrightarrow> plain_names rss' \<and> map_of (dir_list rss') = (map_of (dir_list rss))(name := None)"
    using took_out_map [OF t] by blast
  then show ?thesis using r t True unfolding took_out_def by (simp only: if_True) blast
qed

theorem delete_directory_entry_correct_witness:
  "\<exists>d img'. delete_directory_entry sample_ufs sample_dir_inode [98] (upd busy_img 41472 d)
      = Some (Inl (EntryNotFound [98]), upd busy_img 41472 d)
    \<and> delete_directory_entry sample_ufs sample_dir_inode [97] (upd busy_img 41472 d) = Some (Inr (), img')
    \<and> own sample_ufs {40} img'"
proof -
  obtain d rss where d: "length d = 512" "dir_holds d rss" "dir_list rss = [([97], 5)]" using one_entry_dir by blast
  note s = sample_dir [OF d(1,2)]
  have a: "decode_ascii_replace [97] = [97]" by (simp add: decode_ascii_replace_def)
  have c: "file_cells sample_ufs sample_dir_inode [40] [] = {40}" by (rule sample_dir_cells)
  note del = delete_directory_entry_correct [OF sample_layout s Int_empty_left]
  have "delete_directory_entry sample_ufs sample_dir_inode [98] (upd busy_img 41472 d)
      = Some (Inl (EntryNotFound [98]), upd busy_img 41472 d)" using del [of "[98]"] d(3) a by simp
  moreover have "\<exists>img'. delete_directory_entry sample_ufs sample_dir_inode [97] (upd busy_img 41472 d) = Some (Inr (), img')
      \<and> own sample_ufs {40} img'" using del [of "[97]"] d(3) a c by auto
  ultimately show ?thesis by blast
qed

end
