(* ===== verification/Alloc_Complete.thy ===== *)
theory Alloc_Complete
  imports Alloc_Correct
begin

text \<open>
  Completeness of the fragment allocator of \<^verbatim>\<open>crates/svr4-ufs/src/alloc.rs\<close>: the search through the groups
  misses no free block.
\<close>

section \<open>A block that is free\<close>

text \<open>A whole aligned block of an initialised group whose fragments are all marked free.\<close>

definition free_block_at :: "ufs \<Rightarrow> bytes \<Rightarrow> int \<Rightarrow> bool" where
  "free_block_at u cg j \<longleftrightarrow> live cg \<and> dblkno (sb u) \<le> j \<and> frag (sb u) dvd j - dblkno (sb u)
     \<and> (case u32 cg 20 of Some nd \<Rightarrow> j + frag (sb u) \<le> uint nd | None \<Rightarrow> False)
     \<and> (\<forall>i. j \<le> i \<and> i < j + frag (sb u) \<longrightarrow> is_frag_free cg i = Some True)"

lemma all_frags_freeI:
  assumes "\<And>i. j \<le> i \<Longrightarrow> i < j + n \<Longrightarrow> is_frag_free cg i = Some True" "0 \<le> j" "j + n < 2 ^ 62"
  shows "all_frags_free cg j n = Some True"
proof -
  have "is_frag_free cg (i64 (j + off)) = Some True" if "off \<in> set [0..n - 1]" for off
  proof -
    have "i64 (j + off) = j + off" using that assms(2,3) by (intro i64_id) (auto simp: in_i64_def)
    then show ?thesis using that assms(1) [of "j + off"] by auto
  qed
  then show ?thesis
    unfolding all_frags_free_def
    using mall_Some_iff [of "[0..n - 1]" "\<lambda>off. is_frag_free cg (i64 (j + off))" "\<lambda>_. True"] by auto
qed

text \<open>The search visits every aligned position below its limit, so it cannot miss a free block.\<close>

lemma find_free_block_complete:
  assumes "all_frags_free cg j f = Some True" "0 < f" "i \<le> j" "f dvd j - i" "j < limit"
  shows "find_free_block cg f limit i \<noteq> Some None"
  using assms
proof (induction cg f limit i rule: find_free_block.induct)
  case (1 cg f limit i)
  show ?case
  proof (cases "i = j")
    case True
    then show ?thesis using 1 by (subst find_free_block.simps) simp
  next
    case False
    then have "i + f \<le> j" using 1(4-6) by (metis add.commute diff_gt_0_iff_gt le_diff_eq order_le_less zdvd_imp_le)
    moreover have "f dvd j - (i + f)" using 1(5) by (metis diff_diff_eq dvd_diff dvd_refl)
    ultimately show ?thesis
      using 1 by (subst find_free_block.simps) (auto split: bind_splits)
  qed
qed

lemma take_frags_finds:
  assumes u: "layout_ok u" and sc: "0 \<le> sc" "sc < 2 ^ 62" "a \<in> set [0..ncg (sb u) - 1]" and ok: "cgs_ok u img"
    and f: "free_block_at u (cg_view u img (i64 (sc + a) smod ncg (sb u))) j"
  shows "take_frags u sc n nb a img \<noteq> Some (Inr None, img')"
proof
  define c where "c = i64 (sc + a) smod ncg (sb u)"
  have c: "valid_cg u c" unfolding c_def by (rule cg_of_attempt [OF u sc])
  let ?cg = "cg_view u img c"
  have lv: "live ?cg" using f by (simp add: free_block_at_def c_def)
  have rd: "read_allocatable_cg_block u c img = Some (Inr ?cg, img)"
    using read_allocatable_total [OF u c ok] read_allocatable_spec(4) [OF u c ok] lv by blast
  obtain nd where nd: "u32 ?cg 20 = Some nd" "j + frag (sb u) \<le> uint nd" "uint nd \<le> fpg (sb u)"
    using f cgs_okD(2) [OF ok c] lv by (auto simp: free_block_at_def cg_ok_def c_def split: option.splits)
  have j: "dblkno (sb u) \<le> j" "frag (sb u) dvd j - dblkno (sb u)" "all_frags_free ?cg j (frag (sb u)) = Some True"
    using f nd geometry_pos(6,7) [OF layout_facts(1) [OF u]]
    by (auto simp: free_block_at_def c_def intro!: all_frags_freeI)
  assume t: "take_frags u sc n nb a img = Some (Inr None, img')"
  have "u32 ?cg 980 = Some UFS_CG_MAGIC" using lv by (simp add: live_def)
  then have "find_free_block ?cg (frag (sb u)) (uint nd - frag (sb u) + 1) (cgdmin (sb u) c smod fpg (sb u)) = Some None"
    using t rd nd(1) unfolding take_frags_def c_def [symmetric] Let_def
    by (auto simp: wm_simps split: option.splits)
  moreover have "0 < frag (sb u)" using geometry_frag [OF layout_facts(1) [OF u]] by auto
  ultimately show False
    using find_free_block_complete [OF j(3) _ j(1,2), of "uint nd - frag (sb u) + 1"] nd(2) unfolding data_start [OF u c] by auto
qed

text \<open>A loop that reports failure has been refused at every element.\<close>

lemma wfirst_all_refused:
  assumes "wfirst xs f e s = Some (Inl e', s')" "x \<in> set xs"
    and "\<And>x s s'. x \<in> set xs \<Longrightarrow> P s \<Longrightarrow> f x s = Some (Inr None, s') \<Longrightarrow> P s'" "P s"
    and "\<And>x s s' e'. x \<in> set xs \<Longrightarrow> P s \<Longrightarrow> f x s \<noteq> Some (Inl e', s')"
  shows "\<exists>t t'. P t \<and> f x t = Some (Inr None, t')"
  using assms
proof (induction xs arbitrary: s)
  case (Cons y ys)
  obtain r s1 where r: "f y s = Some (Inr r, s1)"
    "(case r of None \<Rightarrow> wfirst ys f e | Some y \<Rightarrow> wreturn y) s1 = Some (Inl e', s')"
    using Cons.prems(1) Cons.prems(5) [of y s] Cons.prems(4) by (auto simp: wbind_Inl_iff)
  have n: "r = None" using r(2) by (cases r) (simp_all add: wm_simps)
  have P: "P s1" using Cons.prems(3) [of y s s1] Cons.prems(4) r(1) n by simp
  show ?case
  proof (cases "x = y")
    case True
    then show ?thesis using r(1) n Cons.prems(4) by blast
  next
    case False
    have w: "wfirst ys f e s1 = Some (Inl e', s')" using r(2) n by simp
    show ?thesis using False Cons.prems(2,3,5) P by (intro Cons.IH [OF w]) auto
  qed
qed simp

lemma attempt_of_cg:
  assumes u: "layout_ok u" and sc: "0 \<le> sc" "sc < 2 ^ 62" and c: "valid_cg u c"
  shows "\<exists>a \<in> set [0..ncg (sb u) - 1]. i64 (sc + a) smod ncg (sb u) = c"
proof -
  have n: "0 < ncg (sb u)" "ncg (sb u) < 2 ^ 32"
    using geometry_facts(16) geometry_pos(8) layout_facts(1) [OF u] by auto
  let ?a = "(c - sc) mod ncg (sb u)"
  have a: "0 \<le> ?a" "?a < ncg (sb u)" using n by simp_all
  moreover have "(2 :: int) ^ 62 + 2 ^ 32 < 2 ^ 63" by simp
  ultimately have "0 \<le> sc + ?a" "sc + ?a < 2 ^ 63" using sc n by linarith+
  then have "i64 (sc + ?a) = sc + ?a" by (intro i64_id) (auto simp: in_i64_def)
  moreover have "(sc + ?a) mod ncg (sb u) = c" using c by (simp add: mod_simps valid_cg_def)
  ultimately show ?thesis using a sc n by (intro bexI [of _ ?a]) (auto simp: smod_nonneg)
qed

lemma live_view_kept:
  assumes u: "layout_ok u" and sc: "0 \<le> sc" "sc < 2 ^ 62" "a \<in> set [0..ncg (sb u) - 1]" and ok: "cgs_ok u img"
    and c: "valid_cg u c" "live (cg_view u img c)" and t: "take_frags u sc n nb a img = Some (Inr None, img')"
  shows "cg_view u img' c = cg_view u img c"
proof -
  note v = cg_of_attempt [OF u sc]
  obtain cg where rd: "read_allocatable_cg_block u (i64 (sc + a) smod ncg (sb u)) img = Some (Inr cg, img')"
    using take_frags_NoneD [OF t] by blast
  note sp = read_allocatable_spec [OF u v ok rd]
  show ?thesis using sp(4) sp(5) [OF c(1)] c(2) by (cases "i64 (sc + a) smod ncg (sb u) = c") auto
qed

lemma allocate_allocation_finds:
  assumes u: "layout_ok u" and r: "request_ok u n" and i: "0 \<le> ino" "ino < 2 ^ 62" and ok: "cgs_ok u img"
    and c: "valid_cg u c" "free_block_at u (cg_view u img c) j"
  shows "\<exists>b img'. allocate_allocation u ino n img = Some (Inr b, img')"
proof (rule ccontr)
  let ?t = "take_frags u (itog (sb u) ino) (n div fsize (sb u)) (nat n)"
  let ?P = "\<lambda>s. cgs_ok u s \<and> cg_view u s c = cg_view u img c"
  note sc = itog_bounds [OF u i]
  have lv: "live (cg_view u img c)" using c(2) by (simp add: free_block_at_def)
  assume "\<not> ?thesis"
  then obtain e img' where w: "wfirst [0..ncg (sb u) - 1] ?t (if n = bsize (sb u) then NoFreeBlocks else NoFreeFragments) img
      = Some (Inl e, img')"
    using allocate_allocation_total [OF u r i ok] unfolding allocate_allocation_loop [OF u r] by (metis not_None_eq prod.exhaust sumE)
  obtain a where a: "a \<in> set [0..ncg (sb u) - 1]" "i64 (itog (sb u) ino + a) smod ncg (sb u) = c"
    using attempt_of_cg [OF u sc c(1)] by blast
  have "\<exists>t t'. ?P t \<and> ?t a t = Some (Inr None, t')"
  proof (rule wfirst_all_refused [OF w a(1)])
    show "?P s'" if "x \<in> set [0..ncg (sb u) - 1]" "?P s" "?t x s = Some (Inr None, s')" for x s s'
      using take_frags_skip(2) [OF u sc that(1) _ that(3)] live_view_kept [OF u sc that(1) _ c(1) _ that(3)] that(2) lv
      by (auto simp: alloc_skip_def)
    show "?t x s \<noteq> Some (Inl e', s')" if "x \<in> set [0..ncg (sb u) - 1]" "?P s" for x s s' e'
      using take_frags_skip(1) [OF u sc that(1)] that(2) by blast
  qed (use ok in simp)
  then show False using take_frags_finds [OF u sc a(1)] a(2) c(2) by metis
qed

text \<open>C9: The allocator finds the space there is. If some initialised group has a whole free block, wherever it is
  and whatever inode the request prefers, the request is granted: lack of space is reported only when no
  initialised group has a free block left.\<close>

theorem allocation_finds_space:
  assumes "layout_ok u" "request_ok u n" "0 \<le> ino" "ino < 2 ^ 62" "cgs_ok u img" "valid_cg u c"
    and "free_block_at u (cg_view u img c) j"
  shows "\<exists>b img'. allocate_allocation u ino n img = Some (Inr b, img') \<and> block_addr u b
    \<and> (\<forall>x. b \<le> x \<and> x < b + n div fsize (sb u) \<longrightarrow> \<not> busy u img x \<and> busy u img' x)"
  using allocate_allocation_finds [OF assms] allocate_allocation_spec(1) [OF assms(1-5)]
  unfolding alloc_spec_def by blast

theorem allocation_finds_space_witness:
  "\<exists>b img'. allocate_allocation sample_ufs 70 8192 sample_live = Some (Inr b, img') \<and> busy sample_ufs img' b"
proof -
  have v: "valid_cg sample_ufs 0" by (simp add: sample_groups)
  note p = pristine_cg_bytes_ok [OF sample_layout v sample_live_view]
  have n: "cg_data_frag_count sample_ufs 0 = 64" by (simp add: cg_data_frag_count_def sample_sb_def Let_def in_i64_def)
  obtain nd where "u32 (cg_view sample_ufs sample_live 0) 20 = Some nd" "uint nd = 64"
    using p(2,3,4) n by (auto simp: cg_ok_def group_frags_def)
  then have "free_block_at sample_ufs (cg_view sample_ufs sample_live 0) 32"
    using p(2,5) n by (simp add: free_block_at_def)
  then show ?thesis
    using allocation_finds_space [of sample_ufs 8192 70 sample_live 0 32] v sample_live_ok(1) by (force simp: request_ok_def)
qed

end
