(* ===== verification/Inode_Alloc.thy ===== *)
theory Inode_Alloc
  imports Alloc_Complete
begin

text \<open>
  Correctness of inode allocation and release (\<^verbatim>\<open>allocate_inode\<close>, \<^verbatim>\<open>free_inode\<close> of
  \<^verbatim>\<open>crates/svr4-ufs/src/alloc.rs\<close>): the set of inodes in use, what the operations do to it, and that the search from
  the rotor on misses no free inode.
\<close>

section \<open>Used inodes\<close>

definition inode_used :: "ufs \<Rightarrow> image \<Rightarrow> int \<Rightarrow> bool" where
  "inode_used u img n \<longleftrightarrow> live (cg_view u img (n div ipg (sb u)))
     \<and> is_inode_used (cg_view u img (n div ipg (sb u))) (n mod ipg (sb u)) = Some True"

text \<open>Edits of the counters of a descriptor: the bitmaps, the magic number and the fragment count stay.\<close>

definition counters_only :: "bytes \<Rightarrow> bytes \<Rightarrow> bool" where
  "counters_only cg cg' \<longleftrightarrow> same_except (\<lambda>k. 24 \<le> k \<and> k < 724) cg cg'"

lemma counters_onlyI:
  "adjust_u32_at cg off d = Some cg' \<Longrightarrow> 24 \<le> off \<Longrightarrow> off + 4 \<le> 724 \<Longrightarrow> counters_only cg cg'"
  "put_u32 cg off v = Some cg' \<Longrightarrow> 24 \<le> off \<Longrightarrow> off + 4 \<le> 724 \<Longrightarrow> counters_only cg cg'"
  by (auto simp: counters_only_def adjust_u32_at_def bind_eq_Some_conv same_except_def c32.write_length intro!: c32.write_nth)

lemma counters_only_trans: "counters_only a b \<Longrightarrow> counters_only b c \<Longrightarrow> counters_only a c"
  unfolding counters_only_def by (rule same_except_trans)

lemma marked_inode:
  assumes u: "layout_ok u" and l: "length cg = bs u" and ok: "cg_ok u cg" "live cg" and i: "0 \<le> i" "i < ipg (sb u)"
    and s: "set_inode_state cg i v = Some cg1" and c: "counters_only cg1 cg2"
  shows "length cg2 = bs u" "live cg2" "cg_ok u cg2" "group_frags u g cg2 = group_frags u g cg"
    "\<And>j. 0 \<le> j \<Longrightarrow> j < ipg (sb u) \<Longrightarrow> is_inode_used cg2 j = (if j = i then Some v else is_inode_used cg j)"
    "\<And>j. 0 \<le> j \<Longrightarrow> j < fpg (sb u) \<Longrightarrow> is_frag_free cg2 j = is_frag_free cg j"
proof -
  note bi = inode_bit_inside [OF u l i]
  have l1: "length cg1 = length cg" by (rule set_inode_state_length [OF s])
  have k1: "cg1 ! k = cg ! k" if "k < 724 \<or> 980 \<le> k" for k using imap.upd_frame [OF s bi(1)] bi(2) that by auto
  have k2: "length cg2 = length cg1" "\<And>k. k < 24 \<or> 724 \<le> k \<Longrightarrow> cg2 ! k = cg1 ! k" using c by (auto simp: counters_only_def same_except_def)
  show "length cg2 = bs u" using k2(1) l1 l by simp
  have e: "u32 cg2 980 = u32 cg 980" "u32 cg2 20 = u32 cg 20" using k1 k2 l1 by (auto intro!: u32_cong)
  show lv: "live cg2" using ok(2) e by (simp add: live_def)
  show "cg_ok u cg2" "group_frags u g cg2 = group_frags u g cg" using ok e lv by (simp_all add: cg_ok_def group_frags_def)
  show "is_inode_used cg2 j = (if j = i then Some v else is_inode_used cg j)" if j: "0 \<le> j" "j < ipg (sb u)" for j
  proof -
    have "j < 2048" using j geometry_facts(13) [OF layout_facts(1) [OF u]] by linarith
    then have "is_inode_used cg2 j = is_inode_used cg1 j" using k2 j by (intro is_inode_used_cong) auto
    then show ?thesis using imap.tst_upd [OF s bi(1) inode_bit_inside(1) [OF u l j]] by simp
  qed
  show "is_frag_free cg2 j = is_frag_free cg j" if j: "0 \<le> j" "j < fpg (sb u)" for j
  proof -
    have "j < 2 ^ 40" using j geometry_pos(7) [OF layout_facts(1) [OF u]] by simp
    then show ?thesis using j k1 k2 l1 by (intro is_frag_free_cong) auto
  qed
qed

lemma i64_small: "0 \<le> x \<Longrightarrow> x < 2 ^ 63 \<Longrightarrow> i64 x = x"
  by (simp add: i64_id in_i64_def)

lemma local_inode:
  assumes u: "layout_ok u" and c: "valid_cg u c" and i: "0 \<le> i" "i < ipg (sb u)"
  shows "i64 (i64 (c * ipg (sb u)) + i) = c * ipg (sb u) + i" "valid_ino (sb u) (c * ipg (sb u) + i)"
    "(c * ipg (sb u) + i) div ipg (sb u) = c" "(c * ipg (sb u) + i) mod ipg (sb u) = i"
proof -
  note g = layout_facts(1) [OF u]
  have n: "0 < ipg (sb u)" "ipg (sb u) \<le> 2048" "ncg (sb u) < 2 ^ 32" "0 \<le> c" "c < ncg (sb u)"
    using geometry_facts(12,13) [OF g] geometry_pos(8) [OF g] c by (auto simp: valid_cg_def)
  have le: "c * ipg (sb u) + ipg (sb u) \<le> ncg (sb u) * ipg (sb u)"
    using n mult_right_mono [of "c + 1" "ncg (sb u)" "ipg (sb u)"] by (simp add: algebra_simps)
  have "ncg (sb u) * ipg (sb u) \<le> 2 ^ 32 * 2048" using n by (intro mult_mono) auto
  then have b: "c * ipg (sb u) + i < 2 ^ 63" "c * ipg (sb u) < 2 ^ 63" using le i n(1) by simp_all
  have p: "0 \<le> c * ipg (sb u)" using n by simp
  show "valid_ino (sb u) (c * ipg (sb u) + i)" using le p i by (simp add: valid_ino_def)
  have "i64 (c * ipg (sb u)) = c * ipg (sb u)" by (rule i64_small [OF p b(2)])
  then show "i64 (i64 (c * ipg (sb u)) + i) = c * ipg (sb u) + i" using i64_small [OF add_nonneg_nonneg [OF p i(1)] b(1)] by simp
  show "(c * ipg (sb u) + i) div ipg (sb u) = c" "(c * ipg (sb u) + i) mod ipg (sb u) = i" using i n by simp_all
qed

text \<open>The search visits every inode of the group once, from the rotor on.\<close>

lemma find_free_inode_total:
  assumes u: "layout_ok u" and l: "length cg = bs u"
  shows "(\<exists>i. find_free_inode (sb u) cg = Some (Some i) \<and> 0 \<le> i \<and> i < ipg (sb u) \<and> is_inode_used cg i = Some False)
    \<or> (find_free_inode (sb u) cg = Some None \<and> (\<forall>i. 0 \<le> i \<and> i < ipg (sb u) \<longrightarrow> is_inode_used cg i = Some True))"
proof -
  note g = layout_facts(1) [OF u]
  have p: "0 < ipg (sb u)" "ipg (sb u) \<le> 2048" using geometry_facts(12,13) [OF g] by auto
  obtain r where r: "u32 cg UFS_CG_IROTOR_OFFSET = Some r" using u32_total [of UFS_CG_IROTOR_OFFSET cg] l layout_facts(5) [OF u] by auto
  define s where "s = uint r smod ipg (sb u)"
  have s: "0 \<le> s" "s < ipg (sb u)" using p by (simp_all add: s_def smod_nonneg)
  let ?xs = "map (\<lambda>off. i64 (s + off) smod ipg (sb u)) [0..ipg (sb u) - 1]"
  have m: "i64 (s + off) smod ipg (sb u) = (s + off) mod ipg (sb u)" if "off \<in> set [0..ipg (sb u) - 1]" for off
    using that s p by (simp add: i64_id in_i64_def smod_nonneg)
  have rng: "0 \<le> i \<and> i < ipg (sb u)" if "i \<in> set ?xs" for i using that m p by auto
  have all: "i \<in> set ?xs" if "0 \<le> i" "i < ipg (sb u)" for i
  proof -
    have "(i - s) mod ipg (sb u) \<in> set [0..ipg (sb u) - 1]" using p by (simp add: pos_mod_bound)
    moreover have "(s + (i - s) mod ipg (sb u)) mod ipg (sb u) = i" using that by (simp add: mod_simps)
    ultimately show ?thesis using m by (force simp del: set_upto)
  qed
  let ?p = "\<lambda>c. do { used \<leftarrow> is_inode_used cg c; Some (\<not> used) }"
  have t: "?p i \<noteq> None" if "i \<in> set ?xs" for i
    using imap.tst_total [OF inode_bit_inside(1) [OF u l, of i]] rng [OF that] by auto
  have f: "find_free_inode (sb u) cg = mfind ?p ?xs" by (simp add: find_free_inode_def r s_def Let_def)
  show ?thesis
  proof (cases "mfind ?p ?xs")
    case None
    then show ?thesis using mfind_total [of ?xs ?p] t by blast
  next
    case (Some o')
    show ?thesis
    proof (cases o')
      case None
      then have "is_inode_used cg i = Some True" if "0 \<le> i" "i < ipg (sb u)" for i
        using mfind_Some_NoneD [of ?p ?xs i] Some all [OF that] by (auto simp: bind_eq_Some_conv)
      then show ?thesis using f Some None by simp
    next
      case (Some i)
      then have "i \<in> set ?xs" "?p i = Some True" using mfind_Some_SomeD [of ?p ?xs i] \<open>mfind ?p ?xs = Some o'\<close> by auto
      then show ?thesis using f Some \<open>mfind ?p ?xs = Some o'\<close> rng [of i] by (auto simp: bind_eq_Some_conv)
    qed
  qed
qed


section \<open>Taking an inode\<close>

text \<open>What the search for an inode may change: pristine groups are initialised, and the inodes of \<open>S\<close> become used.\<close>

definition grows :: "ufs \<Rightarrow> int set \<Rightarrow> image \<Rightarrow> image \<Rightarrow> bool" where
  "grows u S img img' \<longleftrightarrow> alloc_skip u img img'
     \<and> (\<forall>c. valid_cg u c \<longrightarrow> live (cg_view u img c) \<longrightarrow> live (cg_view u img' c))
     \<and> (\<forall>m. valid_ino (sb u) m \<longrightarrow> inode_used u img m \<longrightarrow> inode_used u img' m)
     \<and> (\<forall>m. valid_ino (sb u) m \<longrightarrow> live (cg_view u img (m div ipg (sb u))) \<longrightarrow> inode_used u img' m \<longrightarrow> inode_used u img m \<or> m \<in> S)"

lemma ino_group: "layout_ok u \<Longrightarrow> valid_ino (sb u) m \<Longrightarrow> valid_cg u (m div ipg (sb u))"
  using valid_ino_group(1,2) [OF layout_facts(1)] by (simp add: valid_cg_def)

lemma grows_refl: "cgs_ok u img \<Longrightarrow> grows u {} img img"
  by (simp add: grows_def alloc_skip_refl)

lemma grows_trans:
  assumes u: "layout_ok u" and g: "grows u {} a b" "grows u S b c"
  shows "grows u S a c"
proof -
  have "alloc_skip u a c" using g alloc_skip_trans unfolding grows_def by blast
  then show ?thesis using g ino_group [OF u] unfolding grows_def by blast
qed

lemma read_allocatable_grows:
  assumes u: "layout_ok u" and c: "valid_cg u c" and ok: "cgs_ok u img"
    and r: "read_allocatable_cg_block u c img = Some (r, img1)"
  shows "grows u {} img img1"
proof -
  note ra = read_allocatable_spec [OF assms]
  have v: "cg_view u img1 d = cg_view u img d" if "valid_cg u d" "live (cg_view u img d)" for d
    using ra(4,5) that by (cases "d = c") auto
  then have "inode_used u img1 m \<longleftrightarrow> inode_used u img m" if "valid_ino (sb u) m" "live (cg_view u img (m div ipg (sb u)))" for m
    using ino_group [OF u that(1)] that(2) by (simp add: inode_used_def)
  then show ?thesis
    using read_allocatable_skip [OF assms] v unfolding grows_def by (auto simp: inode_used_def)
qed

text \<open>Replacing the descriptor of one group by one with one inode bit changed.\<close>

lemma inode_commit:
  assumes u: "layout_ok u" and c: "valid_cg u c" and ok: "cgs_ok u img" and lv: "live (cg_view u img c)"
    and i: "0 \<le> i" "i < ipg (sb u)"
    and s: "set_inode_state (cg_view u img c) i w = Some cg1" "counters_only cg1 cg2"
    and d: "\<And>d. valid_cg u d \<Longrightarrow> cg_view u img' d = (if d = c then cg2 else cg_view u img d)"
    and m: "same_except (meta_byte u) img img'"
  shows "cgs_ok u img'" "\<And>x. valid_cg u (x div fpg (sb u)) \<Longrightarrow> busy u img' x = busy u img x"
    "\<And>g. valid_cg u g \<Longrightarrow> live (cg_view u img' g) = live (cg_view u img g)"
    "\<And>n. valid_ino (sb u) n \<Longrightarrow> inode_used u img' n = (if n = c * ipg (sb u) + i then w else inode_used u img n)"
proof -
  have l: "length (cg_view u img c) = bs u" "cg_ok u (cg_view u img c)"
    using cg_view_length [OF cgs_okD(1) [OF ok] c] cgs_okD(2) [OF ok c] by auto
  note mk = marked_inode [OF u l lv i s]
  show "cgs_ok u img'" using mk(4) by (intro cgs_ok_replace [OF ok same_except_length [OF m] mk(3) _ d]) auto
  have fp: "0 < fpg (sb u)" "0 < ipg (sb u)" using geometry_facts(17,12) [OF layout_facts(1) [OF u]] by auto
  show "busy u img' x = busy u img x" if "valid_cg u (x div fpg (sb u))" for x
    using d [OF that] mk(2,6) lv fp by (simp add: busy_def)
  show "live (cg_view u img' g) = live (cg_view u img g)" if "valid_cg u g" for g using d [OF that] mk(2) lv by simp
  show "inode_used u img' n = (if n = c * ipg (sb u) + i then w else inode_used u img n)" if n: "valid_ino (sb u) n" for n
  proof -
    have "n = c * ipg (sb u) + i \<longleftrightarrow> n div ipg (sb u) = c \<and> n mod ipg (sb u) = i"
      using local_inode(3,4) [OF u c i] div_mult_mod_eq [of n "ipg (sb u)"] by auto
    then show ?thesis
      using d [OF ino_group [OF u n]] mk(2,5) lv fp by (auto simp: inode_used_def)
  qed
qed

text \<open>The writes that follow an edited descriptor: the block itself and the totals of the superblock.\<close>

lemma inode_writes:
  assumes u: "layout_ok u" and c: "valid_cg u c" and f: "cg_fits u img" and l: "length cg2 = bs u"
  shows "\<exists>img2 img3 img4. write_cg_block img u c cg2 = Some img2 \<and> adjust_superblock_free_inodes img2 u e = Some img3
    \<and> adjust_superblock_directory_count img3 u e' = Some img4
    \<and> (\<forall>img' \<in> {img3, img4}. (\<forall>d. valid_cg u d \<longrightarrow> cg_view u img' d = (if d = c then cg2 else cg_view u img d))
        \<and> same_except (meta_byte u) img img')"
proof -
  obtain img2 where w: "write_cg_block img u c cg2 = Some img2" using write_cg_block_total [OF u c f l] by auto
  note wv = write_cg_block_view [OF u c l w]
  have f2: "cg_fits u img2" using f cg_fits_length [OF same_except_length [OF wv(2)]] by simp
  obtain img3 where a: "adjust_superblock_free_inodes img2 u e = Some img3" using adjust_superblock_total(2) [OF u f2] by auto
  note s3 = adjust_superblock_same(2) [OF a]
  have f3: "cg_fits u img3" using f2 cg_fits_length [OF same_except_length [OF s3]] by simp
  obtain img4 where b: "adjust_superblock_directory_count img3 u e' = Some img4" using adjust_superblock_total(3) [OF u f3] by auto
  note s4 = same_except_trans [OF s3 adjust_superblock_same(3) [OF b]]
  have "cg_view u img' d = (if d = c then cg2 else cg_view u img d)" if "same_except (super_byte u) img2 img'" "valid_cg u d" for img' d
    using cg_view_super [OF u that(2,1)] wv(1) wv(3) [OF that(2)] by simp
  moreover have "same_except (meta_byte u) img img'" if "same_except (super_byte u) img2 img'" for img'
    using same_except_trans [OF same_except_mono [OF wv(2) cg_byte_meta [OF c]] same_except_mono [OF that super_byte_meta]] .
  ultimately show ?thesis using w a b s3 s4 by blast
qed

lemma inode_edits:
  assumes u: "layout_ok u" and l: "length cg = bs u" and i: "0 \<le> i" "i < ipg (sb u)"
  shows "\<exists>cg1 cg2. set_inode_state cg i True = Some cg1 \<and> counters_only cg1 cg2 \<and> length cg2 = bs u \<and>
      do { c \<leftarrow> set_inode_state cg i True; c \<leftarrow> put_u32 c UFS_CG_IROTOR_OFFSET (of_int i); c \<leftarrow> adjust_cg_free_inodes c (- 1);
           if dir then adjust_cg_directory_count c 1 else Some c } = Some cg2"
    "\<exists>cg1 cg2. set_inode_state cg i False = Some cg1 \<and> counters_only cg1 cg2 \<and> length cg2 = bs u \<and>
      do { c \<leftarrow> set_inode_state cg i False; c \<leftarrow> adjust_cg_free_inodes c 1;
           if dir then adjust_cg_directory_count c (- 1) else Some c } = Some cg2"
proof -
  have b: "52 \<le> bs u" using layout_facts(5) [OF u] by simp
  have st: "\<exists>cg1. set_inode_state cg i v = Some cg1 \<and> length cg1 = bs u" for v
    using imap.upd_total [OF inode_bit_inside(1) [OF u l i], of v] set_inode_state_length [of cg i v] l by auto
  have ad: "\<exists>c'. adjust_u32_at c off d = Some c' \<and> length c' = bs u \<and> counters_only c c'"
    if "length c = bs u" "24 \<le> off" "off \<le> 48" for c off d
    using adjust_total [of off c d] counters_onlyI(1) [of c off d] that b
    by (fastforce simp: counters_only_def dest: same_except_length)
  have tail: "\<exists>cg2. (do { c \<leftarrow> adjust_cg_free_inodes c e; if dir then adjust_cg_directory_count c e' else Some c }) = Some cg2
      \<and> length cg2 = bs u \<and> counters_only c cg2" if lc: "length c = bs u" for c e e'
  proof -
    obtain c1 where c1: "adjust_u32_at c 32 e = Some c1" "length c1 = bs u" "counters_only c c1" using ad [OF lc, of 32] by auto
    obtain c2 where "adjust_u32_at c1 24 e' = Some c2" "length c2 = bs u" "counters_only c1 c2" using ad [OF c1(2), of 24] by auto
    then show ?thesis
      using c1 counters_only_trans [of c c1 c2] by (cases dir) (simp_all add: adjust_cg_free_inodes_def adjust_cg_directory_count_def)
  qed
  obtain cg1 where cg1: "set_inode_state cg i True = Some cg1" "length cg1 = bs u" using st by blast
  obtain c where c: "put_u32 cg1 48 (of_int i) = Some c" using c32.write_total [of 48 cg1] cg1(2) b by auto
  have cl: "length c = bs u" "counters_only cg1 c" using c cg1(2) counters_onlyI(2) [OF c] by (auto simp: c32.write_length)
  obtain cg2 where "(do { c \<leftarrow> adjust_cg_free_inodes c (- 1); if dir then adjust_cg_directory_count c 1 else Some c }) = Some cg2"
    "length cg2 = bs u" "counters_only c cg2" using tail [OF cl(1), of "- 1" 1] by auto
  then show "\<exists>cg1 cg2. set_inode_state cg i True = Some cg1 \<and> counters_only cg1 cg2 \<and> length cg2 = bs u \<and>
      do { c \<leftarrow> set_inode_state cg i True; c \<leftarrow> put_u32 c UFS_CG_IROTOR_OFFSET (of_int i); c \<leftarrow> adjust_cg_free_inodes c (- 1);
           if dir then adjust_cg_directory_count c 1 else Some c } = Some cg2"
    using cg1(1) c counters_only_trans [OF cl(2)] by auto
  obtain cg1 where f1: "set_inode_state cg i False = Some cg1" "length cg1 = bs u" using st by blast
  then show "\<exists>cg1 cg2. set_inode_state cg i False = Some cg1 \<and> counters_only cg1 cg2 \<and> length cg2 = bs u \<and>
      do { c \<leftarrow> set_inode_state cg i False; c \<leftarrow> adjust_cg_free_inodes c 1;
           if dir then adjust_cg_directory_count c (- 1) else Some c } = Some cg2"
    using tail [OF f1(2), of 1 "- 1"] by auto
qed

lemma choose_inode_total:
  assumes u: "layout_ok u" and l: "length cg = bs u" and p: "\<forall>p. pref = Some p \<longrightarrow> 0 \<le> p \<and> p < ipg (sb u)"
  shows "(\<exists>i. choose_inode (sb u) cg a pref = Some (Some i) \<and> 0 \<le> i \<and> i < ipg (sb u) \<and> is_inode_used cg i = Some False)
    \<or> (choose_inode (sb u) cg a pref = Some None \<and> (\<forall>i. 0 \<le> i \<and> i < ipg (sb u) \<longrightarrow> is_inode_used cg i = Some True))"
proof (cases "\<exists>q. a = 0 \<and> pref = Some q \<and> is_inode_used cg q = Some False")
  case True
  then show ?thesis using p by (auto simp: choose_inode_def)
next
  case False
  have "choose_inode (sb u) cg a pref = find_free_inode (sb u) cg"
  proof (cases "if a = 0 then pref else None")
    case (Some q)
    then have q: "a = 0" "pref = Some q" by (auto split: if_splits)
    then obtain b where "is_inode_used cg q = Some b" using imap.tst_total [OF inode_bit_inside(1) [OF u l, of q]] p by blast
    then show ?thesis using False q by (cases b) (auto simp: choose_inode_def)
  qed (auto simp: choose_inode_def)
  then show ?thesis using find_free_inode_total [OF u l] by simp
qed

definition taken :: "ufs \<Rightarrow> image \<Rightarrow> int \<Rightarrow> image \<Rightarrow> bool" where
  "taken u img n img' \<longleftrightarrow> valid_ino (sb u) n \<and> \<not> inode_used u img n \<and> inode_used u img' n \<and> grows u {n} img img'"

lemma take_inode_result:
  assumes u: "layout_ok u" and sc: "0 \<le> sc" "sc < 2 ^ 62" "a \<in> set [0..ncg (sb u) - 1]" and ok: "cgs_ok u img"
    and p: "\<forall>p. pref = Some p \<longrightarrow> 0 \<le> p \<and> p < ipg (sb u)"
  defines "c \<equiv> i64 (sc + a) smod ncg (sb u)"
  shows "(\<exists>n img'. take_inode u sc pref dir a img = Some (Inr (Some n), img') \<and> taken u img n img')
    \<or> (\<exists>img'. take_inode u sc pref dir a img = Some (Inr None, img') \<and> grows u {} img img'
        \<and> (live (cg_view u img c) \<longrightarrow> u32 (cg_view u img c) UFS_CG_CS_NIFREE_OFFSET = Some 0
             \<or> (\<forall>i. 0 \<le> i \<and> i < ipg (sb u) \<longrightarrow> is_inode_used (cg_view u img c) i = Some True)))"
proof -
  have c: "valid_cg u c" unfolding c_def by (rule cg_of_attempt [OF u sc])
  obtain img1 cg where ra: "read_allocatable_cg_block u c img = Some (Inr cg, img1)" and cg: "cg = cg_view u img1 c"
    using read_allocatable_total [OF u c ok] by blast
  note sp = read_allocatable_spec [OF u c ok ra] and gr = read_allocatable_grows [OF u c ok ra]
  have l: "length cg = bs u" using cg cg_view_length [OF cgs_okD(1) [OF sp(2)] c] by simp
  have same: "live (cg_view u img c) \<Longrightarrow> cg_view u img c = cg" using sp(4) cg by simp
  obtain m nf where m: "u32 cg 980 = Some m" and nf: "u32 cg 32 = Some nf"
    using u32_total [of 980 cg] u32_total [of 32 cg] l layout_facts(5) [OF u] by auto
  show ?thesis
  proof (cases "m = UFS_CG_MAGIC \<and> nf \<noteq> 0 \<and> choose_inode (sb u) cg a pref \<noteq> Some None")
    case False
    then have "take_inode u sc pref dir a img = Some (Inr None, img1)"
      using ra m nf unfolding take_inode_def Let_def c_def [symmetric] by (auto simp: wm_run)
    moreover have "u32 cg 32 = Some 0 \<or> (\<forall>i. 0 \<le> i \<and> i < ipg (sb u) \<longrightarrow> is_inode_used cg i = Some True)" if "live cg"
      using False nf m that choose_inode_total [where pref = pref, OF u l p, of a] by (auto simp: live_def)
    ultimately show ?thesis using gr same by auto
  next
    case True
    then obtain i where i: "choose_inode (sb u) cg a pref = Some (Some i)" "0 \<le> i" "i < ipg (sb u)" "is_inode_used cg i = Some False"
      using choose_inode_total [where pref = pref, OF u l p, of a] by auto
    have lv: "live cg" using True m by (simp add: live_def)
    obtain cg1 cg2 where e: "set_inode_state cg i True = Some cg1" "counters_only cg1 cg2" "length cg2 = bs u"
      "do { c \<leftarrow> set_inode_state cg i True; c \<leftarrow> put_u32 c UFS_CG_IROTOR_OFFSET (of_int i); c \<leftarrow> adjust_cg_free_inodes c (- 1);
           if dir then adjust_cg_directory_count c 1 else Some c } = Some cg2"
      using inode_edits(1) [OF u l i(2,3), of dir] by blast
    obtain img2 img3 img4 where w: "write_cg_block img1 u c cg2 = Some img2" "adjust_superblock_free_inodes img2 u (- 1) = Some img3"
      "adjust_superblock_directory_count img3 u 1 = Some img4"
      and v: "\<And>img'. img' = img3 \<or> img' = img4 \<Longrightarrow>
        (\<forall>d. valid_cg u d \<longrightarrow> cg_view u img' d = (if d = c then cg2 else cg_view u img1 d)) \<and> same_except (meta_byte u) img1 img'"
      using inode_writes [OF u c cgs_okD(1) [OF sp(2)] e(3), of "- 1" 1] by blast
    let ?img = "if dir then img4 else img3" let ?n = "c * ipg (sb u) + i"
    note li = local_inode [OF u c i(2,3)]
    have t: "take_inode u sc pref dir a img = Some (Inr (Some ?n), ?img)"
      using ra m nf True i(1) e(4) w li(1) unfolding take_inode_def Let_def c_def [symmetric] by (cases dir) (simp_all add: wm_run)
    have vi: "\<And>d. valid_cg u d \<Longrightarrow> cg_view u ?img d = (if d = c then cg2 else cg_view u img1 d)" "same_except (meta_byte u) img1 ?img"
      using v [of ?img] by auto
    note cm = inode_commit [OF u c sp(2) _ i(2,3) _ e(2) vi, folded cg, OF lv e(1)]
    have "grows u {?n} img1 ?img" using cm vi(2) by (auto simp: grows_def alloc_skip_def)
    then have g: "grows u {?n} img ?img" by (rule grows_trans [OF u gr])
    have nu: "\<not> inode_used u img1 ?n" using li(3,4) i(4) cg by (simp add: inode_used_def)
    then have "\<not> inode_used u img ?n" using gr li(2) by (auto simp: grows_def)
    then have "taken u img ?n ?img" using g cm(4) [OF _ li(2)] li(2) by (simp add: taken_def)
    then show ?thesis using t by blast
  qed
qed


text \<open>A loop over candidates, with a relation to the state it started from.\<close>

lemma wfirst_result:
  assumes "\<And>x s. x \<in> set xs \<Longrightarrow> P s \<Longrightarrow>
      (\<exists>y s'. f x s = Some (Inr (Some y), s') \<and> Q y s') \<or> (\<exists>s'. f x s = Some (Inr None, s') \<and> P s' \<and> R x)" and "P s"
  shows "(\<exists>y s'. wfirst xs f e s = Some (Inr y, s') \<and> Q y s')
    \<or> (\<exists>s'. wfirst xs f e s = Some (Inl e, s') \<and> P s' \<and> (\<forall>x \<in> set xs. R x))"
  using assms
proof (induction xs arbitrary: s)
  case (Cons x xs)
  from Cons.prems(1) [of x s] Cons.prems(2)
  consider (hit) y s' where "f x s = Some (Inr (Some y), s')" "Q y s'" | (miss) s' where "f x s = Some (Inr None, s')" "P s'" "R x" by auto
  then show ?case
  proof cases
    case hit
    then show ?thesis by (simp add: wbind_def wreturn_def)
  next
    case miss
    have "(\<exists>y t. wfirst xs f e s' = Some (Inr y, t) \<and> Q y t) \<or> (\<exists>t. wfirst xs f e s' = Some (Inl e, t) \<and> P t \<and> (\<forall>x \<in> set xs. R x))"
      by (rule Cons.IH [OF Cons.prems(1) miss(2)]) simp_all
    then show ?thesis using miss by (simp add: wbind_def)
  qed
qed (simp add: wfail_def)

text \<open>A group without a free inode to give: its count is zero, or every inode is marked used.\<close>

definition no_inodes :: "ufs \<Rightarrow> bytes \<Rightarrow> bool" where
  "no_inodes u cg \<longleftrightarrow> u32 cg UFS_CG_CS_NIFREE_OFFSET = Some 0
     \<or> (\<forall>i. 0 \<le> i \<and> i < ipg (sb u) \<longrightarrow> is_inode_used cg i = Some True)"

lemma taken_trans: "layout_ok u \<Longrightarrow> grows u {} a b \<Longrightarrow> taken u b n c \<Longrightarrow> taken u a n c"
proof -
  assume u: "layout_ok u" and g: "grows u {} a b" and t: "taken u b n c"
  then have "valid_ino (sb u) n" "\<not> inode_used u b n" "inode_used u c n" "grows u {n} a c"
    using grows_trans [OF u g] by (auto simp: taken_def)
  moreover have "inode_used u a n \<Longrightarrow> inode_used u b n" using g calculation(1) unfolding grows_def by blast
  ultimately show "taken u a n c" unfolding taken_def by blast
qed

lemma allocate_inode_result:
  assumes u: "layout_ok u" and ok: "cgs_ok u img" and p: "\<forall>n. pref = Some n \<longrightarrow> valid_ino (sb u) n"
  shows "(\<exists>n img'. allocate_inode u pref dir img = Some (Inr n, img') \<and> taken u img n img')
    \<or> (\<exists>img'. allocate_inode u pref dir img = Some (Inl NoFreeInodes, img') \<and> grows u {} img img'
         \<and> (\<forall>c. valid_cg u c \<longrightarrow> live (cg_view u img c) \<longrightarrow> no_inodes u (cg_view u img c)))"
proof -
  define sc where "sc = (case pref of None \<Rightarrow> 0 | Some i \<Rightarrow> itog (sb u) i)"
  define pl where "pl = map_option (\<lambda>i. i smod ipg (sb u)) pref"
  note g = layout_facts(1) [OF u]
  have ip: "0 < ipg (sb u)" using geometry_facts(12) [OF g] by auto
  have vb: "n < 2 ^ 62" if "valid_ino (sb u) n" for n
  proof -
    have "ncg (sb u) * ipg (sb u) \<le> 2 ^ 32 * 2048"
      using geometry_facts(13) [OF g] geometry_pos(8) [OF g] ip by (intro mult_mono) auto
    then show ?thesis using that by (simp add: valid_ino_def)
  qed
  have sc: "0 \<le> sc" "sc < 2 ^ 62" using itog_bounds [OF u] p vb by (auto simp: sc_def valid_ino_def split: option.split)
  have pl: "\<forall>q. pl = Some q \<longrightarrow> 0 \<le> q \<and> q < ipg (sb u)"
    using p ip by (auto simp: pl_def smod_nonneg valid_ino_def)
  have run: "allocate_inode u pref dir = wfirst [0..ncg (sb u) - 1] (take_inode u sc pl dir) NoFreeInodes"
    by (simp add: allocate_inode_def sc_def pl_def Let_def)
  let ?c = "\<lambda>a. i64 (sc + a) smod ncg (sb u)"
  have "(\<exists>n img'. wfirst [0..ncg (sb u) - 1] (take_inode u sc pl dir) NoFreeInodes img = Some (Inr n, img') \<and> taken u img n img')
    \<or> (\<exists>img'. wfirst [0..ncg (sb u) - 1] (take_inode u sc pl dir) NoFreeInodes img = Some (Inl NoFreeInodes, img') \<and>
         (grows u {} img img' \<and> (\<forall>c. valid_cg u c \<longrightarrow> live (cg_view u img c) \<longrightarrow> cg_view u img' c = cg_view u img c))
         \<and> (\<forall>a \<in> set [0..ncg (sb u) - 1]. live (cg_view u img (?c a)) \<longrightarrow> no_inodes u (cg_view u img (?c a))))"
  proof (rule wfirst_result)
    fix a s
    assume a: "a \<in> set [0..ncg (sb u) - 1]"
      and s: "grows u {} img s \<and> (\<forall>c. valid_cg u c \<longrightarrow> live (cg_view u img c) \<longrightarrow> cg_view u s c = cg_view u img c)"
    have ok': "cgs_ok u s" using s by (simp add: grows_def alloc_skip_def)
    note v = cg_of_attempt [OF u sc a]
    show "(\<exists>y s'. take_inode u sc pl dir a s = Some (Inr (Some y), s') \<and> taken u img y s')
      \<or> (\<exists>s'. take_inode u sc pl dir a s = Some (Inr None, s')
        \<and> (grows u {} img s' \<and> (\<forall>c. valid_cg u c \<longrightarrow> live (cg_view u img c) \<longrightarrow> cg_view u s' c = cg_view u img c))
        \<and> (live (cg_view u img (?c a)) \<longrightarrow> no_inodes u (cg_view u img (?c a))))"
      using take_inode_result [where pref = pl and dir = dir, OF u sc a ok' pl]
    proof (elim disjE exE conjE)
      fix s' assume t: "take_inode u sc pl dir a s = Some (Inr None, s')" "grows u {} s s'"
        and n: "live (cg_view u s (?c a)) \<longrightarrow> u32 (cg_view u s (?c a)) UFS_CG_CS_NIFREE_OFFSET = Some 0
             \<or> (\<forall>i. 0 \<le> i \<and> i < ipg (sb u) \<longrightarrow> is_inode_used (cg_view u s (?c a)) i = Some True)"
      obtain cg where rd: "read_allocatable_cg_block u (?c a) s = Some (Inr cg, s')"
        using t(1) by (auto simp: take_inode_def Let_def wm_simps split: if_splits option.splits)
      have "cg_view u s' c = cg_view u img c" if "valid_cg u c" "live (cg_view u img c)" for c
        using read_allocatable_spec(4,5) [OF u v ok' rd] s that by (cases "c = ?c a") auto
      then show ?thesis using t s n grows_trans [OF u, of img s "{}" s'] v by (auto simp: no_inodes_def)
    qed (use s taken_trans [OF u] in blast)
  qed (use grows_refl [OF ok] in simp)
  then show ?thesis unfolding run using attempt_of_cg [OF u sc] by blast
qed

section \<open>Releasing an inode\<close>

lemma free_inode_result:
  assumes u: "layout_ok u" and n: "valid_ino (sb u) n" and ok: "cgs_ok u img"
  defines "c \<equiv> n div ipg (sb u)"
  shows "free_inode u n dir img =
      (if \<not> live (cg_view u img c) then Some (Inl (InvalidCgFreeingInode c n), img)
       else if \<not> inode_used u img n then Some (Inl (InodeAlreadyFree n), img)
       else free_inode u n dir img)"
    "inode_used u img n \<Longrightarrow> \<exists>img'. free_inode u n dir img = Some (Inr (), img') \<and> cgs_ok u img' \<and> same_except (meta_byte u) img img'
       \<and> (\<forall>x. valid_cg u (x div fpg (sb u)) \<longrightarrow> busy u img' x = busy u img x)
       \<and> (\<forall>m. valid_ino (sb u) m \<longrightarrow> inode_used u img' m = (m \<noteq> n \<and> inode_used u img m))"
proof -
  note g = layout_facts(1) [OF u]
  let ?i = "n mod ipg (sb u)" let ?cg = "cg_view u img c"
  have c: "valid_cg u c" unfolding c_def by (rule ino_group [OF u n])
  have i: "0 \<le> ?i" "?i < ipg (sb u)" and n0: "0 \<le> n" using valid_ino_group(3,4) [OF g n] n by (auto simp: valid_ino_def)
  have ip: "0 < ipg (sb u)" using geometry_facts(12) [OF g] by auto
  have e: "itog (sb u) n = c" "n smod ipg (sb u) = ?i" "c * ipg (sb u) + ?i = n"
    using n0 ip by (simp_all add: itog_def sdiv_nonneg smod_nonneg c_def)
  have l: "length ?cg = bs u" by (rule cg_view_length [OF cgs_okD(1) [OF ok] c])
  have rd: "read_cg_block img u c = Some ?cg" by (rule read_cg_block_view [OF u c cgs_okD(1) [OF ok]])
  obtain m where m: "u32 ?cg 980 = Some m" using u32_total [of 980 ?cg] l layout_facts(5) [OF u] by auto
  obtain b where b: "is_inode_used ?cg ?i = Some b" using imap.tst_total [OF inode_bit_inside(1) [OF u l i]] by blast
  note run = free_inode_def [of u n dir, unfolded Let_def e]
  show "free_inode u n dir img =
      (if \<not> live ?cg then Some (Inl (InvalidCgFreeingInode c n), img)
       else if \<not> inode_used u img n then Some (Inl (InodeAlreadyFree n), img)
       else free_inode u n dir img)"
    using rd m b by (auto simp: run wm_run live_def inode_used_def c_def [symmetric])
  assume us: "inode_used u img n"
  then have lv: "live ?cg" "b" using b by (auto simp: inode_used_def c_def)
  obtain cg1 cg2 where ed: "set_inode_state ?cg ?i False = Some cg1" "counters_only cg1 cg2" "length cg2 = bs u"
    "do { c \<leftarrow> set_inode_state ?cg ?i False; c \<leftarrow> adjust_cg_free_inodes c 1; if dir then adjust_cg_directory_count c (- 1) else Some c } = Some cg2"
    using inode_edits(2) [OF u l i, of dir] by blast
  obtain img2 img3 img4 where w: "write_cg_block img u c cg2 = Some img2" "adjust_superblock_free_inodes img2 u 1 = Some img3"
    "adjust_superblock_directory_count img3 u (- 1) = Some img4"
    and v: "\<And>img'. img' = img3 \<or> img' = img4 \<Longrightarrow>
      (\<forall>d. valid_cg u d \<longrightarrow> cg_view u img' d = (if d = c then cg2 else cg_view u img d)) \<and> same_except (meta_byte u) img img'"
    using inode_writes [OF u c cgs_okD(1) [OF ok] ed(3), of 1 "- 1"] by blast
  let ?img = "if dir then img4 else img3"
  have r: "free_inode u n dir img = Some (Inr (), ?img)"
    unfolding run using rd m lv b ed(4) w by (cases dir) (simp_all add: wm_run live_def)
  have vi: "\<And>d. valid_cg u d \<Longrightarrow> cg_view u ?img d = (if d = c then cg2 else cg_view u img d)" "same_except (meta_byte u) img ?img"
    using v [of ?img] by auto
  note cm = inode_commit [OF u c ok lv(1) i ed(1,2) vi]
  show "\<exists>img'. free_inode u n dir img = Some (Inr (), img') \<and> cgs_ok u img' \<and> same_except (meta_byte u) img img'
       \<and> (\<forall>x. valid_cg u (x div fpg (sb u)) \<longrightarrow> busy u img' x = busy u img x)
       \<and> (\<forall>m. valid_ino (sb u) m \<longrightarrow> inode_used u img' m = (m \<noteq> n \<and> inode_used u img m))"
    using r cm vi(2) unfolding e(3) by (intro exI [of _ ?img]) auto
qed

section \<open>Properties\<close>

text \<open>C17: Inode allocation is total, exact and complete. It never panics; on success the returned number is an inode
  of the file system that was not in use and now is, every other inode in use and every busy fragment stays so, no
  other inode of an initialised group becomes used, and only metadata changes. It reports that no inode is free only
  when every initialised group has none to give, and then it has at most initialised pristine descriptors.\<close>

theorem allocate_inode_correct:
  assumes "layout_ok u" "cgs_ok u img" "case pref of None \<Rightarrow> True | Some p \<Rightarrow> valid_ino (sb u) p"
  shows "\<exists>r img'. allocate_inode u pref dir img = Some (r, img') \<and> cgs_ok u img' \<and> same_except (meta_byte u) img img'
    \<and> (\<forall>x. valid_cg u (x div fpg (sb u)) \<longrightarrow> busy u img x \<longrightarrow> busy u img' x)
    \<and> (\<forall>m. valid_ino (sb u) m \<longrightarrow> inode_used u img m \<longrightarrow> inode_used u img' m)
    \<and> (\<forall>m. valid_ino (sb u) m \<longrightarrow> live (cg_view u img (m div ipg (sb u))) \<longrightarrow> inode_used u img' m \<longrightarrow>
         inode_used u img m \<or> r = Inr m)
    \<and> (case r of
         Inr n \<Rightarrow> valid_ino (sb u) n \<and> \<not> inode_used u img n \<and> inode_used u img' n
       | Inl e \<Rightarrow> e = NoFreeInodes \<and> (\<forall>c. valid_cg u c \<longrightarrow> live (cg_view u img c) \<longrightarrow> no_inodes u (cg_view u img c)))"
proof -
  have p: "\<forall>n. pref = Some n \<longrightarrow> valid_ino (sb u) n" using assms(3) by (auto split: option.split_asm)
  show ?thesis
    using allocate_inode_result [where pref = pref and dir = dir, OF assms(1,2) p]
  proof (elim disjE exE conjE)
    fix n img' assume r: "allocate_inode u pref dir img = Some (Inr n, img')" "taken u img n img'"
    show ?thesis
      by (rule exI [of _ "Inr n"], rule exI [of _ img']) (use r in \<open>simp add: taken_def grows_def alloc_skip_def\<close>, blast)
  next
    fix img' assume r: "allocate_inode u pref dir img = Some (Inl NoFreeInodes, img')" "grows u {} img img'"
      and n: "\<forall>c. valid_cg u c \<longrightarrow> live (cg_view u img c) \<longrightarrow> no_inodes u (cg_view u img c)"
    show ?thesis
      by (rule exI [of _ "Inl NoFreeInodes"], rule exI [of _ img']) (use r n in \<open>simp add: grows_def alloc_skip_def\<close>)
  qed
qed

theorem allocate_inode_correct_witness:
  "\<exists>n img'. allocate_inode sample_ufs (Some 3) True sample_live = Some (Inr n, img') \<and> inode_used sample_ufs img' n
    \<and> inode_used sample_ufs img' 1 \<and> n \<noteq> 1"
proof -
  have v: "valid_cg sample_ufs 0" by (simp add: sample_groups)
  note p = pristine_cg_bytes_ok [OF sample_layout v sample_live_view]
  have u1: "inode_used sample_ufs sample_live 1" using p(2) p(6) [of 1] by (simp add: inode_used_def)
  have nf: "\<not> no_inodes sample_ufs (cg_view sample_ufs sample_live 0)"
    using p(7) p(6) [of 5] by (auto simp: no_inodes_def in_i64_def intro!: exI [of _ 5])
  have c: "case Some 3 of None \<Rightarrow> True | Some p \<Rightarrow> valid_ino (sb sample_ufs) p" "valid_ino sample_sb 1" by (simp_all add: valid_ino_def)
  obtain r img' where r: "allocate_inode sample_ufs (Some 3) True sample_live = Some (r, img')" "inode_used sample_ufs img' 1"
    "case r of Inr n \<Rightarrow> valid_ino (sb sample_ufs) n \<and> \<not> inode_used sample_ufs sample_live n \<and> inode_used sample_ufs img' n
       | Inl e \<Rightarrow> e = NoFreeInodes \<and> (\<forall>c. valid_cg sample_ufs c \<longrightarrow> live (cg_view sample_ufs sample_live c) \<longrightarrow> no_inodes sample_ufs (cg_view sample_ufs sample_live c))"
    using allocate_inode_correct [OF sample_layout sample_live_ok(1) c(1), of True] u1 c(2) by auto
  then show ?thesis using nf p(2) v u1 by (cases r) auto
qed

text \<open>C18: Releasing an inode is total and exact. In an initialised group an inode in use is freed: afterwards exactly
  it has stopped being in use, no fragment has changed its state, and only metadata has changed. An inode that is not
  in use and a group without a descriptor are refused with an error and nothing changes.\<close>

theorem free_inode_correct:
  assumes "layout_ok u" "valid_ino (sb u) n" "cgs_ok u img"
  shows "if \<not> live (cg_view u img (n div ipg (sb u)))
    then free_inode u n dir img = Some (Inl (InvalidCgFreeingInode (n div ipg (sb u)) n), img)
    else if \<not> inode_used u img n then free_inode u n dir img = Some (Inl (InodeAlreadyFree n), img)
    else \<exists>img'. free_inode u n dir img = Some (Inr (), img') \<and> cgs_ok u img' \<and> same_except (meta_byte u) img img'
       \<and> (\<forall>x. valid_cg u (x div fpg (sb u)) \<longrightarrow> busy u img' x = busy u img x)
       \<and> (\<forall>m. valid_ino (sb u) m \<longrightarrow> inode_used u img' m = (m \<noteq> n \<and> inode_used u img m))"
  using free_inode_result [OF assms, of dir] by (simp split: if_split_asm)

theorem free_inode_correct_witness:
  "\<exists>img'. free_inode sample_ufs 1 False sample_live = Some (Inr (), img') \<and> \<not> inode_used sample_ufs img' 1
    \<and> inode_used sample_ufs img' 0 \<and> free_inode sample_ufs 5 False sample_live = Some (Inl (InodeAlreadyFree 5), sample_live)"
proof -
  have v: "valid_cg sample_ufs 0" by (simp add: sample_groups)
  note p = pristine_cg_bytes_ok [OF sample_layout v sample_live_view]
  have i: "valid_ino (sb sample_ufs) 1" "valid_ino (sb sample_ufs) 0" "valid_ino (sb sample_ufs) 5" by (simp_all add: valid_ino_def)
  have us: "inode_used sample_ufs sample_live 1" "inode_used sample_ufs sample_live 0" "\<not> inode_used sample_ufs sample_live 5"
    using p(2) p(6) [of 0] p(6) [of 1] p(6) [of 5] by (simp_all add: inode_used_def)
  show ?thesis
    using free_inode_correct [OF sample_layout i(1) sample_live_ok(1), of False] free_inode_correct [OF sample_layout i(3) sample_live_ok(1), of False]
      us p(2) i by auto
qed

end
