(* ===== verification/Dir_Insert.thy ===== *)
theory Dir_Insert
  imports Dir_Image Inode_Alloc Namespace
begin

text \<open>
  Insertion into a directory on the image (\<^verbatim>\<open>add_directory_entry\<close> of \<^verbatim>\<open>crates/svr4-ufs/src/write.rs\<close>): the last block
  alone, the blocks that changed, or a new block at the end of the file; the creation of a file in a parent
  directory, which composes inode allocation, the new record and the insertion; and the hard link.
\<close>

section \<open>Adding an entry in place\<close>

text \<open>
  What a successful insertion leaves: the directory, possibly with new blocks, holds one binding more; nothing else that
  is owned and no other inode record has changed.
\<close>

definition entry_added ::
    "ufs \<Rightarrow> int \<Rightarrow> int set \<Rightarrow> inode \<Rightarrow> rstr \<Rightarrow> u32 \<Rightarrow> drec list list \<Rightarrow> image \<Rightarrow> image \<Rightarrow> bool" where
  "entry_added u n A i name ino rss img img' \<longleftrightarrow> others_same u n A img img' \<and>
     (\<exists>i' ds ps d rss' as cs. read_inode img' u n = Some (Some i')
        \<and> i' = i \<lparr> di_size := di_size i', direct_blocks := direct_blocks i', indirect_blocks := indirect_blocks i',
                  di_blocks := di_blocks i' \<rparr>
        \<and> dir_ok u img' i' ds ps d rss' \<and> own u (A \<union> file_cells u i' ds ps) img' \<and> A \<inter> file_cells u i' ds ps = {}
        \<and> dir_list rss = as @ cs \<and> dir_list rss' = as @ (name, ino) # cs)"

lemma in_place_added:
  assumes u: "layout_ok u" and n: "valid_ino (sb u) n" and f: "tables_fit u img" and r: "read_inode img u n = Some (Some i)"
    and s: "stable u A img img'" and d: "dir_ok u img' i ds ps d rss'" "own u (A \<union> file_cells u i ds ps) img'"
    and j: "A \<inter> file_cells u i ds ps = {}" and l: "dir_list rss = as @ cs" "dir_list rss' = as @ (name, ino) # cs"
  shows "entry_added u n A i name ino rss img img'"
proof -
  have "tables_fit u img'" using f tables_fit_length [OF stable_length [OF s]] by simp
  then have "read_inode img' u n = Some (Some i)"
    using r read_inode_iff [OF u n f] read_inode_iff [OF u n] stable_record [OF u n s] by simp
  then show ?thesis
    unfolding entry_added_def using stable_others [OF s] d j l
    by (intro conjI exI [of _ i] exI [of _ ds] exI [of _ ps] exI [of _ d] exI [of _ rss'] exI [of _ as] exI [of _ cs]) simp_all
qed

lemma dir_ok_parts:
  assumes "dir_ok u img i ds ps d rss"
  shows "file_ok u img i ds ps" "stored u (file_allocs u i ds) d img" "length d = unat (di_size i)" "dir_holds d rss"
    "length d = 512 * length rss" "inode_data_blocks img u i = Some ds"
  using assms by (auto simp: dir_ok_def dir_holds_def file_ok_def)

lemma block_holds:
  assumes "dir_holds d rss" "k < length rss"
  shows "dir_holds (take 512 (drop (512 * k) d)) [rss ! k]" "length (take 512 (drop (512 * k) d)) = 512"
proof -
  have c: "chain d (512 * k + 512) (512 * k) (rss ! k)" and l: "512 * k + 512 \<le> length d"
    using assms by (auto simp: dir_holds_def)
  show len: "length (take 512 (drop (512 * k) d)) = 512" using l by simp
  have "chain (take 512 (drop (512 * k) d)) 512 0 (rss ! k)" using c chain_cut [of "512 * k" 512 d 0] l by simp
  then show "dir_holds (take 512 (drop (512 * k) d)) [rss ! k]" using len by (simp add: dir_holds_def)
qed

lemma dir_list_split:
  assumes "k < length rss"
  shows "dir_list (rss[k := rs]) = dir_list (take k rss) @ live_entries rs @ dir_list (drop (Suc k) rss)"
  using assms by (simp add: dir_list_def upd_conv_take_nth_drop)

text \<open>The fast path tries the last block alone.\<close>

lemma add_in_last_block_run:
  assumes u: "layout_ok u" and n: "valid_ino (sb u) n" and f: "tables_fit u img" and r: "read_inode img u n = Some (Some i)"
    and d: "dir_ok u img i ds ps d rss" and o: "own u (A \<union> file_cells u i ds ps) img" "A \<inter> file_cells u i ds ps = {}"
    and nm: "length name \<le> 255" "(of_int ino :: u32) \<noteq> 0"
  shows "add_in_last_block u i name ino img = Some (Inr False, img)
    \<or> (\<exists>img'. add_in_last_block u i name ino img = Some (Inr True, img') \<and> entry_added u n A i name (of_int ino) rss img img')"
proof (cases "length rss \<le> 1")
  case True
  then have "(unat (di_size i) + 511) div 512 * 512 \<le> 512" using dir_ok_parts(3,5) [OF d] by (cases rss) auto
  then show ?thesis by (simp add: add_in_last_block_def Let_def wreturn_def)
next
  case False
  note p = dir_ok_parts [OF d]
  define k where "k = length rss - 1"
  have k: "k < length rss" "512 * k + 512 = length d" "512 * k + 512 \<le> length d" using False p(5) by (auto simp: k_def)
  let ?b = "take 512 (drop (512 * k) d)"
  note b = block_holds [OF p(4) k(1)]
  obtain b' rss' where ins: "insert_entry ?b 512 ino name = Some (Inr b')" "inserted ?b [rss ! k] name (of_int ino) b' rss'"
    using insert_entry_holds [OF b(1) nm] unfolding b(2) by blast
  have sz: "unat (di_size i) = 512 * k + 512" using p(3) k(2) by simp
  have e: "(512 * k + 512 + (512 - 1)) div 512 * 512 = 512 * k + 512" "512 * k + 512 - 512 = 512 * k"
    "min (512 * k + 512 - 512 * k) 512 = (512 :: nat)" by simp_all
  have rd: "read_inode_range img u i (512 * k) 512 = Some ?b" by (rule file_reads(2) [OF u p(1,2,3)])
  have k0: "0 < k" using False by (simp add: k_def)
  have run: "add_in_last_block u i name ino img = (if length b' = 512
      then map_option (\<lambda>img'. (Inr True, img')) (put_dir_bytes u ds (512 * k) b' img) else Some (Inr False, img))"
    unfolding add_in_last_block_def Let_def sz e using ins(1) rd p(6) k0 by (simp add: wm_run split: option.split)
  show ?thesis
  proof (cases "length b' = 512")
    case True
    obtain img' where w: "put_dir_bytes u ds (512 * k) b' img = Some img'" "own u (A \<union> file_cells u i ds ps) img'"
      "stable u A img img'" "file_ok u img' i ds ps" "stored u (file_allocs u i ds) (upd d (512 * k) b') img'"
      using put_dir_bytes_spec [OF u p(1,2) o k(3) True] by blast
    obtain as cs where l: "dir_holds b' rss'" "dir_list [rss ! k] = as @ cs" "dir_list rss' = as @ (name, of_int ino) # cs"
      using ins(2) by (auto simp: inserted_def)
    obtain rs' where rs: "rss' = [rs']" using l(1) True by (cases rss') (auto simp: dir_holds_def)
    have "chain b' 512 0 rs'" using l(1) by (simp add: rs dir_holds_def)
    then have dk: "dir_ok u img' i ds ps (upd d (512 * k) b') (rss[k := rs'])"
      using w p(3) dir_holds_block [OF p(4) k(1) True] by (simp add: dir_ok_def)
    have l1: "dir_list rss = (dir_list (take k rss) @ as) @ cs @ dir_list (drop (Suc k) rss)"
      using dir_list_split [OF k(1), of "rss ! k"] l(2) by (simp add: dir_list_def)
    have l2: "dir_list (rss[k := rs']) = (dir_list (take k rss) @ as) @ (name, of_int ino) # cs @ dir_list (drop (Suc k) rss)"
      using dir_list_split [OF k(1), of rs'] l(3) by (simp add: rs dir_list_def)
    have "entry_added u n A i name (of_int ino) rss img img'" by (rule in_place_added [OF u n f r w(3) dk w(2) o(2) l1 l2])
    then show ?thesis using run True w(1) by simp
  qed (use run in simp)
qed

text \<open>The slow path writes back the blocks that differ.\<close>

lemma write_changed_run:
  assumes u: "layout_ok u" and f: "file_ok u img i ds ps" and s: "stored u (file_allocs u i ds) d img"
    and o: "own u (A \<union> file_cells u i ds ps) img" "A \<inter> file_cells u i ds ps = {}"
    and l: "length d = 512 * m" "length d' = length d"
  shows "\<exists>img'. write_changed_blocks u ds (length d) d d' img = Some img' \<and> own u (A \<union> file_cells u i ds ps) img'
    \<and> stable u A img img' \<and> file_ok u img' i ds ps \<and> stored u (file_allocs u i ds) d' img'"
proof -
  define g where "g img offset = (let e = min (offset + UFS_DIRBLKSIZ) (length d) in
       do { a \<leftarrow> subslice d offset e; b \<leftarrow> subslice d' offset e;
            if a \<noteq> b then put_dir_bytes u ds offset b img else Some img })" for img offset
  have loop: "\<exists>img'. foldM g img (map (\<lambda>k. k * 512) [0..<k]) = Some img' \<and> own u (A \<union> file_cells u i ds ps) img'
    \<and> stable u A img img' \<and> file_ok u img' i ds ps \<and> stored u (file_allocs u i ds) (take (512 * k) d' @ drop (512 * k) d) img'"
    if "k \<le> m" for k
    using that
  proof (induction k)
    case 0
    then show ?case using f s o by simp
  next
    case (Suc k)
    then obtain img1 where i1: "foldM g img (map (\<lambda>k. k * 512) [0..<k]) = Some img1" "own u (A \<union> file_cells u i ds ps) img1"
      "stable u A img img1" "file_ok u img1 i ds ps" "stored u (file_allocs u i ds) (take (512 * k) d' @ drop (512 * k) d) img1"
      by auto
    let ?b = "take 512 (drop (512 * k) d')" let ?dk = "take (512 * k) d' @ drop (512 * k) d"
    have kl: "512 * k + 512 \<le> length d" using Suc.prems l(1) by simp
    have lk: "length ?dk = length d" "512 * k + 512 \<le> length ?dk" using kl l(2) by simp_all
    have bl: "length ?b = 512" using kl l(2) by simp
    have sub: "subslice d (k * 512) (min (k * 512 + 512) (length d)) = Some (take 512 (drop (512 * k) d))"
      "subslice d' (k * 512) (min (k * 512 + 512) (length d)) = Some ?b"
      using kl l(2) by (simp_all add: subslice_def mult.commute min_def)
    have eq: "upd ?dk (512 * k) ?b = take (512 * Suc k) d' @ drop (512 * Suc k) d"
    proof (rule nth_equalityI)
      fix j assume "j < length (upd ?dk (512 * k) ?b)"
      then have "j < length d" using lk by simp
      then show "upd ?dk (512 * k) ?b ! j = (take (512 * Suc k) d' @ drop (512 * Suc k) d) ! j"
        using kl l(2) by (subst upd_nth) (auto simp: nth_append min_def)
    qed (use kl l(2) in simp)
    show ?case
    proof (cases "take 512 (drop (512 * k) d) = ?b")
      case True
      have "?dk = take (512 * Suc k) d' @ drop (512 * Suc k) d"
      proof -
        have "take (512 * k + 512) d' = take (512 * k) d' @ ?b" by (rule take_add)
        moreover have "drop (512 * k) d = ?b @ drop (512 * k + 512) d"
          using True append_take_drop_id [of 512 "drop (512 * k) d"] by (simp add: add.commute)
        ultimately show ?thesis by (simp add: add.commute)
      qed
      moreover have "foldM g img (map (\<lambda>k. k * 512) [0..<Suc k]) = Some img1"
        using i1(1) sub True by (simp add: foldM_append g_def)
      ultimately show ?thesis using i1 by metis
    next
      case False
      obtain img2 where w: "put_dir_bytes u ds (512 * k) ?b img1 = Some img2" "own u (A \<union> file_cells u i ds ps) img2"
        "stable u A img1 img2" "file_ok u img2 i ds ps" "stored u (file_allocs u i ds) (upd ?dk (512 * k) ?b) img2"
        using put_dir_bytes_spec [OF u i1(4,5,2) o(2) lk(2) bl] by blast
      have "foldM g img (map (\<lambda>k. k * 512) [0..<Suc k]) = Some img2"
        using i1(1) sub False w(1) by (simp add: foldM_append g_def mult.commute [of k])
      then show ?thesis using w(2,4,5) stable_trans [OF i1(3) w(3)] unfolding eq by blast
    qed
  qed
  have "write_changed_blocks u ds (length d) d d' img = foldM g img (map (\<lambda>k. k * 512) [0..<m])"
    unfolding write_changed_blocks_def g_def [abs_def] dir_offsets [symmetric] l(1) ..
  then show ?thesis using loop [OF order.refl] l by simp
qed

lemma add_directory_entry_wp:
  assumes u: "layout_ok u" and n: "valid_ino (sb u) n" and f: "tables_fit u img" and r: "read_inode img u n = Some (Some i)"
    and d: "dir_ok u img i ds ps d rss" and o: "own u (A \<union> file_cells u i ds ps) img" "A \<inter> file_cells u i ds ps = {}"
    and nm: "length name \<le> 255" "(of_int ino :: u32) \<noteq> 0" and l: "length d + 512 \<le> max_blocks u * bs u"
  shows "wp (add_directory_entry u n i name ino) (\<lambda>_. entry_added u n A i name (of_int ino) rss img) (intact u n A img) img"
proof -
  note p = dir_ok_parts [OF d]
  obtain d' rss' where ins: "insert_entry d (length d) ino name = Some (Inr d')" "inserted d rss name (of_int ino) d' rss'"
    using insert_entry_holds [OF p(4) nm] by blast
  obtain as cs where h: "dir_holds d' rss'" "dir_list rss = as @ cs" "dir_list rss' = as @ (name, of_int ino) # cs"
    and ld: "length d' = length d \<or> length d' = length d + 512 \<and> take (length d) d' = d" using ins(2) by (auto simp: inserted_def)
  have rb: "read_inode_bytes img u i = Some d" by (rule file_reads(1) [OF u p(1,2,3)])
  from add_in_last_block_run [OF u n f r d o nm] show ?thesis
  proof (elim disjE exE conjE)
    fix img' assume "add_in_last_block u i name ino img = Some (Inr True, img')" "entry_added u n A i name (of_int ino) rss img img'"
    then show ?thesis by (simp add: add_directory_entry_def Let_def wp_def wm_run)
  next
    assume fast: "add_in_last_block u i name ino img = Some (Inr False, img)"
    show ?thesis
    proof (cases "length d' = length d")
      case True
      obtain img' where w: "write_changed_blocks u ds (length d) d d' img = Some img'" "own u (A \<union> file_cells u i ds ps) img'"
        "stable u A img img'" "file_ok u img' i ds ps" "stored u (file_allocs u i ds) d' img'"
        using write_changed_run [OF u p(1,2) o p(5) True] by blast
      have "dir_ok u img' i ds ps d' rss'" using w(4,5) h(1) True p(3) by (simp add: dir_ok_def)
      then have "entry_added u n A i name (of_int ino) rss img img'"
        by (rule in_place_added [OF u n f r w(3) _ w(2) o(2) h(2,3)])
      moreover have "add_directory_entry u n i name ino img = Some (Inr (), img')"
        using fast rb ins(1) True w(1) p(6) by (simp add: add_directory_entry_def Let_def wm_run p(3) [symmetric])
      ultimately show ?thesis by (simp add: wp_def)
    next
      case False
      let ?tail = "drop (length d) d'"
      have t: "length d' = length d + 512" "put_at d (length d) ?tail = d'" "length ?tail = 512"
        using ld False append_take_drop_id [of "length d" d'] by (auto simp: put_at_def)
      have "wp (apply_inode_write u n (length d) ?tail) (\<lambda>_. written u n A i d' img) (intact u n A img) img"
        using apply_inode_write_wp [OF u n f r p(1) o p(2,3) order.refl, of ?tail] l t by simp
      then have w: "wp (apply_inode_write u n (length d) ?tail) (\<lambda>_. entry_added u n A i name (of_int ino) rss img) (intact u n A img) img"
      proof (rule wp_mono)
        fix x :: unit and img'
        assume "written u n A i d' img img'"
        then obtain i' ds' ps' where w: "others_same u n A img img'" "read_inode img' u n = Some (Some i')"
          "i' = i \<lparr> di_size := of_nat (length d'), direct_blocks := direct_blocks i', indirect_blocks := indirect_blocks i',
             di_blocks := di_blocks i' \<rparr>"
          "file_ok u img' i' ds' ps'" "own u (A \<union> file_cells u i' ds' ps') img'" "A \<inter> file_cells u i' ds' ps' = {}"
          "stored u (file_allocs u i' ds') d' img'"
          unfolding written_def by auto
        obtain a b v where iv: "i' = i \<lparr> di_size := of_nat (length d'), direct_blocks := a, indirect_blocks := b, di_blocks := v \<rparr>"
          using w(3) by blast
        have "length d' < 2 ^ 62" using max_bytes(1) [OF u, of d'] l t(1) by simp
        then have "length d' = unat (di_size i')" by (simp add: iv unat_of_nat)
        then have dk: "dir_ok u img' i' ds' ps' d' rss'" using w(4,7) h(1) by (simp add: dir_ok_def)
        have "i' = i \<lparr> di_size := di_size i', direct_blocks := direct_blocks i', indirect_blocks := indirect_blocks i',
            di_blocks := di_blocks i' \<rparr>" by (simp add: iv)
        then show "entry_added u n A i name (of_int ino) rss img img'"
          unfolding entry_added_def using w(1,2,5,6) dk h(2,3) by blast
      qed
      have "subslice d' (length d) (length d') = Some ?tail" using t(1) by (simp add: subslice_def)
      then have "add_directory_entry u n i name ino img = apply_inode_write u n (length d) ?tail img"
        using fast rb ins(1) False by (simp add: add_directory_entry_def Let_def wm_run p(3) [symmetric])
      then show ?thesis using w by (simp add: wp_def)
    qed
  qed
qed

section \<open>A recorded directory on the sample image\<close>

lemma dir_ok_attrs:
  assumes "dir_ok u img i ds ps d rss" "direct_blocks j = direct_blocks i" "indirect_blocks j = indirect_blocks i" "di_size j = di_size i"
  shows "dir_ok u img j ds ps d rss" "file_cells u j ds ps = file_cells u i ds ps"
proof -
  have fa: "file_allocs u j ds = file_allocs u i ds" by (simp add: file_allocs_def assms(4))
  then show "file_cells u j ds ps = file_cells u i ds ps" by (simp add: file_cells_def)
  show "dir_ok u img j ds ps d rss"
    using assms(1) inode_blocks_attrs [OF assms(2-4), of img u] unfolding dir_ok_def file_ok_def fa assms(3,4) by simp
qed

text \<open>A well-formed directory is unchanged by whatever leaves its fragments alone.\<close>

lemma dir_frame:
  assumes u: "layout_ok u" and d: "dir_ok u img i ds ps d rss" and o: "own u (file_cells u i ds ps) img"
    and s: "same_frags u (file_cells u i ds ps) img img'"
  shows "dir_ok u img' i ds ps d rss"
proof -
  note p = dir_ok_parts [OF d]
  have "same_frags u (alloc_runs u (file_allocs u i ds)) img img'" by (rule same_frags_mono [OF s]) (simp add: file_cells_def)
  then have "stored u (file_allocs u i ds) d img'" by (rule stored_stable [OF u p(2) _ file_allocs_ok(1) [OF u p(1)]])
  then show ?thesis using file_frame(1) [OF u p(1) o s] p(3,4) by (simp add: dir_ok_def)
qed

definition sample_root :: inode where
  "sample_root = sample_dir_inode \<lparr> di_mode := UFS_IFDIR \<rparr>"

lemma sample_tree:
  assumes d: "length d = 512" "dir_holds d rss"
  shows "\<exists>img. tables_fit sample_ufs img \<and> read_inode img sample_ufs 2 = Some (Some sample_root)
    \<and> dir_ok sample_ufs img sample_root [40] [] d rss
    \<and> own sample_ufs ({} \<union> file_cells sample_ufs sample_root [40] []) img
    \<and> inode_used sample_ufs img 2 \<and> inode_used sample_ufs img 0 \<and> read_inode img sample_ufs 5 = Some (Some blank_inode)"
proof -
  let ?u = sample_ufs let ?m = "upd busy_img 41472 d" let ?i = sample_dir_inode
  note s = sample_dir [OF d]
  have v: "valid_ino (sb ?u) 2" "valid_ino sample_sb 2" "valid_ino sample_sb 0" by (simp_all add: valid_ino_def)
  have l: "length ?m = length sample_img" by (simp add: busy_img_def)
  then have f: "tables_fit ?u ?m" using tables_fit_length sample_tables by blast
  have o2: "inode_offset ?u 2 = 25344"
    using inode_offset_facts(1) [OF sample_layout v(1)] inode_byte_offset_eq [OF sample_geometry _ v(2), of 512] by simp
  have r: "record_at ?m (inode_offset ?u 2) blank_inode"
    unfolding o2 by (rule blank_record) (use d in \<open>auto simp: busy_img_def sample_img_def upd_nth\<close>)
  obtain m1 where m1: "write_block_lists ?u 2 [40] [] ?m = Some m1" using write_block_lists_total [OF sample_layout v(1) f] by blast
  note wl = write_block_lists_spec [OF sample_layout v(1) r m1]
  have f1: "tables_fit ?u m1" using f tables_fit_length same_except_length [OF wl(2)] by blast
  obtain m2 where m2: "wrote ?u 2 (blank_inode \<lparr> direct_blocks := map (pointer_or_0 [40]) [0..<12],
      indirect_blocks := map (pointer_or_0 []) [0..<3], di_size := 512 \<rparr>) m1 m2"
    using wrote_puts(5) [OF sample_layout v(1) wrote_refl [OF f1 v(1) wl(1)], of 512] by auto
  obtain m3 where m3: "wrote ?u 2 (blank_inode \<lparr> direct_blocks := map (pointer_or_0 [40]) [0..<12],
      indirect_blocks := map (pointer_or_0 []) [0..<3], di_size := 512, di_mode := UFS_IFDIR \<rparr>) m1 m3"
    using set_inode_mode_spec [OF sample_layout v(1) m2, of UFS_IFDIR] by auto
  have root: "blank_inode \<lparr> direct_blocks := map (pointer_or_0 [40]) [0..<12], indirect_blocks := map (pointer_or_0 []) [0..<3],
      di_size := 512, di_mode := UFS_IFDIR \<rparr> = sample_root"
    by (simp add: sample_root_def sample_dir_inode_def blank_inode_def pointer_or_0_def upt_rec) (simp add: eval_nat_numeral)
  have rd: "read_inode m3 ?u 2 = Some (Some sample_root)"
    by (rule wrote_reads(1) [OF sample_layout v(1) f1 m3 [unfolded root]])
  have se: "same_except (rec_byte ?u 2) ?m m3" using same_except_trans [OF wl(2)] m3 by (simp add: wrote_def)
  note rw = record_write [OF sample_layout v(1) s(2) se]
  have at: "direct_blocks sample_root = direct_blocks ?i" "indirect_blocks sample_root = indirect_blocks ?i" "di_size sample_root = di_size ?i"
    by (simp_all add: sample_root_def)
  note da = dir_ok_attrs [OF s(1) at]
  have dk: "dir_ok ?u m3 sample_root [40] [] d rss"
  proof (rule dir_frame [OF sample_layout da(1)])
    show "own ?u (file_cells ?u sample_root [40] []) ?m" using s(2) by (simp add: da(2))
    show "same_frags ?u (file_cells ?u sample_root [40] []) ?m m3" unfolding da(2) by (rule others_frags [OF rw(2)]) simp
  qed
  have ow: "own ?u ({} \<union> file_cells ?u sample_root [40] []) m3" using rw(1) by (simp add: da(2))
  have cv: "cg_view ?u m3 0 = cg_view ?u ?m 0"
  proof (rule cg_view_same_except [OF se])
    fix k assume "cg_off ?u 0 \<le> k" "k < cg_off ?u 0 + bs ?u"
    then show "\<not> rec_byte ?u 2 k" by (auto simp: rec_byte_def o2 cg_off_def fboff_def bs_def)
  qed
  have "inode_used ?u m3 n" if "n \<in> {0, 2}" for n
    using that busy_img_view(1) [OF d(1)] unfolding inode_used_def
    by (auto simp: cv live_def upd_simps is_inode_used_eq upd_nth)
  moreover have f3: "tables_fit ?u m3" using f1 tables_fit_length [OF same_except_length, of _ m1 m3] m3 unfolding wrote_def by blast
  moreover have "read_inode m3 ?u 5 = Some (Some blank_inode)"
  proof -
    have v5: "valid_ino (sb ?u) 5" "valid_ino sample_sb 5" by (simp_all add: valid_ino_def)
    have o5: "inode_offset ?u 5 = 25728"
      using inode_offset_facts(1) [OF sample_layout v5(1)] inode_byte_offset_eq [OF sample_geometry _ v5(2), of 512] by simp
    have "record_at ?m (inode_offset ?u 5) blank_inode"
      unfolding o5 by (rule blank_record) (use d in \<open>auto simp: busy_img_def sample_img_def upd_nth\<close>)
    then have "read_inode ?m ?u 5 = Some (Some blank_inode)" using read_inode_iff [OF sample_layout v5(1) f] by blast
    then show ?thesis using others_same_record [OF sample_layout v(1) v5(1) _ f rw(2)] by simp
  qed
  ultimately show ?thesis using rd dk ow by blast
qed

section \<open>Creating a file in a directory\<close>

lemma wp_run: "m s = m' s \<Longrightarrow> wp m' Q E s \<Longrightarrow> wp m Q E s"
  by (simp add: wp_def)

lemma grows_own:
  assumes u: "layout_ok u" and o: "own u A img" and g: "grows u S img img'"
  shows "own u A img'" "stable u A img img'"
  using alloc_skip_own [OF u o] g by (auto simp: grows_def)

text \<open>
  What a creation leaves behind in both outcomes: what is owned elsewhere is untouched, and so is every inode record
  but the directory's and that of a number that was not in use.
\<close>

definition others_kept :: "ufs \<Rightarrow> int \<Rightarrow> int set \<Rightarrow> image \<Rightarrow> image \<Rightarrow> bool" where
  "others_kept u n A img img' \<longleftrightarrow> own u A img' \<and> same_frags u A img img'
     \<and> (\<forall>k. valid_ino (sb u) k \<longrightarrow> inode_used u img k \<longrightarrow> k \<noteq> n \<longrightarrow> read_inode img' u k = read_inode img u k)"

definition created ::
    "ufs \<Rightarrow> int \<Rightarrow> int set \<Rightarrow> inode \<Rightarrow> rstr \<Rightarrow> inode \<Rightarrow> drec list list \<Rightarrow> image \<Rightarrow> int \<Rightarrow> image \<Rightarrow> bool" where
  "created u n A i name new rss img m img' \<longleftrightarrow> others_kept u n A img img' \<and> valid_ino (sb u) m \<and> \<not> inode_used u img m
     \<and> read_inode img' u m = Some (Some new)
     \<and> (\<exists>i' ds ps d rss' as cs. read_inode img' u n = Some (Some i')
        \<and> i' = i \<lparr> di_size := di_size i', direct_blocks := direct_blocks i', indirect_blocks := indirect_blocks i',
                  di_blocks := di_blocks i' \<rparr>
        \<and> dir_ok u img' i' ds ps d rss' \<and> own u (A \<union> file_cells u i' ds ps) img' \<and> A \<inter> file_cells u i' ds ps = {}
        \<and> dir_list rss = as @ cs \<and> dir_list rss' = as @ (name, of_int m) # cs)"

lemma inode_number_word:
  assumes g: "geometry_ok s" and b: "ncg s * ipg s \<le> 2 ^ 32" and m: "valid_ino s m" "m \<noteq> 0"
  shows "(of_int m :: u32) \<noteq> 0" "uint (of_int m :: u32) = m"
proof -
  have "0 \<le> m" "m < 2 ^ 32" using m b by (auto simp: valid_ino_def)
  then show e: "uint (of_int m :: u32) = m" by (simp add: uint_word_of_int)
  then show "(of_int m :: u32) \<noteq> 0" using m(2) by auto
qed

lemma create_empty_wp:
  assumes u: "layout_ok u" and n: "valid_ino (sb u) n" and f: "tables_fit u img" and r: "read_inode img u n = Some (Some i)"
    and id: "is_directory i" and d: "dir_ok u img i ds ps d rss"
    and o: "own u (A \<union> file_cells u i ds ps) img" "A \<inter> file_cells u i ds ps = {}"
    and us: "inode_used u img n" "inode_used u img 0" and b: "ncg (sb u) * ipg (sb u) \<le> 2 ^ 32"
    and nm: "length name \<le> 255" and l: "length d + 512 \<le> max_blocks u * bs u"
  shows "wp (create_empty_in_parent u n name mode uid gid ts)
    (created u n A i name (fresh_inode (file_mode mode) uid gid 1 ts) rss img)
    (\<lambda>e img'. (e = NoFreeInodes \<or> e \<in> space_errors) \<and> others_kept u n A img img') img"
proof -
  have ok: "cgs_ok u img" using o(1) by (simp add: own_def)
  let ?new = "fresh_inode (file_mode mode) uid gid 1 ts"
  have alloc: "wp (allocate_inode u (Some n) False)
      (\<lambda>m. wp (wbind (wmodify (initialize_inode u m (file_mode mode) uid gid 1 ts)) (\<lambda>_.
           wbind (add_directory_entry u n i name m) (\<lambda>_. wreturn m)))
         (created u n A i name ?new rss img) (\<lambda>e img'. (e = NoFreeInodes \<or> e \<in> space_errors) \<and> others_kept u n A img img'))
      (\<lambda>e img'. (e = NoFreeInodes \<or> e \<in> space_errors) \<and> others_kept u n A img img') img"
  proof -
    have p: "\<forall>k. Some n = Some k \<longrightarrow> valid_ino (sb u) k" using n by simp
    from allocate_inode_result [where pref = "Some n" and dir = False, OF u ok p] show ?thesis
    proof (elim disjE exE conjE)
      fix img' assume a: "allocate_inode u (Some n) False img = Some (Inl NoFreeInodes, img')" "grows u {} img img'"
      have st: "stable u A img img'" by (rule grows_own(2) [OF u own_mono [OF o(1) Un_upper1] a(2)])
      have "read_inode img' u k = read_inode img u k" if "valid_ino (sb u) k" for k
        using that f tables_fit_length [OF stable_length [OF st]] read_inode_iff [OF u that] stable_record [OF u that st]
          record_exists by (intro read_inode_cong [OF u that f stable_length [OF st]])
            (use st inode_offset_facts(4) [OF u that] in \<open>auto simp: stable_def rec_byte_def\<close>)
      then have "others_kept u n A img img'"
        unfolding others_kept_def using grows_own(1) [OF u own_mono [OF o(1) Un_upper1] a(2)] stable_same_frags [OF st order.refl] by blast
      then show ?thesis using a(1) by (simp add: wp_def)
    next
      fix m img1 assume a: "allocate_inode u (Some n) False img = Some (Inr m, img1)" "taken u img m img1"
      have m: "valid_ino (sb u) m" "\<not> inode_used u img m" "grows u {m} img img1" using a(2) by (auto simp: taken_def)
      have ne: "m \<noteq> n" "m \<noteq> 0" using m(2) us by auto
      note w = inode_number_word [OF layout_facts(1) [OF u] b m(1) ne(2)]
      note g = grows_own [OF u o(1) m(3)]
      have f1: "tables_fit u img1" using f tables_fit_length [OF stable_length [OF g(2)]] by simp
      obtain img2 where i2: "initialize_inode u m (file_mode mode) uid gid 1 ts img1 = Some img2" "wrote u m ?new img1 img2"
        using initialize_inode_spec [OF u m(1) f1 [unfolded tables_fit_def, rule_format, OF m(1)]] by blast
      have s2: "same_except (rec_byte u m) img1 img2" using i2(2) by (simp add: wrote_def)
      note rw = record_write [OF u m(1) g(1) s2]
      have f2: "tables_fit u img2" using f1 tables_fit_length [OF same_except_length [OF s2]] by simp
      have os: "others_same u m (A \<union> file_cells u i ds ps) img img2"
        by (rule others_same_trans [OF stable_others [OF g(2)] rw(2)])
      have other: "read_inode img2 u k = read_inode img u k" if "valid_ino (sb u) k" "k \<noteq> m" for k
        by (rule others_same_record [OF u m(1) that f os])
      have r2: "read_inode img2 u n = Some (Some i)" using other [OF n] ne(1) r by simp
      have d2: "dir_ok u img2 i ds ps d rss"
        by (rule dir_frame [OF u d own_mono [OF o(1) Un_upper2] others_frags [OF os Un_upper2]])
      have new: "read_inode img2 u m = Some (Some ?new)" by (rule wrote_reads(1) [OF u m(1) f1 i2(2)])
      have "wp (add_directory_entry u n i name m) (\<lambda>_. entry_added u n A i name (of_int m) rss img2) (intact u n A img2) img2"
        by (rule add_directory_entry_wp [OF u n f2 r2 d2 rw(1) o(2) nm w(1) l])
      then have "wp (add_directory_entry u n i name m) (\<lambda>_. created u n A i name ?new rss img m)
          (\<lambda>e img'. (e = NoFreeInodes \<or> e \<in> space_errors) \<and> others_kept u n A img img') img2"
      proof (rule wp_mono)
        have keep: "others_kept u n A img img'" if s: "others_same u n A img2 img'" "own u A img'" for img'
          unfolding others_kept_def
        proof (intro conjI allI impI s(2))
          show "same_frags u A img img'"
            by (rule same_frags_trans [OF others_frags [OF os Un_upper1] others_frags [OF s(1) order.refl]])
          fix k assume k: "valid_ino (sb u) k" "inode_used u img k" "k \<noteq> n"
          then have "k \<noteq> m" using m(2) by blast
          then show "read_inode img' u k = read_inode img u k"
            using others_same_record [OF u n k(1,3) f2 s(1)] other [OF k(1)] by simp
        qed
        show "(e = NoFreeInodes \<or> e \<in> space_errors) \<and> others_kept u n A img img'" if "intact u n A img2 e img'" for e img'
          using that keep [OF stable_others] by (auto simp: intact_def owned_def)
        show "created u n A i name ?new rss img m img'" if e: "entry_added u n A i name (of_int m) rss img2 img'" for img'
        proof -
          have s: "others_same u n A img2 img'" using e by (simp add: entry_added_def)
          have "own u A img'" using e own_mono [OF _ Un_upper1] unfolding entry_added_def by blast
          moreover have "read_inode img' u m = Some (Some ?new)"
            using others_same_record [OF u n m(1) ne(1) f2 s] new by simp
          ultimately show ?thesis
            using e keep [OF s] m(1,2) unfolding created_def entry_added_def by simp
        qed
      qed
      then show ?thesis using a(1) i2(1) by (simp add: wp_def [of "allocate_inode u (Some n) False"])
    qed
  qed
  have "create_empty_in_parent u n name mode uid gid ts img =
      wbind (allocate_inode u (Some n) False) (\<lambda>m. wbind (wmodify (initialize_inode u m (file_mode mode) uid gid 1 ts)) (\<lambda>_.
        wbind (add_directory_entry u n i name m) (\<lambda>_. wreturn m))) img"
    using r id by (simp add: create_empty_in_parent_def read_parent_def wbind_assoc wbind_def [of "wread _"] wread_def wok_or_def wreturn_def [of i] wbind_def [of "wok_or _ _"])
  then show ?thesis by (rule wp_run) (use alloc in simp)
qed

section \<open>A further link to a file\<close>

text \<open>After the entry is in the directory, the link count in the record of the target.\<close>

lemma link_count_written:
  assumes u: "layout_ok u" and m: "valid_ino (sb u) m" and f: "tables_fit u img" and t: "read_inode img u m = Some (Some t)"
  shows "\<exists>img'. write_inode_nlink u m v img = Some img' \<and> read_inode img' u m = Some (Some (t \<lparr> di_nlink := v \<rparr>))
    \<and> same_except (rec_byte u m) img img' \<and> (\<forall>k. valid_ino (sb u) k \<longrightarrow> k \<noteq> m \<longrightarrow> read_inode img' u k = read_inode img u k)"
proof -
  have "wrote u m t img img" using t read_inode_iff [OF u m f] m f by (intro wrote_refl) auto
  from write_inode_nlink_spec [OF u m this, of v]
  obtain img' where w: "write_inode_nlink u m v img = Some img'" "wrote u m (t \<lparr> di_nlink := v \<rparr>) img img'" by blast
  then show ?thesis using wrote_reads [OF u m f w(2)] by (auto simp: wrote_def)
qed

section \<open>Properties\<close>

text \<open>C7: Adding a directory entry implements the update of a finite map on the image. It never panics. On success the
  directory, whether one of its blocks was edited in place or a block was appended, is well formed, its entries are
  those it had plus the new one, and when the name was new it has as a map gained exactly that binding; its inode
  differs at most in size, pointers and sector count, no other inode record and no byte of any other file has changed.
  The only failure is lack of space, and it leaves every other file and all inode records as they were.\<close>

theorem add_directory_entry_correct:
  assumes "layout_ok u" "valid_ino (sb u) n" "tables_fit u img" "read_inode img u n = Some (Some i)"
    "dir_ok u img i ds ps d rss" "own u (A \<union> file_cells u i ds ps) img" "A \<inter> file_cells u i ds ps = {}"
    "length name \<le> 255" "(of_int ino :: u32) \<noteq> 0" "length d + 512 \<le> max_blocks u * bs u"
  shows "\<exists>r img'. add_directory_entry u n i name ino img = Some (r, img') \<and>
    (case r of
       Inr _ \<Rightarrow> others_same u n A img img' \<and>
         (\<exists>i' ds' ps' d' rss' as cs. read_inode img' u n = Some (Some i')
            \<and> i' = i \<lparr> di_size := di_size i', direct_blocks := direct_blocks i', indirect_blocks := indirect_blocks i',
                      di_blocks := di_blocks i' \<rparr>
            \<and> dir_ok u img' i' ds' ps' d' rss' \<and> own u (A \<union> file_cells u i' ds' ps') img' \<and> A \<inter> file_cells u i' ds' ps' = {}
            \<and> dir_list rss = as @ cs \<and> dir_list rss' = as @ (name, of_int ino) # cs
            \<and> (name \<notin> dom (map_of (dir_list rss)) \<longrightarrow> map_of (dir_list rss') = (map_of (dir_list rss))(name \<mapsto> of_int ino)))
     | Inl e \<Rightarrow> (e = NoFreeBlocks \<or> e = NoFreeFragments) \<and> own u A img' \<and> stable u A img img')"
proof -
  obtain r img' where r: "add_directory_entry u n i name ino img = Some (r, img')"
    "case r of Inl e \<Rightarrow> intact u n A img e img' | Inr _ \<Rightarrow> entry_added u n A i name (of_int ino) rss img img'"
    using add_directory_entry_wp [OF assms] unfolding wp_def by blast
  show ?thesis
  proof (rule exI [of _ r], rule exI [of _ img'], intro conjI r(1), cases r, goal_cases)
    case (1 e)
    then show ?case using r(2) by (simp add: intact_def owned_def space_errors_def)
  next
    case (2 x)
    then have "entry_added u n A i name (of_int ino) rss img img'" using r(2) by simp
    then show ?case
      unfolding 2 sum.case entry_added_def
    proof (elim conjE exE, goal_cases)
      case (1 i' ds' ps' d' rss' as cs)
      show ?case
        using 1(1,2,4-8) inserted_map [OF 1(7,8)]
        by (intro conjI exI [of _ i'] exI [of _ ds'] exI [of _ ps'] exI [of _ d'] exI [of _ rss'] exI [of _ as] exI [of _ cs] 1(3)) simp_all
    qed
  qed
qed

theorem add_directory_entry_correct_witness:
  "\<exists>img r img'. add_directory_entry sample_ufs 2 sample_root [98] 6 img = Some (r, img') \<and> own sample_ufs {} img'"
proof -
  obtain d rss where d: "length d = 512" "dir_holds d rss" "dir_list rss = [([97], 5)]" using one_entry_dir by blast
  obtain img where img: "tables_fit sample_ufs img" "read_inode img sample_ufs 2 = Some (Some sample_root)"
    "dir_ok sample_ufs img sample_root [40] [] d rss" "own sample_ufs ({} \<union> file_cells sample_ufs sample_root [40] []) img"
    using sample_tree [OF d(1,2)] by blast
  have c: "valid_ino (sb sample_ufs) 2" "length [98 :: u8] \<le> 255" "(of_int 6 :: u32) \<noteq> 0"
    "length d + 512 \<le> max_blocks sample_ufs * bs sample_ufs"
    using d(1) by (simp_all add: valid_ino_def max_blocks_def bs_def)
  from add_directory_entry_correct [OF sample_layout c(1) img Int_empty_left c(2-4)]
  show ?thesis
  proof (elim exE conjE, goal_cases)
    case (1 r img')
    have "own sample_ufs {} img'"
    proof (cases r)
      case (Inl e)
      then show ?thesis using 1(2) by simp
    next
      case (Inr x)
      have "\<exists>C. own sample_ufs ({} \<union> C) img'" using 1(2) unfolding Inr sum.case by blast
      then show ?thesis using own_mono by blast
    qed
    then show ?case using 1(1) by blast
  qed
qed

text \<open>C6: Creating an empty file is correct across inode allocation, the new record and the directory. Where the name
  is new and has at most 255 bytes, the operation never panics; on success the number returned was not in use, the directory as a map gains
  exactly the binding of the name to it, and the lookup of the name in the directory as it then is finds the number
  with the record that was asked for: the type and mode, owner and times given, one link, no contents. In both outcomes
  no byte of any other file and no record of any other inode in use has changed; the only failures are lack of inodes
  and lack of space.\<close>

theorem create_in_parent_correct:
  assumes "layout_ok u" "valid_ino (sb u) n" "tables_fit u img" "read_inode img u n = Some (Some i)" "is_directory i"
    "dir_ok u img i ds ps d rss" "own u (A \<union> file_cells u i ds ps) img" "A \<inter> file_cells u i ds ps = {}"
    "inode_used u img n" "inode_used u img 0" "ncg (sb u) * ipg (sb u) \<le> 2 ^ 32" "length name \<le> 255"
    "name \<notin> dom (map_of (dir_list rss))" "length d + 512 \<le> max_blocks u * bs u"
  shows "\<exists>r img'. create_empty_in_parent u n name mode uid gid ts img = Some (r, img') \<and> own u A img' \<and> same_frags u A img img'
    \<and> (\<forall>k. valid_ino (sb u) k \<longrightarrow> inode_used u img k \<longrightarrow> k \<noteq> n \<longrightarrow> read_inode img' u k = read_inode img u k)
    \<and> (case r of
       Inr m \<Rightarrow> valid_ino (sb u) m \<and> \<not> inode_used u img m \<and>
         (\<exists>i' ds' ps' d' rss'. read_inode img' u n = Some (Some i') \<and> di_mode i' = di_mode i \<and> di_nlink i' = di_nlink i
            \<and> dir_ok u img' i' ds' ps' d' rss' \<and> own u (A \<union> file_cells u i' ds' ps') img' \<and> A \<inter> file_cells u i' ds' ps' = {}
            \<and> map_of (dir_list rss') = (map_of (dir_list rss))(name \<mapsto> of_int m)
            \<and> lookup_directory_entry img' u i' name = Some (Some (of_int m,
                \<lparr> di_mode = file_mode mode, di_nlink = 1, di_uid = uid, di_gid = gid, di_atime = ts, di_mtime = ts, di_ctime = ts,
                  di_size = 0, direct_blocks = replicate 12 0, indirect_blocks = replicate 3 0, di_blocks = 0 \<rparr>)))
     | Inl e \<Rightarrow> e \<in> {NoFreeInodes, NoFreeBlocks, NoFreeFragments})"
proof -
  let ?new = "fresh_inode (file_mode mode) uid gid 1 ts"
  obtain r img' where r: "create_empty_in_parent u n name mode uid gid ts img = Some (r, img')"
    "case r of Inl e \<Rightarrow> (e = NoFreeInodes \<or> e \<in> space_errors) \<and> others_kept u n A img img'
     | Inr m \<Rightarrow> created u n A i name ?new rss img m img'"
    using create_empty_wp [OF assms(1-12,14), of mode uid gid ts] unfolding wp_def by blast
  have k: "others_kept u n A img img'" using r(2) by (cases r) (auto simp: created_def)
  have new: "?new = \<lparr> di_mode = file_mode mode, di_nlink = 1, di_uid = uid, di_gid = gid, di_atime = ts, di_mtime = ts, di_ctime = ts,
      di_size = 0, direct_blocks = replicate 12 0, indirect_blocks = replicate 3 0, di_blocks = 0 \<rparr>"
    by (simp only: fresh_inode_def blank_inode_def inode.simps)
  show ?thesis
  proof (rule exI [of _ r], rule exI [of _ img'], intro conjI r(1), goal_cases)
    case 4
    show ?case
    proof (cases r)
      case (Inl e)
      then show ?thesis using r(2) by (auto simp: space_errors_def)
    next
      case (Inr m)
      then have c: "created u n A i name ?new rss img m img'" using r(2) by simp
      then have m: "valid_ino (sb u) m" "\<not> inode_used u img m" "read_inode img' u m = Some (Some ?new)" by (auto simp: created_def)
      have "m \<noteq> 0" using m(2) assms(10) by blast
      note w = inode_number_word [OF layout_facts(1) [OF assms(1)] assms(11) m(1) this]
      obtain i' ds' ps' d' rss' as cs where p: "read_inode img' u n = Some (Some i')"
        "i' = i \<lparr> di_size := di_size i', direct_blocks := direct_blocks i', indirect_blocks := indirect_blocks i', di_blocks := di_blocks i' \<rparr>"
        "dir_ok u img' i' ds' ps' d' rss'" "own u (A \<union> file_cells u i' ds' ps') img'" "A \<inter> file_cells u i' ds' ps' = {}"
        "dir_list rss = as @ cs" "dir_list rss' = as @ (name, of_int m) # cs"
        using c unfolding created_def by auto
      obtain s a b v where iv: "i' = i \<lparr> di_size := s, direct_blocks := a, indirect_blocks := b, di_blocks := v \<rparr>" using p(2) by blast
      have fl: "di_mode i' = di_mode i" "di_nlink i' = di_nlink i" by (simp_all add: iv)
      note mp = inserted_map [OF p(6,7) assms(13)]
      have "lookup_directory_entry img' u i' name = Some (Some (of_int m, ?new))"
        using lookup_dir_ok [OF assms(1) p(3), of name] m(3) by (simp add: mp w(2))
      then show ?thesis unfolding Inr sum.case using m(1,2) p(1,3-5) fl mp new by metis
    qed
  qed (use k in \<open>simp_all add: others_kept_def\<close>)
qed

theorem create_in_parent_correct_witness:
  "\<exists>img r img'. create_empty_in_parent sample_ufs 2 [98] 420 7 8 99 img = Some (r, img') \<and> own sample_ufs {} img'
    \<and> read_inode img' sample_ufs 0 = read_inode img sample_ufs 0"
proof -
  obtain d rss where d: "length d = 512" "dir_holds d rss" "dir_list rss = [([97], 5)]" using one_entry_dir by blast
  obtain img where img: "tables_fit sample_ufs img" "read_inode img sample_ufs 2 = Some (Some sample_root)"
    "dir_ok sample_ufs img sample_root [40] [] d rss" "own sample_ufs ({} \<union> file_cells sample_ufs sample_root [40] []) img"
    "inode_used sample_ufs img 2" "inode_used sample_ufs img 0"
    using sample_tree [OF d(1,2)] by blast
  have c: "valid_ino (sb sample_ufs) 2" "is_directory sample_root" "ncg (sb sample_ufs) * ipg (sb sample_ufs) \<le> 2 ^ 32"
    "length [98 :: u8] \<le> 255" "[98] \<notin> dom (map_of (dir_list rss))" "length d + 512 \<le> max_blocks sample_ufs * bs sample_ufs"
    "valid_ino (sb sample_ufs) 0"
    using d(1,3) by (simp_all add: valid_ino_def max_blocks_def bs_def sample_root_def is_directory_def file_type_def)
  show ?thesis
    using create_in_parent_correct [OF sample_layout c(1) img(1,2) c(2) img(3,4) Int_empty_left img(5,6) c(3-6), of 420 7 8 99] img(6) c(7)
    by (intro exI [of _ img]) auto
qed

text \<open>C24: A hard link is a second name for the same inode. For a target that is no directory and a name that is new in the
  directory and has at most 255 bytes, the operation never panics. On success the directory as a map has gained exactly the
  binding of the name to the target, and the lookup of the name finds the target with its record unchanged but for a link
  count higher by one. If the space runs out, the target's record is unchanged. In both outcomes no byte of any file other
  than the directory has changed, and no record of any other inode.\<close>

theorem link_in_parent_correct:
  assumes "layout_ok u" "valid_ino (sb u) n" "tables_fit u img" "read_inode img u n = Some (Some i)"
    "dir_ok u img i ds ps d rss" "own u (A \<union> file_cells u i ds ps) img" "A \<inter> file_cells u i ds ps = {}"
    "valid_ino (sb u) m" "m \<noteq> n" "m \<noteq> 0" "ncg (sb u) * ipg (sb u) \<le> 2 ^ 32"
    "read_inode img u m = Some (Some t)" "\<not> is_directory t" "unat (di_nlink t) < 65535"
    "length name \<le> 255" "name \<notin> dom (map_of (dir_list rss))" "length d + 512 \<le> max_blocks u * bs u"
  shows "\<exists>r img'. link_in_parent u n name m img = Some (r, img') \<and> own u A img' \<and> same_frags u A img img'
    \<and> (\<forall>k. valid_ino (sb u) k \<longrightarrow> k \<noteq> n \<longrightarrow> k \<noteq> m \<longrightarrow> read_inode img' u k = read_inode img u k)
    \<and> (case r of
       Inr _ \<Rightarrow> (\<exists>i' ds' ps' d' rss' t'. read_inode img' u n = Some (Some i') \<and> di_mode i' = di_mode i \<and> di_nlink i' = di_nlink i
            \<and> dir_ok u img' i' ds' ps' d' rss' \<and> own u (A \<union> file_cells u i' ds' ps') img' \<and> A \<inter> file_cells u i' ds' ps' = {}
            \<and> map_of (dir_list rss') = (map_of (dir_list rss))(name \<mapsto> of_int m)
            \<and> lookup_directory_entry img' u i' name = Some (Some (of_int m, t'))
            \<and> t' = t \<lparr> di_nlink := di_nlink t' \<rparr> \<and> unat (di_nlink t') = unat (di_nlink t) + 1)
     | Inl e \<Rightarrow> e \<in> {NoFreeBlocks, NoFreeFragments} \<and> read_inode img' u m = Some (Some t))"
proof -
  note u = assms(1) and n = assms(2) and f = assms(3) and r = assms(4) and m = assms(8)
  note w = inode_number_word [OF layout_facts(1) [OF u] assms(11) m assms(10)]
  obtain q img1 where a: "add_directory_entry u n i name m img = Some (q, img1)"
    and q: "case q of Inl e \<Rightarrow> intact u n A img e img1 | Inr _ \<Rightarrow> entry_added u n A i name (of_int m) rss img img1"
    using add_directory_entry_wp [OF u n f r assms(5-7,15) w(1) assms(17)] unfolding wp_def by blast
  have s1: "others_same u n A img img1" and o1: "own u A img1"
    using q own_mono [OF _ Un_upper1] by (auto simp: intact_def owned_def entry_added_def intro: stable_others split: sum.split_asm)
  have k1: "read_inode img1 u k = read_inode img u k" if "valid_ino (sb u) k" "k \<noteq> n" for k
    by (rule others_same_record [OF u n that f s1])
  have f1: "tables_fit u img1" using f tables_fit_length s1 unfolding others_same_def by blast
  have t1: "read_inode img1 u m = Some (Some t)" using k1 [OF m assms(9)] assms(12) by simp
  obtain img2 where l: "write_inode_nlink u m (di_nlink t + 1) img1 = Some img2"
    and t2: "read_inode img2 u m = Some (Some (t \<lparr> di_nlink := di_nlink t + 1 \<rparr>))" and s2: "same_except (rec_byte u m) img1 img2"
    and k2: "\<forall>k. valid_ino (sb u) k \<longrightarrow> k \<noteq> m \<longrightarrow> read_inode img2 u k = read_inode img1 u k"
    using link_count_written [OF u m f1 t1] by blast
  have run: "link_in_parent u n name m img = (case q of Inl e \<Rightarrow> Some (Inl e, img1) | Inr _ \<Rightarrow> Some (Inr (), img2))"
    using r assms(12,13) a l
    by (simp add: link_in_parent_def read_parent_def wbind_def wread_def wok_or_def wreturn_def wfail_def wmodify_def split: sum.split)
  have sf: "same_frags u A img img1" by (rule others_frags [OF s1 order.refl])
  show ?thesis
  proof (cases q)
    case (Inl e)
    then show ?thesis using run q o1 sf k1 t1
      by (intro exI [of _ "Inl e"] exI [of _ img1]) (auto simp: intact_def space_errors_def)
  next
    case (Inr x)
    then have "entry_added u n A i name (of_int m) rss img img1" using q by simp
    then obtain i' ds' ps' d' rss' as cs where p: "read_inode img1 u n = Some (Some i')"
        "i' = i \<lparr> di_size := di_size i', direct_blocks := direct_blocks i', indirect_blocks := indirect_blocks i', di_blocks := di_blocks i' \<rparr>"
        "dir_ok u img1 i' ds' ps' d' rss'" "own u (A \<union> file_cells u i' ds' ps') img1" "A \<inter> file_cells u i' ds' ps' = {}"
        "dir_list rss = as @ cs" "dir_list rss' = as @ (name, of_int m) # cs"
      unfolding entry_added_def by auto
    obtain s b c v where iv: "i' = i \<lparr> di_size := s, direct_blocks := b, indirect_blocks := c, di_blocks := v \<rparr>" using p(2) by blast
    have fl: "di_mode i' = di_mode i" "di_nlink i' = di_nlink i" by (simp_all add: iv)
    note mp = inserted_map [OF p(6,7) assms(16)]
    note rw = record_write [OF u m p(4) s2]
    have d2: "dir_ok u img2 i' ds' ps' d' rss'"
      by (rule dir_frame [OF u p(3) own_mono [OF p(4) Un_upper2] others_frags [OF rw(2) Un_upper2]])
    have lk: "lookup_directory_entry img2 u i' name = Some (Some (of_int m, t \<lparr> di_nlink := di_nlink t + 1 \<rparr>))"
      using lookup_dir_ok [OF u d2, of name] t2 by (simp add: mp w(2))
    have c: "unat (di_nlink t + 1) = unat (di_nlink t) + 1" using assms(14) by (simp add: unat_plus_if')
    have "read_inode img2 u n = Some (Some i')" using k2 n assms(9) p(1) by auto
    moreover have "same_frags u A img img2" by (rule same_frags_trans [OF sf others_frags [OF rw(2) Un_upper1]])
    moreover have "own u A img2" by (rule own_mono [OF rw(1) Un_upper1])
    moreover have "read_inode img2 u k = read_inode img u k" if "valid_ino (sb u) k" "k \<noteq> n" "k \<noteq> m" for k
      using k1 k2 that by simp
    ultimately show ?thesis
      using run Inr fl d2 rw(1) p(5) mp lk c
      by (intro exI [of _ "Inr ()"] exI [of _ img2] conjI, simp_all)
        (intro exI [of _ i'] conjI exI [of _ ds'] exI [of _ ps'] exI [of _ d'] exI [of _ rss'], simp_all)
  qed
qed

theorem link_in_parent_correct_witness:
  "\<exists>img r img'. link_in_parent sample_ufs 2 [98] 5 img = Some (r, img') \<and> own sample_ufs {} img'
    \<and> (r = Inr () \<and> (\<exists>t. read_inode img' sample_ufs 5 = Some (Some t) \<and> di_nlink t = 1)
       \<or> r \<noteq> Inr () \<and> read_inode img' sample_ufs 5 = Some (Some blank_inode))"
proof -
  obtain d rss where d: "length d = 512" "dir_holds d rss" "dir_list rss = [([97], 5)]" using one_entry_dir by blast
  obtain img where img: "tables_fit sample_ufs img" "read_inode img sample_ufs 2 = Some (Some sample_root)"
    "dir_ok sample_ufs img sample_root [40] [] d rss" "own sample_ufs ({} \<union> file_cells sample_ufs sample_root [40] []) img"
    "read_inode img sample_ufs 5 = Some (Some blank_inode)"
    using sample_tree [OF d(1,2)] by blast
  have c: "valid_ino (sb sample_ufs) 2" "valid_ino (sb sample_ufs) 5" "(5 :: int) \<noteq> 2" "(5 :: int) \<noteq> 0"
    "ncg (sb sample_ufs) * ipg (sb sample_ufs) \<le> 2 ^ 32" "\<not> is_directory blank_inode" "unat (di_nlink blank_inode) < 65535"
    "length [98 :: u8] \<le> 255" "[98] \<notin> dom (map_of (dir_list rss))" "length d + 512 \<le> max_blocks sample_ufs * bs sample_ufs"
    using d(1,3) by (simp_all add: valid_ino_def max_blocks_def bs_def blank_inode_def is_directory_def file_type_def)
  from link_in_parent_correct [OF sample_layout c(1) img(1-4) Int_empty_left c(2-5) img(5) c(6-10)]
  show ?thesis
  proof (elim exE conjE, goal_cases)
    case (1 r img')
    show ?case
    proof (cases r)
      case (Inl e)
      then show ?thesis using 1(1,2,5) by auto
    next
      case (Inr x)
      from 1(5) [unfolded Inr sum.case] obtain i' ds' ps' d' rss' t' where l: "dir_ok sample_ufs img' i' ds' ps' d' rss'"
        "map_of (dir_list rss') = (map_of (dir_list rss))([98] \<mapsto> of_int 5)"
        "lookup_directory_entry img' sample_ufs i' [98] = Some (Some (of_int 5, t'))" "unat (di_nlink t') = unat (di_nlink blank_inode) + 1"
        by blast
      have "read_inode img' sample_ufs 5 = Some (Some t')" using l(3) lookup_dir_ok [OF sample_layout l(1), of "[98]"] l(2) by auto
      moreover have "di_nlink t' = 1" using l(4) by (simp add: word_unat_eq_iff blank_inode_def)
      ultimately show ?thesis using 1(1,2) Inr by auto
    qed
  qed
qed

end
