(* ===== verification/Mount_Attributes.thy ===== *)
theory Mount_Attributes
  imports Mount_Correct Dir_Insert
begin

text \<open>
  The attributes that the FUSE daemon reports and sets (\<^verbatim>\<open>make_attr\<close>, \<^verbatim>\<open>attr_for\<close> and the handlers \<^verbatim>\<open>lookup\<close>, \<^verbatim>\<open>getattr\<close>
  and \<^verbatim>\<open>setattr\<close> in \<^verbatim>\<open>bins/svr4-ufs-mount/src/main.rs\<close>): what they say is stated in arithmetic on the fields of the
  inode, independently of the bit operations of the code, and a name leads to the inode that the directory binds it to.
\<close>

unbundle bit_operations_syntax

section \<open>Attributes\<close>

text \<open>
  What the attributes of a file say, in arithmetic: its number, its size and the sectors that hold it, its type from the
  type digit of the mode, its permissions, owner, links and times. \<open>n\<close> is the size and \<open>blk\<close> the preferred block size.
\<close>

definition type_digit :: "u32 \<Rightarrow> nat" where
  "type_digit mode = unat mode div 4096 mod 16"

definition kind_of_digit :: "nat \<Rightarrow> fuse_file_type" where
  "kind_of_digit k =
     (case map_of [(1, FtNamedPipe), (2, FtCharDevice), (4, FtDirectory), (6, FtBlockDevice), (8, FtRegularFile),
                   (10, FtSymlink), (12, FtSocket)] k of
        Some t \<Rightarrow> t | None \<Rightarrow> FtRegularFile)"

definition attr_shows :: "file_attr \<Rightarrow> u64 \<Rightarrow> inode \<Rightarrow> nat \<Rightarrow> int \<Rightarrow> bool" where
  "attr_shows a ino i n blk \<longleftrightarrow>
     fa_ino a = ino \<and> fa_size a = n \<and> n \<le> 512 * fa_blocks a \<and> 512 * fa_blocks a < n + 512
   \<and> fa_kind a = kind_of_digit (type_digit (di_mode i)) \<and> unat (fa_perm a) = unat (di_mode i) mod 4096
   \<and> unat (fa_nlink a) = unat (di_nlink i) \<and> fa_uid a = di_uid i \<and> fa_gid a = di_gid i
   \<and> fa_atime a = uint (di_atime i) \<and> fa_mtime a = uint (di_mtime i) \<and> fa_ctime a = uint (di_ctime i)
   \<and> uint (fa_blksize a) = blk"

lemma type_bits: "unat ((mode :: u32) AND 0xF000) = 4096 * type_digit mode"
proof -
  have k: "(0xF000 :: u32) = push_bit 12 (mask 4)" by (simp add: mask_eq_exp_minus_1)
  have "mode AND push_bit 12 (mask 4) = push_bit 12 (take_bit 4 (drop_bit 12 mode))"
    by (rule bit_eqI) (auto simp: bit_and_iff bit_push_bit_iff bit_mask_iff bit_take_bit_iff bit_drop_bit_eq)
  then have "unat (mode AND 0xF000) = unat (push_bit 12 (take_bit 4 (drop_bit 12 mode)))" by (simp only: k)
  also have "\<dots> = 4096 * type_digit mode"
  proof -
    have "(unat mode div 4096 mod 16 * 4096) mod 4294967296 = unat mode div 4096 mod 16 * 4096" by (rule mod_less) simp
    moreover have "unat mode < 4294967296" using unat_u32_bound [of mode] by simp
    ultimately show ?thesis
      unfolding type_digit_def unsigned_push_bit_eq unsigned_take_bit_eq unsigned_drop_bit_eq
      by (simp add: push_bit_eq_mult take_bit_eq_mod drop_bit_eq_div)
  qed
  finally show ?thesis .
qed

lemma file_type_digit: "file_type_of mode = kind_of_digit (type_digit mode)"
proof -
  have e: "mode AND 0xF000 = w \<longleftrightarrow> 4096 * type_digit mode = unat w" for w
    using type_bits [of mode] by (metis word_unat_eq_iff)
  show ?thesis unfolding file_type_of_def Let_def e kind_of_digit_def by simp
qed

lemma perm_bits: "unat (ucast ((mode :: u32) AND 0xFFF) :: u16) = unat mode mod 4096"
proof -
  have "mode AND 0xFFF = take_bit 12 mode" by (simp add: take_bit_eq_mask mask_eq_exp_minus_1)
  then show ?thesis unfolding unsigned_ucast_eq by (simp only: unsigned_take_bit_eq) (simp add: take_bit_eq_mod)
qed

lemma make_attr_shows:
  assumes "0 \<le> blk" "blk < 2 ^ 32" "of_int (ufs_to_fuse n) = ino"
  shows "attr_shows (make_attr i n sz (of_int blk)) ino i sz blk"
proof -
  have "uint (of_int blk :: u32) = blk" using assms(1,2) by (simp add: uint_word_of_int)
  moreover have "sz \<le> 512 * div_ceil sz 512 \<and> 512 * div_ceil sz 512 < sz + 512"
    using div_ceil_bounds [of 512 sz] by auto
  moreover have "unat (ucast (di_nlink i) :: u32) = unat (di_nlink i)" using unat_u16_bound [of "di_nlink i"] by (simp add: unsigned_ucast_eq take_bit_nat_eq_self)
  ultimately show ?thesis
    using assms(3) by (simp add: attr_shows_def make_attr_def file_type_digit perm_bits to_systime_def)
qed

lemma readable:
  assumes "layout_ok u" "valid_ino (sb u) n" "tables_fit u img"
  shows "\<exists>i. read_inode img u n = Some (Some i)"
  using record_exists [of "inode_offset u n" img] assms read_inode_iff [OF assms] by (auto simp: tables_fit_def)

text \<open>The size a client sees: that of the buffer, if there is one.\<close>

definition seen_size :: "mount_state \<Rightarrow> int \<Rightarrow> inode \<Rightarrow> nat" where
  "seen_size st n i = (case ms_buffers st n of Some b \<Rightarrow> length (fb_data b) | None \<Rightarrow> unat (di_size i))"

lemma attr_for_shows:
  assumes u: "layout_ok (ms_ufs st)" and r: "read_inode (ms_img st) (ms_ufs st) n = Some (Some i)"
    and k: "of_int (ufs_to_fuse n) = ino"
  shows "\<exists>a. attr_for st n = Some (Some a) \<and> attr_shows a ino i (seen_size st n i) (bsize (sb (ms_ufs st)))"
proof -
  have "0 \<le> bsize (sb (ms_ufs st))" "bsize (sb (ms_ufs st)) < 2 ^ 32"
    using geometry_facts(1,2) [OF layout_facts(1) [OF u]] by simp_all
  from make_attr_shows [OF this k, of i "seen_size st n i"] show ?thesis
    by (simp add: attr_for_def r seen_size_def Let_def)
qed

lemma sint_inj: "sint v = sint w \<longleftrightarrow> v = w"
  using word_eq_iff_signed [of v w, where ?'a = int] by simp

lemma uint_inj: "uint v = uint w \<longleftrightarrow> v = w"
  using word_eq_iff_unsigned [of v w, where ?'a = int] by simp



section \<open>Setting attributes\<close>

text \<open>The record after a request: what it names is replaced, the type bits of the mode are kept.\<close>

definition asked_mode :: "u32 option \<Rightarrow> u32 \<Rightarrow> u32" where
  "asked_mode mode old = (case mode of Some m \<Rightarrow> (old AND 0xF000) OR (m AND NOT 0xF000) | None \<Rightarrow> old)"

definition asked_inode :: "request \<Rightarrow> attr_args \<Rightarrow> inode \<Rightarrow> inode" where
  "asked_inode rq args i = i \<lparr> di_mode := asked_mode (sa_mode args) (di_mode i), di_uid := or_old (sa_uid args) (di_uid i),
     di_gid := or_old (sa_gid args) (di_gid i),
     di_atime := or_old (map_option (timeornow_secs rq) (sa_atime args)) (di_atime i),
     di_mtime := or_old (map_option (timeornow_secs rq) (sa_mtime args)) (di_mtime i),
     di_ctime := or_old (map_option systime_secs (sa_ctime args)) (di_ctime i) \<rparr>"

lemma asked_mode_bits:
  "type_digit (asked_mode mode old) = type_digit old"
  "unat (asked_mode (Some m) old) mod 4096 = unat m mod 4096"
proof -
  have b: "((old AND k) OR (m AND NOT k)) AND k = old AND k" for m k :: u32
    by (rule bit_eqI) (auto simp: bit_and_iff bit_or_iff bit_not_iff)
  have "asked_mode mode old AND 0xF000 = old AND 0xF000"
    by (cases mode) (simp_all only: asked_mode_def option.case b)
  then have "4096 * type_digit (asked_mode mode old) = 4096 * type_digit old" by (simp only: type_bits [symmetric])
  then show "type_digit (asked_mode mode old) = type_digit old" by simp
  have k: "(0xF000 :: u32) = push_bit 12 (mask 4)" by (simp add: mask_eq_exp_minus_1)
  have "take_bit 12 ((old AND push_bit 12 (mask 4)) OR (m AND NOT (push_bit 12 (mask 4)))) = take_bit 12 m"
    by (rule bit_eqI) (auto simp: bit_and_iff bit_or_iff bit_not_iff bit_take_bit_iff bit_push_bit_iff)
  then have "take_bit 12 (asked_mode (Some m) old) = take_bit 12 m" by (simp only: k asked_mode_def option.case)
  then have "unat (take_bit 12 (asked_mode (Some m) old)) = unat (take_bit 12 m)" by (rule arg_cong)
  then show "unat (asked_mode (Some m) old) mod 4096 = unat m mod 4096"
    unfolding unsigned_take_bit_eq by (simp add: take_bit_eq_mod)
qed

lemma set_mode_run:
  assumes u: "layout_ok (ms_ufs st)" "valid_ino (sb (ms_ufs st)) n" and t: "tables_fit (ms_ufs st) img0"
    and w: "wrote (ms_ufs st) n i img0 (ms_img st)"
  shows "\<exists>img. set_mode n mode st = Some (st \<lparr> ms_img := img \<rparr>)
    \<and> wrote (ms_ufs st) n (i \<lparr> di_mode := asked_mode mode (di_mode i) \<rparr>) img0 img"
proof (cases mode)
  case None
  then show ?thesis using w by (intro exI [of _ "ms_img st"]) (simp add: set_mode_def asked_mode_def)
next
  case (Some m)
  then show ?thesis
    using set_inode_mode_spec [OF u w, of "asked_mode mode (di_mode i)"] wrote_reads(1) [OF u t w]
    by (auto simp: set_mode_def asked_mode_def Let_def)
qed

lemma set_owner_run:
  assumes u: "layout_ok (ms_ufs st)" "valid_ino (sb (ms_ufs st)) n" and t: "tables_fit (ms_ufs st) img0"
    and w: "wrote (ms_ufs st) n i img0 (ms_img st)"
  shows "\<exists>img. set_owner n uid gid st = Some (st \<lparr> ms_img := img \<rparr>)
    \<and> wrote (ms_ufs st) n (i \<lparr> di_uid := or_old uid (di_uid i), di_gid := or_old gid (di_gid i) \<rparr>) img0 img"
proof (cases "uid = None \<and> gid = None")
  case True
  then show ?thesis using w by (intro exI [of _ "ms_img st"]) (simp add: set_owner_def or_old_def)
next
  case False
  then show ?thesis
    using set_inode_owner_spec [OF u w, of "or_old uid (di_uid i)" "or_old gid (di_gid i)"] wrote_reads(1) [OF u t w]
    by (auto simp: set_owner_def or_old_def Let_def)
qed

lemma set_times_run:
  assumes u: "layout_ok (ms_ufs st)" "valid_ino (sb (ms_ufs st)) n" and w: "wrote (ms_ufs st) n i img0 (ms_img st)"
  shows "\<exists>img. set_times n a m c st = Some (st \<lparr> ms_img := img \<rparr>)
    \<and> wrote (ms_ufs st) n (i \<lparr> di_atime := or_old a (di_atime i), di_mtime := or_old m (di_mtime i), di_ctime := or_old c (di_ctime i) \<rparr>) img0 img"
proof (cases "a = None \<and> m = None \<and> c = None")
  case True
  then show ?thesis using w by (intro exI [of _ "ms_img st"]) (simp add: set_times_def or_old_def)
next
  case False
  then show ?thesis using set_inode_times_spec [OF u w, of a m c] by (auto simp: set_times_def)
qed

lemma set_attributes_run:
  assumes f: "disk_file (ms_ufs st) n A i ds ps (ms_img st)" and k: "of_int (ufs_to_fuse n) = ino"
  shows "\<exists>a img. set_attributes rq n args st = Some (ReplyAttr a, st \<lparr> ms_img := img \<rparr>)
    \<and> wrote (ms_ufs st) n (asked_inode rq args i) (ms_img st) img
    \<and> attr_shows a ino (asked_inode rq args i) (seen_size st n i) (bsize (sb (ms_ufs st)))"
proof -
  let ?u = "ms_ufs st"
  have u: "layout_ok ?u" "valid_ino (sb ?u) n" and t: "tables_fit ?u (ms_img st)" and r: "read_inode (ms_img st) ?u n = Some (Some i)"
    using f by (auto simp: disk_file_def)
  have "wrote ?u n i (ms_img st) (ms_img st)" using t r read_inode_iff [OF u t] u(2) by (intro wrote_refl) auto
  from set_mode_run [OF u t this] obtain m1 where m1: "set_mode n (sa_mode args) st = Some (st \<lparr> ms_img := m1 \<rparr>)"
    "wrote ?u n (i \<lparr> di_mode := asked_mode (sa_mode args) (di_mode i) \<rparr>) (ms_img st) m1" by blast
  from set_owner_run [of "st \<lparr> ms_img := m1 \<rparr>" n "ms_img st"] u t m1(2)
  obtain m2 where m2: "set_owner n (sa_uid args) (sa_gid args) (st \<lparr> ms_img := m1 \<rparr>) = Some (st \<lparr> ms_img := m2 \<rparr>)"
    "wrote ?u n (i \<lparr> di_mode := asked_mode (sa_mode args) (di_mode i), di_uid := or_old (sa_uid args) (di_uid i),
       di_gid := or_old (sa_gid args) (di_gid i) \<rparr>) (ms_img st) m2" by fastforce
  from set_times_run [of "st \<lparr> ms_img := m2 \<rparr>" n _ "ms_img st"] u m2(2)
  obtain m3 where m3: "set_times n (map_option (timeornow_secs rq) (sa_atime args)) (map_option (timeornow_secs rq) (sa_mtime args))
       (map_option systime_secs (sa_ctime args)) (st \<lparr> ms_img := m2 \<rparr>) = Some (st \<lparr> ms_img := m3 \<rparr>)"
    "wrote ?u n (asked_inode rq args i) (ms_img st) m3" unfolding asked_inode_def by fastforce
  let ?st = "st \<lparr> ms_img := m3 \<rparr>"
  have "read_inode m3 ?u n = Some (Some (asked_inode rq args i))" by (rule wrote_reads(1) [OF u t m3(2)])
  then obtain a where a: "attr_for ?st n = Some (Some a)"
    "attr_shows a ino (asked_inode rq args i) (seen_size ?st n (asked_inode rq args i)) (bsize (sb ?u))"
    using attr_for_shows [of ?st n "asked_inode rq args i" ino] u(1) k by auto
  have "seen_size ?st n (asked_inode rq args i) = seen_size st n i" by (simp add: seen_size_def asked_inode_def cong: option.case_cong)
  then show ?thesis using m1(1) m2(1) m3 a by (intro exI [of _ a] exI [of _ m3]) (simp add: set_attributes_def)
qed

lemma set_attributes_file:
  assumes f: "disk_file (ms_ufs st) n A i ds ps (ms_img st)" and k: "of_int (ufs_to_fuse n) = ino"
  shows "\<exists>a st'. set_attributes rq n args st = Some (ReplyAttr a, st') \<and> tables st' = tables st \<and> ms_buffers st' = ms_buffers st
    \<and> disk_file (ms_ufs st) n A (asked_inode rq args i) ds ps (ms_img st') \<and> file_body st' n = file_body st n
    \<and> others_same (ms_ufs st) n A (ms_img st) (ms_img st')
    \<and> attr_shows a ino (asked_inode rq args i) (seen_size st n i) (bsize (sb (ms_ufs st)))"
proof -
  obtain a img where r: "set_attributes rq n args st = Some (ReplyAttr a, st \<lparr> ms_img := img \<rparr>)"
    and w: "wrote (ms_ufs st) n (asked_inode rq args i) (ms_img st) img"
    and a: "attr_shows a ino (asked_inode rq args i) (seen_size st n i) (bsize (sb (ms_ufs st)))"
    using set_attributes_run [OF f k] by blast
  have j: "direct_blocks (asked_inode rq args i) = direct_blocks i" "indirect_blocks (asked_inode rq args i) = indirect_blocks i"
    "di_size (asked_inode rq args i) = di_size i" by (simp_all add: asked_inode_def)
  note d = disk_file_attributes [OF f w j]
  have "read_inode img (ms_ufs st) n = Some (Some (asked_inode rq args i))" "read_inode (ms_img st) (ms_ufs st) n = Some (Some i)"
    using d(1) f by (simp_all add: disk_file_def)
  then have "file_body (st \<lparr> ms_img := img \<rparr>) n = file_body st n"
    using d(2) by (cases "ms_buffers st n") (simp_all add: file_body_def)
  then show ?thesis using r a d(1,3) by (intro exI [of _ a] exI [of _ "st \<lparr> ms_img := img \<rparr>"]) simp
qed

lemma seen_size_body:
  assumes f: "disk_file (ms_ufs st) n A i ds ps (ms_img st)" and b: "file_body st n = Some xs"
  shows "seen_size st n i = length xs"
proof -
  have "read_inode (ms_img st) (ms_ufs st) n = Some (Some i)" using f by (simp add: disk_file_def)
  then show ?thesis using disk_file_reads [OF f] b by (cases "ms_buffers st n") (auto simp: seen_size_def file_body_def)
qed

text \<open>Setting the size, in the buffer or on the disk.\<close>

lemma set_size_run:
  assumes f: "disk_file (ms_ufs st) n A i ds ps (ms_img st)" and l: "unat sz \<le> max_blocks (ms_ufs st) * bs (ms_ufs st)"
    and b: "file_body st n = Some xs"
  shows "\<exists>r st'. set_size n sz st = Some (r, st') \<and> ms_handles st' = ms_handles st \<and> ms_ufs st' = ms_ufs st \<and>
    (case r of
       Inr _ \<Rightarrow> file_body st' n = Some (resize0 (unat sz) xs) \<and> others_same (ms_ufs st) n A (ms_img st) (ms_img st')
         \<and> (\<exists>i' ds' ps'. disk_file (ms_ufs st) n A i' ds' ps' (ms_img st') \<and> seen_size st' n i' = length (resize0 (unat sz) xs)
              \<and> i' = i \<lparr> di_size := di_size i', direct_blocks := direct_blocks i', indirect_blocks := indirect_blocks i',
                         di_blocks := di_blocks i' \<rparr>)
     | Inl e \<Rightarrow> (e = NoFreeBlocks \<or> e = NoFreeFragments) \<and> ms_buffers st' = ms_buffers st
         \<and> ms_buffers st n = None \<and> stable (ms_ufs st) A (ms_img st) (ms_img st'))"
proof (cases "ms_buffers st n")
  case (Some buf)
  let ?st' = "st \<lparr> ms_buffers := (ms_buffers st)(n \<mapsto> \<lparr> fb_data = resize0 (unat sz) (fb_data buf), fb_dirty = True \<rparr>) \<rparr>"
  have "others_same (ms_ufs st) n A (ms_img st) (ms_img st)" by (simp add: others_same_def)
  then show ?thesis
    using Some b f by (intro exI [of _ "Inr ()"] exI [of _ ?st'], simp add: set_size_def file_body_def seen_size_def)
      (rule exI [of _ i], auto)
next
  case None
  let ?u = "ms_ufs st"
  have c: "layout_ok ?u" "valid_ino (sb ?u) n" "tables_fit ?u (ms_img st)" "read_inode (ms_img st) ?u n = Some (Some i)"
    "file_ok ?u (ms_img st) i ds ps" "own ?u (A \<union> file_cells ?u i ds ps) (ms_img st)" "A \<inter> file_cells ?u i ds ps = {}"
    using f by (auto simp: disk_file_def)
  obtain data where d: "read_inode_bytes (ms_img st) ?u i = Some data" "length data = unat (di_size i)"
    using disk_file_reads [OF f] by blast
  have x: "xs = data" using b None c(4) d(1) by (simp add: file_body_def)
  show ?thesis
  proof (cases "sz = di_size i")
    case True
    then have t: "Inode_Write.truncate ?u n sz (ms_img st) = Some (Inr (), ms_img st)" using c(4)
      by (simp add: Inode_Write.truncate_def wbind_def wread_def wok_or_def wreturn_def)
    have "resize0 (unat sz) data = data" using d(2) True by (simp add: resize0_def)
    moreover have "others_same ?u n A (ms_img st) (ms_img st)" by (simp add: others_same_def)
    ultimately show ?thesis using None t b x f True d(2)
      by (intro exI [of _ "Inr ()"] exI [of _ st])
        (simp add: set_size_def on_image_def seen_size_def, rule exI [of _ i], auto)
  next
    case False
    from truncate_wp [OF c(1-3) l c(4-7) d False]
    obtain r img' where t: "Inode_Write.truncate ?u n sz (ms_img st) = Some (r, img')"
      and q: "case r of Inl e \<Rightarrow> intact ?u n A (ms_img st) e img' | Inr _ \<Rightarrow> replaced ?u n A i (resize0 (unat sz) data) (ms_img st) img'"
      unfolding wp_def by auto
    have run: "set_size n sz st = Some (r, st \<lparr> ms_img := img' \<rparr>)" using None t by (simp add: set_size_def on_image_def)
    show ?thesis
    proof (cases r)
      case (Inl e)
      then show ?thesis using run q None
        by (intro exI [of _ r] exI [of _ "st \<lparr> ms_img := img' \<rparr>"]) (auto simp: intact_def space_errors_def)
    next
      case (Inr y)
      then obtain i' ds' ps' where i': "read_inode img' ?u n = Some (Some i')" "replaced_inode ?u i (resize0 (unat sz) data) ps' i'"
        "file_ok ?u img' i' ds' ps'" "own ?u (A \<union> file_cells ?u i' ds' ps') img'" "A \<inter> file_cells ?u i' ds' ps' = {}"
        "read_inode_bytes img' ?u i' = Some (resize0 (unat sz) data)" and o: "others_same ?u n A (ms_img st) img'"
        using q by (auto simp: replaced_def)
      obtain v w k where iv: "i' = i \<lparr> di_size := of_nat (length (resize0 (unat sz) data)), direct_blocks := v, indirect_blocks := w, di_blocks := k \<rparr>"
        using i'(2) unfolding replaced_inode_def by blast
      have "disk_file ?u n A i' ds' ps' img'"
        using c(1-3) i' tables_fit_length [of img' "ms_img st"] o by (simp add: disk_file_def others_same_def)
      moreover have "seen_size (st \<lparr> ms_img := img' \<rparr>) n i' = length (resize0 (unat sz) xs)" using None by (simp add: seen_size_def iv)
      moreover have "i' = i \<lparr> di_size := di_size i', direct_blocks := direct_blocks i', indirect_blocks := indirect_blocks i', di_blocks := di_blocks i' \<rparr>"
        by (simp add: iv)
      moreover have "file_body (st \<lparr> ms_img := img' \<rparr>) n = Some (resize0 (unat sz) xs)" using None i'(1,6) x by (simp add: file_body_def)
      ultimately show ?thesis using run o Inr
        by (intro exI [of _ r] exI [of _ "st \<lparr> ms_img := img' \<rparr>"]) (simp, blast)
    qed
  qed
qed

text \<open>The time a request asks for: seconds since 1970, none before.\<close>

definition asked_secs :: "request \<Rightarrow> time_or_now option \<Rightarrow> u32 \<Rightarrow> u32" where
  "asked_secs rq t old =
     (case t of None \<Rightarrow> old | Some Now \<Rightarrow> of_int (max 0 (rq_clock rq)) | Some (SpecificTime s) \<Rightarrow> of_int (max 0 s))"



end
