(* ===== verification/Format.thy ===== *)
theory Format
  imports Dir_Write Summary Rust_Std
begin

text \<open>
  The formatter, \<^verbatim>\<open>crates/svr4-ufs/src/format.rs\<close>: validation of the options, the layout of the groups
  (\<open>format_plan\<close>), the superblock fields in the order they are written, and the creation of the groups
  and of the root directory on top of the write path. Quantities are \<^verbatim>\<open>u64\<close> values, as naturals; the
  one sum that can wrap is written out.
\<close>

unbundle bit_operations_syntax

abbreviation (input) SUMMARY_BLOCK_NUMBER :: nat where "SUMMARY_BLOCK_NUMBER \<equiv> 4"
abbreviation (input) CG_BLOCK_NUMBER :: nat where "CG_BLOCK_NUMBER \<equiv> 5"
abbreviation (input) INODE_BLOCK_NUMBER :: nat where "INODE_BLOCK_NUMBER \<equiv> 6"

record format_options =
  fo_timestamp :: u32
  fo_block_size :: nat
  fo_bytes_per_inode :: nat
  fo_tracks_per_cylinder :: "u32 option"
  fo_sectors_per_track :: "u32 option"

definition default_options :: format_options where
  "default_options = \<lparr> fo_timestamp = 0, fo_block_size = 8192, fo_bytes_per_inode = 8192,
     fo_tracks_per_cylinder = None, fo_sectors_per_track = None \<rparr>"

datatype format_error =
    BadImageSize
  | BadBlockSize
  | BlockNotFragmentMultiple
  | GeometryIncomplete
  | SlicePastEnd
  | NotPowerOfTwo nat
  | GeometryZero
  | NotWholeCylinders
  | NoCylinders
  | BitmapTooSmall
  | BytesPerInodeZero
  | GroupTooSmall
  | NoUsableInodes
  | FormatTooSmall nat nat
  | SummaryOverlaps
  | ReparseFailed
  | RootInodeFailed
  | FormatWrite werror

section \<open>Helpers\<close>

fun trailing_zeros :: "nat \<Rightarrow> nat" where
  "trailing_zeros v = (if v = 0 then 64 else if odd v then 0 else Suc (trailing_zeros (v div 2)))"

declare trailing_zeros.simps [simp del]

definition power_of_two_shift :: "nat \<Rightarrow> format_error + nat" where
  "power_of_two_shift v = (if v = 0 \<or> v AND (v - 1) \<noteq> 0 then Inl (NotPowerOfTwo v) else Inr (trailing_zeros v))"

definition align_up :: "nat \<Rightarrow> nat \<Rightarrow> nat" where
  "align_up v alignment = (if alignment = 0 then v else div_ceil v alignment * alignment)"

definition neg_u32_mask :: "nat \<Rightarrow> u32" where
  "neg_u32_mask v = - of_nat v"

definition compute_inode_block_count :: "nat \<Rightarrow> nat \<Rightarrow> nat \<Rightarrow> nat \<Rightarrow> nat \<Rightarrow> nat \<Rightarrow> format_error + nat" where
  "compute_inode_block_count image_size block_size cylinder_groups fragments_per_group inode_block_number bytes_per_inode =
     (if bytes_per_inode = 0 then Inl BytesPerInodeZero else
      let inodes_per_block = block_size div UFS_DINODE_SIZE;
          target_inodes = max (div_ceil image_size bytes_per_inode) 1;
          target_ipg = max (div_ceil target_inodes cylinder_groups) 1;
          wanted = max (div_ceil target_ipg inodes_per_block) 1;
          group_blocks = fragments_per_group div (block_size div SECTOR_SIZE) in
      if group_blocks \<le> inode_block_number + 1 then Inl GroupTooSmall else
      let max_inode_blocks = group_blocks - (inode_block_number + 1);
          capped = min wanted max_inode_blocks;
          inode_block_count = (if capped * inodes_per_block > MAXIPG then MAXIPG div inodes_per_block else capped) in
      if inode_block_count = 0 \<or> inode_block_count * inodes_per_block = 0 then Inl NoUsableInodes
      else Inr inode_block_count)"

section \<open>The layout\<close>

record format_geometry =
  fg_tracks_per_cylinder :: nat
  fg_sectors_per_track :: nat
  fg_total_cylinders :: nat
  fg_cylinders_per_group :: nat
  fg_cylinder_groups :: nat
  fg_fragments_per_group :: nat

definition format_geometry_of :: "format_options \<Rightarrow> nat \<Rightarrow> format_error + format_geometry" where
  "format_geometry_of opts total_fragments =
     (let block_size = fo_block_size opts in
      case (fo_tracks_per_cylinder opts, fo_sectors_per_track opts) of
        (Some t, Some s) \<Rightarrow>
          (if t = 0 \<or> s = 0 then Inl GeometryZero else
           let sectors_per_cylinder = unat t * unat s in
           if total_fragments mod sectors_per_cylinder \<noteq> 0 then Inl NotWholeCylinders else
           let total_cylinders = total_fragments div sectors_per_cylinder in
           if total_cylinders = 0 then Inl NoCylinders else
           let max_cg_data_fragments = (block_size - UFS_CG_FREE_OFFSET) * NBBY;
               max_cylinders_per_group = max_cg_data_fragments div sectors_per_cylinder in
           if max_cylinders_per_group = 0 then Inl BitmapTooSmall else
           let cylinders_per_group = min (min total_cylinders MAXCPG) max_cylinders_per_group in
           Inr \<lparr> fg_tracks_per_cylinder = unat t, fg_sectors_per_track = unat s, fg_total_cylinders = total_cylinders,
                 fg_cylinders_per_group = cylinders_per_group,
                 fg_cylinder_groups = div_ceil total_cylinders cylinders_per_group,
                 fg_fragments_per_group = cylinders_per_group * sectors_per_cylinder \<rparr>)
      | _ \<Rightarrow>
          Inr \<lparr> fg_tracks_per_cylinder = 1, fg_sectors_per_track = block_size div SECTOR_SIZE, fg_total_cylinders = 1,
                fg_cylinders_per_group = 1, fg_cylinder_groups = 1, fg_fragments_per_group = total_fragments \<rparr>)"

record format_plan =
  fp_geometry :: format_geometry
  fp_total_fragments :: nat
  fp_fragments_per_block :: nat
  fp_block_shift :: nat
  fp_fsbtodb :: nat
  fp_bshift :: nat
  fp_fshift :: nat
  fp_inodes_per_block :: nat
  fp_summary_frag_number :: nat
  fp_summary_area_bytes :: nat
  fp_cylinder_group_frag_number :: nat
  fp_inode_frag_number :: nat
  fp_data_frag_number :: nat
  fp_inodes_per_group :: nat
  fp_csshift :: nat
  fp_csmask :: u32

definition check_options :: "nat \<Rightarrow> nat \<Rightarrow> nat \<Rightarrow> format_options \<Rightarrow> format_error + unit" where
  "check_options image_len fs_start size_bytes opts =
     (let block_size = fo_block_size opts in
      if size_bytes = 0 \<or> size_bytes mod SECTOR_SIZE \<noteq> 0 then Inl BadImageSize
      else if block_size < 4096 \<or> block_size > UFS_SB_SIZE then Inl BadBlockSize
      else if block_size mod SECTOR_SIZE \<noteq> 0 then Inl BlockNotFragmentMultiple
      else if (fo_tracks_per_cylinder opts = None) \<noteq> (fo_sectors_per_track opts = None) then Inl GeometryIncomplete
      else if uadd fs_start size_bytes > image_len then Inl SlicePastEnd
      else Inr ())"

text \<open>The block numbers of the first group: the summary area may push them up.\<close>

definition layout_blocks :: "nat \<Rightarrow> nat \<times> nat" where
  "layout_blocks minimum_cg_block =
     (let cg_block_number = max CG_BLOCK_NUMBER minimum_cg_block;
          inode_block_number = INODE_BLOCK_NUMBER + (cg_block_number - CG_BLOCK_NUMBER) in
      (cg_block_number, if inode_block_number \<le> cg_block_number then cg_block_number + 1 else inode_block_number))"

definition format_layout :: "nat \<Rightarrow> format_options \<Rightarrow> nat \<times> nat \<times> nat \<times> nat \<Rightarrow> format_geometry \<Rightarrow> format_error + format_plan" where
  "format_layout size_bytes opts shifts g =
     (let (block_shift, to_db, bshift, fshift) = shifts;
          block_size = fo_block_size opts;
          fragments_per_block = block_size div SECTOR_SIZE;
          inodes_per_block = block_size div UFS_DINODE_SIZE;
          summary_frag_number = SUMMARY_BLOCK_NUMBER * 2 ^ block_shift;
          summary_area_bytes = align_up (fg_cylinder_groups g * UFS_CSUM_SIZE) SECTOR_SIZE;
          summary_fragments = summary_area_bytes div SECTOR_SIZE;
          minimum_cg_block = align_up (summary_frag_number + summary_fragments) fragments_per_block div fragments_per_block;
          (cg_block_number, inode_block_number) = layout_blocks minimum_cg_block;
          cylinder_group_frag_number = cg_block_number * 2 ^ block_shift;
          inode_frag_number = inode_block_number * 2 ^ block_shift in
      case compute_inode_block_count size_bytes block_size (fg_cylinder_groups g) (fg_fragments_per_group g)
             inode_block_number (fo_bytes_per_inode opts) of
        Inl e \<Rightarrow> Inl e
      | Inr inode_block_count \<Rightarrow>
          let data_frag_number = (inode_block_number + inode_block_count) * 2 ^ block_shift;
              required_bytes = (data_frag_number + fragments_per_block) * SECTOR_SIZE in
          if size_bytes < required_bytes then Inl (FormatTooSmall size_bytes required_bytes) else
          case power_of_two_shift (block_size div UFS_CSUM_SIZE) of
            Inl e \<Rightarrow> Inl e
          | Inr csshift \<Rightarrow>
              if summary_frag_number + summary_fragments > cylinder_group_frag_number then Inl SummaryOverlaps else
              Inr \<lparr> fp_geometry = g, fp_total_fragments = size_bytes div SECTOR_SIZE,
                    fp_fragments_per_block = fragments_per_block, fp_block_shift = block_shift, fp_fsbtodb = to_db,
                    fp_bshift = bshift, fp_fshift = fshift, fp_inodes_per_block = inodes_per_block,
                    fp_summary_frag_number = summary_frag_number, fp_summary_area_bytes = summary_area_bytes,
                    fp_cylinder_group_frag_number = cylinder_group_frag_number,
                    fp_inode_frag_number = inode_frag_number, fp_data_frag_number = data_frag_number,
                    fp_inodes_per_group = inode_block_count * inodes_per_block, fp_csshift = csshift,
                    fp_csmask = neg_u32_mask (block_size div UFS_CSUM_SIZE) \<rparr>)"

definition format_shifts :: "nat \<Rightarrow> format_error + nat \<times> nat \<times> nat \<times> nat" where
  "format_shifts block_size =
     (case power_of_two_shift (block_size div SECTOR_SIZE) of Inl e \<Rightarrow> Inl e | Inr block_shift \<Rightarrow>
      case power_of_two_shift (SECTOR_SIZE div SECTOR_SIZE) of Inl e \<Rightarrow> Inl e | Inr to_db \<Rightarrow>
      case power_of_two_shift block_size of Inl e \<Rightarrow> Inl e | Inr bshift \<Rightarrow>
      case power_of_two_shift SECTOR_SIZE of Inl e \<Rightarrow> Inl e | Inr fshift \<Rightarrow> Inr (block_shift, to_db, bshift, fshift))"

definition format_plan_of :: "nat \<Rightarrow> nat \<Rightarrow> nat \<Rightarrow> format_options \<Rightarrow> format_error + format_plan" where
  "format_plan_of image_len fs_start size_bytes opts =
     (case check_options image_len fs_start size_bytes opts of Inl e \<Rightarrow> Inl e | Inr _ \<Rightarrow>
      case format_shifts (fo_block_size opts) of Inl e \<Rightarrow> Inl e | Inr shifts \<Rightarrow>
      case format_geometry_of opts (size_bytes div SECTOR_SIZE) of Inl e \<Rightarrow> Inl e | Inr g \<Rightarrow>
      format_layout size_bytes opts shifts g)"

section \<open>Writing\<close>

text \<open>The 32-bit superblock fields in the order they are written; the signed one has the same bytes.\<close>

definition superblock_fields :: "format_plan \<Rightarrow> format_options \<Rightarrow> (nat \<times> u32) list" where
  "superblock_fields p opts =
     (let g = fp_geometry p; block_size = fo_block_size opts in
      [(UFS_FS_SBLKNO_OFFSET, of_nat (UFS_SB_OFFSET div SECTOR_SIZE)),
       (UFS_FS_CBLKNO_OFFSET, of_nat (fp_cylinder_group_frag_number p)),
       (UFS_FS_IBLKNO_OFFSET, of_nat (fp_inode_frag_number p)),
       (UFS_FS_DBLKNO_OFFSET, of_nat (fp_data_frag_number p)),
       (UFS_FS_CGOFFSET_OFFSET, 0),
       (UFS_FS_CGMASK_OFFSET, 0),
       (UFS_FS_TIME_OFFSET, fo_timestamp opts),
       (UFS_FS_SIZE_OFFSET, of_nat (fp_total_fragments p)),
       (UFS_FS_DSIZE_OFFSET, of_nat (fp_total_fragments p)),
       (UFS_FS_NCG_OFFSET, of_nat (fg_cylinder_groups g)),
       (UFS_FS_BSIZE_OFFSET, of_nat block_size),
       (UFS_FS_FSIZE_OFFSET, of_nat SECTOR_SIZE),
       (UFS_FS_FRAG_OFFSET, of_nat (fp_fragments_per_block p)),
       (UFS_FS_MINFREE_OFFSET, 0),
       (UFS_FS_ROTDLY_OFFSET, 0),
       (UFS_FS_RPS_OFFSET, 60),
       (UFS_FS_BMASK_OFFSET, neg_u32_mask block_size),
       (UFS_FS_FMASK_OFFSET, neg_u32_mask SECTOR_SIZE),
       (UFS_FS_BSHIFT_OFFSET, of_nat (fp_bshift p)),
       (UFS_FS_FSHIFT_OFFSET, of_nat (fp_fshift p)),
       (UFS_FS_MAXCONTIG_OFFSET, 1),
       (UFS_FS_MAXBPG_OFFSET, of_nat ((fg_fragments_per_group g - fp_data_frag_number p) div fp_fragments_per_block p)),
       (UFS_FS_FRAGSHIFT_OFFSET, of_nat (fp_block_shift p)),
       (UFS_FS_FSBTODB_OFFSET, of_nat (fp_fsbtodb p)),
       (UFS_FS_SBSIZE_OFFSET, of_nat (min UFS_SB_SIZE block_size)),
       (UFS_FS_CSMASK_OFFSET, fp_csmask p),
       (UFS_FS_CSSHIFT_OFFSET, of_nat (fp_csshift p)),
       (UFS_FS_NINDIR_OFFSET, of_nat (block_size div 4)),
       (UFS_FS_INOPB_OFFSET, of_nat (fp_inodes_per_block p)),
       (UFS_FS_NSPF_OFFSET, of_nat (SECTOR_SIZE div SECTOR_SIZE)),
       (UFS_FS_OPTIM_OFFSET, 0),
       (UFS_FS_STATE_OFFSET, UFS_FS_OKAY - fo_timestamp opts),
       (UFS_FS_CSADDR_OFFSET, of_nat (fp_summary_frag_number p)),
       (UFS_FS_CSSIZE_OFFSET, of_nat (fp_summary_area_bytes p)),
       (UFS_FS_CGSIZE_OFFSET, of_nat block_size),
       (UFS_FS_NTRAK_OFFSET, of_nat (fg_tracks_per_cylinder g)),
       (UFS_FS_NSECT_OFFSET, of_nat (fg_sectors_per_track g)),
       (UFS_FS_SPC_OFFSET, of_nat (fg_tracks_per_cylinder g * fg_sectors_per_track g)),
       (UFS_FS_NCYL_OFFSET, of_nat (fg_total_cylinders g)),
       (UFS_FS_CPG_OFFSET, of_nat (fg_cylinders_per_group g)),
       (UFS_FS_IPG_OFFSET, of_nat (fp_inodes_per_group p)),
       (UFS_FS_FPG_OFFSET, of_nat (fg_fragments_per_group g)),
       (UFS_FS_MAGIC_OFFSET, UFS_MAGIC)])"

definition write_superblock :: "nat \<Rightarrow> format_plan \<Rightarrow> format_options \<Rightarrow> image \<Rightarrow> image option" where
  "write_superblock so p opts img =
     do { img \<leftarrow> foldM (\<lambda>m (off, v). put_u32 m (so + off) v) img (superblock_fields p opts);
          img \<leftarrow> copy_at img (so + UFS_FS_FMOD_OFFSET) [0];
          img \<leftarrow> copy_at img (so + UFS_FS_CLEAN_OFFSET) [1];
          copy_at img (so + UFS_FS_RONLY_OFFSET) [0] }"

definition format_cg :: "ufs \<Rightarrow> int \<Rightarrow> (image, werror, unit) wm" where
  "format_cg u cg =
     wbind (initialize_pristine_cg u cg) (\<lambda>cg_bytes.
     if cg = 0 then
       wbind (wopt (set_inode_state cg_bytes (uint UFS_ROOT_INODE) True)) (\<lambda>cg_bytes.
       wmodify (\<lambda>img. write_cg_block img u cg cg_bytes))
     else wreturn ())"

definition format_root :: "ufs \<Rightarrow> u32 \<Rightarrow> (image, format_error, unit) wm" where
  "format_root u timestamp =
     (let root = uint UFS_ROOT_INODE in
      wbind (wmodify (initialize_inode u root (UFS_IFDIR OR 0x1ED) 0 0 2 timestamp)) (\<lambda>_.
      wbind (wread (\<lambda>img. read_inode img u root)) (\<lambda>found.
      wbind (wok_or RootInodeFailed found) (\<lambda>_.
      wbind (wopt (build_directory_block root root)) (\<lambda>root_block.
      wmap_err FormatWrite (set_inode_contents u root root_block))))))"

definition format :: "nat \<Rightarrow> nat \<Rightarrow> format_options \<Rightarrow> (image, format_error, ufs) wm" where
  "format fs_start size_bytes opts =
     wbind (wread (\<lambda>img. Some (length img))) (\<lambda>image_len.
     case format_plan_of image_len fs_start size_bytes opts of Inl e \<Rightarrow> wfail e | Inr p \<Rightarrow>
     wbind (wmodify (write_superblock (fs_start + UFS_SB_OFFSET) p opts)) (\<lambda>_.
     wbind (wread (\<lambda>img. detect_ufs_at_start img fs_start)) (\<lambda>found.
     wbind (wok_or ReparseFailed found) (\<lambda>u.
     wbind (wmap_err FormatWrite (wfor [0..int (fg_cylinder_groups (fp_geometry p)) - 1] (format_cg u))) (\<lambda>_.
     wbind (format_root u (fo_timestamp opts)) (\<lambda>_.
     wbind (wmap_err FormatWrite (recompute_summary_counts u)) (\<lambda>_.
     wreturn u)))))))"

end
