(* ===== verification/Format_Correct.thy ===== *)
theory Format_Correct
  imports Format Inode_Correct
begin

text \<open>
  The formatter of \<^verbatim>\<open>crates/svr4-ufs/src/format.rs\<close>: what a successful layout plan guarantees, that the superblock
  written for it is read back field by field, when the planned geometry is one the rest of the library is
  proved correct for, and what detection promises of any image.
\<close>

section \<open>The layout plan\<close>

lemma trailing_zeros_pow: "trailing_zeros (2 ^ k) = k"
  by (induction k) (simp_all add: trailing_zeros.simps)

lemma trailing_zeros_known:
  "trailing_zeros (Suc 0) = 0" "trailing_zeros 8 = 3" "trailing_zeros 16 = 4" "trailing_zeros 512 = 9"
  "trailing_zeros 4096 = 12" "trailing_zeros 8192 = 13"
  using trailing_zeros_pow [of 0] trailing_zeros_pow [of 3] trailing_zeros_pow [of 4] trailing_zeros_pow [of 9]
    trailing_zeros_pow [of 12] trailing_zeros_pow [of 13] by simp_all

lemma shifts_known:
  assumes "format_shifts n = Inr s" "4096 \<le> n" "n \<le> 8192" "n mod 512 = 0"
  shows "(n = 4096 \<and> s = (3, 0, 12, 9)) \<or> (n = 8192 \<and> s = (4, 0, 13, 9))"
proof -
  obtain k where k: "n = 512 * k" using assms(4) by auto
  have r: "8 \<le> k" "k \<le> 16" using assms(2,3) k by simp_all
  have p: "power_of_two_shift k \<noteq> Inl (NotPowerOfTwo k)"
    using assms(1) by (auto simp: format_shifts_def k split: sum.splits)
  consider "k = 8" | "k = 9" | "k = 10" | "k = 11" | "k = 12" | "k = 13" | "k = 14" | "k = 15" | "k = 16" using r by linarith
  then show ?thesis
    using p assms(1) by cases (simp_all add: power_of_two_shift_def format_shifts_def trailing_zeros_known k)
qed

text \<open>What a successful geometry choice guarantees, for images of up to \<open>2 ^ 31\<close> sectors.\<close>

lemma format_geometry_facts:
  assumes g: "format_geometry_of opts tf = Inr g" and b: "(fo_tracks_per_cylinder opts = None) = (fo_sectors_per_track opts = None)"
    and t: "tf < 2 ^ 31" "fo_block_size opts \<le> 8192"
  shows "fg_cylinder_groups g * fg_fragments_per_group g < 2 ^ 32"
    "fg_fragments_per_group g \<le> 8 * (fo_block_size opts - 984)
       \<longleftrightarrow> (fo_tracks_per_cylinder opts = None \<longrightarrow> tf \<le> 8 * (fo_block_size opts - 984))"
    "0 < fg_cylinder_groups g" "fg_tracks_per_cylinder g * fg_sectors_per_track g < 2 ^ 32" "fg_sectors_per_track g < 2 ^ 32"
    "fg_total_cylinders g < 2 ^ 32" "fg_cylinders_per_group g < 2 ^ 32" "fg_fragments_per_group g \<le> 2 * tf"
proof -
  have "(fg_cylinder_groups g * fg_fragments_per_group g < 2 ^ 32 \<and> (fg_fragments_per_group g \<le> 8 * (fo_block_size opts - 984)
       \<longleftrightarrow> (fo_tracks_per_cylinder opts = None \<longrightarrow> tf \<le> 8 * (fo_block_size opts - 984)))
    \<and> 0 < fg_cylinder_groups g \<and> fg_tracks_per_cylinder g * fg_sectors_per_track g < 2 ^ 32 \<and> fg_sectors_per_track g < 2 ^ 32)
    \<and> fg_total_cylinders g < 2 ^ 32 \<and> fg_cylinders_per_group g < 2 ^ 32 \<and> fg_fragments_per_group g \<le> 2 * tf"
  proof (cases "fo_tracks_per_cylinder opts")
    case None
    then have "fo_sectors_per_track opts = None" using b by simp
    then have "g = \<lparr> fg_tracks_per_cylinder = 1, fg_sectors_per_track = fo_block_size opts div SECTOR_SIZE, fg_total_cylinders = 1,
        fg_cylinders_per_group = 1, fg_cylinder_groups = 1, fg_fragments_per_group = tf \<rparr>" using g None by (simp add: format_geometry_of_def)
    moreover have "fo_block_size opts div 512 < 2 ^ 32" using t(2) by simp
    ultimately show ?thesis using None t by simp
  next
    case (Some a)
    then obtain s where s: "fo_sectors_per_track opts = Some s" using b by auto
    define spc where "spc = unat a * unat s"
    define tc where "tc = tf div spc"
    define m where "m = ((fo_block_size opts - 984) * 8) div spc"
    define cpg where "cpg = min (min tc 32) m"
    have nz: "a \<noteq> 0" "s \<noteq> 0" "tf mod spc = 0" "tc \<noteq> 0" "m \<noteq> 0"
      and gg: "g = \<lparr> fg_tracks_per_cylinder = unat a, fg_sectors_per_track = unat s, fg_total_cylinders = tc,
                 fg_cylinders_per_group = cpg, fg_cylinder_groups = div_ceil tc cpg, fg_fragments_per_group = cpg * spc \<rparr>"
      using g Some s by (auto simp: format_geometry_of_def Let_def spc_def tc_def m_def cpg_def split: if_splits)
    have p: "0 < spc" "0 < cpg" using nz by (simp_all add: unat_gt_0 spc_def cpg_def)
    have te: "tc * spc = tf" using nz(3) by (auto simp: tc_def)
    have le: "cpg \<le> tc" "cpg \<le> m" by (simp_all add: cpg_def)
    have "1 * spc \<le> tc * spc" using nz(4) by (intro mult_right_mono) simp_all
    then have sp: "spc < 2 ^ 31" using te t(1) by linarith
    have "1 * unat s \<le> spc" unfolding spc_def using nz(1) by (intro mult_right_mono) (simp_all add: unat_gt_0 Suc_leI)
    then have us: "unat s < 2 ^ 31" using sp by linarith
    have "tc * 1 \<le> tc * spc" using p(1) by (intro mult_left_mono) simp_all
    then have tb: "tc < 2 ^ 31" using te t(1) by linarith
    note dc = div_ceil_bounds [OF p(2), of tc]
    have "m * spc \<le> (fo_block_size opts - 984) * 8" unfolding m_def by (rule div_times_less_eq_dividend)
    moreover have "cpg * spc \<le> m * spc" using le(2) by (rule mult_right_mono) simp
    ultimately have c1: "cpg * spc \<le> 8 * (fo_block_size opts - 984)" by linarith
    have "div_ceil tc cpg * cpg \<le> 2 * tc" using dc(2) le(1) by linarith
    then have "div_ceil tc cpg * cpg * spc \<le> 2 * tc * spc" by (rule mult_right_mono) simp
    then have c2: "div_ceil tc cpg * (cpg * spc) \<le> 2 * tf" using te by (simp only: mult.assoc)
    have "cpg * spc \<le> tc * spc" using le(1) by (rule mult_right_mono) simp
    then have c3: "cpg * spc \<le> 2 * tf" using te by linarith
    have c4: "0 < div_ceil tc cpg" using dc(1) nz(4) by (cases "div_ceil tc cpg") simp_all
    have "div_ceil tc cpg * (cpg * spc) < 2 ^ 32" using c2 t(1) by simp
    then show ?thesis using Some sp us tb le(1) c1 c3 c4 unfolding gg by (simp add: spc_def [symmetric])
  qed
  then show "fg_cylinder_groups g * fg_fragments_per_group g < 2 ^ 32" "fg_fragments_per_group g \<le> 8 * (fo_block_size opts - 984)
       \<longleftrightarrow> (fo_tracks_per_cylinder opts = None \<longrightarrow> tf \<le> 8 * (fo_block_size opts - 984))"
    "0 < fg_cylinder_groups g" "fg_tracks_per_cylinder g * fg_sectors_per_track g < 2 ^ 32" "fg_sectors_per_track g < 2 ^ 32"
    "fg_total_cylinders g < 2 ^ 32" "fg_cylinders_per_group g < 2 ^ 32" "fg_fragments_per_group g \<le> 2 * tf"
    by - (elim conjE, assumption)+
qed

lemma align_up_bounds: "0 < a \<Longrightarrow> v \<le> align_up v a \<and> align_up v a < v + a \<and> a dvd align_up v a"
  using div_ceil_bounds [of a v] by (simp add: align_up_def)

lemma compute_inode_block_count_facts:
  assumes "compute_inode_block_count sz bz ncg' fpg' ib bpi = Inr n" "0 < bz div 128" "bz div 128 \<le> 2048"
  shows "0 < n" "ib + n + 1 \<le> fpg' div (bz div 512)" "n * (bz div 128) \<le> 2048"
proof -
  define q where "q = bz div 128"
  define gb where "gb = fpg' div (bz div 512)"
  define capped where "capped = min (max (div_ceil (max (div_ceil (max (div_ceil sz bpi) 1) ncg') 1) q) 1) (gb - (ib + 1))"
  have run: "(if bpi = 0 then Inl BytesPerInodeZero else if gb \<le> ib + 1 then Inl GroupTooSmall
      else if (if capped * q > 2048 then 2048 div q else capped) = 0 \<or> (if capped * q > 2048 then 2048 div q else capped) * q = 0
      then Inl NoUsableInodes else Inr (if capped * q > 2048 then 2048 div q else capped)) = (Inr n :: format_error + nat)"
    using assms(1) unfolding compute_inode_block_count_def Let_def q_def gb_def capped_def by simp
  then have c: "ib + 1 < gb" "n = (if capped * q > 2048 then 2048 div q else capped)" "n \<noteq> 0"
    by (simp_all split: if_split_asm)
  have cb: "capped \<le> gb - (ib + 1)" by (simp add: capped_def)
  show "0 < n" using c(3) by simp
  have "n \<le> capped"
  proof (cases "capped * q > 2048")
    case True
    then have "2048 div q \<le> capped * q div q" by (intro div_le_mono) simp
    then show ?thesis using c(2) True assms(2) by (simp add: q_def)
  qed (use c in simp)
  then show "ib + n + 1 \<le> fpg' div (bz div 512)" using c(1) cb by (simp add: gb_def)
  show "n * (bz div 128) \<le> 2048" using c(2) div_times_less_eq_dividend [of 2048 q] by (auto simp: q_def)
qed

text \<open>The superblock a plan stands for.\<close>

definition plan_superblock :: "format_plan \<Rightarrow> format_options \<Rightarrow> superblock" where
  "plan_superblock p opts =
     (let g = fp_geometry p in
      \<lparr> bsize = int (fo_block_size opts), fsize = 512, frag = int (fp_fragments_per_block p), dsize = int (fp_total_fragments p),
        ipg = int (fp_inodes_per_group p), fpg = int (fg_fragments_per_group g), inopb = int (fp_inodes_per_block p),
        fsbtodb = int (fp_fsbtodb p), cgoffset = 0, cgmask = 0, cblkno = int (fp_cylinder_group_frag_number p),
        iblkno = int (fp_inode_frag_number p), dblkno = int (fp_data_frag_number p), ncg = int (fg_cylinder_groups g),
        minfree = 0, fragshift = int (fp_block_shift p), nindir = int (fo_block_size opts div 4), nspf = 1,
        csaddr = int (fp_summary_frag_number p), cssize = int (fp_summary_area_bytes p), nsect = int (fg_sectors_per_track g),
        spc = int (fg_tracks_per_cylinder g * fg_sectors_per_track g), ncyl = int (fg_total_cylinders g),
        cpg = int (fg_cylinders_per_group g) \<rparr>)"

text \<open>A plan as the layout computes it, with what the later proofs need about its block numbers.\<close>

definition plan_ok :: "nat \<Rightarrow> format_options \<Rightarrow> format_plan \<Rightarrow> bool" where
  "plan_ok sz opts p \<longleftrightarrow> (\<exists>cgb ib n.
     5 \<le> cgb \<and> cgb < ib \<and> 0 < n
   \<and> fp_cylinder_group_frag_number p = cgb * fp_fragments_per_block p \<and> fp_inode_frag_number p = ib * fp_fragments_per_block p
   \<and> fp_data_frag_number p = (ib + n) * fp_fragments_per_block p
   \<and> (ib + n + 1) * fp_fragments_per_block p \<le> fg_fragments_per_group (fp_geometry p)
   \<and> (fp_data_frag_number p + fp_fragments_per_block p) * 512 \<le> sz
   \<and> fp_inodes_per_group p = n * fp_inodes_per_block p \<and> fp_inodes_per_group p \<le> 2048
   \<and> fp_total_fragments p = sz div 512
   \<and> fp_summary_frag_number p = 4 * fp_fragments_per_block p
   \<and> fp_summary_area_bytes p < fg_cylinder_groups (fp_geometry p) * 16 + 512
   \<and> 512 dvd fp_summary_area_bytes p
   \<and> fg_cylinder_groups (fp_geometry p) * 16 \<le> fp_summary_area_bytes p
   \<and> fp_summary_frag_number p + fp_summary_area_bytes p div 512 \<le> fp_cylinder_group_frag_number p
   \<and> fp_fsbtodb p = 0
   \<and> (fo_block_size opts = 4096 \<and> fp_fragments_per_block p = 8 \<and> fp_block_shift p = 3 \<and> fp_inodes_per_block p = 32
      \<or> fo_block_size opts = 8192 \<and> fp_fragments_per_block p = 16 \<and> fp_block_shift p = 4 \<and> fp_inodes_per_block p = 64))"

lemma layout_plan_ok:
  assumes l: "format_layout sz opts (sh, db, bsh, fsh) g = Inr p" and db: "db = 0"
    and bz: "(fo_block_size opts = 4096 \<and> sh = 3) \<or> (fo_block_size opts = 8192 \<and> sh = 4)"
  shows "plan_ok sz opts p \<and> fp_geometry p = g"
proof -
  define bz where "bz = fo_block_size opts"
  define fpb where "fpb = bz div 512"
  define sa where "sa = align_up (fg_cylinder_groups g * 16) 512"
  define mc where "mc = align_up (4 * fpb + sa div 512) fpb div fpb"
  obtain cgb ib where cb: "layout_blocks mc = (cgb, ib)" by (cases "layout_blocks mc")
  have f: "2 ^ sh = fpb" "(bz = 4096 \<and> fpb = 8 \<and> bz div 128 = 32) \<or> (bz = 8192 \<and> fpb = 16 \<and> bz div 128 = 64)"
    using bz by (auto simp: bz_def fpb_def)
  have cgb: "5 \<le> cgb" "cgb < ib" using cb by (auto simp: layout_blocks_def Let_def split: if_splits)
  obtain n where n: "compute_inode_block_count sz bz (fg_cylinder_groups g) (fg_fragments_per_group g) ib (fo_bytes_per_inode opts) = Inr n"
    "\<not> sz < ((ib + n) * fpb + fpb) * 512" "\<not> 4 * fpb + sa div 512 > cgb * fpb"
    "\<exists>cs. p = \<lparr> fp_geometry = g, fp_total_fragments = sz div 512,
                    fp_fragments_per_block = fpb, fp_block_shift = sh, fp_fsbtodb = db,
                    fp_bshift = bsh, fp_fshift = fsh, fp_inodes_per_block = bz div 128,
                    fp_summary_frag_number = 4 * fpb, fp_summary_area_bytes = sa,
                    fp_cylinder_group_frag_number = cgb * fpb,
                    fp_inode_frag_number = ib * fpb, fp_data_frag_number = (ib + n) * fpb,
                    fp_inodes_per_group = n * (bz div 128), fp_csshift = cs,
                    fp_csmask = neg_u32_mask (bz div 16) \<rparr>"
    using l cb unfolding format_layout_def Let_def bz_def [symmetric] case_prod_conv fpb_def [symmetric] sa_def [symmetric]
      f(1) mc_def [symmetric]
    by (simp split: sum.split_asm if_split_asm) (blast intro: that)
  have nn: "0 < n" "ib + n + 1 \<le> fg_fragments_per_group g div fpb" "n * (bz div 128) \<le> 2048"
    using compute_inode_block_count_facts [OF n(1)] f(2) unfolding fpb_def by auto
  have "(ib + n + 1) * fpb \<le> fg_fragments_per_group g div fpb * fpb" using nn(2) by (rule mult_right_mono) simp
  also have "\<dots> \<le> fg_fragments_per_group g" by (rule div_times_less_eq_dividend)
  finally have fit: "(ib + n + 1) * fpb \<le> fg_fragments_per_group g" .
  have sa: "sa < fg_cylinder_groups g * 16 + 512" "512 dvd sa" "fg_cylinder_groups g * 16 \<le> sa"
    using align_up_bounds [of 512 "fg_cylinder_groups g * 16"] by (simp_all add: sa_def)
  obtain cs where p: "p = \<lparr> fp_geometry = g, fp_total_fragments = sz div 512,
                    fp_fragments_per_block = fpb, fp_block_shift = sh, fp_fsbtodb = db,
                    fp_bshift = bsh, fp_fshift = fsh, fp_inodes_per_block = bz div 128,
                    fp_summary_frag_number = 4 * fpb, fp_summary_area_bytes = sa,
                    fp_cylinder_group_frag_number = cgb * fpb,
                    fp_inode_frag_number = ib * fpb, fp_data_frag_number = (ib + n) * fpb,
                    fp_inodes_per_group = n * (bz div 128), fp_csshift = cs,
                    fp_csmask = neg_u32_mask (bz div 16) \<rparr>" using n(4) by blast
  have bzs: "bz = 4096 \<and> fpb = 8 \<and> sh = 3 \<and> bz div 128 = 32 \<or> bz = 8192 \<and> fpb = 16 \<and> sh = 4 \<and> bz div 128 = 64"
    using bz f(2) by (auto simp: bz_def)
  show ?thesis
  proof
    show "fp_geometry p = g" by (simp add: p)
    show "plan_ok sz opts p"
      unfolding plan_ok_def p format_plan.simps bz_def [symmetric]
      by (rule exI [of _ cgb], rule exI [of _ ib], rule exI [of _ n])
        (intro conjI, (rule refl cgb nn(1) fit nn(3) n(2) [unfolded not_less] sa n(3) [unfolded not_less] db bzs)+)
  qed
qed


lemma format_plan_ok:
  assumes p: "format_plan_of len st sz opts = Inr p" and w: "st + sz < 2 ^ 64" "sz < 2 ^ 40"
  shows "plan_ok sz opts p" "st + sz \<le> len"
    "fg_cylinder_groups (fp_geometry p) * fg_fragments_per_group (fp_geometry p) < 2 ^ 32"
    "fg_fragments_per_group (fp_geometry p) \<le> 8 * (fo_block_size opts - 984)
       \<longleftrightarrow> (fo_tracks_per_cylinder opts = None \<longrightarrow> sz div 512 \<le> 8 * (fo_block_size opts - 984))"
    "0 < fg_cylinder_groups (fp_geometry p)"
    "fg_tracks_per_cylinder (fp_geometry p) * fg_sectors_per_track (fp_geometry p) < 2 ^ 32"
    "fg_sectors_per_track (fp_geometry p) < 2 ^ 32" "fg_total_cylinders (fp_geometry p) < 2 ^ 32"
    "fg_cylinders_per_group (fp_geometry p) < 2 ^ 32"
proof -
  obtain sh g where s: "check_options len st sz opts = Inr ()" "format_shifts (fo_block_size opts) = Inr sh"
    "format_geometry_of opts (sz div 512) = Inr g" "format_layout sz opts sh g = Inr p"
    using p by (auto simp: format_plan_of_def split: sum.split_asm)
  have c: "uadd st sz \<le> len" "4096 \<le> fo_block_size opts" "fo_block_size opts \<le> 8192" "fo_block_size opts mod 512 = 0"
    "(fo_tracks_per_cylinder opts = None) = (fo_sectors_per_track opts = None)"
    using s(1) by (auto simp: check_options_def Let_def split: if_split_asm)
  have k: "(fo_block_size opts = 4096 \<and> sh = (3, 0, 12, 9)) \<or> (fo_block_size opts = 8192 \<and> sh = (4, 0, 13, 9))"
    by (rule shifts_known [OF s(2) c(2-4)])
  then obtain a b where ab: "sh = (a, 0, b, 9)" "(fo_block_size opts = 4096 \<and> a = 3) \<or> (fo_block_size opts = 8192 \<and> a = 4)" by auto
  have l: "plan_ok sz opts p \<and> fp_geometry p = g" using layout_plan_ok [OF s(4) [unfolded ab(1)] refl ab(2)] .
  then show "plan_ok sz opts p" by simp
  show "st + sz \<le> len" using c(1) w(1) by (simp add: uadd_def)
  have t: "sz div 512 < 2 ^ 31" using w(2) by (simp add: less_mult_imp_div_less)
  note f = format_geometry_facts [OF s(3) c(5) t c(3)]
  show "fg_cylinder_groups (fp_geometry p) * fg_fragments_per_group (fp_geometry p) < 2 ^ 32"
    "fg_fragments_per_group (fp_geometry p) \<le> 8 * (fo_block_size opts - 984)
       \<longleftrightarrow> (fo_tracks_per_cylinder opts = None \<longrightarrow> sz div 512 \<le> 8 * (fo_block_size opts - 984))"
    "0 < fg_cylinder_groups (fp_geometry p)"
    "fg_tracks_per_cylinder (fp_geometry p) * fg_sectors_per_track (fp_geometry p) < 2 ^ 32"
    "fg_sectors_per_track (fp_geometry p) < 2 ^ 32" "fg_total_cylinders (fp_geometry p) < 2 ^ 32"
    "fg_cylinders_per_group (fp_geometry p) < 2 ^ 32" using f l by simp_all
qed

lemma plan_geometry_ok:
  assumes p: "plan_ok sz opts p" and g: "fg_cylinder_groups (fp_geometry p) * fg_fragments_per_group (fp_geometry p) < 2 ^ 32"
    "fg_fragments_per_group (fp_geometry p) \<le> 8 * (fo_block_size opts - 984)" "0 < fg_cylinder_groups (fp_geometry p)"
  shows "geometry_ok (plan_superblock p opts)"
proof -
  define f where "f = fp_fragments_per_block p"
  define q where "q = fp_inodes_per_block p"
  obtain cgb ib n where b: "5 \<le> cgb" "cgb < ib" "0 < n" "fp_cylinder_group_frag_number p = cgb * f" "fp_inode_frag_number p = ib * f"
    "fp_data_frag_number p = (ib + n) * f" "(ib + n + 1) * f \<le> fg_fragments_per_group (fp_geometry p)"
    "fp_inodes_per_group p = n * q" "n * q \<le> 2048" "fp_fsbtodb p = 0"
    and k: "fo_block_size opts = 4096 \<and> f = 8 \<and> fp_block_shift p = 3 \<and> q = 32
      \<or> fo_block_size opts = 8192 \<and> f = 16 \<and> fp_block_shift p = 4 \<and> q = 64"
    using p unfolding plan_ok_def f_def [symmetric] q_def [symmetric] by (elim exE conjE) metis
  have pos: "0 < f" "0 < q" "0 < n * q" using k b(3) by auto
  have d: "(ib + n) * f < fg_fragments_per_group (fp_geometry p)" using b(7) pos(1) by (simp add: algebra_simps)
  have "5 * f \<le> cgb * f" using b(1) by (rule mult_right_mono) simp
  then have cb: "16384 \<le> cgb * f * 512" using k by auto
  have "(cgb + 1) * f \<le> ib * f" using b(2) by (intro mult_right_mono) simp_all
  then have ci: "cgb * f + f \<le> ib * f" by simp
  have di: "int (n * q) div int q = int n" using pos by simp
  have gg: "int (fg_cylinder_groups (fp_geometry p)) * int (fg_fragments_per_group (fp_geometry p)) < 2 ^ 32"
    using g(1) by (metis of_nat_less_iff of_nat_mult of_nat_numeral of_nat_power)
  have g2: "int (fg_fragments_per_group (fp_geometry p)) \<le> 8 * (int (fo_block_size opts) - 984)" using g(2) k by auto
  have fgp: "0 < fg_fragments_per_group (fp_geometry p)" using d by simp
  have ids: "iblkno s + int n * int f = dblkno s" if "iblkno s = int (ib * f)" "dblkno s = int ((ib + n) * f)" for s
    using that by (simp add: algebra_simps)
  show ?thesis
    unfolding geometry_ok_def plan_superblock_def Let_def superblock.simps b(4-6,8,10) f_def [symmetric] q_def [symmetric] di
    using k b(9) pos gg g2 fgp d cb ci g(3)
    by (intro conjI) (auto simp: algebra_simps)
qed

section \<open>The superblock on the image\<close>

text \<open>A run of 32-bit field writes at distinct offsets.\<close>

definition apart :: "nat \<times> u32 \<Rightarrow> nat \<times> u32 \<Rightarrow> bool" where
  "apart a b \<longleftrightarrow> fst a + 4 \<le> fst b"

lemma field_writes:
  assumes "sorted_wrt apart fs" "\<forall>f \<in> set fs. so + fst f + 4 \<le> length img"
  shows "\<exists>img'. foldM (\<lambda>m (off, v). put_u32 m (so + off) v) img fs = Some img' \<and> length img' = length img
    \<and> (\<forall>f \<in> set fs. u32 img' (so + fst f) = Some (snd f))
    \<and> (\<forall>k. (\<forall>f \<in> set fs. k < so + fst f \<or> so + fst f + 4 \<le> k) \<longrightarrow> img' ! k = img ! k)"
  using assms
proof (induction fs arbitrary: img)
  case (Cons f fs)
  obtain off v where f: "f = (off, v)" by (cases f)
  have w: "put_u32 img (so + off) v = Some (upd img (so + off) (le32 v))" using Cons.prems(2) by (simp add: put_upd f)
  let ?i = "upd img (so + off) (le32 v)"
  obtain img' where i': "foldM (\<lambda>m (off, v). put_u32 m (so + off) v) ?i fs = Some img'" "length img' = length ?i"
    "\<forall>f \<in> set fs. u32 img' (so + fst f) = Some (snd f)"
    "\<forall>k. (\<forall>f \<in> set fs. k < so + fst f \<or> so + fst f + 4 \<le> k) \<longrightarrow> img' ! k = ?i ! k"
    using Cons.IH [of ?i] Cons.prems by auto
  have b: "so + off + 4 \<le> length img" using Cons.prems(2) by (simp add: f)
  have later: "\<forall>g \<in> set fs. off + 4 \<le> fst g" using Cons.prems(1) by (auto simp: apart_def f)
  have same: "img' ! k = ?i ! k" if "k < so + off + 4" for k
  proof -
    have "\<forall>g \<in> set fs. k < so + fst g \<or> so + fst g + 4 \<le> k" using that later by fastforce
    then show ?thesis using i'(4) by blast
  qed
  have "u32 img' (so + off) = u32 ?i (so + off)" by (intro u32_cong same i'(2)) simp
  then have v: "u32 img' (so + off) = Some v" using b by (simp add: upd_read_same)
  have "img' ! k = img ! k" if "\<forall>g \<in> set (f # fs). k < so + fst g \<or> so + fst g + 4 \<le> k" for k
  proof -
    have "img' ! k = ?i ! k" using that i'(4) by simp
    then show ?thesis using that b by (auto simp: f upd_nth)
  qed
  then show ?case using i' w v by (auto simp: f)
qed simp

lemma plan_field_bounds:
  assumes p: "plan_ok sz opts p" and w: "sz < 2 ^ 40"
    and g: "fg_cylinder_groups (fp_geometry p) * fg_fragments_per_group (fp_geometry p) < 2 ^ 32" "0 < fg_cylinder_groups (fp_geometry p)"
  shows "fp_total_fragments p < 2 ^ 32" "fp_cylinder_group_frag_number p < 2 ^ 32" "fp_inode_frag_number p < 2 ^ 32"
    "fp_data_frag_number p < 2 ^ 32" "fp_inodes_per_group p < 2 ^ 32" "fg_fragments_per_group (fp_geometry p) < 2 ^ 32"
    "fg_cylinder_groups (fp_geometry p) < 2 ^ 32" "fp_summary_area_bytes p < 2 ^ 32" "st + 16384 \<le> st + sz"
proof -
  define f where "f = fp_fragments_per_block p"
  define fpg' where "fpg' = fg_fragments_per_group (fp_geometry p)"
  define ncg' where "ncg' = fg_cylinder_groups (fp_geometry p)"
  obtain cgb ib n where b: "5 \<le> cgb" "cgb < ib" "0 < n" "fp_cylinder_group_frag_number p = cgb * f" "fp_inode_frag_number p = ib * f"
    "fp_data_frag_number p = (ib + n) * f" "(ib + n + 1) * f \<le> fpg'" "(fp_data_frag_number p + f) * 512 \<le> sz"
    "fp_inodes_per_group p \<le> 2048" "fp_summary_area_bytes p < ncg' * 16 + 512" "fp_total_fragments p = sz div 512"
    and k: "f = 8 \<or> f = 16"
    using p unfolding plan_ok_def f_def [symmetric] fpg'_def [symmetric] ncg'_def [symmetric] by (elim exE conjE) metis
  have le: "cgb * f \<le> ib * f" "ib * f \<le> (ib + n) * f" "5 * f \<le> cgb * f" using b by (auto intro!: mult_right_mono)
  have "1 * fpg' \<le> ncg' * fpg'" using g(2) unfolding ncg'_def by (intro mult_right_mono) simp_all
  then have fp: "fpg' < 2 ^ 32" using g(1) unfolding fpg'_def ncg'_def by linarith
  have d: "(ib + n) * f + f \<le> fpg'" using b(7) by (simp add: algebra_simps)
  have "40 \<le> fpg'" using d le k by linarith
  then have "ncg' * 32 \<le> ncg' * fpg'" by (intro mult_left_mono) simp_all
  then have nc: "ncg' * 32 < 2 ^ 32" using g(1) unfolding fpg'_def ncg'_def by linarith
  show "fp_total_fragments p < 2 ^ 32" using w b(11) by simp
  show "fp_cylinder_group_frag_number p < 2 ^ 32" "fp_inode_frag_number p < 2 ^ 32" "fp_data_frag_number p < 2 ^ 32"
    unfolding b(4-6) using le d fp by linarith+
  show "fp_inodes_per_group p < 2 ^ 32" "fg_fragments_per_group (fp_geometry p) < 2 ^ 32"
    using b(9) fp unfolding fpg'_def by simp_all
  show "fg_cylinder_groups (fp_geometry p) < 2 ^ 32" "fp_summary_area_bytes p < 2 ^ 32"
    using nc b(10) unfolding ncg'_def by simp_all
  have "5 * f + f \<le> fp_data_frag_number p + f" using le b(6) by linarith
  then have "(5 * f + f) * 512 \<le> (fp_data_frag_number p + f) * 512" by (rule mult_right_mono) simp
  then have "(5 * f + f) * 512 \<le> sz" using b(8) by (rule order_trans)
  then show "st + 16384 \<le> st + sz" using k by auto
qed


lemma superblock_fields_apart: "sorted_wrt apart (superblock_fields p opts)"
  by (simp add: superblock_fields_def Let_def apart_def)

lemma superblock_fields_end: "f \<in> set (superblock_fields p opts) \<Longrightarrow> fst f + 4 \<le> 1376 \<and> (fst f + 4 \<le> 208 \<or> 211 \<le> fst f)"
  by (auto simp: superblock_fields_def Let_def)

text \<open>The fields on the image, and that only bytes of the superblock have changed.\<close>

lemma write_superblock_fields:
  assumes l: "so + 1376 \<le> length img"
  shows "\<exists>img'. write_superblock so p opts img = Some img' \<and> same_except (\<lambda>k. so \<le> k \<and> k < so + 1376) img img'
    \<and> (\<forall>f \<in> set (superblock_fields p opts). u32 img' (so + fst f) = Some (snd f))"
proof -
  note e = superblock_fields_end [of _ p opts]
  have "\<forall>f \<in> set (superblock_fields p opts). so + fst f + 4 \<le> length img" using e l by fastforce
  then obtain m where m: "foldM (\<lambda>m (off, v). put_u32 m (so + off) v) img (superblock_fields p opts) = Some m" "length m = length img"
    "\<forall>f \<in> set (superblock_fields p opts). u32 m (so + fst f) = Some (snd f)"
    "\<forall>k. (\<forall>f \<in> set (superblock_fields p opts). k < so + fst f \<or> so + fst f + 4 \<le> k) \<longrightarrow> m ! k = img ! k"
    using field_writes [OF superblock_fields_apart] by blast
  let ?i = "upd (upd (upd m (so + 208) [0]) (so + 209) [1]) (so + 210) [0]"
  have "write_superblock so p opts img = Some ?i"
    using l m(1,2) by (simp add: write_superblock_def copy_at_upd)
  moreover have "same_except (\<lambda>k. so \<le> k \<and> k < so + 1376) img ?i"
  proof -
    have "m ! k = img ! k" if "\<not> (so \<le> k \<and> k < so + 1376)" for k
    proof -
      have "\<forall>f \<in> set (superblock_fields p opts). k < so + fst f \<or> so + fst f + 4 \<le> k" using that e by fastforce
      then show ?thesis using m(4) by blast
    qed
    then show ?thesis using l m(2) by (auto simp: same_except_def upd_nth)
  qed
  moreover have "u32 ?i (so + fst f) = Some (snd f)" if f: "f \<in> set (superblock_fields p opts)" for f
  proof -
    have "u32 ?i (so + fst f) = u32 m (so + fst f)" using e [OF f] m(2) l by (intro u32_cong) (auto simp: upd_nth)
    then show ?thesis using m(3) f by simp
  qed
  ultimately show ?thesis by blast
qed

lemma uint_small: "n < 2 ^ 32 \<Longrightarrow> uint (of_nat n :: u32) = int n"
  by (simp add: unsigned_of_nat take_bit_nat_eq_self flip: of_nat_take_bit)

lemma superblock_detected:
  assumes p: "plan_ok sz opts p" and w: "sz < 2 ^ 40" "int st + int sz < 2 ^ 62" "st + sz \<le> length img"
    and g: "fg_cylinder_groups (fp_geometry p) * fg_fragments_per_group (fp_geometry p) < 2 ^ 32" "0 < fg_cylinder_groups (fp_geometry p)"
      "fg_tracks_per_cylinder (fp_geometry p) * fg_sectors_per_track (fp_geometry p) < 2 ^ 32"
      "fg_sectors_per_track (fp_geometry p) < 2 ^ 32" "fg_total_cylinders (fp_geometry p) < 2 ^ 32"
      "fg_cylinders_per_group (fp_geometry p) < 2 ^ 32"
    and f: "\<forall>f \<in> set (superblock_fields p opts). u32 img (st + 8192 + fst f) = Some (snd f)"
  shows "detect_ufs_at_start img st = Some (Some \<lparr> start_offset = st, super_offset = st + 8192, sb = plan_superblock p opts \<rparr>)"
proof -
  note b = plan_field_bounds [OF p w(1) g(1,2)] and us = uint_small
  have k: "fp_fsbtodb p = 0" "(fo_block_size opts = 4096 \<and> fp_fragments_per_block p = 8 \<and> fp_block_shift p = 3 \<and> fp_inodes_per_block p = 32)
      \<or> (fo_block_size opts = 8192 \<and> fp_fragments_per_block p = 16 \<and> fp_block_shift p = 4 \<and> fp_inodes_per_block p = 64)"
    and sf: "fp_summary_frag_number p = 4 * fp_fragments_per_block p" and ip: "0 < fp_inodes_per_group p"
    and fp: "0 < fg_fragments_per_group (fp_geometry p)"
    using p unfolding plan_ok_def by (elim exE conjE, auto)+
  define so where "so = st + 8192"
  have so: "uadd st 8192 = so" using w(2) b(9) [of st] by (simp add: so_def uadd_def)
  have a: "uadd so off = so + off" if "off \<le> 8192" for off
    using w(2) b(9) [of st] that by (simp add: so_def uadd_def)
  have len: "\<not> length img < so + 8192" using b(9) [of st] w(3) by (simp add: so_def)
  let ?F = "\<lambda>off. u32 img (so + off)"
  have F: "?F 12 = Some (of_nat (fp_cylinder_group_frag_number p))" "?F 16 = Some (of_nat (fp_inode_frag_number p))"
    "?F 20 = Some (of_nat (fp_data_frag_number p))" "?F 24 = Some 0" "?F 28 = Some 0" "?F 40 = Some (of_nat (fp_total_fragments p))"
    "?F 44 = Some (of_nat (fg_cylinder_groups (fp_geometry p)))" "?F 48 = Some (of_nat (fo_block_size opts))" "?F 52 = Some (of_nat 512)"
    "?F 56 = Some (of_nat (fp_fragments_per_block p))" "?F 60 = Some 0" "?F 96 = Some (of_nat (fp_block_shift p))"
    "?F 100 = Some (of_nat (fp_fsbtodb p))" "?F 116 = Some (of_nat (fo_block_size opts div 4))" "?F 120 = Some (of_nat (fp_inodes_per_block p))"
    "?F 124 = Some (of_nat 1)" "?F 152 = Some (of_nat (fp_summary_frag_number p))" "?F 156 = Some (of_nat (fp_summary_area_bytes p))"
    "?F 168 = Some (of_nat (fg_sectors_per_track (fp_geometry p)))"
    "?F 172 = Some (of_nat (fg_tracks_per_cylinder (fp_geometry p) * fg_sectors_per_track (fp_geometry p)))"
    "?F 176 = Some (of_nat (fg_total_cylinders (fp_geometry p)))" "?F 180 = Some (of_nat (fg_cylinders_per_group (fp_geometry p)))"
    "?F 184 = Some (of_nat (fp_inodes_per_group p))" "?F 188 = Some (of_nat (fg_fragments_per_group (fp_geometry p)))"
    "?F 1372 = Some UFS_MAGIC"
    using f unfolding superblock_fields_def Let_def so_def [symmetric] by simp_all
  have bs: "uint (of_nat (fo_block_size opts) :: u32) = int (fo_block_size opts)" "4096 \<le> fo_block_size opts" "fo_block_size opts \<le> 8192"
    using k(2) by auto
  have fs: "sint (of_nat (fp_block_shift p) :: u32) = int (fp_block_shift p)" using k(2) by auto
  have small: "uint (of_nat (fp_fragments_per_block p) :: u32) = int (fp_fragments_per_block p)"
    "uint (of_nat (fp_inodes_per_block p) :: u32) = int (fp_inodes_per_block p)" "fp_inodes_per_block p \<noteq> 0"
    "uint (of_nat (fp_summary_frag_number p) :: u32) = int (fp_summary_frag_number p)"
    "uint (of_nat (fo_block_size opts div 4) :: u32) = int (fo_block_size opts div 4)"
    using k(2) sf by auto
  show ?thesis
    unfolding detect_ufs_at_start_def parse_superblock_def Let_def plan_superblock_def so_def [symmetric] so
    using len bs ip fp k(1)
    by (simp add: a F i32_u32 us [OF b(1)] us [OF b(2)] us [OF b(3)] us [OF b(4)] us [OF b(5)] us [OF b(6)] us [OF b(7)] us [OF b(8)]
        us [OF g(3)] us [OF g(4)] us [OF g(5)] us [OF g(6)] small fs del: of_nat_mult)
qed

lemma plan_detected:
  assumes "format_plan_of (length img) st sz opts = Inr p" "int st + int sz < 2 ^ 62" "sz < 2 ^ 40"
  shows "\<exists>img'. write_superblock (st + 8192) p opts img = Some img'
    \<and> same_except (\<lambda>k. st + 8192 \<le> k \<and> k < st + 8192 + 1376) img img'
    \<and> detect_ufs_at_start img' st = Some (Some \<lparr> start_offset = st, super_offset = st + 8192, sb = plan_superblock p opts \<rparr>)"
proof -
  have w: "st + sz < 2 ^ 64" using assms(2) by simp
  note f = format_plan_ok [OF assms(1) w assms(3)]
  note b = plan_field_bounds [OF f(1) assms(3) f(3,5)]
  have "st + 8192 + 1376 \<le> length img" using b(9) [of st] f(2) by simp
  then obtain img' where i': "write_superblock (st + 8192) p opts img = Some img'"
    "same_except (\<lambda>k. st + 8192 \<le> k \<and> k < st + 8192 + 1376) img img'"
    "\<forall>f \<in> set (superblock_fields p opts). u32 img' (st + 8192 + fst f) = Some (snd f)"
    using write_superblock_fields by blast
  have "st + sz \<le> length img'" using f(2) same_except_length [OF i'(2)] by simp
  from superblock_detected [OF f(1) assms(3,2) this f(3,5,6,7,8,9) i'(3)] show ?thesis using i'(1,2) by blast
qed

section \<open>Properties\<close>

text \<open>C16: The formatter's superblock round trip. For every slice of less than a tebibyte that ends below \<open>2 ^ 62\<close>, and every choice of
  options that the formatter accepts for it, writing the superblock never panics, changes nothing but the superblock, and the detector
  finds exactly the planned file system there. Its layout satisfies the condition \<open>layout_ok\<close>, under which the
  allocator, the inode layer and the directory layer are proved correct, exactly when a disk geometry was given or,
  without one, the free bitmap of the single group can hold the whole slice: the formatter does not check the latter.\<close>

theorem format_superblock_detected:
  assumes "format_plan_of (length img) st sz opts = Inr p" "int st + int sz < 2 ^ 62" "sz < 2 ^ 40"
  defines "u \<equiv> \<lparr> start_offset = st, super_offset = st + UFS_SB_OFFSET, sb = plan_superblock p opts \<rparr>"
  shows "\<exists>img'. write_superblock (st + UFS_SB_OFFSET) p opts img = Some img'
    \<and> same_except (\<lambda>k. st + UFS_SB_OFFSET \<le> k \<and> k < st + UFS_SB_OFFSET + 1376) img img'
    \<and> detect_ufs_at_start img' st = Some (Some u)
    \<and> (layout_ok u \<longleftrightarrow> fo_tracks_per_cylinder opts \<noteq> None \<or> sz div 512 \<le> 8 * (fo_block_size opts - 984))"
proof -
  have w: "st + sz < 2 ^ 64" using assms(2) by simp
  note f = format_plan_ok [OF assms(1) w assms(3)]
  obtain img' where i': "write_superblock (st + 8192) p opts img = Some img'"
    "same_except (\<lambda>k. st + 8192 \<le> k \<and> k < st + 8192 + 1376) img img'" "detect_ufs_at_start img' st = Some (Some u)"
    using plan_detected [OF assms(1-3)] unfolding u_def by auto
  have "geometry_ok (plan_superblock p opts) \<longleftrightarrow> fg_fragments_per_group (fp_geometry p) \<le> 8 * (fo_block_size opts - 984)"
  proof
    assume "geometry_ok (plan_superblock p opts)"
    from geometry_facts(23) [OF this] show "fg_fragments_per_group (fp_geometry p) \<le> 8 * (fo_block_size opts - 984)"
      using geometry_facts(1) [OF \<open>geometry_ok (plan_superblock p opts)\<close>] by (simp add: plan_superblock_def Let_def)
  qed (rule plan_geometry_ok [OF f(1,3) _ f(5)])
  then have "layout_ok u \<longleftrightarrow> fo_tracks_per_cylinder opts \<noteq> None \<or> sz div 512 \<le> 8 * (fo_block_size opts - 984)"
    using f(4) assms(2) by (auto simp: layout_ok_def start_ok_def u_def)
  then show ?thesis using i' by auto
qed

lemma sample_plan: "\<exists>p. format_plan_of 2097152 0 2097152 default_options = Inr p \<and> ncg (plan_superblock p default_options) = 1"
proof -
  have s: "format_shifts 8192 = Inr (4, 0, 13, 9)"
    by (simp add: format_shifts_def power_of_two_shift_def trailing_zeros_known)
  have "power_of_two_shift 512 = Inr 9" by (simp add: power_of_two_shift_def trailing_zeros_known)
  then show ?thesis
    by (simp add: format_plan_of_def check_options_def uadd_def default_options_def s format_geometry_of_def format_layout_def
        align_up_def div_ceil_def layout_blocks_def compute_inode_block_count_def Let_def plan_superblock_def)
qed

theorem format_superblock_detected_witness:
  "\<exists>p img' u. write_superblock 8192 p default_options (replicate 2097152 0) = Some img'
    \<and> detect_ufs_at_start img' 0 = Some (Some u) \<and> layout_ok u \<and> bsize (sb u) = 8192"
proof -
  obtain p where p: "format_plan_of 2097152 0 2097152 default_options = Inr p" using sample_plan by blast
  have l: "format_plan_of (length (replicate 2097152 (0 :: u8))) 0 2097152 default_options = Inr p" using p by (simp only: length_replicate)
  show ?thesis
    using format_superblock_detected [OF l] by (force simp: default_options_def plan_superblock_def Let_def)
qed

text \<open>C40: What detection promises. On an image of any content and length, and for every offset whose 16 KiB up to the end
  of the superblock do not wrap around \<open>2 ^ 64\<close>, detection never panics, and whatever superblock it accepts lies in the
  image at the place looked at, has the magic number and passes the sanity checks: block and fragment sizes in range,
  no zero divisor, every field within 32 bits.\<close>

theorem detect_ufs_total_plausible:
  assumes "st + 16384 < 2 ^ 64"
  shows "\<exists>r. detect_ufs_at_start img st = Some r
    \<and> (\<forall>u. r = Some u \<longrightarrow> start_offset u = st \<and> super_offset u = st + 8192 \<and> sb_plausible (sb u)
         \<and> super_offset u + 8192 \<le> length img \<and> u32 img (super_offset u + 1372) = Some 0x011954)"
proof -
  have a: "uadd st 8192 = st + 8192" "uadd (st + 8192) 8192 = st + 16384" "uadd (st + 8192) 1372 = 9564 + st"
    using assms by (simp_all add: uadd_def)
  obtain p where p: "parse_superblock img (st + 8192) = Some p"
    using parse_superblock_total [of "st + 8192" img] assms by auto
  moreover have "st + 16384 \<le> length img \<and> u32 img (st + 8192 + 1372) = Some 0x011954" if "p = Some s" for s
    using p that by (auto simp: parse_superblock_def a bind_eq_Some_conv Let_def split: if_splits)
  ultimately show ?thesis
    by (auto simp: detect_ufs_at_start_def a Let_def dest: parse_superblock_plausible)
qed

theorem detect_ufs_total_plausible_witness:
  "\<exists>p img' u. write_superblock 8192 p default_options (replicate 2097152 0) = Some img'
    \<and> detect_ufs_at_start img' 0 = Some (Some u) \<and> bsize (sb u) = 8192 \<and> sb_plausible (sb u)"
proof -
  obtain p where p: "format_plan_of (length (replicate 2097152 (0 :: u8))) 0 2097152 default_options = Inr p"
    using sample_plan by (auto simp only: length_replicate)
  obtain img' where i: "write_superblock 8192 p default_options (replicate 2097152 0) = Some img'"
    "detect_ufs_at_start img' 0 = Some (Some \<lparr> start_offset = 0, super_offset = 8192, sb = plan_superblock p default_options \<rparr>)"
    using plan_detected [OF p] by auto
  have "bsize (plan_superblock p default_options) = 8192" by (simp add: plan_superblock_def default_options_def Let_def)
  moreover have "sb_plausible (plan_superblock p default_options)"
    using detect_ufs_total_plausible [of 0 img'] i(2) by simp
  ultimately show ?thesis
    using i by (intro exI [of _ p] exI [of _ img'] exI [of _ "\<lparr> start_offset = 0, super_offset = 8192, sb = plan_superblock p default_options \<rparr>"]) simp
qed

end
