(* ===== verification/Disk_Create.thy ===== *)
theory Disk_Create
  imports Disk
begin

text \<open>
  Construction of a raw disk image, \<^verbatim>\<open>crates/svr4-disk/src/create.rs\<close>: validation, the slice layout,
  the MBR, pdinfo, VTOC and alternates blocks, and the skeleton image. The image file is the list of
  its bytes; a write past its end extends it with zeros, as a write to a file does. Failures of the
  operating system are not modelled.
\<close>

abbreviation (input) MAX_ALTENTS :: nat where "MAX_ALTENTS \<equiv> 253"
abbreviation (input) MAX_CHS_CYLINDERS :: nat where "MAX_CHS_CYLINDERS \<equiv> 1024"
abbreviation (input) MAX_KERNEL_CHS_HEADS :: nat where "MAX_KERNEL_CHS_HEADS \<equiv> 16"
abbreviation (input) MAX_CHS_SECTORS_PER_TRACK :: nat where "MAX_CHS_SECTORS_PER_TRACK \<equiv> 63"

definition DISK_ADDRESSING_CHS :: rstr where "DISK_ADDRESSING_CHS = lit ''chs''"
definition DISK_ADDRESSING_LBA28 :: rstr where "DISK_ADDRESSING_LBA28 = lit ''lba28''"

datatype build_error =
    GeometryNotPositive
  | UnsupportedAddressing rstr
  | CylinderLimit nat
  | HeadLimit nat
  | SectorLimit nat
  | SizeNeedsCylinders nat
  | StandSizeNotPositive
  | SwapSizeNotPositive
  | StandBeforePartition
  | RootBeyondEnd
  | RootEmpty
  | PartitionStartsEarly
  | PartitionSizeNotPositive
  | PartitionExceedsGeometry
  | SliceIndexOutside u32
  | DuplicateSliceIndex u32
  | SliceNegativeStart u32
  | SliceNegativeSize u32
  | SliceBeforePartition u32
  | SliceExceedsPartition u32
  | LbaOutsideGeometry nat
  | BootCodeTooLarge nat
  | VtocDoesNotFit
  | AltDoesNotFit

record raw_disk_geometry =
  geo_cylinders :: u32
  geo_heads :: u32
  geo_sectors_per_track :: u32

section \<open>Geometry\<close>

definition total_sectors :: "raw_disk_geometry \<Rightarrow> nat" where
  "total_sectors g =
     umul (umul (unat (geo_cylinders g)) (unat (geo_heads g))) (unat (geo_sectors_per_track g))"

definition validate_geometry :: "raw_disk_geometry \<Rightarrow> rstr \<Rightarrow> build_error + unit" where
  "validate_geometry g disk_addressing =
     (if geo_cylinders g = 0 \<or> geo_heads g = 0 \<or> geo_sectors_per_track g = 0 then Inl GeometryNotPositive
      else if disk_addressing \<noteq> DISK_ADDRESSING_CHS \<and> disk_addressing \<noteq> DISK_ADDRESSING_LBA28
      then Inl (UnsupportedAddressing disk_addressing)
      else if disk_addressing = DISK_ADDRESSING_CHS \<and> unat (geo_cylinders g) > MAX_CHS_CYLINDERS
      then Inl (CylinderLimit (unat (geo_cylinders g)))
      else if unat (geo_heads g) > MAX_KERNEL_CHS_HEADS then Inl (HeadLimit (unat (geo_heads g)))
      else if unat (geo_sectors_per_track g) > MAX_CHS_SECTORS_PER_TRACK
      then Inl (SectorLimit (unat (geo_sectors_per_track g)))
      else Inr ())"

definition max_chs_lba :: "raw_disk_geometry \<Rightarrow> nat" where
  "max_chs_lba g = usub (total_sectors g) 1"

definition disk_align_up :: "nat \<Rightarrow> nat \<Rightarrow> nat" where
  "disk_align_up v alignment = (if alignment = 0 then v else umul (div_ceil v alignment) alignment)"

text \<open>Mebibytes to sectors, in wrapping arithmetic.\<close>

definition mb_sectors :: "nat \<Rightarrow> nat" where
  "mb_sectors mb = umul (umul mb 1024) 1024 div SECTOR_SIZE"

definition build_geometry :: "nat \<Rightarrow> u32 \<Rightarrow> u32 \<Rightarrow> rstr \<Rightarrow> build_error + raw_disk_geometry" where
  "build_geometry size_mb heads sectors_per_track disk_addressing =
     (if heads = 0 \<or> sectors_per_track = 0 then Inl GeometryNotPositive else
      let sectors_per_cylinder = umul (unat heads) (unat sectors_per_track);
          disk_total = disk_align_up (mb_sectors size_mb) sectors_per_cylinder;
          cylinders = disk_total div sectors_per_cylinder in
      if unat heads > MAX_KERNEL_CHS_HEADS then Inl (HeadLimit (unat heads))
      else if unat sectors_per_track > MAX_CHS_SECTORS_PER_TRACK then Inl (SectorLimit (unat sectors_per_track))
      else if disk_addressing = DISK_ADDRESSING_CHS \<and> cylinders > MAX_CHS_CYLINDERS
      then Inl (SizeNeedsCylinders cylinders)
      else Inr \<lparr> geo_cylinders = of_nat cylinders, geo_heads = heads, geo_sectors_per_track = sectors_per_track \<rparr>)"

section \<open>The slice layout\<close>

abbreviation (input) LAYOUT_TAG_ROOT :: u16 where "LAYOUT_TAG_ROOT \<equiv> 2"
abbreviation (input) LAYOUT_TAG_SWAP :: u16 where "LAYOUT_TAG_SWAP \<equiv> 3"
abbreviation (input) LAYOUT_TAG_STAND :: u16 where "LAYOUT_TAG_STAND \<equiv> 9"
abbreviation (input) LAYOUT_FLAG_FS :: u16 where "LAYOUT_FLAG_FS \<equiv> 0x200"
abbreviation (input) LAYOUT_FLAG_RAW :: u16 where "LAYOUT_FLAG_RAW \<equiv> 0x201"

record slice_layout_options =
  slo_stand_start_sector :: nat
  slo_stand_size_mb :: nat
  slo_swap_size_mb :: nat
  slo_root_align_sectors :: nat

record disk_layout =
  dl_unix_partition_start :: u32
  dl_unix_partition_size :: u32
  dl_slices :: "vtoc_partition list"

definition slice_entry :: "u32 \<Rightarrow> u16 \<Rightarrow> u16 \<Rightarrow> nat \<Rightarrow> nat \<Rightarrow> vtoc_partition" where
  "slice_entry index tag flag start count =
     \<lparr> vp_index = index, vp_tag = tag, vp_flag = flag, vp_start_sector = i64 (int start),
       vp_sector_count = i64 (int count) \<rparr>"

definition build_slice_layout :: "raw_disk_geometry \<Rightarrow> slice_layout_options \<Rightarrow> build_error + disk_layout" where
  "build_slice_layout g opts =
     (let spc = umul (unat (geo_heads g)) (unat (geo_sectors_per_track g));
          disk_total = total_sectors g;
          unix_partition_start = 1;
          unix_partition_size = usub disk_total unix_partition_start;
          stand_start = disk_align_up (slo_stand_start_sector opts) spc;
          stand_count = disk_align_up (mb_sectors (slo_stand_size_mb opts)) spc;
          swap_count = disk_align_up (mb_sectors (slo_swap_size_mb opts)) spc in
      if stand_count = 0 then Inl StandSizeNotPositive
      else if swap_count = 0 then Inl SwapSizeNotPositive else
      let stand_end = uadd stand_start stand_count;
          swap_start = disk_align_up (disk_align_up stand_end (slo_root_align_sectors opts)) spc;
          swap_end = uadd swap_start swap_count;
          root_start = disk_align_up (disk_align_up swap_end (slo_root_align_sectors opts)) spc in
      if stand_start < unix_partition_start then Inl StandBeforePartition
      else if root_start \<ge> disk_total then Inl RootBeyondEnd else
      let root_count = umul ((disk_total - root_start) div spc) spc in
      if root_count = 0 then Inl RootEmpty else
      Inr \<lparr> dl_unix_partition_start = of_nat unix_partition_start,
            dl_unix_partition_size = of_nat unix_partition_size,
            dl_slices =
              [slice_entry 0 V_BACKUP LAYOUT_FLAG_RAW unix_partition_start unix_partition_size,
               slice_entry 1 LAYOUT_TAG_ROOT LAYOUT_FLAG_FS root_start root_count,
               slice_entry 2 LAYOUT_TAG_SWAP LAYOUT_FLAG_RAW swap_start swap_count,
               slice_entry 10 LAYOUT_TAG_STAND LAYOUT_FLAG_FS stand_start stand_count] \<rparr>)"

section \<open>Validation\<close>

definition validate_unix_partition :: "nat \<Rightarrow> nat \<Rightarrow> nat \<Rightarrow> build_error + unit" where
  "validate_unix_partition disk_total unix_partition_start unix_partition_size =
     (if unix_partition_start < 1 then Inl PartitionStartsEarly
      else if unix_partition_size = 0 then Inl PartitionSizeNotPositive
      else if uadd unix_partition_start unix_partition_size > disk_total then Inl PartitionExceedsGeometry
      else Inr ())"

text \<open>The loop over the slices, with the set of indices already seen.\<close>

fun validate_slices :: "int \<Rightarrow> int \<Rightarrow> u32 list \<Rightarrow> vtoc_partition list \<Rightarrow> build_error + unit" where
  "validate_slices unix_start unix_end seen [] = Inr ()"
| "validate_slices unix_start unix_end seen (p # ps) =
     (if vp_index p \<ge> 16 then Inl (SliceIndexOutside (vp_index p))
      else if vp_index p \<in> set seen then Inl (DuplicateSliceIndex (vp_index p))
      else if vp_start_sector p < 0 then Inl (SliceNegativeStart (vp_index p))
      else if vp_sector_count p < 0 then Inl (SliceNegativeSize (vp_index p))
      else if vp_start_sector p < unix_start then Inl (SliceBeforePartition (vp_index p))
      else if i64 (vp_start_sector p + vp_sector_count p) > unix_end then Inl (SliceExceedsPartition (vp_index p))
      else validate_slices unix_start unix_end (vp_index p # seen) ps)"

definition validate_vtoc_partitions :: "int \<Rightarrow> int \<Rightarrow> vtoc_partition list \<Rightarrow> build_error + unit" where
  "validate_vtoc_partitions unix_partition_start unix_partition_size partitions =
     validate_slices unix_partition_start (i64 (unix_partition_start + unix_partition_size)) [] partitions"

section \<open>The metadata blocks\<close>

text \<open>The three bytes of a CHS field; a zero geometry divides by zero.\<close>

definition chs_bytes :: "raw_disk_geometry \<Rightarrow> nat \<Rightarrow> bytes option" where
  "chs_bytes g lba =
     (let sectors_per_cylinder = umul (unat (geo_heads g)) (unat (geo_sectors_per_track g));
          spt = unat (geo_sectors_per_track g) in
      if sectors_per_cylinder = 0 \<or> spt = 0 then None else
      let cylinder = lba div sectors_per_cylinder;
          temp = lba mod sectors_per_cylinder;
          head = temp div spt;
          sector = temp mod spt + 1;
          sector_byte = (sector AND 0x3F) OR ((cylinder div 4) AND 0xC0)
      in Some [of_nat (head AND 0xFF), of_nat (sector_byte AND 0xFF), of_nat (cylinder AND 0xFF)])"

definition encode_chs :: "nat \<Rightarrow> raw_disk_geometry \<Rightarrow> bool \<Rightarrow> (build_error + bytes) option" where
  "encode_chs lba g saturate =
     (if lba = 0 then Some (Inr [0, 0, 0])
      else if lba > max_chs_lba g \<and> \<not> saturate then Some (Inl (LbaOutsideGeometry lba)) else
      let lba = (if lba > max_chs_lba g then max_chs_lba g else lba);
          cap = usub (umul (umul MAX_CHS_CYLINDERS (unat (geo_heads g))) (unat (geo_sectors_per_track g))) 1;
          lba = (if saturate then min lba cap else lba)
      in map_option Inr (chs_bytes g lba))"

definition serialize_partition_entry :: "partition_entry \<Rightarrow> raw_disk_geometry \<Rightarrow> bool \<Rightarrow> (build_error + bytes) option" where
  "serialize_partition_entry p g saturate_chs =
     do { start \<leftarrow> encode_chs (unat (pe_start_lba p)) g saturate_chs;
          (case start of Inl e \<Rightarrow> Some (Inl e) | Inr start_bytes \<Rightarrow>
           let last = unat (pe_start_lba p) + (unat (pe_sector_count p) - 1) in
           do { fin \<leftarrow> encode_chs last g saturate_chs;
                (case fin of Inl e \<Rightarrow> Some (Inl e) | Inr fin_bytes \<Rightarrow>
                 do { out \<leftarrow> copy_at (replicate 16 0) 0 [if pe_bootable p then 0x80 else 0x00];
                      out \<leftarrow> copy_at out 1 start_bytes;
                      out \<leftarrow> copy_at out 4 [pe_type p];
                      out \<leftarrow> copy_at out 5 fin_bytes;
                      out \<leftarrow> put_u32 out 8 (pe_start_lba p);
                      out \<leftarrow> put_u32 out 12 (pe_sector_count p);
                      Some (Inr out) }) }) }"

definition active_entry :: "u32 \<Rightarrow> u32 \<Rightarrow> partition_entry" where
  "active_entry unix_partition_start unix_partition_size =
     \<lparr> pe_index = 1, pe_bootable = True, pe_type = UNIXWARE_PARTITION_TYPE, pe_start_lba = unix_partition_start,
       pe_sector_count = unix_partition_size, pe_start_chs = (0, 0, 0), pe_end_chs = (0, 0, 0) \<rparr>"

definition build_mbr :: "raw_disk_geometry \<Rightarrow> u32 \<Rightarrow> u32 \<Rightarrow> bytes option \<Rightarrow> rstr \<Rightarrow> (build_error + bytes) option" where
  "build_mbr g unix_partition_start unix_partition_size boot_code disk_addressing =
     (let code = (case boot_code of None \<Rightarrow> [] | Some c \<Rightarrow> c) in
      if length code > 446 then Some (Inl (BootCodeTooLarge (length code))) else
      do { sector \<leftarrow> copy_at (replicate SECTOR_SIZE 0) 0 code;
           entry \<leftarrow> serialize_partition_entry (active_entry unix_partition_start unix_partition_size) g
                      (disk_addressing = DISK_ADDRESSING_LBA28);
           (case entry of Inl e \<Rightarrow> Some (Inl e) | Inr entry_bytes \<Rightarrow>
            do { sector \<leftarrow> copy_at sector 446 entry_bytes;
                 sector \<leftarrow> put_u16 sector 510 0xAA55;
                 Some (Inr sector) }) })"

definition build_pdinfo :: "raw_disk_geometry \<Rightarrow> u32 \<Rightarrow> u32 \<Rightarrow> u16 \<Rightarrow> u32 \<Rightarrow> u16 \<Rightarrow> bytes option" where
  "build_pdinfo g logical_sector_0 vtoc_ptr vtoc_len alt_ptr alt_len =
     do { s \<leftarrow> put_u32 (replicate SECTOR_SIZE 0) 0 0;
          s \<leftarrow> put_u32 s 4 VALID_PD;
          s \<leftarrow> put_u32 s 8 1;
          s \<leftarrow> put_u32 s 24 (geo_cylinders g);
          s \<leftarrow> put_u32 s 28 (geo_heads g);
          s \<leftarrow> put_u32 s 32 (geo_sectors_per_track g);
          s \<leftarrow> put_u32 s 36 (of_nat SECTOR_SIZE);
          s \<leftarrow> put_u32 s 40 logical_sector_0;
          s \<leftarrow> put_u32 s 84 vtoc_ptr;
          s \<leftarrow> put_u16 s 88 vtoc_len;
          s \<leftarrow> put_u32 s 92 alt_ptr;
          put_u16 s 96 alt_len }"

definition put_slice :: "bytes \<Rightarrow> vtoc_partition \<Rightarrow> bytes option" where
  "put_slice block p =
     (let base = 60 + unat (vp_index p) * 12 in
      do { block \<leftarrow> put_u16 block base (vp_tag p);
           block \<leftarrow> put_u16 block (base + 2) (vp_flag p);
           block \<leftarrow> put_i32 block (base + 4) (vp_start_sector p);
           put_i32 block (base + 8) (vp_sector_count p) })"

definition slice_count :: "vtoc_partition list \<Rightarrow> int" where
  "slice_count partitions =
     (if partitions = [] then 0 else Max (set (map (\<lambda>p. uint (vp_index p)) partitions)) + 1)"

definition build_vtoc :: "rstr \<Rightarrow> vtoc_partition list \<Rightarrow> bytes option" where
  "build_vtoc volume partitions =
     do { block \<leftarrow> put_u32 (replicate SECTOR_SIZE 0) 0 VTOC_SANE;
          block \<leftarrow> put_u32 block 4 1;
          block \<leftarrow> copy_at block 8 (take (min (length volume) 8) volume);
          block \<leftarrow> put_u16 block 16 (of_int (slice_count partitions));
          foldM put_slice block partitions }"

definition build_empty_alt_info :: "bytes option" where
  "build_empty_alt_info =
     (let track_table_offset = 8; sector_table_offset = track_table_offset + 8 + MAX_ALTENTS * 4 in
      do { b \<leftarrow> put_u32 (replicate 2048 0) 0 ALT_SANITY;
           b \<leftarrow> put_u16 b 4 ALT_VERSION;
           b \<leftarrow> put_u16 b 6 0;
           b \<leftarrow> put_u16 b track_table_offset 0;
           b \<leftarrow> put_u16 b (track_table_offset + 2) 0;
           b \<leftarrow> put_i32 b (track_table_offset + 4) 0;
           b \<leftarrow> put_u16 b sector_table_offset 0;
           b \<leftarrow> put_u16 b (sector_table_offset + 2) 0;
           put_i32 b (sector_table_offset + 4) 0 })"

section \<open>The skeleton image\<close>

text \<open>Seek and write: the file grows, filled with zeros, when the write ends past its end.\<close>

definition file_write_at :: "nat \<Rightarrow> bytes \<Rightarrow> bytes \<Rightarrow> bytes" where
  "file_write_at off data file =
     take off file @ replicate (off - length file) 0 @ data @ drop (off + length data) file"

definition create_raw_image_skeleton ::
    "raw_disk_geometry \<Rightarrow> u32 \<Rightarrow> u32 \<Rightarrow> rstr \<Rightarrow> vtoc_partition list \<Rightarrow> bytes option \<Rightarrow> rstr \<Rightarrow>
     (bytes, build_error, unit) wm" where
  "create_raw_image_skeleton g unix_partition_start unix_partition_size volume slices mbr_boot_code disk_addressing =
     wbind (wlift (Some (validate_geometry g disk_addressing))) (\<lambda>_.
     wbind (wlift (Some (validate_unix_partition (total_sectors g) (unat unix_partition_start)
                           (unat unix_partition_size)))) (\<lambda>_.
     wbind (wlift (Some (validate_vtoc_partitions (uint unix_partition_start) (uint unix_partition_size) slices))) (\<lambda>_.
     let total_bytes = umul (total_sectors g) SECTOR_SIZE in
     wbind (wmodify (\<lambda>_. Some (replicate total_bytes 0))) (\<lambda>_.
     wbind (wlift (build_mbr g unix_partition_start unix_partition_size mbr_boot_code disk_addressing)) (\<lambda>mbr.
     wbind (wmodify (\<lambda>file. Some (file_write_at 0 mbr file))) (\<lambda>_.
     let vtoc_ptr = HDPDLOC * SECTOR_SIZE + 100; vtoc_len = 316; alt_ptr = 30 * SECTOR_SIZE;
         start = unat unix_partition_start in
     wbind (wopt build_empty_alt_info) (\<lambda>alt.
     wbind (wopt (build_pdinfo g unix_partition_start (of_nat vtoc_ptr) vtoc_len (of_nat alt_ptr)
                   (of_nat (length alt)))) (\<lambda>pd.
     wbind (wmodify (\<lambda>file. Some (file_write_at ((start + HDPDLOC) * SECTOR_SIZE) pd file))) (\<lambda>_.
     wbind (wopt (build_vtoc volume slices)) (\<lambda>vtoc_block.
     let image_offset = (start + vtoc_ptr div SECTOR_SIZE) * SECTOR_SIZE + vtoc_ptr mod SECTOR_SIZE in
     if image_offset + length vtoc_block > total_bytes then wfail VtocDoesNotFit else
     wbind (wmodify (\<lambda>file. Some (file_write_at image_offset vtoc_block file))) (\<lambda>_.
     let alt_image_offset = (start + alt_ptr div SECTOR_SIZE) * SECTOR_SIZE + alt_ptr mod SECTOR_SIZE in
     if alt_image_offset + length alt > total_bytes then wfail AltDoesNotFit else
     wmodify (\<lambda>file. Some (file_write_at alt_image_offset alt file)))))))))))))"

end
