(* ===== verification/Disk_Correct.thy ===== *)
theory Disk_Correct
  imports Disk_Create Disk_Inspect
begin

text \<open>
  Correctness of the disk tools: CHS fields, the metadata blocks and the skeleton image are read back
  by the parsers as they were built; the slice layout is aligned, disjoint and inside the disk; the
  bootstrap is flattened as its segments say; bad blocks are redirected as the alternates say.
\<close>

unbundle bit_operations_syntax

section \<open>CHS fields\<close>

lemma and_63: "(n :: nat) AND 63 = n mod 64"
  using take_bit_eq_mask [of 6 n] by (simp add: take_bit_eq_mod mask_eq_exp_minus_1)

lemma and_255: "(n :: nat) AND 255 = n mod 256"
  using take_bit_eq_mask [of 8 n] by (simp add: take_bit_eq_mod mask_eq_exp_minus_1)

lemma and_push_bit: "(n :: nat) AND push_bit k m = push_bit k (drop_bit k n AND m)"
  by (rule bit_eqI) (auto simp: bit_simps)

lemma and_192: "(n :: nat) AND 192 = 64 * (n div 64 mod 4)"
proof -
  have "drop_bit 6 n AND 3 = drop_bit 6 n mod 4"
    using take_bit_eq_mask [of 2 "drop_bit 6 n"] by (simp add: take_bit_eq_mod mask_eq_exp_minus_1)
  then show ?thesis
    using and_push_bit [of n 6 3] by (simp add: push_bit_eq_mult drop_bit_eq_div)
qed

lemma or_disjoint: "(a :: nat) < 2 ^ k \<Longrightarrow> a OR 2 ^ k * m = a + 2 ^ k * m"
proof -
  assume "a < 2 ^ k"
  then have "drop_bit k a = 0" by (simp add: drop_bit_eq_div)
  then have "a AND push_bit k m = 0" by (simp only: and_push_bit) simp
  then show ?thesis using disjunctive_add_eq_or [of a "push_bit k m"] by (simp add: push_bit_eq_mult mult.commute)
qed

lemma unat_eqD: "unat (x :: 'a::len word) = n \<Longrightarrow> x = of_nat n"
  by auto

lemma decode_chs_bytes:
  "decode_chs [h, s, c] =
     Some (of_nat (256 * (unat s div 64) + unat c), of_nat (unat h), of_nat (unat s mod 64))"
proof -
  have u: "unat s div 64 < 4" using unat_u8_bound [of s] by simp
  have "unat (ucast (s AND 0x3F) :: u16) = unat s mod 64"
    using unat_u8_bound [of s] by (simp add: unsigned_ucast_eq unsigned_and_eq and_63 take_bit_eq_mod)
  moreover have "unat (push_bit 2 (ucast (s AND 0xC0) :: u16) OR ucast c) = 256 * (unat s div 64) + unat c"
  proof -
    have "unat (ucast (s AND 0xC0) :: u16) = 64 * (unat s div 64)"
      using u by (simp add: unsigned_ucast_eq unsigned_and_eq and_192 take_bit_nat_eq_self)
    then have "unat (push_bit 2 (ucast (s AND 0xC0) :: u16)) = 256 * (unat s div 64)"
      using u by (simp only: unsigned_push_bit_eq) (simp add: take_bit_eq_mod push_bit_eq_mult)
    moreover have "unat (ucast c :: u16) = unat c"
      using unat_u8_bound [of c] by (simp add: unsigned_ucast_eq take_bit_nat_eq_self)
    ultimately show ?thesis
      using or_disjoint [of "unat c" 8 "unat s div 64"] unat_u8_bound [of c]
      by (simp add: unsigned_or_eq or.commute)
  qed
  moreover have "ucast h = (of_nat (unat h) :: u16)" by simp
  ultimately show ?thesis
    by (auto simp: decode_chs_def get_at_def Let_def simp del: of_nat_add of_nat_mult of_nat_unat dest!: unat_eqD)
qed

definition geo_spt :: "raw_disk_geometry \<Rightarrow> nat" where
  "geo_spt g = unat (geo_sectors_per_track g)"

definition geo_spc :: "raw_disk_geometry \<Rightarrow> nat" where
  "geo_spc g = unat (geo_heads g) * unat (geo_sectors_per_track g)"

lemma geometry_valid:
  assumes "validate_geometry g a = Inr ()"
  shows "0 < unat (geo_cylinders g)" "0 < unat (geo_heads g)" "unat (geo_heads g) \<le> 16"
    "0 < unat (geo_sectors_per_track g)" "unat (geo_sectors_per_track g) \<le> 63" "0 < geo_spc g" "geo_spc g \<le> 1008"
    "umul (unat (geo_heads g)) (unat (geo_sectors_per_track g)) = geo_spc g"
    "total_sectors g = unat (geo_cylinders g) * geo_spc g" "total_sectors g < 2 ^ 42"
    "a = DISK_ADDRESSING_CHS \<Longrightarrow> unat (geo_cylinders g) \<le> 1024"
    "a = DISK_ADDRESSING_CHS \<or> a = DISK_ADDRESSING_LBA28"
proof -
  show h: "0 < unat (geo_cylinders g)" "0 < unat (geo_heads g)" "unat (geo_heads g) \<le> 16"
    "0 < unat (geo_sectors_per_track g)" "unat (geo_sectors_per_track g) \<le> 63"
    "a = DISK_ADDRESSING_CHS \<Longrightarrow> unat (geo_cylinders g) \<le> 1024"
    "a = DISK_ADDRESSING_CHS \<or> a = DISK_ADDRESSING_LBA28"
    using assms by (auto simp: validate_geometry_def unat_gt_0 split: if_splits)
  have "geo_spc g \<le> 16 * 63" unfolding geo_spc_def using h by (intro mult_le_mono)
  then show s: "geo_spc g \<le> 1008" by simp
  show "0 < geo_spc g" using h by (simp add: geo_spc_def)
  show "umul (unat (geo_heads g)) (unat (geo_sectors_per_track g)) = geo_spc g"
    using s by (simp add: umul_def geo_spc_def)
  have c: "unat (geo_cylinders g) * geo_spc g \<le> 4294967295 * 1008"
    using unat_u32_bound [of "geo_cylinders g"] s by (intro mult_le_mono) auto
  have "unat (geo_cylinders g) * unat (geo_heads g) \<le> 4294967295 * 16"
    using unat_u32_bound [of "geo_cylinders g"] h by (intro mult_le_mono) auto
  then show "total_sectors g = unat (geo_cylinders g) * geo_spc g"
    using c by (simp add: total_sectors_def umul_def geo_spc_def mult.assoc)
  then show "total_sectors g < 2 ^ 42" using c by simp
qed

text \<open>The cylinder, head and sector of an address, as the BIOS counts them (sectors from one).\<close>

definition chs_of :: "raw_disk_geometry \<Rightarrow> nat \<Rightarrow> nat \<times> nat \<times> nat" where
  "chs_of g lba = (lba div geo_spc g, lba mod geo_spc g div geo_spt g, lba mod geo_spc g mod geo_spt g + 1)"

lemma chs_bytes_decode:
  assumes v: "validate_geometry g a = Inr ()" and l: "lba < 1024 * geo_spc g"
  shows "\<exists>h s c. chs_bytes g lba = Some [h, s, c]
    \<and> decode_chs [h, s, c] = (case chs_of g lba of (c, h, s) \<Rightarrow> Some (of_nat c, of_nat h, of_nat s))"
proof -
  note g = geometry_valid [OF v]
  define c where "c = lba div geo_spc g"
  define t where "t = lba mod geo_spc g"
  define h where "h = t div geo_spt g"
  define s where "s = t mod geo_spt g + 1"
  have c: "c < 1024" using l g(6) by (simp add: c_def less_mult_imp_div_less)
  have "t < unat (geo_heads g) * geo_spt g" using g(6) by (simp add: t_def geo_spc_def geo_spt_def)
  then have h: "h < 16" using g(3) less_mult_imp_div_less [of t "unat (geo_heads g)" "geo_spt g"] by (simp add: h_def)
  have "t mod geo_spt g < geo_spt g" using g(4) by (simp add: geo_spt_def)
  then have s: "s \<le> 63" using g(5) by (simp add: s_def geo_spt_def)
  define b where "b = s + 64 * (c div 256)"
  have b: "(s AND 63) OR (c div 4 AND 192) = b" "b < 256"
    using s c div_less_iff_less_mult [of 256 c 4] or_disjoint [of s 6 "c div 256"] by (simp_all add: b_def and_63 and_192 div_mult2_eq [symmetric])
  have "chs_bytes g lba = Some [of_nat (h AND 255), of_nat (b AND 255), of_nat (c AND 255)]"
    using g(4,6) b(1) unfolding chs_bytes_def Let_def g(8) c_def t_def h_def s_def geo_spt_def by simp
  then have e: "chs_bytes g lba = Some [of_nat h, of_nat b, of_nat (c mod 256)]"
    using h b(2) by (simp add: and_255)
  have u: "unat (of_nat h :: u8) = h" "unat (of_nat b :: u8) = b" "unat (of_nat (c mod 256) :: u8) = c mod 256"
    using h b(2) by (simp_all add: unat_of_nat)
  have d: "b div 64 = c div 256" "b mod 64 = s" using s by (simp_all add: b_def)
  have "256 * (c div 256) + c mod 256 = c" by simp
  then have "decode_chs [of_nat h, of_nat b, of_nat (c mod 256)] = Some (of_nat c, of_nat h, of_nat s)"
    unfolding decode_chs_bytes u d by simp
  then show ?thesis using e by (auto simp: chs_of_def c_def h_def s_def t_def)
qed

lemma chs_limits:
  assumes v: "validate_geometry g a = Inr ()"
  shows "max_chs_lba g = total_sectors g - 1"
    "usub (umul (umul 1024 (unat (geo_heads g))) (unat (geo_sectors_per_track g))) 1 = 1024 * geo_spc g - 1"
proof -
  note g = geometry_valid [OF v]
  show "max_chs_lba g = total_sectors g - 1" using g(1,6,9,10) by (simp add: max_chs_lba_def usub_eq)
  have "umul 1024 (unat (geo_heads g)) = 1024 * unat (geo_heads g)" using g(3) by (simp add: umul_def)
  then have "umul (umul 1024 (unat (geo_heads g))) (unat (geo_sectors_per_track g)) = 1024 * geo_spc g"
    using g(7) by (simp add: umul_def geo_spc_def mult.assoc)
  then show "usub (umul (umul 1024 (unat (geo_heads g))) (unat (geo_sectors_per_track g))) 1 = 1024 * geo_spc g - 1"
    using g(6,7) by (simp add: usub_eq)
qed

lemma encode_in_range:
  assumes v: "validate_geometry g a = Inr ()" and l: "0 < lba" "lba < total_sectors g"
    and c: "lba < 1024 * geo_spc g"
  shows "encode_chs lba g sat = map_option Inr (chs_bytes g lba)"
proof -
  note g = geometry_valid [OF v]
  note m = chs_limits(1) [OF v] and cap = chs_limits(2) [OF v]
  have "\<not> lba > max_chs_lba g" "min lba (1024 * geo_spc g - 1) = lba" using l c by (auto simp: m)
  then show ?thesis using l unfolding encode_chs_def Let_def cap by simp
qed

lemma encode_saturates:
  assumes v: "validate_geometry g a = Inr ()" and l: "lba < total_sectors g"
    and s: "sat \<or> total_sectors g \<le> 1024 * geo_spc g"
  shows "\<exists>h s c t. encode_chs lba g sat = Some (Inr [h, s, c]) \<and> decode_chs [h, s, c] = Some t"
proof (cases "lba = 0")
  case True
  then show ?thesis by (auto simp: encode_chs_def decode_chs_bytes)
next
  case False
  note g = geometry_valid [OF v]
  show ?thesis
  proof (cases "lba < 1024 * geo_spc g")
    case True
    then show ?thesis
      using encode_in_range [OF v _ l, of sat] chs_bytes_decode [OF v True] False by (auto simp: chs_of_def)
  next
    case big: False
    then have sat: "sat" using s l by auto
    note m = chs_limits(1) [OF v] and cap = chs_limits(2) [OF v]
    have "\<not> lba > max_chs_lba g" "min lba (1024 * geo_spc g - 1) = 1024 * geo_spc g - 1" using l big by (auto simp: m)
    then have "encode_chs lba g sat = map_option Inr (chs_bytes g (1024 * geo_spc g - 1))"
      using sat False unfolding encode_chs_def Let_def cap by simp
    then show ?thesis using chs_bytes_decode [OF v, of "1024 * geo_spc g - 1"] g(6) by (auto simp: chs_of_def)
  qed
qed

text \<open>C33: CHS fields round-trip. For a valid geometry and an address that the geometry and the ten cylinder bits can
  express, the three encoded bytes decode to a cylinder, head and sector in range, from which the address is
  recovered.\<close>

theorem chs_round_trip:
  assumes "validate_geometry g a = Inr ()" "0 < lba" "lba < total_sectors g"
    and "lba < 1024 * (unat (geo_heads g) * unat (geo_sectors_per_track g))"
  shows "\<exists>raw c h s. encode_chs lba g saturate = Some (Inr raw) \<and> length raw = 3
    \<and> decode_chs raw = Some (c, h, s) \<and> unat c < 1024 \<and> unat h < unat (geo_heads g)
    \<and> 1 \<le> unat s \<and> unat s \<le> unat (geo_sectors_per_track g)
    \<and> (unat c * unat (geo_heads g) + unat h) * unat (geo_sectors_per_track g) + (unat s - 1) = lba"
proof -
  note g = geometry_valid [OF assms(1)]
  have l: "lba < 1024 * geo_spc g" using assms(4) by (simp add: geo_spc_def)
  define c where "c = lba div geo_spc g"
  define t where "t = lba mod geo_spc g"
  define h where "h = t div geo_spt g"
  define s where "s = t mod geo_spt g + 1"
  have c: "c < 1024" using l g(6) by (simp add: c_def less_mult_imp_div_less)
  have "t < unat (geo_heads g) * geo_spt g" using g(6) by (simp add: t_def geo_spc_def geo_spt_def)
  then have h: "h < unat (geo_heads g)" using less_mult_imp_div_less [of t "unat (geo_heads g)" "geo_spt g"] by (simp add: h_def)
  have p: "0 < geo_spt g" using g(4) by (simp add: geo_spt_def)
  then have s: "1 \<le> s" "s \<le> geo_spt g" by (simp_all add: s_def Suc_le_eq)
  have u: "unat (of_nat c :: u16) = c" "unat (of_nat h :: u16) = h" "unat (of_nat s :: u16) = s"
    by (intro unat_of_nat_small(1); use c h s g(3,5) in \<open>simp add: geo_spt_def\<close>)+
  have "c * geo_spc g + (h * geo_spt g + (s - 1)) = lba" by (simp add: c_def h_def s_def t_def)
  then have r: "(c * unat (geo_heads g) + h) * unat (geo_sectors_per_track g) + (s - 1) = lba"
    by (simp add: geo_spc_def geo_spt_def algebra_simps)
  obtain x y z where e: "chs_bytes g lba = Some [x, y, z]" "decode_chs [x, y, z] = Some (of_nat c, of_nat h, of_nat s)"
    using chs_bytes_decode [OF assms(1) l] by (auto simp: chs_of_def c_def h_def s_def t_def)
  show ?thesis
  proof (intro exI conjI)
    show "encode_chs lba g saturate = Some (Inr [x, y, z])"
      using encode_in_range [OF assms(1-3) l, of saturate] e(1) by simp
    show "decode_chs [x, y, z] = Some (of_nat c, of_nat h, of_nat s)" by (rule e(2))
  qed (use u c h s r in \<open>simp_all add: geo_spt_def\<close>)
qed

definition sample_geometry :: raw_disk_geometry where
  "sample_geometry = \<lparr> geo_cylinders = 4, geo_heads = 2, geo_sectors_per_track = 17 \<rparr>"

lemma sample_geometry_valid [simp]: "validate_geometry sample_geometry DISK_ADDRESSING_CHS = Inr ()"
  by (simp add: validate_geometry_def sample_geometry_def)

lemma sample_geometry_fields [simp]: "total_sectors sample_geometry = 136"
  "geo_heads sample_geometry = 2" "geo_sectors_per_track sample_geometry = 17" "geo_cylinders sample_geometry = 4"
  by (simp_all add: total_sectors_def umul_def sample_geometry_def)

theorem chs_round_trip_witness:
  "\<exists>raw c h s. encode_chs 100 sample_geometry False = Some (Inr raw) \<and> decode_chs raw = Some (c, h, s)
    \<and> (unat c * 2 + unat h) * 17 + (unat s - 1) = 100"
  using chs_round_trip [of sample_geometry DISK_ADDRESSING_CHS 100 False] by fastforce

section \<open>Metadata blocks\<close>

lemma read_take:
  "off + 2 \<le> n \<Longrightarrow> n \<le> length raw \<Longrightarrow> u16 (take n raw) off = u16 raw off"
  "off + 4 \<le> n \<Longrightarrow> n \<le> length raw \<Longrightarrow> u32 (take n raw) off = u32 raw off"
  "off + 4 \<le> n \<Longrightarrow> n \<le> length raw \<Longrightarrow> i32 (take n raw) off = i32 raw off"
  "b \<le> n \<Longrightarrow> n \<le> length raw \<Longrightarrow> subslice (take n raw) a b = subslice raw a b"
  by (auto simp: i32_u32 u16_subslice u32_subslice subslice_def min_def drop_take)

lemma parse_pdinfo_take: "98 \<le> length raw \<Longrightarrow> parse_pdinfo raw = parse_pdinfo (take 98 raw)"
  by (simp add: parse_pdinfo_def read_take)

lemma build_pdinfo_parses:
  "\<exists>raw. build_pdinfo g l0 vp vl ap al = Some raw \<and> length raw = 512
    \<and> parse_pdinfo raw = Some \<lparr> pd_drive_id = 0, pd_sanity = VALID_PD, pd_version = 1, pd_serial = [],
        pd_cylinders = geo_cylinders g, pd_tracks = geo_heads g, pd_sectors = geo_sectors_per_track g,
        pd_bytes_per_sector = 512, pd_logical_sector_0 = l0, pd_vtoc_ptr = vp, pd_vtoc_len = vl,
        pd_alt_ptr = ap, pd_alt_len = al \<rparr>"
proof -
  have z: "decode_ascii_field (replicate 12 0) = []" by (simp add: decode_ascii_field_def eval_nat_numeral)
  have s: "subslice (replicate 512 (0 :: u8)) 12 24 = Some (replicate 12 0)" by (simp add: subslice_def)
  show ?thesis by (simp add: build_pdinfo_def parse_pdinfo_def upd_simps s z)
qed

text \<open>The slots of a VTOC that was built from a list of slices: a slice in its slot, zeros elsewhere.\<close>

definition empty_slot :: "nat \<Rightarrow> vtoc_partition" where
  "empty_slot i = \<lparr> vp_index = of_nat i, vp_tag = 0, vp_flag = 0, vp_start_sector = 0, vp_sector_count = 0 \<rparr>"

definition slot_of :: "vtoc_partition list \<Rightarrow> nat \<Rightarrow> vtoc_partition" where
  "slot_of ps i = (case find (\<lambda>p. unat (vp_index p) = i) ps of Some p \<Rightarrow> p | None \<Rightarrow> empty_slot i)"

definition slice_ok :: "vtoc_partition \<Rightarrow> bool" where
  "slice_ok p \<longleftrightarrow> vp_index p < 16 \<and> 0 \<le> vp_start_sector p \<and> vp_start_sector p < 2 ^ 31
     \<and> 0 \<le> vp_sector_count p \<and> vp_sector_count p < 2 ^ 31"

lemma put_slice_spec:
  assumes "slice_ok p" "length block = 512"
  shows "\<exists>block'. put_slice block p = Some block' \<and> length block' = 512
    \<and> (\<forall>k < 60. block' ! k = block ! k)
    \<and> (\<forall>i < 16. parse_vtoc_partition block' i =
         (if i = unat (vp_index p) then Some p else parse_vtoc_partition block i))"
proof -
  have i: "unat (vp_index p) < 16" using assms(1) by (simp add: slice_ok_def word_less_nat_alt)
  have w: "sint (of_int (vp_start_sector p) :: u32) = vp_start_sector p"
    "sint (of_int (vp_sector_count p) :: u32) = vp_sector_count p"
    using assms(1) by (simp_all add: slice_ok_def signed_of_int signed_take_bit_int_eq_self)
  define b where "b = 60 + unat (vp_index p) * 12"
  have b: "60 \<le> b" "b + 12 \<le> 252" using i by (simp_all add: b_def)
  define block' where "block' = upd (upd (upd (upd block b (le16 (vp_tag p))) (b + 2) (le16 (vp_flag p)))
     (b + 4) (le32 (of_int (vp_start_sector p)))) (b + 8) (le32 (of_int (vp_sector_count p)))"
  have r: "put_slice block p = Some block'"
    using b assms(2) unfolding put_slice_def Let_def b_def [symmetric] by (simp add: upd_simps block'_def)
  have f: "block' ! k = block ! k" if "k < 60" for k
    using that b assms(2) by (simp add: block'_def upd_simps)
  have own: "parse_vtoc_partition block' (unat (vp_index p)) = Some p"
    using b assms(2) w unfolding parse_vtoc_partition_def Let_def b_def [symmetric]
    by (simp add: block'_def upd_simps)
  have other: "parse_vtoc_partition block' k = parse_vtoc_partition block k" if "k < 16" "k \<noteq> unat (vp_index p)" for k
  proof -
    define c where "c = 60 + k * 12"
    have "c + 12 \<le> b \<or> b + 12 \<le> c" "c + 12 \<le> 252" using that by (auto simp: b_def c_def)
    then show ?thesis
      using b assms(2) unfolding parse_vtoc_partition_def Let_def c_def [symmetric]
      by (auto simp: block'_def upd_simps)
  qed
  show ?thesis using r f own other assms(2) by (auto simp: block'_def)
qed

lemma put_slices_spec:
  assumes "\<forall>p \<in> set ps. slice_ok p" "length block = 512" "distinct (map vp_index ps)"
  shows "\<exists>block'. foldM put_slice block ps = Some block' \<and> length block' = 512
    \<and> (\<forall>k < 60. block' ! k = block ! k)
    \<and> (\<forall>i < 16. parse_vtoc_partition block' i =
         (case find (\<lambda>p. unat (vp_index p) = i) ps of Some p \<Rightarrow> Some p | None \<Rightarrow> parse_vtoc_partition block i))"
  using assms
proof (induction ps arbitrary: block)
  case (Cons p ps)
  obtain b1 where b1: "put_slice block p = Some b1" "length b1 = 512" "\<forall>k < 60. b1 ! k = block ! k"
    "\<And>i. i < 16 \<Longrightarrow> parse_vtoc_partition b1 i = (if i = unat (vp_index p) then Some p else parse_vtoc_partition block i)"
    using put_slice_spec [of p block] Cons.prems by auto
  obtain b2 where b2: "foldM put_slice b1 ps = Some b2" "length b2 = 512" "\<forall>k < 60. b2 ! k = b1 ! k"
    "\<And>i. i < 16 \<Longrightarrow> parse_vtoc_partition b2 i =
         (case find (\<lambda>p. unat (vp_index p) = i) ps of Some p \<Rightarrow> Some p | None \<Rightarrow> parse_vtoc_partition b1 i)"
    using Cons.IH [of b1] Cons.prems b1(2) by auto
  have "find (\<lambda>q. unat (vp_index q) = unat (vp_index p)) ps = None"
    using Cons.prems(3) by (auto simp: find_None_iff) (metis image_eqI unsigned_word_eqI)
  then have "parse_vtoc_partition b2 i =
      (case find (\<lambda>p. unat (vp_index p) = i) (p # ps) of Some p \<Rightarrow> Some p | None \<Rightarrow> parse_vtoc_partition block i)"
    if "i < 16" for i
    using b1(4) [OF that] b2(4) [OF that] by (auto split: option.split)
  then show ?case using b1 b2 by auto
qed auto

lemma decode_ascii_field_padded: "decode_ascii_field (xs @ replicate n 0) = decode_ascii_field xs"
proof -
  have "takeWhile (\<lambda>b. b \<noteq> 0) (xs @ replicate n 0) = takeWhile (\<lambda>b. b \<noteq> (0 :: u8)) xs"
    by (induction xs) (auto simp: takeWhile_eq_Nil_iff)
  then show ?thesis by (simp add: decode_ascii_field_def)
qed

lemma subslice_upd_prefix:
  assumes "i + n \<le> length xs" "length src \<le> n"
  shows "subslice (upd xs i src) i (i + n) = Some (src @ take (n - length src) (drop (i + length src) xs))"
proof -
  have "take n (drop i (upd xs i src)) = src @ take (n - length src) (drop (i + length src) xs)"
    using assms by (intro nth_equalityI) (auto simp: upd_nth nth_append)
  then show ?thesis using assms by (simp add: subslice_def)
qed

lemma parse_vtoc_take:
  assumes "off + 252 \<le> length raw"
  shows "parse_vtoc raw off = parse_vtoc (take 252 (drop off raw)) 0"
proof -
  define d where "d = drop off raw"
  have d: "252 \<le> length d" using assms by (simp add: d_def)
  have "parse_vtoc_partition (take 252 d) i = parse_vtoc_partition d i" if "i < 16" for i
    using that d by (simp add: parse_vtoc_partition_def Let_def read_take)
  then have "mapM (parse_vtoc_partition (take 252 d)) [0..<16] = mapM (parse_vtoc_partition d) [0..<16]"
    by (intro mapM_cong_set) auto
  moreover have "subslice raw off (length raw) = Some d" "subslice (take 252 d) 0 (length (take 252 d)) = Some (take 252 d)"
    using assms by (simp_all add: subslice_def d_def)
  ultimately show ?thesis using d by (simp add: parse_vtoc_def read_take d_def [symmetric])
qed

definition vtoc_of :: "rstr \<Rightarrow> vtoc_partition list \<Rightarrow> vtoc_info" where
  "vtoc_of volume slices =
     \<lparr> vt_sanity = VTOC_SANE, vt_version = 1, vt_volume = decode_ascii_field (take 8 volume),
       vt_partition_count = of_int (slice_count slices), vt_partitions = map (slot_of slices) [0..<16] \<rparr>"

lemma build_vtoc_parses:
  assumes "\<forall>p \<in> set slices. slice_ok p" "distinct (map vp_index slices)"
  shows "\<exists>raw. build_vtoc volume slices = Some raw \<and> length raw = 512 \<and> parse_vtoc raw 0 = Some (vtoc_of volume slices)"
proof -
  let ?v = "take (min (length volume) 8) volume"
  define h where "h = upd (upd (upd (upd (replicate 512 0) 0 (le32 VTOC_SANE)) 4 (le32 1)) 8 ?v) 16
    (le16 (of_int (slice_count slices)))"
  have n: "length ?v \<le> 8" by simp
  have lh: "length h = 512" by (simp add: h_def)
  have run: "build_vtoc volume slices = foldM put_slice h slices"
    using n by (simp add: build_vtoc_def h_def upd_simps)
  have hd: "u32 h 0 = Some VTOC_SANE" "u32 h 4 = Some 1" "u16 h 16 = Some (of_int (slice_count slices))"
    using n by (simp_all add: h_def upd_simps)
  have vol: "subslice h 8 16 = Some (?v @ replicate (8 - length ?v) 0)"
  proof -
    let ?z = "upd (upd (replicate 512 0) 0 (le32 VTOC_SANE)) 4 (le32 1)"
    have "take (8 - length ?v) (drop (8 + length ?v) ?z) = replicate (8 - length ?v) 0"
      by (rule nth_equalityI) (auto simp: upd_simps)
    then show ?thesis using n subslice_upd_prefix [of 8 8 ?z ?v] by (simp add: h_def upd_simps)
  qed
  have zero: "parse_vtoc_partition h i = Some (empty_slot i)" if "i < 16" for i
    using that n by (simp add: parse_vtoc_partition_def Let_def h_def upd_simps read_zeros empty_slot_def)
  obtain b where b: "foldM put_slice h slices = Some b" "length b = 512" "\<And>k. k < 60 \<Longrightarrow> b ! k = h ! k"
    "\<And>i. i < 16 \<Longrightarrow> parse_vtoc_partition b i =
         (case find (\<lambda>p. unat (vp_index p) = i) slices of Some p \<Rightarrow> Some p | None \<Rightarrow> parse_vtoc_partition h i)"
    using put_slices_spec [OF assms(1) lh assms(2)] by auto
  have sl: "subslice b i j = subslice h i j" if "j \<le> 60" for i j
    using that b(2,3) lh by (intro subslice_eqI) auto
  have "mapM (parse_vtoc_partition b) [0..<16] = Some (map (slot_of slices) [0..<16])"
    by (rule mapM_Some_map) (auto simp: b(4) zero slot_of_def split: option.splits)
  moreover have "u32 b 0 = Some VTOC_SANE" "u32 b 4 = Some 1" "u16 b 16 = Some (of_int (slice_count slices))"
    "subslice b 8 16 = Some (?v @ replicate (8 - length ?v) 0)"
    using hd vol by (simp_all add: u32_subslice u16_subslice sl)
  moreover have "subslice b 0 (length b) = Some b" by (simp add: subslice_def)
  ultimately show ?thesis
    using run b(1,2) by (simp add: parse_vtoc_def vtoc_of_def decode_ascii_field_padded min_def)
qed

definition empty_alt_table :: alt_table_info where
  "empty_alt_table = \<lparr> alt_used = 0, alt_reserved = 0, alt_base_sector = 0, alt_bad_entries = [] \<rparr>"

definition empty_alt :: alt_info where
  "empty_alt = \<lparr> ai_sanity = ALT_SANITY, ai_version = ALT_VERSION, ai_track_table = empty_alt_table,
     ai_sector_table = empty_alt_table \<rparr>"

lemma build_empty_alt_info_parses:
  "\<exists>raw. build_empty_alt_info = Some raw \<and> length raw = 2048 \<and> parse_alt_info raw 0 = Some empty_alt"
proof -
  define raw where "raw = upd (upd (upd (upd (upd (upd (upd (upd (upd (replicate 2048 0) 0 (le32 ALT_SANITY))
    4 (le16 ALT_VERSION)) 6 (le16 0)) 8 (le16 0)) 10 (le16 0)) 12 (le32 0)) 1028 (le16 0)) 1030 (le16 0)) 1032 (le32 0)"
  have l: "length raw = 2048" by (simp add: raw_def)
  have b: "build_empty_alt_info = Some raw"
    by (simp add: build_empty_alt_info_def Let_def upd_simps raw_def)
  have r: "u32 raw 0 = Some ALT_SANITY" "u16 raw 4 = Some ALT_VERSION" "u16 raw 8 = Some 0" "u16 raw 10 = Some 0"
    "i32 raw 12 = Some 0" "u16 raw 16 = Some 0" "u16 raw 18 = Some 0" "i32 raw 20 = Some 0"
    by (simp_all add: raw_def upd_simps read_zeros)
  have "subslice raw 0 (length raw) = Some raw" by (simp add: subslice_def)
  then have "parse_alt_info raw 0 = Some empty_alt"
    using l r by (simp add: parse_alt_info_def parse_alt_table_def empty_alt_def empty_alt_table_def)
  then show ?thesis using b l by blast
qed

section \<open>The partition table\<close>

lemma serialize_parses:
  assumes v: "validate_geometry g a = Inr ()" and s: "sat \<or> total_sectors g \<le> 1024 * geo_spc g"
    and p: "unat (pe_start_lba p) + (unat (pe_sector_count p) - 1) < total_sectors g"
  shows "\<exists>raw cs ce. serialize_partition_entry p g sat = Some (Inr raw) \<and> length raw = 16
    \<and> (\<forall>i. parse_partition_entry i raw = Some (p \<lparr> pe_index := i, pe_start_chs := cs, pe_end_chs := ce \<rparr>))"
proof -
  let ?last = "unat (pe_start_lba p) + (unat (pe_sector_count p) - 1)"
  obtain h1 s1 c1 t1 where e1: "encode_chs (unat (pe_start_lba p)) g sat = Some (Inr [h1, s1, c1])"
    "decode_chs [h1, s1, c1] = Some t1"
    using encode_saturates [OF v _ s, of "unat (pe_start_lba p)"] p by auto
  obtain h2 s2 c2 t2 where e2: "encode_chs ?last g sat = Some (Inr [h2, s2, c2])" "decode_chs [h2, s2, c2] = Some t2"
    using encode_saturates [OF v p s] by auto
  define raw where "raw = upd (upd (upd (upd (upd (upd (replicate 16 0) 0 [if pe_bootable p then 0x80 else 0])
     1 [h1, s1, c1]) 4 [pe_type p]) 5 [h2, s2, c2]) 8 (le32 (pe_start_lba p))) 12 (le32 (pe_sector_count p))"
  have l: "length raw = 16" by (simp add: raw_def)
  have r: "serialize_partition_entry p g sat = Some (Inr raw)"
    using e1(1) e2(1) by (simp add: serialize_partition_entry_def Let_def upd_simps raw_def)
  have g0: "get_at raw 0 = Some (if pe_bootable p then 0x80 else 0)" "get_at raw 4 = Some (pe_type p)"
    by (simp_all add: get_at_def l) (simp_all add: raw_def upd_nth)
  have ss: "subslice raw 1 4 = Some [h1, s1, c1]" "subslice raw 5 8 = Some [h2, s2, c2]"
    by (simp_all add: raw_def upd_simps upd_subslice_same)
  have u: "u32 raw 8 = Some (pe_start_lba p)" "u32 raw 12 = Some (pe_sector_count p)"
    by (simp_all add: raw_def upd_simps)
  have "parse_partition_entry i raw = Some (p \<lparr> pe_index := i, pe_start_chs := t1, pe_end_chs := t2 \<rparr>)" for i
    using l g0 ss u e1(2) e2(2) by (cases p) (simp add: parse_partition_entry_def)
  then show ?thesis using r l by blast
qed

lemma parse_partition_total: "length raw = 16 \<Longrightarrow> \<exists>q. parse_partition_entry i raw = Some q"
  by (simp add: parse_partition_entry_def decode_chs_def get_at_def subslice_def u32_subslice Let_def)

lemma build_mbr_parses:
  assumes v: "validate_geometry g a = Inr ()" and p: "validate_unix_partition (total_sectors g) (unat st) (unat n) = Inr ()"
    and c: "case boot_code of None \<Rightarrow> True | Some code \<Rightarrow> length code \<le> 446"
  shows "\<exists>raw mbr cs ce. build_mbr g st n boot_code a = Some (Inr raw) \<and> length raw = 512
    \<and> (\<forall>code. boot_code = Some code \<longrightarrow> take (length code) raw = code)
    \<and> parse_mbr_sector raw = Some mbr \<and> mbr_signature mbr = 0xAA55 \<and> length (mbr_partitions mbr) = 4
    \<and> mbr_partitions mbr ! 0 = active_entry st n \<lparr> pe_start_chs := cs, pe_end_chs := ce \<rparr>"
proof -
  note g = geometry_valid [OF v]
  define code where "code = (case boot_code of None \<Rightarrow> [] | Some c \<Rightarrow> c)"
  have lc: "length code \<le> 446" using c by (simp add: code_def split: option.splits)
  have sat: "(a = DISK_ADDRESSING_LBA28) \<or> total_sectors g \<le> 1024 * geo_spc g" using g(9,11,12) by auto
  have "unat st < 2 ^ 32" "unat n < 2 ^ 32" using unat_u32_bound by simp_all
  then have "unat st + (unat n - 1) < total_sectors g"
    using p by (auto simp: validate_unix_partition_def uadd_def split: if_splits)
  then obtain e cs ce where e: "serialize_partition_entry (active_entry st n) g (a = DISK_ADDRESSING_LBA28) = Some (Inr e)"
    "length e = 16" "\<And>i. parse_partition_entry i e = Some (active_entry st n \<lparr> pe_index := i, pe_start_chs := cs, pe_end_chs := ce \<rparr>)"
    using serialize_parses [OF v sat, of "active_entry st n"] by (auto simp: active_entry_def)
  define raw where "raw = upd (upd (upd (replicate 512 0) 0 code) 446 e) 510 (le16 0xAA55)"
  have l: "length raw = 512" by (simp add: raw_def)
  have b: "build_mbr g st n boot_code a = Some (Inr raw)"
    using lc e(1,2) unfolding build_mbr_def Let_def code_def [symmetric] by (simp add: raw_def upd_simps)
  have t: "take (length code) raw = code"
    using lc e(2) by (intro nth_equalityI) (auto simp: raw_def upd_nth)
  have s: "u16 raw 510 = Some 0xAA55" by (simp add: raw_def upd_simps)
  have e0: "subslice raw 446 462 = Some e" using lc e(2) by (simp add: raw_def upd_simps upd_subslice_same)
  have sl: "\<exists>r. subslice raw (446 + i * 16) (446 + i * 16 + 16) = Some r \<and> length r = 16" if "i < 4" for i
    using that l by (simp add: subslice_def)
  let ?f = "\<lambda>i. let base = 446 + i * 16 in subslice raw base (base + 16) \<bind> parse_partition_entry (of_nat i + 1)"
  have "\<exists>q. ?f i = Some q" if "i \<in> set [0..<4]" for i
  proof -
    have "i < 4" using that by simp
    then show ?thesis using sl [of i] parse_partition_total by fastforce
  qed
  then obtain ps where ps: "mapM ?f [0..<4] = Some ps"
    using mapM_Some_map [of "[0..<4]" ?f "\<lambda>i. the (?f i)"] by fastforce
  have "?f 0 = Some (ps ! 0)" using mapM_nth [OF ps, of 0] by (simp del: upt.simps)
  then have "ps ! 0 = active_entry st n \<lparr> pe_start_chs := cs, pe_end_chs := ce \<rparr>"
    using e0 e(3) by (simp add: active_entry_def)
  moreover have "length ps = 4" using mapM_length [OF ps] by simp
  moreover have "parse_mbr_sector raw = Some \<lparr> mbr_signature = 0xAA55, mbr_partitions = ps \<rparr>"
    using l s ps by (simp add: parse_mbr_sector_def Let_def)
  moreover have "\<forall>code. boot_code = Some code \<longrightarrow> take (length code) raw = code" using t by (auto simp: code_def)
  ultimately show ?thesis using b l 
    by (intro exI [of _ raw] exI [of _ "\<lparr> mbr_signature = 0xAA55, mbr_partitions = ps \<rparr>"] exI [of _ cs] exI [of _ ce]) simp
qed

section \<open>The skeleton image\<close>

lemma validate_slices_spec:
  assumes "validate_slices us ue seen ps = Inr ()" "0 \<le> us" "ue < 2 ^ 31"
    "\<forall>p \<in> set ps. vp_sector_count p < 2 ^ 62 \<and> vp_start_sector p < 2 ^ 62"
  shows "(\<forall>p \<in> set ps. slice_ok p \<and> us \<le> vp_start_sector p \<and> vp_start_sector p + vp_sector_count p \<le> ue)
    \<and> distinct (map vp_index ps) \<and> set (map vp_index ps) \<inter> set seen = {}"
  using assms
proof (induction us ue seen ps rule: validate_slices.induct)
  case (2 us ue seen p ps)
  have c: "vp_index p < 16" "vp_index p \<notin> set seen" "0 \<le> vp_start_sector p" "0 \<le> vp_sector_count p"
    "us \<le> vp_start_sector p" "i64 (vp_start_sector p + vp_sector_count p) \<le> ue"
    and rest: "validate_slices us ue (vp_index p # seen) ps = Inr ()"
    using "2.prems"(1) by (simp_all add: not_le not_less split: if_splits)
  have "i64 (vp_start_sector p + vp_sector_count p) = vp_start_sector p + vp_sector_count p"
    using c(3,4) "2.prems"(4) by (intro i64_id_bounds) auto
  then have "slice_ok p \<and> vp_start_sector p + vp_sector_count p \<le> ue"
    using c "2.prems"(3) by (simp add: slice_ok_def)
  moreover have "(\<forall>p \<in> set ps. slice_ok p \<and> us \<le> vp_start_sector p \<and> vp_start_sector p + vp_sector_count p \<le> ue)
    \<and> distinct (map vp_index ps) \<and> set (map vp_index ps) \<inter> set (vp_index p # seen) = {}"
    using c by (intro "2.IH" rest "2.prems"(2,3)) (use "2.prems"(4) c in \<open>auto simp: not_le not_less\<close>)
  ultimately show ?case using c by auto
qed simp

lemma file_write_at_upd: "off + length data \<le> length file \<Longrightarrow> file_write_at off data file = upd file off data"
  by (rule nth_equalityI) (auto simp: file_write_at_def upd_nth nth_append)

text \<open>What the inspection reads of the four blocks at their places in a file.\<close>

definition skeleton_file :: "nat \<Rightarrow> nat \<Rightarrow> bytes \<Rightarrow> bytes \<Rightarrow> bytes \<Rightarrow> bytes \<Rightarrow> bytes" where
  "skeleton_file n st mbr pd vt alt =
     upd (upd (upd (upd (replicate n 0) 0 mbr) ((st + 29) * 512) pd) ((st + 29) * 512 + 100) vt) ((st + 30) * 512) alt"

lemma skeleton_sectors:
  assumes "length mbr = 512" "length pd = 512" "length vt = 512" "length alt = 2048" "1 \<le> st" "(st + 34) * 512 \<le> n"
  defines "f \<equiv> skeleton_file n st mbr pd vt alt"
  shows "take 512 f = mbr" "take 98 (drop ((st + 29) * 512) f) = take 98 pd"
    "take 252 (drop ((st + 29) * 512 + 100) f) = take 252 vt" "take 2048 (drop ((st + 30) * 512) f) = alt"
  using assms by (auto simp: f_def skeleton_file_def upd_nth intro!: nth_equalityI)

lemma read_sector_eq:
  assumes "sector < 2 ^ 50" "count < 2 ^ 50"
  shows "read_sector file sector count = Inr (take (count * 512) (drop (sector * 512) file))"
  using assms by (simp add: read_sector_def umul_def)

lemma mapM_pure: "mapM (\<lambda>x. Some (f x)) xs = Some (map f xs)"
  by (rule mapM_Some_map) simp

definition skeleton_pdinfo :: "raw_disk_geometry \<Rightarrow> u32 \<Rightarrow> pdinfo" where
  "skeleton_pdinfo g st = \<lparr> pd_drive_id = 0, pd_sanity = VALID_PD, pd_version = 1, pd_serial = [],
        pd_cylinders = geo_cylinders g, pd_tracks = geo_heads g, pd_sectors = geo_sectors_per_track g,
        pd_bytes_per_sector = 512, pd_logical_sector_0 = st, pd_vtoc_ptr = 14948, pd_vtoc_len = 316,
        pd_alt_ptr = 15360, pd_alt_len = 2048 \<rparr>"

definition skeleton_ok :: "raw_disk_geometry \<Rightarrow> u32 \<Rightarrow> u32 \<Rightarrow> rstr \<Rightarrow> vtoc_partition list \<Rightarrow> bytes \<Rightarrow> bool" where
  "skeleton_ok g st n volume slices file \<longleftrightarrow> length file = total_sectors g * 512
     \<and> (\<exists>mbr cs ce. parse_mbr_sector (take 512 file) = Some mbr \<and> mbr_signature mbr = 0xAA55
          \<and> find_active_unix_partition mbr = Some (active_entry st n \<lparr> pe_start_chs := cs, pe_end_chs := ce \<rparr>))
     \<and> read_pdinfo file (unat st) = Some (Inr (skeleton_pdinfo g st))
     \<and> read_vtoc file (unat st) (skeleton_pdinfo g st) = Some (Inr (vtoc_of volume slices))
     \<and> read_alt_info file (unat st) (skeleton_pdinfo g st) = Some (Inr (Some empty_alt))"

lemma skeleton_file_ok:
  assumes mbr: "length mbr = 512" "parse_mbr_sector mbr = Some m" "mbr_signature m = 0xAA55" "length (mbr_partitions m) = 4"
      "mbr_partitions m ! 0 = active_entry st n \<lparr> pe_start_chs := cs, pe_end_chs := ce \<rparr>"
    and pd: "length pd = 512" "parse_pdinfo pd = Some (skeleton_pdinfo g st)"
    and vt: "length vt = 512" "parse_vtoc vt 0 = Some (vtoc_of volume slices)"
    and alt: "length alt = 2048" "parse_alt_info alt 0 = Some empty_alt"
    and st: "1 \<le> unat st" "(unat st + 34) * 512 \<le> total_sectors g * 512"
  shows "skeleton_ok g st n volume slices (skeleton_file (total_sectors g * 512) (unat st) mbr pd vt alt)"
proof -
  let ?st = "unat st" let ?f = "skeleton_file (total_sectors g * 512) ?st mbr pd vt alt"
  note s = skeleton_sectors [OF mbr(1) pd(1) vt(1) alt(1) st]
  have l: "length ?f = total_sectors g * 512" by (simp add: skeleton_file_def)
  have b: "?st < 2 ^ 32" using unat_u32_bound by simp
  have u: "uadd ?st 29 = ?st + 29" "uadd ?st 30 = ?st + 30" using b by (simp_all add: uadd_eq)
  have r1: "read_sector ?f (?st + 29) k = Inr (take (k * 512) (drop ((?st + 29) * 512) ?f))" if "k < 100" for k
    by (rule read_sector_eq) (use b that in simp_all)
  have r2: "read_sector ?f (?st + 30) k = Inr (take (k * 512) (drop ((?st + 30) * 512) ?f))" if "k < 100" for k
    by (rule read_sector_eq) (use b that in simp_all)
  obtain p ps where ps: "mbr_partitions m = p # ps" using mbr(4) by (cases "mbr_partitions m") auto
  have "find_active_unix_partition m = Some (active_entry st n \<lparr> pe_start_chs := cs, pe_end_chs := ce \<rparr>)"
    using mbr(5) by (simp add: find_active_unix_partition_def ps active_entry_def)
  moreover have "parse_pdinfo (take 512 (drop ((?st + 29) * 512) ?f)) = parse_pdinfo (take 98 (drop ((?st + 29) * 512) ?f))"
    using st l by (subst parse_pdinfo_take) auto
  then have "read_pdinfo ?f ?st = Some (Inr (skeleton_pdinfo g st))"
    using pd st s(2) by (simp add: read_pdinfo_def u r1 parse_pdinfo_take [of pd])
  moreover have "parse_vtoc (take 1024 (drop ((?st + 29) * 512) ?f)) 100 = Some (vtoc_of volume slices)"
  proof -
    have "drop 100 (take 1024 (drop ((?st + 29) * 512) ?f)) = take 924 (drop ((?st + 29) * 512 + 100) ?f)"
      by (simp add: drop_take add.commute)
    then show ?thesis
      using vt s(3) st l by (subst parse_vtoc_take) (auto simp: parse_vtoc_take [of 0 vt])
  qed
  then have "read_vtoc ?f ?st (skeleton_pdinfo g st) = Some (Inr (vtoc_of volume slices))"
    by (simp add: read_vtoc_def skeleton_pdinfo_def span_sectors_def div_ceil_def u r1)
  moreover have "read_alt_info ?f ?st (skeleton_pdinfo g st) = Some (Inr (Some empty_alt))"
    using alt s(4)
    by (simp add: read_alt_info_def skeleton_pdinfo_def span_sectors_def div_ceil_def u r2 is_valid_alt_info_def empty_alt_def)
  ultimately show ?thesis unfolding skeleton_ok_def using l s(1) mbr(2,3) by (intro conjI exI [of _ m] exI [of _ cs] exI [of _ ce]) simp_all
qed

lemma skeleton_wp:
  assumes part: "unat st + unat n < 2 ^ 31"
    and sl: "\<forall>p \<in> set slices. vp_start_sector p < 2 ^ 62 \<and> vp_sector_count p < 2 ^ 62"
  shows "wp (create_raw_image_skeleton g st n volume slices code a) (\<lambda>_. skeleton_ok g st n volume slices) (\<lambda>_ _. True) file"
proof (cases "validate_geometry g a = Inr () \<and> validate_unix_partition (total_sectors g) (unat st) (unat n) = Inr ()
    \<and> validate_vtoc_partitions (uint st) (uint n) slices = Inr ()")
  case False
  then consider (a) e where "validate_geometry g a = Inl e"
    | (b) e where "validate_geometry g a = Inr ()" "validate_unix_partition (total_sectors g) (unat st) (unat n) = Inl e"
    | (c) e where "validate_geometry g a = Inr ()" "validate_unix_partition (total_sectors g) (unat st) (unat n) = Inr ()"
        "validate_vtoc_partitions (uint st) (uint n) slices = Inl e"
    by (cases "validate_geometry g a"; cases "validate_unix_partition (total_sectors g) (unat st) (unat n)";
        cases "validate_vtoc_partitions (uint st) (uint n) slices") auto
  then show ?thesis by cases (simp_all only: create_raw_image_skeleton_def wlift_run wp_simps)
next
  case True
  then have v: "validate_geometry g a = Inr ()" and p: "validate_unix_partition (total_sectors g) (unat st) (unat n) = Inr ()"
    and q: "validate_vtoc_partitions (uint st) (uint n) slices = Inr ()" by auto
  note g = geometry_valid [OF v]
  have "int (unat st + unat n) < 2 ^ 31" using part by (metis of_nat_less_numeral_power_cancel_iff)
  then have i2: "uint st + uint n < 2 ^ 31" by simp
  have nn: "0 \<le> uint st + uint n" by simp
  have "i64 v = v" if "0 \<le> v" "v < 2 ^ 31" for v by (rule i64_id_bounds) (use that in simp_all)
  note i = this [OF nn i2] i2
  have so: "\<forall>p \<in> set slices. slice_ok p" "distinct (map vp_index slices)"
    using validate_slices_spec [of "uint st" "uint st + uint n" "[]" slices] q i sl
    by (auto simp: validate_vtoc_partitions_def)
  have b: "unat st < 2 ^ 32" using unat_u32_bound by simp
  have s1: "1 \<le> unat st" using p by (auto simp: validate_unix_partition_def split: if_splits)
  have tb: "umul (total_sectors g) 512 = total_sectors g * 512" using g(10) by (simp add: umul_eq)
  obtain pd where pd: "build_pdinfo g st 14948 316 15360 2048 = Some pd" "length pd = 512"
    "parse_pdinfo pd = Some (skeleton_pdinfo g st)"
    using build_pdinfo_parses [of g st 14948 316 15360 2048] by (auto simp: skeleton_pdinfo_def)
  obtain vt where vt: "build_vtoc volume slices = Some vt" "length vt = 512" "parse_vtoc vt 0 = Some (vtoc_of volume slices)"
    using build_vtoc_parses [OF so] by auto
  obtain alt where alt: "build_empty_alt_info = Some alt" "length alt = 2048" "parse_alt_info alt 0 = Some empty_alt"
    using build_empty_alt_info_parses by auto
  show ?thesis
  proof (cases "case code of None \<Rightarrow> True | Some c \<Rightarrow> length c \<le> 446")
    case False
    then obtain c where "code = Some c" "446 < length c" by (cases code) auto
    then have "build_mbr g st n code a = Some (Inl (BootCodeTooLarge (length c)))" by (simp add: build_mbr_def)
    then show ?thesis using v p q by (simp add: create_raw_image_skeleton_def Let_def)
  next
    case True
    obtain mbr m cs ce where mbr: "build_mbr g st n code a = Some (Inr mbr)" "length mbr = 512"
      "parse_mbr_sector mbr = Some m" "mbr_signature m = 0xAA55" "length (mbr_partitions m) = 4"
      "mbr_partitions m ! 0 = active_entry st n \<lparr> pe_start_chs := cs, pe_end_chs := ce \<rparr>"
      using build_mbr_parses [OF v p True] by blast
    let ?n = "total_sectors g * 512" let ?st = "unat st"
    have ok: "skeleton_ok g st n volume slices (skeleton_file ?n ?st mbr pd vt alt)" if "(?st + 34) * 512 \<le> ?n"
      using skeleton_file_ok [OF mbr(2-6) pd(2,3) vt(2,3) alt(2,3) s1 that] .
    have "file_write_at ((?st + 30) * 512) alt (file_write_at ((?st + 29) * 512 + 100) vt
        (file_write_at ((?st + 29) * 512) pd (file_write_at 0 mbr (replicate ?n 0)))) = skeleton_file ?n ?st mbr pd vt alt"
      if "(?st + 34) * 512 \<le> ?n"
      using that mbr(2) pd(2) vt(2) alt(2) by (simp add: skeleton_file_def file_write_at_upd)
    then show ?thesis
      using v p q mbr(1) pd(1) vt(1) alt(1) ok alt(2) tb
      by (auto simp: create_raw_image_skeleton_def Let_def algebra_simps)
  qed
qed

text \<open>C29: A raw disk skeleton reads back as it was asked for. For a partition that ends before sector \<open>2^31\<close> the
  construction never panics; on success the file has exactly the size of the geometry, and its inspection finds no
  fault: the boot signature and the active UNIX partition with its bounds, a sane pdinfo with the geometry, a sane VTOC
  with the volume name and every slice in its slot (empty slots elsewhere), and valid, empty alternates.\<close>

theorem skeleton_inspects:
  assumes "unat st + unat n < 2 ^ 31"
    and "\<forall>p \<in> set slices. vp_start_sector p < 2 ^ 62 \<and> vp_sector_count p < 2 ^ 62"
  shows "\<exists>r file'. create_raw_image_skeleton g st n volume slices boot_code a file = Some (r, file')
    \<and> (case r of Inl _ \<Rightarrow> True | Inr _ \<Rightarrow> length file' = total_sectors g * 512
        \<and> (\<exists>rep cs ce. inspect_disk_metadata path file' = Some (Inr rep) \<and> dr_notes rep = []
            \<and> dr_active_unix_partition rep = Some (active_entry st n \<lparr> pe_start_chs := cs, pe_end_chs := ce \<rparr>)
            \<and> dr_pdinfo rep = Some (skeleton_pdinfo g st) \<and> dr_vtoc rep = Some (vtoc_of volume slices)
            \<and> read_alt_info file' (unat st) (skeleton_pdinfo g st) = Some (Inr (Some empty_alt))))"
proof -
  obtain r f where r: "create_raw_image_skeleton g st n volume slices boot_code a file = Some (r, f)"
    "case r of Inl _ \<Rightarrow> True | Inr _ \<Rightarrow> skeleton_ok g st n volume slices f"
    using skeleton_wp [OF assms, of g volume boot_code a "file"] unfolding wp_def by blast
  show ?thesis
  proof (cases r)
    case (Inr u)
    then have ok: "skeleton_ok g st n volume slices f" using r(2) by simp
    then obtain mbr cs ce where m: "parse_mbr_sector (take 512 f) = Some mbr" "mbr_signature mbr = 0xAA55"
      "find_active_unix_partition mbr = Some (active_entry st n \<lparr> pe_start_chs := cs, pe_end_chs := ce \<rparr>)"
      by (auto simp: skeleton_ok_def)
    have "\<exists>sl. probe_slices f null_detector (skeleton_pdinfo g st) (vtoc_of volume slices) = Some sl"
      by (simp add: probe_slices_def probe_slice_def null_detector_def Let_def mapM_pure)
    then obtain sl where sl: "probe_slices f null_detector (skeleton_pdinfo g st) (vtoc_of volume slices) = Some sl" by blast
    have e: "read_sector f 0 1 = Inr (take 512 f)" by (simp add: read_sector_def umul_def)
    have a: "unat (pe_start_lba (active_entry st n \<lparr> pe_start_chs := cs, pe_end_chs := ce \<rparr>)) = unat st"
      by (simp add: active_entry_def)
    have "inspect_active f null_detector (Some (active_entry st n \<lparr> pe_start_chs := cs, pe_end_chs := ce \<rparr>)) =
        Some (Inr (Some (skeleton_pdinfo g st), Some (vtoc_of volume slices), sl, []))"
      using ok sl a by (simp add: inspect_active_def inspect_vtoc_def skeleton_ok_def is_valid_pdinfo_def is_valid_vtoc_def)
        (simp add: skeleton_pdinfo_def vtoc_of_def)
    then obtain rep where "inspect_disk_metadata path f = Some (Inr rep) \<and> dr_notes rep = []
            \<and> dr_active_unix_partition rep = Some (active_entry st n \<lparr> pe_start_chs := cs, pe_end_chs := ce \<rparr>)
            \<and> dr_pdinfo rep = Some (skeleton_pdinfo g st) \<and> dr_vtoc rep = Some (vtoc_of volume slices)"
      using m e by (simp add: inspect_disk_metadata_def inspect_disk_image_def)
    moreover have "length f = total_sectors g * 512"
      "read_alt_info f (unat st) (skeleton_pdinfo g st) = Some (Inr (Some empty_alt))"
      using ok by (simp_all add: skeleton_ok_def)
    ultimately show ?thesis
      using r(1) unfolding Inr by (intro exI [of _ "Inr u"] exI [of _ f]) (simp del: split_paired_Ex, blast)
  qed (use r in simp)
qed

definition sample_slices :: "vtoc_partition list" where
  "sample_slices = [slice_entry 0 V_BACKUP LAYOUT_FLAG_RAW 1 135, slice_entry 1 LAYOUT_TAG_ROOT LAYOUT_FLAG_FS 34 68]"

lemma sample_slices_eq:
  "sample_slices =
     [\<lparr> vp_index = 0, vp_tag = 5, vp_flag = 0x201, vp_start_sector = 1, vp_sector_count = 135 \<rparr>,
      \<lparr> vp_index = 1, vp_tag = 2, vp_flag = 0x200, vp_start_sector = 34, vp_sector_count = 68 \<rparr>]"
  by (simp add: sample_slices_def slice_entry_def in_i64_def)

theorem skeleton_inspects_witness:
  "\<exists>file' rep. create_raw_image_skeleton sample_geometry 1 135 [0x76] sample_slices None DISK_ADDRESSING_CHS [] = Some (Inr (), file')
    \<and> inspect_disk_metadata [] file' = Some (Inr rep) \<and> dr_vtoc rep = Some (vtoc_of [0x76] sample_slices)
    \<and> vt_partitions (vtoc_of [0x76] sample_slices) ! 1 = sample_slices ! 1"
proof -
  let ?c = "create_raw_image_skeleton sample_geometry 1 135 [0x76] sample_slices None DISK_ADDRESSING_CHS []"
  note t = skeleton_inspects [of 1 135 sample_slices sample_geometry "[0x76]" None DISK_ADDRESSING_CHS "[]" "[]"]
  obtain r f where r: "?c = Some (r, f)" using t by (auto simp: sample_slices_eq)
  have "wp (create_raw_image_skeleton sample_geometry 1 135 [0x76] sample_slices None DISK_ADDRESSING_CHS)
      (\<lambda>_ _. True) (\<lambda>_ _. False) []"
  proof -
    have v: "validate_unix_partition (total_sectors sample_geometry) 1 135 = Inr ()"
      "validate_vtoc_partitions 1 135 sample_slices = Inr ()"
      by (simp_all add: validate_unix_partition_def validate_vtoc_partitions_def sample_slices_eq uadd_def in_i64_def
          word_le_nat_alt)
    have s: "\<forall>p \<in> set sample_slices. slice_ok p" "distinct (map vp_index sample_slices)"
      by (simp_all add: sample_slices_eq slice_ok_def)
    obtain mbr where "build_mbr sample_geometry 1 135 None DISK_ADDRESSING_CHS = Some (Inr mbr)"
      using build_mbr_parses [of sample_geometry DISK_ADDRESSING_CHS 1 135 None] v by auto
    moreover obtain pd where "build_pdinfo sample_geometry 1 14948 316 15360 2048 = Some pd"
      using build_pdinfo_parses [of sample_geometry 1 14948 316 15360 2048] by blast
    moreover obtain vt where "build_vtoc [0x76] sample_slices = Some vt" "length vt = 512"
      using build_vtoc_parses [OF s] by blast
    moreover obtain alt where "build_empty_alt_info = Some alt" "length alt = 2048"
      using build_empty_alt_info_parses by auto
    ultimately show ?thesis using v by (simp add: create_raw_image_skeleton_def Let_def umul_def) (rule exI [of _ alt], simp)
  qed
  then obtain u where "r = Inr u" using r by (cases r) (auto simp: wp_def)
  then show ?thesis using r t by (auto simp: sample_slices_eq vtoc_of_def slot_of_def)
qed

section \<open>The slice layout\<close>

lemma disk_align_up_bounds:
  assumes "v < 2 ^ 50" "a < 2 ^ 50"
  shows "v \<le> disk_align_up v a" "disk_align_up v a \<le> v + a" "a dvd disk_align_up v a \<or> a = 0"
proof -
  have "disk_align_up v a = div_ceil v a * a" if "0 < a"
    using div_ceil_bounds [OF that, of v] that assms by (simp add: disk_align_up_def umul_eq)
  then show "v \<le> disk_align_up v a" "disk_align_up v a \<le> v + a" "a dvd disk_align_up v a \<or> a = 0"
    using div_ceil_bounds [of a v] by (cases "a = 0"; simp add: disk_align_up_def)+
qed

lemma mb_sectors_bound: "mb < 2 ^ 30 \<Longrightarrow> mb_sectors mb < 2 ^ 41"
  by (simp add: mb_sectors_def umul_def)

definition options_ok :: "slice_layout_options \<Rightarrow> bool" where
  "options_ok opts \<longleftrightarrow> slo_stand_start_sector opts < 2 ^ 40 \<and> slo_stand_size_mb opts < 2 ^ 30 \<and> slo_swap_size_mb opts < 2 ^ 30
     \<and> slo_root_align_sectors opts < 2 ^ 40"

lemma build_slice_layout_spec:
  assumes v: "validate_geometry g a = Inr ()" and o: "options_ok opts" and r: "build_slice_layout g opts = Inr dl"
  shows "\<exists>stand_start stand_count swap_start swap_count root_start root_count.
    dl = \<lparr> dl_unix_partition_start = 1, dl_unix_partition_size = of_nat (total_sectors g - 1),
      dl_slices = [slice_entry 0 V_BACKUP LAYOUT_FLAG_RAW 1 (total_sectors g - 1),
        slice_entry 1 LAYOUT_TAG_ROOT LAYOUT_FLAG_FS root_start root_count,
        slice_entry 2 LAYOUT_TAG_SWAP LAYOUT_FLAG_RAW swap_start swap_count,
        slice_entry 10 LAYOUT_TAG_STAND LAYOUT_FLAG_FS stand_start stand_count] \<rparr>
    \<and> (\<forall>x \<in> {stand_start, stand_count, swap_start, swap_count, root_start, root_count}. geo_spc g dvd x)
    \<and> 1 \<le> stand_start \<and> 0 < stand_count \<and> stand_start + stand_count \<le> swap_start
    \<and> 0 < swap_count \<and> swap_start + swap_count \<le> root_start
    \<and> 0 < root_count \<and> root_start + root_count = total_sectors g"
proof -
  note g = geometry_valid [OF v]
  let ?s = "geo_spc g" let ?ra = "slo_root_align_sectors opts" let ?t = "total_sectors g"
  have s: "?s < 2 ^ 50" "?s \<noteq> 0" using g(6,7) by simp_all
  have ra: "?ra < 2 ^ 50" using o by (simp add: options_ok_def)
  define sst where "sst = disk_align_up (slo_stand_start_sector opts) ?s"
  define sc where "sc = disk_align_up (mb_sectors (slo_stand_size_mb opts)) ?s"
  define wc where "wc = disk_align_up (mb_sectors (slo_swap_size_mb opts)) ?s"
  have al: "disk_align_up v ?s < 2 ^ 42 \<and> ?s dvd disk_align_up v ?s" if "v < 2 ^ 41" for v
    using disk_align_up_bounds [of v ?s] s g(7) that by simp
  have "slo_stand_start_sector opts < 2 ^ 41" "mb_sectors (slo_stand_size_mb opts) < 2 ^ 41"
    "mb_sectors (slo_swap_size_mb opts) < 2 ^ 41"
    using o mb_sectors_bound by (auto simp: options_ok_def)
  from this [THEN al] have b1: "sst < 2 ^ 42" "sc < 2 ^ 42" "wc < 2 ^ 42" "?s dvd sst" "?s dvd sc" "?s dvd wc"
    unfolding sst_def sc_def wc_def by blast+
  define ws0 where "ws0 = disk_align_up (sst + sc) ?ra"
  define ws where "ws = disk_align_up ws0 ?s"
  have "ws0 < 2 ^ 44" "sst + sc \<le> ws0"
    using disk_align_up_bounds [of "sst + sc" ?ra] b1 ra o by (auto simp: ws0_def options_ok_def)
  then have b2: "ws < 2 ^ 45" "sst + sc \<le> ws" "?s dvd ws"
    using disk_align_up_bounds [of ws0 ?s] s g(7) by (auto simp: ws_def)
  define rs0 where "rs0 = disk_align_up (ws + wc) ?ra"
  define rs where "rs = disk_align_up rs0 ?s"
  have "rs0 < 2 ^ 47" "ws + wc \<le> rs0"
    using disk_align_up_bounds [of "ws + wc" ?ra] b1 b2 ra o by (auto simp: rs0_def options_ok_def)
  then have b3: "rs < 2 ^ 48" "ws + wc \<le> rs" "?s dvd rs"
    using disk_align_up_bounds [of rs0 ?s] s g(7) by (auto simp: rs_def)
  have u: "uadd sst sc = sst + sc" "uadd ws wc = ws + wc" "usub ?t 1 = ?t - 1"
    using b1 b2 g(1,6,9,10) by (simp_all add: uadd_eq usub_eq)
  have d: "?s dvd ?t - rs" using b3(3) g(9) by (simp add: dvd_diff_nat)
  then have rc: "umul ((?t - rs) div ?s) ?s = ?t - rs" using g(10) by (simp add: umul_def)
  from r have c: "sc \<noteq> 0" "wc \<noteq> 0" "1 \<le> sst" "rs < ?t" "?t - rs \<noteq> 0"
    "dl = \<lparr> dl_unix_partition_start = of_nat 1, dl_unix_partition_size = of_nat (?t - 1),
      dl_slices = [slice_entry 0 V_BACKUP LAYOUT_FLAG_RAW 1 (?t - 1),
        slice_entry 1 LAYOUT_TAG_ROOT LAYOUT_FLAG_FS rs (?t - rs),
        slice_entry 2 LAYOUT_TAG_SWAP LAYOUT_FLAG_RAW ws wc,
        slice_entry 10 LAYOUT_TAG_STAND LAYOUT_FLAG_FS sst sc] \<rparr>"
    unfolding build_slice_layout_def Let_def g(8) sst_def [symmetric] sc_def [symmetric] wc_def [symmetric]
      u ws0_def [symmetric] ws_def [symmetric] rs0_def [symmetric] rs_def [symmetric] rc
    by (auto simp: u split: if_splits)
  show ?thesis
  proof (intro exI conjI)
    show "dl = \<lparr> dl_unix_partition_start = 1, dl_unix_partition_size = of_nat (?t - 1),
      dl_slices = [slice_entry 0 V_BACKUP LAYOUT_FLAG_RAW 1 (?t - 1),
        slice_entry 1 LAYOUT_TAG_ROOT LAYOUT_FLAG_FS rs (?t - rs),
        slice_entry 2 LAYOUT_TAG_SWAP LAYOUT_FLAG_RAW ws wc,
        slice_entry 10 LAYOUT_TAG_STAND LAYOUT_FLAG_FS sst sc] \<rparr>" using c(6) by simp
    show "\<forall>x \<in> {sst, sc, ws, wc, rs, ?t - rs}. ?s dvd x" using b1(4-6) b2(3) b3(3) d by blast
  qed (use c(1-5) b2(2) b3(2) in simp_all)
qed

text \<open>C30: The standard slice layout is sound. For a valid geometry (below \<open>2^31\<close> sectors) and options without
  overflow, a computed layout has every file-system slice on cylinder boundaries, the stand, swap and root slices
  non-empty, in this order and disjoint, the root slice ending exactly with the disk, and it passes the validation of
  the image builder.\<close>

theorem slice_layout_sound:
  assumes "validate_geometry g a = Inr ()" "total_sectors g < 2 ^ 31" "options_ok opts" "build_slice_layout g opts = Inr dl"
  shows "validate_unix_partition (total_sectors g) (unat (dl_unix_partition_start dl)) (unat (dl_unix_partition_size dl)) = Inr ()
    \<and> validate_vtoc_partitions (uint (dl_unix_partition_start dl)) (uint (dl_unix_partition_size dl)) (dl_slices dl) = Inr ()
    \<and> (\<exists>backup root swap stand. dl_slices dl = [backup, root, swap, stand]
        \<and> (\<forall>p \<in> {root, swap, stand}. int (unat (geo_heads g) * unat (geo_sectors_per_track g)) dvd vp_start_sector p
             \<and> int (unat (geo_heads g) * unat (geo_sectors_per_track g)) dvd vp_sector_count p \<and> 0 < vp_sector_count p)
        \<and> 1 \<le> vp_start_sector stand \<and> vp_start_sector stand + vp_sector_count stand \<le> vp_start_sector swap
        \<and> vp_start_sector swap + vp_sector_count swap \<le> vp_start_sector root
        \<and> vp_start_sector root + vp_sector_count root = int (total_sectors g)
        \<and> vp_start_sector backup = 1 \<and> vp_sector_count backup = int (total_sectors g) - 1)"
proof -
  let ?t = "total_sectors g"
  obtain ss sc ws wc rs rc where dl: "dl = \<lparr> dl_unix_partition_start = 1, dl_unix_partition_size = of_nat (?t - 1),
      dl_slices = [slice_entry 0 V_BACKUP LAYOUT_FLAG_RAW 1 (?t - 1), slice_entry 1 LAYOUT_TAG_ROOT LAYOUT_FLAG_FS rs rc,
        slice_entry 2 LAYOUT_TAG_SWAP LAYOUT_FLAG_RAW ws wc, slice_entry 10 LAYOUT_TAG_STAND LAYOUT_FLAG_FS ss sc] \<rparr>"
    and d: "\<forall>x \<in> {ss, sc, ws, wc, rs, rc}. geo_spc g dvd x"
    and o: "1 \<le> ss" "0 < sc" "ss + sc \<le> ws" "0 < wc" "ws + wc \<le> rs" "0 < rc" "rs + rc = ?t"
    using build_slice_layout_spec [OF assms(1,3,4)] by blast
  have i: "i64 (int k) = int k" if "k \<le> ?t" for k
    using that assms(2) by (intro i64_id_bounds) auto
  have le: "ss \<le> ?t" "sc \<le> ?t" "ws \<le> ?t" "wc \<le> ?t" "rs \<le> ?t" "rc \<le> ?t" "1 \<le> ?t" "?t - 1 \<le> ?t" using o by auto
  have u: "unat (of_nat (?t - 1) :: u32) = ?t - 1" by (rule unat_of_nat_small(2)) (use assms(2) in simp)
  have ui: "uint (of_nat (?t - 1) :: u32) = int ?t - 1"
    using u le(7) by (metis of_nat_1 of_nat_diff uint_nat)
  have "validate_unix_partition ?t 1 (?t - 1) = Inr ()"
    using le o assms(2) by (auto simp: validate_unix_partition_def uadd_def)
  moreover have "validate_vtoc_partitions 1 (int ?t - 1) (dl_slices dl) = Inr ()"
  proof -
    have s: "i64 (int x + int y) = int x + int y" if "x + y \<le> ?t" for x y
      using i [OF that] by simp
    have e: "i64 (1 + (int ?t - 1)) = int ?t" "i64 1 = 1" "i64 (int ?t - 1) = int ?t - 1"
      using i [of ?t] i [of 1] i [of "?t - 1"] le(7) by (simp_all add: of_nat_diff)
    show ?thesis
      using o le s [of 1 "?t - 1"] s [of rs rc] s [of ws wc] s [of ss sc] e
      by (simp add: validate_vtoc_partitions_def dl slice_entry_def i word_le_nat_alt of_nat_diff)
  qed
  moreover have "\<exists>backup root swap stand. dl_slices dl = [backup, root, swap, stand]
        \<and> (\<forall>p \<in> {root, swap, stand}. int (unat (geo_heads g) * unat (geo_sectors_per_track g)) dvd vp_start_sector p
             \<and> int (unat (geo_heads g) * unat (geo_sectors_per_track g)) dvd vp_sector_count p \<and> 0 < vp_sector_count p)
        \<and> 1 \<le> vp_start_sector stand \<and> vp_start_sector stand + vp_sector_count stand \<le> vp_start_sector swap
        \<and> vp_start_sector swap + vp_sector_count swap \<le> vp_start_sector root
        \<and> vp_start_sector root + vp_sector_count root = int ?t
        \<and> vp_start_sector backup = 1 \<and> vp_sector_count backup = int ?t - 1"
    using d o le unfolding geo_spc_def [symmetric] dl
    using i [of 1] i [of "?t - 1"] by (auto simp: slice_entry_def i of_nat_diff simp del: of_nat_mult)
  ultimately show ?thesis using u ui by (simp add: dl)
qed

definition disk_geometry :: raw_disk_geometry where
  "disk_geometry = \<lparr> geo_cylinders = 64, geo_heads = 16, geo_sectors_per_track = 63 \<rparr>"

definition disk_options :: slice_layout_options where
  "disk_options = \<lparr> slo_stand_start_sector = 64, slo_stand_size_mb = 1, slo_swap_size_mb = 2, slo_root_align_sectors = 2048 \<rparr>"

lemma disk_layout_exists:
  "\<exists>dl. build_slice_layout disk_geometry disk_options = Inr dl"
proof -
  have t: "total_sectors disk_geometry = 64512" "umul (unat (geo_heads disk_geometry)) (unat (geo_sectors_per_track disk_geometry)) = 1008"
    by (simp_all add: total_sectors_def disk_geometry_def umul_def)
  have m: "mb_sectors (Suc 0) = 2048" "mb_sectors 2 = 4096" by (simp_all add: mb_sectors_def umul_def)
  have a: "disk_align_up 64 1008 = 1008" "disk_align_up 2048 1008 = 3024" "disk_align_up 4096 1008 = 5040"
    "disk_align_up 4032 2048 = 4096" "disk_align_up 10080 2048 = 10240" "disk_align_up 10240 1008 = 11088"
    by (simp_all add: disk_align_up_def div_ceil_def umul_def)
  have u: "uadd 1008 3024 = 4032" "uadd 5040 5040 = 10080" "umul 53 1008 = 53424" by (simp_all add: uadd_def umul_def)
  show ?thesis unfolding build_slice_layout_def Let_def t by (simp add: disk_options_def m a u)
qed

theorem slice_layout_sound_witness:
  "\<exists>dl. build_slice_layout disk_geometry disk_options = Inr dl
    \<and> validate_vtoc_partitions (uint (dl_unix_partition_start dl)) (uint (dl_unix_partition_size dl)) (dl_slices dl) = Inr ()"
proof -
  obtain dl where dl: "build_slice_layout disk_geometry disk_options = Inr dl" using disk_layout_exists by blast
  have "validate_geometry disk_geometry DISK_ADDRESSING_CHS = Inr ()" "total_sectors disk_geometry < 2 ^ 31" "options_ok disk_options"
    by (simp_all add: validate_geometry_def disk_geometry_def total_sectors_def umul_def options_ok_def disk_options_def)
  from slice_layout_sound [OF this dl] dl show ?thesis by blast
qed

section \<open>The bootstrap\<close>

text \<open>
  The program headers of a boot image: the loadable segments in order, as file offset, address and
  length; and the byte that a list of segments puts at an address, the last segment winning.
\<close>

definition phdrs :: "bytes \<Rightarrow> nat list" where
  "phdrs payload = (case (u32 payload 28, u16 payload 42, u16 payload 44) of
     (Some off, Some sz, Some num) \<Rightarrow> map (\<lambda>index. unat off + index * unat sz) [0..<unat num] | _ \<Rightarrow> [])"

definition segment_at :: "bytes \<Rightarrow> nat \<Rightarrow> (nat \<times> nat \<times> nat) option" where
  "segment_at payload entry =
     (case (u32 payload entry, u32 payload (entry + 4), u32 payload (entry + 12), u32 payload (entry + 16)) of
        (Some ty, Some off, Some addr, Some len) \<Rightarrow>
          if ty = PT_LOAD \<and> len \<noteq> 0 then Some (unat off, unat addr, unat len) else None
      | _ \<Rightarrow> None)"

fun covers :: "nat \<Rightarrow> (nat \<times> nat \<times> nat) option \<Rightarrow> bool" where
  "covers k (Some (off, addr, len)) \<longleftrightarrow> addr \<le> k \<and> k < addr + len"
| "covers k None \<longleftrightarrow> False"

text \<open>The last segment in the list that covers the address decides its byte; uncovered bytes are zero.\<close>

definition boot_byte :: "bytes \<Rightarrow> nat list \<Rightarrow> nat \<Rightarrow> u8" where
  "boot_byte payload entries k =
     (case find (covers k) (rev (map (segment_at payload) entries)) of
        Some (Some (off, addr, _)) \<Rightarrow> payload ! (off + (k - addr)) | _ \<Rightarrow> 0)"

definition segment_ok :: "bytes \<Rightarrow> nat \<Rightarrow> bool" where
  "segment_ok payload e \<longleftrightarrow> e + 32 \<le> length payload
     \<and> (case segment_at payload e of None \<Rightarrow> True
        | Some (off, addr, len) \<Rightarrow> addr + len \<le> BOOT_LIMIT \<and> off + len \<le> length payload)"

lemma load_segment_bad: "\<not> segment_ok payload e \<Longrightarrow> \<exists>err. load_segment payload e st = Some (Inl err)"
proof (cases "e + 32 > length payload")
  case False
  assume bad: "\<not> segment_ok payload e"
  obtain ty off addr len where r: "u32 payload e = Some ty" "u32 payload (e + 4) = Some off"
    "u32 payload (e + 12) = Some addr" "u32 payload (e + 16) = Some len"
    using u32_total [of e payload] u32_total [of "e + 4" payload] u32_total [of "e + 12" payload]
      u32_total [of "e + 16" payload] False by auto
  show ?thesis
    using bad False r by (cases st) (auto simp: load_segment_def segment_ok_def segment_at_def Let_def split: if_splits)
qed (simp add: load_segment_def split: prod.split)

lemma load_segment_good:
  assumes "segment_ok payload e" "length fl = BOOT_LIMIT"
  shows "\<exists>fl'. load_segment payload e (fl, fd) = Some (Inr (fl', fd \<or> segment_at payload e \<noteq> None)) \<and> length fl' = BOOT_LIMIT
    \<and> (\<forall>k. fl' ! k = (case segment_at payload e of
         Some (off, addr, len) \<Rightarrow> if addr \<le> k \<and> k < addr + len then payload ! (off + (k - addr)) else fl ! k
       | None \<Rightarrow> fl ! k))"
proof -
  have l: "e + 32 \<le> length payload" using assms by (simp add: segment_ok_def)
  obtain ty off addr len where r: "u32 payload e = Some ty" "u32 payload (e + 4) = Some off"
    "u32 payload (e + 12) = Some addr" "u32 payload (e + 16) = Some len"
    using u32_total [of e payload] u32_total [of "e + 4" payload] u32_total [of "e + 12" payload]
      u32_total [of "e + 16" payload] l by auto
  show ?thesis
  proof (cases "ty = 1 \<and> len \<noteq> 0")
    case True
    have sa: "segment_at payload e = Some (unat off, unat addr, unat len)" using True r by (simp add: segment_at_def)
    have b: "unat addr + unat len \<le> BOOT_LIMIT" "unat off + unat len \<le> length payload"
      using assms(1) sa by (simp_all add: segment_ok_def)
    let ?seg = "take (unat len) (drop (unat off) payload)"
    have s: "subslice payload (unat off) (unat off + unat len) = Some ?seg" "length ?seg = unat len"
      using b by (auto simp: subslice_def)
    have "load_segment payload e (fl, fd) = Some (Inr (upd fl (unat addr) ?seg, True))"
      using l True r s b assms(2) by (simp add: load_segment_def copy_at_upd)
    moreover have "\<forall>k. upd fl (unat addr) ?seg ! k =
        (if unat addr \<le> k \<and> k < unat addr + unat len then payload ! (unat off + (k - unat addr)) else fl ! k)"
      using b s(2) assms(2) by (auto simp: upd_nth)
    ultimately show ?thesis using assms(2) sa by simp
  next
    case False
    then show ?thesis using l r assms(2) by (auto simp: load_segment_def segment_at_def)
  qed
qed

lemma find_last: "find P (xs @ [y]) = (case find P xs of Some x \<Rightarrow> Some x | None \<Rightarrow> if P y then Some y else None)"
  by (induction xs) auto

lemma load_segments_bad:
  "\<exists>e \<in> set es. \<not> segment_ok payload e \<Longrightarrow> length fl = BOOT_LIMIT \<Longrightarrow> \<exists>err. load_segments payload es (fl, fd) = Some (Inl err)"
proof (induction es arbitrary: fl fd)
  case (Cons e es)
  show ?case
  proof (cases "segment_ok payload e")
    case True
    then show ?thesis using load_segment_good [OF True Cons.prems(2), of fd] Cons.IH Cons.prems(1) by fastforce
  qed (use load_segment_bad [of payload e "(fl, fd)"] in auto)
qed simp

lemma load_segments_good:
  assumes "\<forall>e \<in> set es. segment_ok payload e" "length fl = BOOT_LIMIT"
  shows "\<exists>fl'. load_segments payload es (fl, fd) = Some (Inr (fl', fd \<or> (\<exists>e \<in> set es. segment_at payload e \<noteq> None)))
    \<and> length fl' = BOOT_LIMIT
    \<and> (\<forall>k. fl' ! k = (case find (covers k) (rev (map (segment_at payload) es)) of
         Some (Some (off, addr, len)) \<Rightarrow> payload ! (off + (k - addr)) | _ \<Rightarrow> fl ! k))"
  using assms
proof (induction es arbitrary: fl fd)
  case (Cons e es)
  obtain fl1 where s: "load_segment payload e (fl, fd) = Some (Inr (fl1, fd \<or> segment_at payload e \<noteq> None))"
    "length fl1 = BOOT_LIMIT"
    and k: "\<And>k. fl1 ! k = (case segment_at payload e of
         Some (off, addr, len) \<Rightarrow> if addr \<le> k \<and> k < addr + len then payload ! (off + (k - addr)) else fl ! k
       | None \<Rightarrow> fl ! k)"
    using load_segment_good [of payload e fl fd] Cons.prems by auto
  obtain fl2 where s2: "load_segments payload es (fl1, fd \<or> segment_at payload e \<noteq> None) =
      Some (Inr (fl2, (fd \<or> segment_at payload e \<noteq> None) \<or> (\<exists>e \<in> set es. segment_at payload e \<noteq> None)))"
    "length fl2 = BOOT_LIMIT"
    and k2: "\<And>k. fl2 ! k = (case find (covers k) (rev (map (segment_at payload) es)) of
         Some (Some (off, addr, len)) \<Rightarrow> payload ! (off + (k - addr)) | _ \<Rightarrow> fl1 ! k)"
    using Cons.IH [OF _ s(2), of "fd \<or> segment_at payload e \<noteq> None"] Cons.prems(1) by auto
  have "fl2 ! k = (case find (covers k) (rev (map (segment_at payload) (e # es))) of
      Some (Some (off, addr, len)) \<Rightarrow> payload ! (off + (k - addr)) | _ \<Rightarrow> fl ! k)" for k
  proof (cases "find (covers k) (rev (map (segment_at payload) es))")
    case None
    then show ?thesis using k [of k] k2 [of k] by (cases "segment_at payload e") (auto simp: find_last)
  next
    case (Some x)
    then have "covers k x" by (auto simp: find_Some_iff)
    then have "x \<noteq> None" by (cases x) auto
    then show ?thesis using Some k2 [of k] by (auto simp: find_last)
  qed
  moreover have "load_segments payload (e # es) (fl, fd) =
      Some (Inr (fl2, fd \<or> (\<exists>e \<in> set (e # es). segment_at payload e \<noteq> None)))"
    using s(1) s2(1) by auto
  ultimately show ?case using s2(2) by blast
qed simp

definition boot_header_ok :: "bytes \<Rightarrow> bool" where
  "boot_header_ok payload \<longleftrightarrow> 52 \<le> length payload \<and> take 4 payload = [0x7F, 0x45, 0x4C, 0x46]
     \<and> payload ! 4 = 1 \<and> payload ! 5 = 1 \<and> phdrs payload \<noteq> []
     \<and> (case u16 payload 42 of Some sz \<Rightarrow> 32 \<le> unat sz | None \<Rightarrow> False)"

definition boot_image :: "bytes \<Rightarrow> bytes" where
  "boot_image payload = map (boot_byte payload (phdrs payload)) [0..<BOOT_LIMIT]"

lemma flatten_spec:
  "flatten_hdboot_bootstrap payload \<noteq> None
   \<and> (flatten_hdboot_bootstrap payload = Some (Inr out) \<longleftrightarrow>
        boot_header_ok payload \<and> list_all (segment_ok payload) (phdrs payload)
      \<and> list_ex (\<lambda>e. segment_at payload e \<noteq> None) (phdrs payload)
      \<and> boot_image payload ! 510 = 0x55 \<and> boot_image payload ! 511 = 0xAA \<and> out = boot_image payload)"
proof (cases "boot_header_ok payload")
  case False
  have "\<exists>e. flatten_hdboot_bootstrap payload = Some (Inl e)"
  proof (cases "length payload < 52")
    case l: False
    obtain off sz num where r: "u32 payload 28 = Some off" "u16 payload 42 = Some sz" "u16 payload 44 = Some num"
      using u32_total [of 28 payload] u16_total [of 42 payload] u16_total [of 44 payload] l by auto
    show ?thesis
      using False l r by (auto simp: flatten_hdboot_bootstrap_def boot_header_ok_def phdrs_def not_le unat_eq_zero)
  qed (simp add: flatten_hdboot_bootstrap_def)
  then show ?thesis using False by auto
next
  case True
  have l: "52 \<le> length payload" using True by (simp add: boot_header_ok_def)
  obtain off sz num where r: "u32 payload 28 = Some off" "u16 payload 42 = Some sz" "u16 payload 44 = Some num"
    using u32_total [of 28 payload] u16_total [of 42 payload] u16_total [of 44 payload] l by auto
  define es where "es = map (\<lambda>index. unat off + index * unat sz) [0..<unat num]"
  have es: "phdrs payload = es" using r by (simp add: phdrs_def es_def)
  have run: "flatten_hdboot_bootstrap payload =
      do { r \<leftarrow> load_segments payload es (replicate BOOT_LIMIT 0, False);
           (case r of Inl e \<Rightarrow> Some (Inl e)
            | Inr (flattened, found_load) \<Rightarrow>
                if \<not> found_load then Some (Inl NoLoadSegment) else
                do { signature \<leftarrow> subslice flattened 510 512;
                     Some (if signature \<noteq> [0x55, 0xAA] then Inl NoBootSignature else Inr flattened) }) }"
    using True r l by (auto simp: flatten_hdboot_bootstrap_def boot_header_ok_def es_def phdrs_def not_less)
  show ?thesis
  proof (cases "list_all (segment_ok payload) es")
    case False
    then obtain e where "load_segments payload es (replicate BOOT_LIMIT 0, False) = Some (Inl e)"
      using load_segments_bad [of es payload "replicate BOOT_LIMIT 0" False] by (auto simp: list_all_iff)
    then show ?thesis using False by (simp add: run es)
  next
    case ok: True
    obtain fl where fl: "load_segments payload es (replicate BOOT_LIMIT 0, False) =
        Some (Inr (fl, \<exists>e \<in> set es. segment_at payload e \<noteq> None))" "length fl = BOOT_LIMIT"
      "\<And>k. fl ! k = (case find (covers k) (rev (map (segment_at payload) es)) of
         Some (Some (off, addr, len)) \<Rightarrow> payload ! (off + (k - addr)) | _ \<Rightarrow> replicate BOOT_LIMIT 0 ! k)"
      using load_segments_good [of es payload "replicate BOOT_LIMIT 0" False] ok by (auto simp: list_all_iff)
    have "fl ! k = boot_byte payload es k" if "k < BOOT_LIMIT" for k
      using fl(3) [of k] that by (auto simp: boot_byte_def split: option.splits)
    then have f: "fl = boot_image payload"
      using fl(2) by (intro nth_equalityI) (simp_all add: boot_image_def es)
    have "subslice fl 510 512 = Some [fl ! 510, fl ! 511]"
      using fl(2) by (simp add: subslice_map_nth upt_rec)
    then show ?thesis using ok True fl(1) f by (auto simp: run es list_ex_iff)
  qed
qed

text \<open>C31: Flattening the boot image is total, and succeeds exactly on the images it should accept: a 32-bit
  little-endian ELF header with usable program headers, all of them inside the file, every loadable segment inside the
  file and below the pdinfo sector, at least one of them, and the boot signature in place. The result is then the
  memory image: each byte comes from the last loadable segment that covers its address, and is zero elsewhere.\<close>

theorem flatten_hdboot_correct:
  "flatten_hdboot_bootstrap payload \<noteq> None
   \<and> (flatten_hdboot_bootstrap payload = Some (Inr out) \<longleftrightarrow>
        boot_header_ok payload \<and> list_all (segment_ok payload) (phdrs payload)
      \<and> list_ex (\<lambda>e. segment_at payload e \<noteq> None) (phdrs payload)
      \<and> boot_image payload ! 510 = 0x55 \<and> boot_image payload ! 511 = 0xAA \<and> out = boot_image payload)"
  by (rule flatten_spec)

section \<open>Bad-block redirection\<close>

text \<open>
  Alternates that fit a set \<open>S\<close> of sectors: the entries in use are in the tables, the spare tracks lie
  outside \<open>S\<close>, and the spare sectors outside both.
\<close>

definition spare_tracks :: "alt_info \<Rightarrow> int \<Rightarrow> int set" where
  "spare_tracks a sectors =
     {alt_base_sector (ai_track_table a)..<alt_base_sector (ai_track_table a) + int (unat (alt_used (ai_track_table a))) * sectors}"

definition spare_sectors :: "alt_info \<Rightarrow> int set" where
  "spare_sectors a =
     {alt_base_sector (ai_sector_table a)..<alt_base_sector (ai_sector_table a) + int (unat (alt_used (ai_sector_table a)))}"

definition alternates_fit :: "alt_info \<Rightarrow> int \<Rightarrow> int set \<Rightarrow> bool" where
  "alternates_fit a sectors S \<longleftrightarrow>
     unat (alt_used (ai_track_table a)) \<le> length (alt_bad_entries (ai_track_table a))
   \<and> unat (alt_used (ai_sector_table a)) \<le> length (alt_bad_entries (ai_sector_table a))
   \<and> S \<subseteq> {0..} \<and> S \<inter> spare_tracks a sectors = {} \<and> (S \<union> spare_tracks a sectors) \<inter> spare_sectors a = {}"

lemma index_of_Some: "index_of v xs = Some k \<Longrightarrow> k < length xs \<and> xs ! k = v"
  by (induction xs arbitrary: k) (auto split: if_splits)

lemma remap_track_cases:
  assumes "unat (alt_used t) \<le> length (alt_bad_entries t)" "0 < n" "0 \<le> s"
  obtains "remap_track t n s = Some s"
  | k where "k < unat (alt_used t)" "alt_bad_entries t ! k = s div n"
      "remap_track t n s = Some (alt_base_sector t + int k * n + s mod n)"
proof (cases "index_of (s div n) (take (unat (alt_used t)) (alt_bad_entries t))")
  case None
  then show thesis using assms by (intro that(1)) (simp add: remap_track_def subslice_def sdiv_nonneg)
next
  case (Some k)
  then show thesis using assms index_of_Some [OF Some]
    by (intro that(2) [of k]) (auto simp: remap_track_def subslice_def sdiv_nonneg smod_nonneg)
qed

lemma remap_sector_cases:
  assumes "unat (alt_used t) \<le> length (alt_bad_entries t)"
  obtains "remap_sector t s = Some s"
  | k where "k < unat (alt_used t)" "alt_bad_entries t ! k = s" "remap_sector t s = Some (alt_base_sector t + int k)"
proof (cases "index_of s (take (unat (alt_used t)) (alt_bad_entries t))")
  case None
  then show thesis using assms by (intro that(1)) (simp add: remap_sector_def subslice_def)
next
  case (Some k)
  then show thesis using assms index_of_Some [OF Some]
    by (intro that(2) [of k]) (auto simp: remap_sector_def subslice_def)
qed

lemma track_offset_in_spare:
  assumes "k < m" "0 < n" "0 \<le> r" "r < n"
  shows "b \<le> b + int k * n + r" "b + int k * n + r < b + int m * n"
proof -
  have "(int k + 1) * n \<le> int m * n" using assms by (intro mult_right_mono) auto
  then show "b \<le> b + int k * n + r" "b + int k * n + r < b + int m * n"
    using assms by (simp_all add: algebra_simps)
qed

lemma remap_track_inj:
  assumes f: "alternates_fit a n S" and n: "0 < n" and s: "s \<in> S"
  shows "\<exists>t. remap_track (ai_track_table a) n s = Some t \<and> t \<in> S \<union> spare_tracks a n
    \<and> (\<forall>s' \<in> S. remap_track (ai_track_table a) n s' = Some t \<longrightarrow> s' = s)"
proof -
  let ?t = "ai_track_table a"
  have u: "unat (alt_used ?t) \<le> length (alt_bad_entries ?t)" and d: "S \<inter> spare_tracks a n = {}"
    and nn: "\<And>x. x \<in> S \<Longrightarrow> 0 \<le> x"
    using f by (auto simp: alternates_fit_def)
  have sp: "alt_base_sector ?t + int k * n + x mod n \<in> spare_tracks a n" if "k < unat (alt_used ?t)" for k x
    using track_offset_in_spare [OF that n, of "x mod n"] n by (simp add: spare_tracks_def)
  have uq: "k = j \<and> x mod n = y mod n" if "int k * n + x mod n = int j * n + y mod n" for k j x y
  proof -
    have "(int k * n + x mod n) div n = int k" "(int j * n + y mod n) div n = int j" using n by simp_all
    then show ?thesis using that by simp
  qed
  show ?thesis
  proof (rule remap_track_cases [OF u n nn [OF s]])
    assume r: "remap_track ?t n s = Some s"
    have "s' = s" if "s' \<in> S" "remap_track ?t n s' = Some s" for s'
      by (rule remap_track_cases [OF u n nn [OF that(1)]]) (use that d s sp in auto)
    then show ?thesis using r s by blast
  next
    fix k assume k: "k < unat (alt_used ?t)" "alt_bad_entries ?t ! k = s div n"
      and r: "remap_track ?t n s = Some (alt_base_sector ?t + int k * n + s mod n)"
    have "s' = s" if "s' \<in> S" "remap_track ?t n s' = Some (alt_base_sector ?t + int k * n + s mod n)" for s'
    proof (rule remap_track_cases [OF u n nn [OF that(1)]])
      assume "remap_track ?t n s' = Some s'"
      then show "s' = s" using that d sp [OF k(1), of s] by auto
    next
      fix j assume j: "alt_bad_entries ?t ! j = s' div n" "remap_track ?t n s' = Some (alt_base_sector ?t + int j * n + s' mod n)"
      then have "j = k \<and> s' mod n = s mod n" using uq [of j s' k s] that(2) by simp
      then show "s' = s" using j(1) k(2) by (metis div_mult_mod_eq)
    qed
    then show ?thesis using r sp [OF k(1), of s] by blast
  qed
qed

lemma remap_sector_inj:
  assumes f: "alternates_fit a n S" and x: "x \<in> S \<union> spare_tracks a n"
  shows "\<exists>t. remap_sector (ai_sector_table a) x = Some t
    \<and> (\<forall>x' \<in> S \<union> spare_tracks a n. remap_sector (ai_sector_table a) x' = Some t \<longrightarrow> x' = x)"
proof -
  let ?t = "ai_sector_table a"
  have u: "unat (alt_used ?t) \<le> length (alt_bad_entries ?t)" and d: "(S \<union> spare_tracks a n) \<inter> spare_sectors a = {}"
    using f by (auto simp: alternates_fit_def)
  have sp: "alt_base_sector ?t + int k \<in> spare_sectors a" if "k < unat (alt_used ?t)" for k
    using that unfolding spare_sectors_def atLeastLessThan_iff by linarith
  show ?thesis
  proof (rule remap_sector_cases [OF u, of x])
    assume r: "remap_sector ?t x = Some x"
    have "x' = x" if "x' \<in> S \<union> spare_tracks a n" "remap_sector ?t x' = Some x" for x'
      by (rule remap_sector_cases [OF u, of x']) (use that d x sp in auto)
    then show ?thesis using r by blast
  next
    fix k assume k: "k < unat (alt_used ?t)" "alt_bad_entries ?t ! k = x"
      and r: "remap_sector ?t x = Some (alt_base_sector ?t + int k)"
    have "x' = x" if "x' \<in> S \<union> spare_tracks a n" "remap_sector ?t x' = Some (alt_base_sector ?t + int k)" for x'
      by (rule remap_sector_cases [OF u, of x']) (use that d sp k in auto)
    then show ?thesis using r by blast
  qed
qed

text \<open>C32: Bad-block redirection never merges two sectors. When the alternates fit the sectors of a slice (spare tracks
  and spare sectors lie outside them and apart), redirection of each is defined, and two sectors are redirected to the
  same one only if they are equal.\<close>

theorem remap_injective:
  assumes "alternates_fit a (uint (pd_sectors pd)) S" "pd_sectors pd \<noteq> 0" "s \<in> S" "s' \<in> S"
  shows "remap_guest_visible_sector pd p (Some a) s \<noteq> None
    \<and> (remap_guest_visible_sector pd p (Some a) s = remap_guest_visible_sector pd p (Some a) s' \<longleftrightarrow> s = s')"
proof (cases "vp_index p = 0 \<or> vp_tag p = V_BACKUP \<or> vp_tag p = V_OTHER")
  case False
  have n: "0 < uint (pd_sectors pd)" using assms(2) by (metis uint_0_iff uint_ge_0 order_le_imp_less_or_eq)
  obtain t where t: "remap_track (ai_track_table a) (uint (pd_sectors pd)) s = Some t"
    "t \<in> S \<union> spare_tracks a (uint (pd_sectors pd))"
    and i: "\<And>x. x \<in> S \<Longrightarrow> remap_track (ai_track_table a) (uint (pd_sectors pd)) x = Some t \<Longrightarrow> x = s"
    using remap_track_inj [OF assms(1) n assms(3)] by blast
  obtain t' where t': "remap_track (ai_track_table a) (uint (pd_sectors pd)) s' = Some t'"
    "t' \<in> S \<union> spare_tracks a (uint (pd_sectors pd))"
    using remap_track_inj [OF assms(1) n assms(4)] by blast
  obtain y where y: "remap_sector (ai_sector_table a) t = Some y"
    and j: "\<And>x. x \<in> S \<union> spare_tracks a (uint (pd_sectors pd)) \<Longrightarrow> remap_sector (ai_sector_table a) x = Some y \<Longrightarrow> x = t"
    using remap_sector_inj [OF assms(1) t(2)] by blast
  have "remap_guest_visible_sector pd p (Some a) s = Some y"
    "remap_guest_visible_sector pd p (Some a) s' = remap_sector (ai_sector_table a) t'"
    using False assms(2) t(1) t'(1) y by (simp_all add: remap_guest_visible_sector_def)
  then show ?thesis using i [OF assms(4)] j [OF t'(2)] t'(1) by auto
qed (simp add: remap_guest_visible_sector_def)

definition sample_alternates :: alt_info where
  "sample_alternates = \<lparr> ai_sanity = ALT_SANITY, ai_version = ALT_VERSION,
     ai_track_table = \<lparr> alt_used = 1, alt_reserved = 1, alt_base_sector = 1000, alt_bad_entries = [3] \<rparr>,
     ai_sector_table = \<lparr> alt_used = 1, alt_reserved = 1, alt_base_sector = 2000, alt_bad_entries = [5] \<rparr> \<rparr>"

theorem remap_injective_witness:
  "remap_guest_visible_sector (skeleton_pdinfo sample_geometry 1) (slice_entry 1 2 0x200 34 68) (Some sample_alternates) 55
     \<noteq> remap_guest_visible_sector (skeleton_pdinfo sample_geometry 1) (slice_entry 1 2 0x200 34 68) (Some sample_alternates) 5"
proof -
  have "pd_sectors (skeleton_pdinfo sample_geometry 1) = 17" by (simp add: skeleton_pdinfo_def)
  moreover have "alternates_fit sample_alternates 17 {0..<1000}"
    by (auto simp: alternates_fit_def sample_alternates_def spare_tracks_def spare_sectors_def)
  ultimately show ?thesis
    using remap_injective [of sample_alternates "skeleton_pdinfo sample_geometry 1" "{0..<1000}" 55 5] by simp
qed

end
