(* ===== verification/Bfs_Correct.thy ===== *)
theory Bfs_Correct
  imports Bfs
begin

text \<open>
  Correctness of the boot file system: what \<open>bfs_format\<close> writes is what the read side finds. The
  records of one file are \<open>file_at\<close>; \<open>extents\<close> is the placement of the data that the layout loop
  produces; the final theorems compose them with the readers.
\<close>

section \<open>The written records\<close>

definition dirent_at :: "bytes \<Rightarrow> nat \<Rightarrow> u16 \<Rightarrow> u32 \<Rightarrow> u32 \<Rightarrow> u32 \<Rightarrow> u32 \<Rightarrow> bool" where
  "dirent_at img at ino s e eo ty \<longleftrightarrow>
     u16 img at = Some ino \<and> u32 img (at + 4) = Some s \<and> u32 img (at + 8) = Some e
   \<and> u32 img (at + 12) = Some eo \<and> u32 img (at + 16) = Some ty"

text \<open>Agreement of two images of one length on a range.\<close>

definition agree :: "bytes \<Rightarrow> bytes \<Rightarrow> nat \<Rightarrow> nat \<Rightarrow> bool" where
  "agree img img' a b \<longleftrightarrow> length img' = length img \<and> (\<forall>k. a \<le> k \<and> k < b \<longrightarrow> img' ! k = img ! k)"

lemma agree_subslice: "agree img img' a b \<Longrightarrow> a \<le> i \<Longrightarrow> j \<le> b \<Longrightarrow> subslice img' i j = subslice img i j"
  unfolding agree_def by (intro subslice_eqI) auto

lemma agree_u16: "agree img img' a b \<Longrightarrow> a \<le> i \<Longrightarrow> i + 2 \<le> b \<Longrightarrow> u16 img' i = u16 img i"
  using agree_subslice by (simp add: u16_subslice)

lemma agree_u32: "agree img img' a b \<Longrightarrow> a \<le> i \<Longrightarrow> i + 4 \<le> b \<Longrightarrow> u32 img' i = u32 img i"
  using agree_subslice by (simp add: u32_subslice)

lemma dirent_at_agree:
  "dirent_at img at ino s e eo ty \<Longrightarrow> agree img img' at (at + 64) \<Longrightarrow> dirent_at img' at ino s e eo ty"
  by (simp add: dirent_at_def agree_u16 agree_u32)

lemma put_dirent_spec:
  assumes "at + 64 \<le> length img"
  shows "\<exists>img'. put_dirent img at ino s e eo ty mode nlink ts = Some img' \<and> length img' = length img
    \<and> (\<forall>k. k < at \<or> at + 64 \<le> k \<longrightarrow> img' ! k = img ! k) \<and> dirent_at img' at ino s e eo ty"
proof -
  have "\<exists>img'. put_dirent img at ino s e eo ty mode nlink ts = Some img' \<and> length img' = length img
    \<and> (\<forall>k < at. img' ! k = img ! k) \<and> (\<forall>k \<ge> at + 64. img' ! k = img ! k) \<and> dirent_at img' at ino s e eo ty"
    using assms by (simp add: put_dirent_def put_vattr_def dirent_at_def upd_simps)
  then show ?thesis by auto
qed

definition file_at :: "bytes \<Rightarrow> nat \<Rightarrow> nat \<Rightarrow> bfs_layout \<Rightarrow> bool" where
  "file_at img ds i l \<longleftrightarrow>
     dirent_at img (512 + (i + 1) * 64) (lo_inode l)
       (if lo_data l = [] then 0 else of_nat (lo_start l div 512))
       (if lo_data l = [] then 0 else lo_end_block l) (if lo_data l = [] then 0 else lo_end_offset l) BFS_VREG
   \<and> u16 img (ds + i * 16) = Some (lo_inode l)
   \<and> subslice img (ds + i * 16 + 2) (ds + i * 16 + 16) = Some (lo_name l @ replicate (14 - length (lo_name l)) 0)
   \<and> (lo_data l \<noteq> [] \<longrightarrow> subslice img (lo_start l) (lo_start l + length (lo_data l)) = Some (lo_data l))"

lemma file_at_agree:
  assumes "file_at img ds i l" "agree img img' (512 + (i + 1) * 64) (512 + (i + 1) * 64 + 64)"
    "agree img img' (ds + i * 16) (ds + i * 16 + 16)"
    "lo_data l \<noteq> [] \<Longrightarrow> agree img img' (lo_start l) (lo_start l + length (lo_data l))"
  shows "file_at img' ds i l"
  using assms agree_subslice [OF assms(3), of "ds + i * 16 + 2" "ds + i * 16 + 16"]
    agree_subslice [OF assms(4), of "lo_start l" "lo_start l + length (lo_data l)"]
  by (auto simp: file_at_def dirent_at_agree agree_u16)

lemma subslice_two_updates:
  assumes "at + length xs + n \<le> length img" "m = at + length xs + n"
  shows "subslice (upd (upd img at xs) (at + length xs) (replicate n v)) at m = Some (xs @ replicate n v)"
proof -
  have "upd (upd img at xs) (at + length xs) (replicate n v) = upd img at (xs @ replicate n v)"
    using assms by (intro nth_equalityI) (auto simp: upd_nth upd_length nth_append)
  then show ?thesis using assms by (simp add: upd_subslice_same)
qed

lemma put_file_spec:
  assumes "512 + (i + 2) * 64 \<le> ds" "ds + (i + 1) * 16 \<le> area" "area \<le> length img" "length (lo_name l) \<le> 14"
    "lo_data l \<noteq> [] \<Longrightarrow> area \<le> lo_start l \<and> lo_start l + length (lo_data l) \<le> length img"
  shows "\<exists>img'. put_file ds ts img (i, l) = Some img' \<and> length img' = length img \<and> file_at img' ds i l
    \<and> (\<forall>k. (k < 512 + (i + 1) * 64 \<or> 512 + (i + 2) * 64 \<le> k) \<and> (k < ds + i * 16 \<or> ds + (i + 1) * 16 \<le> k)
         \<and> (lo_data l \<noteq> [] \<longrightarrow> k < lo_start l \<or> lo_start l + length (lo_data l) \<le> k) \<longrightarrow> img' ! k = img ! k)"
proof -
  define at where "at = 512 + (i + 1) * 64"
  define s where "s = (if lo_data l = [] then 0 else of_nat (lo_start l div 512) :: u32)"
  define e where "e = (if lo_data l = [] then 0 else lo_end_block l)"
  define eo where "eo = (if lo_data l = [] then 0 else lo_end_offset l)"
  define img0 where "img0 = (if lo_data l = [] then img else upd img (lo_start l) (lo_data l))"
  have l0: "length img0 = length img" using assms by (simp add: img0_def upd_length)
  have n0: "img0 ! k = img ! k" if "lo_data l \<noteq> [] \<longrightarrow> k < lo_start l \<or> lo_start l + length (lo_data l) \<le> k" for k
    using that assms by (auto simp: img0_def upd_nth)
  have d0: "subslice img0 (lo_start l) (lo_start l + length (lo_data l)) = Some (lo_data l)" if "lo_data l \<noteq> []"
    using that assms(5) by (simp add: img0_def upd_subslice_same)
  obtain img1 where p: "put_dirent img0 at (lo_inode l) s e eo BFS_VREG 0x1A4 1 ts = Some img1"
    and l1: "length img1 = length img" and n1: "\<And>k. k < at \<or> at + 64 \<le> k \<Longrightarrow> img1 ! k = img0 ! k"
    and r1: "dirent_at img1 at (lo_inode l) s e eo BFS_VREG"
    using put_dirent_spec [of at img0 "lo_inode l" s e eo BFS_VREG "0x1A4" 1 ts] assms l0 by (auto simp: at_def)
  define img2 where "img2 = upd img1 (ds + i * 16) (le16 (lo_inode l))"
  define img3 where "img3 = upd (upd img2 (ds + i * 16 + 2) (lo_name l)) (ds + i * 16 + 2 + length (lo_name l))
    (replicate (14 - length (lo_name l)) 0)"
  have b: "ds + i * 16 + 16 \<le> length img1" using assms l1 by simp
  have run: "put_file ds ts img (i, l) = Some img3"
    using assms p b l0 l1
    by (auto simp: put_file_def Let_def at_def img0_def s_def e_def eo_def img2_def img3_def upd_simps)
  have l3: "length img3 = length img" using assms b l1 by (simp add: img2_def img3_def upd_length)
  have n3: "img3 ! k = img1 ! k" if "k < ds + i * 16 \<or> ds + i * 16 + 16 \<le> k" for k
    using that b assms by (auto simp: img2_def img3_def upd_nth upd_length)
  have a: "agree img1 img3 at (at + 64)" "lo_data l \<noteq> [] \<Longrightarrow> agree img0 img3 (lo_start l) (lo_start l + length (lo_data l))"
    using assms n3 n1 l0 l1 l3 by (auto simp: agree_def at_def)
  have "u16 img3 (ds + i * 16) = Some (lo_inode l)"
    using b assms by (simp add: img3_def img2_def upd_simps)
  moreover have "subslice img3 (ds + i * 16 + 2) (ds + i * 16 + 16) = Some (lo_name l @ replicate (14 - length (lo_name l)) 0)"
    unfolding img3_def using b assms by (intro subslice_two_updates) (auto simp: img2_def upd_length)
  ultimately have "file_at img3 ds i l"
    using dirent_at_agree [OF r1 a(1)] agree_subslice [OF a(2)] d0
    by (auto simp: file_at_def s_def e_def eo_def at_def)
  moreover have "img3 ! k = img ! k" if "k < at \<or> at + 64 \<le> k" "k < ds + i * 16 \<or> ds + (i + 1) * 16 \<le> k"
    "lo_data l \<noteq> [] \<longrightarrow> k < lo_start l \<or> lo_start l + length (lo_data l) \<le> k" for k
    using that n0 [of k] n1 [of k] n3 [of k] by (auto simp: algebra_simps)
  ultimately show ?thesis using run l3 by (auto simp: at_def)
qed

section \<open>The layout loop\<close>

text \<open>Non-empty extents are sector-aligned, ascending from \<open>cur\<close> and inside the slice.\<close>

fun extents :: "nat \<Rightarrow> nat \<Rightarrow> bfs_layout list \<Rightarrow> bool" where
  "extents sz cur [] = True"
| "extents sz cur (l # ls) =
     (if lo_data l = [] then extents sz cur ls
      else cur \<le> lo_start l \<and> 512 dvd lo_start l \<and> lo_start l + length (lo_data l) \<le> sz
         \<and> extents sz (lo_start l + length (lo_data l)) ls)"

lemma extents_mono: "extents sz cur ls \<Longrightarrow> cur' \<le> cur \<Longrightarrow> extents sz cur' ls"
  by (induction ls) (auto split: if_splits)

lemma extents_nth:
  "extents sz cur ls \<Longrightarrow> j < length ls \<Longrightarrow> lo_data (ls ! j) \<noteq> [] \<Longrightarrow>
     cur \<le> lo_start (ls ! j) \<and> 512 dvd lo_start (ls ! j) \<and> lo_start (ls ! j) + length (lo_data (ls ! j)) \<le> sz"
proof (induction ls arbitrary: cur j)
  case (Cons l ls)
  show ?case
  proof (cases j)
    case (Suc j')
    have e: "extents sz (if lo_data l = [] then cur else lo_start l + length (lo_data l)) ls"
      using Cons.prems by (simp split: if_splits)
    show ?thesis using Cons.IH [OF e, of j'] Cons.prems Suc by (auto split: if_splits)
  qed (use Cons.prems in auto)
qed simp

lemma round_up_bounds:
  assumes "n < 2 ^ 63"
  shows "n \<le> round_up n 512" "round_up n 512 < n + 512" "512 dvd round_up n 512"
proof -
  have b: "n \<le> div_ceil n 512 * 512" "div_ceil n 512 * 512 < n + 512"
    using div_ceil_bounds [of 512 n] by simp_all
  then have "round_up n 512 = div_ceil n 512 * 512" using assms by (simp add: round_up_def umul_eq)
  then show "n \<le> round_up n 512" "round_up n 512 < n + 512" "512 dvd round_up n 512" using b by simp_all
qed

definition layout_of :: "nat \<Rightarrow> rstr \<times> bytes \<Rightarrow> bfs_layout \<Rightarrow> bool" where
  "layout_of index f l \<longleftrightarrow> lo_inode l = of_nat (index + 3) \<and> lo_name l = fst f \<and> lo_data l = snd f
     \<and> (lo_data l \<noteq> [] \<longrightarrow> lo_end_offset l = of_nat (lo_start l + length (lo_data l) - 1))"

lemma layout_files_spec:
  assumes "layout_files sz index cur files = Inr ls" "cur < 2 ^ 63" "sz < 2 ^ 63" "512 dvd cur"
    "\<forall>f \<in> set files. length (snd f) < 2 ^ 62"
  shows "extents sz cur ls \<and> list_all2 (\<lambda>(i, f) l. layout_of i f l) (enumerate index files) ls"
  using assms
proof (induction sz index cur files arbitrary: ls rule: layout_files.induct)
  case (2 sz index cur name data files)
  have d: "length data < 2 ^ 62" using "2.prems" by simp
  show ?case
  proof (cases "data = []")
    case True
    then obtain ls' where ls': "layout_files sz (index + 1) cur files = Inr ls'"
      and ls: "ls = \<lparr> lo_inode = 2 + of_nat index + 1, lo_name = name, lo_data = data, lo_start = 0,
                      lo_end_block = 0, lo_end_offset = 0 \<rparr> # ls'"
      using "2.prems"(1) by (auto split: sum.splits)
    show ?thesis using "2.IH"(1) [OF refl True ls'] "2.prems" True by (auto simp: ls layout_of_def)
  next
    case False
    let ?a = "round_up (length data) 512"
    have a: "length data \<le> ?a" "?a < length data + 512" "512 dvd ?a" using round_up_bounds [of "length data"] d by simp_all
    have u: "uadd cur ?a = cur + ?a" "uadd cur (length data) = cur + length data"
      using a d "2.prems"(2) by (simp_all add: uadd_eq)
    obtain ls' where ls': "layout_files sz (index + 1) (uadd cur ?a) files = Inr ls'" and fit: "\<not> uadd cur ?a > sz"
      and ls: "ls = \<lparr> lo_inode = 2 + of_nat index + 1, lo_name = name, lo_data = data, lo_start = cur,
                      lo_end_block = of_nat (uadd cur ?a div 512 - 1), lo_end_offset = of_nat (cur + length data - 1) \<rparr> # ls'"
      using "2.prems"(1) False by (auto simp: Let_def u split: sum.splits if_splits)
    have "extents sz (uadd cur ?a) ls' \<and> list_all2 (\<lambda>(i, f) l. layout_of i f l) (enumerate (index + 1) files) ls'"
      using "2.IH"(2) [OF refl False refl fit ls'] "2.prems" fit a by (simp add: u)
    then show ?thesis using False a fit "2.prems"(4) by (auto simp: ls layout_of_def u intro: extents_mono)
  qed
qed simp

section \<open>The write loop\<close>

lemma put_files_spec:
  assumes "extents (length img) cur ls" "area \<le> cur" "512 + (n + 1 + length ls) * 64 \<le> ds"
    "ds + (n + length ls) * 16 \<le> area" "area \<le> length img" "\<forall>l \<in> set ls. length (lo_name l) \<le> 14"
  shows "\<exists>img'. foldM (put_file ds ts) img (enumerate n ls) = Some img' \<and> length img' = length img
    \<and> (\<forall>k. (k < 512 + (n + 1) * 64 \<or> ds \<le> k) \<and> (k < ds + n * 16 \<or> area \<le> k) \<and> k < cur \<longrightarrow> img' ! k = img ! k)
    \<and> (\<forall>j < length ls. file_at img' ds (n + j) (ls ! j))"
  using assms
proof (induction ls arbitrary: img cur n)
  case (Cons l ls)
  define nxt where "nxt = (if lo_data l = [] then cur else lo_start l + length (lo_data l))"
  have x: "extents (length img) nxt ls" "cur \<le> nxt" using Cons.prems(1) by (auto simp: nxt_def split: if_splits)
  have s: "lo_data l \<noteq> [] \<Longrightarrow> cur \<le> lo_start l \<and> area \<le> lo_start l \<and> lo_start l + length (lo_data l) \<le> length img"
    using Cons.prems(1,2) by simp
  obtain img1 where p: "put_file ds ts img (n, l) = Some img1" and l1: "length img1 = length img"
    and f1: "file_at img1 ds n l"
    and n1: "\<And>k. (k < 512 + (n + 1) * 64 \<or> 512 + (n + 2) * 64 \<le> k) \<and> (k < ds + n * 16 \<or> ds + (n + 1) * 16 \<le> k)
         \<and> (lo_data l \<noteq> [] \<longrightarrow> k < lo_start l \<or> lo_start l + length (lo_data l) \<le> k) \<Longrightarrow> img1 ! k = img ! k"
    using put_file_spec [of n ds area img l ts] Cons.prems s by auto
  obtain img' where q: "foldM (put_file ds ts) img1 (enumerate (Suc n) ls) = Some img'" and l': "length img' = length img"
    and n': "\<And>k. (k < 512 + (Suc n + 1) * 64 \<or> ds \<le> k) \<and> (k < ds + Suc n * 16 \<or> area \<le> k) \<and> k < nxt \<Longrightarrow> img' ! k = img1 ! k"
    and f': "\<And>j. j < length ls \<Longrightarrow> file_at img' ds (Suc n + j) (ls ! j)"
    using Cons.IH [of img1 nxt "Suc n"] x Cons.prems l1 by auto
  have g: "area \<le> nxt" "lo_data l \<noteq> [] \<Longrightarrow> nxt = lo_start l + length (lo_data l)"
    using x(2) Cons.prems(2) by (simp_all add: nxt_def)
  have "agree img1 img' (512 + (n + 1) * 64) (512 + (n + 1) * 64 + 64)" "agree img1 img' (ds + n * 16) (ds + n * 16 + 16)"
    "lo_data l \<noteq> [] \<Longrightarrow> agree img1 img' (lo_start l) (lo_start l + length (lo_data l))"
    unfolding agree_def using Cons.prems(3,4) g s by (auto simp: l1 l' intro!: n')
  then have "file_at img' ds n l" by (rule file_at_agree [OF f1])
  then have "file_at img' ds (n + j) ((l # ls) ! j)" if "j < length (l # ls)" for j
    using that f' by (cases j) auto
  moreover have "img' ! k = img ! k"
    if "k < 512 + (n + 1) * 64 \<or> ds \<le> k" "k < ds + n * 16 \<or> area \<le> k" "k < cur" for k
  proof -
    have "lo_data l \<noteq> [] \<longrightarrow> k < lo_start l" using s that(3) by fastforce
    then show ?thesis using that n1 [of k] n' [of k] x(2) Cons.prems(3,4) by auto
  qed
  ultimately show ?case using p q l' by auto
qed simp

section \<open>The whole slice\<close>

definition super_at :: "bytes \<Rightarrow> nat \<Rightarrow> bool" where
  "super_at img ds \<longleftrightarrow> u32 img 0 = Some BFS_MAGIC \<and> u32 img 4 = Some (of_nat ds)
     \<and> u32 img 8 = Some (of_nat (length img - 1))
     \<and> (\<forall>w \<in> {12, 16, 20, 24}. u32 img w = Some 0xFFFFFFFF)"

lemma super_at_agree: "super_at img ds \<Longrightarrow> agree img img' 0 28 \<Longrightarrow> super_at img' ds"
  by (auto simp: super_at_def agree_u32) (simp_all add: agree_def)

definition root_end :: "nat \<Rightarrow> nat \<Rightarrow> nat" where
  "root_end ds n = (if n = 0 then ds - 1 else ds + n * 16 - 1)"

text \<open>What a formatted slice holds.\<close>

definition formatted :: "bytes \<Rightarrow> nat \<Rightarrow> bfs_layout list \<Rightarrow> bool" where
  "formatted img ds ls \<longleftrightarrow> super_at img ds
     \<and> (\<exists>e. dirent_at img 512 2 (of_nat (ds div 512)) e (of_nat (root_end ds (length ls))) BFS_VDIR)
     \<and> (\<forall>j < length ls. file_at img ds j (ls ! j))"

lemma put_bfs_super_spec:
  assumes "512 \<le> sz"
  shows "\<exists>img. put_bfs_super ds sz (replicate sz 0) = Some img \<and> length img = sz \<and> super_at img ds"
  using assms by (simp add: put_bfs_super_def put_sanity_words_def super_at_def upd_simps)

lemma format_slice_spec:
  assumes "extents sz area ls" "512 + (1 + length ls) * 64 \<le> ds" "ds + length ls * 16 \<le> area" "area \<le> sz"
    "\<forall>l \<in> set ls. length (lo_name l) \<le> 14" "base + sz \<le> length out" "length out < 2 ^ 63"
  shows "\<exists>img. format_slice base sz ds (length ls * 16) alloc ts ls out = Some (upd out base img)
    \<and> length img = sz \<and> formatted img ds ls"
proof -
  have u: "uadd base sz = base + sz" using assms by (simp add: uadd_eq)
  obtain i0 where i0: "put_bfs_super ds sz (replicate sz 0) = Some i0" "length i0 = sz" "super_at i0 ds"
    using put_bfs_super_spec [of sz ds] assms by auto
  define e where "e = (of_nat ((ds + alloc) div 512 - 1) :: u32)"
  define eo where "eo = (of_nat (root_end ds (length ls)) :: u32)"
  have "put_root_dirent ds (length ls * 16) alloc ts i0 =
      put_dirent i0 512 2 (of_nat (ds div 512)) e eo BFS_VDIR 0x1ED 2 ts"
    by (simp add: put_root_dirent_def Let_def e_def eo_def root_end_def)
  then obtain i1 where i1: "put_root_dirent ds (length ls * 16) alloc ts i0 = Some i1" "length i1 = sz"
    "\<And>k. k < 512 \<or> 576 \<le> k \<Longrightarrow> i1 ! k = i0 ! k" "dirent_at i1 512 2 (of_nat (ds div 512)) e eo BFS_VDIR"
    using put_dirent_spec [of 512 i0 2 "of_nat (ds div 512)" e eo BFS_VDIR "0x1ED" 2 ts] i0(2) assms(2-4) by auto
  obtain i2 where i2: "put_files ds ts ls i1 = Some i2" "length i2 = sz"
    "\<And>k. k < 576 \<Longrightarrow> i2 ! k = i1 ! k" "\<And>j. j < length ls \<Longrightarrow> file_at i2 ds j (ls ! j)"
    using put_files_spec [of i1 area ls area 0 ds ts] i1(2) assms unfolding put_files_def by auto
  have "agree i0 i2 0 28" "agree i1 i2 512 (512 + 64)" using i0 i1 i2 by (auto simp: agree_def)
  then have "formatted i2 ds ls"
    using super_at_agree [OF i0(3)] dirent_at_agree [OF i1(4)] i2(4) unfolding formatted_def eo_def by blast
  moreover have "format_slice base sz ds (length ls * 16) alloc ts ls out = Some (upd out base i2)"
    using assms i0 i1 i2 by (simp add: format_slice_def u subslice_def copy_at_upd)
  ultimately show ?thesis using i2(2) by blast
qed

section \<open>Reading it back\<close>

lemma file_size: "0 < n \<Longrightarrow> 512 dvd s \<Longrightarrow> 0 < s \<Longrightarrow> s + n \<le> 2 ^ 32 \<Longrightarrow>
    inode_size (of_nat (s div 512)) (of_nat (s + n - 1)) = n
  \<and> unat (of_nat (s div 512) :: u32) * 512 = s \<and> of_nat (s div 512) \<noteq> (0 :: u32)"
proof -
  assume a: "0 < n" "512 dvd s" "0 < s" "s + n \<le> 2 ^ 32"
  then have "0 < s div 512" by (auto elim!: dvdE)
  moreover have u: "unat (of_nat (s div 512) :: u32) = s div 512" "unat (of_nat (s + n - 1) :: u32) = s + n - 1"
    using a by (intro unat_of_nat_small(2); simp)+
  ultimately have "of_nat (s div 512) \<noteq> (0 :: u32)" by (metis neq0_conv unat_0)
  then show ?thesis using a u by (simp add: inode_size_def)
qed

text \<open>The records as the readers see them through an image that holds the slice.\<close>

text \<open>An image that holds a formatted slice of the given files at \<open>base\<close>.\<close>

definition holds_slice ::
    "bytes \<Rightarrow> nat \<Rightarrow> bytes \<Rightarrow> nat \<Rightarrow> nat \<Rightarrow> bfs_layout list \<Rightarrow> (rstr \<times> bytes) list \<Rightarrow> bool" where
  "holds_slice out base img ds area ls files \<longleftrightarrow>
     base + length img \<le> length out \<and> length out < 2 ^ 63 \<and> length img \<le> 2 ^ 32
   \<and> (\<forall>k < length img. out ! (base + k) = img ! k)
   \<and> formatted img ds ls \<and> extents (length img) area ls \<and> 512 dvd ds
   \<and> 512 + (1 + length ls) * 64 \<le> ds \<and> ds + length ls * 16 \<le> area \<and> ds < area \<and> area \<le> length img
   \<and> length ls + 2 < 2 ^ 16 \<and> length ls = length files
   \<and> (\<forall>j < length ls. layout_of j (files ! j) (ls ! j))"

definition good_names :: "(rstr \<times> bytes) list \<Rightarrow> bool" where
  "good_names files \<longleftrightarrow> (\<forall>f \<in> set files. length (fst f) \<le> 14 \<and> is_ascii (fst f) \<and> 0 \<notin> set (fst f))"

definition entry_of :: "nat \<Rightarrow> rstr \<times> bytes \<Rightarrow> bfs_entry" where
  "entry_of j f = \<lparr> be_name = fst f, be_inode = of_nat (j + 3), be_size = length (snd f) \<rparr>"

lemma holds_subslice:
  assumes "holds_slice out base img ds area ls files" "b \<le> length img"
  shows "subslice out (base + a) (base + b) = subslice img a b"
proof (cases "a \<le> b")
  case True
  have "take (b - a) (drop (base + a) out) = take (b - a) (drop a img)"
    using assms True by (intro nth_equalityI) (auto simp: holds_slice_def add.assoc)
  then show ?thesis using assms True by (simp add: subslice_def holds_slice_def)
qed (simp add: subslice_def)

lemma holds_read:
  assumes "holds_slice out base img ds area ls files"
  shows "off + 2 \<le> length img \<Longrightarrow> u16 out (base + off) = u16 img off"
    "off + 4 \<le> length img \<Longrightarrow> u32 out (base + off) = u32 img off"
  using holds_subslice [OF assms, of "off + 2" off] holds_subslice [OF assms, of "off + 4" off]
  by (simp_all add: u16_subslice u32_subslice add.assoc)

lemma holds_read_inode:
  assumes h: "holds_slice out base img ds area ls files"
    and d: "dirent_at img (512 + slot * 64) (of_nat (slot + 2)) s e eo ty"
    and b: "512 + (slot + 1) * 64 \<le> length img" "slot + 2 < 2 ^ 16" and s: "bfs_start b = base"
  shows "bfs_read_inode out b (of_nat (slot + 2)) = Some (Some (s, e, eo, ty))"
proof -
  have l: "base + length img \<le> length out" "length out < 2 ^ 63" using h by (auto simp: holds_slice_def)
  have n: "unat (of_nat (slot + 2) :: u16) = slot + 2" by (rule unat_of_nat_small(1)) (rule b(2))
  have n2: "unat (of_nat (slot + 2) - 2 :: u16) = slot"
    using unat_of_nat_small(1) [of slot] b(2) by (simp add: add.commute)
  have nl: "\<not> of_nat (slot + 2) < (2 :: u16)" unfolding word_less_nat_alt n by simp
  have u: "uadd base (512 + slot * 64) = base + (512 + slot * 64)"
    "uadd (base + (512 + slot * 64)) 64 = base + (512 + slot * 64) + 64" using l b by (simp_all add: uadd_eq)
  have fit: "\<not> length out < base + (512 + slot * 64) + 64" using l b by simp
  show ?thesis
    unfolding bfs_read_inode_def Let_def n2 s u if_not_P [OF nl] if_not_P [OF fit]
    using d b holds_read [OF h] by (simp add: dirent_at_def add.assoc)
qed

lemma holds_root:
  assumes h: "holds_slice out base img ds area ls files" and s: "bfs_start b = base"
  obtains e where "bfs_read_inode out b 2 = Some (Some (of_nat (ds div 512), e, of_nat (root_end ds (length ls)), BFS_VDIR))"
proof -
  obtain e where "dirent_at img (512 + 0 * 64) (of_nat (0 + 2)) (of_nat (ds div 512)) e (of_nat (root_end ds (length ls))) BFS_VDIR"
    using h by (auto simp: holds_slice_def formatted_def)
  from holds_read_inode [OF h this _ _ s] h show thesis by (auto simp: holds_slice_def intro: that)
qed

lemma holds_file:
  assumes h: "holds_slice out base img ds area ls files" and s: "bfs_start b = base" and j: "j < length files"
  obtains st e eo where "bfs_read_inode out b (of_nat (j + 3)) = Some (Some (st, e, eo, BFS_VREG))"
    "inode_size st eo = length (snd (files ! j))"
    "base + unat st * 512 + length (snd (files ! j)) \<le> length out"
    "subslice out (base + unat st * 512) (base + unat st * 512 + length (snd (files ! j))) = Some (snd (files ! j))"
proof -
  define l where "l = ls ! j"
  have j': "j < length ls" using h j by (simp add: holds_slice_def)
  then have f: "file_at img ds j l" and lo: "layout_of j (files ! j) l" and x: "extents (length img) area ls"
    using h by (auto simp: holds_slice_def formatted_def l_def)
  let ?st = "if lo_data l = [] then 0 else of_nat (lo_start l div 512) :: u32"
  let ?eo = "if lo_data l = [] then 0 else lo_end_offset l"
  have ino: "lo_inode l = of_nat (j + 1 + 2)" using lo by (simp add: layout_of_def add.commute)
  have d: "dirent_at img (512 + (j + 1) * 64) (of_nat (j + 1 + 2)) ?st (if lo_data l = [] then 0 else lo_end_block l) ?eo BFS_VREG"
    using f unfolding file_at_def ino by blast
  have "bfs_read_inode out b (of_nat (j + 1 + 2)) = Some (Some (?st, (if lo_data l = [] then 0 else lo_end_block l), ?eo, BFS_VREG))"
    using h j' by (intro holds_read_inode [OF h d _ _ s]) (auto simp: holds_slice_def)
  moreover have "inode_size ?st ?eo = length (snd (files ! j)) \<and> base + unat ?st * 512 + length (snd (files ! j)) \<le> length out
    \<and> subslice out (base + unat ?st * 512) (base + unat ?st * 512 + length (snd (files ! j))) = Some (snd (files ! j))"
  proof (cases "lo_data l = []")
    case True
    then show ?thesis using lo h by (auto simp: inode_size_def layout_of_def subslice_def holds_slice_def)
  next
    case False
    have e: "area \<le> lo_start l" "512 dvd lo_start l" "lo_start l + length (lo_data l) \<le> length img"
      using extents_nth [OF x j'] False by (auto simp: l_def)
    have p: "0 < lo_start l" using e(1) h by (auto simp: holds_slice_def)
    have z: "inode_size ?st ?eo = length (lo_data l)" "unat ?st * 512 = lo_start l"
      using file_size [of "length (lo_data l)" "lo_start l"] False e p lo h
      by (auto simp: holds_slice_def layout_of_def)
    show ?thesis
      using holds_subslice [OF h e(3), of "lo_start l"] f False lo e(3) h
      unfolding z by (auto simp: file_at_def layout_of_def add.assoc holds_slice_def)
  qed
  moreover have "j + 1 + 2 = j + 3" by simp
  ultimately show thesis by (metis that)
qed

lemma takeWhile_padded: "0 \<notin> set name \<Longrightarrow> takeWhile (\<lambda>c. c \<noteq> 0) (name @ replicate n (0 :: u8)) = name"
  by (induction name) (auto simp: takeWhile_eq_Nil_iff)

lemma holds_dir_entry:
  assumes h: "holds_slice out base img ds area ls files" and s: "bfs_start b = base" and j: "j < length files"
    and g: "good_names files"
  shows "bfs_dir_entry out b (base + ds + j * 16) = Some (Some (entry_of j (files ! j)))"
proof -
  define l where "l = ls ! j"
  have j': "j < length ls" using h j by (simp add: holds_slice_def)
  then have f: "file_at img ds j l" and lo: "layout_of j (files ! j) l"
    using h by (auto simp: holds_slice_def formatted_def l_def)
  have b: "ds + j * 16 + 16 \<le> length img" using h j' by (auto simp: holds_slice_def)
  have e: "base + ds + j * 16 = base + (ds + j * 16)" by simp
  have i: "u16 out (base + ds + j * 16) = Some (of_nat (j + 3))"
    unfolding e using holds_read(1) [OF h, of "ds + j * 16"] b f lo by (simp add: file_at_def layout_of_def)
  have r: "subslice out (base + ds + j * 16 + 2) (base + ds + j * 16 + 16) =
      Some (fst (files ! j) @ replicate (14 - length (fst (files ! j))) 0)"
    using holds_subslice [OF h b, of "ds + j * 16 + 2"] f lo by (simp add: file_at_def layout_of_def add.assoc)
  have nz: "of_nat (j + 3) \<noteq> (0 :: u16)"
    using unat_of_nat_small(1) [of "j + 3"] h j' by (auto simp: holds_slice_def simp del: of_nat_add)
  have nm: "utf8_lossy (takeWhile (\<lambda>c. c \<noteq> 0) (fst (files ! j) @ replicate (14 - length (fst (files ! j))) 0)) = fst (files ! j)"
    using g j by (subst takeWhile_padded) (auto simp: good_names_def utf8_lossy_ascii)
  obtain st e eo where "bfs_read_inode out b (of_nat (j + 3)) = Some (Some (st, e, eo, BFS_VREG))"
    "inode_size st eo = length (snd (files ! j))"
    using holds_file [OF h s j] .
  then show ?thesis unfolding bfs_dir_entry_def i r using nz nm by (simp add: r entry_of_def del: of_nat_add)
qed

lemma holds_scan:
  assumes h: "holds_slice out base img ds area ls files" and s: "bfs_start b = base" and g: "good_names files"
    and j: "j \<le> length files"
  shows "bfs_scan_root out b (base + ds) (length files * 16) (j * 16) =
    Some (map (\<lambda>j. entry_of j (files ! j)) [j..<length files])"
  using j
proof (induction "length files - j" arbitrary: j)
  case 0
  then show ?case by (subst bfs_scan_root.simps) simp
next
  case (Suc n)
  then have j: "j < length files" by simp
  have l: "base + ds + j * 16 + 16 \<le> length out" "length out < 2 ^ 63"
    using h j by (auto simp: holds_slice_def)
  then have u: "uadd (base + ds) (j * 16) = base + ds + j * 16" "uadd (base + ds + j * 16) 16 = base + ds + j * 16 + 16"
    by (simp_all add: uadd_eq)
  have "bfs_scan_root out b (base + ds) (length files * 16) (Suc j * 16) =
      Some (map (\<lambda>j. entry_of j (files ! j)) [Suc j..<length files])"
    using Suc.hyps(1) [of "Suc j"] Suc.hyps(2) j by simp
  moreover have "j * 16 + 16 \<le> length files * 16" using j by simp
  moreover have "[j..<length files] = j # [Suc j..<length files]" using j by (simp add: upt_conv_Cons)
  ultimately show ?case
    using holds_dir_entry [OF h s j g] l(1)
    by (subst bfs_scan_root.simps) (simp add: u add.commute [of _ 16])
qed

lemma holds_list_root:
  assumes h: "holds_slice out base img ds area ls files" and s: "bfs_start b = base" and g: "good_names files"
  shows "bfs_list_root out b = Some (map (\<lambda>j. entry_of j (files ! j)) [0..<length files])"
proof -
  have c: "512 dvd ds" "576 \<le> ds" "ds + length files * 16 \<le> 2 ^ 32" "base + ds \<le> length out" "length out < 2 ^ 63"
    "length ls = length files"
    using h by (auto simp: holds_slice_def)
  obtain e where r: "bfs_read_inode out b 2 = Some (Some (of_nat (ds div 512), e, of_nat (root_end ds (length files)), BFS_VDIR))"
    using holds_root [OF h s] c(6) by metis
  have "0 < ds div 512" using c by (auto elim!: dvdE)
  have z: "inode_size (of_nat (ds div 512)) (of_nat (root_end ds (length files))) = length files * 16
      \<and> unat (of_nat (ds div 512) :: u32) * 512 = ds"
  proof (cases "length files = 0")
    case True
    have "unat (of_nat (ds div 512) :: u32) = ds div 512" "unat (of_nat (ds - 1) :: u32) = ds - 1"
      by (intro unat_of_nat_small(2); use c in simp)+
    then show ?thesis using True c by (auto simp: inode_size_def root_end_def simp del: of_nat_diff)
  next
    case False
    then show ?thesis using file_size [of "length files * 16" ds] c by (simp add: root_end_def)
  qed
  have "uadd base ds = base + ds" using c by (simp add: uadd_eq)
  then show ?thesis using holds_scan [OF h s g, of 0] z by (simp add: bfs_list_root_def r s)
qed

lemma find_nth_unique:
  assumes "j < length xs" "P (xs ! j)" "\<And>i. i < j \<Longrightarrow> \<not> P (xs ! i)"
  shows "find P xs = Some (xs ! j)"
  using assms by (force simp: find_Some_iff)

lemma holds_read_file:
  assumes h: "holds_slice out base img ds area ls files" and s: "bfs_start b = base" and g: "good_names files"
    and d: "distinct (map fst files)" and f: "(name, data) \<in> set files"
  shows "bfs_read_file out b name = Some (Some data)"
proof -
  obtain j where j: "j < length files" "files ! j = (name, data)" using f by (metis in_set_conv_nth)
  let ?es = "map (\<lambda>j. entry_of j (files ! j)) [0..<length files]"
  have "find (\<lambda>e. be_name e = name) ?es = Some (?es ! j)"
  proof (rule find_nth_unique)
    fix i assume i: "i < j"
    have "fst (files ! i) \<noteq> name" using d i j nth_eq_iff_index_eq [of "map fst files" i j] by auto
    then show "be_name (?es ! i) \<noteq> name" using i j by (simp add: entry_of_def)
  qed (use j in \<open>auto simp: entry_of_def\<close>)
  then have fd: "find (\<lambda>e. be_name e = name) ?es = Some (entry_of j (files ! j))" using j by simp
  obtain st e eo where r: "bfs_read_inode out b (of_nat (j + 3)) = Some (Some (st, e, eo, BFS_VREG))"
    "inode_size st eo = length (snd (files ! j))" "base + unat st * 512 + length (snd (files ! j)) \<le> length out"
    "subslice out (base + unat st * 512) (base + unat st * 512 + length (snd (files ! j))) = Some (snd (files ! j))"
    using holds_file [OF h s j(1)] .
  have "length out < 2 ^ 63" using h by (simp add: holds_slice_def)
  then have u: "uadd base (unat st * 512) = base + unat st * 512"
    "uadd (base + unat st * 512) (length data) = base + unat st * 512 + length data"
    using r(3) j(2) by (simp_all add: uadd_eq)
  show ?thesis
    using r(1,2,3,4) u fd j(2) by (simp add: bfs_read_file_def holds_list_root [OF h s g] entry_of_def s del: of_nat_add)
qed

lemma holds_detect:
  assumes h: "holds_slice out base img ds area ls files"
  shows "bfs_detect_at_start out base = Some (Some \<lparr> bfs_start = base, bfs_data_start = ds, bfs_data_end = length img - 1 \<rparr>)"
proof -
  have c: "base + length img \<le> length out" "length out < 2 ^ 63" "576 \<le> ds" "ds < length img" "length img \<le> 2 ^ 32"
    using h by (auto simp: holds_slice_def)
  have s: "super_at img ds" using h by (simp add: holds_slice_def formatted_def)
  have w: "unat (of_nat ds :: u32) = ds" "unat (of_nat (length img - 1) :: u32) = length img - 1"
    by (intro unat_of_nat_small(2); use c in simp)+
  have o: "u32 out base = Some BFS_MAGIC" "u32 out (base + 4) = Some (of_nat ds)"
    "u32 out (base + 8) = Some (of_nat (length img - 1))"
    using s c holds_read(2) [OF h, of 0] holds_read(2) [OF h, of 4] holds_read(2) [OF h, of 8]
    by (simp_all add: super_at_def del: of_nat_diff)
  have "uadd base 512 = base + 512" using c by (simp add: uadd_eq)
  then show ?thesis
    unfolding bfs_detect_at_start_def o using c w by (simp add: o word_less_nat_alt del: of_nat_diff)
qed

lemma holds_sanity:
  assumes h: "holds_slice out base img ds area ls files" and w: "w \<in> {12, 16, 20, 24}"
  shows "u32 out (base + w) = Some 0xFFFFFFFF"
proof -
  have "super_at img ds" "w + 4 \<le> length img" using h w by (auto simp: holds_slice_def formatted_def)
  then show ?thesis using holds_read(2) [OF h, of w] w by (auto simp: super_at_def)
qed

section \<open>Formatting and reading back\<close>

lemma check_names_spec:
  "check_names seen files = Inr () \<Longrightarrow>
     distinct (map fst files) \<and> set (map fst files) \<inter> set seen = {}
   \<and> (\<forall>f \<in> set files. length (fst f) \<le> 14 \<and> is_ascii (fst f))"
  by (induction seen files rule: check_names.induct) (auto split: if_splits)

lemma table_size:
  assumes "total_slots n slots < 2 ^ 50"
  shows "512 + (1 + n) * 64 \<le> round_up (uadd 512 (umul (total_slots n slots) 64)) 512
    \<and> 512 dvd round_up (uadd 512 (umul (total_slots n slots) 64)) 512
    \<and> round_up (uadd 512 (umul (total_slots n slots) 64)) 512 < 2 ^ 57"
proof -
  have "umul (total_slots n slots) 64 = total_slots n slots * 64" using assms by (simp add: umul_eq)
  moreover have "n + 1 \<le> total_slots n slots" by (simp add: total_slots_def)
  ultimately show ?thesis
    using assms round_up_bounds [of "512 + total_slots n slots * 64"] by (simp add: uadd_eq)
qed

lemma layout_holds:
  assumes fit: "base + sz \<le> length out" "length out < 2 ^ 63" "sz \<le> 2 ^ 32"
    and files: "length files + 2 < 2 ^ 16" "\<forall>f \<in> set files. length (snd f) < 2 ^ 62"
    and ds: "512 + (1 + length files) * 64 \<le> ds" "512 dvd ds"
    and al: "length files * 16 \<le> alloc" "512 dvd alloc" "512 \<le> alloc" "ds + alloc \<le> sz"
    and nm: "check_names [] files = Inr ()" and ls: "layout_files sz 0 (ds + alloc) files = Inr ls"
  shows "\<exists>img. format_slice base sz ds (length files * 16) alloc ts ls out = Some (upd out base img) \<and> length img = sz
    \<and> holds_slice (upd out base img) base img ds (ds + alloc) ls files"
proof -
  have x: "extents sz (ds + alloc) ls" and al2: "list_all2 (\<lambda>(i, f) l. layout_of i f l) (enumerate 0 files) ls"
    using layout_files_spec [OF ls] ds al fit files by auto
  have n: "length ls = length files" using list_all2_lengthD [OF al2] by simp
  have lo: "layout_of j (files ! j) (ls ! j)" if "j < length ls" for j
    using list_all2_nthD [OF al2, of j] that n by (simp add: nth_enumerate_eq)
  have nms: "\<forall>l \<in> set ls. length (lo_name l) \<le> 14"
  proof
    fix l assume "l \<in> set ls"
    then obtain j where j: "j < length ls" "ls ! j = l" by (metis in_set_conv_nth)
    have "files ! j \<in> set files" using j n by simp
    then show "length (lo_name l) \<le> 14" using check_names_spec [OF nm] lo [OF j(1)] j(2) unfolding layout_of_def by metis
  qed
  obtain img where img: "format_slice base sz ds (length ls * 16) alloc ts ls out = Some (upd out base img)"
    "length img = sz" "formatted img ds ls"
    using format_slice_spec [of sz "ds + alloc" ls ds base out alloc ts] x ds al n nms fit by auto
  have "holds_slice (upd out base img) base img ds (ds + alloc) ls files"
    unfolding holds_slice_def using fit files(1) img x ds al n lo by (auto simp: upd_nth)
  then show ?thesis using img n by auto
qed

lemma bfs_format_spec:
  assumes fit: "base + sz \<le> length out" "length out < 2 ^ 63" "sz \<le> 2 ^ 32"
    and files: "length files + 2 < 2 ^ 16" "\<forall>f \<in> set files. length (snd f) < 2 ^ 62"
    and slots: "total_slots (length files) slots < 2 ^ 50"
  shows "(\<exists>e. bfs_format base sz files slots ts out = Some (Inl e, out))
    \<or> (\<exists>img ds area ls. bfs_format base sz files slots ts out = Some (Inr (), upd out base img) \<and> length img = sz
         \<and> holds_slice (upd out base img) base img ds area ls files \<and> check_names [] files = Inr ())"
proof -
  define ds where "ds = round_up (uadd 512 (umul (total_slots (length files) slots) 64)) 512"
  define alloc where "alloc = max 512 (round_up (max (length files * 16) 1) 512)"
  have ds: "512 + (1 + length files) * 64 \<le> ds" "512 dvd ds" "ds < 2 ^ 57"
    using table_size [OF slots] by (simp_all add: ds_def)
  have al: "length files * 16 \<le> alloc" "512 dvd alloc" "alloc < 2 ^ 22" "512 \<le> alloc"
    using round_up_bounds [of "max (length files * 16) 1"] files(1) by (auto simp: alloc_def max_def)
  have u: "uadd ds alloc = ds + alloc" using ds al by (simp add: uadd_eq)
  have eq: "bfs_format base sz files slots ts =
      (if sz < 1024 then wfail SliceTooSmall else
       case check_names [] files of Inl e \<Rightarrow> wfail e | Inr _ \<Rightarrow>
       if uadd ds alloc > sz then wfail TableTooSmall else
       case layout_files sz 0 (uadd ds alloc) files of Inl e \<Rightarrow> wfail e
       | Inr ls \<Rightarrow> wmodify (format_slice base sz ds (length files * 16) alloc ts ls))"
    unfolding bfs_format_def Let_def ds_def alloc_def by simp
  show ?thesis
  proof (cases "sz < 1024 \<or> check_names [] files \<noteq> Inr () \<or> ds + alloc > sz
      \<or> (\<exists>e. layout_files sz 0 (ds + alloc) files = Inl e)")
    case True
    then show ?thesis unfolding eq u by (cases "check_names [] files") (auto simp: wfail_def)
  next
    case False
    then obtain ls where ls: "layout_files sz 0 (ds + alloc) files = Inr ls"
      by (cases "layout_files sz 0 (ds + alloc) files") auto
    have nm: "check_names [] files = Inr ()" "ds + alloc \<le> sz" using False by auto
    show ?thesis
      using layout_holds [OF fit files ds(1,2) al(1,2,4) nm(2,1) ls, of ts] False nm
      unfolding eq u by (auto simp: ls wmodify_def)
  qed
qed

text \<open>C28: Formatting a boot file system slice and reading it back. For a slice inside the image and files that a
  16-bit inode number and 32-bit offsets can address, formatting never panics; it changes no byte outside the slice.
  On success the slice is detected with its size, the root directory lists exactly the given files, in order, with
  their sizes, reading each name returns exactly the bytes it was given, and the four compaction words that the
  kernel checks at mount are clean. On an error the image is untouched.\<close>

theorem bfs_format_round_trip:
  assumes "base + sz \<le> length out" "length out < 2 ^ 63" "sz \<le> 2 ^ 32"
    and "length files + 2 < 2 ^ 16" "\<forall>f \<in> set files. length (snd f) < 2 ^ 62 \<and> 0 \<notin> set (fst f)"
    and "total_slots (length files) slots < 2 ^ 50"
  shows "\<exists>r out'. bfs_format base sz files slots ts out = Some (r, out') \<and> length out' = length out
    \<and> (\<forall>k. k < base \<or> base + sz \<le> k \<longrightarrow> out' ! k = out ! k)
    \<and> (case r of Inl e \<Rightarrow> out' = out
       | Inr _ \<Rightarrow> (\<forall>w \<in> {12, 16, 20, 24}. u32 out' (base + w) = Some 0xFFFFFFFF)
           \<and> (\<exists>b. bfs_detect_at_start out' base = Some (Some b) \<and> bfs_data_end b = sz - 1
           \<and> bfs_list_root out' b = Some (map (\<lambda>j. \<lparr> be_name = fst (files ! j), be_inode = of_nat (j + 3),
                be_size = length (snd (files ! j)) \<rparr>) [0..<length files])
           \<and> (\<forall>name data. (name, data) \<in> set files \<longrightarrow> bfs_read_file out' b name = Some (Some data))))"
proof -
  have f2: "\<forall>f \<in> set files. length (snd f) < 2 ^ 62" using assms(5) by blast
  from bfs_format_spec [OF assms(1-4) f2 assms(6), of ts] show ?thesis
  proof (elim disjE exE conjE)
    fix img ds area ls
    assume r: "bfs_format base sz files slots ts out = Some (Inr (), upd out base img)" "length img = sz"
      and h: "holds_slice (upd out base img) base img ds area ls files" and nm: "check_names [] files = Inr ()"
    let ?b = "\<lparr> bfs_start = base, bfs_data_start = ds, bfs_data_end = length img - 1 \<rparr>"
    have g: "good_names files" using check_names_spec [OF nm] assms(5) by (auto simp: good_names_def)
    have "bfs_list_root (upd out base img) ?b = Some (map (\<lambda>j. \<lparr> be_name = fst (files ! j), be_inode = of_nat (j + 3),
                be_size = length (snd (files ! j)) \<rparr>) [0..<length files])"
      using holds_list_root [OF h _ g, of ?b] by (simp add: entry_of_def)
    moreover have "\<forall>name data. (name, data) \<in> set files \<longrightarrow> bfs_read_file (upd out base img) ?b name = Some (Some data)"
      using holds_read_file [OF h _ g, of ?b] check_names_spec [OF nm] by auto
    ultimately have "\<exists>b. bfs_detect_at_start (upd out base img) base = Some (Some b) \<and> bfs_data_end b = sz - 1
           \<and> bfs_list_root (upd out base img) b = Some (map (\<lambda>j. \<lparr> be_name = fst (files ! j), be_inode = of_nat (j + 3),
                be_size = length (snd (files ! j)) \<rparr>) [0..<length files])
           \<and> (\<forall>name data. (name, data) \<in> set files \<longrightarrow> bfs_read_file (upd out base img) b name = Some (Some data))"
      using holds_detect [OF h] r(2) by (intro exI [of _ ?b]) simp
    then show ?thesis using r assms(1) holds_sanity [OF h] by (auto simp: upd_nth)
  qed auto
qed

theorem bfs_format_round_trip_witness:
  "\<exists>out' b. bfs_format 1 2560 [([0x75, 0x6E, 0x69, 0x78], [1, 2, 3]), ([0x65], [])] None 0 (replicate 2600 7) = Some (Inr (), out')
    \<and> bfs_detect_at_start out' 1 = Some (Some b)
    \<and> bfs_read_file out' b [0x75, 0x6E, 0x69, 0x78] = Some (Some [1, 2, 3]) \<and> bfs_read_file out' b [0x65] = Some (Some [])"
proof -
  let ?fs = "[([0x75, 0x6E, 0x69, 0x78], [1, 2, 3]), ([0x65], [])] :: (rstr \<times> bytes) list"
  have ok: "\<not> (\<exists>e. bfs_format 1 2560 ?fs None 0 (replicate 2600 7) = Some (Inl e, replicate 2600 7))"
    by (simp add: bfs_format_def is_ascii_def total_slots_def round_up_def umul_def uadd_def div_ceil_def Let_def
        wmodify_def split: option.splits)
  note t = bfs_format_round_trip [of 1 2560 "replicate 2600 7" ?fs None 0]
  from t obtain r out' where r: "bfs_format 1 2560 ?fs None 0 (replicate 2600 7) = Some (r, out')"
    by (auto simp: total_slots_def)
  then show ?thesis using t ok by (cases r) (auto simp: total_slots_def)
qed

end
