(* ===== verification/Disk_Image_Cli.thy ===== *)
theory Disk_Image_Cli
  imports Rust_Text Detectors Disk_Create Format
begin

text \<open>
  The disk tool, \<^verbatim>\<open>bins/svr4-disk-image/src/main.rs\<close>: each subcommand as a function of its parsed
  arguments and of the image file. A command returns the text it prints; it changes the image file
  even when it fails, as the memory map it writes through does. The host file system that
  \<^verbatim>\<open>format-bfs\<close> and \<^verbatim>\<open>install-boot\<close> read is a parameter. Left out are the command-line parser, the JSON
  output of \<^verbatim>\<open>inspect\<close> and \<^verbatim>\<open>trace-sector\<close>, and failures of the operating system on the image file.
\<close>

section \<open>Data\<close>

datatype cli_error =
    InvalidInteger rstr
  | BadSliceDefinition rstr
  | CliIo io_error
  | CliSelect select_error
  | CliBuild build_error
  | CliBfs bfs_error
  | CliFormat format_error
  | CliBoot boot_error
  | ZeroLengthSlice rstr
  | CannotReadDirectory rstr rstr
  | ReadingDirectory rstr rstr
  | NonUtf8Name rstr
  | CannotStat bytes rstr
  | StandIsFlat bytes
  | StandSymlink bytes
  | StandUnsupported bytes
  | CannotReadEntry bytes rstr
  | BadFileSpec rstr
  | CannotRead rstr rstr
  | NoActiveUnixPartition
  | NoPdinfo
  | ImageTooSmall

text \<open>
  What the tool sees of the host: a directory listing (\<^verbatim>\<open>read_dir\<close>, each step of which may fail), the
  kind of an entry (\<^verbatim>\<open>symlink_metadata\<close>) and the bytes of a file. Failures carry the message of the
  operating system.
\<close>

datatype host_kind = HostDirectory | HostSymlink | HostRegular "rstr + bytes" | HostOther

record host_entry =
  he_name :: bytes
  he_kind :: "rstr + host_kind"

record host =
  host_read_dir :: "rstr \<Rightarrow> rstr + (rstr + host_entry) list"
  host_read :: "rstr \<Rightarrow> rstr + bytes"
  host_cwd :: "rstr option"

record create_skeleton_args =
  cs_output :: rstr
  cs_size :: "nat option"
  cs_cylinders :: "u32 option"
  cs_heads :: u32
  cs_sectors :: u32
  cs_unix_partition_start :: u32
  cs_unix_partition_size :: "u32 option"
  cs_disk_addressing :: rstr
  cs_volume :: rstr
  cs_slices :: "rstr list"

record create_layout_args =
  cl_output :: rstr
  cl_size :: "nat option"
  cl_cylinders :: "u32 option"
  cl_heads :: u32
  cl_sectors :: u32
  cl_disk_addressing :: rstr
  cl_volume :: rstr
  cl_stand_start_sector :: nat
  cl_stand_size :: nat
  cl_swap_size :: nat
  cl_root_align :: nat

record format_bfs_args =
  fb_slice :: rstr
  fb_files :: "rstr list"
  fb_from_dir :: "rstr option"
  fb_timestamp :: int

record format_ufs_args =
  fu_slice :: rstr
  fu_block_size :: nat
  fu_bytes_per_inode :: nat
  fu_timestamp :: u32

section \<open>Detection\<close>

definition any_probe :: "bytes \<Rightarrow> detected_fs option option" where
  "any_probe slice_bytes =
     do { found \<leftarrow> ufs_probe slice_bytes;
          (case found of Some d \<Rightarrow> Some (Some d) | None \<Rightarrow> bfs_probe slice_bytes) }"

definition any_detector :: fs_detector where
  "any_detector = \<lparr> probe = any_probe, reads_slices = True \<rparr>"

section \<open>Arguments\<close>

definition first_prefix :: "rstr list \<Rightarrow> rstr \<Rightarrow> rstr option" where
  "first_prefix ps s = (case find (\<lambda>p. strip_prefix p s \<noteq> None) ps of None \<Rightarrow> None | Some p \<Rightarrow> strip_prefix p s)"

definition parse_int_auto :: "rstr \<Rightarrow> cli_error + int" where
  "parse_int_auto value =
     (let v = trim value;
          (neg, body) = (case strip_prefix (lit ''-'') v of Some rest \<Rightarrow> (True, rest) | None \<Rightarrow> (False, v));
          parsed =
            (case first_prefix [lit ''0x'', lit ''0X''] body of
               Some hex \<Rightarrow> i64_from_str_radix 16 hex
             | None \<Rightarrow> (case first_prefix [lit ''0o'', lit ''0O''] body of
                 Some oct \<Rightarrow> i64_from_str_radix 8 oct
               | None \<Rightarrow> (case first_prefix [lit ''0b'', lit ''0B''] body of
                   Some bin \<Rightarrow> i64_from_str_radix 2 bin
                 | None \<Rightarrow> i64_from_str_radix 10 body))) in
      case parsed of
        Some n \<Rightarrow> Inr (if neg then i64 (- n) else n)
      | None \<Rightarrow> Inl (InvalidInteger value))"

definition parse_tag :: "rstr \<Rightarrow> cli_error + u16" where
  "parse_tag value =
     (let lower = to_lowercase value in
      case find (\<lambda>(_, name). name = lower) PARTITION_TAG_NAMES of
        Some (tag_number, _) \<Rightarrow> Inr tag_number
      | None \<Rightarrow> map_sum id of_int (parse_int_auto value))"

text \<open>The fields are parsed in the order index, tag, start, size, flag.\<close>

definition parse_slice_definition :: "rstr \<Rightarrow> cli_error + vtoc_partition" where
  "parse_slice_definition value =
     (case split_on 58 value of
        [p0, p1, p2, p3, p4] \<Rightarrow>
          (case parse_int_auto p0 of Inl e \<Rightarrow> Inl e | Inr index \<Rightarrow>
          (case parse_tag p1 of Inl e \<Rightarrow> Inl e | Inr tag \<Rightarrow>
          (case parse_int_auto p2 of Inl e \<Rightarrow> Inl e | Inr start_sector \<Rightarrow>
          (case parse_int_auto p3 of Inl e \<Rightarrow> Inl e | Inr sector_count \<Rightarrow>
          (case parse_int_auto p4 of Inl e \<Rightarrow> Inl e | Inr flag \<Rightarrow>
           Inr \<lparr> vp_index = of_int index, vp_tag = tag, vp_flag = of_int flag,
                 vp_start_sector = start_sector, vp_sector_count = sector_count \<rparr>)))))
      | _ \<Rightarrow> Inl (BadSliceDefinition value))"

primrec parse_slice_definitions :: "rstr list \<Rightarrow> cli_error + vtoc_partition list" where
  "parse_slice_definitions [] = Inr []"
| "parse_slice_definitions (s # ss) =
     (case parse_slice_definition s of Inl e \<Rightarrow> Inl e | Inr p \<Rightarrow>
      map_sum id ((#) p) (parse_slice_definitions ss))"

definition absolutize :: "rstr option \<Rightarrow> rstr \<Rightarrow> rstr" where
  "absolutize cwd path =
     (if path \<noteq> [] \<and> hd path = 47 then path else
      case cwd of
        Some c \<Rightarrow> if c = [] \<or> last c = 47 then c @ path else c @ 47 # path
      | None \<Rightarrow> path)"

definition resolve_geometry ::
    "nat option \<Rightarrow> u32 option \<Rightarrow> u32 \<Rightarrow> u32 \<Rightarrow> rstr \<Rightarrow> (build_error + raw_disk_geometry) option" where
  "resolve_geometry size_arg cylinders heads sectors disk_addressing =
     (case size_arg of
        Some size_mb \<Rightarrow> Some (build_geometry size_mb heads sectors disk_addressing)
      | None \<Rightarrow>
          do { c \<leftarrow> cylinders;
               Some (Inr \<lparr> geo_cylinders = c, geo_heads = heads, geo_sectors_per_track = sectors \<rparr>) })"

section \<open>Reading commands\<close>

definition inspect_command :: "rstr \<Rightarrow> bytes \<Rightarrow> (cli_error + rstr) option" where
  "inspect_command image_path file =
     map_option (map_sum CliIo format_report) (inspect_disk_image image_path any_detector file)"

definition sector_fingerprint :: "bytes \<Rightarrow> nat \<times> rstr \<times> rstr" where
  "sector_fingerprint data =
     (let preview = take (min (length data) 32) data in
      (length data, concat (map (\<lambda>b. hex_padded 2 (unat b)) preview),
       map (\<lambda>b. if 32 \<le> b \<and> b < 127 then b else 0x2E) preview))"

definition trace_sector :: "rstr \<Rightarrow> rstr \<Rightarrow> int \<Rightarrow> bytes \<Rightarrow> (cli_error + rstr) option" where
  "trace_sector image_path selector sector file =
     do { r \<leftarrow> resolve_guest_visible_sector image_path file selector sector any_detector;
          Some (case r of
             Inl e \<Rightarrow> Inl (CliSelect e)
           | Inr (absolute_sector, guest_visible_sector, data) \<Rightarrow>
               let (n, hex_preview, ascii_preview) = sector_fingerprint data in
               Inr (line (lit ''slice='' @ selector @ lit '' sector='' @ dec_int sector)
                 @ line (lit ''absolute_sector='' @ dec_int absolute_sector)
                 @ line (lit ''guest_visible_sector='' @ dec_int guest_visible_sector)
                 @ line (lit ''size='' @ dec_digits n)
                 @ line (lit ''hex_preview='' @ hex_preview)
                 @ line (lit ''ascii_preview='' @ ascii_preview))) }"

section \<open>Creating an image\<close>

definition create_skeleton :: "host \<Rightarrow> create_skeleton_args \<Rightarrow> (bytes, cli_error, rstr) wm" where
  "create_skeleton h args =
     wbind (wmap_err CliBuild (wlift (resolve_geometry (cs_size args) (cs_cylinders args) (cs_heads args)
              (cs_sectors args) (cs_disk_addressing args)))) (\<lambda>geometry.
     let disk_sectors = of_nat (total_sectors geometry) :: u32;
         unix_partition_size =
           (case cs_unix_partition_size args of
              Some n \<Rightarrow> n
            | None \<Rightarrow> if disk_sectors < cs_unix_partition_start args then 0
                      else disk_sectors - cs_unix_partition_start args) in
     wbind (wlift (Some (parse_slice_definitions (cs_slices args)))) (\<lambda>slices.
     let output = absolutize (host_cwd h) (cs_output args) in
     wbind (wmap_err CliBuild (create_raw_image_skeleton geometry (cs_unix_partition_start args)
              unix_partition_size (cs_volume args) slices None (cs_disk_addressing args))) (\<lambda>_.
     wreturn (line (lit ''Created raw disk skeleton at '' @ utf8_lossy output)))))"

definition slice_line :: "vtoc_partition \<Rightarrow> rstr" where
  "slice_line p =
     (let mib = i64 (vp_sector_count p * int SECTOR_SIZE) sdiv (1024 * 1024) in
      line (lit ''  slice '' @ pad_left 2 (dec_digits (unat (vp_index p)))
        @ lit '': tag='' @ pad_right 6 (partition_tag_name (vp_tag p))
        @ lit '' start='' @ pad_right 10 (dec_int (vp_start_sector p))
        @ lit '' size='' @ pad_right 10 (dec_int (vp_sector_count p))
        @ lit '' ('' @ dec_int mib @ lit '' MiB)''))"

definition create_layout :: "host \<Rightarrow> create_layout_args \<Rightarrow> (bytes, cli_error, rstr) wm" where
  "create_layout h args =
     wbind (wmap_err CliBuild (wlift (resolve_geometry (cl_size args) (cl_cylinders args) (cl_heads args)
              (cl_sectors args) (cl_disk_addressing args)))) (\<lambda>geometry.
     wbind (wmap_err CliBuild (wlift (Some (build_slice_layout geometry
              \<lparr> slo_stand_start_sector = cl_stand_start_sector args, slo_stand_size_mb = cl_stand_size args,
                slo_swap_size_mb = cl_swap_size args, slo_root_align_sectors = cl_root_align args \<rparr>)))) (\<lambda>layout.
     let output = absolutize (host_cwd h) (cl_output args) in
     wbind (wmap_err CliBuild (create_raw_image_skeleton geometry (dl_unix_partition_start layout)
              (dl_unix_partition_size layout) (cl_volume args) (dl_slices layout) None
              (cl_disk_addressing args))) (\<lambda>_.
     wreturn (line (lit ''Created raw disk image with standard layout at '' @ utf8_lossy output @ lit '' (''
                @ dec_digits (unat (geo_cylinders geometry)) @ lit ''/'' @ dec_digits (unat (geo_heads geometry))
                @ lit ''/'' @ dec_digits (unat (geo_sectors_per_track geometry)) @ lit '' geometry)'')
              @ concat (map slice_line (dl_slices layout))))))"

section \<open>Formatting a slice\<close>

text \<open>The slice a command works on: its byte offset and length, which must not be zero.\<close>

definition selected_slice :: "rstr \<Rightarrow> disk_image_report \<Rightarrow> cli_error + nat \<times> nat" where
  "selected_slice selector report =
     (case get_vtoc_partition_by_selector report selector of
        Inl e \<Rightarrow> Inl (CliSelect e)
      | Inr p \<Rightarrow>
          let offset = umul (nat (max (vp_start_sector p) 0)) SECTOR_SIZE;
              byte_count = umul (nat (max (vp_sector_count p) 0)) SECTOR_SIZE in
          if byte_count = 0 then Inl (ZeroLengthSlice selector) else Inr (offset, byte_count))"

definition inspect_image :: "rstr \<Rightarrow> (bytes, cli_error, disk_image_report) wm" where
  "inspect_image image_path =
     wbind (wread (inspect_disk_image image_path any_detector)) (\<lambda>r. wlift (Some (map_sum CliIo id r)))"

text \<open>The files of \<^verbatim>\<open>--from-dir\<close>: sorted by name, dot files left out, anything but a file an error.\<close>

primrec all_ok :: "('e + 'a) list \<Rightarrow> 'e + 'a list" where
  "all_ok [] = Inr []"
| "all_ok (r # rs) = (case r of Inl e \<Rightarrow> Inl e | Inr x \<Rightarrow> map_sum id ((#) x) (all_ok rs))"

primrec stand_files :: "rstr \<Rightarrow> host_entry list \<Rightarrow> cli_error + (rstr \<times> bytes) list" where
  "stand_files dir [] = Inr []"
| "stand_files dir (e # es) =
     (let name = he_name e in
      if \<not> utf8_ok name then Inl (NonUtf8Name dir)
      else if name \<noteq> [] \<and> hd name = 0x2E then stand_files dir es
      else case he_kind e of
        Inl m \<Rightarrow> Inl (CannotStat name m)
      | Inr HostDirectory \<Rightarrow> Inl (StandIsFlat name)
      | Inr HostSymlink \<Rightarrow> Inl (StandSymlink name)
      | Inr HostOther \<Rightarrow> Inl (StandUnsupported name)
      | Inr (HostRegular (Inl m)) \<Rightarrow> Inl (CannotReadEntry name m)
      | Inr (HostRegular (Inr data)) \<Rightarrow> map_sum id ((#) (name, data)) (stand_files dir es))"

definition from_dir_files :: "host \<Rightarrow> rstr option \<Rightarrow> cli_error + (rstr \<times> bytes) list" where
  "from_dir_files h from_dir =
     (case from_dir of
        None \<Rightarrow> Inr []
      | Some dir \<Rightarrow>
          (case host_read_dir h dir of
             Inl m \<Rightarrow> Inl (CannotReadDirectory dir m)
           | Inr steps \<Rightarrow>
               (case all_ok steps of
                  Inl m \<Rightarrow> Inl (ReadingDirectory dir m)
                | Inr entries \<Rightarrow> stand_files dir (sort_key he_name entries))))"

primrec spec_files :: "host \<Rightarrow> rstr list \<Rightarrow> cli_error + (rstr \<times> bytes) list" where
  "spec_files h [] = Inr []"
| "spec_files h (spec # specs) =
     (case split_once 0x3D spec of
        None \<Rightarrow> Inl (BadFileSpec spec)
      | Some (name, host_path) \<Rightarrow>
          (case host_read h host_path of
             Inl m \<Rightarrow> Inl (CannotRead host_path m)
           | Inr data \<Rightarrow> map_sum id ((#) (name, data)) (spec_files h specs)))"

definition format_bfs :: "host \<Rightarrow> rstr \<Rightarrow> format_bfs_args \<Rightarrow> (bytes, cli_error, rstr) wm" where
  "format_bfs h image_path args =
     wbind (inspect_image image_path) (\<lambda>report.
     wbind (wlift (Some (selected_slice (fb_slice args) report))) (\<lambda>(offset, byte_count).
     wbind (wlift (Some (from_dir_files h (fb_from_dir args)))) (\<lambda>from_dir.
     wbind (wlift (Some (spec_files h (fb_files args)))) (\<lambda>specs.
     let files = from_dir @ specs in
     wbind (wmap_err CliBfs (bfs_format offset byte_count files None (fb_timestamp args))) (\<lambda>_.
     wreturn (line (lit ''Formatted BFS slice '' @ 39 # fb_slice args @ 39 # lit '' (''
                @ dec_digits (length files) @ lit '' file(s)) at byte offset '' @ dec_digits offset)))))))"

definition format_ufs :: "rstr \<Rightarrow> format_ufs_args \<Rightarrow> (bytes, cli_error, rstr) wm" where
  "format_ufs image_path args =
     wbind (inspect_image image_path) (\<lambda>report.
     wbind (wlift (Some (map_sum CliSelect id (get_vtoc_partition_by_selector report (fu_slice args))))) (\<lambda>_.
     case dr_pdinfo report of None \<Rightarrow> wfail NoPdinfo | Some pd \<Rightarrow>
     wbind (wlift (Some (selected_slice (fu_slice args) report))) (\<lambda>(offset, byte_count).
     let opts = \<lparr> fo_timestamp = fu_timestamp args, fo_block_size = fu_block_size args,
                  fo_bytes_per_inode = fu_bytes_per_inode args, fo_tracks_per_cylinder = Some (pd_tracks pd),
                  fo_sectors_per_track = Some (pd_sectors pd) \<rparr> in
     wbind (wmap_err CliFormat (format offset byte_count opts)) (\<lambda>_.
     wreturn (line (lit ''Formatted UFS slice '' @ 39 # fu_slice args @ 39 # lit '' at byte offset ''
                @ dec_digits offset @ lit '' ('' @ dec_digits byte_count @ lit '' bytes)''))))))"

section \<open>Installing the boot code\<close>

definition ACTIVE_PARTITION_CHAINLOADER_MBR :: bytes where
  "ACTIVE_PARTITION_CHAINLOADER_MBR =
     [0x31, 0xC0, 0xFA, 0x8E, 0xD0, 0xBC, 0x00, 0x7C, 0x8E, 0xC0, 0x8E, 0xD8, 0xFB, 0x89, 0xE6, 0xBF,
      0x00, 0x06, 0xB9, 0x00, 0x02, 0xFC, 0xF3, 0xA4, 0xEA, 0x1D, 0x06, 0x00, 0x00, 0xB0, 0x04, 0xBE,
      0xBE, 0x07, 0x80, 0x3C, 0x80, 0x74, 0x0C, 0x83, 0xC6, 0x10, 0xFE, 0xC8, 0x75, 0xF4, 0xBE, 0xAC,
      0x06, 0xEB, 0x32, 0x89, 0xF7, 0x8B, 0x14, 0x8B, 0x4C, 0x02, 0xBD, 0x05, 0x00, 0xBB, 0x00, 0x7C,
      0xB8, 0x01, 0x02, 0xCD, 0x13, 0x73, 0x0C, 0x31, 0xC0, 0xCD, 0x13, 0x4D, 0x75, 0xEF, 0xBE, 0x94,
      0x06, 0xEB, 0x12, 0x81, 0x3E, 0xFE, 0x7D, 0x55, 0xAA, 0x75, 0x07, 0x89, 0xFE, 0xEA, 0x00, 0x7C,
      0x00, 0x00, 0xBE, 0x73, 0x06, 0xAC, 0x08, 0xC0, 0x74, 0x06, 0xB4, 0x0E, 0xCD, 0x10, 0xEB, 0xF5,
      0xFB, 0xEB, 0xFE, 0x49, 0x6E, 0x76, 0x61, 0x6C, 0x69, 0x64, 0x20, 0x70, 0x61, 0x72, 0x74, 0x69,
      0x74, 0x69, 0x6F, 0x6E, 0x20, 0x62, 0x6F, 0x6F, 0x74, 0x20, 0x73, 0x69, 0x67, 0x6E, 0x61, 0x74,
      0x75, 0x72, 0x65, 0x00, 0x45, 0x72, 0x72, 0x6F, 0x72, 0x20, 0x72, 0x65, 0x61, 0x64, 0x69, 0x6E,
      0x67, 0x20, 0x62, 0x6F, 0x6F, 0x74, 0x73, 0x74, 0x72, 0x61, 0x70, 0x00, 0x4E, 0x6F, 0x20, 0x61,
      0x63, 0x74, 0x69, 0x76, 0x65, 0x20, 0x70, 0x61, 0x72, 0x74, 0x69, 0x74, 0x69, 0x6F, 0x6E, 0x20,
      0x6F, 0x6E, 0x20, 0x68, 0x61, 0x72, 0x64, 0x20, 0x64, 0x69, 0x73, 0x6B, 0x00]"

text \<open>The chainloader is in the map before the length of the image is checked.\<close>

definition install_boot :: "host \<Rightarrow> rstr \<Rightarrow> rstr \<Rightarrow> (bytes, cli_error, rstr) wm" where
  "install_boot h image_path hdboot =
     wbind (inspect_image image_path) (\<lambda>report.
     case dr_active_unix_partition report of None \<Rightarrow> wfail NoActiveUnixPartition | Some active \<Rightarrow>
     let partition_start = unat (pe_start_lba active) in
     wbind (wlift (Some (map_sum (CannotRead hdboot) id (host_read h hdboot)))) (\<lambda>payload.
     wbind (wmap_err CliBoot (wlift (flatten_hdboot_bootstrap payload))) (\<lambda>bootstrap.
     wbind (wmodify (\<lambda>buf. copy_at buf 0 ACTIVE_PARTITION_CHAINLOADER_MBR)) (\<lambda>_.
     let offset = umul partition_start SECTOR_SIZE; fin = uadd offset (length bootstrap) in
     wbind (wread (\<lambda>buf. Some (length buf))) (\<lambda>buf_len.
     if fin > buf_len then wfail ImageTooSmall else
     wbind (wmodify (\<lambda>buf. copy_at buf offset bootstrap)) (\<lambda>_.
     wreturn (line (lit ''Installed bootloader: MBR chainloader + '' @ dec_digits (length bootstrap)
                @ lit ''-byte hdboot bootstrap at sector '' @ dec_digits partition_start))))))))"

end
