(* ===== verification/Cli_Correct.thy ===== *)
theory Cli_Correct
  imports Disk_Image_Cli Disk_Correct
begin

text \<open>
  The disk tool: installing the boot code keeps the layout of the disk, and slice definitions are
  parsed as they are written.
\<close>

section \<open>Installing the boot code\<close>

lemma chainloader_length: "length ACTIVE_PARTITION_CHAINLOADER_MBR = 205"
  by (simp add: ACTIVE_PARTITION_CHAINLOADER_MBR_def)

lemma flatten_length: "flatten_hdboot_bootstrap payload = Some (Inr boot) \<Longrightarrow> length boot = 14848"
  using flatten_spec [of payload boot] by (simp add: boot_image_def)

lemma parse_mbr_tail:
  assumes "length s = 512" "length s' = 512" "\<And>k. 446 \<le> k \<Longrightarrow> k < 512 \<Longrightarrow> s' ! k = s ! k"
  shows "parse_mbr_sector s' = parse_mbr_sector s"
proof -
  have sub: "subslice s' a b = subslice s a b" if "446 \<le> a" "b \<le> 512" for a b
    using that assms by (intro subslice_eqI) auto
  have "u16 s' 510 = u16 s 510"
    using sub [of 510 512] by (simp add: u16_subslice)
  then show ?thesis using assms(1,2) sub by (simp add: parse_mbr_sector_def Let_def upt_rec)
qed

lemma inspect_active_part:
  assumes "inspect_disk_image path det file = Some (Inr rep)"
  shows "parse_mbr_sector (take 512 file) = Some (dr_mbr rep)"
    "dr_active_unix_partition rep = find_active_unix_partition (dr_mbr rep)"
    "dr_active_unix_partition rep = Some a \<Longrightarrow>
       \<exists>pd. dr_pdinfo rep = Some pd \<and> read_pdinfo file (unat (pe_start_lba a)) = Some (Inr pd)"
  using assms
  by (auto simp: inspect_disk_image_def inspect_active_def inspect_vtoc_def read_sector_def umul_def Let_def
      split: bind_split_asm option.splits sum.splits if_splits prod.splits)

lemma take_drop_frame:
  assumes "length f' = length f" "\<And>k. lim \<le> k \<Longrightarrow> k < length f \<Longrightarrow> f' ! k = f ! k" "lim \<le> a"
  shows "take n (drop a f') = take n (drop a f)"
  using assms by (intro nth_equalityI) auto

text \<open>
  What the inspection reads of an image whose volume table does not lie below the pdinfo sector: the
  last 66 bytes of the first sector, and bytes from the pdinfo sector on.
\<close>

lemma inspect_metadata_frame:
  assumes i: "inspect_disk_image path det f = Some (Inr rep)"
    and a: "dr_active_unix_partition rep = Some a" and pd: "dr_pdinfo rep = Some pd"
    and ptr: "HDPDLOC * SECTOR_SIZE \<le> unat (pd_vtoc_ptr pd)"
    and len: "length f' = length f" and low: "\<And>k. 446 \<le> k \<Longrightarrow> k < 512 \<Longrightarrow> f' ! k = f ! k"
    and high: "\<And>k. (unat (pe_start_lba a) + HDPDLOC) * SECTOR_SIZE \<le> k \<Longrightarrow> k < length f \<Longrightarrow> f' ! k = f ! k"
  shows "inspect_disk_metadata path f' = inspect_disk_metadata path f"
proof -
  let ?st = "unat (pe_start_lba a)"
  note p = inspect_active_part [OF i]
  have l: "length (take 512 f) = 512" using p(1) by (simp add: parse_mbr_sector_def split: if_splits)
  have m: "parse_mbr_sector (take 512 f') = Some (dr_mbr rep)"
    using parse_mbr_tail [of "take 512 f" "take 512 f'"] l len low p(1) by simp
  have act: "find_active_unix_partition (dr_mbr rep) = Some a" using p(2) a by simp
  have st: "?st < 2 ^ 32" and vp: "unat (pd_vtoc_ptr pd) < 2 ^ 32" using unat_u32_bound by simp_all
  have hi: "read_sector f' s c = read_sector f s c" if "?st + 29 \<le> s" "s < 2 ^ 50" "c < 2 ^ 50" for s c
    using that take_drop_frame [OF len high] by (simp add: read_sector_eq)
  have u: "uadd ?st 29 = ?st + 29" using st by (simp add: uadd_eq)
  have r1: "read_pdinfo f' ?st = read_pdinfo f ?st"
    using hi [of "?st + 29" 1] st by (simp add: read_pdinfo_def u)
  have vs: "uadd ?st (unat (pd_vtoc_ptr pd) div 512) = ?st + unat (pd_vtoc_ptr pd) div 512"
    using st vp by (simp add: uadd_eq)
  have sp: "span_sectors (unat (pd_vtoc_ptr pd) mod 512) (unat (pd_vtoc_len pd)) < 2 ^ 50"
  proof -
    have "unat (pd_vtoc_len pd) < 65536" using unat_u16_bound [of "pd_vtoc_len pd"] by simp
    then show ?thesis by (auto simp: span_sectors_def div_ceil_def)
  qed
  have "29 \<le> unat (pd_vtoc_ptr pd) div 512" using ptr by simp
  then have r2: "read_vtoc f' ?st pd = read_vtoc f ?st pd"
    using hi [OF _ _ sp, of "?st + unat (pd_vtoc_ptr pd) div 512"] st vp by (simp add: read_vtoc_def vs)
  have pr: "probe_slices g null_detector q vt = probe_slices g' null_detector q vt" for g g' q vt
    by (simp add: probe_slices_def null_detector_def)
  obtain q where q: "dr_pdinfo rep = Some q" "read_pdinfo f ?st = Some (Inr q)" using p(3) [OF a] by blast
  have "inspect_active f' null_detector (Some a) = inspect_active f null_detector (Some a)"
    using q pd r1 r2 pr [of f' _ _ f] by (simp add: inspect_active_def inspect_vtoc_def cong: if_cong)
  then show ?thesis
    unfolding inspect_disk_metadata_def inspect_disk_image_def len using m p(1) act by (simp add: read_sector_def umul_def Let_def)
qed

text \<open>C34: Installing the boot code on an image with a sane layout. An unusable boot image changes nothing. Otherwise
  the command succeeds: it changes exactly the code of the master boot record and the boot area of the partition, and
  the inspection of the image reports the same partitions, pdinfo and volume table as before.\<close>

theorem install_boot_correct:
  assumes i: "inspect_disk_image path any_detector file = Some (Inr rep)"
    and a: "dr_active_unix_partition rep = Some a" and pd: "dr_pdinfo rep = Some pd"
    and ptr: "1 \<le> unat (pe_start_lba a)" "HDPDLOC * SECTOR_SIZE \<le> unat (pd_vtoc_ptr pd)"
    and payload: "host_read h hdboot = Inr payload"
  shows "\<exists>r file'. install_boot h path hdboot file = Some (r, file') \<and>
    (case flatten_hdboot_bootstrap payload of
       Some (Inr boot) \<Rightarrow> (\<exists>msg. r = Inr msg)
         \<and> file' = upd (upd file 0 ACTIVE_PARTITION_CHAINLOADER_MBR) (unat (pe_start_lba a) * SECTOR_SIZE) boot
         \<and> inspect_disk_metadata path file' = inspect_disk_metadata path file
     | Some (Inl e) \<Rightarrow> r = Inl (CliBoot e) \<and> file' = file
     | None \<Rightarrow> False)"
proof (cases "flatten_hdboot_bootstrap payload")
  case None
  then show ?thesis using flatten_spec [of payload] by simp
next
  case (Some res)
  let ?st = "unat (pe_start_lba a)"
  have st: "?st < 2 ^ 32" using unat_u32_bound by simp
  show ?thesis
  proof (cases res)
    case (Inl e)
    then show ?thesis
      using i a payload Some by (simp add: install_boot_def inspect_image_def wm_run Let_def)
  next
    case (Inr boot)
    have lb: "length boot = 14848" using flatten_length Some Inr by simp
    obtain q where q: "read_pdinfo file ?st = Some (Inr q)" using inspect_active_part(3) [OF i a] by blast
    have u: "uadd ?st 29 = ?st + 29" using st by (simp add: uadd_eq)
    have l: "(?st + 29) * 512 < length file"
      using q st by (auto simp: read_pdinfo_def u read_sector_eq parse_pdinfo_def split: sum.splits if_splits)
    let ?f = "upd (upd file 0 ACTIVE_PARTITION_CHAINLOADER_MBR) (?st * 512) boot"
    have o: "umul ?st 512 = ?st * 512" "uadd (?st * 512) 14848 = ?st * 512 + 14848"
      using st by (simp_all add: umul_eq uadd_eq)
    have "inspect_disk_metadata path ?f = inspect_disk_metadata path file"
      using ptr(1) lb l by (intro inspect_metadata_frame [OF i a pd ptr(2)]) (auto simp: upd_nth chainloader_length)
    then show ?thesis
      using i a payload Some Inr lb l o
      by (simp add: install_boot_def inspect_image_def copy_at_upd chainloader_length wm_run Let_def)
  qed
qed

definition sample_elf :: bytes where
  "sample_elf = [0x7F, 0x45, 0x4C, 0x46, 1, 1] @ replicate 22 0 @ le32 52 @ replicate 10 0 @ le16 32 @ le16 1 @ replicate 6 0
     @ le32 1 @ le32 84 @ le32 0 @ le32 0 @ le32 512 @ replicate 12 0 @ replicate 510 0 @ [0x55, 0xAA]"

lemma sample_elf_flattens: "flatten_hdboot_bootstrap sample_elf = Some (Inr (boot_image sample_elf))"
proof -
  have l: "length sample_elf = 596" by (simp add: sample_elf_def)
  have p: "phdrs sample_elf = [52]" by code_simp
  have s: "segment_at sample_elf 52 = Some (84, 0, 512)" by code_simp
  have h: "boot_header_ok sample_elf" by code_simp
  have b: "boot_image sample_elf ! k = sample_elf ! (84 + k)" if "k < 512" for k
    using that by (simp add: boot_image_def boot_byte_def p s)
  have e: "sample_elf ! 594 = 0x55" "sample_elf ! 595 = 0xAA" by code_simp+
  show ?thesis
    using flatten_spec [of sample_elf "boot_image sample_elf"] h p s l b [of 510] b [of 511] e by (simp add: segment_ok_def)
qed

lemma skeleton_empty_exists: "\<exists>f. skeleton_ok sample_geometry 1 135 [0x76] [] f"
proof -
  have v: "validate_unix_partition (total_sectors sample_geometry) 1 135 = Inr ()"
    by (simp add: validate_unix_partition_def uadd_def)
  obtain mbr m cs ce where mbr: "length mbr = 512" "parse_mbr_sector mbr = Some m" "mbr_signature m = 0xAA55"
    "length (mbr_partitions m) = 4" "mbr_partitions m ! 0 = active_entry 1 135 \<lparr> pe_start_chs := cs, pe_end_chs := ce \<rparr>"
    using build_mbr_parses [of sample_geometry DISK_ADDRESSING_CHS 1 135 None] v by auto
  obtain pd where pd: "length pd = 512" "parse_pdinfo pd = Some (skeleton_pdinfo sample_geometry 1)"
    using build_pdinfo_parses [of sample_geometry 1 14948 316 15360 2048] by (auto simp: skeleton_pdinfo_def)
  obtain vt where vt: "length vt = 512" "parse_vtoc vt 0 = Some (vtoc_of [0x76] [])"
    using build_vtoc_parses [of "[]" "[0x76]"] by auto
  obtain alt where alt: "length alt = 2048" "parse_alt_info alt 0 = Some empty_alt"
    using build_empty_alt_info_parses by auto
  show ?thesis by (rule exI, rule skeleton_file_ok [OF mbr pd vt alt]) simp_all
qed

lemma skeleton_empty_inspects:
  assumes "skeleton_ok g st n volume [] f"
  shows "\<exists>rep a. inspect_disk_image path det f = Some (Inr rep) \<and> dr_active_unix_partition rep = Some a
    \<and> pe_start_lba a = st \<and> dr_pdinfo rep = Some (skeleton_pdinfo g st)"
proof -
  obtain mbr cs ce where m: "parse_mbr_sector (take 512 f) = Some mbr" "mbr_signature mbr = 0xAA55"
      "find_active_unix_partition mbr = Some (active_entry st n \<lparr> pe_start_chs := cs, pe_end_chs := ce \<rparr>)"
    using assms by (auto simp: skeleton_ok_def)
  have "filter (\<lambda>p. \<not> (vp_tag p = 0 \<or> vp_sector_count p \<le> 0)) (vt_partitions (vtoc_of volume [])) = []"
    by (auto simp: vtoc_of_def slot_of_def empty_slot_def filter_empty_conv)
  then have sl: "probe_slices f det pd (vtoc_of volume []) = Some []" for pd by (simp add: probe_slices_def)
  have e: "read_sector f 0 1 = Inr (take 512 f)" by (simp add: read_sector_def umul_def)
  have a: "pe_start_lba (active_entry st n \<lparr> pe_start_chs := cs, pe_end_chs := ce \<rparr>) = st"
    by (simp add: active_entry_def)
  have "inspect_active f det (Some (active_entry st n \<lparr> pe_start_chs := cs, pe_end_chs := ce \<rparr>)) =
      Some (Inr (Some (skeleton_pdinfo g st), Some (vtoc_of volume []), [], []))"
    using assms sl a by (simp add: inspect_active_def inspect_vtoc_def skeleton_ok_def is_valid_pdinfo_def is_valid_vtoc_def)
      (simp add: skeleton_pdinfo_def vtoc_of_def)
  then show ?thesis using m e a by (simp add: inspect_disk_image_def)
qed

theorem install_boot_correct_witness:
  "\<exists>file file' msg. inspect_disk_metadata [] file' = inspect_disk_metadata [] file
     \<and> install_boot \<lparr> host_read_dir = \<lambda>_. Inl [], host_read = \<lambda>_. Inr sample_elf, host_cwd = None \<rparr> [] [0x68] file
       = Some (Inr msg, file') \<and> take 3 file' = [0x31, 0xC0, 0xFA] \<and> file' ! 1022 = 0x55"
proof -
  let ?h = "\<lparr> host_read_dir = \<lambda>_. Inl [], host_read = \<lambda>_. Inr sample_elf, host_cwd = None \<rparr> :: host"
  obtain f where f: "skeleton_ok sample_geometry 1 135 [0x76] [] f" using skeleton_empty_exists by blast
  obtain rep a where r: "inspect_disk_image [] any_detector f = Some (Inr rep)" "dr_active_unix_partition rep = Some a"
      "pe_start_lba a = 1" "dr_pdinfo rep = Some (skeleton_pdinfo sample_geometry 1)"
    using skeleton_empty_inspects [OF f] by blast
  let ?f = "upd (upd f 0 ACTIVE_PARTITION_CHAINLOADER_MBR) 512 (boot_image sample_elf)"
  have n: "length f = 69632" using f by (simp add: skeleton_ok_def)
  have l: "length (boot_image sample_elf) = 14848" by (simp add: boot_image_def)
  have "boot_image sample_elf ! 510 = 0x55" using sample_elf_flattens flatten_spec [of sample_elf "boot_image sample_elf"] by simp
  then have x: "?f ! 1022 = 0x55" using n l by (simp add: upd_nth)
  have y: "take 3 ?f = [0x31, 0xC0, 0xFA]"
    using n l by (simp add: list_eq_iff_nth_eq upd_nth chainloader_length less_Suc_eq numeral_3_eq_3)
      (simp add: ACTIVE_PARTITION_CHAINLOADER_MBR_def)
  have "\<exists>r file'. install_boot ?h [] [0x68] f = Some (r, file') \<and> (\<exists>msg. r = Inr msg) \<and> file' = ?f
      \<and> inspect_disk_metadata [] file' = inspect_disk_metadata [] f"
    using install_boot_correct [OF r(1,2,4), of ?h "[0x68]" sample_elf] r(3) sample_elf_flattens
    by (simp add: skeleton_pdinfo_def)
  then show ?thesis using x y by blast
qed

section \<open>Numbers and slice definitions\<close>

lemma accumulate_append:
  "accumulate r sg lo hi acc (xs @ ys) = accumulate r sg lo hi acc xs \<bind> (\<lambda>a. accumulate r sg lo hi a ys)"
  by (induction xs arbitrary: acc) (auto simp: Let_def split: bind_split)

declare dec_digits.simps [simp del] hex_digits.simps [simp del]

text \<open>The digits of a number, and what the parsers ask of a text: characters that are no white space.\<close>

lemma dec_digits_set: "b \<in> set (dec_digits n) \<Longrightarrow> \<exists>d < 10. b = of_nat (48 + d)"
proof (induction n rule: dec_digits.induct)
  case (1 n)
  then show ?case
    by (cases "n < 10") (auto simp: dec_digits.simps [of n] intro: exI [of _ "n mod 10"])
qed

lemma dec_digits_nonempty [simp]: "dec_digits n \<noteq> []"
  by (subst dec_digits.simps) simp

lemma digit_byte: "d < 10 \<Longrightarrow> to_digit 10 (of_nat (48 + d)) = Some d"
proof -
  assume "d < 10"
  then have "d \<in> {0..<10}" by simp
  moreover have "\<forall>d \<in> {0..<10}. to_digit 10 (of_nat (48 + d)) = Some d" by code_simp
  ultimately show ?thesis by blast
qed

lemma accumulate_dec:
  assumes "lo \<le> 0" "int n \<le> hi"
  shows "accumulate 10 1 lo hi 0 (dec_digits n) = Some (int n)"
  using assms(2)
proof (induction n rule: dec_digits.induct)
  case (1 n)
  show ?case
  proof (cases "n < 10")
    case True
    then show ?thesis using assms(1) 1(2) digit_byte [of n] by (simp add: dec_digits.simps [of n])
  next
    case False
    have h: "int (n div 10) \<le> hi" using 1(2) by simp
    have e: "int (n div 10) * 10 + int (n mod 10) = int n" by (simp add: zdiv_int zmod_int)
    show ?thesis
      using False 1(1) [OF False h] digit_byte [of "n mod 10"] 1(2) assms(1)
      by (subst dec_digits.simps) (simp add: accumulate_append e Let_def)
  qed
qed

lemma hex_byte: "d < 16 \<Longrightarrow> to_digit 16 (hex_digit d) = Some d"
proof -
  assume "d < 16"
  then have "d \<in> {0..<16}" by simp
  moreover have "\<forall>d \<in> {0..<16}. to_digit 16 (hex_digit d) = Some d" by code_simp
  ultimately show ?thesis by blast
qed

lemma accumulate_hex:
  assumes "lo \<le> 0" "int n \<le> hi"
  shows "accumulate 16 1 lo hi 0 (hex_digits n) = Some (int n)"
  using assms(2)
proof (induction n rule: hex_digits.induct)
  case (1 n)
  show ?case
  proof (cases "n < 16")
    case True
    then show ?thesis using assms(1) 1(2) hex_byte [of n] by (simp add: hex_digits.simps [of n])
  next
    case False
    have h: "int (n div 16) \<le> hi" using 1(2) by simp
    have e: "int (n div 16) * 16 + int (n mod 16) = int n" by (simp add: zdiv_int zmod_int)
    show ?thesis
      using False 1(1) [OF False h] hex_byte [of "n mod 16"] 1(2) assms(1)
      by (subst hex_digits.simps) (simp add: accumulate_append e Let_def)
  qed
qed

definition plain :: "rstr \<Rightarrow> bool" where
  "plain s \<longleftrightarrow> s \<noteq> [] \<and> prefix_length white_spaces s = 0 \<and> prefix_length (map rev white_spaces) (rev s) = 0"

lemma trim_plain: "plain s \<Longrightarrow> trim s = s"
  by (simp add: plain_def trim_def strip_front.simps)

lemma no_prefix: "hd s \<notin> hd ` set ws \<Longrightarrow> [] \<notin> set ws \<Longrightarrow> s \<noteq> [] \<Longrightarrow> prefix_length ws s = 0"
proof -
  assume a: "hd s \<notin> hd ` set ws" "[] \<notin> set ws" "s \<noteq> []"
  have "find (\<lambda>w. w \<noteq> [] \<and> take (length w) s = w) ws = None"
    using a by (auto simp: find_None_iff) (metis hd_take image_eqI length_greater_0_conv)
  then show ?thesis by (simp add: prefix_length_def)
qed

lemma plain_ascii:
  assumes "s \<noteq> []" "hd s > 32" "hd s < 0x80" "last s > 32" "last s < 0x80"
  shows "plain s"
proof -
  have w: "\<forall>w \<in> set white_spaces. w \<noteq> [] \<and> (hd w \<le> 32 \<or> 0x80 \<le> hd w) \<and> (last w \<le> 32 \<or> 0x80 \<le> last w)" by code_simp
  have "prefix_length white_spaces s = 0"
    using assms w by (intro no_prefix) (force simp: not_le)+
  moreover have "prefix_length (map rev white_spaces) (rev s) = 0"
    using assms w by (intro no_prefix) (force simp: not_le hd_rev)+
  ultimately show ?thesis using assms(1) by (simp add: plain_def)
qed

lemma strip_prefix_foreign: "b \<in> set p \<Longrightarrow> b \<notin> set s \<Longrightarrow> strip_prefix p s = None"
  by (auto simp: strip_prefix_def dest: in_set_takeD arg_cong [of _ _ set])

lemma digit_range: "b \<in> set (dec_digits n) \<Longrightarrow> 48 \<le> b \<and> b \<le> 57"
proof -
  assume "b \<in> set (dec_digits n)"
  then obtain d where "d \<in> {0..<10}" "b = of_nat (48 + d)" using dec_digits_set by force
  moreover have "\<forall>d \<in> {0..<10}. 48 \<le> (of_nat (48 + d) :: u8) \<and> (of_nat (48 + d) :: u8) \<le> 57" by code_simp
  ultimately show ?thesis by blast
qed

lemma digit_absent: "c < 48 \<or> 57 < c \<Longrightarrow> c \<notin> set (dec_digits n)"
  using digit_range [of c n] by (auto simp: not_le [symmetric])

lemma from_str_radix_plain:
  assumes "accumulate r 1 lo hi 0 s = Some v" "s \<noteq> []" "hd s \<noteq> 0x2B" "hd s \<noteq> 0x2D"
  shows "from_str_radix lo hi r s = Some v"
  using assms by (auto simp: from_str_radix_def)

lemma digits_hd: "48 \<le> hd (dec_digits n)" "hd (dec_digits n) \<le> 57" "48 \<le> last (dec_digits n)" "last (dec_digits n) \<le> 57"
  using digit_range [of "hd (dec_digits n)" n] digit_range [of "last (dec_digits n)" n] by auto

lemma i64_digits:
  "n < 2 ^ 63 \<Longrightarrow> i64_from_str_radix 10 (dec_digits n) = Some (int n)"
  unfolding i64_from_str_radix_def
  by (rule from_str_radix_plain [OF accumulate_dec]) (use digits_hd [of n] in auto)

lemma accumulate_dec_over:
  assumes "lo \<le> 0" "0 \<le> hi" "hi < int n"
  shows "accumulate 10 1 lo hi 0 (dec_digits n) = None"
  using assms(3)
proof (induction n rule: dec_digits.induct)
  case (1 n)
  show ?case
  proof (cases "n < 10")
    case True
    then show ?thesis using 1(2) digit_byte [of n] by (simp add: dec_digits.simps [of n])
  next
    case False
    have e: "int (n div 10) * 10 + int (n mod 10) = int n" by (simp add: zdiv_int zmod_int)
    show ?thesis
    proof (cases "hi < int (n div 10)")
      case True
      then show ?thesis using False 1(1) [OF False True] by (subst dec_digits.simps) (simp add: accumulate_append)
    next
      case in_range: False
      then have "accumulate 10 1 lo hi 0 (dec_digits (n div 10)) = Some (int (n div 10))"
        using assms(1) by (intro accumulate_dec) auto
      then show ?thesis
        using False digit_byte [of "n mod 10"] 1(2)
        by (subst dec_digits.simps) (simp add: accumulate_append e Let_def)
    qed
  qed
qed

lemma i64_digits_overflow: "2 ^ 63 \<le> n \<Longrightarrow> i64_from_str_radix 10 (dec_digits n) = None"
  using accumulate_dec_over [of "- (2 ^ 63)" "2 ^ 63 - 1" n] digits_hd [of n]
  by (auto simp: i64_from_str_radix_def from_str_radix_def)

lemma first_prefix_foreign: "\<forall>p \<in> set ps. \<exists>b \<in> set p. b \<notin> set s \<Longrightarrow> first_prefix ps s = None"
proof -
  assume f: "\<forall>p \<in> set ps. \<exists>b \<in> set p. b \<notin> set s"
  have "find (\<lambda>p. strip_prefix p s \<noteq> None) ps = None"
    using f strip_prefix_foreign by (fastforce simp: find_None_iff)
  then show ?thesis by (simp add: first_prefix_def)
qed

lemma prefixes_absent: "first_prefix [lit ''0x'', lit ''0X''] (dec_digits n) = None"
  "first_prefix [lit ''0o'', lit ''0O''] (dec_digits n) = None"
  "first_prefix [lit ''0b'', lit ''0B''] (dec_digits n) = None"
  by (rule first_prefix_foreign, simp add: lit_def digit_absent)+

lemma minus_absent: "strip_prefix (lit ''-'') (dec_digits n) = None"
  by (rule strip_prefix_foreign [of 45]) (simp_all add: lit_def digit_absent)

text \<open>What the number parser makes of the decimal and hexadecimal renderings, with their round trips.\<close>

lemma parse_digits:
  "parse_int_auto (dec_digits n) = (if n < 2 ^ 63 then Inr (int n) else Inl (InvalidInteger (dec_digits n)))"
proof -
  have "plain (dec_digits n)" using digits_hd [of n] by (intro plain_ascii) (auto simp: word_le_nat_alt word_less_nat_alt)
  then show ?thesis
    by (auto simp: parse_int_auto_def trim_plain minus_absent prefixes_absent i64_digits i64_digits_overflow not_less)
qed

lemma parse_negative:
  assumes "0 < n"
  shows "parse_int_auto (45 # dec_digits n) =
    (if n < 2 ^ 63 then Inr (- int n) else Inl (InvalidInteger (45 # dec_digits n)))"
proof -
  have "plain (45 # dec_digits n)"
    using digits_hd [of n] by (intro plain_ascii) (auto simp: word_le_nat_alt word_less_nat_alt)
  moreover have "i64 (- int n) = - int n" if "n < 2 ^ 63" using assms that by (intro i64_id_bounds) simp_all
  moreover have "strip_prefix (lit ''-'') (45 # dec_digits n) = Some (dec_digits n)" by (simp add: strip_prefix_def lit_def)
  ultimately show ?thesis
    by (auto simp: parse_int_auto_def trim_plain prefixes_absent i64_digits i64_digits_overflow not_less)
qed

lemma parse_dec_int:
  "in_i64 i \<Longrightarrow> parse_int_auto (dec_int i) = (if i = - (2 ^ 63) then Inl (InvalidInteger (dec_int i)) else Inr i)"
  by (auto simp: dec_int_def parse_digits parse_negative in_i64_def)

lemma split_on_step: "c \<notin> set xs \<Longrightarrow> split_on c (xs @ c # ys) = xs # split_on c ys"
  by (induction xs) auto

lemma split_on_last: "c \<notin> set xs \<Longrightarrow> split_on c xs = [xs]"
  by (induction xs) auto

lemma to_lowercase_digits: "\<forall>b \<in> set s. b < 0x41 \<Longrightarrow> to_lowercase s = s"
  by (induction s rule: to_lowercase.induct) (auto simp: word_less_nat_alt word_le_nat_alt)

lemma tag_names: "\<forall>(t, n) \<in> set PARTITION_TAG_NAMES. parse_tag n = Inr t \<and> 58 \<notin> set n \<and> (\<exists>b \<in> set n. 57 < b)"
  by code_simp

lemma parse_tag_digits: "parse_tag (dec_digits (unat t)) = Inr t"
proof -
  have l: "to_lowercase (dec_digits (unat t)) = dec_digits (unat t)"
    by (rule to_lowercase_digits) (auto dest!: digit_range simp: word_le_nat_alt word_less_nat_alt)
  have f: "find (\<lambda>(_, name). name = dec_digits (unat t)) PARTITION_TAG_NAMES = None"
    using tag_names digit_range [of _ "unat t"] by (force simp: find_None_iff not_le)
  have "unat t < 2 ^ 63" using unat_u16_bound [of t] by simp
  then show ?thesis by (simp add: parse_tag_def l f parse_digits Let_def)
qed

definition slice_text :: "rstr \<Rightarrow> vtoc_partition \<Rightarrow> rstr" where
  "slice_text tag p =
     dec_digits (unat (vp_index p)) @ 58 # tag @ 58 # dec_int (vp_start_sector p) @ 58 # dec_int (vp_sector_count p)
       @ 58 # dec_digits (unat (vp_flag p))"

lemma dec_int_colon: "58 \<notin> set (dec_int i)"
  by (simp add: dec_int_def digit_absent)

text \<open>C35: A slice definition written with its fields in decimal, the tag as a number or as one of the known names in
  lower case, is parsed back to the slice it describes, for all values of the fixed-width fields and for every start and
  length whose absolute value is below \<open>2 ^ 63\<close>.\<close>

theorem slice_definition_round_trip:
  assumes "tag = dec_digits (unat (vp_tag p)) \<or> (vp_tag p, tag) \<in> set PARTITION_TAG_NAMES"
    and "\<bar>vp_start_sector p\<bar> < 2 ^ 63" "\<bar>vp_sector_count p\<bar> < 2 ^ 63"
  shows "parse_slice_definition (slice_text tag p) = Inr p"
proof -
  have i: "in_i64 (vp_start_sector p)" "in_i64 (vp_sector_count p)" "vp_start_sector p \<noteq> - (2 ^ 63)" "vp_sector_count p \<noteq> - (2 ^ 63)"
    using assms(2,3) by (auto simp: in_i64_def)
  have t: "parse_tag tag = Inr (vp_tag p)" "58 \<notin> set tag"
    using assms(1) tag_names parse_tag_digits digit_absent [of 58] by fastforce+
  have n: "unat (vp_index p) < 2 ^ 63" "unat (vp_flag p) < 2 ^ 63"
    using unat_u32_bound [of "vp_index p"] unat_u16_bound [of "vp_flag p"] by simp_all
  have s: "split_on 58 (slice_text tag p) = [dec_digits (unat (vp_index p)), tag, dec_int (vp_start_sector p),
      dec_int (vp_sector_count p), dec_digits (unat (vp_flag p))]"
    using t(2) by (simp add: slice_text_def split_on_step split_on_last dec_int_colon digit_absent)
  show ?thesis
    using n i by (simp add: parse_slice_definition_def s t(1) parse_digits parse_dec_int)
qed

theorem slice_definition_round_trip_witness:
  "parse_slice_definition (lit ''1:root:2048:65536:512'') =
     Inr \<lparr> vp_index = 1, vp_tag = 2, vp_flag = 512, vp_start_sector = 2048, vp_sector_count = 65536 \<rparr>"
proof -
  let ?p = "\<lparr> vp_index = 1, vp_tag = 2, vp_flag = 512, vp_start_sector = 2048, vp_sector_count = 65536 \<rparr> :: vtoc_partition"
  have "slice_text (lit ''root'') ?p = lit ''1:root:2048:65536:512''"
    by (simp add: slice_text_def lit_def dec_int_def dec_digits.simps)
  moreover have "(2, lit ''root'') \<in> set PARTITION_TAG_NAMES" by code_simp
  ultimately show ?thesis
    using slice_definition_round_trip [of "lit ''root''" ?p] by simp
qed

end
