(* ===== verification/Populate.thy ===== *)
theory Populate
  imports Rust_Text Errno Namespace Summary Detectors
begin

text \<open>
  The populate tool, \<^verbatim>\<open>bins/svr4-ufs-populate/src/main.rs\<close>: copying a host directory tree into a UFS
  slice and applying a device table. The host tree is a value of a datatype with what the tool sees of
  it: the listing of a directory (each step of which may fail), the target of a symbolic link, the
  bytes and the identity of a file. Warnings on the error output are left out, as are failures of the
  operating system on the image file.
\<close>

section \<open>Data\<close>

record host_meta =
  hm_mode :: u32
  hm_uid :: u32
  hm_gid :: u32

text \<open>
  A host entry by the result of \<^verbatim>\<open>symlink_metadata\<close>; failures carry the message of the operating
  system. A file has its device, inode number and link count.
\<close>

datatype host_node =
    is_NodeDirectory: NodeDirectory host_meta "dir_step list"
  | is_NodeUnlistable: NodeUnlistable host_meta rstr
  | NodeSymlink host_meta "rstr + bytes"
  | NodeFile host_meta u64 u64 u64 "rstr + bytes"
  | NodeBlock host_meta u64
  | NodeChar host_meta u64
  | NodeOther host_meta
  | NodeStatFailed rstr
and dir_step = StepFailed rstr | StepEntry bytes host_node

datatype populate_error =
    NotDirectory
  | NoUfsAtOffset nat
  | CannotInspect io_error
  | SelectorFailed select_error
  | SliceIsNotUfs rstr int
  | NoUfsInImage
  | UfsVanished
  | CannotList rstr
  | ListingFailed rstr
  | StatFailed bytes rstr
  | ReadlinkFailed bytes rstr
  | SymlinkNotUtf8 bytes
  | ReadFailed bytes rstr
  | WriteFailed werror
  | InvalidDevicePath rstr
  | UnreadableWhileResolving int rstr
  | ComponentNotDirectory rstr rstr
  | UnreadableWhileCreating int rstr
  | ExistsNotDirectory rstr
  | CannotReadTable rstr
  | BadTableLine nat rstr
  | BadOctalMode nat rstr
  | InvalidNumber nat rstr

record populate_options =
  po_preserve_owner :: bool
  po_timestamp :: u32

section \<open>Choosing the file system\<close>

definition resolve_ufs :: "rstr \<Rightarrow> image \<Rightarrow> nat option \<Rightarrow> rstr option \<Rightarrow> (populate_error + ufs) option" where
  "resolve_ufs image_path img offset selector =
     (case (offset, selector) of
        (Some off, _) \<Rightarrow>
          map_option (\<lambda>found. case found of Some u \<Rightarrow> Inr u | None \<Rightarrow> Inl (NoUfsAtOffset off))
            (detect_ufs_at_start img off)
      | (None, Some sel) \<Rightarrow>
          do { r \<leftarrow> inspect_disk_image image_path ufs_detector img;
               (case r of Inl e \<Rightarrow> Some (Inl (CannotInspect e)) | Inr report \<Rightarrow>
                case get_vtoc_partition_by_selector report sel of Inl e \<Rightarrow> Some (Inl (SelectorFailed e)) | Inr p \<Rightarrow>
                  map_option (\<lambda>found. case found of Some u \<Rightarrow> Inr u | None \<Rightarrow> Inl (SliceIsNotUfs sel (vp_start_sector p)))
                    (detect_ufs_at_start img (umul (nat (max (vp_start_sector p) 0)) SECTOR_SIZE))) }
      | (None, None) \<Rightarrow>
          do { direct \<leftarrow> detect_ufs_at_start img 0;
               (case direct of Some u \<Rightarrow> Some (Inr u) | None \<Rightarrow>
                do { r \<leftarrow> inspect_disk_image image_path ufs_detector img;
                     (case r of Inl e \<Rightarrow> Some (Inl (CannotInspect e)) | Inr report \<Rightarrow>
                      case find (\<lambda>s. sf_filesystem s = Some (lit ''ufs'')) (dr_slice_filesystems report) of
                        None \<Rightarrow> Some (Inl NoUfsInImage)
                      | Some s \<Rightarrow>
                          map_option (\<lambda>found. case found of Some u \<Rightarrow> Inr u | None \<Rightarrow> Inl UfsVanished)
                            (detect_ufs_at_start img
                              (uadd (umul (nat (max (sf_absolute_start_sector s) 0)) SECTOR_SIZE)
                                 (sf_filesystem_offset s)))) }) })"

section \<open>Copying the tree\<close>

definition owner :: "host_meta \<Rightarrow> populate_options \<Rightarrow> u32 \<times> u32" where
  "owner meta options = (if po_preserve_owner options then (hm_uid meta, hm_gid meta) else (0, 0))"

definition split_rdev64 :: "u64 \<Rightarrow> u32 \<times> u32" where
  "split_rdev64 rdev =
     (let major = ucast ((drop_bit 8 rdev AND 0xFFF) OR (drop_bit 32 rdev AND NOT 0xFFF));
          minor = ucast ((rdev AND 0xFF) OR (drop_bit 12 rdev AND NOT 0xFF))
      in (major, minor))"

primrec collect_steps :: "dir_step list \<Rightarrow> populate_error + (bytes \<times> host_node) list" where
  "collect_steps [] = Inr []"
| "collect_steps (s # ss) =
     (case s of
        StepFailed m \<Rightarrow> Inl (ListingFailed m)
      | StepEntry name node \<Rightarrow> map_sum id ((#) (name, node)) (collect_steps ss))"

text \<open>A directory is listed in the order of the names, as bytes.\<close>

definition read_sorted :: "dir_step list \<Rightarrow> populate_error + (bytes \<times> host_node) list" where
  "read_sorted steps = map_sum id (sort_key fst) (collect_steps steps)"

type_synonym hardlinks = "u64 \<times> u64 \<rightharpoonup> int"

text \<open>
  A regular file: a further link of a file that was copied before, or a new file with the bytes of the
  host file.
\<close>

definition populate_file ::
    "ufs \<Rightarrow> populate_options \<Rightarrow> int \<Rightarrow> hardlinks \<Rightarrow> rstr \<Rightarrow> host_meta \<Rightarrow> u64 \<times> u64 \<Rightarrow> u64 \<Rightarrow> rstr + bytes \<Rightarrow>
     (image, populate_error, hardlinks) wm" where
  "populate_file u options parent_ino hl name meta key nlink contents =
     (let perm = hm_mode meta AND 0xFFF; (uid, gid) = owner meta options; ts = po_timestamp options in
      case (if nlink > 1 then hl key else None) of
        Some existing \<Rightarrow>
          wbind (wmap_err WriteFailed (link_in_parent u parent_ino name existing)) (\<lambda>_. wreturn hl)
      | None \<Rightarrow>
          (case contents of Inl m \<Rightarrow> wfail (ReadFailed name m) | Inr data \<Rightarrow>
           wbind (wmap_err WriteFailed (create_empty_in_parent u parent_ino name perm uid gid ts)) (\<lambda>ino.
           wbind (wmap_err WriteFailed (set_inode_contents u ino data)) (\<lambda>_.
           wreturn (if nlink > 1 then hl(key \<mapsto> ino) else hl)))))"

definition populate_device ::
    "ufs \<Rightarrow> populate_options \<Rightarrow> int \<Rightarrow> hardlinks \<Rightarrow> rstr \<Rightarrow> host_meta \<Rightarrow> u32 \<Rightarrow> u64 \<Rightarrow> (image, populate_error, hardlinks) wm" where
  "populate_device u options parent_ino hl name meta kind rdev =
     (let perm = hm_mode meta AND 0xFFF; (uid, gid) = owner meta options; (major, minor) = split_rdev64 rdev in
      wbind (wmap_err WriteFailed
               (mknod_in_parent u parent_ino name kind major minor perm uid gid (po_timestamp options))) (\<lambda>_.
      wreturn hl))"

definition populate_symlink ::
    "ufs \<Rightarrow> populate_options \<Rightarrow> int \<Rightarrow> hardlinks \<Rightarrow> rstr \<Rightarrow> host_meta \<Rightarrow> rstr + bytes \<Rightarrow> (image, populate_error, hardlinks) wm" where
  "populate_symlink u options parent_ino hl name meta target =
     (let (uid, gid) = owner meta options in
      case target of
        Inl m \<Rightarrow> wfail (ReadlinkFailed name m)
      | Inr t \<Rightarrow>
          if \<not> utf8_ok t then wfail (SymlinkNotUtf8 name) else
          wbind (wmap_err WriteFailed
                   (symlink_in_parent u parent_ino name t 0x1FF uid gid (po_timestamp options))) (\<lambda>_.
          wreturn hl))"

definition node_weight :: "(bytes \<times> host_node) list \<Rightarrow> nat" where
  "node_weight es = sum_list (map (\<lambda>(_, node). Suc (size node)) es)"

lemma node_weight_simps [simp]:
  "node_weight [] = 0" "node_weight ((name, node) # es) = Suc (size node) + node_weight es"
  by (simp_all add: node_weight_def)

lemma node_weight_insort: "node_weight (insort_key f e es) = node_weight (e # es)"
  by (induction es) (auto simp: node_weight_def)

lemma node_weight_sort: "node_weight (sort_key f es) = node_weight es"
  by (induction es) (simp_all add: node_weight_insort, simp_all add: node_weight_def)

lemma node_weight_collected: "collect_steps steps = Inr es \<Longrightarrow> node_weight es \<le> size_list size steps"
proof (induction steps arbitrary: es)
  case (Cons s ss)
  then show ?case by (cases s; cases "collect_steps ss") auto
qed simp

lemma node_weight_read: "read_sorted steps = Inr es \<Longrightarrow> node_weight es \<le> size_list size steps"
  by (cases "collect_steps steps") (auto simp: read_sorted_def node_weight_sort dest: node_weight_collected)

text \<open>The loop of \<^verbatim>\<open>populate_dir\<close> over the sorted entries, with its recursive call for a directory.\<close>

function populate_entries ::
    "ufs \<Rightarrow> populate_options \<Rightarrow> int \<Rightarrow> hardlinks \<Rightarrow> (bytes \<times> host_node) list \<Rightarrow> (image, populate_error, hardlinks) wm" where
  "populate_entries u options parent_ino hl [] = wreturn hl"
| "populate_entries u options parent_ino hl ((name, node) # es) =
     (if \<not> utf8_ok name then populate_entries u options parent_ino hl es else
      wbind
        (case node of
           NodeStatFailed m \<Rightarrow> wfail (StatFailed name m)
         | NodeDirectory meta steps \<Rightarrow>
             let perm = hm_mode meta AND 0xFFF; (uid, gid) = owner meta options in
             wbind (wmap_err WriteFailed
                      (mkdir_in_parent u parent_ino name perm uid gid (po_timestamp options))) (\<lambda>ino.
             case read_sorted steps of
               Inl e \<Rightarrow> wfail e
             | Inr entries \<Rightarrow> populate_entries u options ino hl entries)
         | NodeUnlistable meta m \<Rightarrow>
             let perm = hm_mode meta AND 0xFFF; (uid, gid) = owner meta options in
             wbind (wmap_err WriteFailed
                      (mkdir_in_parent u parent_ino name perm uid gid (po_timestamp options))) (\<lambda>_.
             wfail (CannotList m))
         | NodeSymlink meta target \<Rightarrow> populate_symlink u options parent_ino hl name meta target
         | NodeFile meta dev ino nlink contents \<Rightarrow>
             populate_file u options parent_ino hl name meta (dev, ino) nlink contents
         | NodeBlock meta rdev \<Rightarrow> populate_device u options parent_ino hl name meta UFS_IFBLK rdev
         | NodeChar meta rdev \<Rightarrow> populate_device u options parent_ino hl name meta UFS_IFCHR rdev
         | NodeOther meta \<Rightarrow> wreturn hl)
        (\<lambda>hl. populate_entries u options parent_ino hl es))"
  by pat_completeness auto
termination
proof (relation "measure (\<lambda>(_, _, _, _, es). node_weight es)", goal_cases)
  case (3 u options parent_ino hl name node es meta steps x xa y xb entries)
  then show ?case by (auto dest!: node_weight_read)
qed auto

definition populate_dir ::
    "ufs \<Rightarrow> populate_options \<Rightarrow> int \<Rightarrow> hardlinks \<Rightarrow> dir_step list \<Rightarrow> (image, populate_error, hardlinks) wm" where
  "populate_dir u options parent_ino hl steps =
     (case read_sorted steps of
        Inl e \<Rightarrow> wfail e
      | Inr entries \<Rightarrow> populate_entries u options parent_ino hl entries)"

section \<open>The device table\<close>

primrec descend :: "ufs \<Rightarrow> rstr \<Rightarrow> u32 \<Rightarrow> int \<Rightarrow> rstr list \<Rightarrow> (image, populate_error, int) wm" where
  "descend u path ts cur [] = wreturn cur"
| "descend u path ts cur (component # comps) =
     wbind (wread (\<lambda>img. read_inode img u cur)) (\<lambda>found.
     wbind (wok_or (UnreadableWhileResolving cur path) found) (\<lambda>parent.
     wbind (wread (\<lambda>img. lookup_directory_entry img u parent component)) (\<lambda>entry.
     case entry of
       Some (n, i) \<Rightarrow>
         if \<not> is_directory i then wfail (ComponentNotDirectory component path) else descend u path ts (uint n) comps
     | None \<Rightarrow>
         wbind (wmap_err WriteFailed (mkdir_in_parent u cur component 0x1ED 0 0 ts)) (\<lambda>n.
         descend u path ts n comps))))"

definition ensure_parent_dirs :: "ufs \<Rightarrow> rstr \<Rightarrow> u32 \<Rightarrow> (image, populate_error, int \<times> rstr) wm" where
  "ensure_parent_dirs u path ts =
     (let components = path_parts path in
      if components = [] then wfail (InvalidDevicePath path) else
      wbind (descend u path ts (uint UFS_ROOT_INODE) (butlast components)) (\<lambda>cur.
      wreturn (cur, last components)))"

definition ensure_dir_with_mode :: "ufs \<Rightarrow> rstr \<Rightarrow> u32 \<Rightarrow> u32 \<Rightarrow> (image, populate_error, unit) wm" where
  "ensure_dir_with_mode u path mode ts =
     wbind (ensure_parent_dirs u path ts) (\<lambda>(parent, name).
     wbind (wread (\<lambda>img. read_inode img u parent)) (\<lambda>found.
     wbind (wok_or (UnreadableWhileCreating parent path) found) (\<lambda>parent_inode.
     wbind (wread (\<lambda>img. lookup_directory_entry img u parent_inode name)) (\<lambda>entry.
     case entry of
       Some (number, i) \<Rightarrow>
         if \<not> is_directory i then wfail (ExistsNotDirectory path)
         else wmodify (set_inode_mode u (uint number) (UFS_IFDIR OR mode))
     | None \<Rightarrow>
         wbind (wmap_err WriteFailed (mkdir_in_parent u parent name mode 0 0 ts)) (\<lambda>_. wreturn ())))))"

definition parse_mode :: "rstr \<Rightarrow> nat \<Rightarrow> populate_error + u32" where
  "parse_mode value lineno =
     (case u32_from_str_radix 8 (strip_front [lit ''0o''] value) of
        Some m \<Rightarrow> Inr m
      | None \<Rightarrow> Inl (BadOctalMode (lineno + 1) value))"

definition parse_num :: "rstr \<Rightarrow> nat \<Rightarrow> populate_error + u32" where
  "parse_num value lineno =
     (case (case strip_prefix (lit ''0x'') value of
              Some hex \<Rightarrow> u32_from_str_radix 16 hex
            | None \<Rightarrow> u32_from_str_radix 10 value) of
        Some n \<Rightarrow> Inr n
      | None \<Rightarrow> Inl (InvalidNumber (lineno + 1) value))"

definition device_line :: "ufs \<Rightarrow> populate_options \<Rightarrow> nat \<Rightarrow> rstr list \<Rightarrow> (image, populate_error, unit) wm" where
  "device_line u options lineno words =
     (let bad = (\<lambda>msg. wfail (BadTableLine (lineno + 1) msg)); ts = po_timestamp options in
      case words of
        [] \<Rightarrow> bad (lit ''empty entry'')
      | [_] \<Rightarrow> bad (lit ''expected `path type ...`'')
      | path # kind # args \<Rightarrow>
          if kind = lit ''c'' \<or> kind = lit ''b'' then
            (case args of
               a0 # a1 # modes \<Rightarrow>
                 let file_type = (if kind = lit ''c'' then UFS_IFCHR else UFS_IFBLK) in
                 wbind (wlift (Some (parse_num a0 lineno))) (\<lambda>major.
                 wbind (wlift (Some (parse_num a1 lineno))) (\<lambda>minor.
                 wbind (case modes of m # _ \<Rightarrow> wlift (Some (parse_mode m lineno)) | [] \<Rightarrow> wreturn 0x180) (\<lambda>mode.
                 wbind (ensure_parent_dirs u path ts) (\<lambda>(parent, name).
                 wbind (wmap_err WriteFailed (mknod_in_parent u parent name file_type major minor mode 0 0 ts)) (\<lambda>_.
                 wreturn ())))))
             | _ \<Rightarrow> bad (lit ''expected `path c|b major minor [mode]`''))
          else if kind = lit ''d'' then
            (case args of
               m # _ \<Rightarrow>
                 wbind (wlift (Some (parse_mode m lineno))) (\<lambda>mode. ensure_dir_with_mode u path mode ts)
             | [] \<Rightarrow> bad (lit ''expected `path d octal-mode`''))
          else if kind = lit ''l'' then
            (case args of
               target # _ \<Rightarrow>
                 wbind (wread (\<lambda>img. resolve_path img u target)) (\<lambda>found.
                 wbind (wok_or (BadTableLine (lineno + 1)
                          (lit ''link target '' @ debug_str target @ lit '' does not exist'')) found) (\<lambda>(target_number, _).
                 wbind (ensure_parent_dirs u path ts) (\<lambda>(parent, name).
                 wmap_err WriteFailed (link_in_parent u parent name (uint target_number)))))
             | [] \<Rightarrow> bad (lit ''expected `path l target`''))
          else bad (lit ''type must be `c`, `b`, `d`, or `l`, got '' @ debug_str kind))"

text \<open>One line of the table: the text before a \<open>#\<close>, trimmed; nothing is done for an empty one.\<close>

definition table_line :: "ufs \<Rightarrow> populate_options \<Rightarrow> nat \<times> rstr \<Rightarrow> (image, populate_error, unit) wm" where
  "table_line u options = (\<lambda>(lineno, raw).
     let text = trim (hd (split_on 35 raw)) in
     if text = [] then wreturn () else device_line u options lineno (split_whitespace text))"

definition apply_device_table :: "ufs \<Rightarrow> rstr + bytes \<Rightarrow> populate_options \<Rightarrow> (image, populate_error, unit) wm" where
  "apply_device_table u table options =
     (case table of
        Inl m \<Rightarrow> wfail (CannotReadTable m)
      | Inr text \<Rightarrow>
          if \<not> utf8_ok text then wfail (CannotReadTable (lit ''stream did not contain valid UTF-8'')) else
          wfor (enumerate 0 (text_lines text)) (table_line u options))"

section \<open>The command\<close>

record populate_args =
  pa_offset :: "nat option"
  pa_slice :: "rstr option"
  pa_device_table :: "(rstr + bytes) option"
  pa_options :: populate_options

text \<open>
  The sysroot is what \<^verbatim>\<open>Path::is_dir\<close> and \<^verbatim>\<open>read_dir\<close> say of the path, both of which follow a symbolic link:
  \<open>None\<close> if it does not lead to a directory, otherwise the failure to list it or its listing.
\<close>

definition populate_run :: "rstr \<Rightarrow> (rstr + dir_step list) option \<Rightarrow> populate_args \<Rightarrow> (image, populate_error, unit) wm" where
  "populate_run image_path sysroot args =
     (case sysroot of
        None \<Rightarrow> wfail NotDirectory
      | Some listing \<Rightarrow>
          wbind (wread (\<lambda>img. resolve_ufs image_path img (pa_offset args) (pa_slice args))) (\<lambda>r.
          wbind (wlift (Some r)) (\<lambda>u.
          wbind (case listing of
                   Inl m \<Rightarrow> wfail (CannotList m)
                 | Inr steps \<Rightarrow> populate_dir u (pa_options args) (uint UFS_ROOT_INODE) Map.empty steps) (\<lambda>_.
          wbind (case pa_device_table args of
                   None \<Rightarrow> wreturn ()
                 | Some table \<Rightarrow> apply_device_table u table (pa_options args)) (\<lambda>_.
          wmap_err WriteFailed (recompute_summary_counts u))))))"

end
