(* ===== verification/Spec2Isabelle.thy ===== *)
theory Spec2Isabelle
  imports Check_Correct Mount_Attributes Format_Correct Disk_Correct Bfs_Correct Cli_Correct Populate Dir_Insert
begin

text \<open>
  A verification development for \<^verbatim>\<open>ufs_fuse\<close>: a reader, writer, formatter and checker of System V Release 4 UFS
  file systems in Rust, with the tools around it (disk images, the boot file system, a FUSE daemon, a tool that
  populates a slice).

  \<^bold>\<open>The program and its parts.\<close> An image is a mutable byte array, either in memory or a shared mapping of a file
  (\<^verbatim>\<open>svr4-fs-core\<close>). All library operations take the image, the detected file system (\<open>ufs\<close>: byte offset of the
  slice, byte offset of the superblock, parsed superblock) and their arguments; what they keep between calls is in
  the image alone. The allocator edits cylinder-group descriptors and superblock totals; the inode layer resolves and
  builds block lists on top of it; directories are files of 512-byte blocks; the namespace operations combine inode
  allocation, file contents and directory entries. The daemon adds a state of its own (open handles and buffered file
  bodies) and is a sequence of handler calls under one lock. The disk library reads and writes the partition table,
  pdinfo, VTOC and alternates of a whole disk and asks detectors what a slice holds.

  \<^bold>\<open>How the code is modelled.\<close>
  \<^item> An image and every buffer is a list of bytes (\<open>u8\<close> words). Fixed-width fields are words; \<^verbatim>\<open>i64\<close> arithmetic is on
    \<open>int\<close> with the wrap-around written out (\<open>i64\<close>), \<^verbatim>\<open>usize\<close> arithmetic on \<open>nat\<close> likewise (\<open>uadd\<close>, \<open>umul\<close>), because the
    release profile has no overflow checks; division truncates (\<open>sdiv\<close>, \<open>smod\<close>).
  \<^item> A panic is \<open>None\<close> (the profile aborts): every index and slice is checked by the model where Rust checks it.
  \<^item> A fallible writer is a function \<open>(image, error, 'a) wm\<close>: from an image to \<open>None\<close> or to an error or value together
    with the image as it then is, since an early return keeps what was written before it. Errors are datatypes with the
    arguments of the message; the text itself is modelled where the code looks at it (\<open>Errno\<close>) or prints it.
  \<^item> Loops are recursive functions with a termination proof. A loop that would not return is \<open>None\<close>; there is no fuel.
    A tree of indirect blocks is walked by recursion on its level.
  \<^item> The host (files, directories, clock, caller) is an argument of the definitions of the tools and of the daemon.

  \<^bold>\<open>Theories, by component.\<close>
  \<^item> \<open>Ufs_Prelude\<close> (words, wrap-around, checked slices, the monad and its weakest precondition \<open>wp\<close>), \<open>Rust_Std\<close> (updates
    of byte lists, \<^verbatim>\<open>div_ceil\<close>, decimal and lossy text) and \<open>Rust_Text\<close> (trimming, splitting, integer parsing).
  \<^item> \<open>Consts\<close>, \<open>Codec\<close>, \<open>Fs_Core\<close>: \<^verbatim>\<open>svr4-fs-core\<close> (\<^verbatim>\<open>consts.rs\<close>, \<^verbatim>\<open>codec.rs\<close>; \<^verbatim>\<open>image.rs\<close>, \<^verbatim>\<open>fs.rs\<close>, \<^verbatim>\<open>error.rs\<close>). The locale
    \<open>field_codec\<close> states a field as a reader and a writer with read-back and frame laws and is interpreted at 16, 32 and
    64 bits and the signed width; \<open>image_backing\<close> is interpreted on both backings, which are byte lists alike.
  \<^item> \<open>Superblock\<close>: \<^verbatim>\<open>svr4-ufs/superblock.rs\<close>, with the layout condition \<open>geometry_ok\<close> under which no address computation
    wraps and inode records are disjoint; what detection accepts is \<open>sb_plausible\<close>. \<open>Layout\<close>: where descriptors, superblock and data fragments lie.
  \<^item> \<open>Cylinder_Group\<close>, \<open>Alloc\<close>, \<open>Summary\<close>: \<^verbatim>\<open>alloc.rs\<close> (bitmaps and pristine groups; the six public operations; the
    recount). The locale \<open>bitmap\<close> is interpreted on the fragment and on the inode bitmap. \<open>Alloc_Correct\<close>,
    \<open>Alloc_Complete\<close>, \<open>Inode_Alloc\<close>: the invariant \<open>cgs_ok\<close> of the descriptors, the sets of busy fragments and used inodes,
    what each operation does to them, totality, and that the searches miss nothing. \<open>Ownership\<close>: the contract between
    the allocator and its clients as the locale \<open>allocator\<close>, with a client lemma on whole sequences of allocations.
  \<^item> \<open>Write_Error\<close>, \<open>Inode\<close>, \<open>Reader\<close>, \<open>Inode_Write\<close>: \<^verbatim>\<open>inode.rs\<close>, \<^verbatim>\<open>reader.rs\<close>, first part of \<^verbatim>\<open>write.rs\<close>. \<open>Inode_Record\<close>
    (records in place), \<open>Inode_Correct\<close> and \<open>Block_Lists\<close> (block lists and pointer trees are read back as built),
    \<open>File_Correct\<close> (well-formed files \<open>file_ok\<close>; replacing, truncating and reading contents; isolation of files), \<open>File_Write\<close>
    (the place of each byte of a file; the write at an offset, in place or with new last blocks).
  \<^item> \<open>Dir\<close>, \<open>Dir_Write\<close>, \<open>Namespace\<close>: \<^verbatim>\<open>dir.rs\<close> and the rest of \<^verbatim>\<open>write.rs\<close>. \<open>Dir_Correct\<close> (a directory as chains of records;
    insertion, removal, scans of damaged bytes), \<open>Dir_Image\<close> (lookup and deletion on the image as operations of a
    finite map) and \<open>Dir_Insert\<close> (insertion on the image, and the creation of a file in a parent directory, which composes
    inode allocation, the new record and the insertion; and the hard link, which composes the insertion and the link count).
  \<^item> \<open>Format\<close>: \<^verbatim>\<open>format.rs\<close>; \<open>Format_Correct\<close>: an accepted layout is detected again, it satisfies \<open>geometry_ok\<close> exactly
    when the bitmap of a group can hold its fragments (always with a disk geometry), and when detection cannot panic.
  \<^item> \<open>Check\<close>: \<^verbatim>\<open>check.rs\<close>; \<open>Check_Correct\<close>: it reports nothing exactly on a declaratively clean file system.
  \<^item> \<open>Bfs\<close>, \<open>Bfs_Correct\<close>: \<^verbatim>\<open>svr4-bfs\<close>. \<open>Disk\<close>, \<open>Disk_Create\<close>, \<open>Disk_Inspect\<close>, \<open>Disk_Correct\<close>: \<^verbatim>\<open>svr4-disk\<close>. \<open>Detectors\<close>: the
    \<^verbatim>\<open>detector.rs\<close> of both file systems.
  \<^item> \<open>Errno\<close>, \<open>Mount\<close>: \<^verbatim>\<open>svr4-ufs-mount\<close>, one definition per handler and the transition system \<open>reachable\<close>. \<open>Mount_Correct\<close>:
    its invariants, the refinement of buffered reads and writes to byte strings, and what a release leaves on the disk.
    \<open>Mount_Attributes\<close>: names lead to the attributes of the inodes they are bound to, and setting attributes is exact.
  \<^item> \<open>Disk_Image_Cli\<close>, \<open>Cli_Correct\<close>: \<^verbatim>\<open>svr4-disk-image\<close>, one definition per subcommand. \<open>Populate\<close>: \<^verbatim>\<open>svr4-ufs-populate\<close>.

  \<^bold>\<open>Hypotheses the theorems share.\<close> \<open>layout_ok\<close> (the geometry is one the formatter lays out, the slice starts below
  \<open>2 ^ 62\<close>), \<open>cgs_ok\<close> (descriptors fit the image and count no more fragments than there are), \<open>own u A img\<close> (the fragments
  of \<open>A\<close> are busy and inside the image), \<open>file_ok\<close> and \<open>dir_ok\<close> (the blocks resolve, are block addresses and are used
  once). \<open>Format_Correct\<close> shows when the first holds of what \<^verbatim>\<open>format.rs\<close> writes; every operation keeps the others. The sample
  file system at which they are discharged has two groups of 64 fragments of one KiB.

  \<^bold>\<open>Not modelled.\<close> Argument parsing and JSON output of the tools (third-party crates), opening, mapping and syncing of
  files beyond success or failure of \<^verbatim>\<open>msync\<close>, the FUSE session loop and its threads (the lock serialises the handlers),
  logging and warnings, out-of-memory. The boot code of the master boot record is a byte constant. Of the
  modelled code, no theorem is stated for the correctness of the recount (\<open>Summary\<close>), of the namespace operations other
  than the creation of a file and the hard link (\<open>Namespace\<close>, beyond their parts), of the error numbers chosen for a
  message (\<open>Errno\<close>) and of the populate tool. Two hypotheses bound what the theorems on writing cover: \<open>apply_inode_write\<close> is called at an offset inside the file or at its end (the only way the
  code calls it), and files have at most the blocks an inode can address.
\<close>

end
